(* ===== verification/Prelude.thy ===== *)
theory Prelude
  imports Main "HOL-Library.Word" "HOL-Library.Monad_Syntax"
begin

text \<open>
  Shared ground of the development: the firmware's base types and configuration constants
  (cfg.h and core/inc/cmn.h of the data backup and recovery modules), the status codes, the way C control
  flow is written in the option monad, and memory as an array of 32-bit words.

  A computation returns \<open>None\<close> exactly when the C code does not return: a loop that never
  ends, or a failed \<open>ASSERT\<close>, which the firmware defines as \<open>while((exp) != TRUE)\<close>.
  Everything else, errors included, is a value.
\<close>

unbundle bit_operations_syntax

type_synonym u8 = "8 word"
type_synonym u16 = "16 word"
type_synonym u32 = "32 word"
type_synonym u64 = "64 word"

section \<open>Status codes\<close>

datatype STATUS =
    STATUS_SUCCESS
  | STATUS_WRITE_PROTECTED
  | STATUS_BADBLOCK
  | STATUS_TOOMANY_BADBLOCK
  | STATUS_NO_DATA
  | STATUS_RECLAIM_NONE
  | STATUS_EMPTY_PAGE
  | STATUS_RAMBUFFER_FULL
  | STATUS_BDT_INIT_FAIL
  | STATUS_ROOT_INIT_FAIL
  | STATUS_HDI_INIT_FAIL
  | STATUS_UBI_FORMAT_ERROR
  | STATUS_DIE_BUSY
  | STATUS_ECC_ERROR
  | STATUS_PROGRAM_CHECKED
  | STATUS_WRITE_CACHE
  | STATUS_WRITE_REGROUP
  | STATUS_CACHE_WITH_REGROUP
  | STATUS_MERGE_WRITE_CACHE
  | STATUS_MERGE_WRITE_REGROUP
  | STATUS_FORMATTING
  | STATUS_NO_CONFIG
  | STATUS_NO_BUFFER
  | STATUS_ADDRESS_OVER
  | STATUS_WRITE_PROTECT
  | STATUS_SimulatedPowerLoss
  | STATUS_FAILURE

section \<open>Configuration (the K9WAG08 NAND of cfg.h)\<close>

named_theorems cfg_defs \<open>values of the configuration constants\<close>

definition GOOD_BLOCK_PERCENT :: u32 where "GOOD_BLOCK_PERCENT = 98"
definition OVER_PROVISION_RATE :: u32 where "OVER_PROVISION_RATE = 3"
definition STATIC_WL_THRESHOLD :: u32 where "STATIC_WL_THRESHOLD = 1000"
definition PMT_CACHE_COUNT :: u32 where "PMT_CACHE_COUNT = 4"

definition SECTOR_SIZE_SHIFT :: nat where "SECTOR_SIZE_SHIFT = 9"
definition SECTOR_PER_PAGE_SHIFT :: nat where "SECTOR_PER_PAGE_SHIFT = 2"
definition PAGE_PER_BLOCK_SHIFT :: nat where "PAGE_PER_BLOCK_SHIFT = 6"
definition BLOCK_PER_PLANE_SHIFT :: nat where "BLOCK_PER_PLANE_SHIFT = 11"
definition PLANE_PER_DIE_SHIFT :: nat where "PLANE_PER_DIE_SHIFT = 1"
definition DIE_PER_CHIP_SHIFT :: nat where "DIE_PER_CHIP_SHIFT = 0"
definition CHIP_COUNT_SHIFT :: nat where "CHIP_COUNT_SHIFT = 0"
definition CFG_NAND_COL_CYCLE :: u8 where "CFG_NAND_COL_CYCLE = 2"
definition CFG_NAND_ROW_CYCLE :: u8 where "CFG_NAND_ROW_CYCLE = 3"

definition SECTOR_SIZE :: u32 where "SECTOR_SIZE = push_bit SECTOR_SIZE_SHIFT 1"
definition SECTOR_PER_PAGE :: u32 where "SECTOR_PER_PAGE = push_bit SECTOR_PER_PAGE_SHIFT 1"
definition PAGE_SIZE :: u32 where "PAGE_SIZE = SECTOR_SIZE * SECTOR_PER_PAGE"
definition PLANE_PER_DIE :: u32 where "PLANE_PER_DIE = push_bit PLANE_PER_DIE_SHIFT 1"
definition SECTOR_PER_MPP :: u32 where "SECTOR_PER_MPP = SECTOR_PER_PAGE * PLANE_PER_DIE"
definition SECTOR_PER_MPP_SHIFT :: nat where
  "SECTOR_PER_MPP_SHIFT = SECTOR_PER_PAGE_SHIFT + PLANE_PER_DIE_SHIFT"
definition MPP_SIZE_SHIFT :: nat where "MPP_SIZE_SHIFT = SECTOR_SIZE_SHIFT + SECTOR_PER_MPP_SHIFT"
definition MPP_SIZE :: u32 where "MPP_SIZE = push_bit MPP_SIZE_SHIFT 1"
definition PAGE_PER_PHY_BLOCK :: u32 where "PAGE_PER_PHY_BLOCK = push_bit PAGE_PER_BLOCK_SHIFT 1"
definition DIE_PER_CHIP :: u32 where "DIE_PER_CHIP = push_bit DIE_PER_CHIP_SHIFT 1"
definition CHIP_COUNT :: u32 where "CHIP_COUNT = push_bit CHIP_COUNT_SHIFT 1"
definition TOTAL_DIE_SHIFT :: nat where "TOTAL_DIE_SHIFT = DIE_PER_CHIP_SHIFT + CHIP_COUNT_SHIFT"
definition TOTAL_DIE_COUNT :: u32 where "TOTAL_DIE_COUNT = push_bit TOTAL_DIE_SHIFT 1"
definition CFG_NAND_CHIP_COUNT :: u32 where "CFG_NAND_CHIP_COUNT = push_bit CHIP_COUNT_SHIFT 1"
definition CFG_PHY_BLOCK_COUNT :: u32 where
  "CFG_PHY_BLOCK_COUNT =
     push_bit (BLOCK_PER_PLANE_SHIFT + PLANE_PER_DIE_SHIFT + DIE_PER_CHIP_SHIFT + CHIP_COUNT_SHIFT) 1"
definition CFG_LOG_BLOCK_COUNT :: u32 where
  "CFG_LOG_BLOCK_COUNT =
     push_bit (BLOCK_PER_PLANE_SHIFT + DIE_PER_CHIP_SHIFT + CHIP_COUNT_SHIFT) 1"
definition CFG_NAND_ROW_COUNT :: u32 where
  "CFG_NAND_ROW_COUNT = CFG_PHY_BLOCK_COUNT * PAGE_PER_PHY_BLOCK"
definition CFG_PHY_BLOCK_PER_AREA :: u32 where
  "CFG_PHY_BLOCK_PER_AREA = MPP_SIZE div 2 div 4"
definition AREA_COUNT :: u32 where
  "AREA_COUNT = (CFG_LOG_BLOCK_COUNT + CFG_PHY_BLOCK_PER_AREA - 1) div CFG_PHY_BLOCK_PER_AREA"
definition AREA_TABLE_SIZE :: u32 where "AREA_TABLE_SIZE = MPP_SIZE div 2 div 2 div 4"
definition SPARE_BYTES_IN_PAGE :: u32 where "SPARE_BYTES_IN_PAGE = 16"
definition SPARE_WORDS_IN_PAGE :: u32 where "SPARE_WORDS_IN_PAGE = SPARE_BYTES_IN_PAGE div 4"
definition BUFFER_COUNT :: u32 where "BUFFER_COUNT = TOTAL_DIE_COUNT * 2 + 2"
definition THRESHOLD :: u32 where "THRESHOLD = 1024"
definition BACKUPFLAG :: u8 where "BACKUPFLAG = 128"

definition INVALID_LSADDR :: u32 where "INVALID_LSADDR = - 1"
definition INVALID_BLOCK :: u32 where "INVALID_BLOCK = - 1"
definition INVALID_AREA :: u32 where "INVALID_AREA = - 1"
definition INVALID_INDEX :: u32 where "INVALID_INDEX = - 1"
definition INVALID_PAGE :: u32 where "INVALID_PAGE = - 1"
definition INVALID_EC :: u32 where "INVALID_EC = - 1"
definition INVALID_CLUSTER :: u32 where "INVALID_CLUSTER = - 1"
definition MAX_UINT8 :: u8 where "MAX_UINT8 = - 1"
definition MAX_UINT32 :: u32 where "MAX_UINT32 = - 1"

lemma shift_values [simp, cfg_defs]:
  "SECTOR_SIZE_SHIFT = 9" "SECTOR_PER_PAGE_SHIFT = 2" "PAGE_PER_BLOCK_SHIFT = 6"
  "BLOCK_PER_PLANE_SHIFT = 11" "PLANE_PER_DIE_SHIFT = 1" "DIE_PER_CHIP_SHIFT = 0"
  "CHIP_COUNT_SHIFT = 0" "SECTOR_PER_MPP_SHIFT = 3" "MPP_SIZE_SHIFT = 12" "TOTAL_DIE_SHIFT = 0"
  by (simp_all add: SECTOR_SIZE_SHIFT_def SECTOR_PER_PAGE_SHIFT_def PAGE_PER_BLOCK_SHIFT_def
      BLOCK_PER_PLANE_SHIFT_def PLANE_PER_DIE_SHIFT_def DIE_PER_CHIP_SHIFT_def CHIP_COUNT_SHIFT_def
      SECTOR_PER_MPP_SHIFT_def MPP_SIZE_SHIFT_def TOTAL_DIE_SHIFT_def)

lemma size_values [simp, cfg_defs]:
  "SECTOR_SIZE = 512" "SECTOR_PER_PAGE = 4" "PAGE_SIZE = 2048" "PLANE_PER_DIE = 2"
  "SECTOR_PER_MPP = 8" "MPP_SIZE = 4096" "PAGE_PER_PHY_BLOCK = 64" "DIE_PER_CHIP = 1"
  "CHIP_COUNT = 1" "TOTAL_DIE_COUNT = 1" "CFG_NAND_CHIP_COUNT = 1"
  by (simp_all add: SECTOR_SIZE_def SECTOR_PER_PAGE_def PAGE_SIZE_def PLANE_PER_DIE_def
      SECTOR_PER_MPP_def MPP_SIZE_def PAGE_PER_PHY_BLOCK_def DIE_PER_CHIP_def CHIP_COUNT_def
      TOTAL_DIE_COUNT_def CFG_NAND_CHIP_COUNT_def)

lemma count_values [simp, cfg_defs]:
  "CFG_PHY_BLOCK_COUNT = 4096" "CFG_LOG_BLOCK_COUNT = 2048" "CFG_NAND_ROW_COUNT = 262144"
  "CFG_PHY_BLOCK_PER_AREA = 512" "AREA_COUNT = 4" "AREA_TABLE_SIZE = 256"
  "SPARE_BYTES_IN_PAGE = 16" "SPARE_WORDS_IN_PAGE = 4" "BUFFER_COUNT = 4"
  by (simp_all add: CFG_PHY_BLOCK_COUNT_def CFG_LOG_BLOCK_COUNT_def CFG_NAND_ROW_COUNT_def
      CFG_PHY_BLOCK_PER_AREA_def AREA_COUNT_def AREA_TABLE_SIZE_def SPARE_BYTES_IN_PAGE_def
      SPARE_WORDS_IN_PAGE_def BUFFER_COUNT_def)

lemma tuning_values [simp, cfg_defs]:
  "GOOD_BLOCK_PERCENT = 98" "OVER_PROVISION_RATE = 3" "STATIC_WL_THRESHOLD = 1000"
  "PMT_CACHE_COUNT = 4" "CFG_NAND_COL_CYCLE = 2" "CFG_NAND_ROW_CYCLE = 3"
  "THRESHOLD = 1024" "BACKUPFLAG = 128"
  by (simp_all add: GOOD_BLOCK_PERCENT_def OVER_PROVISION_RATE_def STATIC_WL_THRESHOLD_def
      PMT_CACHE_COUNT_def CFG_NAND_COL_CYCLE_def CFG_NAND_ROW_CYCLE_def THRESHOLD_def BACKUPFLAG_def)

lemma invalid_values [simp, cfg_defs]:
  "INVALID_LSADDR = - 1" "INVALID_BLOCK = - 1" "INVALID_AREA = - 1" "INVALID_INDEX = - 1"
  "INVALID_PAGE = - 1" "INVALID_EC = - 1" "INVALID_CLUSTER = - 1" "MAX_UINT8 = - 1"
  "MAX_UINT32 = - 1"
  by (simp_all add: INVALID_LSADDR_def INVALID_BLOCK_def INVALID_AREA_def INVALID_INDEX_def
      INVALID_PAGE_def INVALID_EC_def INVALID_CLUSTER_def MAX_UINT8_def MAX_UINT32_def)

section \<open>Control flow\<close>

definition ASSERT :: "bool \<Rightarrow> unit option" where
  "ASSERT b = (if b then Some () else None)"

lemma ASSERT_simps [simp]: "ASSERT True = Some ()" "ASSERT False = None"
  by (simp_all add: ASSERT_def)

lemma ASSERT_eq_Some [simp]: "ASSERT b = Some u \<longleftrightarrow> b"
  by (simp add: ASSERT_def)

text \<open>The indices of \<open>for (i = a; i < b; i++)\<close> over unsigned 32-bit counters.\<close>

definition upto_u32 :: "u32 \<Rightarrow> u32 \<Rightarrow> u32 list" where
  "upto_u32 a b = map of_nat [unat a ..< unat b]"

lemma unat_u32_less: "unat (w :: u32) < 4294967296"
  by (rule order_less_le_trans [OF unsigned_less]) simp

lemma unat_eq_iff_of_nat: "n < 4294967296 \<Longrightarrow> n = unat i \<longleftrightarrow> (i :: u32) = of_nat n"
  by (auto simp: unat_of_nat)

lemma set_upto_u32: "set (upto_u32 a b) = {i. a \<le> i \<and> i < b}"
proof
  show "set (upto_u32 a b) \<subseteq> {i. a \<le> i \<and> i < b}"
  proof
    fix i assume "i \<in> set (upto_u32 a b)"
    then obtain n where n: "unat a \<le> n" "n < unat b" "i = of_nat n"
      by (auto simp: upto_u32_def)
    have "n < 4294967296" using n unat_u32_less [of b] by linarith
    then have "unat i = n"
      using n by (simp add: unat_of_nat)
    then show "i \<in> {i. a \<le> i \<and> i < b}"
      using n by (simp add: word_le_nat_alt word_less_nat_alt)
  qed
  show "{i. a \<le> i \<and> i < b} \<subseteq> set (upto_u32 a b)"
  proof
    fix i assume "i \<in> {i. a \<le> i \<and> i < b}"
    then have "unat i \<in> set [unat a ..< unat b]"
      by (simp add: word_le_nat_alt word_less_nat_alt)
    then have "of_nat (unat i) \<in> set (upto_u32 a b)"
      unfolding upto_u32_def set_map by (rule imageI)
    then show "i \<in> set (upto_u32 a b)" by simp
  qed
qed

lemma upto_u32_numeral [simp]:
  "upto_u32 (numeral a) (numeral b) =
     map of_nat [unat (numeral a :: u32) ..< unat (numeral b :: u32)]"
  "upto_u32 0 (numeral b) = map of_nat [0 ..< unat (numeral b :: u32)]"
  "upto_u32 0 1 = [0]"
  by (simp_all add: upto_u32_def)

fun for_each :: "'i list \<Rightarrow> ('i \<Rightarrow> 's \<Rightarrow> 's option) \<Rightarrow> 's \<Rightarrow> 's option" where
  "for_each [] f s = Some s"
| "for_each (i # is) f s = do { s \<leftarrow> f i s; for_each is f s }"

text \<open>A loop whose body may \<open>break\<close>: the body returns whether it did.\<close>

fun for_break :: "'i list \<Rightarrow> ('i \<Rightarrow> 's \<Rightarrow> (bool \<times> 's) option) \<Rightarrow> 's \<Rightarrow> 's option" where
  "for_break [] f s = Some s"
| "for_break (i # is) f s = do { (b, s) \<leftarrow> f i s; if b then Some s else for_break is f s }"

lemma for_each_append:
  "for_each (xs @ ys) f s = do { s \<leftarrow> for_each xs f s; for_each ys f s }"
  by (induction xs arbitrary: s) (auto split: Option.bind_split)

lemma for_each_total:
  assumes "\<And>i s. i \<in> set is \<Longrightarrow> P s \<Longrightarrow> \<exists>s'. f i s = Some s' \<and> P s'"
    and "P s"
  shows "\<exists>s'. for_each is f s = Some s' \<and> P s'"
  using assms
proof (induction "is" arbitrary: s)
  case Nil
  then show ?case by simp
next
  case (Cons i "is")
  then obtain s1 where "f i s = Some s1" "P s1" by (metis list.set_intros(1))
  with Cons show ?case by simp
qed

lemma for_each_keeps:
  assumes "\<And>i s s'. i \<in> set is \<Longrightarrow> P s \<Longrightarrow> f i s = Some s' \<Longrightarrow> P s'"
    and "for_each is f s = Some s'" and "P s"
  shows "P s'"
  using assms
proof (induction "is" arbitrary: s)
  case Nil
  then show ?case by simp
next
  case (Cons i "is")
  from Cons.prems(2) obtain s1 where "f i s = Some s1" "for_each is f s1 = Some s'"
    by (auto split: Option.bind_splits)
  with Cons show ?case by (metis list.set_intros)
qed

lemma for_break_keeps:
  assumes "\<And>i s b s'. i \<in> set is \<Longrightarrow> P s \<Longrightarrow> f i s = Some (b, s') \<Longrightarrow> P s'"
    and "for_break is f s = Some s'" and "P s"
  shows "P s'"
  using assms
proof (induction "is" arbitrary: s)
  case Nil
  then show ?case by simp
next
  case (Cons i "is")
  from Cons.prems(2) obtain b s1 where 1: "f i s = Some (b, s1)"
    and 2: "if b then s1 = s' else for_break is f s1 = Some s'"
    by (auto split: Option.bind_splits if_splits)
  have P1: "P s1" using Cons.prems(1) [OF _ Cons.prems(3) 1] by simp
  show ?case
  proof (cases b)
    case True
    with 2 P1 show ?thesis by simp
  next
    case False
    with 2 have "for_break is f s1 = Some s'" by simp
    then show ?thesis using Cons.IH [OF _ _ P1] Cons.prems(1) by (meson list.set_intros(2))
  qed
qed

section \<open>Memory\<close>

text \<open>
  A buffer is an array of 32-bit words, indexed from the pointer that denotes it; entries past
  the C object's end stand for whatever follows it in memory, so an access that runs off the end
  is visible in the model. A pointer that may be NULL is an option.
\<close>

type_synonym mem = "nat \<Rightarrow> u32"

definition memcpy_words :: "nat \<Rightarrow> mem \<Rightarrow> mem \<Rightarrow> mem" where
  "memcpy_words n src dst = (\<lambda>i. if i < n then src i else dst i)"

definition memset_words :: "nat \<Rightarrow> u32 \<Rightarrow> mem \<Rightarrow> mem" where
  "memset_words n v dst = (\<lambda>i. if i < n then v else dst i)"

text \<open>\<open>ptr_add k m\<close> is the memory seen from \<open>m + k\<close>; \<open>ptr_sub k v m\<close> puts that view back.\<close>

definition ptr_add :: "nat \<Rightarrow> mem \<Rightarrow> mem" where
  "ptr_add k m = (\<lambda>i. m (k + i))"

definition ptr_sub :: "nat \<Rightarrow> mem \<Rightarrow> mem \<Rightarrow> mem" where
  "ptr_sub k v m = (\<lambda>i. if i < k then m i else v (i - k))"

definition clip :: "nat \<Rightarrow> mem \<Rightarrow> mem" where
  "clip n m = (\<lambda>i. if i < n then m i else 0)"

named_theorems mem_simps \<open>reading through copies and views\<close>

lemma memcpy_words_apply [mem_simps]: "memcpy_words n src dst i = (if i < n then src i else dst i)"
  by (simp add: memcpy_words_def)

lemma memset_words_apply [mem_simps]: "memset_words n v dst i = (if i < n then v else dst i)"
  by (simp add: memset_words_def)

lemma ptr_apply [mem_simps]:
  "ptr_add k m i = m (k + i)"
  "ptr_sub k v m i = (if i < k then m i else v (i - k))"
  "clip n m i = (if i < n then m i else 0)"
  by (simp_all add: ptr_add_def ptr_sub_def clip_def)

lemma ptr_add_0 [simp]: "ptr_add 0 m = m"
  by (simp add: ptr_add_def)

lemma ptr_sub_0 [simp]: "ptr_sub 0 v m = v"
  by (simp add: ptr_sub_def)

lemma memcpy_words_clip [simp]: "memcpy_words n (clip n m) = memcpy_words n m"
  by (simp add: memcpy_words_def clip_def fun_eq_iff)

lemma clip_clip [simp]: "clip n (clip n m) = clip n m"
  by (simp add: clip_def fun_eq_iff)

lemma clip_memcpy [simp]: "clip n (memcpy_words n m d) = clip n m"
  by (simp add: memcpy_words_def clip_def fun_eq_iff)

text \<open>UINT8 arrays inside a page, least significant byte first as on the ARM target.\<close>

definition bytes_of :: "mem \<Rightarrow> nat \<Rightarrow> u8" where
  "bytes_of m k = ucast (drop_bit (8 * (k mod 4)) (m (k div 4)))"

definition pack_u8 :: "u8 \<Rightarrow> u8 \<Rightarrow> u8 \<Rightarrow> u8 \<Rightarrow> u32" where
  "pack_u8 a b c d =
     ucast a OR push_bit 8 (ucast b) OR push_bit 16 (ucast c) OR push_bit 24 (ucast d)"

definition words_of :: "(nat \<Rightarrow> u8) \<Rightarrow> mem" where
  "words_of b i = pack_u8 (b (4 * i)) (b (4 * i + 1)) (b (4 * i + 2)) (b (4 * i + 3))"

lemma bit_u8_beyond: "8 \<le> n \<Longrightarrow> \<not> bit (w :: u8) n"
  using bit_imp_le_length by fastforce

lemma bit_pack_u8: "bit (pack_u8 a b c d) n \<longleftrightarrow> n < 32 \<and>
   (bit a n \<or> 8 \<le> n \<and> bit b (n - 8) \<or> 16 \<le> n \<and> bit c (n - 16) \<or> 24 \<le> n \<and> bit d (n - 24))"
  by (auto simp add: pack_u8_def bit_or_iff bit_push_bit_iff bit_ucast_iff bit_u8_beyond
      dest: bit_imp_le_length)

lemma bit_pack_u8_add:
  assumes "r < 8"
  shows "bit (pack_u8 a b c d) r = bit a r"
    and "bit (pack_u8 a b c d) (8 + r) = bit b r"
    and "bit (pack_u8 a b c d) (16 + r) = bit c r"
    and "bit (pack_u8 a b c d) (24 + r) = bit d r"
  using assms by (simp_all add: bit_pack_u8 bit_u8_beyond)

lemma bit_words_of:
  assumes "q < 4" and "r < 8"
  shows "bit (words_of b i) (8 * q + r) = bit (b (4 * i + q)) r"
proof -
  from assms(1) consider "q = 0" | "q = 1" | "q = 2" | "q = 3" by linarith
  then show ?thesis
    using bit_pack_u8_add [OF assms(2)] by cases (simp_all add: words_of_def)
qed

lemma bytes_of_words_of [simp]: "bytes_of (words_of b) = b"
proof
  fix k
  show "bytes_of (words_of b) k = b k"
  proof (rule bit_word_eqI)
    fix n assume "n < LENGTH(8)"
    then have n: "n < 8" by simp
    have "bit (words_of b (k div 4)) (8 * (k mod 4) + n) = bit (b (4 * (k div 4) + k mod 4)) n"
      using n by (intro bit_words_of) simp_all
    then show "bit (bytes_of (words_of b) k) n = bit (b k) n"
      using n by (simp add: bytes_of_def bit_ucast_iff bit_drop_bit_eq)
  qed
qed

lemma words_of_bytes_of [simp]: "words_of (bytes_of m) = m"
proof
  fix i
  show "words_of (bytes_of m) i = m i"
  proof (rule bit_word_eqI)
    fix n assume "n < LENGTH(32)"
    then have q: "n div 8 < 4" and r: "n mod 8 < 8" by simp_all
    have "bit (words_of (bytes_of m) i) (8 * (n div 8) + n mod 8) =
        bit (bytes_of m (4 * i + n div 8)) (n mod 8)"
      by (rule bit_words_of [OF q r])
    also have "\<dots> = bit (m i) n"
      using q r by (simp add: bytes_of_def bit_ucast_iff bit_drop_bit_eq)
    finally show "bit (words_of (bytes_of m) i) n = bit (m i) n" by simp
  qed
qed

lemma words_of_cong: "(\<And>k. k < 4 * n \<Longrightarrow> b k = b' k) \<Longrightarrow> i < n \<Longrightarrow> words_of b i = words_of b' i"
  by (simp add: words_of_def)

end
