(* ===== verification/Nand.thy ===== *)
theory Nand
  imports Prelude
begin

text \<open>
  The NAND driver interface of core/mtd/mtd_nand.h as a record of operations, the simulated NAND of
  core/mtd/mtd_nand_sim.c that provides it, and the contract \<open>nand_driver\<close> that the MTD layer relies
  on. A driver operation returns \<open>None\<close> where an \<open>ASSERT\<close> of the driver fails. A buffer argument is
  the contents of the memory it points to, or \<open>None\<close> for NULL; an operation that stores through the
  pointer returns the new contents.
\<close>

section \<open>The interface\<close>

datatype NAND_CMD =
    CMD_READ | CMD_READ_COMMIT | CMD_READ_ID | CMD_RESET
  | CMD_PAGE_PROGRAM | CMD_PAGE_PROGRAM_COMMIT | CMD_PROGRAM_FAKE_COMMIT | CMD_PAGE_FAKE_PROGRAM
  | CMD_BLOCK_ERASE | CMD_BLOCK_ERASE_COMMIT
  | CMD_RANDOM_DATA_IN | CMD_RANDOM_DATA_OUT | CMD_RANDOM_DATA_OUT_COMMIT
  | CMD_READ_STATUS | CMD_READ_STATUS_DIE1 | CMD_READ_STATUS_DIE2

definition NAND_STATUS_FAIL_BIT :: u8 where "NAND_STATUS_FAIL_BIT = 0x01"
definition NAND_STATUS_READY_BIT :: u8 where "NAND_STATUS_READY_BIT = 0x40"

definition NAND_STATUS_BUSY :: "u8 \<Rightarrow> bool" where
  "NAND_STATUS_BUSY s = (s AND NAND_STATUS_READY_BIT = 0)"

definition NAND_STATUS_FAIL :: "u8 \<Rightarrow> bool" where
  "NAND_STATUS_FAIL s = (s AND NAND_STATUS_FAIL_BIT = 1)"

text \<open>Sizes in 32-bit words: a plane page and the spare area.\<close>

definition PAGE_WORDS :: nat where "PAGE_WORDS = unat PAGE_SIZE div 4"
definition SPARE_WORDS :: nat where "SPARE_WORDS = unat SPARE_BYTES_IN_PAGE div 4"

lemma page_words_values [simp, cfg_defs]: "PAGE_WORDS = 512" "SPARE_WORDS = 4"
  by (simp_all add: PAGE_WORDS_def SPARE_WORDS_def)

record 'd nand_ops =
  NAND_Init :: "'d \<Rightarrow> 'd"
  NAND_SelectChip :: "u8 \<Rightarrow> 'd \<Rightarrow> 'd"
  NAND_SendCMD :: "NAND_CMD \<Rightarrow> 'd \<Rightarrow> 'd option"
  NAND_SendAddr :: "u16 \<Rightarrow> u32 \<Rightarrow> u8 \<Rightarrow> u8 \<Rightarrow> 'd \<Rightarrow> 'd option"
  NAND_SendData :: "mem option \<Rightarrow> mem option \<Rightarrow> 'd \<Rightarrow> 'd option"
  NAND_ReceiveData :: "mem option \<Rightarrow> mem option \<Rightarrow> 'd \<Rightarrow> (STATUS \<times> mem option \<times> mem option \<times> 'd) option"
  NAND_ReceiveBytes :: "u8 \<Rightarrow> 'd \<Rightarrow> (u8 list \<times> 'd) option"
  NAND_ECCStatus :: "'d \<Rightarrow> bool \<times> u8"
  NAND_WaitRB :: "u8 \<Rightarrow> 'd \<Rightarrow> 'd"

section \<open>The simulated NAND\<close>

datatype SIM_NAND_STATE = SIM_NAND_PROGRAMMED | SIM_NAND_ERASED

datatype NAND_STATE =
  STATE_READ | STATE_PROGRAM | STATE_ERASE | STATE_READID | STATE_READSTATUS | STATE_RESET

record SIM_COLUMN =
  main_data :: mem
  spare_data :: mem
  col_state :: SIM_NAND_STATE

text \<open>All bytes 0xff, the \<open>state\<close> field included, where it reads as \<open>SIM_NAND_ERASED\<close>.\<close>

definition erased_column :: SIM_COLUMN where
  "erased_column = \<lparr>main_data = (\<lambda>_. - 1), spare_data = (\<lambda>_. - 1), col_state = SIM_NAND_ERASED\<rparr>"

record sim_state =
  sim_nand :: "u8 \<Rightarrow> u32 \<Rightarrow> SIM_COLUMN"
  sim_nand_status :: u8
  sim_nand_state :: NAND_STATE
  sim_nand_chip :: u8
  sim_nand_col_addr :: u16
  sim_nand_row_addr :: u32

definition sim_nand_id :: "u8 list" where
  "sim_nand_id = [0xff, 0xff, 0x55, 0x05, 0x08]"

definition sim_Init :: "sim_state \<Rightarrow> sim_state" where
  "sim_Init d = d\<lparr>sim_nand_state := STATE_READ, sim_nand_chip := 0, sim_nand_col_addr := 0,
     sim_nand_row_addr := 0, sim_nand := (\<lambda>_ _. erased_column)\<rparr>"

definition sim_SelectChip :: "u8 \<Rightarrow> sim_state \<Rightarrow> sim_state" where
  "sim_SelectChip chip d = d\<lparr>sim_nand_chip := chip\<rparr>"

definition sim_SendCMD :: "NAND_CMD \<Rightarrow> sim_state \<Rightarrow> sim_state option" where
  "sim_SendCMD cmd d = Some (case cmd of
     CMD_READ \<Rightarrow> d\<lparr>sim_nand_state := STATE_READ\<rparr>
   | CMD_READ_COMMIT \<Rightarrow> d\<lparr>sim_nand_state := STATE_READ\<rparr>
   | CMD_READ_ID \<Rightarrow> d\<lparr>sim_nand_state := STATE_READID\<rparr>
   | CMD_RESET \<Rightarrow> d\<lparr>sim_nand_state := STATE_RESET, sim_nand_col_addr := 0, sim_nand_row_addr := 0\<rparr>
   | CMD_PAGE_PROGRAM \<Rightarrow> d\<lparr>sim_nand_state := STATE_PROGRAM\<rparr>
   | CMD_PAGE_PROGRAM_COMMIT \<Rightarrow> d\<lparr>sim_nand_state := STATE_PROGRAM\<rparr>
   | CMD_PROGRAM_FAKE_COMMIT \<Rightarrow> d\<lparr>sim_nand_state := STATE_PROGRAM\<rparr>
   | CMD_PAGE_FAKE_PROGRAM \<Rightarrow> d\<lparr>sim_nand_state := STATE_PROGRAM\<rparr>
   | CMD_BLOCK_ERASE \<Rightarrow> d\<lparr>sim_nand_state := STATE_ERASE\<rparr>
   | CMD_BLOCK_ERASE_COMMIT \<Rightarrow> d\<lparr>sim_nand_state := STATE_ERASE\<rparr>
   | CMD_RANDOM_DATA_IN \<Rightarrow> d
   | CMD_RANDOM_DATA_OUT \<Rightarrow> d\<lparr>sim_nand_state := STATE_READ\<rparr>
   | CMD_RANDOM_DATA_OUT_COMMIT \<Rightarrow> d\<lparr>sim_nand_state := STATE_READ\<rparr>
   | CMD_READ_STATUS \<Rightarrow> d\<lparr>sim_nand_state := STATE_READSTATUS\<rparr>
   | CMD_READ_STATUS_DIE1 \<Rightarrow> d\<lparr>sim_nand_state := STATE_READSTATUS\<rparr>
   | CMD_READ_STATUS_DIE2 \<Rightarrow> d\<lparr>sim_nand_state := STATE_READSTATUS\<rparr>)"

definition sim_erase_rows :: "u8 \<Rightarrow> u32 \<Rightarrow> (u8 \<Rightarrow> u32 \<Rightarrow> SIM_COLUMN) \<Rightarrow> u8 \<Rightarrow> u32 \<Rightarrow> SIM_COLUMN" where
  "sim_erase_rows chip row =
     fold (\<lambda>i nand. nand(chip := (nand chip)(row + i := erased_column))) (upto_u32 0 PAGE_PER_PHY_BLOCK)"

definition sim_SendAddr :: "u16 \<Rightarrow> u32 \<Rightarrow> u8 \<Rightarrow> u8 \<Rightarrow> sim_state \<Rightarrow> sim_state option" where
  "sim_SendAddr col row col_cycle row_cycle d =
     (let d = d\<lparr>sim_nand_col_addr := col, sim_nand_row_addr := row\<rparr> in
      if sim_nand_state d = STATE_ERASE
      then Some (d\<lparr>sim_nand := sim_erase_rows (sim_nand_chip d) row (sim_nand d)\<rparr>)
      else Some d)"

definition sim_SendData :: "mem option \<Rightarrow> mem option \<Rightarrow> sim_state \<Rightarrow> sim_state option" where
  "sim_SendData buffer spare d = do {
     ASSERT (sim_nand_state d = STATE_PROGRAM);
     ASSERT (sim_nand_row_addr d < CFG_NAND_ROW_COUNT * CFG_NAND_CHIP_COUNT);
     let col = sim_nand d (sim_nand_chip d) (sim_nand_row_addr d);
     ASSERT (col_state col = SIM_NAND_ERASED);
     let col = col\<lparr>col_state := SIM_NAND_PROGRAMMED\<rparr>;
     let col = (case spare of None \<Rightarrow> col
                | Some sp \<Rightarrow> col\<lparr>spare_data := memcpy_words SPARE_WORDS sp (spare_data col)\<rparr>);
     let col = (case buffer of None \<Rightarrow> col
                | Some b \<Rightarrow> col\<lparr>main_data := memcpy_words PAGE_WORDS b (main_data col)\<rparr>);
     Some (d\<lparr>sim_nand := (sim_nand d)(sim_nand_chip d :=
                (sim_nand d (sim_nand_chip d))(sim_nand_row_addr d := col))\<rparr>) }"

definition sim_ReceiveData ::
  "mem option \<Rightarrow> mem option \<Rightarrow> sim_state \<Rightarrow> (STATUS \<times> mem option \<times> mem option \<times> sim_state) option" where
  "sim_ReceiveData buffer spare d = do {
     ASSERT (sim_nand_state d = STATE_READ \<or> sim_nand_state d = STATE_READSTATUS);
     let d = d\<lparr>sim_nand_state := STATE_READ\<rparr>;
     let col = sim_nand d (sim_nand_chip d) (sim_nand_row_addr d);
     let buffer = map_option (memcpy_words PAGE_WORDS (main_data col)) buffer;
     let spare = map_option (memcpy_words SPARE_WORDS (spare_data col)) spare;
     let ret = (if col_state col = SIM_NAND_ERASED then STATUS_FAILURE else STATUS_SUCCESS);
     Some (ret, buffer, spare, d) }"

definition sim_ReceiveBytes :: "u8 \<Rightarrow> sim_state \<Rightarrow> (u8 list \<times> sim_state) option" where
  "sim_ReceiveBytes len d =
     (if sim_nand_state d = STATE_READID then do {
        ASSERT (unat len = length sim_nand_id);
        Some (sim_nand_id, d) }
      else if sim_nand_state d = STATE_READSTATUS then do {
        ASSERT (len = 1);
        Some ([sim_nand_status d OR NAND_STATUS_READY_BIT], d) }
      else if sim_nand_state d = STATE_READ then do {
        ASSERT (sim_nand_col_addr d = ucast PAGE_SIZE);
        Some ([0xff], d) }
      else do { ASSERT False; Some ([], d) })"

definition sim_ECCStatus :: "sim_state \<Rightarrow> bool \<times> u8" where
  "sim_ECCStatus d = (False, 1)"

definition sim_WaitRB :: "u8 \<Rightarrow> sim_state \<Rightarrow> sim_state" where
  "sim_WaitRB chip d = d"

definition sim_ops :: "sim_state nand_ops" where
  "sim_ops = \<lparr>NAND_Init = sim_Init, NAND_SelectChip = sim_SelectChip, NAND_SendCMD = sim_SendCMD,
     NAND_SendAddr = sim_SendAddr, NAND_SendData = sim_SendData, NAND_ReceiveData = sim_ReceiveData,
     NAND_ReceiveBytes = sim_ReceiveBytes, NAND_ECCStatus = sim_ECCStatus, NAND_WaitRB = sim_WaitRB\<rparr>"

section \<open>What the MTD layer relies on\<close>

text \<open>
  A driver with no failing device behind it. \<open>mode\<close>, \<open>chip\<close> and \<open>row\<close> are what the last commands
  selected, \<open>column\<close> what a plane page holds (\<open>None\<close> when erased), \<open>ok\<close> an invariant of the driver.
\<close>

definition mode_after :: "NAND_CMD \<Rightarrow> NAND_STATE \<Rightarrow> NAND_STATE" where
  "mode_after cmd s = (case cmd of
     CMD_READ \<Rightarrow> STATE_READ | CMD_READ_COMMIT \<Rightarrow> STATE_READ | CMD_READ_ID \<Rightarrow> STATE_READID
   | CMD_RESET \<Rightarrow> STATE_RESET
   | CMD_PAGE_PROGRAM \<Rightarrow> STATE_PROGRAM | CMD_PAGE_PROGRAM_COMMIT \<Rightarrow> STATE_PROGRAM
   | CMD_PROGRAM_FAKE_COMMIT \<Rightarrow> STATE_PROGRAM | CMD_PAGE_FAKE_PROGRAM \<Rightarrow> STATE_PROGRAM
   | CMD_BLOCK_ERASE \<Rightarrow> STATE_ERASE | CMD_BLOCK_ERASE_COMMIT \<Rightarrow> STATE_ERASE
   | CMD_RANDOM_DATA_IN \<Rightarrow> s
   | CMD_RANDOM_DATA_OUT \<Rightarrow> STATE_READ | CMD_RANDOM_DATA_OUT_COMMIT \<Rightarrow> STATE_READ
   | CMD_READ_STATUS \<Rightarrow> STATE_READSTATUS | CMD_READ_STATUS_DIE1 \<Rightarrow> STATE_READSTATUS
   | CMD_READ_STATUS_DIE2 \<Rightarrow> STATE_READSTATUS)"

lemmas mode_after_simps [simp] = mode_after_def [of "CMD_READ"] mode_after_def [of "CMD_READ_COMMIT"]
  mode_after_def [of "CMD_PAGE_PROGRAM"] mode_after_def [of "CMD_PAGE_PROGRAM_COMMIT"]
  mode_after_def [of "CMD_PROGRAM_FAKE_COMMIT"] mode_after_def [of "CMD_PAGE_FAKE_PROGRAM"]
  mode_after_def [of "CMD_BLOCK_ERASE"] mode_after_def [of "CMD_BLOCK_ERASE_COMMIT"]
  mode_after_def [of "CMD_READ_STATUS"] mode_after_def [of "CMD_RANDOM_DATA_OUT"]
  mode_after_def [of "CMD_RANDOM_DATA_OUT_COMMIT"] mode_after_def [of "CMD_RESET"]
  mode_after_def [of "CMD_READ_ID"]

text \<open>A page programmed without spare words keeps the erased pattern there.\<close>

definition spare_or_ones :: "mem option \<Rightarrow> mem" where
  "spare_or_ones sp = (case sp of None \<Rightarrow> (\<lambda>_. - 1) | Some m \<Rightarrow> m)"

lemma spare_or_ones_simps [simp]: "spare_or_ones None = (\<lambda>_. - 1)" "spare_or_ones (Some m) = m"
  by (simp_all add: spare_or_ones_def)

locale nand_driver =
  fixes N :: "'d nand_ops"
    and ok :: "'d \<Rightarrow> bool"
    and mode :: "'d \<Rightarrow> NAND_STATE"
    and chip :: "'d \<Rightarrow> u8"
    and row :: "'d \<Rightarrow> u32"
    and column :: "'d \<Rightarrow> u8 \<Rightarrow> u32 \<Rightarrow> (mem \<times> mem) option"
  assumes select: "ok d \<Longrightarrow> ok (NAND_SelectChip N c d) \<and> mode (NAND_SelectChip N c d) = mode d \<and>
      chip (NAND_SelectChip N c d) = c \<and> row (NAND_SelectChip N c d) = row d \<and>
      column (NAND_SelectChip N c d) = column d"
    and wait: "ok d \<Longrightarrow> NAND_WaitRB N c d = d"
    and cmd: "ok d \<Longrightarrow> \<exists>d'. NAND_SendCMD N k d = Some d' \<and> ok d' \<and> mode d' = mode_after k (mode d) \<and>
      chip d' = chip d \<and> (k \<noteq> CMD_RESET \<longrightarrow> row d' = row d) \<and> column d' = column d"
    and addr: "ok d \<Longrightarrow> mode d \<noteq> STATE_ERASE \<Longrightarrow> \<exists>d'. NAND_SendAddr N cl r cc rc d = Some d' \<and> ok d' \<and>
      mode d' = mode d \<and> chip d' = chip d \<and> row d' = r \<and> column d' = column d"
    and addr_erase: "ok d \<Longrightarrow> mode d = STATE_ERASE \<Longrightarrow> \<exists>d'. NAND_SendAddr N cl r cc rc d = Some d' \<and> ok d' \<and>
      mode d' = mode d \<and> chip d' = chip d \<and> row d' = r \<and>
      column d' = (column d)(chip d := (\<lambda>x. if x \<in> (+) r ` set (upto_u32 0 PAGE_PER_PHY_BLOCK)
                                            then None else column d (chip d) x))"
    and send: "ok d \<Longrightarrow> mode d = STATE_PROGRAM \<Longrightarrow> row d < CFG_NAND_ROW_COUNT * CFG_NAND_CHIP_COUNT \<Longrightarrow>
      column d (chip d) (row d) = None \<Longrightarrow>
      \<exists>d'. NAND_SendData N (Some b) sp d = Some d' \<and> ok d' \<and> mode d' = mode d \<and>
        chip d' = chip d \<and> row d' = row d \<and>
        column d' = (column d)(chip d := (column d (chip d))(row d \<mapsto> (clip PAGE_WORDS b, clip SPARE_WORDS (spare_or_ones sp))))"
    and receive: "ok d \<Longrightarrow> mode d = STATE_READ \<Longrightarrow> column d (chip d) (row d) = Some (md, sd) \<Longrightarrow>
      \<exists>d'. NAND_ReceiveData N bo spo d =
          Some (STATUS_SUCCESS, map_option (memcpy_words PAGE_WORDS md) bo, map_option (memcpy_words SPARE_WORDS sd) spo, d') \<and>
        ok d' \<and> mode d' = STATE_READ \<and> chip d' = chip d \<and> row d' = row d \<and> column d' = column d"
    and receive_erased: "ok d \<Longrightarrow> mode d = STATE_READ \<Longrightarrow> column d (chip d) (row d) = None \<Longrightarrow>
      \<exists>d'. NAND_ReceiveData N bo spo d =
          Some (STATUS_FAILURE, map_option (memset_words PAGE_WORDS (- 1)) bo, map_option (memset_words SPARE_WORDS (- 1)) spo, d') \<and>
        ok d' \<and> mode d' = STATE_READ \<and> chip d' = chip d \<and> row d' = row d \<and> column d' = column d"
    and ecc: "ok d \<Longrightarrow> fst (NAND_ECCStatus N d) = False"
    and status: "ok d \<Longrightarrow> mode d = STATE_READSTATUS \<Longrightarrow>
      \<exists>s d'. NAND_ReceiveBytes N 1 d = Some ([s], d') \<and> \<not> NAND_STATUS_BUSY s \<and> \<not> NAND_STATUS_FAIL s \<and>
        ok d' \<and> mode d' = mode d \<and> chip d' = chip d \<and> row d' = row d \<and> column d' = column d"

section \<open>The simulator meets the contract\<close>

text \<open>
  The simulator's status register is never written after start-up, and an erased column is all ones
  (only programming changes one, and it marks it).
\<close>

definition sim_ok :: "sim_state \<Rightarrow> bool" where
  "sim_ok d \<longleftrightarrow> sim_nand_status d = 0 \<and>
     (\<forall>c r. col_state (sim_nand d c r) = SIM_NAND_ERASED \<longrightarrow> sim_nand d c r = erased_column)"

definition sim_column :: "sim_state \<Rightarrow> u8 \<Rightarrow> u32 \<Rightarrow> (mem \<times> mem) option" where
  "sim_column d c r = (case col_state (sim_nand d c r) of
     SIM_NAND_ERASED \<Rightarrow> None
   | SIM_NAND_PROGRAMMED \<Rightarrow>
       Some (clip PAGE_WORDS (main_data (sim_nand d c r)), clip SPARE_WORDS (spare_data (sim_nand d c r))))"

lemma sim_erase_rows_apply:
  "sim_erase_rows c r nand c' x =
     (if c' = c \<and> x \<in> (+) r ` set (upto_u32 0 PAGE_PER_PHY_BLOCK) then erased_column else nand c' x)"
proof -
  have "fold (\<lambda>i nand. nand(c := (nand c)(r + i := erased_column))) is nand c' x =
      (if c' = c \<and> x \<in> (+) r ` set is then erased_column else nand c' x)" for "is" nand
    by (induction "is" arbitrary: nand) auto
  then show ?thesis by (simp only: sim_erase_rows_def)
qed

lemma clip_memcpy_words [simp]: "n \<le> m \<Longrightarrow> clip n (memcpy_words m b d) = clip n b"
  by (auto simp: fun_eq_iff mem_simps)

lemma memcpy_ones [simp]: "memcpy_words n (\<lambda>_. v) = memset_words n v"
  by (simp add: memcpy_words_def memset_words_def fun_eq_iff)

lemma sim_column_update:
  "sim_column (d\<lparr>sim_nand := (sim_nand d)(c := (sim_nand d c)(r := col))\<rparr>) =
     (sim_column d)(c := (sim_column d c)(r := (case col_state col of SIM_NAND_ERASED \<Rightarrow> None
        | SIM_NAND_PROGRAMMED \<Rightarrow> Some (clip PAGE_WORDS (main_data col), clip SPARE_WORDS (spare_data col)))))"
  by (intro ext) (simp add: sim_column_def split: SIM_NAND_STATE.splits)

lemma sim_column_other [simp]:
  "sim_column (d\<lparr>sim_nand_state := a\<rparr>) = sim_column d" "sim_column (d\<lparr>sim_nand_chip := x\<rparr>) = sim_column d"
  "sim_column (d\<lparr>sim_nand_col_addr := cl\<rparr>) = sim_column d" "sim_column (d\<lparr>sim_nand_row_addr := r\<rparr>) = sim_column d"
  by (simp_all add: sim_column_def fun_eq_iff split: SIM_NAND_STATE.splits)

lemma sim_ok_other [simp]:
  "sim_ok (d\<lparr>sim_nand_state := a\<rparr>) = sim_ok d" "sim_ok (d\<lparr>sim_nand_chip := x\<rparr>) = sim_ok d"
  "sim_ok (d\<lparr>sim_nand_col_addr := cl\<rparr>) = sim_ok d" "sim_ok (d\<lparr>sim_nand_row_addr := r\<rparr>) = sim_ok d"
  by (simp_all add: sim_ok_def)

lemma sim_ok_Init: "sim_nand_status d = 0 \<Longrightarrow> sim_ok (sim_Init d)"
  by (simp add: sim_ok_def sim_Init_def)

lemma erased_column_state [simp]: "col_state erased_column = SIM_NAND_ERASED"
  by (simp add: erased_column_def)

lemma sim_column_NoneD: "sim_ok d \<Longrightarrow> sim_column d c r = None \<Longrightarrow> sim_nand d c r = erased_column"
  by (auto simp: sim_column_def sim_ok_def split: SIM_NAND_STATE.splits)

lemma sim_column_SomeD:
  "sim_column d c r = Some (md, sd) \<Longrightarrow> col_state (sim_nand d c r) = SIM_NAND_PROGRAMMED \<and>
     md = clip PAGE_WORDS (main_data (sim_nand d c r)) \<and> sd = clip SPARE_WORDS (spare_data (sim_nand d c r))"
  by (auto simp: sim_column_def split: SIM_NAND_STATE.splits)

lemma sim_ok_update:
  "sim_ok d \<Longrightarrow> col_state col = SIM_NAND_PROGRAMMED \<Longrightarrow>
     sim_ok (d\<lparr>sim_nand := (sim_nand d)(c := (sim_nand d c)(r := col))\<rparr>)"
  by (simp add: sim_ok_def)

lemma sim_ok_erase: "sim_ok d \<Longrightarrow> sim_ok (d\<lparr>sim_nand := sim_erase_rows c r (sim_nand d)\<rparr>)"
  by (simp add: sim_ok_def sim_erase_rows_apply)

lemma sim_column_erase:
  "sim_column (d\<lparr>sim_nand := sim_erase_rows c r (sim_nand d)\<rparr>) =
     (sim_column d)(c := (\<lambda>x. if x \<in> (+) r ` set (upto_u32 0 PAGE_PER_PHY_BLOCK) then None else sim_column d c x))"
  by (intro ext) (simp add: sim_column_def sim_erase_rows_apply split: SIM_NAND_STATE.splits)

lemma sim_SendData_erased:
  assumes "sim_ok d" "sim_nand_state d = STATE_PROGRAM"
    and "sim_nand_row_addr d < CFG_NAND_ROW_COUNT * CFG_NAND_CHIP_COUNT"
    and "sim_column d (sim_nand_chip d) (sim_nand_row_addr d) = None"
  shows "sim_SendData (Some b) sp d =
     Some (d\<lparr>sim_nand := (sim_nand d)(sim_nand_chip d := (sim_nand d (sim_nand_chip d))(sim_nand_row_addr d :=
       \<lparr>main_data = memcpy_words PAGE_WORDS b (\<lambda>_. - 1), spare_data = memcpy_words SPARE_WORDS (spare_or_ones sp) (\<lambda>_. - 1),
        col_state = SIM_NAND_PROGRAMMED\<rparr>))\<rparr>)"
  using assms sim_column_NoneD [OF assms(1,4)]
  by (cases sp) (simp_all add: sim_SendData_def erased_column_def memset_words_def)

interpretation sim: nand_driver sim_ops sim_ok sim_nand_state sim_nand_chip sim_nand_row_addr sim_column
proof
  fix d :: sim_state and c r cl cc rc k b and sp bo spo :: "mem option" and md sd
  assume ok: "sim_ok d"
  show "sim_ok (NAND_SelectChip sim_ops c d) \<and>
      sim_nand_state (NAND_SelectChip sim_ops c d) = sim_nand_state d \<and>
      sim_nand_chip (NAND_SelectChip sim_ops c d) = c \<and>
      sim_nand_row_addr (NAND_SelectChip sim_ops c d) = sim_nand_row_addr d \<and>
      sim_column (NAND_SelectChip sim_ops c d) = sim_column d"
    using ok by (simp add: sim_ops_def sim_SelectChip_def)
  show "NAND_WaitRB sim_ops c d = d" by (simp add: sim_ops_def sim_WaitRB_def)
  show "\<exists>d'. NAND_SendCMD sim_ops k d = Some d' \<and> sim_ok d' \<and>
      sim_nand_state d' = mode_after k (sim_nand_state d) \<and> sim_nand_chip d' = sim_nand_chip d \<and>
      (k \<noteq> CMD_RESET \<longrightarrow> sim_nand_row_addr d' = sim_nand_row_addr d) \<and> sim_column d' = sim_column d"
    using ok by (cases k) (simp_all add: sim_ops_def sim_SendCMD_def mode_after_def)
  show "fst (NAND_ECCStatus sim_ops d) = False" by (simp add: sim_ops_def sim_ECCStatus_def)
  show "\<exists>d'. NAND_SendAddr sim_ops cl r cc rc d = Some d' \<and> sim_ok d' \<and>
      sim_nand_state d' = sim_nand_state d \<and> sim_nand_chip d' = sim_nand_chip d \<and>
      sim_nand_row_addr d' = r \<and> sim_column d' = sim_column d" if "sim_nand_state d \<noteq> STATE_ERASE"
    using ok that by (simp add: sim_ops_def sim_SendAddr_def)
  show "\<exists>d'. NAND_SendAddr sim_ops cl r cc rc d = Some d' \<and> sim_ok d' \<and>
      sim_nand_state d' = sim_nand_state d \<and> sim_nand_chip d' = sim_nand_chip d \<and>
      sim_nand_row_addr d' = r \<and> sim_column d' = (sim_column d)(sim_nand_chip d :=
        (\<lambda>x. if x \<in> (+) r ` set (upto_u32 0 PAGE_PER_PHY_BLOCK) then None
             else sim_column d (sim_nand_chip d) x))" if "sim_nand_state d = STATE_ERASE"
    using ok that sim_ok_erase [where d = "d\<lparr>sim_nand_col_addr := cl, sim_nand_row_addr := r\<rparr>"]
      sim_column_erase [where d = "d\<lparr>sim_nand_col_addr := cl, sim_nand_row_addr := r\<rparr>"]
    by (simp add: sim_ops_def sim_SendAddr_def cong: if_cong)
  show "\<exists>d'. NAND_SendData sim_ops (Some b) sp d = Some d' \<and> sim_ok d' \<and>
      sim_nand_state d' = sim_nand_state d \<and> sim_nand_chip d' = sim_nand_chip d \<and>
      sim_nand_row_addr d' = sim_nand_row_addr d \<and>
      sim_column d' = (sim_column d)(sim_nand_chip d := (sim_column d (sim_nand_chip d))
        (sim_nand_row_addr d \<mapsto> (clip PAGE_WORDS b, clip SPARE_WORDS (spare_or_ones sp))))"
    if "sim_nand_state d = STATE_PROGRAM"
      and "sim_nand_row_addr d < CFG_NAND_ROW_COUNT * CFG_NAND_CHIP_COUNT"
      and "sim_column d (sim_nand_chip d) (sim_nand_row_addr d) = None"
    using ok by (simp add: sim_ops_def sim_SendData_erased [OF ok that] sim_column_update sim_ok_update)
  show "\<exists>d'. NAND_ReceiveData sim_ops bo spo d = Some (STATUS_SUCCESS,
        map_option (memcpy_words PAGE_WORDS md) bo, map_option (memcpy_words SPARE_WORDS sd) spo, d') \<and>
      sim_ok d' \<and> sim_nand_state d' = STATE_READ \<and> sim_nand_chip d' = sim_nand_chip d \<and>
      sim_nand_row_addr d' = sim_nand_row_addr d \<and> sim_column d' = sim_column d"
    if "sim_nand_state d = STATE_READ"
      and "sim_column d (sim_nand_chip d) (sim_nand_row_addr d) = Some (md, sd)"
    using ok that(1) sim_column_SomeD [OF that(2)]
    by (simp add: sim_ops_def sim_ReceiveData_def Let_def)
  show "\<exists>d'. NAND_ReceiveData sim_ops bo spo d = Some (STATUS_FAILURE,
        map_option (memset_words PAGE_WORDS (- 1)) bo, map_option (memset_words SPARE_WORDS (- 1)) spo, d') \<and>
      sim_ok d' \<and> sim_nand_state d' = STATE_READ \<and> sim_nand_chip d' = sim_nand_chip d \<and>
      sim_nand_row_addr d' = sim_nand_row_addr d \<and> sim_column d' = sim_column d"
    if "sim_nand_state d = STATE_READ"
      and "sim_column d (sim_nand_chip d) (sim_nand_row_addr d) = None"
    using ok that(1) sim_column_NoneD [OF ok that(2)]
    by (simp add: sim_ops_def sim_ReceiveData_def Let_def erased_column_def)
  show "\<exists>s d'. NAND_ReceiveBytes sim_ops 1 d = Some ([s], d') \<and> \<not> NAND_STATUS_BUSY s \<and>
      \<not> NAND_STATUS_FAIL s \<and> sim_ok d' \<and> sim_nand_state d' = sim_nand_state d \<and>
      sim_nand_chip d' = sim_nand_chip d \<and> sim_nand_row_addr d' = sim_nand_row_addr d \<and>
      sim_column d' = sim_column d" if "sim_nand_state d = STATE_READSTATUS"
    using ok that by (simp add: sim_ops_def sim_ReceiveBytes_def sim_ok_def NAND_STATUS_BUSY_def
        NAND_STATUS_FAIL_def NAND_STATUS_READY_BIT_def NAND_STATUS_FAIL_BIT_def)
qed

text \<open>The simulator at start-up.\<close>

definition sim_start :: sim_state where
  "sim_start = sim_Init \<lparr>sim_nand = (\<lambda>_ _. erased_column), sim_nand_status = 0, sim_nand_state = STATE_READ,
     sim_nand_chip = 0, sim_nand_col_addr = 0, sim_nand_row_addr = 0\<rparr>"

lemma sim_start_ok [simp]: "sim_ok sim_start"
  by (simp add: sim_start_def sim_ok_Init)

lemma sim_start_column [simp]: "sim_column sim_start = (\<lambda>_ _. None)"
  by (simp add: sim_column_def sim_start_def sim_Init_def fun_eq_iff)

end
