(* ===== verification/Mtd.thy ===== *)
theory Mtd
  imports Nand
begin

text \<open>
  The MTD layer, core/mtd/mtd_api.c: pages and blocks that span both planes of the NAND, over any
  driver of \<open>nand_ops\<close>. The interface of core/inc/mtd.h is the record \<open>mtd_ops\<close>, its contract the
  locale \<open>mtd_store\<close>: a flash in which a page is read back as it was programmed, and an erase
  empties one block only. The MTD functions over a good driver meet it, in particular over the simulator.
\<close>

section \<open>Addresses\<close>

definition TRANS_PHY_BLOCK :: "u32 \<Rightarrow> u32" where
  "TRANS_PHY_BLOCK b =
     push_bit BLOCK_PER_PLANE_SHIFT (b AND (TOTAL_DIE_COUNT - 1)) OR drop_bit TOTAL_DIE_SHIFT b"

definition MTD_REAL_BLOCK :: "u32 \<Rightarrow> u32 \<Rightarrow> u32" where
  "MTD_REAL_BLOCK b p = push_bit PLANE_PER_DIE_SHIFT (TRANS_PHY_BLOCK b) + p"

definition MTD_ROW_ADDRESS :: "u32 \<Rightarrow> u32 \<Rightarrow> u32 \<Rightarrow> u32" where
  "MTD_ROW_ADDRESS block plane page = push_bit PAGE_PER_BLOCK_SHIFT (MTD_REAL_BLOCK block plane) + page"

definition MTD_CHIP_NUM :: "u32 \<Rightarrow> u32" where
  "MTD_CHIP_NUM b = drop_bit DIE_PER_CHIP_SHIFT b AND (CHIP_COUNT - 1)"

definition INVALID_CHIP :: u8 where "INVALID_CHIP = - 1"

definition MTD_MAX_RETRY_TIMES :: nat where "MTD_MAX_RETRY_TIMES = 3"

definition MPP_WORDS :: nat where "MPP_WORDS = unat MPP_SIZE div 4"

lemma MPP_WORDS_value [simp, cfg_defs]: "MPP_WORDS = 1024"
  by (simp add: MPP_WORDS_def)

section \<open>Operations\<close>

definition MTD_Reset :: "'d nand_ops \<Rightarrow> 'd \<Rightarrow> 'd option" where
  "MTD_Reset N d = for_each (upto_u32 0 CHIP_COUNT)
     (\<lambda>chip d. NAND_SendCMD N CMD_RESET (NAND_SelectChip N (ucast chip) d)) d"

definition MTD_Init :: "'d nand_ops \<Rightarrow> 'd \<Rightarrow> 'd option" where
  "MTD_Init N d = MTD_Reset N (NAND_Init N d)"

definition MTD_ReadID :: "'d nand_ops \<Rightarrow> u8 \<Rightarrow> u8 \<Rightarrow> 'd \<Rightarrow> (STATUS \<times> u8 list \<times> 'd) option" where
  "MTD_ReadID N chip bytes d = do {
     let d = NAND_SelectChip N chip d;
     d \<leftarrow> NAND_SendCMD N CMD_READ_ID d;
     d \<leftarrow> NAND_SendAddr N 0 0 0 1 d;
     (id_data, d) \<leftarrow> NAND_ReceiveBytes N bytes d;
     Some (STATUS_SUCCESS, id_data, d) }"

definition mtd_readstatus :: "'d nand_ops \<Rightarrow> u32 \<Rightarrow> 'd \<Rightarrow> (STATUS \<times> u8 \<times> 'd) option" where
  "mtd_readstatus N block d = do {
     let chip_addr = ucast (MTD_CHIP_NUM block);
     let d = NAND_SelectChip N chip_addr d;
     d \<leftarrow> NAND_SendCMD N CMD_READ_STATUS d;
     (bytes, d) \<leftarrow> NAND_ReceiveBytes N 1 d;
     Some (STATUS_SUCCESS, hd bytes, d) }"

definition MTD_ReadStatus :: "'d nand_ops \<Rightarrow> u32 \<Rightarrow> 'd \<Rightarrow> (STATUS \<times> 'd) option" where
  "MTD_ReadStatus N block d = do {
     ASSERT (block < CFG_LOG_BLOCK_COUNT);
     (ret, status_byte, d) \<leftarrow> mtd_readstatus N block d;
     Some (if ret = STATUS_SUCCESS
           then if NAND_STATUS_BUSY status_byte then STATUS_DIE_BUSY
                else if NAND_STATUS_FAIL status_byte then STATUS_BADBLOCK
                else STATUS_SUCCESS
           else ret, d) }"

partial_function (option) mtd_wait_loop :: "'d nand_ops \<Rightarrow> u32 \<Rightarrow> 'd \<Rightarrow> (STATUS \<times> 'd) option" where
  "mtd_wait_loop N block d = do {
     (ret, d) \<leftarrow> MTD_ReadStatus N block d;
     if ret = STATUS_DIE_BUSY then mtd_wait_loop N block d else Some (ret, d) }"

definition MTD_WaitReady :: "'d nand_ops \<Rightarrow> u32 \<Rightarrow> 'd \<Rightarrow> (STATUS \<times> 'd) option" where
  "MTD_WaitReady N block d = do {
     ASSERT (block < CFG_LOG_BLOCK_COUNT);
     mtd_wait_loop N block d }"

text \<open>
  \<open>MTD_Read\<close> moves its \<open>buffer\<close> pointer on by a plane page after each plane read; \<open>off\<close> is how far
  (in words) it has come from the caller's buffer. It is not moved back when a read is retried.
\<close>

record 'd mtd_read_vars =
  rd_ret :: STATUS
  rd_buffer :: "mem option"
  rd_off :: nat
  rd_spare :: "mem option"
  rd_dev :: 'd

definition mtd_read_plane :: "'d nand_ops \<Rightarrow> u32 \<Rightarrow> u32 \<Rightarrow> u32 \<Rightarrow> 'd mtd_read_vars \<Rightarrow> (bool \<times> 'd mtd_read_vars) option" where
  "mtd_read_plane N block page plane v =
     (if rd_ret v = STATUS_SUCCESS then do {
        let row_addr = MTD_ROW_ADDRESS block plane page;
        let chip_addr = ucast (MTD_CHIP_NUM block);
        let d = NAND_SelectChip N chip_addr (rd_dev v);
        d \<leftarrow> NAND_SendCMD N CMD_READ d;
        d \<leftarrow> NAND_SendAddr N 0 row_addr CFG_NAND_COL_CYCLE CFG_NAND_ROW_CYCLE d;
        d \<leftarrow> NAND_SendCMD N CMD_READ_COMMIT d;
        let d = NAND_WaitRB N chip_addr d;
        (ret, at, spare, d) \<leftarrow> NAND_ReceiveData N (map_option (ptr_add (rd_off v)) (rd_buffer v)) (rd_spare v) d;
        let buffer = (case (at, rd_buffer v) of
                        (Some a, Some b) \<Rightarrow> Some (ptr_sub (rd_off v) a b) | _ \<Rightarrow> None);
        let v = v\<lparr>rd_buffer := buffer, rd_spare := spare, rd_dev := d\<rparr>;
        let ecc_corrected = fst (NAND_ECCStatus N d);
        if ret \<noteq> STATUS_SUCCESS \<and> \<not> ecc_corrected
        then Some (True, v\<lparr>rd_ret := STATUS_FAILURE\<rparr>)
        else Some (False, v\<lparr>rd_off := (if buffer \<noteq> None then rd_off v + PAGE_WORDS else rd_off v)\<rparr>) }
      else Some (False, v))"

primrec mtd_read_retry :: "nat \<Rightarrow> 'd nand_ops \<Rightarrow> u32 \<Rightarrow> u32 \<Rightarrow> 'd mtd_read_vars \<Rightarrow> 'd mtd_read_vars option" where
  "mtd_read_retry 0 N block page v = Some v"
| "mtd_read_retry (Suc left) N block page v = do {
     v \<leftarrow> for_break (upto_u32 0 PLANE_PER_DIE) (mtd_read_plane N block page) v;
     if rd_ret v = STATUS_FAILURE \<and> 0 < left
     then mtd_read_retry left N block page (v\<lparr>rd_ret := STATUS_SUCCESS\<rparr>)
     else Some v }"

definition MTD_Read :: "'d nand_ops \<Rightarrow> u32 \<Rightarrow> u32 \<Rightarrow> mem option \<Rightarrow> mem option \<Rightarrow> 'd \<Rightarrow>
    (STATUS \<times> mem option \<times> mem option \<times> 'd) option" where
  "MTD_Read N block page buffer spare d = do {
     (_, d) \<leftarrow> MTD_WaitReady N block d;
     v \<leftarrow> mtd_read_retry MTD_MAX_RETRY_TIMES N block page
            \<lparr>rd_ret = STATUS_SUCCESS, rd_buffer = buffer, rd_off = 0, rd_spare = spare, rd_dev = d\<rparr>;
     Some (rd_ret v, rd_buffer v, rd_spare v, rd_dev v) }"

definition mtd_program_plane :: "'d nand_ops \<Rightarrow> u32 \<Rightarrow> u32 \<Rightarrow> mem \<Rightarrow> mem option \<Rightarrow> u32 \<Rightarrow> 'd \<Rightarrow> 'd option" where
  "mtd_program_plane N block page buffer spare plane d = do {
     let row_addr = MTD_ROW_ADDRESS block plane page;
     let chip_addr = ucast (MTD_CHIP_NUM block);
     if plane = 0 then do {
       let d = NAND_SelectChip N chip_addr d;
       d \<leftarrow> NAND_SendCMD N CMD_PAGE_PROGRAM d;
       d \<leftarrow> NAND_SendAddr N 0 row_addr CFG_NAND_COL_CYCLE CFG_NAND_ROW_CYCLE d;
       NAND_SendData N (Some buffer) spare d }
     else do {
       ASSERT (PLANE_PER_DIE = 2);
       d \<leftarrow> NAND_SendCMD N CMD_PROGRAM_FAKE_COMMIT d;
       d \<leftarrow> NAND_SendCMD N CMD_PAGE_FAKE_PROGRAM d;
       d \<leftarrow> NAND_SendAddr N 0 row_addr CFG_NAND_COL_CYCLE CFG_NAND_ROW_CYCLE d;
       NAND_SendData N (Some (ptr_add PAGE_WORDS buffer)) spare d } }"

definition MTD_Program :: "'d nand_ops \<Rightarrow> u32 \<Rightarrow> u32 \<Rightarrow> mem \<Rightarrow> mem option \<Rightarrow> 'd \<Rightarrow> (STATUS \<times> 'd) option" where
  "MTD_Program N block page buffer spare d = do {
     d \<leftarrow> for_each (upto_u32 0 PLANE_PER_DIE) (mtd_program_plane N block page buffer spare) d;
     d \<leftarrow> NAND_SendCMD N CMD_PAGE_PROGRAM_COMMIT d;
     Some (STATUS_SUCCESS, d) }"

definition mtd_erase_plane :: "'d nand_ops \<Rightarrow> u32 \<Rightarrow> u32 \<Rightarrow> 'd \<Rightarrow> 'd option" where
  "mtd_erase_plane N block plane d = do {
     let row_addr = MTD_ROW_ADDRESS block plane 0;
     let chip_addr = ucast (MTD_CHIP_NUM block);
     if plane = 0 then do {
       let d = NAND_SelectChip N chip_addr d;
       d \<leftarrow> NAND_SendCMD N CMD_BLOCK_ERASE d;
       NAND_SendAddr N 0 row_addr 0 CFG_NAND_ROW_CYCLE d }
     else do {
       ASSERT (PLANE_PER_DIE = 2);
       d \<leftarrow> NAND_SendCMD N CMD_BLOCK_ERASE d;
       NAND_SendAddr N 0 row_addr 0 CFG_NAND_ROW_CYCLE d } }"

primrec mtd_erase_retry :: "nat \<Rightarrow> 'd nand_ops \<Rightarrow> u32 \<Rightarrow> STATUS \<Rightarrow> 'd \<Rightarrow> (STATUS \<times> 'd) option" where
  "mtd_erase_retry 0 N block ret d = Some (ret, d)"
| "mtd_erase_retry (Suc left) N block ret d = do {
     d \<leftarrow> for_each (upto_u32 0 PLANE_PER_DIE) (mtd_erase_plane N block) d;
     d \<leftarrow> NAND_SendCMD N CMD_BLOCK_ERASE_COMMIT d;
     ASSERT ((ucast (MTD_CHIP_NUM block) :: u8) \<noteq> INVALID_CHIP);
     let d = NAND_WaitRB N (ucast (MTD_CHIP_NUM block)) d;
     (ret, d) \<leftarrow> MTD_ReadStatus N block d;
     if ret \<noteq> STATUS_SUCCESS then mtd_erase_retry left N block ret d else Some (ret, d) }"

definition MTD_Erase :: "'d nand_ops \<Rightarrow> u32 \<Rightarrow> 'd \<Rightarrow> (STATUS \<times> 'd) option" where
  "MTD_Erase N block d = mtd_erase_retry MTD_MAX_RETRY_TIMES N block STATUS_SUCCESS d"

definition mtd_check_page :: "'d nand_ops \<Rightarrow> u32 \<Rightarrow> u32 \<Rightarrow> STATUS \<times> 'd \<Rightarrow> (STATUS \<times> 'd) option" where
  "mtd_check_page N block plane = (\<lambda>(ret, d).
     if ret = STATUS_SUCCESS then do {
       let row_addr = MTD_ROW_ADDRESS block plane 0;
       let chip_addr = ucast (MTD_CHIP_NUM block);
       let d = NAND_SelectChip N chip_addr d;
       d \<leftarrow> NAND_SendCMD N CMD_READ d;
       d \<leftarrow> NAND_SendAddr N 0 row_addr CFG_NAND_COL_CYCLE CFG_NAND_ROW_CYCLE d;
       d \<leftarrow> NAND_SendCMD N CMD_READ_COMMIT d;
       let d = NAND_WaitRB N chip_addr d;
       ASSERT (row_addr \<noteq> ucast MAX_UINT8);
       d \<leftarrow> NAND_SendCMD N CMD_RANDOM_DATA_OUT d;
       d \<leftarrow> NAND_SendAddr N (ucast PAGE_SIZE) row_addr CFG_NAND_COL_CYCLE 0 d;
       d \<leftarrow> NAND_SendCMD N CMD_RANDOM_DATA_OUT_COMMIT d;
       (bytes, d) \<leftarrow> NAND_ReceiveBytes N 1 d;
       Some (if hd bytes \<noteq> 0xff then STATUS_BADBLOCK else ret, d) }
     else Some (ret, d))"

definition MTD_CheckBlock :: "'d nand_ops \<Rightarrow> u32 \<Rightarrow> 'd \<Rightarrow> (STATUS \<times> 'd) option" where
  "MTD_CheckBlock N block d =
     for_each (upto_u32 0 PLANE_PER_DIE)
       (\<lambda>plane. for_each (upto_u32 0 2) (\<lambda>page. mtd_check_page N block plane)) (STATUS_SUCCESS, d)"

section \<open>The interface of the layer\<close>

record 'h mtd_ops =
  m_Init :: "'h \<Rightarrow> 'h option"
  m_Read :: "u32 \<Rightarrow> u32 \<Rightarrow> mem option \<Rightarrow> mem option \<Rightarrow> 'h \<Rightarrow> (STATUS \<times> mem option \<times> mem option \<times> 'h) option"
  m_Program :: "u32 \<Rightarrow> u32 \<Rightarrow> mem \<Rightarrow> mem option \<Rightarrow> 'h \<Rightarrow> (STATUS \<times> 'h) option"
  m_Erase :: "u32 \<Rightarrow> 'h \<Rightarrow> (STATUS \<times> 'h) option"
  m_CheckBlock :: "u32 \<Rightarrow> 'h \<Rightarrow> (STATUS \<times> 'h) option"
  m_ReadStatus :: "u32 \<Rightarrow> 'h \<Rightarrow> (STATUS \<times> 'h) option"
  m_WaitReady :: "u32 \<Rightarrow> 'h \<Rightarrow> (STATUS \<times> 'h) option"

definition mtd_over :: "'d nand_ops \<Rightarrow> 'd mtd_ops" where
  "mtd_over N = \<lparr>m_Init = MTD_Init N, m_Read = MTD_Read N, m_Program = MTD_Program N, m_Erase = MTD_Erase N,
     m_CheckBlock = MTD_CheckBlock N, m_ReadStatus = MTD_ReadStatus N, m_WaitReady = MTD_WaitReady N\<rparr>"

text \<open>\<open>pages h b p\<close> is what page \<open>p\<close> of block \<open>b\<close> holds: data and spare words, \<open>None\<close> when erased.\<close>

locale mtd_store =
  fixes M :: "'h mtd_ops"
    and ok :: "'h \<Rightarrow> bool"
    and pages :: "'h \<Rightarrow> u32 \<Rightarrow> u32 \<Rightarrow> (mem \<times> mem) option"
  assumes read: "ok h \<Longrightarrow> b < CFG_LOG_BLOCK_COUNT \<Longrightarrow> p < PAGE_PER_PHY_BLOCK \<Longrightarrow> pages h b p = Some (dm, sm) \<Longrightarrow>
      \<exists>h'. m_Read M b p buf sp h = Some (STATUS_SUCCESS, map_option (memcpy_words MPP_WORDS dm) buf,
                                        map_option (memcpy_words SPARE_WORDS sm) sp, h') \<and>
        ok h' \<and> pages h' = pages h"
    and read_erased: "ok h \<Longrightarrow> b < CFG_LOG_BLOCK_COUNT \<Longrightarrow> p < PAGE_PER_PHY_BLOCK \<Longrightarrow> pages h b p = None \<Longrightarrow>
      \<exists>h' buf' sp'. m_Read M b p buf sp h = Some (STATUS_FAILURE, buf', sp', h') \<and> ok h' \<and> pages h' = pages h \<and>
        (buf' = None \<longleftrightarrow> buf = None) \<and> (sp' = None \<longleftrightarrow> sp = None)"
    and program: "ok h \<Longrightarrow> b < CFG_LOG_BLOCK_COUNT \<Longrightarrow> p < PAGE_PER_PHY_BLOCK \<Longrightarrow> pages h b p = None \<Longrightarrow>
      \<exists>h'. m_Program M b p dm so h = Some (STATUS_SUCCESS, h') \<and> ok h' \<and>
        pages h' = (pages h)(b := (pages h b)(p \<mapsto> (clip MPP_WORDS dm, clip SPARE_WORDS (spare_or_ones so))))"
    and erase: "ok h \<Longrightarrow> b < CFG_LOG_BLOCK_COUNT \<Longrightarrow>
      \<exists>h'. m_Erase M b h = Some (STATUS_SUCCESS, h') \<and> ok h' \<and> pages h' = (pages h)(b := Map.empty)"
    and wait_ready: "ok h \<Longrightarrow> b < CFG_LOG_BLOCK_COUNT \<Longrightarrow>
      \<exists>h'. m_WaitReady M b h = Some (STATUS_SUCCESS, h') \<and> ok h' \<and> pages h' = pages h"
    and read_status: "ok h \<Longrightarrow> b < CFG_LOG_BLOCK_COUNT \<Longrightarrow>
      \<exists>h'. m_ReadStatus M b h = Some (STATUS_SUCCESS, h') \<and> ok h' \<and> pages h' = pages h"

section \<open>Rows\<close>

lemma MTD_CHIP_NUM_0 [simp]: "MTD_CHIP_NUM b = 0"
  by (simp add: MTD_CHIP_NUM_def)

lemma unat_u32_add: "unat (a + b :: u32) = (unat a + unat b) mod 4294967296"
  by (simp only: unat_word_ariths) simp

lemma unat_u32_mult: "unat (a * b :: u32) = unat a * unat b mod 4294967296"
  by (simp only: unat_word_ariths) simp

lemma unat_MTD_ROW_ADDRESS:
  assumes "b < 2048" "pl < 2" "pg < 64"
  shows "unat (MTD_ROW_ADDRESS b pl pg) = (unat b * 2 + unat pl) * 64 + unat pg"
proof -
  have le: "unat b < 2048" "unat pl < 2" "unat pg < 64"
    using assms by (simp_all add: word_less_nat_alt)
  have 1: "unat (MTD_REAL_BLOCK b pl) = unat b * 2 + unat pl"
    using le by (simp add: MTD_REAL_BLOCK_def TRANS_PHY_BLOCK_def push_bit_eq_mult unat_u32_add unat_u32_mult)
  show ?thesis
    using le by (simp add: MTD_ROW_ADDRESS_def push_bit_eq_mult unat_u32_add unat_u32_mult 1)
qed

lemma MTD_ROW_less [simp]:
  assumes "b < 2048" "pl < 2" "pg < 64"
  shows "MTD_ROW_ADDRESS b pl pg < 262144"
proof -
  have le: "unat b < 2048" "unat pl < 2" "unat pg < 64"
    using assms by (simp_all add: word_less_nat_alt)
  then show ?thesis by (simp add: word_less_nat_alt unat_MTD_ROW_ADDRESS [OF assms])
qed

lemma MTD_ROW_eq_iff:
  assumes "b < 2048" "pl < 2" "pg < 64" "b' < 2048" "pl' < 2" "pg' < 64"
  shows "MTD_ROW_ADDRESS b pl pg = MTD_ROW_ADDRESS b' pl' pg' \<longleftrightarrow> b = b' \<and> pl = pl' \<and> pg = pg'"
proof
  assume eq: "MTD_ROW_ADDRESS b pl pg = MTD_ROW_ADDRESS b' pl' pg'"
  define x where "x = unat b * 2 + unat pl"
  define x' where "x' = unat b' * 2 + unat pl'"
  have le: "unat pl < 2" "unat pg < 64" "unat pl' < 2" "unat pg' < 64"
    using assms by (simp_all add: word_less_nat_alt)
  have e: "x * 64 + unat pg = x' * 64 + unat pg'"
    using eq unat_MTD_ROW_ADDRESS [OF assms(1-3)] unat_MTD_ROW_ADDRESS [OF assms(4-6)]
    by (simp only: x_def x'_def)
  have "(x * 64 + unat pg) div 64 = x" "(x' * 64 + unat pg') div 64 = x'"
    using le by simp_all
  with e have xx: "x = x'" by metis
  with e have p: "unat pg = unat pg'" by simp
  have "x div 2 = unat b" "x' div 2 = unat b'"
    using le by (simp_all add: x_def x'_def)
  with xx have b: "unat b = unat b'" by metis
  with xx have "unat pl = unat pl'" by (simp add: x_def x'_def)
  with p b show "b = b' \<and> pl = pl' \<and> pg = pg'" by (simp add: word_unat_eq_iff)
qed simp

lemma MTD_ROW_add:
  assumes "b < 2048" "pl < 2" "i < 64"
  shows "MTD_ROW_ADDRESS b pl 0 + i = MTD_ROW_ADDRESS b pl i"
  by (simp add: MTD_ROW_ADDRESS_def)

section \<open>The MTD functions over a good driver\<close>

text \<open>
  A page of the MTD layer is a plane page of each plane; the two are programmed and erased
  together, and the spare words of the second plane are the ones a read leaves in the caller's array.
\<close>

definition plane_pages :: "(u8 \<Rightarrow> u32 \<Rightarrow> (mem \<times> mem) option) \<Rightarrow> u32 \<Rightarrow> u32 \<Rightarrow> (mem \<times> mem) option" where
  "plane_pages col b p =
     (if b < CFG_LOG_BLOCK_COUNT \<and> p < PAGE_PER_PHY_BLOCK
      then case (col 0 (MTD_ROW_ADDRESS b 0 p), col 0 (MTD_ROW_ADDRESS b 1 p)) of
             (Some (d0, _), Some (d1, s1)) \<Rightarrow> Some (clip MPP_WORDS (ptr_sub PAGE_WORDS d1 d0), clip SPARE_WORDS s1)
           | _ \<Rightarrow> None
      else None)"

definition planes_agree :: "(u8 \<Rightarrow> u32 \<Rightarrow> (mem \<times> mem) option) \<Rightarrow> bool" where
  "planes_agree col \<longleftrightarrow> (\<forall>b p. b < CFG_LOG_BLOCK_COUNT \<longrightarrow> p < PAGE_PER_PHY_BLOCK \<longrightarrow>
     (col 0 (MTD_ROW_ADDRESS b 0 p) = None \<longleftrightarrow> col 0 (MTD_ROW_ADDRESS b 1 p) = None))"

lemma planes_agreeD:
  "planes_agree col \<Longrightarrow> b < 2048 \<Longrightarrow> p < 64 \<Longrightarrow>
     col 0 (MTD_ROW_ADDRESS b 0 p) = None \<longleftrightarrow> col 0 (MTD_ROW_ADDRESS b 1 p) = None"
  by (simp add: planes_agree_def)

lemma plane_pages_NoneD:
  "planes_agree col \<Longrightarrow> plane_pages col b p = None \<Longrightarrow> b < 2048 \<Longrightarrow> p < 64 \<Longrightarrow>
     col 0 (MTD_ROW_ADDRESS b 0 p) = None \<and> col 0 (MTD_ROW_ADDRESS b 1 p) = None"
  by (auto simp: plane_pages_def planes_agree_def split: option.splits if_splits)

lemma plane_pages_SomeD:
  "plane_pages col b p = Some (dm, sm) \<Longrightarrow>
     \<exists>d0 s0 d1 s1. col 0 (MTD_ROW_ADDRESS b 0 p) = Some (d0, s0) \<and> col 0 (MTD_ROW_ADDRESS b 1 p) = Some (d1, s1) \<and>
       dm = clip MPP_WORDS (ptr_sub PAGE_WORDS d1 d0) \<and> sm = clip SPARE_WORDS s1"
  by (auto simp: plane_pages_def split: option.splits if_splits)

definition same_null :: "'d mtd_read_vars \<Rightarrow> 'd mtd_read_vars \<Rightarrow> bool" where
  "same_null v v' \<longleftrightarrow> (rd_buffer v' = None \<longleftrightarrow> rd_buffer v = None) \<and> (rd_spare v' = None \<longleftrightarrow> rd_spare v = None)"

context nand_driver
begin

lemma ReadStatus_ok:
  assumes "ok d" "b < CFG_LOG_BLOCK_COUNT"
  shows "\<exists>d'. MTD_ReadStatus N b d = Some (STATUS_SUCCESS, d') \<and> ok d' \<and> column d' = column d"
proof -
  obtain d1 where d1: "NAND_SendCMD N CMD_READ_STATUS (NAND_SelectChip N 0 d) = Some d1" "ok d1"
      "mode d1 = STATE_READSTATUS" "column d1 = column d"
    using cmd [of "NAND_SelectChip N 0 d" CMD_READ_STATUS] select [OF assms(1), of 0] by auto
  then obtain s d2 where "NAND_ReceiveBytes N 1 d1 = Some ([s], d2)" "\<not> NAND_STATUS_BUSY s"
      "\<not> NAND_STATUS_FAIL s" "ok d2" "column d2 = column d"
    using status [of d1] by auto
  with d1 assms show ?thesis by (simp add: MTD_ReadStatus_def mtd_readstatus_def Let_def)
qed

lemma WaitReady_ok:
  assumes "ok d" "b < CFG_LOG_BLOCK_COUNT"
  shows "\<exists>d'. MTD_WaitReady N b d = Some (STATUS_SUCCESS, d') \<and> ok d' \<and> column d' = column d"
  using ReadStatus_ok [OF assms] assms
  by (auto simp: MTD_WaitReady_def mtd_wait_loop.simps [of N b d])

lemma start_command:
  assumes "ok d" "mode_after k (mode d) \<noteq> STATE_ERASE"
  shows "\<exists>d1 d'. NAND_SendCMD N k d = Some d1 \<and> NAND_SendAddr N cl r cc rc d1 = Some d' \<and> ok d' \<and>
     mode d' = mode_after k (mode d) \<and> chip d' = chip d \<and> row d' = r \<and> column d' = column d"
proof -
  obtain d1 where "NAND_SendCMD N k d = Some d1" "ok d1" "mode d1 = mode_after k (mode d)"
      "chip d1 = chip d" "column d1 = column d"
    using cmd [OF assms(1), of k] by auto
  then show ?thesis using addr [of d1 cl r cc rc] assms(2) by auto
qed

lemma start_erase:
  assumes "ok d"
  shows "\<exists>d1 d'. NAND_SendCMD N CMD_BLOCK_ERASE d = Some d1 \<and> NAND_SendAddr N cl r cc rc d1 = Some d' \<and>
     ok d' \<and> chip d' = chip d \<and> column d' = (column d)(chip d :=
       (\<lambda>x. if x \<in> (+) r ` set (upto_u32 0 PAGE_PER_PHY_BLOCK) then None else column d (chip d) x))"
proof -
  obtain d1 where "NAND_SendCMD N CMD_BLOCK_ERASE d = Some d1" "ok d1" "mode d1 = STATE_ERASE"
      "chip d1 = chip d" "column d1 = column d"
    using cmd [OF assms(1), of CMD_BLOCK_ERASE] by auto
  then show ?thesis using addr_erase [of d1 cl r cc rc] by (auto cong: if_cong)
qed

lemma start_read:
  assumes "ok d"
  shows "\<exists>d1 d2 d'. NAND_SendCMD N CMD_READ (NAND_SelectChip N 0 d) = Some d1 \<and>
      NAND_SendAddr N 0 r cc rc d1 = Some d2 \<and> NAND_SendCMD N CMD_READ_COMMIT d2 = Some d' \<and>
      ok d' \<and> NAND_WaitRB N 0 d' = d' \<and>
      mode d' = STATE_READ \<and> chip d' = 0 \<and> row d' = r \<and> column d' = column d"
proof -
  note sel = select [OF assms, of 0]
  obtain d1 d2 where d1: "NAND_SendCMD N CMD_READ (NAND_SelectChip N 0 d) = Some d1"
      "NAND_SendAddr N 0 r cc rc d1 = Some d2"
      "ok d2" "chip d2 = 0" "row d2 = r" "column d2 = column d"
    using start_command [of "NAND_SelectChip N 0 d" CMD_READ 0 r cc rc] sel by auto
  obtain d3 where "NAND_SendCMD N CMD_READ_COMMIT d2 = Some d3" "ok d3" "mode d3 = STATE_READ"
      "chip d3 = 0" "row d3 = r" "column d3 = column d"
    using cmd [OF d1(3), of CMD_READ_COMMIT] d1 by auto
  with d1 show ?thesis using wait [of d3] by auto
qed

lemma read_plane_programmed:
  assumes "ok (rd_dev v)" "rd_ret v = STATUS_SUCCESS"
    and "column (rd_dev v) 0 (MTD_ROW_ADDRESS b pl p) = Some (md, sd)"
  shows "\<exists>d'. mtd_read_plane N b p pl v = Some (False, v\<lparr>
      rd_buffer := map_option (\<lambda>m. ptr_sub (rd_off v) (memcpy_words PAGE_WORDS md (ptr_add (rd_off v) m)) m) (rd_buffer v),
      rd_spare := map_option (memcpy_words SPARE_WORDS sd) (rd_spare v), rd_dev := d',
      rd_off := (if rd_buffer v \<noteq> None then rd_off v + PAGE_WORDS else rd_off v)\<rparr>) \<and>
      ok d' \<and> column d' = column (rd_dev v)"
proof -
  obtain e1 e2 d1 where d1: "NAND_SendCMD N CMD_READ (NAND_SelectChip N 0 (rd_dev v)) = Some e1"
      "NAND_SendAddr N 0 (MTD_ROW_ADDRESS b pl p) CFG_NAND_COL_CYCLE CFG_NAND_ROW_CYCLE e1 = Some e2"
      "NAND_SendCMD N CMD_READ_COMMIT e2 = Some d1" "ok d1" "NAND_WaitRB N 0 d1 = d1"
      "mode d1 = STATE_READ" "chip d1 = 0" "row d1 = MTD_ROW_ADDRESS b pl p" "column d1 = column (rd_dev v)"
    using start_read [OF assms(1)] by blast
  obtain d2 where "NAND_ReceiveData N (map_option (ptr_add (rd_off v)) (rd_buffer v)) (rd_spare v) d1 =
      Some (STATUS_SUCCESS, map_option (memcpy_words PAGE_WORDS md) (map_option (ptr_add (rd_off v)) (rd_buffer v)),
        map_option (memcpy_words SPARE_WORDS sd) (rd_spare v), d2)" "ok d2" "column d2 = column (rd_dev v)"
    using receive [of d1 md sd "map_option (ptr_add (rd_off v)) (rd_buffer v)" "rd_spare v"] d1 assms(3) by auto
  with d1 assms show ?thesis
    by (cases "rd_buffer v") (auto simp: mtd_read_plane_def Let_def intro!: exI [of _ d2])
qed

lemma read_plane_erased:
  assumes "ok (rd_dev v)" "rd_ret v = STATUS_SUCCESS"
    and "column (rd_dev v) 0 (MTD_ROW_ADDRESS b pl p) = None"
  shows "\<exists>v'. mtd_read_plane N b p pl v = Some (True, v') \<and> rd_ret v' = STATUS_FAILURE \<and>
      ok (rd_dev v') \<and> column (rd_dev v') = column (rd_dev v) \<and>
      same_null v v'"
proof -
  obtain e1 e2 d1 where d1: "NAND_SendCMD N CMD_READ (NAND_SelectChip N 0 (rd_dev v)) = Some e1"
      "NAND_SendAddr N 0 (MTD_ROW_ADDRESS b pl p) CFG_NAND_COL_CYCLE CFG_NAND_ROW_CYCLE e1 = Some e2"
      "NAND_SendCMD N CMD_READ_COMMIT e2 = Some d1" "ok d1" "NAND_WaitRB N 0 d1 = d1"
      "mode d1 = STATE_READ" "chip d1 = 0" "row d1 = MTD_ROW_ADDRESS b pl p" "column d1 = column (rd_dev v)"
    using start_read [OF assms(1)] by blast
  obtain d2 where "NAND_ReceiveData N (map_option (ptr_add (rd_off v)) (rd_buffer v)) (rd_spare v) d1 =
      Some (STATUS_FAILURE, map_option (memset_words PAGE_WORDS (- 1)) (map_option (ptr_add (rd_off v)) (rd_buffer v)),
        map_option (memset_words SPARE_WORDS (- 1)) (rd_spare v), d2)" "ok d2" "column d2 = column (rd_dev v)"
    using receive_erased [of d1 "map_option (ptr_add (rd_off v)) (rd_buffer v)" "rd_spare v"] d1 assms(3) by auto
  with d1 assms show ?thesis
    by (cases "rd_buffer v") (auto simp: mtd_read_plane_def Let_def ecc same_null_def)
qed

lemma read_planes_programmed:
  assumes "ok d" "column d 0 (MTD_ROW_ADDRESS b 0 p) = Some (d0, s0)"
    and "column d 0 (MTD_ROW_ADDRESS b 1 p) = Some (d1, s1)"
  shows "\<exists>d'. for_break (upto_u32 0 PLANE_PER_DIE) (mtd_read_plane N b p)
      \<lparr>rd_ret = STATUS_SUCCESS, rd_buffer = buf, rd_off = 0, rd_spare = sp, rd_dev = d\<rparr> =
    Some \<lparr>rd_ret = STATUS_SUCCESS,
      rd_buffer = map_option (memcpy_words MPP_WORDS (clip MPP_WORDS (ptr_sub PAGE_WORDS d1 d0))) buf,
      rd_off = (if buf \<noteq> None then 2 * PAGE_WORDS else 0),
      rd_spare = map_option (memcpy_words SPARE_WORDS (clip SPARE_WORDS s1)) sp, rd_dev = d'\<rparr> \<and>
    ok d' \<and> column d' = column d"
proof -
  have up: "upto_u32 0 PLANE_PER_DIE = [0, 1]" by (simp add: upt_rec)
  have buf: "ptr_sub 512 (memcpy_words 512 d1 (ptr_add 512 (memcpy_words 512 d0 m))) (memcpy_words 512 d0 m) =
      memcpy_words 1024 (clip 1024 (ptr_sub 512 d1 d0)) m" for m
    by (auto simp: fun_eq_iff mem_simps)
  have sp: "memcpy_words 4 s1 (memcpy_words 4 s0 m) = memcpy_words 4 s1 m" for m
    by (auto simp: fun_eq_iff mem_simps)
  obtain d2 where 2: "mtd_read_plane N b p 0
      \<lparr>rd_ret = STATUS_SUCCESS, rd_buffer = buf, rd_off = 0, rd_spare = sp, rd_dev = d\<rparr> =
    Some (False, \<lparr>rd_ret = STATUS_SUCCESS, rd_buffer = map_option (memcpy_words PAGE_WORDS d0) buf,
      rd_off = (if buf \<noteq> None then PAGE_WORDS else 0),
      rd_spare = map_option (memcpy_words SPARE_WORDS s0) sp, rd_dev = d2\<rparr>)"
    and ok2: "ok d2" "column d2 = column d"
    using read_plane_programmed [of "\<lparr>rd_ret = STATUS_SUCCESS, rd_buffer = buf, rd_off = 0, rd_spare = sp, rd_dev = d\<rparr>"
        b 0 p d0 s0] assms by auto
  obtain d3 where 3: "mtd_read_plane N b p 1 \<lparr>rd_ret = STATUS_SUCCESS,
      rd_buffer = map_option (memcpy_words PAGE_WORDS d0) buf, rd_off = (if buf \<noteq> None then PAGE_WORDS else 0),
      rd_spare = map_option (memcpy_words SPARE_WORDS s0) sp, rd_dev = d2\<rparr> =
    Some (False, \<lparr>rd_ret = STATUS_SUCCESS,
      rd_buffer = map_option (memcpy_words MPP_WORDS (clip MPP_WORDS (ptr_sub PAGE_WORDS d1 d0))) buf,
      rd_off = (if buf \<noteq> None then 2 * PAGE_WORDS else 0),
      rd_spare = map_option (memcpy_words SPARE_WORDS (clip SPARE_WORDS s1)) sp, rd_dev = d3\<rparr>)"
    and ok3: "ok d3" "column d3 = column d"
    using read_plane_programmed [of "\<lparr>rd_ret = STATUS_SUCCESS, rd_buffer = map_option (memcpy_words PAGE_WORDS d0) buf,
      rd_off = (if buf \<noteq> None then PAGE_WORDS else 0), rd_spare = map_option (memcpy_words SPARE_WORDS s0) sp, rd_dev = d2\<rparr>"
        b 1 p d1 s1] assms ok2 by (cases buf; cases sp) (auto simp: buf sp)
  show ?thesis
    using ok3 unfolding up for_break.simps 2 by (simp only: Option.bind.bind_lunit prod.case if_False 3) auto
qed

lemma MTD_Read_programmed:
  assumes "ok d" "b < CFG_LOG_BLOCK_COUNT" "plane_pages (column d) b p = Some (dm, sm)"
  shows "\<exists>d'. MTD_Read N b p buf sp d = Some (STATUS_SUCCESS, map_option (memcpy_words MPP_WORDS dm) buf,
      map_option (memcpy_words SPARE_WORDS sm) sp, d') \<and> ok d' \<and> column d' = column d"
proof -
  from plane_pages_SomeD [OF assms(3)] obtain d0 s0 d1 s1 where
    col: "column d 0 (MTD_ROW_ADDRESS b 0 p) = Some (d0, s0)" "column d 0 (MTD_ROW_ADDRESS b 1 p) = Some (d1, s1)"
    and dm: "dm = clip MPP_WORDS (ptr_sub PAGE_WORDS d1 d0)" and sm: "sm = clip SPARE_WORDS s1" by blast
  obtain e where e: "MTD_WaitReady N b d = Some (STATUS_SUCCESS, e)" "ok e" "column e = column d"
    using WaitReady_ok [OF assms(1,2)] by blast
  show ?thesis
    using read_planes_programmed [of e b p d0 s0 d1 s1 buf sp] col e
    by (auto simp: MTD_Read_def MTD_MAX_RETRY_TIMES_def numeral_3_eq_3 dm sm)
qed

lemma read_planes_erased:
  assumes "ok (rd_dev v)" "rd_ret v = STATUS_SUCCESS" "column (rd_dev v) 0 (MTD_ROW_ADDRESS b 0 p) = None"
  shows "\<exists>v'. for_break (upto_u32 0 PLANE_PER_DIE) (mtd_read_plane N b p) v = Some v' \<and>
      rd_ret v' = STATUS_FAILURE \<and> ok (rd_dev v') \<and> column (rd_dev v') = column (rd_dev v) \<and>
      same_null v v'"
  using read_plane_erased [OF assms] by (auto simp: upt_rec)

lemma read_retry_erased:
  assumes "ok (rd_dev v)" "rd_ret v = STATUS_SUCCESS" "column (rd_dev v) 0 (MTD_ROW_ADDRESS b 0 p) = None"
  shows "\<exists>v'. mtd_read_retry (Suc n) N b p v = Some v' \<and>
      rd_ret v' = STATUS_FAILURE \<and> ok (rd_dev v') \<and> column (rd_dev v') = column (rd_dev v) \<and>
      same_null v v'"
  using assms
proof (induction n arbitrary: v)
  case 0
  then show ?case using read_planes_erased [of v] by fastforce
next
  case (Suc n)
  obtain v1 where v1: "for_break (upto_u32 0 PLANE_PER_DIE) (mtd_read_plane N b p) v = Some v1"
      "rd_ret v1 = STATUS_FAILURE" "ok (rd_dev v1)" "column (rd_dev v1) = column (rd_dev v)"
      "same_null v v1"
    using read_planes_erased [OF Suc.prems] by blast
  define w where "w = v1\<lparr>rd_ret := STATUS_SUCCESS\<rparr>"
  have w: "ok (rd_dev w)" "rd_ret w = STATUS_SUCCESS" "column (rd_dev w) = column (rd_dev v)"
      "same_null v1 w"
    by (simp_all add: w_def v1(3,4) same_null_def)
  from Suc.IH [OF w(1,2), unfolded w(3), OF Suc.prems(3)]
  obtain v2 where v2: "mtd_read_retry (Suc n) N b p w = Some v2" "rd_ret v2 = STATUS_FAILURE"
      "ok (rd_dev v2)" "column (rd_dev v2) = column (rd_dev v)"
      "same_null w v2"
    by blast
  have "mtd_read_retry (Suc (Suc n)) N b p v = Some v2"
    unfolding mtd_read_retry.simps(2) [of "Suc n"] v1(1)
    by (simp del: mtd_read_retry.simps add: v1(2) v2(1) flip: w_def)
  moreover have "same_null v v2" using v1(5) w(4) v2(5) by (simp add: same_null_def)
  ultimately show ?case using v2 by blast
qed

lemma MTD_Read_erased:
  assumes "ok d" "b < CFG_LOG_BLOCK_COUNT" "column d 0 (MTD_ROW_ADDRESS b 0 p) = None"
  shows "\<exists>d' buf' sp'. MTD_Read N b p buf sp d = Some (STATUS_FAILURE, buf', sp', d') \<and> ok d' \<and>
      column d' = column d \<and> (buf' = None \<longleftrightarrow> buf = None) \<and> (sp' = None \<longleftrightarrow> sp = None)"
proof -
  obtain e where e: "MTD_WaitReady N b d = Some (STATUS_SUCCESS, e)" "ok e" "column e = column d"
    using WaitReady_ok [OF assms(1,2)] by blast
  have 3: "MTD_MAX_RETRY_TIMES = Suc 2" by (simp add: MTD_MAX_RETRY_TIMES_def)
  show ?thesis
    using read_retry_erased [of "\<lparr>rd_ret = STATUS_SUCCESS, rd_buffer = buf, rd_off = 0, rd_spare = sp, rd_dev = e\<rparr>" b p 2]
      e assms(3)
    by (auto simp: MTD_Read_def 3 same_null_def simp del: mtd_read_retry.simps(2))
qed

lemma MTD_Program_erased:
  assumes "ok d" "b < CFG_LOG_BLOCK_COUNT" "p < PAGE_PER_PHY_BLOCK"
    and "column d 0 (MTD_ROW_ADDRESS b 0 p) = None" "column d 0 (MTD_ROW_ADDRESS b 1 p) = None"
  shows "\<exists>d'. MTD_Program N b p buf sp d = Some (STATUS_SUCCESS, d') \<and> ok d' \<and>
      column d' = (column d)(0 := (column d 0)
        (MTD_ROW_ADDRESS b 0 p \<mapsto> (clip PAGE_WORDS buf, clip SPARE_WORDS (spare_or_ones sp)),
         MTD_ROW_ADDRESS b 1 p \<mapsto> (clip PAGE_WORDS (ptr_add PAGE_WORDS buf), clip SPARE_WORDS (spare_or_ones sp))))"
proof -
  have up: "upto_u32 0 PLANE_PER_DIE = [0, 1]" by (simp add: upt_rec)
  have rows: "MTD_ROW_ADDRESS b 0 p < CFG_NAND_ROW_COUNT * CFG_NAND_CHIP_COUNT"
      "MTD_ROW_ADDRESS b 1 p < CFG_NAND_ROW_COUNT * CFG_NAND_CHIP_COUNT"
      "MTD_ROW_ADDRESS b 1 p \<noteq> MTD_ROW_ADDRESS b 0 p"
    using assms(2,3) MTD_ROW_eq_iff [of b 1 p b 0 p] by simp_all
  note sel = select [OF assms(1), of 0]
  obtain e1 d1 where d1: "NAND_SendCMD N CMD_PAGE_PROGRAM (NAND_SelectChip N 0 d) = Some e1"
      "NAND_SendAddr N 0 (MTD_ROW_ADDRESS b 0 p) CFG_NAND_COL_CYCLE CFG_NAND_ROW_CYCLE e1 = Some d1"
      "ok d1" "mode d1 = STATE_PROGRAM" "chip d1 = 0" "row d1 = MTD_ROW_ADDRESS b 0 p" "column d1 = column d"
    using start_command [of "NAND_SelectChip N 0 d" CMD_PAGE_PROGRAM 0 "MTD_ROW_ADDRESS b 0 p"
        CFG_NAND_COL_CYCLE CFG_NAND_ROW_CYCLE] sel by auto
  obtain d2 where d2: "NAND_SendData N (Some buf) sp d1 = Some d2" "ok d2" "chip d2 = 0"
      "column d2 = (column d)(0 := (column d 0)(MTD_ROW_ADDRESS b 0 p \<mapsto> (clip PAGE_WORDS buf, clip SPARE_WORDS (spare_or_ones sp))))"
    using send [of d1 buf sp] d1 rows assms by auto
  obtain d3 where d3: "NAND_SendCMD N CMD_PROGRAM_FAKE_COMMIT d2 = Some d3" "ok d3" "chip d3 = 0" "column d3 = column d2"
    using cmd [OF d2(2), of CMD_PROGRAM_FAKE_COMMIT] d2(3) by auto
  obtain e4 d4 where d4: "NAND_SendCMD N CMD_PAGE_FAKE_PROGRAM d3 = Some e4"
      "NAND_SendAddr N 0 (MTD_ROW_ADDRESS b 1 p) CFG_NAND_COL_CYCLE CFG_NAND_ROW_CYCLE e4 = Some d4"
      "ok d4" "mode d4 = STATE_PROGRAM" "chip d4 = 0" "row d4 = MTD_ROW_ADDRESS b 1 p" "column d4 = column d2"
    using start_command [of d3 CMD_PAGE_FAKE_PROGRAM 0 "MTD_ROW_ADDRESS b 1 p"
        CFG_NAND_COL_CYCLE CFG_NAND_ROW_CYCLE] d3 by auto
  obtain d5 where d5: "NAND_SendData N (Some (ptr_add PAGE_WORDS buf)) sp d4 = Some d5" "ok d5"
      "column d5 = (column d2)(0 := (column d2 0)(MTD_ROW_ADDRESS b 1 p \<mapsto>
         (clip PAGE_WORDS (ptr_add PAGE_WORDS buf), clip SPARE_WORDS (spare_or_ones sp))))"
    using send [of d4 "ptr_add PAGE_WORDS buf" sp] d4 rows assms d2(4) by auto
  obtain d6 where d6: "NAND_SendCMD N CMD_PAGE_PROGRAM_COMMIT d5 = Some d6" "ok d6" "column d6 = column d5"
    using cmd [OF d5(2), of CMD_PAGE_PROGRAM_COMMIT] by auto
  have "MTD_Program N b p buf sp d = Some (STATUS_SUCCESS, d6)"
    unfolding MTD_Program_def up for_each.simps mtd_program_plane_def
    using d1(1,2) d2(1) d3(1) d4(1,2) d5(1) d6(1) by (simp add: Let_def)
  moreover have "column d6 = (column d)(0 := (column d 0)
        (MTD_ROW_ADDRESS b 0 p \<mapsto> (clip PAGE_WORDS buf, clip SPARE_WORDS (spare_or_ones sp)),
         MTD_ROW_ADDRESS b 1 p \<mapsto> (clip PAGE_WORDS (ptr_add PAGE_WORDS buf), clip SPARE_WORDS (spare_or_ones sp))))"
    unfolding d6(3) d5(3) d2(4) by simp
  ultimately show ?thesis using d6(2) by blast
qed

lemma MTD_Erase_ok:
  assumes "ok d" "b < CFG_LOG_BLOCK_COUNT"
  shows "\<exists>d'. MTD_Erase N b d = Some (STATUS_SUCCESS, d') \<and> ok d' \<and>
      column d' = (column d)(0 := (\<lambda>x. if x \<in> (+) (MTD_ROW_ADDRESS b 0 0) ` set (upto_u32 0 PAGE_PER_PHY_BLOCK) \<or>
          x \<in> (+) (MTD_ROW_ADDRESS b 1 0) ` set (upto_u32 0 PAGE_PER_PHY_BLOCK) then None else column d 0 x))"
proof -
  have up: "upto_u32 0 PLANE_PER_DIE = [0, 1]" by (simp add: upt_rec)
  have 3: "MTD_MAX_RETRY_TIMES = Suc 2" by (simp add: MTD_MAX_RETRY_TIMES_def)
  note sel = select [OF assms(1), of 0]
  obtain e1 d1 where d1: "NAND_SendCMD N CMD_BLOCK_ERASE (NAND_SelectChip N 0 d) = Some e1"
      "NAND_SendAddr N 0 (MTD_ROW_ADDRESS b 0 0) 0 CFG_NAND_ROW_CYCLE e1 = Some d1" "ok d1" "chip d1 = 0"
      "column d1 = (column d)(0 := (\<lambda>x. if x \<in> (+) (MTD_ROW_ADDRESS b 0 0) ` set (upto_u32 0 PAGE_PER_PHY_BLOCK)
         then None else column d 0 x))"
    using start_erase [of "NAND_SelectChip N 0 d" 0 "MTD_ROW_ADDRESS b 0 0" 0 CFG_NAND_ROW_CYCLE] sel
    by (auto cong: if_cong)
  obtain e2 d2 where d2: "NAND_SendCMD N CMD_BLOCK_ERASE d1 = Some e2"
      "NAND_SendAddr N 0 (MTD_ROW_ADDRESS b 1 0) 0 CFG_NAND_ROW_CYCLE e2 = Some d2" "ok d2"
      "column d2 = (column d1)(0 := (\<lambda>x. if x \<in> (+) (MTD_ROW_ADDRESS b 1 0) ` set (upto_u32 0 PAGE_PER_PHY_BLOCK)
         then None else column d1 0 x))"
    using start_erase [OF d1(3), of 0 "MTD_ROW_ADDRESS b 1 0" 0 CFG_NAND_ROW_CYCLE] d1(4) by (auto cong: if_cong)
  obtain d3 where d3: "NAND_SendCMD N CMD_BLOCK_ERASE_COMMIT d2 = Some d3" "ok d3" "column d3 = column d2"
    using cmd [OF d2(3), of CMD_BLOCK_ERASE_COMMIT] by auto
  obtain d4 where d4: "MTD_ReadStatus N b d3 = Some (STATUS_SUCCESS, d4)" "ok d4" "column d4 = column d3"
    using ReadStatus_ok [OF d3(2) assms(2)] by blast
  have "MTD_Erase N b d = Some (STATUS_SUCCESS, d4)"
    unfolding MTD_Erase_def 3 mtd_erase_retry.simps(2) [of 2] up for_each.simps mtd_erase_plane_def
    using d1(1,2) d2(1,2) d3(1) d4(1) wait [OF d3(2)] by (simp add: Let_def INVALID_CHIP_def)
  moreover have "column d4 = (column d)(0 := (\<lambda>x. if x \<in> (+) (MTD_ROW_ADDRESS b 0 0) ` set (upto_u32 0 PAGE_PER_PHY_BLOCK) \<or>
          x \<in> (+) (MTD_ROW_ADDRESS b 1 0) ` set (upto_u32 0 PAGE_PER_PHY_BLOCK) then None else column d 0 x))"
    unfolding d4(3) d3(3) d2(4) d1(5) by (rule ext) (simp add: fun_eq_iff)
  ultimately show ?thesis using d4(2) by blast
qed

end

lemma row_of_block_iff:
  assumes "b < 2048" "pl < 2" "b' < 2048" "pl' < 2" "p < 64"
  shows "MTD_ROW_ADDRESS b' pl' p \<in> (+) (MTD_ROW_ADDRESS b pl 0) ` set (upto_u32 0 PAGE_PER_PHY_BLOCK) \<longleftrightarrow>
     b' = b \<and> pl' = pl"
proof -
  have "MTD_ROW_ADDRESS b' pl' p \<in> (+) (MTD_ROW_ADDRESS b pl 0) ` set (upto_u32 0 PAGE_PER_PHY_BLOCK) \<longleftrightarrow>
      (\<exists>i < 64. MTD_ROW_ADDRESS b' pl' p = MTD_ROW_ADDRESS b pl i)"
    unfolding set_upto_u32 using assms MTD_ROW_add by auto
  also have "\<dots> \<longleftrightarrow> b' = b \<and> pl' = pl"
    using assms MTD_ROW_eq_iff by auto
  finally show ?thesis .
qed

lemma plane_pages_program:
  assumes "b < 2048" "p < 64"
  shows "plane_pages (col(0 := (col 0)(MTD_ROW_ADDRESS b 0 p \<mapsto> (clip PAGE_WORDS buf, s0),
        MTD_ROW_ADDRESS b 1 p \<mapsto> (clip PAGE_WORDS (ptr_add PAGE_WORDS buf), clip SPARE_WORDS sp)))) =
     (plane_pages col)(b := (plane_pages col b)(p \<mapsto> (clip MPP_WORDS buf, clip SPARE_WORDS sp)))"
proof (intro ext)
  fix b' p'
  have buf: "clip 1024 (ptr_sub 512 (clip 512 (ptr_add 512 buf)) (clip 512 buf)) = clip 1024 buf"
    by (auto simp: fun_eq_iff mem_simps)
  show "plane_pages (col(0 := (col 0)(MTD_ROW_ADDRESS b 0 p \<mapsto> (clip PAGE_WORDS buf, s0),
        MTD_ROW_ADDRESS b 1 p \<mapsto> (clip PAGE_WORDS (ptr_add PAGE_WORDS buf), clip SPARE_WORDS sp)))) b' p' =
     ((plane_pages col)(b := (plane_pages col b)(p \<mapsto> (clip MPP_WORDS buf, clip SPARE_WORDS sp)))) b' p'"
    using assms by (auto simp: plane_pages_def MTD_ROW_eq_iff buf split: option.split)
qed

lemma plane_pages_erase:
  assumes "b < 2048"
  shows "plane_pages (col(0 := (\<lambda>x. if x \<in> (+) (MTD_ROW_ADDRESS b 0 0) ` set (upto_u32 0 PAGE_PER_PHY_BLOCK) \<or>
       x \<in> (+) (MTD_ROW_ADDRESS b 1 0) ` set (upto_u32 0 PAGE_PER_PHY_BLOCK) then None else col 0 x))) =
     (plane_pages col)(b := Map.empty)"
proof (intro ext)
  fix b' p'
  show "plane_pages (col(0 := (\<lambda>x. if x \<in> (+) (MTD_ROW_ADDRESS b 0 0) ` set (upto_u32 0 PAGE_PER_PHY_BLOCK) \<or>
       x \<in> (+) (MTD_ROW_ADDRESS b 1 0) ` set (upto_u32 0 PAGE_PER_PHY_BLOCK) then None else col 0 x))) b' p' =
     ((plane_pages col)(b := Map.empty)) b' p'"
    using assms row_of_block_iff by (simp add: plane_pages_def)
qed

lemma planes_agree_program:
  assumes "b < 2048" "p < 64" "planes_agree col"
  shows "planes_agree (col(0 := (col 0)(MTD_ROW_ADDRESS b 0 p \<mapsto> x, MTD_ROW_ADDRESS b 1 p \<mapsto> y)))"
  using assms by (auto simp: planes_agree_def MTD_ROW_eq_iff)

lemma planes_agree_erase:
  assumes "b < 2048" "planes_agree col"
  shows "planes_agree (col(0 := (\<lambda>x. if x \<in> (+) (MTD_ROW_ADDRESS b 0 0) ` set (upto_u32 0 PAGE_PER_PHY_BLOCK) \<or>
       x \<in> (+) (MTD_ROW_ADDRESS b 1 0) ` set (upto_u32 0 PAGE_PER_PHY_BLOCK) then None else col 0 x)))"
  using assms row_of_block_iff by (simp add: planes_agree_def)

sublocale nand_driver \<subseteq> flash: mtd_store "mtd_over N" "\<lambda>d. ok d \<and> planes_agree (column d)"
    "\<lambda>d. plane_pages (column d)"
proof
  fix h b p dm sm and buf sp so :: "mem option"
  assume h: "ok h \<and> planes_agree (column h)" and b: "b < CFG_LOG_BLOCK_COUNT"
  show "\<exists>h'. m_Read (mtd_over N) b p buf sp h = Some (STATUS_SUCCESS, map_option (memcpy_words MPP_WORDS dm) buf,
        map_option (memcpy_words SPARE_WORDS sm) sp, h') \<and> (ok h' \<and> planes_agree (column h')) \<and>
      plane_pages (column h') = plane_pages (column h)"
    if "p < PAGE_PER_PHY_BLOCK" "plane_pages (column h) b p = Some (dm, sm)"
    using MTD_Read_programmed [of h b p dm sm buf sp] h b that by (auto simp: mtd_over_def)
  show "\<exists>h' buf' sp'. m_Read (mtd_over N) b p buf sp h = Some (STATUS_FAILURE, buf', sp', h') \<and>
      (ok h' \<and> planes_agree (column h')) \<and> plane_pages (column h') = plane_pages (column h) \<and>
      (buf' = None \<longleftrightarrow> buf = None) \<and> (sp' = None \<longleftrightarrow> sp = None)"
    if "p < PAGE_PER_PHY_BLOCK" "plane_pages (column h) b p = None"
    using MTD_Read_erased [of h b p buf sp] plane_pages_NoneD [of "column h" b p] h b that
    by (fastforce simp: mtd_over_def)
  show "\<exists>h'. m_Program (mtd_over N) b p dm so h = Some (STATUS_SUCCESS, h') \<and>
      (ok h' \<and> planes_agree (column h')) \<and> plane_pages (column h') =
        (plane_pages (column h))(b := (plane_pages (column h) b)(p \<mapsto> (clip MPP_WORDS dm, clip SPARE_WORDS (spare_or_ones so))))"
    if "p < PAGE_PER_PHY_BLOCK" "plane_pages (column h) b p = None"
  proof -
    have bp: "b < 2048" "p < 64" using b that(1) by simp_all
    have none: "column h 0 (MTD_ROW_ADDRESS b 0 p) = None" "column h 0 (MTD_ROW_ADDRESS b 1 p) = None"
      using plane_pages_NoneD [of "column h" b p] h that(2) bp by simp_all
    obtain d' where "MTD_Program N b p dm so h = Some (STATUS_SUCCESS, d')" "ok d'"
      "column d' = (column h)(0 := (column h 0)
        (MTD_ROW_ADDRESS b 0 p \<mapsto> (clip PAGE_WORDS dm, clip SPARE_WORDS (spare_or_ones so)),
         MTD_ROW_ADDRESS b 1 p \<mapsto> (clip PAGE_WORDS (ptr_add PAGE_WORDS dm), clip SPARE_WORDS (spare_or_ones so))))"
      using MTD_Program_erased [of h b p dm so] none h b bp by auto
    then show ?thesis
      using planes_agree_program [OF bp] plane_pages_program [OF bp] h by (auto simp: mtd_over_def)
  qed
  show "\<exists>h'. m_Erase (mtd_over N) b h = Some (STATUS_SUCCESS, h') \<and> (ok h' \<and> planes_agree (column h')) \<and>
      plane_pages (column h') = (plane_pages (column h))(b := Map.empty)"
  proof -
    have b': "b < 2048" using b by simp
    have okh: "ok h" "planes_agree (column h)" using h by simp_all
    obtain d' where d': "MTD_Erase N b h = Some (STATUS_SUCCESS, d')" "ok d'"
      and col: "column d' = (column h)(0 := (\<lambda>x.
          if x \<in> (+) (MTD_ROW_ADDRESS b 0 0) ` set (upto_u32 0 PAGE_PER_PHY_BLOCK) \<or>
             x \<in> (+) (MTD_ROW_ADDRESS b 1 0) ` set (upto_u32 0 PAGE_PER_PHY_BLOCK) then None else column h 0 x))"
      using MTD_Erase_ok [OF okh(1) b] by blast
    show ?thesis
      using d' planes_agree_erase [OF b' okh(2), folded col] plane_pages_erase [OF b', of "column h", folded col]
      by (simp add: mtd_over_def)
  qed
  show "\<exists>h'. m_WaitReady (mtd_over N) b h = Some (STATUS_SUCCESS, h') \<and> (ok h' \<and> planes_agree (column h')) \<and>
      plane_pages (column h') = plane_pages (column h)"
    using WaitReady_ok [of h b] h b by (auto simp: mtd_over_def)
  show "\<exists>h'. m_ReadStatus (mtd_over N) b h = Some (STATUS_SUCCESS, h') \<and> (ok h' \<and> planes_agree (column h')) \<and>
      plane_pages (column h') = plane_pages (column h)"
    using ReadStatus_ok [of h b] h b by (auto simp: mtd_over_def)
qed

text \<open>The firmware on the simulated NAND, as its own test build links it.\<close>

definition sim_mtd :: "sim_state mtd_ops" where "sim_mtd = mtd_over sim_ops"

definition sim_flash_ok :: "sim_state \<Rightarrow> bool" where
  "sim_flash_ok d \<longleftrightarrow> sim_ok d \<and> planes_agree (sim_column d)"

definition sim_pages :: "sim_state \<Rightarrow> u32 \<Rightarrow> u32 \<Rightarrow> (mem \<times> mem) option" where
  "sim_pages d = plane_pages (sim_column d)"

interpretation sim_flash: mtd_store sim_mtd sim_flash_ok sim_pages
  using sim.flash.mtd_store_axioms by (simp only: sim_mtd_def sim_flash_ok_def [abs_def] sim_pages_def [abs_def])

lemma sim_start_flash [simp]: "sim_flash_ok sim_start" "sim_pages sim_start = (\<lambda>_ _. None)"
  by (simp_all add: sim_flash_ok_def sim_pages_def planes_agree_def plane_pages_def fun_eq_iff)

section \<open>The flash keeps what is written\<close>

lemma sim_mtd_ops: "m_Read sim_mtd = MTD_Read sim_ops" "m_Program sim_mtd = MTD_Program sim_ops"
    "m_Erase sim_mtd = MTD_Erase sim_ops" "m_WaitReady sim_mtd = MTD_WaitReady sim_ops"
  by (simp_all add: sim_mtd_def mtd_over_def)

text \<open>A page programmed through both planes into an erased page reads back: the data words, and the spare
  words (all ones if none were given); and no other page of the flash changes.\<close>

theorem MTD_Program_Read:
  assumes "sim_flash_ok d" "b < CFG_LOG_BLOCK_COUNT" "p < PAGE_PER_PHY_BLOCK" "sim_pages d b p = None"
  shows "\<exists>d1 d2. MTD_Program sim_ops b p dm so d = Some (STATUS_SUCCESS, d1) \<and>
    MTD_Read sim_ops b p (Some buf) (Some sp) d1 =
      Some (STATUS_SUCCESS, Some (memcpy_words MPP_WORDS dm buf), Some (memcpy_words SPARE_WORDS (spare_or_ones so) sp), d2) \<and>
    sim_flash_ok d2 \<and> (sim_pages d2)(b := (sim_pages d2 b)(p := None)) = sim_pages d"
proof -
  obtain d1 where d1: "MTD_Program sim_ops b p dm so d = Some (STATUS_SUCCESS, d1)" "sim_flash_ok d1"
    "sim_pages d1 = (sim_pages d)(b := (sim_pages d b)(p \<mapsto> (clip MPP_WORDS dm, clip SPARE_WORDS (spare_or_ones so))))"
    using sim_flash.program [OF assms] by (auto simp: sim_mtd_ops)
  have "sim_pages d1 b p = Some (clip MPP_WORDS dm, clip SPARE_WORDS (spare_or_ones so))" by (simp add: d1(3))
  from sim_flash.read [OF d1(2) assms(2,3) this, of "Some buf" "Some sp"]
  obtain d2 where d2: "MTD_Read sim_ops b p (Some buf) (Some sp) d1 =
      Some (STATUS_SUCCESS, Some (memcpy_words MPP_WORDS dm buf), Some (memcpy_words SPARE_WORDS (spare_or_ones so) sp), d2)"
    "sim_flash_ok d2" "sim_pages d2 = sim_pages d1" by (auto simp: sim_mtd_ops)
  have "(sim_pages d2)(b := (sim_pages d2 b)(p := None)) = sim_pages d"
    using assms(4) by (auto simp: d2(3) d1(3) fun_eq_iff)
  with d1(1) d2(1,2) show ?thesis by blast
qed

theorem MTD_Program_Read_witness:
  "\<exists>d1 d2. MTD_Program sim_ops 5 63 (\<lambda>i. of_nat i) None sim_start = Some (STATUS_SUCCESS, d1) \<and>
    MTD_Read sim_ops 5 63 (Some (\<lambda>_. 0)) (Some (\<lambda>_. 0)) d1 =
      Some (STATUS_SUCCESS, Some (memcpy_words MPP_WORDS of_nat (\<lambda>_. 0)), Some (memset_words SPARE_WORDS (- 1) (\<lambda>_. 0)), d2)"
  using MTD_Program_Read [of sim_start 5 63 "\<lambda>i. of_nat i" None "\<lambda>_. 0" "\<lambda>_. 0"] by auto

text \<open>Erasing a block makes every page of it read as a failure, after three attempts, and leaves every
  page of every other block as it was.\<close>

theorem MTD_Erase_Read:
  assumes "sim_flash_ok d" "b < CFG_LOG_BLOCK_COUNT" "p < PAGE_PER_PHY_BLOCK"
  shows "\<exists>d1 d2 buf' sp'. MTD_Erase sim_ops b d = Some (STATUS_SUCCESS, d1) \<and>
    MTD_Read sim_ops b p buf sp d1 = Some (STATUS_FAILURE, buf', sp', d2) \<and>
    sim_flash_ok d2 \<and> sim_pages d2 = (sim_pages d)(b := Map.empty)"
proof -
  obtain d1 where d1: "MTD_Erase sim_ops b d = Some (STATUS_SUCCESS, d1)" "sim_flash_ok d1"
    "sim_pages d1 = (sim_pages d)(b := Map.empty)"
    using sim_flash.erase [OF assms(1,2)] by (auto simp: sim_mtd_ops)
  have "sim_pages d1 b p = None" by (simp add: d1(3))
  from sim_flash.read_erased [OF d1(2) assms(2,3) this, of buf sp] d1(1,3) show ?thesis
    unfolding sim_mtd_ops by metis
qed

theorem MTD_Erase_Read_witness:
  "\<exists>d1 d2 buf' sp'. MTD_Erase sim_ops 7 sim_start = Some (STATUS_SUCCESS, d1) \<and>
    MTD_Read sim_ops 7 0 None None d1 = Some (STATUS_FAILURE, buf', sp', d2)"
  using MTD_Erase_Read [of sim_start 7 0 None None] by auto

section \<open>Retrying a read\<close>

text \<open>One attempt on a page of which only the first plane is programmed, at word \<open>k\<close> of the caller's buffer.\<close>

definition half_read :: "nat \<Rightarrow> mem \<Rightarrow> mem \<Rightarrow> mem" where
  "half_read k md m = (\<lambda>i. if i < k then m i else if i < k + PAGE_WORDS then md (i - k)
     else if i < k + 2 * PAGE_WORDS then - 1 else m i)"

context nand_driver
begin

lemma read_plane_erased_buffer:
  assumes "ok (rd_dev v)" "rd_ret v = STATUS_SUCCESS" "rd_buffer v = Some m"
    and "column (rd_dev v) 0 (MTD_ROW_ADDRESS b pl p) = None"
  shows "\<exists>d' sp'. mtd_read_plane N b p pl v = Some (True, v\<lparr>rd_ret := STATUS_FAILURE,
      rd_buffer := Some (ptr_sub (rd_off v) (memset_words PAGE_WORDS (- 1) (ptr_add (rd_off v) m)) m),
      rd_spare := sp', rd_dev := d'\<rparr>) \<and> ok d' \<and> column d' = column (rd_dev v)"
proof -
  obtain e1 e2 d1 where d1: "NAND_SendCMD N CMD_READ (NAND_SelectChip N 0 (rd_dev v)) = Some e1"
      "NAND_SendAddr N 0 (MTD_ROW_ADDRESS b pl p) CFG_NAND_COL_CYCLE CFG_NAND_ROW_CYCLE e1 = Some e2"
      "NAND_SendCMD N CMD_READ_COMMIT e2 = Some d1" "ok d1" "NAND_WaitRB N 0 d1 = d1"
      "mode d1 = STATE_READ" "chip d1 = 0" "row d1 = MTD_ROW_ADDRESS b pl p" "column d1 = column (rd_dev v)"
    using start_read [OF assms(1)] by blast
  obtain d2 where "NAND_ReceiveData N (Some (ptr_add (rd_off v) m)) (rd_spare v) d1 =
      Some (STATUS_FAILURE, Some (memset_words PAGE_WORDS (- 1) (ptr_add (rd_off v) m)),
        map_option (memset_words SPARE_WORDS (- 1)) (rd_spare v), d2)" "ok d2" "column d2 = column (rd_dev v)"
    using receive_erased [of d1 "Some (ptr_add (rd_off v) m)" "rd_spare v"] d1 assms(4) by auto
  with d1 assms show ?thesis
    by (intro exI [of _ d2] exI [of _ "map_option (memset_words SPARE_WORDS (- 1)) (rd_spare v)"])
      (auto simp: mtd_read_plane_def Let_def ecc)
qed

lemma read_attempt_half:
  assumes "ok (rd_dev v)" "rd_ret v = STATUS_SUCCESS" "rd_buffer v = Some m"
    and "column (rd_dev v) 0 (MTD_ROW_ADDRESS b 0 p) = Some (md, sd)"
    and "column (rd_dev v) 0 (MTD_ROW_ADDRESS b 1 p) = None"
  shows "\<exists>v'. for_break (upto_u32 0 PLANE_PER_DIE) (mtd_read_plane N b p) v = Some v' \<and>
      rd_ret v' = STATUS_FAILURE \<and> rd_off v' = rd_off v + PAGE_WORDS \<and>
      rd_buffer v' = Some (half_read (rd_off v) md m) \<and> ok (rd_dev v') \<and> column (rd_dev v') = column (rd_dev v)"
proof -
  have up: "upto_u32 0 PLANE_PER_DIE = [0, 1]" by (simp add: upt_rec)
  define m1 where "m1 = ptr_sub (rd_off v) (memcpy_words PAGE_WORDS md (ptr_add (rd_off v) m)) m"
  obtain d1 where 1: "mtd_read_plane N b p 0 v = Some (False, v\<lparr>rd_buffer := Some m1,
      rd_spare := map_option (memcpy_words SPARE_WORDS sd) (rd_spare v), rd_dev := d1, rd_off := rd_off v + PAGE_WORDS\<rparr>)"
      "ok d1" "column d1 = column (rd_dev v)"
    using read_plane_programmed [OF assms(1,2,4)] assms(3) by (auto simp: m1_def)
  define v1 where "v1 = v\<lparr>rd_buffer := Some m1, rd_spare := map_option (memcpy_words SPARE_WORDS sd) (rd_spare v),
      rd_dev := d1, rd_off := rd_off v + PAGE_WORDS\<rparr>"
  have v1: "ok (rd_dev v1)" "rd_ret v1 = STATUS_SUCCESS" "rd_buffer v1 = Some m1"
      "column (rd_dev v1) 0 (MTD_ROW_ADDRESS b 1 p) = None" "column (rd_dev v1) = column (rd_dev v)"
      "rd_off v1 = rd_off v + PAGE_WORDS"
    using 1 assms by (simp_all add: v1_def)
  obtain d2 sp' where 2: "mtd_read_plane N b p 1 v1 = Some (True, v1\<lparr>rd_ret := STATUS_FAILURE,
      rd_buffer := Some (ptr_sub (rd_off v1) (memset_words PAGE_WORDS (- 1) (ptr_add (rd_off v1) m1)) m1),
      rd_spare := sp', rd_dev := d2\<rparr>)" "ok d2" "column d2 = column (rd_dev v1)"
    using read_plane_erased_buffer [OF v1(1-4)] by blast
  have "ptr_sub (rd_off v1) (memset_words PAGE_WORDS (- 1) (ptr_add (rd_off v1) m1)) m1 = half_read (rd_off v) md m"
    unfolding v1(6) m1_def by (auto simp: half_read_def mem_simps fun_eq_iff)
  with 2 v1 have 3: "mtd_read_plane N b p 1 v1 = Some (True, v1\<lparr>rd_ret := STATUS_FAILURE,
      rd_buffer := Some (half_read (rd_off v) md m), rd_spare := sp', rd_dev := d2\<rparr>)" by metis
  have "for_break (upto_u32 0 PLANE_PER_DIE) (mtd_read_plane N b p) v = Some (v1\<lparr>rd_ret := STATUS_FAILURE,
      rd_buffer := Some (half_read (rd_off v) md m), rd_spare := sp', rd_dev := d2\<rparr>)"
    unfolding up for_break.simps 1(1) v1_def [symmetric] by (simp add: 3)
  then show ?thesis using 2(2,3) v1(5,6) by simp
qed

lemma MTD_Read_half:
  assumes "ok d" "b < CFG_LOG_BLOCK_COUNT"
    and "column d 0 (MTD_ROW_ADDRESS b 0 p) = Some (md, sd)" "column d 0 (MTD_ROW_ADDRESS b 1 p) = None"
  shows "\<exists>d' sp'. MTD_Read N b p (Some m) sp d =
     Some (STATUS_FAILURE, Some (half_read (2 * PAGE_WORDS) md (half_read PAGE_WORDS md (half_read 0 md m))), sp', d')"
proof -
  obtain e where e: "MTD_WaitReady N b d = Some (STATUS_SUCCESS, e)" "ok e" "column e = column d"
    using WaitReady_ok [OF assms(1,2)] by blast
  note half = read_attempt_half [of _ _ b p md sd]
  obtain v1 where v1: "for_break (upto_u32 0 PLANE_PER_DIE) (mtd_read_plane N b p)
      \<lparr>rd_ret = STATUS_SUCCESS, rd_buffer = Some m, rd_off = 0, rd_spare = sp, rd_dev = e\<rparr> = Some v1"
      "rd_ret v1 = STATUS_FAILURE" "rd_off v1 = PAGE_WORDS" "rd_buffer v1 = Some (half_read 0 md m)" "ok (rd_dev v1)"
      "column (rd_dev v1) = column d"
    using half [of "\<lparr>rd_ret = STATUS_SUCCESS, rd_buffer = Some m, rd_off = 0, rd_spare = sp, rd_dev = e\<rparr>" m] e assms by auto
  obtain v2 where v2: "for_break (upto_u32 0 PLANE_PER_DIE) (mtd_read_plane N b p) (v1\<lparr>rd_ret := STATUS_SUCCESS\<rparr>) = Some v2"
      "rd_ret v2 = STATUS_FAILURE" "rd_off v2 = 2 * PAGE_WORDS" "rd_buffer v2 = Some (half_read PAGE_WORDS md (half_read 0 md m))"
      "ok (rd_dev v2)" "column (rd_dev v2) = column d"
    using half [of "v1\<lparr>rd_ret := STATUS_SUCCESS\<rparr>" "half_read 0 md m"] v1 assms by auto
  obtain v3 where v3: "for_break (upto_u32 0 PLANE_PER_DIE) (mtd_read_plane N b p) (v2\<lparr>rd_ret := STATUS_SUCCESS\<rparr>) = Some v3"
      "rd_ret v3 = STATUS_FAILURE"
      "rd_buffer v3 = Some (half_read (2 * PAGE_WORDS) md (half_read PAGE_WORDS md (half_read 0 md m)))"
    using half [of "v2\<lparr>rd_ret := STATUS_SUCCESS\<rparr>" "half_read PAGE_WORDS md (half_read 0 md m)"] v2 assms by auto
  have 3: "MTD_MAX_RETRY_TIMES = Suc (Suc (Suc 0))" by (simp add: MTD_MAX_RETRY_TIMES_def)
  show ?thesis
    using v1 v2 v3 unfolding MTD_Read_def e(1) 3 mtd_read_retry.simps by (simp del: mtd_read_retry.simps)
qed

end

text \<open>A page of which only the first plane was programmed reads as a failure, but each of the three attempts
  continues where the one before stopped: the second and third write the first plane's data behind the
  middle and then behind the end of the caller's page, and the last leaves ones there.\<close>

theorem MTD_Read_retry_overrun:
  assumes "sim_ok d" "b < CFG_LOG_BLOCK_COUNT"
    and "sim_column d 0 (MTD_ROW_ADDRESS b 0 p) = Some (md, sd)" "sim_column d 0 (MTD_ROW_ADDRESS b 1 p) = None"
  shows "\<exists>m' sp' d'. MTD_Read sim_ops b p (Some m) sp d = Some (STATUS_FAILURE, Some m', sp', d') \<and>
    m' = (\<lambda>i. if i < MPP_WORDS then md (i mod PAGE_WORDS)
              else if i < MPP_WORDS + PAGE_WORDS then md (i - MPP_WORDS)
              else if i < 2 * MPP_WORDS then - 1 else m i)"
proof -
  have eq: "half_read (2 * PAGE_WORDS) md (half_read PAGE_WORDS md (half_read 0 md m)) =
      (\<lambda>i. if i < MPP_WORDS then md (i mod PAGE_WORDS) else if i < MPP_WORDS + PAGE_WORDS then md (i - MPP_WORDS)
           else if i < 2 * MPP_WORDS then - 1 else m i)"
  proof
    fix i
    consider "i < (512 :: nat)" | "512 \<le> i" "i < 1024" | "1024 \<le> i" by linarith
    then show "half_read (2 * PAGE_WORDS) md (half_read PAGE_WORDS md (half_read 0 md m)) i =
      (if i < MPP_WORDS then md (i mod PAGE_WORDS) else if i < MPP_WORDS + PAGE_WORDS then md (i - MPP_WORDS)
       else if i < 2 * MPP_WORDS then - 1 else m i)"
    proof cases
      case 2
      then have "i mod 512 = i - 512" by (subst le_mod_geq) auto
      with 2 show ?thesis by (simp add: half_read_def)
    qed (simp_all add: half_read_def)
  qed
  from sim.MTD_Read_half [OF assms, of m sp] obtain d' sp' where
    r: "MTD_Read sim_ops b p (Some m) sp d =
      Some (STATUS_FAILURE, Some (half_read (2 * PAGE_WORDS) md (half_read PAGE_WORDS md (half_read 0 md m))), sp', d')"
    by blast
  show ?thesis by (intro exI conjI, rule r, rule eq)
qed

definition torn_page :: sim_state where
  "torn_page = sim_start\<lparr>sim_nand := (sim_nand sim_start)(0 := (sim_nand sim_start 0)(0 :=
     \<lparr>main_data = (\<lambda>_. 5), spare_data = (\<lambda>_. 0), col_state = SIM_NAND_PROGRAMMED\<rparr>))\<rparr>"

theorem MTD_Read_retry_overrun_witness:
  "\<exists>m' sp' d'. MTD_Read sim_ops 0 0 (Some (\<lambda>_. 0)) None torn_page = Some (STATUS_FAILURE, Some m', sp', d') \<and> m' 1024 = 5"
proof -
  have "sim_ok torn_page" unfolding torn_page_def by (rule sim_ok_update) simp_all
  moreover have "sim_column torn_page 0 (MTD_ROW_ADDRESS 0 0 0) = Some (clip PAGE_WORDS (\<lambda>_. 5), clip SPARE_WORDS (\<lambda>_. 0))"
    "sim_column torn_page 0 (MTD_ROW_ADDRESS 0 1 0) = None"
    by (simp_all add: torn_page_def sim_column_update MTD_ROW_ADDRESS_def MTD_REAL_BLOCK_def TRANS_PHY_BLOCK_def)
  ultimately show ?thesis
    using MTD_Read_retry_overrun [of torn_page 0 0 "clip PAGE_WORDS (\<lambda>_. 5)" "clip SPARE_WORDS (\<lambda>_. 0)" "\<lambda>_. 0" None]
    by (auto simp: mem_simps)
qed

end
