(* ===== verification/Buf.thy ===== *)
theory Buf
  imports Prelude
begin

text \<open>
  The page buffers of core/buf/buf_api.c: a pool of \<open>BUFFER_COUNT\<close> page buffers with a used flag
  each, and the write buffer that collects the sectors of one page. (\<open>BUF_GetPage\<close> reads through
  the FTL and is modelled with it.) A pointer into the pool is the buffer's index; a pointer the pool
  does not own, to a table of the firmware, is the memory it points to.
\<close>

datatype buf = PoolBuf u32 | OtherMem mem

record buf_state =
  pb_pool :: "u32 \<Rightarrow> mem"
  pb_pool_used :: "u32 \<Rightarrow> bool"
  sector_written :: "u32 \<Rightarrow> bool"
  write_buffer :: "u32 option"
  merge_buffer :: "u32 option"
  buf_start_addr :: u32
  buf_end_addr :: u32

definition SECTOR_WORDS :: nat where "SECTOR_WORDS = unat SECTOR_SIZE div 4"

lemma SECTOR_WORDS_value [simp, cfg_defs]: "SECTOR_WORDS = 128"
  by (simp add: SECTOR_WORDS_def)

definition deref :: "buf_state \<Rightarrow> buf \<Rightarrow> mem" where
  "deref s p = (case p of PoolBuf i \<Rightarrow> pb_pool s i | OtherMem m \<Rightarrow> m)"

definition pool_put :: "u32 \<Rightarrow> mem \<Rightarrow> buf_state \<Rightarrow> buf_state" where
  "pool_put i m s = s\<lparr>pb_pool := (pb_pool s)(i := m)\<rparr>"

section \<open>Operations\<close>

definition BUF_Allocate :: "buf_state \<Rightarrow> u32 option \<times> buf_state" where
  "BUF_Allocate s =
     (case find (\<lambda>i. \<not> pb_pool_used s i \<or> \<not> pb_pool_used s (i + BUFFER_COUNT div 2)) (upto_u32 0 (BUFFER_COUNT div 2)) of
        None \<Rightarrow> (None, s)
      | Some i \<Rightarrow>
          if \<not> pb_pool_used s i
          then (Some i, s\<lparr>pb_pool_used := (pb_pool_used s)(i := True)\<rparr>)
          else (Some (i + BUFFER_COUNT div 2),
                s\<lparr>pb_pool_used := (pb_pool_used s)(i + BUFFER_COUNT div 2 := True)\<rparr>))"

definition BUF_Free :: "buf \<Rightarrow> buf_state \<Rightarrow> buf_state option" where
  "BUF_Free buffer s = (case buffer of
     OtherMem _ \<Rightarrow> Some s
   | PoolBuf i \<Rightarrow>
       if i < BUFFER_COUNT then do {
         ASSERT (pb_pool_used s i);
         Some (s\<lparr>pb_pool_used := (pb_pool_used s)(i := False)\<rparr>) }
       else Some s)"

definition BUF_Init :: "buf_state \<Rightarrow> buf_state" where
  "BUF_Init s =
     (let s = s\<lparr>buf_start_addr := INVALID_LSADDR, buf_end_addr := INVALID_LSADDR\<rparr>;
          s = fold (\<lambda>i s. s\<lparr>pb_pool_used := (pb_pool_used s)(i := False)\<rparr>) (upto_u32 0 BUFFER_COUNT) s;
          s = fold (\<lambda>i s. s\<lparr>sector_written := (sector_written s)(i := False)\<rparr>) (upto_u32 0 SECTOR_PER_MPP) s;
          (p, s) = BUF_Allocate s
      in s\<lparr>write_buffer := p, merge_buffer := None\<rparr>)"

definition BUF_PutSector :: "u32 \<Rightarrow> mem \<Rightarrow> buf_state \<Rightarrow> buf_state option" where
  "BUF_PutSector addr sector s = do {
     ASSERT (write_buffer s \<noteq> None);
     let s = (if buf_end_addr s = INVALID_LSADDR
              then s\<lparr>buf_start_addr := addr AND NOT (SECTOR_PER_MPP - 1),
                     buf_end_addr := addr OR (SECTOR_PER_MPP - 1)\<rparr>
              else s);
     if buf_start_addr s \<le> addr \<and> addr \<le> buf_end_addr s
     then do {
       let p = the (write_buffer s);
       let off = unat (addr - buf_start_addr s) * SECTOR_WORDS;
       let m = pb_pool s p;
       let s = pool_put p (ptr_sub off (memcpy_words SECTOR_WORDS sector (ptr_add off m)) m) s;
       Some (s\<lparr>sector_written := (sector_written s)(addr - buf_start_addr s := True)\<rparr>) }
     else do { ASSERT False; Some s } }"

section \<open>Allocation\<close>

lemma HALF_POOL: "BUFFER_COUNT div 2 = 2"
  by (simp add: word_unat_eq_iff unat_div)

lemma half_pool: "upto_u32 0 2 = [0, 1]"
  by (simp add: upt_rec)

lemma BUF_Allocate_eq:
  "BUF_Allocate s =
     (let take = (\<lambda>i. (Some i, s\<lparr>pb_pool_used := (pb_pool_used s)(i := True)\<rparr>)) in
      if \<not> pb_pool_used s 0 then take 0 else if \<not> pb_pool_used s 2 then take 2
      else if \<not> pb_pool_used s 1 then take 1 else if \<not> pb_pool_used s 3 then take 3 else (None, s))"
  unfolding BUF_Allocate_def HALF_POOL half_pool by (simp add: Let_def)

lemma u32_less_4: "(i :: u32) < 4 \<longleftrightarrow> i = 0 \<or> i = 1 \<or> i = 2 \<or> i = 3"
proof -
  have "unat i < 4 \<longleftrightarrow> unat i = 0 \<or> unat i = 1 \<or> unat i = 2 \<or> unat i = 3" by linarith
  then show ?thesis by (simp add: word_less_nat_alt word_unat_eq_iff)
qed

lemma BUF_Allocate_SomeD:
  "BUF_Allocate s = (Some i, s') \<Longrightarrow> i < 4 \<and> \<not> pb_pool_used s i \<and>
     s' = s\<lparr>pb_pool_used := (pb_pool_used s)(i := True)\<rparr>"
  by (auto simp: BUF_Allocate_eq Let_def u32_less_4 split: if_splits)

lemma BUF_Allocate_NoneD: "BUF_Allocate s = (None, s') \<Longrightarrow> s' = s \<and> (\<forall>i < 4. pb_pool_used s i)"
  by (auto simp: BUF_Allocate_eq Let_def u32_less_4 split: if_splits)

lemma BUF_Allocate_free: "i < 4 \<Longrightarrow> \<not> pb_pool_used s i \<Longrightarrow> \<exists>j s'. BUF_Allocate s = (Some j, s')"
  by (cases "BUF_Allocate s"; cases "fst (BUF_Allocate s)") (auto dest: BUF_Allocate_NoneD)

text \<open>Buffer allocation hands out a free buffer of the pool, marking exactly that one as used, and
  fails, changing nothing, only when all four buffers are in use.\<close>

theorem BUF_Allocate_correct:
  "case BUF_Allocate s of
     (Some i, s') \<Rightarrow> i < BUFFER_COUNT \<and> \<not> pb_pool_used s i \<and> s' = s\<lparr>pb_pool_used := (pb_pool_used s)(i := True)\<rparr>
   | (None, s') \<Rightarrow> s' = s \<and> {i. i < BUFFER_COUNT \<and> \<not> pb_pool_used s i} = {}"
  using BUF_Allocate_SomeD [of s] BUF_Allocate_NoneD [of s]
  by (auto split: prod.split option.split)

text \<open>Freeing the buffer just allocated restores the pool.\<close>

theorem BUF_Free_Allocate:
  assumes "BUF_Allocate s = (Some i, s')"
  shows "BUF_Free (PoolBuf i) s' = Some s"
  using BUF_Allocate_SomeD [OF assms] by (auto simp: BUF_Free_def fun_upd_idem)

definition empty_bufs :: buf_state where
  "empty_bufs = \<lparr>pb_pool = (\<lambda>_ _. 0), pb_pool_used = (\<lambda>i. i = 0), sector_written = (\<lambda>_. False),
     write_buffer = Some 0, merge_buffer = None, buf_start_addr = INVALID_LSADDR, buf_end_addr = INVALID_LSADDR\<rparr>"

theorem BUF_Free_Allocate_witness:
  "BUF_Free (PoolBuf 2) (snd (BUF_Allocate empty_bufs)) = Some empty_bufs"
  by (rule BUF_Free_Allocate) (simp add: BUF_Allocate_eq empty_bufs_def)

section \<open>Start-up\<close>

text \<open>Static variables are zero at reset.\<close>

definition buf_start :: buf_state where
  "buf_start = \<lparr>pb_pool = (\<lambda>_ _. 0), pb_pool_used = (\<lambda>_. False), sector_written = (\<lambda>_. False),
     write_buffer = None, merge_buffer = None, buf_start_addr = 0, buf_end_addr = 0\<rparr>"

lemma BUF_Init_buf_start:
  "BUF_Init buf_start = buf_start\<lparr>pb_pool_used := (\<lambda>i. i = 0), write_buffer := Some 0,
     buf_start_addr := INVALID_LSADDR, buf_end_addr := INVALID_LSADDR\<rparr>"
  by (auto simp: BUF_Init_def BUF_Allocate_eq Let_def buf_start_def upt_rec fun_eq_iff)

end
