(* ===== verification/Ubi_State.thy ===== *)
theory Ubi_State
  imports Mtd Buf
begin

text \<open>
  The state of the UBI layer (core/ubi): the anchor, index and area tables of core/ubi/ubi_inc.h and
  ubi_area.c as records, their layout in a flash page with its round trips, the static
  variables of the layer's files as one record, and the reading and writing of a table page
  (core/ubi/ubi_table.c) with the proof that the binary search finds the newest page.
\<close>

section \<open>Constants\<close>

definition AREA_UPDATE_PLR_SIZE :: u32 where "AREA_UPDATE_PLR_SIZE = 3 * 4"
definition FREE_BLOCK_COUNT :: u32 where "FREE_BLOCK_COUNT = (MPP_SIZE div 4 - AREA_UPDATE_PLR_SIZE) div 4"
definition REAL_FREE_BLOCK_COUNT :: u32 where
  "REAL_FREE_BLOCK_COUNT = CFG_LOG_BLOCK_COUNT div (100 div (100 - GOOD_BLOCK_PERCENT))"
definition ANCHOR_BLOCK_COUNT :: u32 where
  "ANCHOR_BLOCK_COUNT = CFG_LOG_BLOCK_COUNT * 2 * 2 div PAGE_PER_PHY_BLOCK div PAGE_PER_PHY_BLOCK + 2"
definition ANCHOR_BADBLOCK_COUNT :: u32 where "ANCHOR_BADBLOCK_COUNT = MPP_SIZE div 4 - 11"
definition ANCHOR_VERSION :: u32 where "ANCHOR_VERSION = 123"

text \<open>The string "I LOVE WSS!", without its terminating zero byte.\<close>

definition ANCHOR_OATH :: "u8 list" where
  "ANCHOR_OATH = [73, 32, 76, 79, 86, 69, 32, 87, 83, 83, 33]"

definition CODE_BLOCK :: u32 where "CODE_BLOCK = 0"
definition CODE_BLOCK_COUNT :: u32 where "CODE_BLOCK_COUNT = 1"
definition ANCHOR_FIRST_BLOCK :: u32 where "ANCHOR_FIRST_BLOCK = CODE_BLOCK + CODE_BLOCK_COUNT"
definition ANCHOR_LAST_BLOCK :: u32 where "ANCHOR_LAST_BLOCK = ANCHOR_FIRST_BLOCK + ANCHOR_BLOCK_COUNT - 1"
definition INDEX_BLOCK_COUNT :: u32 where "INDEX_BLOCK_COUNT = 1"
definition DATA_FIRST_BLOCK :: u32 where "DATA_FIRST_BLOCK = ANCHOR_FIRST_BLOCK + ANCHOR_BLOCK_COUNT"
definition DATA_BLOCK_COUNT :: u32 where
  "DATA_BLOCK_COUNT = CFG_LOG_BLOCK_COUNT - CODE_BLOCK_COUNT - ANCHOR_BLOCK_COUNT - INDEX_BLOCK_COUNT -
     REAL_FREE_BLOCK_COUNT"

definition AREA_INDEX :: "u32 \<Rightarrow> u32" where "AREA_INDEX block = block div CFG_PHY_BLOCK_PER_AREA"
definition BLOCK_OFFSET_AREA :: "u32 \<Rightarrow> u32" where "BLOCK_OFFSET_AREA block = block mod CFG_PHY_BLOCK_PER_AREA"

lemma ubi_const_values [simp, cfg_defs]:
  "AREA_UPDATE_PLR_SIZE = 12" "FREE_BLOCK_COUNT = 253" "REAL_FREE_BLOCK_COUNT = 40" "ANCHOR_BLOCK_COUNT = 4"
  "ANCHOR_BADBLOCK_COUNT = 1013" "ANCHOR_VERSION = 123" "CODE_BLOCK = 0" "CODE_BLOCK_COUNT = 1"
  "ANCHOR_FIRST_BLOCK = 1" "ANCHOR_LAST_BLOCK = 4" "INDEX_BLOCK_COUNT = 1" "DATA_FIRST_BLOCK = 5"
  "DATA_BLOCK_COUNT = 2002"
  by (simp_all add: AREA_UPDATE_PLR_SIZE_def FREE_BLOCK_COUNT_def REAL_FREE_BLOCK_COUNT_def
      ANCHOR_BLOCK_COUNT_def ANCHOR_BADBLOCK_COUNT_def ANCHOR_VERSION_def CODE_BLOCK_def CODE_BLOCK_COUNT_def
      ANCHOR_FIRST_BLOCK_def ANCHOR_LAST_BLOCK_def INDEX_BLOCK_COUNT_def DATA_FIRST_BLOCK_def DATA_BLOCK_COUNT_def)

section \<open>Tables\<close>

text \<open>Arrays are functions of the index; an entry at or past the array's size is the memory after it.\<close>

record AREA_UPDATE_PLR =
  area_updating_logical_block :: u32
  area_updating_physical_block :: u32
  area_updating_block_ec :: u32

record INDEX_TABLE =
  area_index_table :: "u32 \<Rightarrow> u32"
  area_index_ect :: "u32 \<Rightarrow> u32"
  free_block_table :: "u32 \<Rightarrow> u32"
  free_block_ect :: "u32 \<Rightarrow> u32"
  area_update_plr :: AREA_UPDATE_PLR
  padding :: AREA_UPDATE_PLR

record ANCHOR_TABLE =
  index_new_block :: u32
  index_new_ec :: u32
  index_old_block :: u32
  index_old_ec :: u32
  previous_anchor_block :: u32
  total_data_block :: u32
  swl_current_area :: u32
  oath :: "nat \<Rightarrow> u8"
  version :: u32
  bad_block_table :: "u32 \<Rightarrow> u32"

record AREA_BLOCK =
  physical_block :: u32
  physical_block_ec :: u32

text \<open>
  The tables as page contents, and the tables read back from a page: a load replaces what lies
  inside the C object and keeps the rest.
\<close>

definition plr_words :: "AREA_UPDATE_PLR \<Rightarrow> mem" where
  "plr_words p n = (if n = 0 then area_updating_logical_block p
     else if n = 1 then area_updating_physical_block p else area_updating_block_ec p)"

definition plr_load :: "mem \<Rightarrow> AREA_UPDATE_PLR" where
  "plr_load m = \<lparr>area_updating_logical_block = m 0, area_updating_physical_block = m 1,
     area_updating_block_ec = m 2\<rparr>"

definition index_words :: "INDEX_TABLE \<Rightarrow> mem" where
  "index_words t n =
     (if n < 256 then area_index_table t (of_nat n)
      else if n < 512 then area_index_ect t (of_nat (n - 256))
      else if n < 765 then free_block_table t (of_nat (n - 512))
      else if n < 1018 then free_block_ect t (of_nat (n - 765))
      else if n < 1021 then plr_words (area_update_plr t) (n - 1018)
      else plr_words (padding t) (n - 1021))"

definition load_array :: "nat \<Rightarrow> nat \<Rightarrow> mem \<Rightarrow> (u32 \<Rightarrow> u32) \<Rightarrow> u32 \<Rightarrow> u32" where
  "load_array off len m old i = (if unat i < len then m (off + unat i) else old i)"

definition index_load :: "mem \<Rightarrow> INDEX_TABLE \<Rightarrow> INDEX_TABLE" where
  "index_load m t = \<lparr>area_index_table = load_array 0 256 m (area_index_table t),
     area_index_ect = load_array 256 256 m (area_index_ect t),
     free_block_table = load_array 512 253 m (free_block_table t),
     free_block_ect = load_array 765 253 m (free_block_ect t),
     area_update_plr = plr_load (ptr_add 1018 m), padding = plr_load (ptr_add 1021 m)\<rparr>"

definition anchor_words :: "ANCHOR_TABLE \<Rightarrow> mem" where
  "anchor_words t n =
     (if n = 0 then index_new_block t else if n = 1 then index_new_ec t
      else if n = 2 then index_old_block t else if n = 3 then index_old_ec t
      else if n = 4 then previous_anchor_block t else if n = 5 then total_data_block t
      else if n = 6 then swl_current_area t
      else if n < 10 then words_of (oath t) (n - 7)
      else if n = 10 then version t
      else bad_block_table t (of_nat (n - 11)))"

definition anchor_load :: "mem \<Rightarrow> ANCHOR_TABLE \<Rightarrow> ANCHOR_TABLE" where
  "anchor_load m t = \<lparr>index_new_block = m 0, index_new_ec = m 1, index_old_block = m 2, index_old_ec = m 3,
     previous_anchor_block = m 4, total_data_block = m 5, swl_current_area = m 6,
     oath = (\<lambda>k. if k < 12 then bytes_of (ptr_add 7 m) k else oath t k), version = m 10,
     bad_block_table = load_array 11 1013 m (bad_block_table t)\<rparr>"

definition area_words :: "(u32 \<Rightarrow> AREA_BLOCK) \<Rightarrow> mem" where
  "area_words t n = (if even n then physical_block (t (of_nat (n div 2))) else physical_block_ec (t (of_nat (n div 2))))"

definition area_load :: "mem \<Rightarrow> (u32 \<Rightarrow> AREA_BLOCK) \<Rightarrow> u32 \<Rightarrow> AREA_BLOCK" where
  "area_load m t i = (if unat i < 512 then \<lparr>physical_block = m (2 * unat i), physical_block_ec = m (2 * unat i + 1)\<rparr>
     else t i)"

section \<open>The state\<close>

record DIE_HOLD_PAGE =
  dh_log_block :: u32
  dh_phy_block :: u32
  dh_ec :: u32
  dh_page :: u32
  dh_buffer :: "buf option"
  dh_spare :: mem

text \<open>
  \<open>mtd\<close> is the state of the layer below and \<open>bufs\<close> the page buffers (the UBI layer releases them).
  \<open>uninit\<close> stands for the contents of local arrays the code does not initialise.
\<close>

record 'h ubi_state =
  mtd :: 'h
  bufs :: buf_state
  uninit :: mem
  anchor_table :: ANCHOR_TABLE
  anchor_block :: u32
  anchor_next_page :: u32
  index_table :: INDEX_TABLE
  index_block :: u32
  index_block_ec :: u32
  index_next_page :: u32
  is_updating_area :: bool
  area_offset_table :: "u32 \<Rightarrow> u32"
  cached_area_table :: "u32 \<Rightarrow> AREA_BLOCK"
  cached_area_number :: u32
  dice_hold :: "u32 \<Rightarrow> DIE_HOLD_PAGE"
  tmp_data_buffer :: mem

text \<open>The calls to the layer below.\<close>

definition mtd_read :: "'h mtd_ops \<Rightarrow> u32 \<Rightarrow> u32 \<Rightarrow> mem option \<Rightarrow> mem option \<Rightarrow> 'h ubi_state \<Rightarrow>
    (STATUS \<times> mem option \<times> mem option \<times> 'h ubi_state) option" where
  "mtd_read M b p buf sp s = do {
     (ret, buf, sp, h) \<leftarrow> m_Read M b p buf sp (mtd s);
     Some (ret, buf, sp, s\<lparr>mtd := h\<rparr>) }"

definition mtd_program :: "'h mtd_ops \<Rightarrow> u32 \<Rightarrow> u32 \<Rightarrow> mem \<Rightarrow> mem option \<Rightarrow> 'h ubi_state \<Rightarrow>
    (STATUS \<times> 'h ubi_state) option" where
  "mtd_program M b p buf sp s = do {
     (ret, h) \<leftarrow> m_Program M b p buf sp (mtd s);
     Some (ret, s\<lparr>mtd := h\<rparr>) }"

definition mtd_erase :: "'h mtd_ops \<Rightarrow> u32 \<Rightarrow> 'h ubi_state \<Rightarrow> (STATUS \<times> 'h ubi_state) option" where
  "mtd_erase M b s = do { (ret, h) \<leftarrow> m_Erase M b (mtd s); Some (ret, s\<lparr>mtd := h\<rparr>) }"

definition mtd_check_block :: "'h mtd_ops \<Rightarrow> u32 \<Rightarrow> 'h ubi_state \<Rightarrow> (STATUS \<times> 'h ubi_state) option" where
  "mtd_check_block M b s = do { (ret, h) \<leftarrow> m_CheckBlock M b (mtd s); Some (ret, s\<lparr>mtd := h\<rparr>) }"

definition mtd_wait_ready :: "'h mtd_ops \<Rightarrow> u32 \<Rightarrow> 'h ubi_state \<Rightarrow> (STATUS \<times> 'h ubi_state) option" where
  "mtd_wait_ready M b s = do { (ret, h) \<leftarrow> m_WaitReady M b (mtd s); Some (ret, s\<lparr>mtd := h\<rparr>) }"

definition mtd_read_status :: "'h mtd_ops \<Rightarrow> u32 \<Rightarrow> 'h ubi_state \<Rightarrow> (STATUS \<times> 'h ubi_state) option" where
  "mtd_read_status M b s = do { (ret, h) \<leftarrow> m_ReadStatus M b (mtd s); Some (ret, s\<lparr>mtd := h\<rparr>) }"

section \<open>Table pages\<close>

definition TABLE_Write :: "'h mtd_ops \<Rightarrow> u32 \<Rightarrow> u32 \<Rightarrow> mem \<Rightarrow> 'h ubi_state \<Rightarrow> (STATUS \<times> 'h ubi_state) option" where
  "TABLE_Write M block page buffer s = do {
     let footprint = (uninit s)(0 := 0);
     (ret, s) \<leftarrow> mtd_program M block page buffer (Some footprint) s;
     if ret = STATUS_SUCCESS then mtd_wait_ready M block s else Some (ret, s) }"

partial_function (option) table_search :: "'h mtd_ops \<Rightarrow> u32 \<Rightarrow> u32 \<Rightarrow> u32 \<Rightarrow> 'h ubi_state \<Rightarrow>
    (u32 \<times> u32 \<times> 'h ubi_state) option" where
  "table_search M block head tail s =
     (let mid = (head + tail) div 2 in
      if mid \<noteq> head \<and> mid \<noteq> tail then do {
        (ret, _, footprint, s) \<leftarrow> mtd_read M block mid None (Some (uninit s)) s;
        if ret = STATUS_SUCCESS
        then if the footprint 0 = - 1 then table_search M block head mid s
             else table_search M block mid tail s
        else table_search M block head mid s }
      else Some (head, tail, s))"

definition TABLE_Read :: "'h mtd_ops \<Rightarrow> u32 \<Rightarrow> u32 \<Rightarrow> mem option \<Rightarrow> 'h ubi_state \<Rightarrow>
    (STATUS \<times> u32 \<times> mem option \<times> 'h ubi_state) option" where
  "TABLE_Read M block page buffer s = do {
     let (head, tail) = (if page \<noteq> INVALID_PAGE then (page, page) else (0, PAGE_PER_PHY_BLOCK));
     (head, tail, s) \<leftarrow> table_search M block head tail s;
     let mid = (head + tail) div 2;
     ASSERT (tail = head \<or> tail = head + 1);
     let page = mid;
     (ret, buffer, footprint, s) \<leftarrow> mtd_read M block page buffer (Some (uninit s)) s;
     let ret = (if ret = STATUS_SUCCESS \<and> the footprint 0 = - 1 then STATUS_FAILURE else ret);
     let page = (if ret \<noteq> STATUS_SUCCESS then INVALID_PAGE else page);
     Some (ret, page, buffer, s) }"

section \<open>Start-up\<close>

text \<open>Static variables are zero at reset; \<open>h\<close> is the state of the layer below.\<close>

definition ubi_start :: "'h \<Rightarrow> 'h ubi_state" where
  "ubi_start h = \<lparr>mtd = h, bufs = buf_start, uninit = (\<lambda>_. 0),
     anchor_table = anchor_load (\<lambda>_. 0) \<lparr>index_new_block = 0, index_new_ec = 0, index_old_block = 0, index_old_ec = 0,
       previous_anchor_block = 0, total_data_block = 0, swl_current_area = 0, oath = (\<lambda>_. 0), version = 0,
       bad_block_table = (\<lambda>_. 0)\<rparr>,
     anchor_block = 0, anchor_next_page = 0,
     index_table = \<lparr>area_index_table = (\<lambda>_. 0), area_index_ect = (\<lambda>_. 0), free_block_table = (\<lambda>_. 0),
       free_block_ect = (\<lambda>_. 0), area_update_plr = plr_load (\<lambda>_. 0), padding = plr_load (\<lambda>_. 0)\<rparr>,
     index_block = 0, index_block_ec = 0, index_next_page = 0, is_updating_area = False,
     area_offset_table = (\<lambda>_. 0), cached_area_table = area_load (\<lambda>_. 0) (\<lambda>_. \<lparr>physical_block = 0, physical_block_ec = 0\<rparr>),
     cached_area_number = 0,
     dice_hold = (\<lambda>_. \<lparr>dh_log_block = 0, dh_phy_block = 0, dh_ec = 0, dh_page = 0, dh_buffer = None, dh_spare = (\<lambda>_. 0)\<rparr>),
     tmp_data_buffer = (\<lambda>_. 0)\<rparr>"

section \<open>Finding the newest table page\<close>

text \<open>The first \<open>k\<close> pages of block \<open>b\<close> hold tables, the rest are erased.\<close>

definition table_pages :: "(u32 \<Rightarrow> u32 \<Rightarrow> (mem \<times> mem) option) \<Rightarrow> u32 \<Rightarrow> nat \<Rightarrow> bool" where
  "table_pages pg b k \<longleftrightarrow> k \<le> 64 \<and>
     (\<forall>p < 64. if unat p < k then \<exists>dm sm. pg b p = Some (dm, sm) \<and> sm 0 \<noteq> - 1 else pg b p = None)"

context mtd_store
begin

lemma mtd_read_table:
  assumes "ok (mtd s)" "b < CFG_LOG_BLOCK_COUNT" "p < 64" "pages (mtd s) b p = Some (dm, sm)"
  shows "\<exists>h. mtd_read M b p buf sp s = Some (STATUS_SUCCESS, map_option (memcpy_words MPP_WORDS dm) buf,
      map_option (memcpy_words SPARE_WORDS sm) sp, s\<lparr>mtd := h\<rparr>) \<and> ok h \<and> pages h = pages (mtd s)"
  using read [OF assms(1,2) _ assms(4), of buf sp] assms(3) by (auto simp: mtd_read_def)

lemma mtd_read_empty:
  assumes "ok (mtd s)" "b < CFG_LOG_BLOCK_COUNT" "p < 64" "pages (mtd s) b p = None"
  shows "\<exists>h buf' sp'. mtd_read M b p buf sp s = Some (STATUS_FAILURE, buf', sp', s\<lparr>mtd := h\<rparr>) \<and> ok h \<and>
      pages h = pages (mtd s)"
  using read_erased [OF assms(1,2) _ assms(4), of buf sp] assms(3) by (fastforce simp: mtd_read_def)

lemma table_probe:
  assumes "ok (mtd s)" "b < CFG_LOG_BLOCK_COUNT" "p < 64" "table_pages (pages (mtd s)) b k"
  shows "\<exists>ret buf sp h. mtd_read M b p None (Some u) s = Some (ret, buf, sp, s\<lparr>mtd := h\<rparr>) \<and> ok h \<and>
     pages h = pages (mtd s) \<and> (unat p < k \<longrightarrow> ret = STATUS_SUCCESS \<and> the sp 0 \<noteq> - 1) \<and>
     (\<not> unat p < k \<longrightarrow> ret = STATUS_FAILURE)"
proof (cases "unat p < k")
  case True
  with assms(3,4) obtain dm sm where "pages (mtd s) b p = Some (dm, sm)" "sm 0 \<noteq> - 1"
    by (auto simp: table_pages_def split: if_splits)
  with True mtd_read_table [OF assms(1-3), of dm sm None "Some u"] show ?thesis by (auto simp: mem_simps)
next
  case False
  with assms(3,4) have "pages (mtd s) b p = None" by (auto simp: table_pages_def split: if_splits)
  with False mtd_read_empty [OF assms(1-3), of None "Some u"] show ?thesis by fastforce
qed

lemma table_search_last:
  assumes "ok (mtd s)" "b < CFG_LOG_BLOCK_COUNT" "table_pages (pages (mtd s)) b k"
    and "unat h < unat t" "unat t \<le> 64" "unat h < k \<or> h = 0" "k \<le> unat t"
  shows "\<exists>h'. table_search M b h t s = Some (of_nat (k - 1), of_nat (k - 1) + 1, s\<lparr>mtd := h'\<rparr>) \<and> ok h' \<and>
     pages h' = pages (mtd s)"
  using assms
proof (induction "unat t - unat h" arbitrary: h t s rule: less_induct)
  case less
  define mid where "mid = (h + t) div 2"
  have mid: "unat mid = (unat h + unat t) div 2"
    using less.prems(4,5) by (simp add: mid_def unat_div unat_word_ariths)
  show ?case
  proof (cases "unat t = unat h + 1")
    case True
    then have "mid = h" using mid by (simp add: word_unat_eq_iff)
    then have "table_search M b h t s = Some (h, t, s)"
      by (subst table_search.simps) (simp add: Let_def flip: mid_def)
    moreover have "k - 1 = unat h" using True less.prems(6,7) by auto
    then have "h = of_nat (k - 1)" by (simp only: of_nat_unat ucast_id)
    moreover have "t = h + 1" using True less.prems(5) by (simp add: word_unat_eq_iff unat_word_ariths)
    ultimately show ?thesis using less.prems(1) by (intro exI [of _ "mtd s"]) simp
  next
    case False
    then have lt: "unat h < unat mid" "unat mid < unat t" using less.prems(4) by (simp_all add: mid)
    then have neq: "mid \<noteq> h" "mid \<noteq> t" by auto
    have m64: "mid < 64" using lt less.prems(5) by (simp add: word_less_nat_alt)
    from table_probe [OF less.prems(1,2) m64 less.prems(3), of "uninit s"]
    obtain ret buf sp e where probe: "mtd_read M b mid None (Some (uninit s)) s = Some (ret, buf, sp, s\<lparr>mtd := e\<rparr>)"
      "ok e" "pages e = pages (mtd s)" "unat mid < k \<longrightarrow> ret = STATUS_SUCCESS \<and> the sp 0 \<noteq> - 1"
      "\<not> unat mid < k \<longrightarrow> ret = STATUS_FAILURE" by blast
    have tab: "table_pages (pages (mtd (s\<lparr>mtd := e\<rparr>))) b k" using less.prems(3) by (simp add: table_pages_def probe(3))
    show ?thesis
    proof (cases "unat mid < k")
      case True
      then have step: "table_search M b h t s = table_search M b mid t (s\<lparr>mtd := e\<rparr>)"
        by (subst table_search.simps) (simp add: Let_def neq probe flip: mid_def)
      show ?thesis
        using less.hyps [of t mid "s\<lparr>mtd := e\<rparr>"] lt True probe(2,3) less.prems tab by (auto simp: step)
    next
      case False
      then have step: "table_search M b h t s = table_search M b h mid (s\<lparr>mtd := e\<rparr>)"
        by (subst table_search.simps) (simp add: Let_def neq probe flip: mid_def)
      show ?thesis
        using less.hyps [of mid h "s\<lparr>mtd := e\<rparr>"] lt False probe(2,3) less.prems tab by (auto simp: step)
    qed
  qed
qed


lemma TABLE_Read_last:
  assumes "ok (mtd s)" "b < CFG_LOG_BLOCK_COUNT" "table_pages (pages (mtd s)) b (Suc k)"
    and "pages (mtd s) b (of_nat k) = Some (dm, sm)"
  shows "\<exists>h. TABLE_Read M b INVALID_PAGE buf s =
      Some (STATUS_SUCCESS, of_nat k, map_option (memcpy_words MPP_WORDS dm) buf, s\<lparr>mtd := h\<rparr>) \<and> ok h \<and>
     pages h = pages (mtd s)"
proof -
  have k: "k < 64" using assms(3) by (simp add: table_pages_def)
  then have k': "(of_nat k :: u32) < 64" "unat (of_nat k :: u32) = k" by (simp_all add: word_less_nat_alt unat_of_nat)
  obtain h1 where h1: "table_search M b 0 64 s = Some (of_nat k, of_nat k + 1, s\<lparr>mtd := h1\<rparr>)" "ok h1"
      "pages h1 = pages (mtd s)"
    using table_search_last [OF assms(1-3), of 0 64] k by auto
  have sm: "sm 0 \<noteq> - 1"
    using assms(3,4) k' by (auto simp: table_pages_def split: if_splits)
  have "pages (mtd (s\<lparr>mtd := h1\<rparr>)) b (of_nat k) = Some (dm, sm)" using assms(4) h1(3) by simp
  from mtd_read_table [OF _ assms(2) k'(1) this, of buf "Some (uninit s)"] h1(2,3)
  obtain h2 where h2: "mtd_read M b (of_nat k) buf (Some (uninit s)) (s\<lparr>mtd := h1\<rparr>) =
      Some (STATUS_SUCCESS, map_option (memcpy_words MPP_WORDS dm) buf,
        map_option (memcpy_words SPARE_WORDS sm) (Some (uninit s)), s\<lparr>mtd := h2\<rparr>)" "ok h2" "pages h2 = pages (mtd s)"
    by auto
  have mid: "(of_nat k + (of_nat k + 1)) div 2 = (of_nat k :: u32)"
    using k by (simp add: word_unat_eq_iff unat_div unat_word_ariths unat_of_nat)
  show ?thesis
    using h2 sm by (intro exI [of _ h2]) (simp add: TABLE_Read_def h1(1) mid [simplified] mem_simps Let_def)
qed

lemma TABLE_Read_none:
  assumes "ok (mtd s)" "b < CFG_LOG_BLOCK_COUNT" "table_pages (pages (mtd s)) b 0"
  shows "\<exists>h buf'. TABLE_Read M b INVALID_PAGE buf s = Some (STATUS_FAILURE, INVALID_PAGE, buf', s\<lparr>mtd := h\<rparr>) \<and> ok h \<and>
     pages h = pages (mtd s)"
proof -
  obtain h1 where h1: "table_search M b 0 64 s = Some (0, 1, s\<lparr>mtd := h1\<rparr>)" "ok h1" "pages h1 = pages (mtd s)"
    using table_search_last [OF assms(1-3), of 0 64] by auto
  have "pages (mtd (s\<lparr>mtd := h1\<rparr>)) b 0 = None" using assms(3) h1(3) by (simp add: table_pages_def)
  from mtd_read_empty [OF _ assms(2) _ this, of buf "Some (uninit s)"] h1(2,3)
  obtain h2 buf' sp' where h2: "mtd_read M b 0 buf (Some (uninit s)) (s\<lparr>mtd := h1\<rparr>) = Some (STATUS_FAILURE, buf', sp', s\<lparr>mtd := h2\<rparr>)"
      "ok h2" "pages h2 = pages (mtd s)" by auto
  have mid: "(0 + 1) div 2 = (0 :: u32)" by simp
  show ?thesis using h2 by (intro exI [of _ h2] exI [of _ buf']) (simp add: TABLE_Read_def h1(1) Let_def)
qed

lemma TABLE_Write_next:
  assumes "ok (mtd s)" "b < CFG_LOG_BLOCK_COUNT" "table_pages (pages (mtd s)) b k" "k < 64"
  shows "\<exists>h. TABLE_Write M b (of_nat k) m s = Some (STATUS_SUCCESS, s\<lparr>mtd := h\<rparr>) \<and> ok h \<and>
     pages h = (pages (mtd s))(b := (pages (mtd s) b)(of_nat k \<mapsto>
        (clip MPP_WORDS m, clip SPARE_WORDS ((uninit s)(0 := 0))))) \<and> table_pages (pages h) b (Suc k)"
proof -
  have k': "(of_nat k :: u32) < PAGE_PER_PHY_BLOCK" "unat (of_nat k :: u32) = k"
    using assms(4) by (simp_all add: word_less_nat_alt unat_of_nat)
  have none: "pages (mtd s) b (of_nat k) = None" using assms(3) k' by (auto simp: table_pages_def split: if_splits)
  obtain h1 where h1: "m_Program M b (of_nat k) m (Some ((uninit s)(0 := 0))) (mtd s) = Some (STATUS_SUCCESS, h1)" "ok h1"
    "pages h1 = (pages (mtd s))(b := (pages (mtd s) b)(of_nat k \<mapsto> (clip MPP_WORDS m, clip SPARE_WORDS ((uninit s)(0 := 0)))))"
    using program [OF assms(1,2) k'(1) none, of m "Some ((uninit s)(0 := 0))"] by auto
  obtain h2 where h2: "m_WaitReady M b h1 = Some (STATUS_SUCCESS, h2)" "ok h2" "pages h2 = pages h1"
    using wait_ready [OF h1(2) assms(2)] by blast
  have "unat p < Suc k \<longleftrightarrow> unat p < k \<or> p = of_nat k" for p :: u32
    using unat_eq_iff_of_nat [of k p] assms(4) by auto
  then have "table_pages (pages h2) b (Suc k)"
    using assms(3,4) by (auto simp: table_pages_def h2(3) h1(3) mem_simps)
  then show ?thesis
    using h1 h2 by (auto simp: TABLE_Write_def mtd_program_def mtd_wait_ready_def)
qed

end

text \<open>C21: The binary search of \<open>TABLE_Read\<close> ends and finds the newest table: in a block whose first \<open>n\<close> pages
  hold tables it returns page \<open>n - 1\<close> with its contents, and a failure with no page number when there is none;
  the flash is not changed.\<close>

theorem TABLE_Read_newest:
  assumes "sim_flash_ok (mtd s)" "b < CFG_LOG_BLOCK_COUNT" "table_pages (sim_pages (mtd s)) b n"
  shows "\<exists>h m'. TABLE_Read sim_mtd b INVALID_PAGE (Some m) s =
      (if n = 0 then Some (STATUS_FAILURE, INVALID_PAGE, m', s\<lparr>mtd := h\<rparr>)
       else Some (STATUS_SUCCESS, of_nat (n - 1),
              Some (memcpy_words MPP_WORDS (fst (the (sim_pages (mtd s) b (of_nat (n - 1))))) m), s\<lparr>mtd := h\<rparr>)) \<and>
    sim_flash_ok h \<and> sim_pages h = sim_pages (mtd s)"
proof (cases n)
  case 0
  with sim_flash.TABLE_Read_none [OF assms(1,2), of "Some m"] assms(3) show ?thesis by auto
next
  case (Suc k)
  then have "unat (of_nat k :: u32) = k" "(of_nat k :: u32) < 64"
    using assms(3) by (simp_all add: table_pages_def word_less_nat_alt unat_of_nat)
  with assms(3) Suc obtain dm sm where "sim_pages (mtd s) b (of_nat k) = Some (dm, sm)"
    by (auto simp: table_pages_def split: if_splits)
  with sim_flash.TABLE_Read_last [OF assms(1,2), of k dm sm "Some m"] assms(3) Suc show ?thesis by auto
qed

text \<open>A table written to the next free page of its block is the one the search finds afterwards, contents
  included, and no other page of the flash changes.\<close>

theorem TABLE_Write_Read:
  assumes "sim_flash_ok (mtd s)" "b < CFG_LOG_BLOCK_COUNT" "table_pages (sim_pages (mtd s)) b k" "k < 64"
  shows "\<exists>h h'. TABLE_Write sim_mtd b (of_nat k) m s = Some (STATUS_SUCCESS, s\<lparr>mtd := h\<rparr>) \<and>
    TABLE_Read sim_mtd b INVALID_PAGE (Some m') (s\<lparr>mtd := h\<rparr>) =
      Some (STATUS_SUCCESS, of_nat k, Some (memcpy_words MPP_WORDS m m'), s\<lparr>mtd := h'\<rparr>) \<and>
    sim_flash_ok h' \<and> table_pages (sim_pages h') b (Suc k) \<and>
    (sim_pages h')(b := (sim_pages h' b)(of_nat k := None)) = sim_pages (mtd s)"
proof -
  obtain h where h: "TABLE_Write sim_mtd b (of_nat k) m s = Some (STATUS_SUCCESS, s\<lparr>mtd := h\<rparr>)" "sim_flash_ok h"
    "sim_pages h = (sim_pages (mtd s))(b := (sim_pages (mtd s) b)(of_nat k \<mapsto>
        (clip MPP_WORDS m, clip SPARE_WORDS ((uninit s)(0 := 0)))))" "table_pages (sim_pages h) b (Suc k)"
    using sim_flash.TABLE_Write_next [OF assms] by blast
  have "sim_pages (mtd s) b (of_nat k) = None"
    using assms(3,4) by (auto simp: table_pages_def word_less_nat_alt unat_of_nat split: if_splits)
  then have "(sim_pages h)(b := (sim_pages h b)(of_nat k := None)) = sim_pages (mtd s)"
    by (auto simp: h(3) fun_eq_iff)
  then show ?thesis
    using sim_flash.TABLE_Read_last [of "s\<lparr>mtd := h\<rparr>" b k _ _ "Some m'"] h assms(2) by fastforce
qed

lemma table_pages_none [simp]: "table_pages (\<lambda>_ _. None) b 0"
  by (simp add: table_pages_def)

theorem TABLE_Write_Read_witness:
  "\<exists>h h'. TABLE_Write sim_mtd 9 0 (\<lambda>_. 3) (ubi_start sim_start) = Some (STATUS_SUCCESS, (ubi_start sim_start)\<lparr>mtd := h\<rparr>) \<and>
    TABLE_Read sim_mtd 9 INVALID_PAGE (Some (\<lambda>_. 0)) ((ubi_start sim_start)\<lparr>mtd := h\<rparr>) =
      Some (STATUS_SUCCESS, 0, Some (memset_words MPP_WORDS 3 (\<lambda>_. 0)), (ubi_start sim_start)\<lparr>mtd := h'\<rparr>)"
proof -
  have m: "mtd (ubi_start sim_start) = sim_start" by (simp add: ubi_start_def)
  from TABLE_Write_Read [of "ubi_start sim_start" 9 0 "\<lambda>_. 3" "\<lambda>_. 0"] show ?thesis by (auto simp: m)
qed

theorem TABLE_Read_newest_witness:
  "\<exists>h m'. TABLE_Read sim_mtd 9 INVALID_PAGE (Some (\<lambda>_. 0)) (ubi_start sim_start) =
     Some (STATUS_FAILURE, INVALID_PAGE, m', (ubi_start sim_start)\<lparr>mtd := h\<rparr>)"
proof -
  have m: "mtd (ubi_start sim_start) = sim_start" by (simp add: ubi_start_def)
  from TABLE_Read_newest [of "ubi_start sim_start" 9 0 "\<lambda>_. 0"] show ?thesis by (auto simp: m)
qed

section \<open>Tables and their pages\<close>

text \<open>The index table survives its page: loading the page it was written to gives the table back, and a
  loaded page is written back unchanged.\<close>

theorem index_table_roundtrip:
  "index_load (memcpy_words MPP_WORDS (index_words t) m) t = t \<and>
   memcpy_words MPP_WORDS (index_words (index_load m t)) m = m"
proof
  have "load_array 0 256 (memcpy_words 1024 (index_words t) m) (area_index_table t) = area_index_table t"
    "load_array 256 256 (memcpy_words 1024 (index_words t) m) (area_index_ect t) = area_index_ect t"
    "load_array 512 253 (memcpy_words 1024 (index_words t) m) (free_block_table t) = free_block_table t"
    "load_array 765 253 (memcpy_words 1024 (index_words t) m) (free_block_ect t) = free_block_ect t"
    by (auto simp: load_array_def index_words_def mem_simps fun_eq_iff)
  moreover have "plr_load (ptr_add 1018 (memcpy_words 1024 (index_words t) m)) = area_update_plr t"
    "plr_load (ptr_add 1021 (memcpy_words 1024 (index_words t) m)) = padding t"
    by (simp_all add: plr_load_def mem_simps index_words_def plr_words_def)
  ultimately show "index_load (memcpy_words MPP_WORDS (index_words t) m) t = t"
    by (simp add: index_load_def)
  show "memcpy_words MPP_WORDS (index_words (index_load m t)) m = m"
  proof
    fix n :: nat
    consider "n < 256" | "256 \<le> n" "n < 512" | "512 \<le> n" "n < 765" | "765 \<le> n" "n < 1018"
      | "1018 \<le> n" "n < 1021" | "1021 \<le> n" "n < 1024" | "1024 \<le> n" by linarith
    then show "memcpy_words MPP_WORDS (index_words (index_load m t)) m n = m n"
    proof cases
      case 5
      then have "n = 1018 \<or> n = 1019 \<or> n = 1020" by linarith
      then show ?thesis by (auto simp: mem_simps index_words_def index_load_def plr_words_def plr_load_def)
    next
      case 6
      then have "n = 1021 \<or> n = 1022 \<or> n = 1023" by linarith
      then show ?thesis by (auto simp: mem_simps index_words_def index_load_def plr_words_def plr_load_def)
    qed (auto simp: mem_simps index_words_def index_load_def load_array_def unat_of_nat simp del: of_nat_diff)
  qed
qed

lemma area_table_roundtrip:
  "area_load (memcpy_words MPP_WORDS (area_words t) m) t = t"
  "memcpy_words MPP_WORDS (area_words (area_load m t)) m = m"
proof -
  have "unat (i :: u32) < 512 \<Longrightarrow> Suc (2 * unat i) < 1024" for i by linarith
  then show "area_load (memcpy_words MPP_WORDS (area_words t) m) t = t"
    by (auto simp: area_load_def area_words_def mem_simps fun_eq_iff)
  show "memcpy_words MPP_WORDS (area_words (area_load m t)) m = m"
  proof
    fix n :: nat
    have "n < 1024 \<Longrightarrow> unat (of_nat (n div 2) :: u32) = n div 2 \<and> n div 2 < 512" by (auto simp: unat_of_nat)
    then show "memcpy_words MPP_WORDS (area_words (area_load m t)) m n = m n"
      by (auto simp: area_load_def area_words_def mem_simps)
  qed
qed

lemma bytes_of_cong: "m (k div 4) = m' (k div 4) \<Longrightarrow> bytes_of m k = bytes_of m' k"
  by (simp add: bytes_of_def)

lemma anchor_table_roundtrip:
  "anchor_load (memcpy_words MPP_WORDS (anchor_words t) m) t = t"
proof -
  have "bytes_of (ptr_add 7 (memcpy_words 1024 (anchor_words t) m)) k = oath t k" if "k < 12" for k
  proof -
    have "k div 4 < 3" using that by simp
    then have "bytes_of (ptr_add 7 (memcpy_words 1024 (anchor_words t) m)) k = bytes_of (words_of (oath t)) k"
      by (intro bytes_of_cong) (simp add: mem_simps anchor_words_def)
    then show ?thesis by simp
  qed
  moreover have "load_array 11 1013 (memcpy_words 1024 (anchor_words t) m) (bad_block_table t) = bad_block_table t"
    by (auto simp: load_array_def anchor_words_def mem_simps fun_eq_iff)
  ultimately show ?thesis
    by (simp add: anchor_load_def mem_simps anchor_words_def cong: if_cong)
qed

end
