(* ===== verification/Ubi_Anchor.thy ===== *)
theory Ubi_Anchor
  imports Ubi_State
begin

text \<open>
  The anchor of the UBI layer, core/ubi/ubi_anchor.c: the table in one of the first blocks that
  holds the bad blocks and says where the index table is, its search at mount, and its rewriting
  in the next good anchor block when the current one is full.
\<close>

section \<open>Bad blocks\<close>

definition ANCHOR_IsBadBlock :: "u32 \<Rightarrow> 'h ubi_state \<Rightarrow> bool" where
  "ANCHOR_IsBadBlock block s =
     (find (\<lambda>i. bad_block_table (anchor_table s) i = block) (upto_u32 0 ANCHOR_BADBLOCK_COUNT) \<noteq> None)"

definition ANCHOR_LogBadBlock :: "u32 \<Rightarrow> 'h ubi_state \<Rightarrow> 'h ubi_state" where
  "ANCHOR_LogBadBlock block s =
     (let t = anchor_table s in
      case find (\<lambda>i. bad_block_table t i = INVALID_BLOCK \<or> bad_block_table t i = block)
             (upto_u32 0 ANCHOR_BADBLOCK_COUNT) of
        None \<Rightarrow> s
      | Some i \<Rightarrow>
          if bad_block_table t i = INVALID_BLOCK
          then s\<lparr>anchor_table := t\<lparr>bad_block_table := (bad_block_table t)(i := block)\<rparr>\<rparr>
          else s)"

section \<open>Writing the anchor\<close>

text \<open>Erase a block of the firmware's tables; on failure it is logged as bad.\<close>

definition erase_or_log :: "'h mtd_ops \<Rightarrow> u32 \<Rightarrow> 'h ubi_state \<Rightarrow> (STATUS \<times> 'h ubi_state) option" where
  "erase_or_log M b s = do {
     (ret, s) \<leftarrow> mtd_erase M b s;
     Some (ret, if ret \<noteq> STATUS_SUCCESS then ANCHOR_LogBadBlock b s else s) }"

partial_function (option) anchor_find_loop ::
    "'h mtd_ops \<Rightarrow> u32 \<Rightarrow> u32 \<Rightarrow> 'h ubi_state \<Rightarrow> (STATUS \<times> u32 \<times> 'h ubi_state) option" where
  "anchor_find_loop M current next_block s = do {
     let next_block = next_block + 1;
     let next_block = (if ANCHOR_LAST_BLOCK < next_block then ANCHOR_FIRST_BLOCK else next_block);
     (ret, s) \<leftarrow> (if \<not> ANCHOR_IsBadBlock next_block s then erase_or_log M next_block s
                  else Some (STATUS_BADBLOCK, s));
     if ret \<noteq> STATUS_SUCCESS \<and> next_block \<noteq> current
     then anchor_find_loop M current next_block s
     else Some (ret, next_block, s) }"

definition anchor_find_next_block :: "'h mtd_ops \<Rightarrow> u32 \<Rightarrow> 'h ubi_state \<Rightarrow> (STATUS \<times> u32 \<times> 'h ubi_state) option" where
  "anchor_find_next_block M current_block s = do {
     (ret, next_block, s) \<leftarrow> anchor_find_loop M current_block current_block s;
     Some (if next_block \<noteq> current_block then (ret, next_block, s)
           else (STATUS_FAILURE, current_block, s)) }"

partial_function (option) anchor_update_loop ::
    "'h mtd_ops \<Rightarrow> bool \<Rightarrow> 'h ubi_state \<Rightarrow> (STATUS \<times> 'h ubi_state) option" where
  "anchor_update_loop M anchor_reclaimed s = do {
     (ret, anchor_reclaimed, s) \<leftarrow>
       (if anchor_next_page s = PAGE_PER_PHY_BLOCK then do {
          let s = s\<lparr>anchor_table := (anchor_table s)\<lparr>previous_anchor_block := anchor_block s\<rparr>\<rparr>;
          (ret, blk, s) \<leftarrow> anchor_find_next_block M (anchor_block s) s;
          let s = s\<lparr>anchor_block := blk\<rparr>;
          Some (if ret = STATUS_SUCCESS then (ret, True, s\<lparr>anchor_next_page := 0\<rparr>)
                else (ret, anchor_reclaimed, s)) }
        else Some (STATUS_SUCCESS, anchor_reclaimed, s));
     if ret \<noteq> STATUS_SUCCESS then Some (ret, s)
     else do {
       (ret, s) \<leftarrow> TABLE_Write M (anchor_block s) (anchor_next_page s) (anchor_words (anchor_table s)) s;
       if ret = STATUS_SUCCESS then do {
         s \<leftarrow> (if anchor_reclaimed
               then map_option snd (mtd_erase M (previous_anchor_block (anchor_table s)) s) else Some s);
         Some (ret, s\<lparr>anchor_next_page := anchor_next_page s + 1\<rparr>) }
       else anchor_update_loop M anchor_reclaimed
              (if ret = STATUS_BADBLOCK then s\<lparr>anchor_next_page := PAGE_PER_PHY_BLOCK\<rparr> else s) } }"

definition ANCHOR_Update :: "'h mtd_ops \<Rightarrow> 'h ubi_state \<Rightarrow> (STATUS \<times> 'h ubi_state) option" where
  "ANCHOR_Update M s = anchor_update_loop M False s"

definition ANCHOR_IndexReclaim :: "u32 \<Rightarrow> u32 \<Rightarrow> u32 \<Rightarrow> u32 \<Rightarrow> 'h ubi_state \<Rightarrow> 'h ubi_state" where
  "ANCHOR_IndexReclaim index_current_block index_current_ec new_itb new_itb_ec s =
     s\<lparr>anchor_table := (anchor_table s)\<lparr>index_new_block := new_itb, index_new_ec := new_itb_ec,
        index_old_block := index_current_block, index_old_ec := index_current_ec\<rparr>\<rparr>"

definition ANCHOR_Format :: "'h mtd_ops \<Rightarrow> u32 \<Rightarrow> 'h ubi_state \<Rightarrow> (STATUS \<times> 'h ubi_state) option" where
  "ANCHOR_Format M total_blocks s = do {
     let s = s\<lparr>anchor_block := ANCHOR_FIRST_BLOCK, anchor_next_page := 0\<rparr>;
     let t = anchor_table s;
     let s = s\<lparr>anchor_table := t\<lparr>total_data_block := total_blocks, previous_anchor_block := INVALID_BLOCK,
        swl_current_area := 0, oath := (\<lambda>k. if k < 11 then ANCHOR_OATH ! k else oath t k),
        version := ANCHOR_VERSION\<rparr>\<rparr>;
     s \<leftarrow> for_each (upto_u32 ANCHOR_FIRST_BLOCK (ANCHOR_LAST_BLOCK + 1))
       (\<lambda>b s. if \<not> ANCHOR_IsBadBlock b s then map_option snd (erase_or_log M b s) else Some s) s;
     ANCHOR_Update M s }"

section \<open>Finding the anchor at mount\<close>

record anchor_scan =
  previous_block1 :: u32
  anchor_page1 :: u32
  anchor_block1 :: u32

definition read_anchor :: "'h mtd_ops \<Rightarrow> u32 \<Rightarrow> u32 \<Rightarrow> 'h ubi_state \<Rightarrow> (STATUS \<times> u32 \<times> 'h ubi_state) option" where
  "read_anchor M block page s = do {
     (ret, page, buf, s) \<leftarrow> TABLE_Read M block page (Some (anchor_words (anchor_table s))) s;
     Some (ret, page, s\<lparr>anchor_table := anchor_load (the buf) (anchor_table s)\<rparr>) }"

definition anchor_scan_block :: "'h mtd_ops \<Rightarrow> u32 \<Rightarrow> anchor_scan \<times> 'h ubi_state \<Rightarrow>
    (bool \<times> anchor_scan \<times> 'h ubi_state) option" where
  "anchor_scan_block M block = (\<lambda>(v, s). do {
     (ret, page, _, s) \<leftarrow> TABLE_Read M block 0 None s;
     (ret, page, s) \<leftarrow> (if ret = STATUS_SUCCESS then read_anchor M block INVALID_PAGE s else Some (ret, page, s));
     if ret = STATUS_SUCCESS then
       if anchor_block1 v = INVALID_BLOCK
       then Some (False, v\<lparr>anchor_block1 := block, anchor_page1 := page,
              previous_block1 := previous_anchor_block (anchor_table s)\<rparr>, s)
       else do {
         (old_block, v) \<leftarrow>
           (if previous_block1 v = block then Some (block, v)
            else do {
              ASSERT (anchor_block1 v = previous_anchor_block (anchor_table s));
              Some (previous_anchor_block (anchor_table s), v\<lparr>anchor_block1 := block, anchor_page1 := page\<rparr>) });
         s \<leftarrow> (if old_block \<noteq> INVALID_BLOCK then map_option snd (erase_or_log M old_block s) else Some s);
         Some (True, v, s) }
     else Some (False, v, s) })"

definition ANCHOR_Init :: "'h mtd_ops \<Rightarrow> 'h ubi_state \<Rightarrow> (STATUS \<times> 'h ubi_state) option" where
  "ANCHOR_Init M s = do {
     let s = s\<lparr>anchor_table := anchor_load (\<lambda>_. - 1) (anchor_table s),
               index_table := index_load (\<lambda>_. - 1) (index_table s)\<rparr>;
     (v, s) \<leftarrow> for_break (upto_u32 ANCHOR_FIRST_BLOCK (ANCHOR_LAST_BLOCK + 1)) (anchor_scan_block M)
       (\<lparr>previous_block1 = INVALID_BLOCK, anchor_page1 = INVALID_PAGE, anchor_block1 = INVALID_BLOCK\<rparr>, s);
     let (ret, s) = (if anchor_block1 v \<noteq> INVALID_BLOCK
        then (STATUS_SUCCESS, s\<lparr>anchor_block := anchor_block1 v, anchor_next_page := anchor_page1 v + 1\<rparr>)
        else (STATUS_FAILURE, s));
     let t = anchor_table s;
     Some (if ret = STATUS_SUCCESS \<and>
              (total_data_block t = INVALID_BLOCK \<or> version t \<noteq> ANCHOR_VERSION \<or>
               (\<exists>k < 11. oath t k \<noteq> ANCHOR_OATH ! k))
           then STATUS_FAILURE else ret, s) }"

end
