(* ===== verification/Ubi_Area.thy ===== *)
theory Ubi_Area
  imports Ubi_Anchor
begin

text \<open>
  The area tables of the UBI layer, core/ubi/ubi_area.c: the map from logical to physical blocks,
  one table page of 512 entries per area, of which one is cached in memory.
\<close>

definition AREA_Read :: "'h mtd_ops \<Rightarrow> u32 \<Rightarrow> 'h ubi_state \<Rightarrow> (STATUS \<times> 'h ubi_state) option" where
  "AREA_Read M area s = do {
     (ret, s) \<leftarrow>
       (if area \<noteq> cached_area_number s then do {
          ASSERT (area \<noteq> INVALID_AREA);
          (ret, page, buf, s) \<leftarrow> TABLE_Read M (area_index_table (index_table s) area) (area_offset_table s area)
             (Some (area_words (cached_area_table s))) s;
          Some (ret, s\<lparr>area_offset_table := (area_offset_table s)(area := page),
                       cached_area_table := area_load (the buf) (cached_area_table s)\<rparr>) }
        else Some (STATUS_SUCCESS, s));
     Some (ret, s\<lparr>cached_area_number := (if ret = STATUS_SUCCESS then area else INVALID_AREA)\<rparr>) }"

definition AREA_Init :: "'h mtd_ops \<Rightarrow> u32 \<Rightarrow> 'h ubi_state \<Rightarrow> (STATUS \<times> 'h ubi_state) option" where
  "AREA_Init M area_index s =
     AREA_Read M area_index (s\<lparr>cached_area_number := INVALID_AREA,
        area_offset_table := (area_offset_table s)(area_index := INVALID_PAGE)\<rparr>)"

text \<open>The loop of \<open>AREA_Format\<close> over the blocks: \<open>i\<close> counts the good ones found.\<close>

partial_function (option) area_format_loop ::
    "'h mtd_ops \<Rightarrow> u32 \<Rightarrow> u32 \<Rightarrow> u32 \<Rightarrow> STATUS \<Rightarrow> 'h ubi_state \<Rightarrow> (STATUS \<times> u32 \<times> 'h ubi_state) option" where
  "area_format_loop M block_count i fmt ret s =
     (if i < block_count then
        if fmt < CFG_LOG_BLOCK_COUNT then do {
          (ret, s) \<leftarrow> (if \<not> ANCHOR_IsBadBlock fmt s then erase_or_log M fmt s else Some (STATUS_BADBLOCK, s));
          if ret = STATUS_SUCCESS
          then area_format_loop M block_count (i + 1) (fmt + 1) ret
                 (s\<lparr>cached_area_table := (cached_area_table s)
                      (i := \<lparr>physical_block = fmt, physical_block_ec = 0\<rparr>)\<rparr>)
          else area_format_loop M block_count i (fmt + 1) ret s }
        else Some (ret, fmt, s)
      else Some (ret, fmt, s))"

partial_function (option) skip_bad_blocks :: "u32 \<Rightarrow> 'h ubi_state \<Rightarrow> u32 option" where
  "skip_bad_blocks fmt s = (if ANCHOR_IsBadBlock fmt s then skip_bad_blocks (fmt + 1) s else Some fmt)"

definition AREA_Format :: "'h mtd_ops \<Rightarrow> u32 \<Rightarrow> u32 \<Rightarrow> u32 \<Rightarrow> 'h ubi_state \<Rightarrow> (u32 \<times> 'h ubi_state) option" where
  "AREA_Format M block_count fmt_current_block area s = do {
     let s = s\<lparr>cached_area_table := area_load (\<lambda>_. - 1) (cached_area_table s)\<rparr>;
     (ret, fmt, s) \<leftarrow> area_format_loop M block_count 0 fmt_current_block STATUS_SUCCESS s;
     let s = fold (\<lambda>i s. s\<lparr>cached_area_table := (cached_area_table s)
                 (i := \<lparr>physical_block = INVALID_BLOCK, physical_block_ec = INVALID_EC\<rparr>)\<rparr>)
              (upto_u32 block_count CFG_PHY_BLOCK_PER_AREA) s;
     (ret, fmt, s) \<leftarrow> (if ret = STATUS_SUCCESS then do {
          fmt \<leftarrow> skip_bad_blocks fmt s;
          (ret, s) \<leftarrow> mtd_erase M fmt s;
          Some (ret, fmt, s) } else Some (ret, fmt, s));
     (ret, s) \<leftarrow> (if ret = STATUS_SUCCESS then TABLE_Write M fmt 0 (area_words (cached_area_table s)) s
                  else Some (ret, s));
     Some (if ret = STATUS_SUCCESS
           then (fmt + 1, s\<lparr>index_table := (index_table s)\<lparr>
                     area_index_table := (area_index_table (index_table s))(area := fmt),
                     area_index_ect := (area_index_ect (index_table s))(area := 0)\<rparr>,
                   area_offset_table := (area_offset_table s)(area := 0)\<rparr>)
           else (INVALID_BLOCK, ANCHOR_LogBadBlock fmt s)) }"

definition AREA_IsFull :: "'h mtd_ops \<Rightarrow> u32 \<Rightarrow> 'h ubi_state \<Rightarrow> (bool \<times> 'h ubi_state) option" where
  "AREA_IsFull M logical_block s = do {
     let area = AREA_INDEX logical_block;
     (status, s) \<leftarrow> AREA_Read M area s;
     Some (status = STATUS_SUCCESS \<and> area_offset_table s area = PAGE_PER_PHY_BLOCK - 1, s) }"

definition min_ec_offset :: "(u32 \<Rightarrow> AREA_BLOCK) \<Rightarrow> u32" where
  "min_ec_offset t =
     fold (\<lambda>i m. if physical_block_ec (t i) < physical_block_ec (t m) then i else m)
       (upto_u32 0 CFG_PHY_BLOCK_PER_AREA) 0"

text \<open>\<open>AREA_FindMinECBlock\<close> leaves the caller's variables alone when the table cannot be read.\<close>

definition AREA_FindMinECBlock :: "'h mtd_ops \<Rightarrow> u32 \<Rightarrow> u32 \<Rightarrow> u32 \<Rightarrow> 'h ubi_state \<Rightarrow>
    (u32 \<times> u32 \<times> u32 \<times> 'h ubi_state) option" where
  "AREA_FindMinECBlock M area phy ec s = do {
     (status, s) \<leftarrow> AREA_Read M area s;
     let t = cached_area_table s;
     let m = min_ec_offset t;
     Some (if status = STATUS_SUCCESS then (m, physical_block (t m), physical_block_ec (t m), s)
           else (0, phy, ec, s)) }"

definition AREA_CheckUpdatePLR :: "u32 \<Rightarrow> u32 \<Rightarrow> u32 \<Rightarrow> 'h ubi_state \<Rightarrow> bool \<times> 'h ubi_state" where
  "AREA_CheckUpdatePLR logical_block origin_block block_ec s =
     (let off = BLOCK_OFFSET_AREA logical_block; e = cached_area_table s off in
      if physical_block e = origin_block \<and> physical_block_ec e = block_ec then (False, s)
      else (True, s\<lparr>cached_area_table := (cached_area_table s)
                     (off := \<lparr>physical_block = origin_block, physical_block_ec = block_ec\<rparr>)\<rparr>))"

definition AREA_Update :: "'h mtd_ops \<Rightarrow> u32 \<Rightarrow> u32 \<Rightarrow> u32 \<Rightarrow> 'h ubi_state \<Rightarrow> (STATUS \<times> 'h ubi_state) option" where
  "AREA_Update M logical_block new_origin_block new_origin_ec s = do {
     let block = BLOCK_OFFSET_AREA logical_block;
     let area = AREA_INDEX logical_block;
     (ret, s) \<leftarrow> AREA_Read M area s;
     (ret, page, s) \<leftarrow>
       (if ret = STATUS_SUCCESS then do {
          let s = (if new_origin_block \<noteq> INVALID_BLOCK
                   then s\<lparr>cached_area_table := (cached_area_table s)
                          (block := \<lparr>physical_block = new_origin_block, physical_block_ec = new_origin_ec\<rparr>)\<rparr>
                   else s);
          let page = (area_offset_table s area + 1) mod PAGE_PER_PHY_BLOCK;
          (ret, s) \<leftarrow> TABLE_Write M (area_index_table (index_table s) area) page
                        (area_words (cached_area_table s)) s;
          Some (ret, page, s) }
        else Some (ret, INVALID_PAGE, s));
     if ret = STATUS_SUCCESS then do {
       ASSERT (page \<noteq> INVALID_PAGE);
       Some (ret, s\<lparr>area_offset_table := (area_offset_table s)(area := page)\<rparr>) }
     else if ret = STATUS_BADBLOCK then
       Some (ret, s\<lparr>area_offset_table := (area_offset_table s)(area := PAGE_PER_PHY_BLOCK - 1),
                    index_table := (index_table s)\<lparr>
                      area_index_ect := (area_index_ect (index_table s))(area := INVALID_EC)\<rparr>\<rparr>)
     else Some (ret, s) }"

definition AREA_GetBlock :: "'h mtd_ops \<Rightarrow> u32 \<Rightarrow> 'h ubi_state \<Rightarrow> (u32 \<times> 'h ubi_state) option" where
  "AREA_GetBlock M logical_block s = do {
     let block = BLOCK_OFFSET_AREA logical_block;
     let area = AREA_INDEX logical_block;
     (status, s) \<leftarrow> AREA_Read M area s;
     Some (if status = STATUS_SUCCESS then physical_block (cached_area_table s block) else INVALID_BLOCK, s) }"

definition AREA_GetEC :: "'h mtd_ops \<Rightarrow> u32 \<Rightarrow> 'h ubi_state \<Rightarrow> (u32 \<times> 'h ubi_state) option" where
  "AREA_GetEC M logical_block s = do {
     let block = BLOCK_OFFSET_AREA logical_block;
     let area = AREA_INDEX logical_block;
     (status, s) \<leftarrow> AREA_Read M area s;
     Some (if status = STATUS_SUCCESS then physical_block_ec (cached_area_table s block) else INVALID_EC, s) }"

end
