(* ===== verification/Ubi_Index.thy ===== *)
theory Ubi_Index
  imports Ubi_Area
begin

text \<open>
  The index table of the UBI layer, core/ubi/ubi_index.c: where the area tables are, the free
  blocks ordered by erase count, and the commit that writes the index page before the area page so that
  a power loss between the two can be repaired.
\<close>

section \<open>The free block table\<close>

definition set_free :: "u32 \<Rightarrow> u32 \<Rightarrow> u32 \<Rightarrow> INDEX_TABLE \<Rightarrow> INDEX_TABLE" where
  "set_free i block ec t = t\<lparr>free_block_table := (free_block_table t)(i := block),
     free_block_ect := (free_block_ect t)(i := ec)\<rparr>"

definition copy_free :: "u32 \<Rightarrow> u32 \<Rightarrow> INDEX_TABLE \<Rightarrow> INDEX_TABLE" where
  "copy_free dst src t = set_free dst (free_block_table t src) (free_block_ect t src) t"

definition set_index_table :: "INDEX_TABLE \<Rightarrow> 'h ubi_state \<Rightarrow> 'h ubi_state" where
  "set_index_table t s = s\<lparr>index_table := t\<rparr>"

text \<open>The entry \<open>INDEX_FreeBlock_Get\<close> takes: the first of the die, or the first of all.\<close>

definition free_index :: "u32 \<Rightarrow> INDEX_TABLE \<Rightarrow> u32" where
  "free_index die t =
     (case find (\<lambda>i. free_block_table t i = INVALID_BLOCK \<or> free_block_table t i mod TOTAL_DIE_COUNT = die)
             (upto_u32 0 FREE_BLOCK_COUNT) of
        None \<Rightarrow> 0
      | Some i \<Rightarrow> if free_block_table t i = INVALID_BLOCK then 0 else i)"

definition drop_free :: "u32 \<Rightarrow> INDEX_TABLE \<Rightarrow> INDEX_TABLE" where
  "drop_free i t =
     set_free (FREE_BLOCK_COUNT - 1) INVALID_BLOCK INVALID_EC
       (fold (\<lambda>j t. copy_free j (j + 1) t) (upto_u32 i (FREE_BLOCK_COUNT - 1)) t)"

partial_function (option) INDEX_FreeBlock_Get ::
    "'h mtd_ops \<Rightarrow> u32 \<Rightarrow> u32 \<Rightarrow> 'h ubi_state \<Rightarrow> (STATUS \<times> u32 \<times> u32 \<times> 'h ubi_state) option" where
  "INDEX_FreeBlock_Get M die ec s = do {
     let die = die mod TOTAL_DIE_COUNT;
     let i = free_index die (index_table s);
     let block = free_block_table (index_table s) i;
     (ret, s) \<leftarrow> (if block \<noteq> INVALID_BLOCK then do {
          ASSERT (i < FREE_BLOCK_COUNT);
          mtd_erase M block s }
        else Some (STATUS_TOOMANY_BADBLOCK, s));
     let s = (if ret \<noteq> STATUS_SUCCESS then ANCHOR_LogBadBlock block s else s);
     let ec = (if ret = STATUS_SUCCESS then free_block_ect (index_table s) i + 1 else ec);
     let s = (if ret \<noteq> STATUS_TOOMANY_BADBLOCK then set_index_table (drop_free i (index_table s)) s else s);
     if ret \<noteq> STATUS_SUCCESS \<and> ret \<noteq> STATUS_TOOMANY_BADBLOCK \<and> ret \<noteq> STATUS_SimulatedPowerLoss
     then INDEX_FreeBlock_Get M die ec s
     else Some (ret, block, ec, s) }"

text \<open>
  The entries above the one at \<open>i\<close> move up while their erase count is larger than \<open>ec\<close>; the scan stops
  at the first that is not, or at 0.
\<close>

function put_scan :: "u32 \<Rightarrow> u32 \<Rightarrow> INDEX_TABLE \<Rightarrow> u32 \<times> INDEX_TABLE" where
  "put_scan i ec t =
     (if 0 < i then
        if ec < free_block_ect t i then put_scan (i - 1) ec (copy_free (i + 1) i t) else (i, t)
      else (0, t))"
  by pat_completeness auto
termination
  by (relation "measure (\<lambda>(i, _, _). unat i)") (auto simp: word_less_nat_alt unat_minus_one unat_gt_0)

declare put_scan.simps [simp del]

definition free_put :: "u32 \<Rightarrow> u32 \<Rightarrow> INDEX_TABLE \<Rightarrow> INDEX_TABLE" where
  "free_put dirty_block dirty_block_ec t =
     (let (i, t) = put_scan (FREE_BLOCK_COUNT - 2) dirty_block_ec t in
      if 0 < i then set_free (i + 1) dirty_block dirty_block_ec t
      else if dirty_block_ec < free_block_ect t 0
      then set_free 0 dirty_block dirty_block_ec (copy_free 1 0 t)
      else set_free 1 dirty_block dirty_block_ec t)"

definition INDEX_FreeBlock_Put :: "u32 \<Rightarrow> u32 \<Rightarrow> 'h ubi_state \<Rightarrow> 'h ubi_state" where
  "INDEX_FreeBlock_Put dirty_block dirty_block_ec s =
     set_index_table (free_put dirty_block dirty_block_ec (index_table s)) s"

definition max_free_index :: "INDEX_TABLE \<Rightarrow> u32" where
  "max_free_index t =
     (case find (\<lambda>i. free_block_ect t i \<noteq> INVALID_EC) (rev (upto_u32 1 FREE_BLOCK_COUNT)) of
        None \<Rightarrow> 0 | Some i \<Rightarrow> i)"

text \<open>The caller's variables keep their values when only entry 0, or none, is valid.\<close>

definition INDEX_FreeBlock_GetMaxECBlock :: "u32 \<Rightarrow> u32 \<Rightarrow> 'h ubi_state \<Rightarrow> u32 \<times> u32" where
  "INDEX_FreeBlock_GetMaxECBlock phy ec s =
     (let t = index_table s; i = max_free_index t in
      if 0 < i then (free_block_table t i, free_block_ect t i) else (phy, ec))"

function swap_scan :: "u32 \<Rightarrow> u32 \<Rightarrow> u32 \<Rightarrow> INDEX_TABLE \<Rightarrow> u32 \<times> INDEX_TABLE" where
  "swap_scan i block ec t =
     (if 0 < i then
        if ec < free_block_ect t i then swap_scan (i - 1) block ec (copy_free (i + 1) i t)
        else (i, set_free (i + 1) block ec t)
      else (0, t))"
  by pat_completeness auto
termination
  by (relation "measure (\<lambda>(i, _, _, _). unat i)") (auto simp: word_less_nat_alt unat_minus_one unat_gt_0)

declare swap_scan.simps [simp del]

definition free_swap :: "u32 \<Rightarrow> u32 \<Rightarrow> INDEX_TABLE \<Rightarrow> INDEX_TABLE" where
  "free_swap min_ec_block min_ec t =
     (let i = max_free_index t in
      if free_block_ect t i \<noteq> INVALID_EC \<and> min_ec < free_block_ect t i \<and>
         STATIC_WL_THRESHOLD < free_block_ect t i - min_ec
      then let (i, t) = swap_scan (i - 1) min_ec_block min_ec t in
           if i = 0 then
             if min_ec < free_block_ect t 0
             then set_free 0 min_ec_block min_ec (copy_free 1 0 t)
             else set_free 1 min_ec_block min_ec t
           else t
      else t)"

definition INDEX_FreeBlock_SwapMaxECBlock :: "u32 \<Rightarrow> u32 \<Rightarrow> 'h ubi_state \<Rightarrow> 'h ubi_state" where
  "INDEX_FreeBlock_SwapMaxECBlock min_ec_block min_ec s =
     set_index_table (free_swap min_ec_block min_ec (index_table s)) s"

section \<open>Writing the index\<close>

definition index_update :: "'h mtd_ops \<Rightarrow> 'h ubi_state \<Rightarrow> (STATUS \<times> 'h ubi_state) option" where
  "index_update M s = do {
     (ret, s) \<leftarrow>
       (if index_next_page s = PAGE_PER_PHY_BLOCK then do {
          (ret, free_block, ec, s) \<leftarrow> INDEX_FreeBlock_Get M (index_block s) (uninit s 0) s;
          (ret, s) \<leftarrow> (if ret = STATUS_SUCCESS
             then ANCHOR_Update M (ANCHOR_IndexReclaim (index_block s) (index_block_ec s) free_block ec s)
             else Some (ret, s));
          Some (ret, if ret = STATUS_SUCCESS
             then (INDEX_FreeBlock_Put (index_block s) (index_block_ec s) s)
                    \<lparr>index_block := free_block, index_next_page := 0, index_block_ec := ec\<rparr>
             else s) }
        else Some (STATUS_SUCCESS, s));
     (ret, s) \<leftarrow> (if ret = STATUS_SUCCESS
        then TABLE_Write M (index_block s) (index_next_page s) (index_words (index_table s)) s
        else Some (ret, s));
     Some (ret, if ret = STATUS_SUCCESS then s\<lparr>index_next_page := index_next_page s + 1\<rparr>
                else if ret = STATUS_BADBLOCK
                then s\<lparr>index_next_page := PAGE_PER_PHY_BLOCK, index_block_ec := INVALID_EC\<rparr>
                else s) }"

definition INDEX_Update_AreaReclaim :: "u32 \<Rightarrow> u32 \<Rightarrow> u32 \<Rightarrow> 'h ubi_state \<Rightarrow> 'h ubi_state" where
  "INDEX_Update_AreaReclaim area new_block nec s =
     (let s = INDEX_FreeBlock_Put (area_index_table (index_table s) area) (area_index_ect (index_table s) area) s;
          t = index_table s
      in set_index_table (t\<lparr>area_index_table := (area_index_table t)(area := new_block),
                            area_index_ect := (area_index_ect t)(area := nec)\<rparr>) s)"

definition INDEX_Update_AreaUpdate :: "u32 \<Rightarrow> u32 \<Rightarrow> u32 \<Rightarrow> 'h ubi_state \<Rightarrow> 'h ubi_state option" where
  "INDEX_Update_AreaUpdate logical_block phy ec s = do {
     ASSERT (phy \<noteq> INVALID_BLOCK \<and> ec \<noteq> INVALID_EC);
     Some (s\<lparr>index_table := (index_table s)\<lparr>area_update_plr :=
               \<lparr>area_updating_logical_block = logical_block, area_updating_physical_block = phy,
                area_updating_block_ec = ec\<rparr>\<rparr>,
             is_updating_area := True\<rparr>) }"

text \<open>One round of the loop of \<open>INDEX_Update_Commit\<close>; \<open>area_reclaim\<close> survives from round to round.\<close>

definition index_commit_round :: "'h mtd_ops \<Rightarrow> bool \<Rightarrow> 'h ubi_state \<Rightarrow> (STATUS \<times> bool \<times> 'h ubi_state) option" where
  "index_commit_round M area_reclaim s =
     (if is_updating_area s then do {
        let plr = area_update_plr (index_table s);
        let log = area_updating_logical_block plr;
        (is_full, s) \<leftarrow> AREA_IsFull M log s;
        (ret, area_reclaim, s) \<leftarrow>
          (if is_full then do {
             let area = AREA_INDEX log;
             (ret, new_area_block, new_area_ec, s) \<leftarrow>
               INDEX_FreeBlock_Get M (area_index_table (index_table s) area) (uninit s 0) s;
             Some (if ret = STATUS_SUCCESS
                   then (ret, True, INDEX_Update_AreaReclaim area new_area_block new_area_ec s)
                   else (ret, area_reclaim, s)) }
           else do {
             (ret, s) \<leftarrow> index_update M s;
             Some (ret, area_reclaim, s) });
        (ret, s) \<leftarrow>
          (if ret = STATUS_SUCCESS then do {
             (ret, s) \<leftarrow> AREA_Update M log (area_updating_physical_block plr) (area_updating_block_ec plr) s;
             if ret = STATUS_SUCCESS \<and> area_reclaim then index_update M s else Some (ret, s) }
           else Some (ret, s));
        Some (ret, area_reclaim, if ret = STATUS_SUCCESS then s\<lparr>is_updating_area := False\<rparr> else s) }
      else do {
        (ret, s) \<leftarrow> index_update M s;
        Some (ret, area_reclaim, s) })"

partial_function (option) index_commit_loop ::
    "'h mtd_ops \<Rightarrow> bool \<Rightarrow> 'h ubi_state \<Rightarrow> (STATUS \<times> 'h ubi_state) option" where
  "index_commit_loop M area_reclaim s = do {
     (ret, area_reclaim, s) \<leftarrow> index_commit_round M area_reclaim s;
     if ret = STATUS_BADBLOCK then index_commit_loop M area_reclaim s else Some (ret, s) }"

definition INDEX_Update_Commit :: "'h mtd_ops \<Rightarrow> 'h ubi_state \<Rightarrow> (STATUS \<times> 'h ubi_state) option" where
  "INDEX_Update_Commit M s = index_commit_loop M False s"

section \<open>Format and mount\<close>

record index_format_vars =
  if_index_block :: u32
  if_free_index :: u32
  if_ret :: STATUS

definition index_format_block :: "'h mtd_ops \<Rightarrow> u32 \<Rightarrow> index_format_vars \<times> 'h ubi_state \<Rightarrow>
    (index_format_vars \<times> 'h ubi_state) option" where
  "index_format_block M fmt = (\<lambda>(v, s). do {
     (ret, s) \<leftarrow> (if \<not> ANCHOR_IsBadBlock fmt s then erase_or_log M fmt s else Some (STATUS_BADBLOCK, s));
     let v = v\<lparr>if_ret := ret\<rparr>;
     if ret = STATUS_SUCCESS then
       if if_index_block v = INVALID_BLOCK then Some (v\<lparr>if_index_block := fmt\<rparr>, s)
       else do {
         ASSERT (if_free_index v < FREE_BLOCK_COUNT);
         Some (v\<lparr>if_free_index := if_free_index v + 1\<rparr>,
               set_index_table (set_free (if_free_index v) fmt 0 (index_table s)) s) }
     else Some (v, s) })"

definition INDEX_Format :: "'h mtd_ops \<Rightarrow> u32 \<Rightarrow> u32 \<Rightarrow> 'h ubi_state \<Rightarrow> (u32 \<times> 'h ubi_state) option" where
  "INDEX_Format M total_block fmt_current_block s = do {
     let s = set_index_table ((index_table s)\<lparr>area_update_plr :=
               \<lparr>area_updating_logical_block = INVALID_BLOCK, area_updating_physical_block = INVALID_BLOCK,
                area_updating_block_ec = INVALID_EC\<rparr>\<rparr>) s;
     (v, s) \<leftarrow> for_each (upto_u32 fmt_current_block total_block) (index_format_block M)
        (\<lparr>if_index_block = INVALID_BLOCK, if_free_index = 0, if_ret = STATUS_SUCCESS\<rparr>, s);
     let fmt = max fmt_current_block total_block;
     let s = set_index_table (fold (\<lambda>i. set_free i INVALID_BLOCK INVALID_EC)
               (upto_u32 (if_free_index v) FREE_BLOCK_COUNT) (index_table s)) s;
     let ret = if_ret v;
     ASSERT (if_index_block v = INVALID_BLOCK \<longrightarrow> ret \<noteq> STATUS_SUCCESS);
     let ret = (if ret = STATUS_SUCCESS \<and> ANCHOR_IsBadBlock (if_index_block v) s then STATUS_BADBLOCK else ret);
     (ret, s) \<leftarrow> (if ret = STATUS_SUCCESS then mtd_erase M (if_index_block v) s else Some (ret, s));
     (ret, s) \<leftarrow> (if ret = STATUS_SUCCESS
        then TABLE_Write M (if_index_block v) 0 (index_words (index_table s)) s else Some (ret, s));
     Some (if ret = STATUS_SUCCESS
           then (fmt, s\<lparr>anchor_table := (anchor_table s)\<lparr>index_new_block := if_index_block v, index_new_ec := 0,
                           index_old_block := INVALID_BLOCK, index_old_ec := INVALID_EC\<rparr>\<rparr>)
           else (INVALID_BLOCK, ANCHOR_LogBadBlock (if_index_block v) s)) }"

definition read_index :: "'h mtd_ops \<Rightarrow> u32 \<Rightarrow> u32 \<Rightarrow> 'h ubi_state \<Rightarrow> (STATUS \<times> u32 \<times> 'h ubi_state) option" where
  "read_index M block page s = do {
     (ret, page, buf, s) \<leftarrow> TABLE_Read M block page (Some (index_words (index_table s))) s;
     Some (ret, page, set_index_table (index_load (the buf) (index_table s)) s) }"

text \<open>Returns the status and the area update the index page records.\<close>

definition INDEX_Init :: "'h mtd_ops \<Rightarrow> 'h ubi_state \<Rightarrow> (STATUS \<times> AREA_UPDATE_PLR \<times> 'h ubi_state) option" where
  "INDEX_Init M s = do {
     let s = s\<lparr>is_updating_area := False\<rparr>;
     ASSERT (index_new_block (anchor_table s) \<noteq> INVALID_BLOCK);
     (ret, page_offset, s) \<leftarrow> read_index M (index_new_block (anchor_table s)) INVALID_PAGE s;
     (ret, s) \<leftarrow>
       (if ret = STATUS_SUCCESS then do {
          let s = s\<lparr>index_block := index_new_block (anchor_table s), index_block_ec := index_new_ec (anchor_table s),
                    index_next_page := page_offset + 1\<rparr>;
          (_, s) \<leftarrow> index_update M s;
          Some (ret, s) }
        else do {
          ASSERT (index_old_block (anchor_table s) \<noteq> INVALID_BLOCK);
          (ret, page_offset, s) \<leftarrow> read_index M (index_old_block (anchor_table s)) page_offset s;
          if ret = STATUS_SUCCESS then
            index_update M (s\<lparr>index_block := index_old_block (anchor_table s),
              index_block_ec := index_old_ec (anchor_table s), index_next_page := PAGE_PER_PHY_BLOCK\<rparr>)
          else Some (ret, s) });
     Some (ret, area_update_plr (index_table s), s) }"

end
