(* ===== verification/Ubi_Free.thy ===== *)
theory Ubi_Free
  imports Ubi_Index
begin

text \<open>
  The free block table of core/ubi/ubi_index.c as a list of pairs of erase count and block: \<open>INDEX_FreeBlock_Put\<close>
  is an insertion behind the blocks that are not worn more, \<open>INDEX_FreeBlock_Get\<close> a removal, and both keep the
  list sorted by wear.
\<close>

section \<open>The table as a list\<close>

definition entry :: "INDEX_TABLE \<Rightarrow> nat \<Rightarrow> u32 \<times> u32" where
  "entry t k = (free_block_ect t (of_nat k), free_block_table t (of_nat k))"

definition free_blocks :: "INDEX_TABLE \<Rightarrow> (u32 \<times> u32) list" where
  "free_blocks t = map (entry t) [0..<253]"

definition free_sorted :: "INDEX_TABLE \<Rightarrow> bool" where
  "free_sorted t \<longleftrightarrow> sorted (map fst (free_blocks t))"

lemma length_free_blocks [simp]: "length (free_blocks t) = 253"
  by (simp add: free_blocks_def)

lemma nth_free_blocks [simp]: "k < 253 \<Longrightarrow> free_blocks t ! k = entry t k"
  unfolding free_blocks_def by (subst nth_map_upt) simp_all

lemma small_u32_eq: "k < 4096 \<Longrightarrow> n < 4096 \<Longrightarrow> (of_nat k :: u32) = of_nat n \<longleftrightarrow> k = n"
  by (auto simp: word_unat_eq_iff unat_of_nat)

lemma entry_set_free:
  "k < 4096 \<Longrightarrow> n < 4096 \<Longrightarrow> entry (set_free (of_nat n) block ec t) k = (if k = n then (ec, block) else entry t k)"
  by (simp add: entry_def set_free_def small_u32_eq)

lemma entry_copy_free:
  "k < 4096 \<Longrightarrow> n < 4096 \<Longrightarrow> entry (copy_free (of_nat n) (of_nat m) t) k = (if k = n then entry t m else entry t k)"
  by (simp add: copy_free_def entry_set_free) (simp add: entry_def)

lemma entry_first:
  "k < 4096 \<Longrightarrow> entry (set_free 0 block ec t) k = (if k = 0 then (ec, block) else entry t k)"
  "k < 4096 \<Longrightarrow> entry (copy_free 1 0 t) k = (if k = 1 then entry t 0 else entry t k)"
  using entry_set_free [of k 0 block ec t] entry_copy_free [of k 1 0 t] by simp_all

lemma fst_entry: "free_block_ect t (of_nat k) = fst (entry t k)"
  by (simp add: entry_def)

section \<open>Insertion\<close>

lemma put_scan_spec:
  assumes "n < 4000"
  shows "\<exists>m t'. put_scan (of_nat n) ec t = (of_nat m, t') \<and> m \<le> n \<and> (\<forall>k. m < k \<and> k \<le> n \<longrightarrow> ec < fst (entry t k)) \<and>
    (m = 0 \<or> fst (entry t m) \<le> ec) \<and>
    (\<forall>k < 4096. entry t' k = (if m + 1 < k \<and> k \<le> n + 1 then entry t (k - 1) else entry t k))"
  using assms
proof (induction n arbitrary: t)
  case 0
  then show ?case by (subst put_scan.simps) auto
next
  case (Suc n)
  have pos: "0 < (of_nat (Suc n) :: u32)" using Suc.prems small_u32_eq [of "Suc n" 0] by (simp add: word_gt_0 del: of_nat_Suc)
  show ?case
  proof (cases "ec < fst (entry t (Suc n))")
    case False
    then have "put_scan (of_nat (Suc n)) ec t = (of_nat (Suc n), t)"
      using pos by (subst put_scan.simps) (simp add: fst_entry del: of_nat_Suc)
    then show ?thesis using False by (intro exI [of _ "Suc n"] exI [of _ t]) (auto simp del: of_nat_Suc)
  next
    case True
    define t1 where "t1 = copy_free (of_nat (n + 2)) (of_nat (Suc n)) t"
    have t1: "entry t1 k = (if k = n + 2 then entry t (Suc n) else entry t k)" if "k < 4096" for k
      unfolding t1_def using that Suc.prems by (subst entry_copy_free) simp_all
    have "put_scan (of_nat (Suc n)) ec t = put_scan (of_nat n) ec t1"
      using pos True by (subst put_scan.simps) (simp add: fst_entry [symmetric] t1_def add.commute)
    moreover from Suc.IH [of t1] Suc.prems obtain m t' where
      "put_scan (of_nat n) ec t1 = (of_nat m, t')" "m \<le> n" "\<forall>k. m < k \<and> k \<le> n \<longrightarrow> ec < fst (entry t1 k)"
      "m = 0 \<or> fst (entry t1 m) \<le> ec" "\<forall>k < 4096. entry t' k = (if m + 1 < k \<and> k \<le> n + 1 then entry t1 (k - 1) else entry t1 k)" by auto
    ultimately show ?thesis using t1 Suc.prems True
      by (intro exI [of _ m] exI [of _ t']) (auto simp: le_Suc_eq)
  qed
qed

text \<open>The place where the new entry goes.\<close>

lemma free_put_entries:
  "\<exists>p \<le> 252. (\<forall>k. p \<le> k \<and> k < 252 \<longrightarrow> ec < fst (entry t k)) \<and> (p = 0 \<or> fst (entry t (p - 1)) \<le> ec) \<and>
     (\<forall>k < 253. entry (free_put block ec t) k = (if k < p then entry t k else if k = p then (ec, block) else entry t (k - 1)))"
proof -
  obtain m t' where m: "put_scan 251 ec t = (of_nat m, t')" "m \<le> 251" "\<forall>k. m < k \<and> k \<le> 251 \<longrightarrow> ec < fst (entry t k)"
    "m = 0 \<or> fst (entry t m) \<le> ec" "\<forall>k < 4096. entry t' k = (if m + 1 < k \<and> k \<le> 252 then entry t (k - 1) else entry t k)"
    using put_scan_spec [of 251 ec t] by auto
  have z: "0 < (of_nat m :: u32) \<longleftrightarrow> m \<noteq> 0" using small_u32_eq [of m 0] m(2) by (simp add: word_gt_0)
  have s1: "(of_nat m + 1 :: u32) = of_nat (m + 1)" by simp
  have e0: "free_block_ect t' 0 = fst (entry t 0)" using m(5) fst_entry [of t' 0] by simp
  have fp: "free_put block ec t = (if m \<noteq> 0 then set_free (of_nat (m + 1)) block ec t'
      else if ec < fst (entry t 0) then set_free (of_nat 0) block ec (copy_free (of_nat 1) (of_nat 0) t')
      else set_free (of_nat 1) block ec t')"
    unfolding free_put_def using m(1) by (simp add: z s1 e0 del: of_nat_add)
  show ?thesis
  proof (cases "m = 0 \<and> ec < fst (entry t 0)")
    case True
    have "entry (free_put block ec t) k = (if k = 0 then (ec, block) else entry t (k - 1))" if "k < 253" for k
    proof -
      have "entry (free_put block ec t) k = (if k = 0 then (ec, block) else if k = 1 then entry t' 0 else entry t' k)"
        using True that unfolding fp by (simp add: entry_first)
      then show ?thesis using m(5) True that by auto
    qed
    moreover have "ec < fst (entry t k)" if "k < 252" for k using m(3) True that by (cases k) auto
    ultimately show ?thesis by (intro exI [of _ 0]) simp
  next
    case False
    have "free_put block ec t = set_free (of_nat (m + 1)) block ec t'" using False unfolding fp by auto
    then have "entry (free_put block ec t) k = (if k = m + 1 then (ec, block) else entry t' k)" if "k < 253" for k
      using that m(2) by (simp only: entry_set_free)
    then show ?thesis using m False by (intro exI [of _ "m + 1"]) (auto simp: not_less)
  qed
qed

lemma free_put_list:
  assumes "free_sorted t"
  shows "free_blocks (free_put block ec t) =
    takeWhile (\<lambda>e. fst e \<le> ec) (butlast (free_blocks t)) @ (ec, block) # dropWhile (\<lambda>e. fst e \<le> ec) (butlast (free_blocks t))"
proof -
  define l where "l = butlast (free_blocks t)"
  have l: "length l = 252" "\<And>k. k < 252 \<Longrightarrow> l ! k = entry t k" by (simp_all add: l_def nth_butlast)
  from free_put_entries [of ec t block] obtain p where p: "p \<le> 252" "\<forall>k. p \<le> k \<and> k < 252 \<longrightarrow> ec < fst (entry t k)"
    "p = 0 \<or> fst (entry t (p - 1)) \<le> ec"
    "\<forall>k < 253. entry (free_put block ec t) k = (if k < p then entry t k else if k = p then (ec, block) else entry t (k - 1))" by blast
  have le: "fst (entry t k) \<le> ec" if "k < p" for k
  proof -
    have "fst (entry t k) \<le> fst (entry t (p - 1))"
      using sorted_nth_mono [OF assms [unfolded free_sorted_def], of k "p - 1"] that p(1) by simp
    then show ?thesis using p(3) that by auto
  qed
  have "takeWhile (\<lambda>e. fst e \<le> ec) l = take p l"
    by (rule takeWhile_eq_take_P_nth) (use l p(1,2) le in \<open>auto simp: not_le\<close>)
  moreover from this have "dropWhile (\<lambda>e. fst e \<le> ec) l = drop p l"
    using l(1) p(1) by (metis append_take_drop_id same_append_eq takeWhile_dropWhile_id)
  moreover have "free_blocks (free_put block ec t) = take p l @ (ec, block) # drop p l"
    by (rule nth_equalityI) (use l p in \<open>auto simp: nth_append nth_Cons' min_def\<close>)
  ultimately show ?thesis unfolding l_def by simp
qed

text \<open>C26: Giving a block back to a sorted table is an insertion into the list: behind every entry that is not worn more,
  before the rest; the last entry drops out.\<close>

theorem free_put_inserts:
  assumes "free_sorted t"
  shows "free_blocks (free_put block ec t) =
    takeWhile (\<lambda>e. fst e \<le> ec) (butlast (free_blocks t)) @ (ec, block) # dropWhile (\<lambda>e. fst e \<le> ec) (butlast (free_blocks t))"
  by (rule free_put_list [OF assms])

lemma free_put_sorted:
  assumes "free_sorted t"
  shows "free_sorted (free_put block ec t)"
proof -
  define l where "l = butlast (free_blocks t)"
  have l: "sorted (map fst l)" using assms sorted_butlast [of "map fst (free_blocks t)"] by (simp add: free_sorted_def l_def map_butlast)
  have low: "fst e \<le> ec" if "e \<in> set (takeWhile (\<lambda>e. fst e \<le> ec) l)" for e using that by (auto dest: set_takeWhileD)
  have high: "ec < fst e" if "e \<in> set (dropWhile (\<lambda>e. fst e \<le> ec) l)" "sorted (map fst l)" for e l
    using that by (induction l) (auto split: if_splits)
  have "sorted (map fst (takeWhile (\<lambda>e. fst e \<le> ec) l) @ map fst (dropWhile (\<lambda>e. fst e \<le> ec) l))"
    using l unfolding map_append [symmetric] takeWhile_dropWhile_id .
  moreover define a b where "a = takeWhile (\<lambda>e. fst e \<le> ec) l" and "b = dropWhile (\<lambda>e. fst e \<le> ec) l"
  ultimately have "sorted (map fst a @ map fst b)" "\<forall>e \<in> set a. fst e \<le> ec" "\<forall>e \<in> set b. ec < fst e"
    using low high [OF _ l] by simp_all
  then have "sorted (map fst (a @ (ec, block) # b))" by (auto simp: sorted_append)
  then show ?thesis by (simp only: free_sorted_def free_put_list [OF assms] l_def a_def b_def)
qed

section \<open>Removal\<close>

lemma copy_down_entries:
  assumes "i \<le> n" "n < 4000" "k < 4096"
  shows "entry (fold (\<lambda>j t. copy_free j (j + 1) t) (map of_nat [i..<n]) t) k = (if i \<le> k \<and> k < n then entry t (k + 1) else entry t k)"
  using assms
proof (induction n arbitrary: k)
  case 0
  then show ?case by simp
next
  case (Suc n)
  show ?case
  proof (cases "i = Suc n")
    case False
    then have i: "i \<le> n" using Suc.prems(1) by simp
    have "entry (copy_free (of_nat n) (of_nat n + 1) t') k = (if k = n then entry t' (n + 1) else entry t' k)" for t'
      using entry_copy_free [of k n "n + 1" t'] Suc.prems by (simp add: add.commute)
    then show ?thesis using Suc.IH i Suc.prems by auto
  qed auto
qed

lemma drop_free_list:
  assumes "i < 253"
  shows "free_blocks (drop_free (of_nat i) t) = take i (free_blocks t) @ drop (i + 1) (free_blocks t) @ [(INVALID_EC, INVALID_BLOCK)]"
proof (rule nth_equalityI)
  fix k assume "k < length (free_blocks (drop_free (of_nat i) t))"
  then have k: "k < 253" by simp
  have u: "upto_u32 (of_nat i) (FREE_BLOCK_COUNT - 1) = map of_nat [i..<252]"
    using assms by (simp add: upto_u32_def unat_of_nat)
  have "entry (drop_free (of_nat i) t) k = (if k = 252 then (INVALID_EC, INVALID_BLOCK) else if i \<le> k then entry t (k + 1) else entry t k)"
    unfolding drop_free_def u using entry_set_free [of k 252] copy_down_entries [of i 252 k t] assms k by simp
  then show "free_blocks (drop_free (of_nat i) t) ! k = (take i (free_blocks t) @ drop (i + 1) (free_blocks t) @ [(INVALID_EC, INVALID_BLOCK)]) ! k"
    using assms k by (auto simp: nth_append min_def)
qed (use assms in simp)

lemma drop_free_sorted:
  assumes "free_sorted t" "i < 253"
  shows "free_sorted (drop_free (of_nat i) t)"
proof -
  have drop_tl: "drop (i + 1) l = tl (drop i l)" for l :: "(u32 \<times> u32) list" by (simp add: drop_Suc tl_drop)
  have "sorted (map fst (take i (free_blocks t) @ drop i (free_blocks t)))" using assms(1) by (simp add: free_sorted_def)
  moreover have "set (tl ys) \<subseteq> set ys" for ys :: "u32 list" by (cases ys) auto
  ultimately have s: "sorted (map fst (take i (free_blocks t) @ drop (i + 1) (free_blocks t)))"
    unfolding drop_tl map_append sorted_append map_tl by (blast intro: sorted_tl)
  moreover have "x \<le> INVALID_EC" for x :: u32 by simp
  ultimately show ?thesis unfolding free_sorted_def drop_free_list [OF assms(2)] append_assoc [symmetric]
    by (subst map_append) (auto simp: sorted_append)
qed


section \<open>Wear order\<close>

lemma ANCHOR_LogBadBlock_index [simp]: "index_table (ANCHOR_LogBadBlock block s) = index_table s"
  by (simp add: ANCHOR_LogBadBlock_def Let_def split: option.split)

text \<open>One round of \<open>INDEX_FreeBlock_Get\<close>.\<close>

lemma free_get_round:
  assumes "(if block \<noteq> INVALID_BLOCK then ASSERT (i < FREE_BLOCK_COUNT) \<bind> (\<lambda>_. mtd_erase M block s)
      else Some (STATUS_TOOMANY_BADBLOCK, s)) = Some (ret, s1)"
    and "s2 = (if ret \<noteq> STATUS_SUCCESS then ANCHOR_LogBadBlock block s1 else s1)"
    and "s3 = (if ret \<noteq> STATUS_TOOMANY_BADBLOCK then set_index_table (drop_free i (index_table s2)) s2 else s2)"
    and "free_sorted (index_table s)"
  shows "free_sorted (index_table s3)"
proof -
  have t2: "index_table s2 = index_table s"
    using assms(1,2) by (auto simp: mtd_erase_def split: if_splits Option.bind_splits)
  have "ret \<noteq> STATUS_TOOMANY_BADBLOCK \<Longrightarrow> unat i < 253"
    using assms(1) by (auto simp: word_less_nat_alt split: if_splits Option.bind_splits)
  then show ?thesis
    using drop_free_sorted [of "index_table s" "unat i"] t2 assms(3,4) by (auto simp: set_index_table_def)
qed

lemma get_round_cases:
  assumes "e \<bind> (\<lambda>(ret, s). let s = A ret s; ec = B ret s; s = C ret s
      in if Q ret then F ec s else Some (ret, b, ec, s)) = Some r"
  shows "\<exists>ret s1 ec. e = Some (ret, s1) \<and> (F ec (C ret (A ret s1)) = Some r \<or> r = (ret, b, ec, C ret (A ret s1)))"
  using assms by (cases e) (auto simp: Let_def split: if_splits)

text \<open>The free block table stays sorted by erase count through everything that takes a block from it or gives one
  back, so the first entry is always the least worn: \<open>INDEX_FreeBlock_Get\<close>, bad blocks and failures included, and
  \<open>INDEX_FreeBlock_Put\<close>.\<close>

theorem free_list_stays_sorted:
  fixes M :: "'h mtd_ops"
  assumes "free_sorted (index_table s)"
  shows "free_sorted (index_table (INDEX_FreeBlock_Put block ec s)) \<and>
    (\<forall>r. INDEX_FreeBlock_Get M die ec s = Some r \<longrightarrow> (case r of (ret, b, e, s') \<Rightarrow> free_sorted (index_table s')))"
proof (intro conjI allI impI)
  show "free_sorted (index_table (INDEX_FreeBlock_Put block ec s))"
    using free_put_sorted [OF assms] by (simp add: INDEX_FreeBlock_Put_def set_index_table_def)
next
  fix r assume get: "INDEX_FreeBlock_Get M die ec s = Some r"
  have "free_sorted (index_table s) \<longrightarrow> (case r of (ret, b, e, s') \<Rightarrow> free_sorted (index_table s'))"
  proof (rule INDEX_FreeBlock_Get.raw_induct [OF _ get, where P = "\<lambda>M die ec s r.
      free_sorted (index_table s) \<longrightarrow> (case r of (ret, b, e, s') \<Rightarrow> free_sorted (index_table s'))"])
    fix f :: "'h mtd_ops \<Rightarrow> u32 \<Rightarrow> u32 \<Rightarrow> 'h ubi_state \<Rightarrow> (STATUS \<times> u32 \<times> u32 \<times> 'h ubi_state) option"
      and M die ec and s :: "'h ubi_state" and r
    assume IH: "\<And>M die ec s r. f M die ec s = Some r \<Longrightarrow>
        free_sorted (index_table s) \<longrightarrow> (case r of (ret, b, e, s') \<Rightarrow> free_sorted (index_table s'))"
    define i where "i = free_index (die mod TOTAL_DIE_COUNT) (index_table s)"
    define block where "block = free_block_table (index_table s) i"
    assume "(let die = die mod TOTAL_DIE_COUNT; i = free_index die (index_table s); block = free_block_table (index_table s) i in
      (if block \<noteq> INVALID_BLOCK then ASSERT (i < FREE_BLOCK_COUNT) \<bind> (\<lambda>_. mtd_erase M block s) else Some (STATUS_TOOMANY_BADBLOCK, s)) \<bind>
      (\<lambda>(ret, s). let s = if ret \<noteq> STATUS_SUCCESS then ANCHOR_LogBadBlock block s else s;
          ec = if ret = STATUS_SUCCESS then free_block_ect (index_table s) i + 1 else ec;
          s = if ret \<noteq> STATUS_TOOMANY_BADBLOCK then set_index_table (drop_free i (index_table s)) s else s
        in if ret \<noteq> STATUS_SUCCESS \<and> ret \<noteq> STATUS_TOOMANY_BADBLOCK \<and> ret \<noteq> STATUS_SimulatedPowerLoss
           then f M die ec s else Some (ret, block, ec, s))) = Some r"
    then have "(if block \<noteq> INVALID_BLOCK then ASSERT (i < FREE_BLOCK_COUNT) \<bind> (\<lambda>_. mtd_erase M block s)
          else Some (STATUS_TOOMANY_BADBLOCK, s)) \<bind>
      (\<lambda>(ret, s). let s = if ret \<noteq> STATUS_SUCCESS then ANCHOR_LogBadBlock block s else s;
          ec = if ret = STATUS_SUCCESS then free_block_ect (index_table s) i + 1 else ec;
          s = if ret \<noteq> STATUS_TOOMANY_BADBLOCK then set_index_table (drop_free i (index_table s)) s else s
        in if ret \<noteq> STATUS_SUCCESS \<and> ret \<noteq> STATUS_TOOMANY_BADBLOCK \<and> ret \<noteq> STATUS_SimulatedPowerLoss
           then f M (die mod TOTAL_DIE_COUNT) ec s else Some (ret, block, ec, s)) = Some r"
      by (simp only: Let_def i_def block_def)
    from get_round_cases [OF this] show "free_sorted (index_table s) \<longrightarrow> (case r of (ret, b, e, s') \<Rightarrow> free_sorted (index_table s'))"
      using free_get_round [OF _ refl refl, where i = i and s = s and block = block] IH by fastforce
  qed
  with assms show "case r of (ret, b, e, s') \<Rightarrow> free_sorted (index_table s')" by blast
qed

text \<open>A table without free blocks.\<close>

definition no_free_blocks :: INDEX_TABLE where
  "no_free_blocks = (index_table (ubi_start ()))\<lparr>free_block_table := (\<lambda>_. INVALID_BLOCK), free_block_ect := (\<lambda>_. INVALID_EC)\<rparr>"

lemma no_free_blocks_ok: "free_sorted no_free_blocks" "entry no_free_blocks k = (INVALID_EC, INVALID_BLOCK)"
  by (simp_all add: free_sorted_def free_blocks_def entry_def comp_def no_free_blocks_def sorted_iff_nth_mono)

theorem free_put_inserts_witness: "hd (free_blocks (free_put 9 3 no_free_blocks)) = (3, 9)"
proof -
  have "fst e = INVALID_EC" if "e \<in> set (butlast (free_blocks no_free_blocks))" for e
    using in_set_butlastD [OF that] by (auto simp: free_blocks_def no_free_blocks_ok(2))
  moreover have "\<not> (INVALID_EC :: u32) \<le> 3" by (auto dest: antisym [OF _ word_n1_ge [of 3]])
  ultimately have "takeWhile (\<lambda>e. fst e \<le> 3) (butlast (free_blocks no_free_blocks)) = []"
    by (cases "butlast (free_blocks no_free_blocks)") auto
  then show ?thesis using free_put_inserts [OF no_free_blocks_ok(1), of 9 3] by simp
qed

theorem free_list_stays_sorted_witness:
  "free_sorted (index_table (INDEX_FreeBlock_Put 9 3 ((ubi_start ())\<lparr>index_table := no_free_blocks\<rparr>)))"
  using free_list_stays_sorted [of "(ubi_start ())\<lparr>index_table := no_free_blocks\<rparr>" 9 3] no_free_blocks_ok(1) by simp

end
