(* ===== verification/Ubi_Api.thy ===== *)
theory Ubi_Api
  imports Ubi_Index
begin

text \<open>
  The operations of the UBI layer, core/ubi/ubi_api.c: format, mount, page read and write with bad
  block handling, block erase, and static wear leveling; and their interface (core/inc/ubi.h
  with the page buffers of core/inc/buf.h) as the record \<open>ubi_ops\<close> that the FTL calls.
\<close>

section \<open>Bad block handling\<close>

text \<open>\<open>ubi_find_die_buffer\<close> asserts that a held page of the die exists.\<close>

definition ubi_find_die_buffer :: "u32 \<Rightarrow> 'h ubi_state \<Rightarrow> u32 option" where
  "ubi_find_die_buffer block s =
     (let die_index = drop_bit BLOCK_PER_PLANE_SHIFT block in
      find (\<lambda>i. dh_phy_block (dice_hold s i) \<noteq> INVALID_BLOCK \<and>
                drop_bit BLOCK_PER_PLANE_SHIFT (dh_phy_block (dice_hold s i)) = die_index)
        (upto_u32 0 TOTAL_DIE_COUNT))"

definition copy_page :: "'h mtd_ops \<Rightarrow> u32 \<Rightarrow> u32 \<Rightarrow> u32 \<Rightarrow> STATUS \<times> mem \<times> 'h ubi_state \<Rightarrow>
    (bool \<times> STATUS \<times> mem \<times> 'h ubi_state) option" where
  "copy_page M src dst i = (\<lambda>(ret, spare, s). do {
     (ret, spare, s) \<leftarrow>
       (if ret = STATUS_SUCCESS then do {
          (_, buf, sp, s) \<leftarrow> mtd_read M src i (Some (tmp_data_buffer s)) (Some spare) s;
          let s = s\<lparr>tmp_data_buffer := the buf\<rparr>;
          (ret, s) \<leftarrow> mtd_program M dst i (tmp_data_buffer s) sp s;
          Some (ret, the sp, s) }
        else Some (ret, spare, s));
     (ret, s) \<leftarrow> (if ret = STATUS_SUCCESS then mtd_wait_ready M dst s else Some (ret, s));
     Some (ret \<noteq> STATUS_SUCCESS, ret, spare, s) })"

text \<open>Returns the status, the new block and its erase count.\<close>

definition ubi_reclaim_badblock :: "'h mtd_ops \<Rightarrow> u32 \<Rightarrow> u32 \<Rightarrow> u32 \<Rightarrow> u32 \<Rightarrow> 'h ubi_state \<Rightarrow>
    (STATUS \<times> u32 \<times> u32 \<times> 'h ubi_state) option" where
  "ubi_reclaim_badblock M log_block phy_block phy_block_ec bad_page s = do {
     (ret, new_block, new_ec, s) \<leftarrow> INDEX_FreeBlock_Get M phy_block (uninit s 0) s;
     (ret, s) \<leftarrow> (if ret = STATUS_SUCCESS then do {
          (ret, _, s) \<leftarrow> for_break (upto_u32 0 bad_page) (copy_page M phy_block new_block) (ret, uninit s, s);
          Some (ret, s) }
        else Some (ret, s));
     (ret, s) \<leftarrow> (if ret = STATUS_SUCCESS then do {
          let s = INDEX_FreeBlock_Put phy_block (phy_block_ec + STATIC_WL_THRESHOLD) s;
          s \<leftarrow> INDEX_Update_AreaUpdate log_block new_block new_ec s;
          INDEX_Update_Commit M s }
        else Some (ret, s));
     Some (if ret = STATUS_SUCCESS then (ret, new_block, new_ec, s)
           else (ret, INVALID_BLOCK, INVALID_EC, s)) }"

section \<open>Writing\<close>

definition hold_update :: "u32 \<Rightarrow> (DIE_HOLD_PAGE \<Rightarrow> DIE_HOLD_PAGE) \<Rightarrow> 'h ubi_state \<Rightarrow> 'h ubi_state" where
  "hold_update die f s = s\<lparr>dice_hold := (dice_hold s)(die := f (dice_hold s die))\<rparr>"

text \<open>The first loop of \<open>UBI_Write\<close>: the page written before failed, its block is replaced.\<close>

partial_function (option) ubi_hold_loop :: "'h mtd_ops \<Rightarrow> u32 \<Rightarrow> STATUS \<Rightarrow> u32 \<Rightarrow> 'h ubi_state \<Rightarrow>
    (STATUS \<times> u32 \<times> 'h ubi_state) option" where
  "ubi_hold_loop M phy_block ret die_index s =
     (if ret = STATUS_BADBLOCK then do {
        die_index \<leftarrow> ubi_find_die_buffer phy_block s;
        let d = dice_hold s die_index;
        ASSERT (dh_phy_block d \<noteq> INVALID_BLOCK);
        (ret, new_phy_block, new_ec, s) \<leftarrow>
          ubi_reclaim_badblock M (dh_log_block d) (dh_phy_block d) (dh_ec d) (dh_page d) s;
        (ret, s) \<leftarrow> (if ret = STATUS_SUCCESS \<and> dh_phy_block (dice_hold s die_index) \<noteq> INVALID_BLOCK
           then do {
             let s = hold_update die_index (\<lambda>d. d\<lparr>dh_phy_block := new_phy_block, dh_ec := new_ec\<rparr>) s;
             let d = dice_hold s die_index;
             buffer \<leftarrow> dh_buffer d;
             mtd_program M new_phy_block (dh_page d) (deref (bufs s) buffer) (Some (dh_spare d)) s }
           else Some (ret, s));
        (ret, s) \<leftarrow> (if ret = STATUS_SUCCESS then mtd_wait_ready M new_phy_block s else Some (ret, s));
        ubi_hold_loop M phy_block ret die_index s }
      else Some (ret, die_index, s))"

text \<open>The second loop, for a synchronous write: the page itself failed.\<close>

partial_function (option) ubi_sync_loop :: "'h mtd_ops \<Rightarrow> u32 \<Rightarrow> u32 \<Rightarrow> u32 \<Rightarrow> u32 \<Rightarrow> buf \<Rightarrow> mem option \<Rightarrow> STATUS \<Rightarrow>
    'h ubi_state \<Rightarrow> (STATUS \<times> 'h ubi_state) option" where
  "ubi_sync_loop M block phy_block phy_block_ec page buffer spare ret s =
     (if ret = STATUS_BADBLOCK then do {
        (ret, new_phy_block, new_ec, s) \<leftarrow> ubi_reclaim_badblock M block phy_block phy_block_ec page s;
        (ret, s) \<leftarrow> (if ret = STATUS_SUCCESS
           then mtd_program M new_phy_block page (deref (bufs s) buffer) spare s else Some (ret, s));
        (ret, s) \<leftarrow> (if ret = STATUS_SUCCESS then mtd_wait_ready M new_phy_block s else Some (ret, s));
        ubi_sync_loop M block phy_block phy_block_ec page buffer spare ret s }
      else Some (ret, s))"

definition release_buffer :: "buf \<Rightarrow> 'h ubi_state \<Rightarrow> 'h ubi_state option" where
  "release_buffer p s = do { b \<leftarrow> BUF_Free p (bufs s); Some (s\<lparr>bufs := b\<rparr>) }"

definition release_held :: "u32 \<Rightarrow> 'h ubi_state \<Rightarrow> 'h ubi_state option" where
  "release_held die_index s = do {
     let d = dice_hold s die_index;
     if dh_phy_block d \<noteq> INVALID_BLOCK then do {
       ASSERT (dh_buffer d \<noteq> None);
       s \<leftarrow> release_buffer (the (dh_buffer d)) s;
       Some (hold_update die_index (\<lambda>d. d\<lparr>dh_buffer := None, dh_phy_block := INVALID_BLOCK\<rparr>) s) }
     else Some s }"

definition UBI_Write :: "'h mtd_ops \<Rightarrow> u32 \<Rightarrow> u32 \<Rightarrow> buf option \<Rightarrow> mem option \<Rightarrow> bool \<Rightarrow> 'h ubi_state \<Rightarrow>
    (STATUS \<times> 'h ubi_state) option" where
  "UBI_Write M block page buffer spare async s = do {
     (phy_block, s) \<leftarrow> AREA_GetBlock M block s;
     (phy_block_ec, s) \<leftarrow> AREA_GetEC M block s;
     ASSERT (phy_block \<noteq> INVALID_BLOCK);
     (ret, s) \<leftarrow> mtd_wait_ready M phy_block s;
     (ret, die_index, s) \<leftarrow> ubi_hold_loop M phy_block ret 0 s;
     s \<leftarrow> (if ret = STATUS_SUCCESS then release_held die_index s else Some s);
     if ret = STATUS_SUCCESS \<and> page \<noteq> INVALID_PAGE then do {
       b \<leftarrow> buffer;
       (ret, s) \<leftarrow> mtd_program M phy_block page (deref (bufs s) b) spare s;
       if ret = STATUS_SUCCESS then
         if \<not> async then do {
           (ret, s) \<leftarrow> mtd_wait_ready M phy_block s;
           (ret, s) \<leftarrow> ubi_sync_loop M block phy_block phy_block_ec page b spare ret s;
           ASSERT (ret = STATUS_SUCCESS);
           s \<leftarrow> release_buffer b s;
           Some (ret, s) }
         else do {
           sp \<leftarrow> spare;
           Some (ret, hold_update die_index (\<lambda>d. d\<lparr>dh_log_block := block, dh_phy_block := phy_block,
             dh_ec := phy_block_ec, dh_page := page, dh_buffer := Some b,
             dh_spare := (dh_spare d)(0 := sp 0, 1 := sp 1)\<rparr>) s) }
       else Some (ret, s) }
     else Some (ret, s) }"

definition UBI_Flush :: "'h mtd_ops \<Rightarrow> 'h ubi_state \<Rightarrow> (STATUS \<times> 'h ubi_state) option" where
  "UBI_Flush M s = for_each (upto_u32 0 TOTAL_DIE_COUNT)
     (\<lambda>i (ret, s). if ret = STATUS_SUCCESS
        then UBI_Write M (dh_log_block (dice_hold s i)) INVALID_PAGE None None True s
        else Some (ret, s)) (STATUS_SUCCESS, s)"

section \<open>Reading\<close>

definition UBI_Read :: "'h mtd_ops \<Rightarrow> u32 \<Rightarrow> u32 \<Rightarrow> mem option \<Rightarrow> mem option \<Rightarrow> 'h ubi_state \<Rightarrow>
    (STATUS \<times> mem option \<times> mem option \<times> 'h ubi_state) option" where
  "UBI_Read M block page buffer spare s =
     (if block \<noteq> INVALID_BLOCK \<and> page \<noteq> INVALID_PAGE then do {
        (phy_block, s) \<leftarrow> AREA_GetBlock M block s;
        ASSERT (phy_block \<noteq> INVALID_BLOCK);
        mtd_read M phy_block page buffer spare s }
      else do {
        ASSERT (block = INVALID_BLOCK \<and> page = INVALID_PAGE);
        Some (STATUS_SUCCESS, map_option (memset_words MPP_WORDS 0) buffer, spare, s) })"

definition UBI_ReadStatus :: "'h mtd_ops \<Rightarrow> u32 \<Rightarrow> 'h ubi_state \<Rightarrow> (STATUS \<times> 'h ubi_state) option" where
  "UBI_ReadStatus M block s = do {
     (phy_block, s) \<leftarrow> AREA_GetBlock M block s;
     ASSERT (phy_block \<noteq> INVALID_BLOCK);
     mtd_read_status M phy_block s }"

section \<open>Erasing and wear leveling\<close>

definition UBI_Erase :: "'h mtd_ops \<Rightarrow> u32 \<Rightarrow> u32 \<Rightarrow> 'h ubi_state \<Rightarrow> (STATUS \<times> 'h ubi_state) option" where
  "UBI_Erase M block die_index s = do {
     let die = die_index mod TOTAL_DIE_COUNT;
     (ret, s) \<leftarrow> UBI_Write M (dh_log_block (dice_hold s die)) INVALID_PAGE None None True s;
     (ret, phy_block, ec, s) \<leftarrow> (if ret = STATUS_SUCCESS
        then INDEX_FreeBlock_Get M (die_index mod TOTAL_DIE_COUNT) INVALID_EC s
        else Some (ret, INVALID_BLOCK, INVALID_EC, s));
     if ret = STATUS_SUCCESS then do {
       ASSERT (block \<noteq> INVALID_BLOCK \<and> ec \<noteq> INVALID_EC);
       (old_block, s) \<leftarrow> AREA_GetBlock M block s;
       (old_ec, s) \<leftarrow> AREA_GetEC M block s;
       let s = INDEX_FreeBlock_Put old_block old_ec s;
       s \<leftarrow> INDEX_Update_AreaUpdate block phy_block ec s;
       INDEX_Update_Commit M s }
     else Some (ret, s) }"

definition UBI_SWL :: "'h mtd_ops \<Rightarrow> 'h ubi_state \<Rightarrow> (STATUS \<times> 'h ubi_state) option" where
  "UBI_SWL M s = do {
     let area = swl_current_area (anchor_table s);
     (min_block_offset, min_physical_block, min_block_ec, s) \<leftarrow>
        AREA_FindMinECBlock M area (uninit s 0) (uninit s 1) s;
     let (max_physical_block, max_block_ec) = INDEX_FreeBlock_GetMaxECBlock (uninit s 2) (uninit s 3) s;
     if max_physical_block \<noteq> min_physical_block \<and> max_physical_block \<noteq> INVALID_BLOCK \<and>
        min_physical_block \<noteq> INVALID_BLOCK \<and> max_block_ec \<noteq> INVALID_EC \<and> min_block_ec \<noteq> INVALID_EC \<and>
        min_block_ec < max_block_ec \<and> STATIC_WL_THRESHOLD < max_block_ec - min_block_ec
     then do {
       (ret, s) \<leftarrow> mtd_erase M max_physical_block s;
       (ret, _, s) \<leftarrow> for_break (upto_u32 0 PAGE_PER_PHY_BLOCK)
          (copy_page M min_physical_block max_physical_block) (ret, uninit s, s);
       if ret = STATUS_SUCCESS then do {
         let logical_block = area * CFG_PHY_BLOCK_PER_AREA + min_block_offset;
         s \<leftarrow> INDEX_Update_AreaUpdate logical_block max_physical_block max_block_ec s;
         let s = INDEX_FreeBlock_SwapMaxECBlock min_physical_block min_block_ec s;
         INDEX_Update_Commit M s }
       else Some (ret, s) }
     else Some (STATUS_SUCCESS,
       s\<lparr>anchor_table := (anchor_table s)\<lparr>swl_current_area := (area + 1) mod AREA_COUNT\<rparr>\<rparr>) }"

section \<open>Format and mount\<close>

definition format_check_block :: "'h mtd_ops \<Rightarrow> u32 \<Rightarrow> STATUS \<times> 'h ubi_state \<Rightarrow> (STATUS \<times> 'h ubi_state) option" where
  "format_check_block M block = (\<lambda>(ret, s). do {
     (ret, s) \<leftarrow> mtd_check_block M block s;
     (ret, s) \<leftarrow> (if ret = STATUS_SUCCESS then mtd_erase M block s else Some (ret, s));
     Some (ret, if ret \<noteq> STATUS_SUCCESS then ANCHOR_LogBadBlock block s else s) })"

partial_function (option) format_areas_loop :: "'h mtd_ops \<Rightarrow> u32 \<Rightarrow> u32 \<Rightarrow> u32 \<Rightarrow> 'h ubi_state \<Rightarrow>
    (u32 \<times> u32 \<times> 'h ubi_state) option" where
  "format_areas_loop M area fmt total_blocks s = do {
     ASSERT (fmt < DATA_BLOCK_COUNT);
     let remaining_count = DATA_BLOCK_COUNT - fmt;
     let block_count = min remaining_count CFG_PHY_BLOCK_PER_AREA;
     (fmt, s) \<leftarrow> AREA_Format M block_count fmt area s;
     if fmt \<noteq> INVALID_BLOCK then
       if fmt < DATA_BLOCK_COUNT then format_areas_loop M (area + 1) fmt (total_blocks + block_count) s
       else Some (fmt, total_blocks + block_count, s)
     else Some (fmt, total_blocks, s) }"

definition UBI_Format :: "'h mtd_ops \<Rightarrow> 'h ubi_state \<Rightarrow> (STATUS \<times> 'h ubi_state) option" where
  "UBI_Format M s = do {
     (ret, s) \<leftarrow> ANCHOR_Init M s;
     (ret, s) \<leftarrow> (if ret \<noteq> STATUS_SUCCESS
        then for_each (upto_u32 0 CFG_LOG_BLOCK_COUNT) (format_check_block M) (ret, s)
        else Some (ret, s));
     (fmt, total_blocks, s) \<leftarrow> format_areas_loop M 0 DATA_FIRST_BLOCK 0 s;
     (fmt, s) \<leftarrow> (if fmt \<noteq> INVALID_BLOCK then INDEX_Format M CFG_LOG_BLOCK_COUNT fmt s else Some (fmt, s));
     if fmt \<noteq> INVALID_BLOCK then do {
       ASSERT (fmt = CFG_LOG_BLOCK_COUNT);
       ANCHOR_Format M total_blocks s }
     else do {
       (_, s) \<leftarrow> ANCHOR_Format M INVALID_BLOCK s;
       Some (STATUS_UBI_FORMAT_ERROR, s) } }"

definition mount_area :: "'h mtd_ops \<Rightarrow> AREA_UPDATE_PLR \<Rightarrow> u32 \<Rightarrow> u32 \<Rightarrow> STATUS \<times> 'h ubi_state \<Rightarrow>
    (bool \<times> STATUS \<times> 'h ubi_state) option" where
  "mount_area M plr updating_area area = (\<lambda>(ret, s). do {
     (ret, s) \<leftarrow> AREA_Init M area s;
     if ret = STATUS_SUCCESS then
       if area = updating_area then do {
         let (need, s) = AREA_CheckUpdatePLR (area_updating_logical_block plr)
               (area_updating_physical_block plr) (area_updating_block_ec plr) s;
         if need then do {
           s \<leftarrow> INDEX_Update_AreaUpdate (area_updating_logical_block plr)
                (area_updating_physical_block plr) (area_updating_block_ec plr) s;
           (ret, s) \<leftarrow> INDEX_Update_Commit M s;
           Some (False, ret, s) }
         else Some (False, ret, s) }
       else Some (False, ret, s)
     else Some (True, ret, s) })"

definition UBI_Init :: "'h mtd_ops \<Rightarrow> 'h ubi_state \<Rightarrow> (STATUS \<times> 'h ubi_state) option" where
  "UBI_Init M s = do {
     (ret, s) \<leftarrow> ANCHOR_Init M s;
     (ret, plr, s) \<leftarrow> (if ret = STATUS_SUCCESS then INDEX_Init M s
        else Some (ret, \<lparr>area_updating_logical_block = INVALID_BLOCK,
               area_updating_physical_block = INVALID_BLOCK, area_updating_block_ec = INVALID_EC\<rparr>, s));
     (ret, s) \<leftarrow> (if ret = STATUS_SUCCESS then do {
          let updating_area = (if area_updating_logical_block plr \<noteq> INVALID_BLOCK
             then AREA_INDEX (area_updating_logical_block plr) else INVALID_AREA);
          for_break (upto_u32 0 AREA_COUNT) (mount_area M plr updating_area) (ret, s) }
        else Some (ret, s));
     Some (ret, if ret = STATUS_SUCCESS
        then fold (\<lambda>die. hold_update die (\<lambda>d. d\<lparr>dh_phy_block := INVALID_BLOCK\<rparr>)) (upto_u32 0 TOTAL_DIE_COUNT) s
        else s) }"

section \<open>The interface of the layer\<close>

definition UBI_Capacity :: "'h ubi_state \<Rightarrow> u32" where
  "UBI_Capacity s = total_data_block (anchor_table s)"

record 'u ubi_ops =
  u_Format :: "'u \<Rightarrow> (STATUS \<times> 'u) option"
  u_Init :: "'u \<Rightarrow> (STATUS \<times> 'u) option"
  u_Read :: "u32 \<Rightarrow> u32 \<Rightarrow> mem option \<Rightarrow> mem option \<Rightarrow> 'u \<Rightarrow> (STATUS \<times> mem option \<times> mem option \<times> 'u) option"
  u_Write :: "u32 \<Rightarrow> u32 \<Rightarrow> buf option \<Rightarrow> mem option \<Rightarrow> bool \<Rightarrow> 'u \<Rightarrow> (STATUS \<times> 'u) option"
  u_Erase :: "u32 \<Rightarrow> u32 \<Rightarrow> 'u \<Rightarrow> (STATUS \<times> 'u) option"
  u_Flush :: "'u \<Rightarrow> (STATUS \<times> 'u) option"
  u_SWL :: "'u \<Rightarrow> (STATUS \<times> 'u) option"
  u_ReadStatus :: "u32 \<Rightarrow> 'u \<Rightarrow> (STATUS \<times> 'u) option"
  u_Capacity :: "'u \<Rightarrow> u32"
  u_bufs :: "'u \<Rightarrow> buf_state"
  u_set_bufs :: "buf_state \<Rightarrow> 'u \<Rightarrow> 'u"

definition ubi_over :: "'h mtd_ops \<Rightarrow> 'h ubi_state ubi_ops" where
  "ubi_over M = \<lparr>u_Format = UBI_Format M, u_Init = UBI_Init M, u_Read = UBI_Read M,
     u_Write = UBI_Write M, u_Erase = UBI_Erase M, u_Flush = UBI_Flush M,
     u_SWL = UBI_SWL M, u_ReadStatus = UBI_ReadStatus M, u_Capacity = UBI_Capacity, u_bufs = bufs, u_set_bufs = (\<lambda>b s. s\<lparr>bufs := b\<rparr>)\<rparr>"

end
