(* ===== verification/Pm_Node.thy ===== *)
theory Pm_Node
  imports Prelude
begin

text \<open>
  The page-mapping words of core/ftl/ftl_inc.h. A \<open>PM_NODE_ADDR\<close> is one 32-bit word: with bit 0
  set it is a flash address (block and page packed above two flag bits), with bit 0 clear it is the
  RAM address of a cached mapping page, bit 1 telling whether that copy is dirty. The lemmas give
  the round trip of the packing, its exact range, and what happens one past it.
\<close>

type_synonym PM_NODE_ADDR = u32
type_synonym JOURNAL_ADDR = u32

definition PM_NODE_IS_CACHED :: "PM_NODE_ADDR \<Rightarrow> bool" where
  "PM_NODE_IS_CACHED p = (p AND 0x1 = 0)"

definition PM_NODE_IS_DIRTY :: "PM_NODE_ADDR \<Rightarrow> bool" where
  "PM_NODE_IS_DIRTY p = (p AND 0x2 \<noteq> 0)"

definition PM_NODE_ADDRESS :: "PM_NODE_ADDR \<Rightarrow> u32" where
  "PM_NODE_ADDRESS p = p AND NOT 0x3"

definition PM_NODE_BLOCK :: "PM_NODE_ADDR \<Rightarrow> u32" where
  "PM_NODE_BLOCK p = drop_bit PAGE_PER_BLOCK_SHIFT (drop_bit 2 p)"

definition PM_NODE_PAGE :: "PM_NODE_ADDR \<Rightarrow> u32" where
  "PM_NODE_PAGE p = drop_bit 2 p AND (push_bit PAGE_PER_BLOCK_SHIFT 1 - 1)"

definition PM_NODE_SET_DIRTY :: "PM_NODE_ADDR \<Rightarrow> PM_NODE_ADDR" where
  "PM_NODE_SET_DIRTY p = p OR 0x2"

definition PM_NODE_SET_BLOCKPAGE :: "u32 \<Rightarrow> u32 \<Rightarrow> PM_NODE_ADDR" where
  "PM_NODE_SET_BLOCKPAGE blk page = push_bit 2 (push_bit PAGE_PER_BLOCK_SHIFT blk + page) + 1"

definition INVALID_PM_NODE :: PM_NODE_ADDR where "INVALID_PM_NODE = - 1"

definition JOURNAL_BLOCK_COUNT :: u32 where "JOURNAL_BLOCK_COUNT = TOTAL_DIE_COUNT"
definition PM_PER_NODE :: u32 where "PM_PER_NODE = MPP_SIZE div 4"
definition CLUSTER_INDEX :: "u32 \<Rightarrow> u32" where "CLUSTER_INDEX pa = pa div PM_PER_NODE"
definition PAGE_IN_CLUSTER :: "u32 \<Rightarrow> u32" where "PAGE_IN_CLUSTER pa = pa mod PM_PER_NODE"

definition BDT_BLOCK0 :: u32 where "BDT_BLOCK0 = 0"
definition BDT_BLOCK1 :: u32 where "BDT_BLOCK1 = 1"
definition ROOT_BLOCK0 :: u32 where "ROOT_BLOCK0 = 2"
definition ROOT_BLOCK1 :: u32 where "ROOT_BLOCK1 = 3"
definition HDI_BLOCK0 :: u32 where "HDI_BLOCK0 = 4"
definition HDI_BLOCK1 :: u32 where "HDI_BLOCK1 = 5"
definition PMT_START_BLOCK :: u32 where "PMT_START_BLOCK = 6"
definition PMT_BLOCK_COUNT :: u32 where
  "PMT_BLOCK_COUNT = ((CFG_LOG_BLOCK_COUNT + PM_PER_NODE - 1) div PM_PER_NODE) * 5"
definition DATA_START_BLOCK :: u32 where "DATA_START_BLOCK = PMT_START_BLOCK + PMT_BLOCK_COUNT"
definition MAX_DIRTY_PAGES :: u32 where "MAX_DIRTY_PAGES = PAGE_PER_PHY_BLOCK - 1"
definition MAX_PM_CLUSTERS :: u32 where
  "MAX_PM_CLUSTERS = MPP_SIZE div 4 - (JOURNAL_BLOCK_COUNT * 3 + 7)"

lemma ftl_const_values [simp, cfg_defs]:
  "JOURNAL_BLOCK_COUNT = 1" "PM_PER_NODE = 1024" "BDT_BLOCK0 = 0" "BDT_BLOCK1 = 1"
  "ROOT_BLOCK0 = 2" "ROOT_BLOCK1 = 3" "HDI_BLOCK0 = 4" "HDI_BLOCK1 = 5" "PMT_START_BLOCK = 6"
  "PMT_BLOCK_COUNT = 10" "DATA_START_BLOCK = 16" "MAX_DIRTY_PAGES = 63" "MAX_PM_CLUSTERS = 1014"
  by (simp_all add: JOURNAL_BLOCK_COUNT_def PM_PER_NODE_def BDT_BLOCK0_def BDT_BLOCK1_def
      ROOT_BLOCK0_def ROOT_BLOCK1_def HDI_BLOCK0_def HDI_BLOCK1_def PMT_START_BLOCK_def
      PMT_BLOCK_COUNT_def DATA_START_BLOCK_def MAX_DIRTY_PAGES_def MAX_PM_CLUSTERS_def)

lemma INVALID_PM_NODE_value [simp]: "INVALID_PM_NODE = - 1"
  by (simp add: INVALID_PM_NODE_def)

section \<open>Packing and unpacking\<close>

lemma unat_SET_BLOCKPAGE:
  assumes "b < 0x1000000" and "p < 64"
  shows "unat (PM_NODE_SET_BLOCKPAGE b p) = (unat b * 64 + unat p) * 4 + 1"
proof -
  have b: "unat b < 16777216" and p: "unat p < 64"
    using assms by (simp_all add: word_less_nat_alt)
  have 1: "unat (push_bit 6 b) = unat b * 64"
    using b by (simp add: push_bit_eq_mult unat_word_ariths)
  have 2: "unat (push_bit 6 b + p) = unat b * 64 + unat p"
    using b p 1 by (simp add: unat_word_ariths)
  have "unat (push_bit 2 (push_bit 6 b + p)) = unat (push_bit 6 b + p) * 4 mod 4294967296"
    by (simp only: push_bit_eq_mult [of 2] unat_word_ariths) simp
  then have 3: "unat (push_bit 2 (push_bit 6 b + p)) = (unat b * 64 + unat p) * 4"
    using b p by (simp only: 2) simp
  have "unat (push_bit 2 (push_bit 6 b + p) + 1) =
      (unat (push_bit 2 (push_bit 6 b + p)) + 1) mod 4294967296"
    by (simp only: unat_word_ariths) simp
  then show ?thesis
    using b p by (simp only: 3 PM_NODE_SET_BLOCKPAGE_def shift_values) simp
qed

lemma unat_PM_NODE_BLOCK: "unat (PM_NODE_BLOCK w) = unat w div 256"
  by (simp add: PM_NODE_BLOCK_def drop_bit_eq_div unat_div flip: div_mult2_eq)

lemma unat_PM_NODE_PAGE: "unat (PM_NODE_PAGE w) = unat w div 4 mod 64"
proof -
  have "PM_NODE_PAGE w = take_bit 6 (drop_bit 2 w)"
    by (simp add: PM_NODE_PAGE_def take_bit_eq_mask mask_eq_exp_minus_1)
  then show ?thesis
    by (simp add: take_bit_eq_mod drop_bit_eq_div unat_div unat_mod)
qed

lemma PM_NODE_PAGE_less [simp]: "PM_NODE_PAGE w < 64"
  by (simp add: word_less_nat_alt unat_PM_NODE_PAGE)

lemma PM_NODE_BLOCK_less: "PM_NODE_BLOCK w < 0x1000000"
  using unat_u32_less [of w] by (simp add: word_less_nat_alt unat_PM_NODE_BLOCK)

lemma PM_NODE_BLOCK_SET [simp]:
  assumes "b < 0x1000000" and "p < 64"
  shows "PM_NODE_BLOCK (PM_NODE_SET_BLOCKPAGE b p) = b"
proof -
  have "unat p < 64" using assms by (simp add: word_less_nat_alt)
  then show ?thesis
    using assms by (simp add: word_unat_eq_iff unat_PM_NODE_BLOCK unat_SET_BLOCKPAGE)
qed

lemma PM_NODE_PAGE_SET [simp]:
  assumes "b < 0x1000000" and "p < 64"
  shows "PM_NODE_PAGE (PM_NODE_SET_BLOCKPAGE b p) = p"
proof -
  have p: "unat p < 64" using assms by (simp add: word_less_nat_alt)
  have "((unat b * 64 + unat p) * 4 + 1) div 4 = unat b * 64 + unat p"
    by (rule div_nat_eqI) simp_all
  then show ?thesis
    using p by (simp only: word_unat_eq_iff unat_PM_NODE_PAGE unat_SET_BLOCKPAGE [OF assms]) simp
qed

lemma bit_SET_BLOCKPAGE_low:
  "bit (PM_NODE_SET_BLOCKPAGE b p) 0" "\<not> bit (PM_NODE_SET_BLOCKPAGE b p) 1"
proof -
  define x where "x = push_bit 6 b + p"
  have "push_bit 2 x AND 1 = 0" by (rule bit_word_eqI) (auto simp: bit_simps)
  then have "PM_NODE_SET_BLOCKPAGE b p = push_bit 2 x OR 1"
    by (simp add: PM_NODE_SET_BLOCKPAGE_def x_def disjunctive_add_eq_or)
  then show "bit (PM_NODE_SET_BLOCKPAGE b p) 0" "\<not> bit (PM_NODE_SET_BLOCKPAGE b p) 1"
    by (simp_all add: bit_simps)
qed

lemma IS_CACHED_bit: "PM_NODE_IS_CACHED p \<longleftrightarrow> \<not> bit p 0"
proof -
  have "p AND 1 = of_bool (bit p 0)" by (simp add: and_one_eq bit_0 odd_iff_mod_2_eq_one)
  then show ?thesis by (simp add: PM_NODE_IS_CACHED_def)
qed

lemma IS_DIRTY_bit: "PM_NODE_IS_DIRTY p \<longleftrightarrow> bit p 1"
proof -
  have "p AND 2 = push_bit 1 (of_bool (bit p 1))"
    by (rule bit_word_eqI) (auto simp: bit_simps numeral_eq_Suc)
  then show ?thesis by (simp add: PM_NODE_IS_DIRTY_def)
qed

lemma SET_BLOCKPAGE_flags [simp]:
  "\<not> PM_NODE_IS_CACHED (PM_NODE_SET_BLOCKPAGE b p)"
  "\<not> PM_NODE_IS_DIRTY (PM_NODE_SET_BLOCKPAGE b p)"
  "PM_NODE_SET_BLOCKPAGE b p \<noteq> - 1"
  using bit_SET_BLOCKPAGE_low [of b p] by (auto simp: IS_CACHED_bit IS_DIRTY_bit)

lemma INVALID_PM_NODE_flags [simp]: "\<not> PM_NODE_IS_CACHED (- 1)" "PM_NODE_IS_DIRTY (- 1)"
  by (simp_all add: IS_CACHED_bit IS_DIRTY_bit)

lemma SET_DIRTY_flags [simp]:
  "PM_NODE_IS_CACHED (PM_NODE_SET_DIRTY p) = PM_NODE_IS_CACHED p"
  "PM_NODE_IS_DIRTY (PM_NODE_SET_DIRTY p)"
  "PM_NODE_ADDRESS (PM_NODE_SET_DIRTY p) = PM_NODE_ADDRESS p"
proof -
  have 2: "bit (2 :: u32) n \<longleftrightarrow> n = 1" for n
    using bit_exp_iff [where 'a = "32 word", of 1 n] by auto
  have m3: "(3 :: u32) = mask 2" by (simp add: mask_eq_exp_minus_1)
  show "PM_NODE_IS_CACHED (PM_NODE_SET_DIRTY p) = PM_NODE_IS_CACHED p"
    by (simp add: IS_CACHED_bit PM_NODE_SET_DIRTY_def bit_or_iff 2)
  show "PM_NODE_IS_DIRTY (PM_NODE_SET_DIRTY p)"
    by (simp add: IS_DIRTY_bit PM_NODE_SET_DIRTY_def bit_or_iff 2)
  show "PM_NODE_ADDRESS (PM_NODE_SET_DIRTY p) = PM_NODE_ADDRESS p"
    unfolding PM_NODE_ADDRESS_def PM_NODE_SET_DIRTY_def m3
    by (rule bit_word_eqI) (auto simp only: bit_and_iff bit_or_iff bit_not_iff bit_mask_iff 2)
qed

text \<open>One page past the block: the page field has no room for 64 and carries into the block.\<close>

lemma SET_BLOCKPAGE_carry: "PM_NODE_SET_BLOCKPAGE b 64 = PM_NODE_SET_BLOCKPAGE (b + 1) 0"
  by (simp add: PM_NODE_SET_BLOCKPAGE_def push_bit_eq_mult algebra_simps)

lemma SET_BLOCKPAGE_eq_iff:
  assumes "b < 0x1000000" "p < 64" "b' < 0x1000000" "p' < 64"
  shows "PM_NODE_SET_BLOCKPAGE b p = PM_NODE_SET_BLOCKPAGE b' p' \<longleftrightarrow> b = b' \<and> p = p'"
  using assms by (metis PM_NODE_BLOCK_SET PM_NODE_PAGE_SET)

section \<open>Flash words\<close>

text \<open>Splitting a mapping word into block and page and packing them again gives the word back exactly
  for flash addresses: words whose cached bit and dirty bit both say "in flash".\<close>

theorem PM_NODE_roundtrip:
  "PM_NODE_SET_BLOCKPAGE (PM_NODE_BLOCK w) (PM_NODE_PAGE w) = w \<longleftrightarrow>
     \<not> PM_NODE_IS_CACHED w \<and> \<not> PM_NODE_IS_DIRTY w"
proof -
  define n where "n = unat w"
  have n: "n < 4294967296" by (simp add: n_def unat_u32_less)
  have b: "PM_NODE_BLOCK w < 0x1000000" by (rule PM_NODE_BLOCK_less)
  have "unat (PM_NODE_SET_BLOCKPAGE (PM_NODE_BLOCK w) (PM_NODE_PAGE w)) = (n div 256 * 64 + n div 4 mod 64) * 4 + 1"
    by (simp add: unat_SET_BLOCKPAGE [OF b PM_NODE_PAGE_less] unat_PM_NODE_BLOCK unat_PM_NODE_PAGE n_def)
  moreover have "n div 256 * 64 + n div 4 mod 64 = n div 4"
  proof -
    have "n div 256 = n div 4 div 64" by (simp flip: div_mult2_eq)
    then show ?thesis by simp
  qed
  ultimately have 1: "unat (PM_NODE_SET_BLOCKPAGE (PM_NODE_BLOCK w) (PM_NODE_PAGE w)) = n div 4 * 4 + 1"
    by simp
  have "bit w k \<longleftrightarrow> odd (n div 2 ^ k)" for k
    using bit_unsigned_iff [where 'a = nat, of w k] by (simp add: n_def flip: bit_iff_odd)
  from this [of 0] this [of 1] have "bit w 0 \<longleftrightarrow> odd n" "bit w 1 \<longleftrightarrow> odd (n div 2)" by simp_all
  with 1 show ?thesis
    by (simp add: IS_CACHED_bit IS_DIRTY_bit word_unat_eq_iff 1 flip: n_def) presburger
qed

end
