(* ===== verification/Ftl_State.thy ===== *)
theory Ftl_State
  imports Ubi_Api Pm_Node
begin

text \<open>
  The state of the FTL (core/ftl): the root table of ftl_inc.h with its layout in a page, the
  static variables of the layer's files as one record over any provider of the UBI interface,
  and the tables that are written whole: root (ftl_root.c), block dirty table (ftl_bdt.c) and hot data
  identification (ftl_hdi.c), each in a pair of blocks used in turn.
\<close>

section \<open>State\<close>

record ROOT =
  hot_journal :: "u32 \<Rightarrow> JOURNAL_ADDR"
  cold_journal :: "u32 \<Rightarrow> JOURNAL_ADDR"
  reclaim_journal :: "u32 \<Rightarrow> JOURNAL_ADDR"
  pmt_current_block :: JOURNAL_ADDR
  pmt_reclaim_block :: JOURNAL_ADDR
  hdi_current_journal :: JOURNAL_ADDR
  bdt_current_journal :: JOURNAL_ADDR
  root_current_journal :: JOURNAL_ADDR
  root_edition :: u32
  backup_block_count :: u32
  page_mapping_nodes :: "u32 \<Rightarrow> PM_NODE_ADDR"

definition root_words :: "ROOT \<Rightarrow> mem" where
  "root_words t n =
     (if n = 0 then hot_journal t 0 else if n = 1 then cold_journal t 0
      else if n = 2 then reclaim_journal t 0 else if n = 3 then pmt_current_block t
      else if n = 4 then pmt_reclaim_block t else if n = 5 then hdi_current_journal t
      else if n = 6 then bdt_current_journal t else if n = 7 then root_current_journal t
      else if n = 8 then root_edition t else if n = 9 then backup_block_count t
      else page_mapping_nodes t (of_nat (n - 10)))"

definition root_load :: "mem \<Rightarrow> ROOT \<Rightarrow> ROOT" where
  "root_load m t = \<lparr>hot_journal = (hot_journal t)(0 := m 0), cold_journal = (cold_journal t)(0 := m 1),
     reclaim_journal = (reclaim_journal t)(0 := m 2), pmt_current_block = m 3, pmt_reclaim_block = m 4,
     hdi_current_journal = m 5, bdt_current_journal = m 6, root_current_journal = m 7, root_edition = m 8,
     backup_block_count = m 9, page_mapping_nodes = load_array 10 1014 m (page_mapping_nodes t)\<rparr>"

text \<open>Byte arrays of one page.\<close>

definition byte_words :: "(u32 \<Rightarrow> u8) \<Rightarrow> mem" where
  "byte_words t = words_of (\<lambda>k. t (of_nat k))"

definition byte_load :: "mem \<Rightarrow> (u32 \<Rightarrow> u8) \<Rightarrow> u32 \<Rightarrow> u8" where
  "byte_load m t i = (if i < MPP_SIZE then bytes_of m (unat i) else t i)"

text \<open>
  \<open>pm_node_caches\<close> holds the cached mapping pages, one per slot; a slot's RAM address, which the
  root table stores in place of a flash address, is \<open>pm_cache_base\<close> (where the linker put the array)
  plus its offset. A journal's meta data is an array of spares indexed by page.
\<close>

record 'u ftl_state =
  ubi :: 'u
  f_uninit :: mem
  root_table :: ROOT
  root_current_block :: u32
  root_current_page :: u32
  root_edition_static :: u32
  bdt_current_block :: u32
  bdt_current_page :: u32
  block_dirty_table :: "u32 \<Rightarrow> u8"
  hdi_hash_table :: "u32 \<Rightarrow> u8"
  hdi_current_page :: u32
  hdi_current_block :: u32
  hdi_count :: u32
  pm_cache_base :: u32
  pm_node_caches :: "u32 \<Rightarrow> mem"
  pm_cache_origin_location :: "u32 \<Rightarrow> PM_NODE_ADDR"
  pm_cache_cluster :: "u32 \<Rightarrow> u32"
  meta_data :: "u32 \<Rightarrow> u32"
  clusters :: mem
  pm_node_buffer :: mem
  edition_in_hot_journal :: u32
  edition_in_cold_journal :: u32
  hot_meta_data :: "u32 \<Rightarrow> mem"
  cold_meta_data :: "u32 \<Rightarrow> mem"
  pages_buffer :: mem
  data_buffer :: mem
  dirty_blocks :: "u32 \<Rightarrow> u32"
  lastblock :: u32
  lastpage :: u32
  backupmft :: PM_NODE_ADDR
  last_addr :: u32

section \<open>Calls to the UBI layer\<close>

definition ubi_read :: "'u ubi_ops \<Rightarrow> u32 \<Rightarrow> u32 \<Rightarrow> mem option \<Rightarrow> mem option \<Rightarrow> 'u ftl_state \<Rightarrow>
    (STATUS \<times> mem option \<times> mem option \<times> 'u ftl_state) option" where
  "ubi_read U b p buf sp s = do {
     (ret, buf, sp, u) \<leftarrow> u_Read U b p buf sp (ubi s);
     Some (ret, buf, sp, s\<lparr>ubi := u\<rparr>) }"

definition ubi_write :: "'u ubi_ops \<Rightarrow> u32 \<Rightarrow> u32 \<Rightarrow> buf \<Rightarrow> mem option \<Rightarrow> bool \<Rightarrow> 'u ftl_state \<Rightarrow>
    (STATUS \<times> 'u ftl_state) option" where
  "ubi_write U b p buf sp async s = do {
     (ret, u) \<leftarrow> u_Write U b p (Some buf) sp async (ubi s);
     Some (ret, s\<lparr>ubi := u\<rparr>) }"

definition ubi_erase :: "'u ubi_ops \<Rightarrow> u32 \<Rightarrow> u32 \<Rightarrow> 'u ftl_state \<Rightarrow> (STATUS \<times> 'u ftl_state) option" where
  "ubi_erase U b die s = do { (ret, u) \<leftarrow> u_Erase U b die (ubi s); Some (ret, s\<lparr>ubi := u\<rparr>) }"

definition ubi_flush :: "'u ubi_ops \<Rightarrow> 'u ftl_state \<Rightarrow> (STATUS \<times> 'u ftl_state) option" where
  "ubi_flush U s = do { (ret, u) \<leftarrow> u_Flush U (ubi s); Some (ret, s\<lparr>ubi := u\<rparr>) }"

definition ubi_read_status :: "'u ubi_ops \<Rightarrow> u32 \<Rightarrow> 'u ftl_state \<Rightarrow> (STATUS \<times> 'u ftl_state) option" where
  "ubi_read_status U b s = do { (ret, u) \<leftarrow> u_ReadStatus U b (ubi s); Some (ret, s\<lparr>ubi := u\<rparr>) }"

section \<open>The root table\<close>

definition ROOT_Commit :: "'u ubi_ops \<Rightarrow> 'u ftl_state \<Rightarrow> (STATUS \<times> 'u ftl_state) option" where
  "ROOT_Commit U s = do {
     (ret, s) \<leftarrow>
       (if root_current_page s = PAGE_PER_PHY_BLOCK then do {
          let next_block = root_current_block s XOR 1;
          (ret, s) \<leftarrow> ubi_erase U next_block next_block s;
          Some (ret, if ret = STATUS_SUCCESS
                     then s\<lparr>root_current_page := 0, root_current_block := next_block\<rparr> else s) }
        else Some (STATUS_SUCCESS, s));
     (ret, s) \<leftarrow>
       (if ret = STATUS_SUCCESS then do {
          let s = s\<lparr>root_table := (root_table s)
                    \<lparr>root_current_journal := PM_NODE_SET_BLOCKPAGE (root_current_block s) (root_current_page s),
                     root_edition := root_edition_static s\<rparr>,
                   root_edition_static := root_edition_static s + 1\<rparr>;
          let footprint = (f_uninit s)(0 := 0);
          ubi_write U (root_current_block s) (root_current_page s) (OtherMem (root_words (root_table s)))
            (Some footprint) False s }
        else Some (ret, s));
     Some (ret, if ret = STATUS_SUCCESS then s\<lparr>root_current_page := root_current_page s + 1\<rparr> else s) }"

definition ROOT_Format :: "'u ubi_ops \<Rightarrow> 'u ftl_state \<Rightarrow> (STATUS \<times> 'u ftl_state) option" where
  "ROOT_Format U s = do {
     let s = s\<lparr>root_current_block := ROOT_BLOCK0, root_current_page := 0, root_edition_static := 0,
               root_table := (root_table s)\<lparr>backup_block_count := 0\<rparr>\<rparr>;
     (ret, s) \<leftarrow> ubi_erase U (root_current_block s) (root_current_block s) s;
     if ret = STATUS_SUCCESS then ROOT_Commit U s else Some (ret, s) }"

definition read_root :: "'u ubi_ops \<Rightarrow> u32 \<Rightarrow> u32 \<Rightarrow> mem option \<Rightarrow> 'u ftl_state \<Rightarrow>
    (STATUS \<times> mem option \<times> 'u ftl_state) option" where
  "read_root U b p sp s = do {
     (ret, buf, sp, s) \<leftarrow> ubi_read U b p (Some (root_words (root_table s))) sp s;
     Some (ret, sp, s\<lparr>root_table := root_load (the buf) (root_table s)\<rparr>) }"

text \<open>The loop to the last valid page: where it stopped, and the last status.\<close>

fun root_scan :: "'u ubi_ops \<Rightarrow> u32 list \<Rightarrow> STATUS \<Rightarrow> 'u ftl_state \<Rightarrow> (u32 \<times> STATUS \<times> 'u ftl_state) option" where
  "root_scan U [] ret s = Some (PAGE_PER_PHY_BLOCK, ret, s)"
| "root_scan U (i # is) ret s = do {
     (ret, footprint, s) \<leftarrow> read_root U (root_current_block s) i (Some (f_uninit s)) s;
     if ret \<noteq> STATUS_SUCCESS \<or> the footprint 0 = INVALID_INDEX then Some (i, ret, s)
     else root_scan U is ret s }"

definition root_choose_block :: "'u ubi_ops \<Rightarrow> 'u ftl_state \<Rightarrow> (STATUS \<times> 'u ftl_state) option" where
  "root_choose_block U s = do {
     (ret, _, s) \<leftarrow> read_root U ROOT_BLOCK0 0 None s;
     if ret = STATUS_SUCCESS then do {
       let s = s\<lparr>root_edition_static := root_edition (root_table s), root_current_block := ROOT_BLOCK0\<rparr>;
       (ret, _, s) \<leftarrow> read_root U ROOT_BLOCK1 0 None s;
       Some (ret, if ret = STATUS_SUCCESS
         then if root_edition (root_table s) < root_edition_static s
              then s\<lparr>root_current_block := ROOT_BLOCK0\<rparr> else s\<lparr>root_current_block := ROOT_BLOCK1\<rparr>
         else s\<lparr>root_current_block := ROOT_BLOCK0\<rparr>) }
     else Some (ret, s\<lparr>root_current_block := ROOT_BLOCK1\<rparr>) }"

definition ROOT_Init :: "'u ubi_ops \<Rightarrow> 'u ftl_state \<Rightarrow> (STATUS \<times> 'u ftl_state) option" where
  "ROOT_Init U s = do {
     (ret, s) \<leftarrow> root_choose_block U s;
     (i, ret, s) \<leftarrow> root_scan U (upto_u32 0 PAGE_PER_PHY_BLOCK) ret s;
     ASSERT (if i = PAGE_PER_PHY_BLOCK then ret = STATUS_SUCCESS else ret \<noteq> STATUS_SUCCESS);
     (ret, _, s) \<leftarrow> read_root U (root_current_block s) (i - 1) None s;
     if ret = STATUS_SUCCESS then do {
       let s = s\<lparr>root_current_page := i, root_edition_static := root_edition (root_table s) + 1\<rparr>;
       (_, s) \<leftarrow> ROOT_Commit U s;
       Some (ret, s) }
     else Some (ret, s) }"

section \<open>The block dirty table\<close>

definition BDT_PAGE_COUNT :: u32 where "BDT_PAGE_COUNT = (CFG_LOG_BLOCK_COUNT + MPP_SIZE - 1) div MPP_SIZE"

lemma BDT_PAGE_COUNT_value [simp, cfg_defs]: "BDT_PAGE_COUNT = 1"
  by (simp add: BDT_PAGE_COUNT_def)

text \<open>\<open>BDT_PAGE_ADDR\<close>: the table from its page \<open>i\<close> on, as memory, and read back.\<close>

definition bdt_page_words :: "u32 \<Rightarrow> (u32 \<Rightarrow> u8) \<Rightarrow> mem" where
  "bdt_page_words i t = byte_words (\<lambda>k. t (i * MPP_SIZE + k))"

definition bdt_page_load :: "u32 \<Rightarrow> mem \<Rightarrow> (u32 \<Rightarrow> u8) \<Rightarrow> u32 \<Rightarrow> u8" where
  "bdt_page_load i m t k = (if i * MPP_SIZE \<le> k then byte_load m (\<lambda>k. t (i * MPP_SIZE + k)) (k - i * MPP_SIZE) else t k)"

definition BDT_Commit :: "'u ubi_ops \<Rightarrow> 'u ftl_state \<Rightarrow> (STATUS \<times> 'u ftl_state) option" where
  "BDT_Commit U s = do {
     (ret, s) \<leftarrow>
       (if bdt_current_page s = PAGE_PER_PHY_BLOCK then do {
          let next_block = bdt_current_block s XOR 1;
          (ret, s) \<leftarrow> ubi_erase U next_block next_block s;
          Some (ret, if ret = STATUS_SUCCESS
                     then s\<lparr>bdt_current_page := 0, bdt_current_block := next_block\<rparr> else s) }
        else Some (STATUS_SUCCESS, s));
     (ret, s) \<leftarrow> for_each (upto_u32 0 BDT_PAGE_COUNT)
        (\<lambda>i (ret, s). if ret = STATUS_SUCCESS
           then ubi_write U (bdt_current_block s) (bdt_current_page s + i)
                  (OtherMem (bdt_page_words i (block_dirty_table s))) None False s
           else Some (ret, s)) (ret, s);
     Some (ret, if ret = STATUS_SUCCESS
        then s\<lparr>root_table := (root_table s)
                 \<lparr>bdt_current_journal := PM_NODE_SET_BLOCKPAGE (bdt_current_block s) (bdt_current_page s)\<rparr>,
               bdt_current_page := bdt_current_page s + BDT_PAGE_COUNT\<rparr>
        else s) }"

definition BDT_Format :: "'u ubi_ops \<Rightarrow> 'u ftl_state \<Rightarrow> (STATUS \<times> 'u ftl_state) option" where
  "BDT_Format U s = do {
     let s = s\<lparr>bdt_current_block := BDT_BLOCK0, bdt_current_page := 0\<rparr>;
     (ret, s) \<leftarrow> ubi_erase U (bdt_current_block s) (bdt_current_block s) s;
     if ret = STATUS_SUCCESS then BDT_Commit U s else Some (ret, s) }"

text \<open>The end of retention: once enough blocks hold backup data their flags are removed.\<close>

definition bdt_release_backup :: "'u ftl_state \<Rightarrow> 'u ftl_state" where
  "bdt_release_backup s =
     (if THRESHOLD \<le> backup_block_count (root_table s)
      then s\<lparr>block_dirty_table := fold (\<lambda>k t. if BACKUPFLAG \<le> t k then t(k := t k - BACKUPFLAG) else t)
                (upto_u32 0 MPP_SIZE) (block_dirty_table s),
             root_table := (root_table s)\<lparr>backup_block_count := 0\<rparr>\<rparr>
      else s)"

text \<open>
  The scan for the first erased page, over pages that a step of \<open>BDT_PAGE_COUNT\<close> (1) visits: the page
  found, or \<open>None\<close> when it runs to the end of the block.
\<close>

fun erased_scan :: "'u ubi_ops \<Rightarrow> u32 \<Rightarrow> u32 list \<Rightarrow> 'u ftl_state \<Rightarrow> (u32 option \<times> 'u ftl_state) option" where
  "erased_scan U block [] s = Some (None, s)"
| "erased_scan U block (i # is) s = do {
     (ret, _, _, s) \<leftarrow> ubi_read U block i None None s;
     if ret \<noteq> STATUS_SUCCESS then Some (Some i, s) else erased_scan U block is s }"

definition BDT_Init :: "'u ubi_ops \<Rightarrow> 'u ftl_state \<Rightarrow> (STATUS \<times> 'u ftl_state) option" where
  "BDT_Init U s = do {
     let s = s\<lparr>bdt_current_block := PM_NODE_BLOCK (bdt_current_journal (root_table s)),
               bdt_current_page := PM_NODE_PAGE (bdt_current_journal (root_table s))\<rparr>;
     s \<leftarrow> for_each (upto_u32 0 BDT_PAGE_COUNT) (\<lambda>i s. do {
            (ret, buf, _, s) \<leftarrow> ubi_read U (bdt_current_block s) (bdt_current_page s + i)
               (Some (bdt_page_words i (block_dirty_table s))) None s;
            ASSERT (ret = STATUS_SUCCESS);
            Some (s\<lparr>block_dirty_table := bdt_page_load i (the buf) (block_dirty_table s)\<rparr>) }) s;
     let s = bdt_release_backup s;
     (found, s) \<leftarrow> erased_scan U (bdt_current_block s)
        (upto_u32 (bdt_current_page s + BDT_PAGE_COUNT) PAGE_PER_PHY_BLOCK) s;
     let s = s\<lparr>bdt_current_page := (case found of Some i \<Rightarrow> i | None \<Rightarrow> PAGE_PER_PHY_BLOCK)\<rparr>;
     (_, s) \<leftarrow> BDT_Commit U s;
     Some (STATUS_SUCCESS, s) }"

section \<open>Hot data identification\<close>

definition HDI_FUNC_COUNT :: u32 where "HDI_FUNC_COUNT = 4"
definition HDI_HOT_DATA_THERSHOLD :: u8 where "HDI_HOT_DATA_THERSHOLD = 0x60"
definition HDI_COLDDOWN_DELAY :: u32 where "HDI_COLDDOWN_DELAY = 0x1000"

definition HDI_FUNCTION :: "u32 \<Rightarrow> u32 \<Rightarrow> u32" where
  "HDI_FUNCTION a i = drop_bit (unat i * 3) a AND (MPP_SIZE - 1)"

text \<open>One round of the first loop: bump the slot (saturating), clear the verdict if it is still cold.\<close>

definition hdi_touch :: "u32 \<Rightarrow> u32 \<Rightarrow> bool \<times> (u32 \<Rightarrow> u8) \<Rightarrow> bool \<times> (u32 \<Rightarrow> u8)" where
  "hdi_touch addr i = (\<lambda>(ret, t).
     let k = HDI_FUNCTION addr i;
         t = (if t k \<noteq> MAX_UINT8 then t(k := t k + 1) else t)
     in (if t k < HDI_HOT_DATA_THERSHOLD then False else ret, t))"

definition hdi_cooldown :: "(u32 \<Rightarrow> u8) \<Rightarrow> u32 \<Rightarrow> u8" where
  "hdi_cooldown t = fold (\<lambda>i t. t(i := drop_bit 1 (t i))) (upto_u32 0 MPP_SIZE) t"

definition HDI_IsHotPage :: "u32 \<Rightarrow> 'u ftl_state \<Rightarrow> bool \<times> 'u ftl_state" where
  "HDI_IsHotPage addr s =
     (let (ret, t) = fold (hdi_touch addr) (upto_u32 0 HDI_FUNC_COUNT) (True, hdi_hash_table s) in
      if hdi_count s = HDI_COLDDOWN_DELAY
      then (ret, s\<lparr>hdi_hash_table := hdi_cooldown t, hdi_count := 0\<rparr>)
      else (ret, s\<lparr>hdi_hash_table := t, hdi_count := hdi_count s + 1\<rparr>))"

definition HDI_Commit :: "'u ubi_ops \<Rightarrow> 'u ftl_state \<Rightarrow> (STATUS \<times> 'u ftl_state) option" where
  "HDI_Commit U s = do {
     (ret, s) \<leftarrow>
       (if hdi_current_page s = PAGE_PER_PHY_BLOCK then do {
          let next_block = hdi_current_block s XOR 1;
          (ret, s) \<leftarrow> ubi_erase U next_block next_block s;
          Some (ret, if ret = STATUS_SUCCESS
                     then s\<lparr>hdi_current_page := 0, hdi_current_block := next_block\<rparr> else s) }
        else Some (STATUS_SUCCESS, s));
     (ret, s) \<leftarrow> (if ret = STATUS_SUCCESS
        then ubi_write U (hdi_current_block s) (hdi_current_page s) (OtherMem (byte_words (hdi_hash_table s)))
               None False s
        else Some (ret, s));
     Some (ret, if ret = STATUS_SUCCESS
        then s\<lparr>root_table := (root_table s)
                 \<lparr>hdi_current_journal := PM_NODE_SET_BLOCKPAGE (hdi_current_block s) (hdi_current_page s)\<rparr>,
               hdi_current_page := hdi_current_page s + 1\<rparr>
        else s) }"

definition HDI_Format :: "'u ubi_ops \<Rightarrow> 'u ftl_state \<Rightarrow> (STATUS \<times> 'u ftl_state) option" where
  "HDI_Format U s = do {
     let s = s\<lparr>hdi_hash_table := fold (\<lambda>i t. t(i := 0)) (upto_u32 0 MPP_SIZE) (hdi_hash_table s),
               hdi_current_block := HDI_BLOCK0, hdi_current_page := 0\<rparr>;
     (ret, s) \<leftarrow> ubi_erase U (hdi_current_block s) (hdi_current_block s) s;
     if ret = STATUS_SUCCESS then HDI_Commit U s else Some (ret, s) }"

definition HDI_Init :: "'u ubi_ops \<Rightarrow> 'u ftl_state \<Rightarrow> (STATUS \<times> 'u ftl_state) option" where
  "HDI_Init U s = do {
     let s = s\<lparr>hdi_current_block := PM_NODE_BLOCK (hdi_current_journal (root_table s)),
               hdi_current_page := PM_NODE_PAGE (hdi_current_journal (root_table s))\<rparr>;
     (ret, buf, _, s) \<leftarrow> ubi_read U (hdi_current_block s) (hdi_current_page s)
        (Some (byte_words (hdi_hash_table s))) None s;
     let s = s\<lparr>hdi_hash_table := byte_load (the buf) (hdi_hash_table s)\<rparr>;
     ASSERT (ret = STATUS_SUCCESS);
     (found, s) \<leftarrow> erased_scan U (hdi_current_block s)
        (upto_u32 (hdi_current_page s + 1) PAGE_PER_PHY_BLOCK) s;
     let s = s\<lparr>hdi_current_page := (case found of Some i \<Rightarrow> i | None \<Rightarrow> PAGE_PER_PHY_BLOCK)\<rparr>;
     (_, s) \<leftarrow> BDT_Commit U s;
     Some (STATUS_SUCCESS, s) }"

section \<open>Start-up\<close>

text \<open>Static variables are zero at reset; \<open>u\<close> is the state of the layer below, \<open>base\<close> the address of the caches.\<close>

definition root_start :: ROOT where
  "root_start = root_load (\<lambda>_. 0) \<lparr>hot_journal = (\<lambda>_. 0), cold_journal = (\<lambda>_. 0), reclaim_journal = (\<lambda>_. 0),
     pmt_current_block = 0, pmt_reclaim_block = 0, hdi_current_journal = 0, bdt_current_journal = 0,
     root_current_journal = 0, root_edition = 0, backup_block_count = 0, page_mapping_nodes = (\<lambda>_. 0)\<rparr>"

definition ftl_start :: "u32 \<Rightarrow> 'u \<Rightarrow> 'u ftl_state" where
  "ftl_start base u = \<lparr>ubi = u, f_uninit = (\<lambda>_. 0), root_table = root_start, root_current_block = 0,
     root_current_page = 0, root_edition_static = 0, bdt_current_block = 0, bdt_current_page = 0,
     block_dirty_table = (\<lambda>_. 0), hdi_hash_table = (\<lambda>_. 0), hdi_current_page = 0, hdi_current_block = 0,
     hdi_count = 0, pm_cache_base = base, pm_node_caches = (\<lambda>_ _. 0), pm_cache_origin_location = (\<lambda>_. 0),
     pm_cache_cluster = (\<lambda>_. 0), meta_data = (\<lambda>_. 0), clusters = (\<lambda>_. 0), pm_node_buffer = (\<lambda>_. 0),
     edition_in_hot_journal = 0, edition_in_cold_journal = 0, hot_meta_data = (\<lambda>_ _. 0), cold_meta_data = (\<lambda>_ _. 0),
     pages_buffer = (\<lambda>_. 0), data_buffer = (\<lambda>_. 0), dirty_blocks = (\<lambda>_. 0), lastblock = 0, lastpage = 0,
     backupmft = 0, last_addr = 0\<rparr>"

section \<open>Tables and their pages\<close>

text \<open>The root table, with the journals' positions and the 1014 page mapping words, survives its page in
  both directions.\<close>

theorem root_table_roundtrip:
  "root_load (memcpy_words MPP_WORDS (root_words t) m) t = t \<and>
   memcpy_words MPP_WORDS (root_words (root_load m t)) m = m"
proof
  have "load_array 10 1014 (memcpy_words 1024 (root_words t) m) (page_mapping_nodes t) = page_mapping_nodes t"
    by (auto simp: load_array_def root_words_def mem_simps fun_eq_iff)
  then show "root_load (memcpy_words MPP_WORDS (root_words t) m) t = t"
    by (simp add: root_load_def mem_simps root_words_def)
  show "memcpy_words MPP_WORDS (root_words (root_load m t)) m = m"
  proof
    fix n :: nat
    consider "n < 10" | "10 \<le> n" "n < 1024" | "1024 \<le> n" by linarith
    then show "memcpy_words MPP_WORDS (root_words (root_load m t)) m n = m n"
    proof cases
      case 1
      then have "n \<in> {0,1,2,3,4,5,6,7,8,9}" by auto
      then show ?thesis by (auto simp: mem_simps root_words_def root_load_def)
    qed (auto simp: mem_simps root_words_def root_load_def load_array_def unat_of_nat simp del: of_nat_diff)
  qed
qed

lemma byte_table_roundtrip:
  "byte_load (memcpy_words MPP_WORDS (byte_words t) m) t = t"
proof
  fix i
  show "byte_load (memcpy_words MPP_WORDS (byte_words t) m) t i = t i"
  proof (cases "i < 4096")
    case True
    then have "unat i < 4096" by (simp add: word_less_nat_alt)
    then have "unat i div 4 < 1024" by simp
    then have "bytes_of (memcpy_words 1024 (byte_words t) m) (unat i) = bytes_of (byte_words t) (unat i)"
      by (intro bytes_of_cong) (simp add: mem_simps del: div_less)
    then show ?thesis using True by (simp add: byte_load_def byte_words_def)
  qed (simp add: byte_load_def)
qed

end
