(* ===== verification/Ftl_Pmt.thy ===== *)
theory Ftl_Pmt
  imports Ftl_State
begin

text \<open>
  The page mapping table, core/ftl/ftl_pmt.c: clusters of 1024 mapping words, four of them
  cached in RAM, written back on commit with reclaim of the dirtiest mapping block; and
  \<open>DATA_Commit\<close> of ftl_data.c, which a full cache triggers.
\<close>

section \<open>The cache\<close>

text \<open>The cache slot a RAM address denotes; any other address is a wild pointer.\<close>

definition cache_address :: "'u ftl_state \<Rightarrow> u32 \<Rightarrow> u32" where
  "cache_address s i = pm_cache_base s + i * MPP_SIZE"

definition cache_slot :: "'u ftl_state \<Rightarrow> u32 \<Rightarrow> u32 option" where
  "cache_slot s a = find (\<lambda>i. cache_address s i = a) (upto_u32 0 PMT_CACHE_COUNT)"

definition set_node :: "u32 \<Rightarrow> PM_NODE_ADDR \<Rightarrow> 'u ftl_state \<Rightarrow> 'u ftl_state" where
  "set_node cluster p s = s\<lparr>root_table := (root_table s)
     \<lparr>page_mapping_nodes := (page_mapping_nodes (root_table s))(cluster := p)\<rparr>\<rparr>"

definition set_dirty_count :: "u32 \<Rightarrow> u8 \<Rightarrow> 'u ftl_state \<Rightarrow> 'u ftl_state" where
  "set_dirty_count b v s = s\<lparr>block_dirty_table := (block_dirty_table s)(b := v)\<rparr>"

definition clear_slot :: "u32 \<Rightarrow> 'u ftl_state \<Rightarrow> 'u ftl_state" where
  "clear_slot i s = s\<lparr>pm_node_caches := (pm_node_caches s)(i := memset_words MPP_WORDS 0 (pm_node_caches s i)),
     pm_cache_origin_location := (pm_cache_origin_location s)(i := INVALID_PM_NODE),
     pm_cache_cluster := (pm_cache_cluster s)(i := INVALID_CLUSTER)\<rparr>"

definition PMT_Init :: "'u ftl_state \<Rightarrow> STATUS \<times> 'u ftl_state" where
  "PMT_Init s = (STATUS_SUCCESS, fold clear_slot (upto_u32 0 PMT_CACHE_COUNT) s)"

definition node_of :: "'u ftl_state \<Rightarrow> u32 \<Rightarrow> PM_NODE_ADDR" where
  "node_of s cluster = page_mapping_nodes (root_table s) cluster"

section \<open>Reclaiming a mapping block\<close>

text \<open>
  One pass over the mapping blocks for one whose dirty count is the target and that is idle: the block
  found, the next target so far and the last status. The next target is not reset between passes.
\<close>

fun pmt_scan :: "'u ubi_ops \<Rightarrow> u32 \<Rightarrow> u32 list \<Rightarrow> u32 \<Rightarrow> STATUS \<Rightarrow> 'u ftl_state \<Rightarrow>
    (u32 option \<times> u32 \<times> STATUS \<times> 'u ftl_state) option" where
  "pmt_scan U target [] next ret s = Some (None, next, ret, s)"
| "pmt_scan U target (i # is) next ret s =
     (let dirty = ucast (block_dirty_table s i) in
      if dirty = target then do {
        (ret, s) \<leftarrow> ubi_read_status U i s;
        if ret = STATUS_SUCCESS then Some (Some i, next, ret, s) else pmt_scan U target is next ret s }
      else pmt_scan U target is (if dirty < target \<and> next < dirty then dirty else next) ret s)"

definition pmt_blocks :: "u32 list" where
  "pmt_blocks = upto_u32 PMT_START_BLOCK (PMT_START_BLOCK + PMT_BLOCK_COUNT)"

partial_function (option) pmt_find_block :: "'u ubi_ops \<Rightarrow> u32 \<Rightarrow> u32 \<Rightarrow> STATUS \<Rightarrow> 'u ftl_state \<Rightarrow>
    (u32 \<times> STATUS \<times> 'u ftl_state) option" where
  "pmt_find_block U target next ret s = do {
     (found, next, ret, s) \<leftarrow> pmt_scan U target pmt_blocks next ret s;
     case found of
       Some i \<Rightarrow> Some (i, ret, s)
     | None \<Rightarrow> pmt_find_block U next next ret s }"

text \<open>One page of the reclaimed block: \<open>rpage\<close> is the next page of the reclaim block.\<close>

definition pmt_reclaim_page :: "'u ubi_ops \<Rightarrow> u32 \<Rightarrow> u32 \<Rightarrow> u32 \<Rightarrow> STATUS \<times> u32 \<times> 'u ftl_state \<Rightarrow>
    (STATUS \<times> u32 \<times> 'u ftl_state) option" where
  "pmt_reclaim_page U reclaim_block dirty_block page = (\<lambda>(ret, rpage, s). do {
     let cluster = clusters s (unat page);
     let pm_node = node_of s cluster;
     (pm_node, cleared) \<leftarrow>
       (if PM_NODE_IS_CACHED pm_node then
          if PM_NODE_IS_DIRTY pm_node then Some (INVALID_PM_NODE, None)
          else do {
            i \<leftarrow> find (\<lambda>i. pm_cache_cluster s i = cluster) (upto_u32 0 PMT_CACHE_COUNT);
            Some (pm_cache_origin_location s i, Some i) }
        else Some (pm_node, None));
     if pm_node \<noteq> INVALID_PM_NODE \<and> PM_NODE_BLOCK pm_node = dirty_block \<and> PM_NODE_PAGE pm_node = page
     then do {
       (ret, buf, _, s) \<leftarrow> ubi_read U dirty_block page (Some (pm_node_buffer s)) None s;
       let s = s\<lparr>pm_node_buffer := the buf\<rparr>;
       (ret, s) \<leftarrow> (if ret = STATUS_SUCCESS
          then ubi_write U reclaim_block rpage (OtherMem (pm_node_buffer s)) None False s else Some (ret, s));
       if ret = STATUS_SUCCESS then do {
         let s = set_node cluster (PM_NODE_SET_BLOCKPAGE reclaim_block rpage) s;
         let s = s\<lparr>meta_data := (meta_data s)(rpage := cluster)\<rparr>;
         Some (ret, rpage + 1, case cleared of Some i \<Rightarrow> clear_slot i s | None \<Rightarrow> s) }
       else Some (ret, rpage, s) }
     else Some (ret, rpage, s) })"

definition pmt_reclaim_copy :: "'u ubi_ops \<Rightarrow> u32 \<Rightarrow> 'u ftl_state \<Rightarrow> (STATUS \<times> 'u ftl_state) option" where
  "pmt_reclaim_copy U dirty_block s = do {
     let reclaim_block = PM_NODE_BLOCK (pmt_reclaim_block (root_table s));
     (ret, buf, _, s) \<leftarrow> ubi_read U dirty_block (PAGE_PER_PHY_BLOCK - 1) (Some (clusters s)) None s;
     let s = s\<lparr>clusters := the buf\<rparr>;
     (ret, reclaim_page, s) \<leftarrow> (if ret = STATUS_SUCCESS
        then for_each (upto_u32 0 (PAGE_PER_PHY_BLOCK - 1)) (pmt_reclaim_page U reclaim_block dirty_block) (ret, 0, s)
        else Some (ret, 0, s));
     (ret, s) \<leftarrow> (if ret = STATUS_SUCCESS then ubi_erase U dirty_block dirty_block s else Some (ret, s));
     Some (ret, if ret = STATUS_SUCCESS
        then set_dirty_count dirty_block 0 (set_dirty_count reclaim_block 0
               (s\<lparr>root_table := (root_table s)
                   \<lparr>pmt_current_block := PM_NODE_SET_BLOCKPAGE reclaim_block reclaim_page,
                    pmt_reclaim_block := PM_NODE_SET_BLOCKPAGE dirty_block 0\<rparr>\<rparr>))
        else s) }"

definition pmt_reclaim_blocks :: "'u ubi_ops \<Rightarrow> 'u ftl_state \<Rightarrow> (STATUS \<times> 'u ftl_state) option" where
  "pmt_reclaim_blocks U s = do {
     (i, ret, s) \<leftarrow> pmt_find_block U MAX_DIRTY_PAGES 0 STATUS_SUCCESS s;
     let total_valid_page = MAX_DIRTY_PAGES - ucast (block_dirty_table s i);
     if total_valid_page \<noteq> 0 then pmt_reclaim_copy U i s
     else do {
       (ret, s) \<leftarrow> ubi_erase U i i s;
       Some (ret, if ret = STATUS_SUCCESS
          then set_dirty_count i 0
                 (s\<lparr>root_table := (root_table s)\<lparr>pmt_current_block := PM_NODE_SET_BLOCKPAGE i 0\<rparr>\<rparr>)
          else s) } }"

section \<open>Commit\<close>

definition PMT_CURRENT_BLOCK :: "'u ftl_state \<Rightarrow> u32" where
  "PMT_CURRENT_BLOCK s = PM_NODE_BLOCK (pmt_current_block (root_table s))"

definition PMT_CURRENT_PAGE :: "'u ftl_state \<Rightarrow> u32" where
  "PMT_CURRENT_PAGE s = PM_NODE_PAGE (pmt_current_block (root_table s))"

text \<open>A dirty cluster goes to the current mapping block.\<close>

definition pmt_write_back :: "'u ubi_ops \<Rightarrow> u32 \<Rightarrow> STATUS \<Rightarrow> 'u ftl_state \<Rightarrow> (STATUS \<times> 'u ftl_state) option" where
  "pmt_write_back U i ret s = do {
     ASSERT (PMT_CURRENT_PAGE s \<noteq> PAGE_PER_PHY_BLOCK - 1);
     if ret = STATUS_SUCCESS then do {
       let spare = (\<lambda>n. pm_cache_cluster s (i + of_nat n));
       (ret, s) \<leftarrow> ubi_write U (PMT_CURRENT_BLOCK s) (PMT_CURRENT_PAGE s) (OtherMem (pm_node_caches s i))
          (Some spare) False s;
       if ret = STATUS_SUCCESS then do {
         let pm_cluster = pm_cache_cluster s i;
         let s = s\<lparr>meta_data := (meta_data s)(PMT_CURRENT_PAGE s := pm_cluster)\<rparr>;
         let blk = PMT_CURRENT_BLOCK s;
         let page = PMT_CURRENT_PAGE s;
         let s = set_node pm_cluster (PM_NODE_SET_BLOCKPAGE blk page) s;
         let s = s\<lparr>root_table := (root_table s)\<lparr>pmt_current_block := PM_NODE_SET_BLOCKPAGE blk (page + 1)\<rparr>\<rparr>;
         let old_pm_block = PM_NODE_BLOCK (pm_cache_origin_location s i);
         let s = set_dirty_count old_pm_block (block_dirty_table s old_pm_block + 1) s;
         ASSERT (ucast (block_dirty_table s old_pm_block) \<le> MAX_DIRTY_PAGES);
         Some (ret, s) }
       else Some (ret, s) }
     else Some (ret, s) }"

definition pmt_commit_slot :: "'u ubi_ops \<Rightarrow> u32 \<Rightarrow> STATUS \<times> 'u ftl_state \<Rightarrow> (STATUS \<times> 'u ftl_state) option" where
  "pmt_commit_slot U i = (\<lambda>(ret, s).
     if pm_cache_cluster s i = INVALID_CLUSTER then Some (ret, s)
     else do {
       let pm_node = node_of s (pm_cache_cluster s i);
       ASSERT (PM_NODE_IS_CACHED pm_node);
       if \<not> PM_NODE_IS_DIRTY pm_node
       then Some (ret, set_node (pm_cache_cluster s i) (pm_cache_origin_location s i) s)
       else do {
         (ret, s) \<leftarrow> (if PMT_CURRENT_PAGE s \<noteq> PAGE_PER_PHY_BLOCK then pmt_write_back U i ret s else Some (ret, s));
         if PMT_CURRENT_PAGE s = PAGE_PER_PHY_BLOCK - 1 then do {
           (ret, s) \<leftarrow> (if ret = STATUS_SUCCESS
              then ubi_write U (PMT_CURRENT_BLOCK s) (PMT_CURRENT_PAGE s)
                     (OtherMem (\<lambda>n. meta_data s (of_nat n))) None False s
              else Some (ret, s));
           (ret, s) \<leftarrow> (if ret = STATUS_SUCCESS then ubi_flush U s else Some (ret, s));
           if ret = STATUS_SUCCESS then pmt_reclaim_blocks U s else Some (ret, s) }
         else Some (ret, s) } })"

definition PMT_Commit :: "'u ubi_ops \<Rightarrow> 'u ftl_state \<Rightarrow> (STATUS \<times> 'u ftl_state) option" where
  "PMT_Commit U s = do {
     (ret, s) \<leftarrow> for_each (upto_u32 0 PMT_CACHE_COUNT) (pmt_commit_slot U) (STATUS_SUCCESS, s);
     Some (if ret = STATUS_SUCCESS then PMT_Init s else (ret, s)) }"

definition DATA_Commit :: "'u ubi_ops \<Rightarrow> 'u ftl_state \<Rightarrow> (STATUS \<times> 'u ftl_state) option" where
  "DATA_Commit U s = do {
     (ret, s) \<leftarrow> HDI_Commit U s;
     (ret, s) \<leftarrow> (if ret = STATUS_SUCCESS then PMT_Commit U s else Some (ret, s));
     (ret, s) \<leftarrow> (if ret = STATUS_SUCCESS then BDT_Commit U s else Some (ret, s));
     (ret, s) \<leftarrow> (if ret = STATUS_SUCCESS then ROOT_Commit U s else Some (ret, s));
     Some (ret, if ret = STATUS_SUCCESS
        then s\<lparr>edition_in_hot_journal := 0, edition_in_cold_journal := 0\<rparr> else s) }"

section \<open>Lookup and update\<close>

definition PMT_Load :: "'u ubi_ops \<Rightarrow> u32 \<Rightarrow> u32 \<Rightarrow> u32 \<Rightarrow> 'u ftl_state \<Rightarrow> (STATUS \<times> 'u ftl_state) option" where
  "PMT_Load U block page cluster s = do {
     (i, ret, block, page, s) \<leftarrow>
       (case find (\<lambda>i. pm_cache_origin_location s i = INVALID_PM_NODE) (upto_u32 0 PMT_CACHE_COUNT) of
          Some i \<Rightarrow> Some (i, STATUS_SUCCESS, block, page, s)
        | None \<Rightarrow> do {
            (ret, s) \<leftarrow> DATA_Commit U s;
            Some (if ret = STATUS_SUCCESS
              then (0, ret, PM_NODE_BLOCK (node_of s cluster), PM_NODE_PAGE (node_of s cluster), s)
              else (0, ret, block, page, s)) });
     (ret, s) \<leftarrow>
       (if ret = STATUS_SUCCESS then do {
          (ret, buf, _, s) \<leftarrow> ubi_read U block page (Some (pm_node_caches s i)) None s;
          Some (ret, s\<lparr>pm_node_caches := (pm_node_caches s)(i := the buf)\<rparr>) }
        else Some (ret, s));
     if ret = STATUS_SUCCESS then do {
       let s = s\<lparr>pm_cache_origin_location := (pm_cache_origin_location s)(i := PM_NODE_SET_BLOCKPAGE block page)\<rparr>;
       let s = set_node cluster (cache_address s i) s;
       ASSERT (cache_address s i AND 0x3 = 0);
       Some (ret, s\<lparr>pm_cache_cluster := (pm_cache_cluster s)(i := cluster)\<rparr>) }
     else Some (ret, s) }"

text \<open>Load the cluster of a page unless it is cached.\<close>

definition pmt_fetch :: "'u ubi_ops \<Rightarrow> u32 \<Rightarrow> 'u ftl_state \<Rightarrow> (STATUS \<times> 'u ftl_state) option" where
  "pmt_fetch U cluster s =
     (if \<not> PM_NODE_IS_CACHED (node_of s cluster)
      then PMT_Load U (PM_NODE_BLOCK (node_of s cluster)) (PM_NODE_PAGE (node_of s cluster)) cluster s
      else Some (STATUS_SUCCESS, s))"

text \<open>The dirty count of the block the page is mapped to: the backup flag, or one more dirty page.\<close>

definition mark_old_block :: "u32 \<Rightarrow> bool \<Rightarrow> 'u ftl_state \<Rightarrow> 'u ftl_state" where
  "mark_old_block edit_block is_backup s =
     (if is_backup
      then let s = (if block_dirty_table s edit_block < BACKUPFLAG
                    then s\<lparr>root_table := (root_table s)\<lparr>backup_block_count := backup_block_count (root_table s) + 1\<rparr>\<rparr>
                    else s)
           in set_dirty_count edit_block (block_dirty_table s edit_block OR BACKUPFLAG) s
      else set_dirty_count edit_block (block_dirty_table s edit_block + 1) s)"

definition PMT_Update :: "'u ubi_ops \<Rightarrow> u32 \<Rightarrow> u32 \<Rightarrow> u32 \<Rightarrow> bool \<Rightarrow> 'u ftl_state \<Rightarrow> (STATUS \<times> 'u ftl_state) option" where
  "PMT_Update U page_addr block page is_backup s = do {
     let cluster = CLUSTER_INDEX page_addr;
     (ret, s) \<leftarrow> pmt_fetch U cluster s;
     if ret = STATUS_SUCCESS then do {
       i \<leftarrow> cache_slot s (PM_NODE_ADDRESS (node_of s cluster));
       let k = unat (PAGE_IN_CLUSTER page_addr);
       let old = pm_node_caches s i k;
       let s = (if old \<noteq> INVALID_PM_NODE then mark_old_block (PM_NODE_BLOCK old) is_backup s else s);
       ASSERT (if block \<noteq> INVALID_BLOCK then page \<noteq> INVALID_PAGE else page = INVALID_PAGE);
       let new = (if block \<noteq> INVALID_BLOCK then PM_NODE_SET_BLOCKPAGE block page else INVALID_PM_NODE);
       let s = s\<lparr>pm_node_caches := (pm_node_caches s)(i := (pm_node_caches s i)(k := new))\<rparr>;
       Some (ret, set_node cluster (PM_NODE_SET_DIRTY (node_of s cluster)) s) }
     else Some (ret, s) }"

text \<open>Returns the block and page; on failure the caller's variables keep the values passed in.\<close>

definition PMT_Search :: "'u ubi_ops \<Rightarrow> u32 \<Rightarrow> u32 \<Rightarrow> u32 \<Rightarrow> 'u ftl_state \<Rightarrow>
    (STATUS \<times> u32 \<times> u32 \<times> 'u ftl_state) option" where
  "PMT_Search U page_addr block page s = do {
     let cluster = CLUSTER_INDEX page_addr;
     (ret, s) \<leftarrow> pmt_fetch U cluster s;
     if ret = STATUS_SUCCESS then do {
       ASSERT (node_of s cluster \<noteq> INVALID_PM_NODE);
       ASSERT (PM_NODE_ADDRESS (node_of s cluster) \<noteq> 0);
       i \<leftarrow> cache_slot s (PM_NODE_ADDRESS (node_of s cluster));
       let pm_node = pm_node_caches s i (unat (PAGE_IN_CLUSTER page_addr));
       Some (if pm_node \<noteq> INVALID_PM_NODE
             then (ret, PM_NODE_BLOCK pm_node, PM_NODE_PAGE pm_node, s)
             else (ret, INVALID_BLOCK, INVALID_PAGE, s)) }
     else Some (ret, block, page, s) }"

section \<open>Format\<close>

definition FTL_Capacity :: "'u ubi_ops \<Rightarrow> 'u ftl_state \<Rightarrow> u32" where
  "FTL_Capacity U s =
     (let block = u_Capacity U (ubi s);
          block = block - JOURNAL_BLOCK_COUNT;
          block = block - JOURNAL_BLOCK_COUNT;
          block = block - JOURNAL_BLOCK_COUNT;
          block = block - PMT_BLOCK_COUNT;
          block = block - 2;
          block = block - 2;
          block = block - 2;
          block = block - block div 100 * OVER_PROVISION_RATE
      in block * (PAGE_PER_PHY_BLOCK - 1))"

definition pmt_format_cluster :: "'u ubi_ops \<Rightarrow> u32 \<Rightarrow> STATUS \<times> u32 \<times> u32 \<times> 'u ftl_state \<Rightarrow>
    (STATUS \<times> u32 \<times> u32 \<times> 'u ftl_state) option" where
  "pmt_format_cluster U i = (\<lambda>(ret, pmt_block, pmt_page, s). do {
     (ret, s) \<leftarrow> (if ret = STATUS_SUCCESS
        then ubi_write U pmt_block pmt_page (OtherMem (\<lambda>_. INVALID_PM_NODE)) (Some ((f_uninit s)(0 := i))) False s
        else Some (ret, s));
     if ret = STATUS_SUCCESS then do {
       let s = s\<lparr>meta_data := (meta_data s)(pmt_page := i)\<rparr>;
       let s = set_node i (PM_NODE_SET_BLOCKPAGE pmt_block pmt_page) s;
       let pmt_page = (if pmt_page < PAGE_PER_PHY_BLOCK - 1 then pmt_page + 1 else pmt_page);
       if pmt_page = PAGE_PER_PHY_BLOCK - 1 then do {
         (ret, s) \<leftarrow> ubi_write U pmt_block pmt_page (OtherMem (\<lambda>n. meta_data s (of_nat n))) None False s;
         Some (if ret = STATUS_SUCCESS then (ret, pmt_block + 1, 0, set_dirty_count pmt_block 0 s)
               else (ret, pmt_block, pmt_page, s)) }
       else Some (ret, pmt_block, pmt_page, s) }
     else Some (ret, pmt_block, pmt_page, s) })"

definition PMT_Format :: "'u ubi_ops \<Rightarrow> 'u ftl_state \<Rightarrow> (STATUS \<times> 'u ftl_state) option" where
  "PMT_Format U s = do {
     let pmt_cluster_count = (FTL_Capacity U s + PM_PER_NODE - 1) div PM_PER_NODE;
     ASSERT (pmt_cluster_count < MAX_PM_CLUSTERS);
     (ret, pmt_block, pmt_page, s) \<leftarrow>
       for_each (upto_u32 0 pmt_cluster_count) (pmt_format_cluster U) (STATUS_SUCCESS, PMT_START_BLOCK, 0, s);
     Some (ret, if ret = STATUS_SUCCESS
        then set_dirty_count (pmt_block + 1) 0 (set_dirty_count pmt_block 0
               (s\<lparr>root_table := (root_table s)
                   \<lparr>pmt_current_block := PM_NODE_SET_BLOCKPAGE pmt_block pmt_page,
                    pmt_reclaim_block := PM_NODE_SET_BLOCKPAGE (pmt_block + 1) 0\<rparr>\<rparr>))
        else s) }"

section \<open>Lookup and update of a cached cluster\<close>

definition slot_of :: "'u ftl_state \<Rightarrow> u32 \<Rightarrow> u32 option" where
  "slot_of s cluster = (if PM_NODE_IS_CACHED (node_of s cluster) \<and> PM_NODE_ADDRESS (node_of s cluster) \<noteq> 0
     then cache_slot s (PM_NODE_ADDRESS (node_of s cluster)) else None)"

text \<open>What the cached mapping says of a page.\<close>

definition pm_entry :: "'u ftl_state \<Rightarrow> u32 \<Rightarrow> PM_NODE_ADDR" where
  "pm_entry s addr = pm_node_caches s (the (slot_of s (CLUSTER_INDEX addr))) (unat (PAGE_IN_CLUSTER addr))"

definition pmt_cached :: "'u ftl_state \<Rightarrow> u32 \<Rightarrow> bool" where
  "pmt_cached s addr \<longleftrightarrow> slot_of s (CLUSTER_INDEX addr) \<noteq> None"

definition slots_distinct :: "'u ftl_state \<Rightarrow> bool" where
  "slots_distinct s \<longleftrightarrow> (\<forall>c c' i. slot_of s c = Some i \<and> slot_of s c' = Some i \<longrightarrow> c = c')"

lemma pmt_fetch_cached: "slot_of s c = Some i \<Longrightarrow> pmt_fetch U c s = Some (STATUS_SUCCESS, s)"
  by (simp add: pmt_fetch_def slot_of_def split: if_splits)

lemma PMT_Search_cached:
  assumes "pmt_cached s addr"
  shows "PMT_Search U addr b p s = Some (STATUS_SUCCESS,
     if pm_entry s addr \<noteq> INVALID_PM_NODE then PM_NODE_BLOCK (pm_entry s addr) else INVALID_BLOCK,
     if pm_entry s addr \<noteq> INVALID_PM_NODE then PM_NODE_PAGE (pm_entry s addr) else INVALID_PAGE, s)"
proof -
  obtain i where i: "slot_of s (CLUSTER_INDEX addr) = Some i" using assms by (auto simp: pmt_cached_def)
  then have "node_of s (CLUSTER_INDEX addr) \<noteq> - 1"
    "cache_slot s (PM_NODE_ADDRESS (node_of s (CLUSTER_INDEX addr))) = Some i"
    "PM_NODE_ADDRESS (node_of s (CLUSTER_INDEX addr)) \<noteq> 0"
    by (auto simp: slot_of_def split: if_splits)
  with i show ?thesis
    by (simp add: PMT_Search_def pmt_fetch_cached [OF i] pm_entry_def Let_def)
qed

definition pm_new :: "u32 \<Rightarrow> u32 \<Rightarrow> PM_NODE_ADDR" where
  "pm_new block page = (if block \<noteq> INVALID_BLOCK then PM_NODE_SET_BLOCKPAGE block page else INVALID_PM_NODE)"

lemma set_node_frame [simp]:
  "pm_node_caches (set_node c v s) = pm_node_caches s" "pm_cache_base (set_node c v s) = pm_cache_base s"
  "node_of (set_node c v s) c' = (if c' = c then v else node_of s c')"
  "block_dirty_table (set_node c v s) = block_dirty_table s" "ubi (set_node c v s) = ubi s"
  by (simp_all add: set_node_def node_of_def)

lemma node_of_caches [simp]: "node_of (s\<lparr>pm_node_caches := x\<rparr>) = node_of s"
  by (simp add: node_of_def fun_eq_iff)

lemma mark_old_frame [simp]:
  "pm_node_caches (mark_old_block b bk s) = pm_node_caches s" "pm_cache_base (mark_old_block b bk s) = pm_cache_base s"
  "node_of (mark_old_block b bk s) = node_of s" "ubi (mark_old_block b bk s) = ubi s"
  "f_uninit (mark_old_block b bk s) = f_uninit s"
  by (simp_all add: mark_old_block_def set_dirty_count_def node_of_def Let_def fun_eq_iff)


definition pm_store :: "u32 \<Rightarrow> PM_NODE_ADDR \<Rightarrow> 'u ftl_state \<Rightarrow> 'u ftl_state" where
  "pm_store addr e s = (let c = CLUSTER_INDEX addr; i = the (slot_of s c); k = unat (PAGE_IN_CLUSTER addr) in
     set_node c (PM_NODE_SET_DIRTY (node_of s c))
       (s\<lparr>pm_node_caches := (pm_node_caches s)(i := (pm_node_caches s i)(k := e))\<rparr>))"

definition mark_replaced :: "u32 \<Rightarrow> bool \<Rightarrow> 'u ftl_state \<Rightarrow> 'u ftl_state" where
  "mark_replaced addr is_backup s = (if pm_entry s addr \<noteq> INVALID_PM_NODE
     then mark_old_block (PM_NODE_BLOCK (pm_entry s addr)) is_backup s else s)"

lemma cache_slot_cong: "pm_cache_base s' = pm_cache_base s \<Longrightarrow> cache_slot s' a = cache_slot s a"
  by (simp add: cache_slot_def cache_address_def)

lemma mark_replaced_frame [simp]:
  "pm_node_caches (mark_replaced addr bk s) = pm_node_caches s" "pm_cache_base (mark_replaced addr bk s) = pm_cache_base s"
  "node_of (mark_replaced addr bk s) = node_of s" "ubi (mark_replaced addr bk s) = ubi s"
  "f_uninit (mark_replaced addr bk s) = f_uninit s"
  by (simp_all add: mark_replaced_def)

lemma slot_of_cong:
  assumes "pm_cache_base s' = pm_cache_base s" "PM_NODE_IS_CACHED (node_of s' c) = PM_NODE_IS_CACHED (node_of s c)"
    and "PM_NODE_ADDRESS (node_of s' c) = PM_NODE_ADDRESS (node_of s c)"
  shows "slot_of s' c = slot_of s c"
  unfolding slot_of_def assms(2,3) cache_slot_cong [OF assms(1)] ..

lemma slot_of_mark [simp]: "slot_of (mark_replaced addr bk s) c = slot_of s c"
  by (rule slot_of_cong) simp_all

lemma pm_store_frame:
  "pm_cache_base (pm_store addr e s) = pm_cache_base s"
  "node_of (pm_store addr e s) c = (if c = CLUSTER_INDEX addr then PM_NODE_SET_DIRTY (node_of s c) else node_of s c)"
  "pm_node_caches (pm_store addr e s) = (let i = the (slot_of s (CLUSTER_INDEX addr)) in
     (pm_node_caches s)(i := (pm_node_caches s i)(unat (PAGE_IN_CLUSTER addr) := e)))"
  by (simp_all only: pm_store_def Let_def set_node_frame node_of_caches ftl_state.simps) simp_all

lemma slot_of_store [simp]: "slot_of (pm_store addr e s) c = slot_of s c"
  by (rule slot_of_cong) (simp_all add: pm_store_frame)

lemma pm_entry_mark [simp]: "pm_entry (mark_replaced addr bk s) a = pm_entry s a"
  by (simp add: pm_entry_def)

lemma PMT_Update_cached:
  assumes "pmt_cached s addr" "block = INVALID_BLOCK \<longleftrightarrow> page = INVALID_PAGE"
  shows "PMT_Update U addr block page bk s =
     Some (STATUS_SUCCESS, pm_store addr (pm_new block page) (mark_replaced addr bk s))"
proof -
  obtain i where i: "slot_of s (CLUSTER_INDEX addr) = Some i" using assms by (auto simp: pmt_cached_def)
  then have slot: "cache_slot s (PM_NODE_ADDRESS (node_of s (CLUSTER_INDEX addr))) = Some i"
    by (auto simp: slot_of_def split: if_splits)
  have old: "pm_node_caches s i (unat (PAGE_IN_CLUSTER addr)) = pm_entry s addr" by (simp add: pm_entry_def i)
  have mark: "(if pm_entry s addr \<noteq> INVALID_PM_NODE then mark_old_block (PM_NODE_BLOCK (pm_entry s addr)) bk s else s) =
      mark_replaced addr bk s" by (simp add: mark_replaced_def)
  show ?thesis
    unfolding PMT_Update_def Let_def pmt_fetch_cached [OF i] Option.bind.bind_lunit prod.case slot old mark
    using assms(2) by (auto simp add: pm_store_def Let_def pm_new_def i)
qed

lemma unat_eq_imp: "unat a = unat (b :: u32) \<Longrightarrow> a = b"
  by (simp add: word_unat_eq_iff)

lemma pm_entry_store:
  assumes "slots_distinct s" "pmt_cached s addr" "pmt_cached s addr'"
  shows "pm_entry (pm_store addr e s) addr' = (if addr' = addr then e else pm_entry s addr')"
proof -
  obtain i j where ij: "slot_of s (CLUSTER_INDEX addr) = Some i" "slot_of s (CLUSTER_INDEX addr') = Some j"
    using assms by (auto simp: pmt_cached_def)
  have eq: "addr' = addr \<longleftrightarrow> CLUSTER_INDEX addr' = CLUSTER_INDEX addr \<and> PAGE_IN_CLUSTER addr' = PAGE_IN_CLUSTER addr"
    unfolding CLUSTER_INDEX_def PAGE_IN_CLUSTER_def by (metis word_mod_div_equality)
  have "pm_node_caches (pm_store addr e s) = (pm_node_caches s)(i := (pm_node_caches s i)(unat (PAGE_IN_CLUSTER addr) := e))"
    by (simp add: pm_store_frame Let_def ij)
  moreover have "i = j \<longleftrightarrow> CLUSTER_INDEX addr' = CLUSTER_INDEX addr"
    using assms(1) ij by (auto simp: slots_distinct_def)
  ultimately show ?thesis
    unfolding pm_entry_def slot_of_store by (auto simp: ij eq dest: unat_eq_imp)
qed

text \<open>C22: In the cached mapping, an update is what the next lookup of the page returns, and the lookup of every
  other cached page is unchanged, whatever the update marks on the replaced page's block.\<close>

theorem PMT_Update_Search:
  assumes "slots_distinct s" "pmt_cached s addr" "pmt_cached s addr'" "block < 0x1000000" "page < PAGE_PER_PHY_BLOCK"
  shows "\<exists>s'. PMT_Update U addr block page is_backup s = Some (STATUS_SUCCESS, s') \<and>
    PMT_Search U addr' b p s' = (if addr' = addr then Some (STATUS_SUCCESS, block, page, s')
      else map_option (\<lambda>(ret, b, p, _). (ret, b, p, s')) (PMT_Search U addr' b p s))"
proof -
  define s' where "s' = pm_store addr (pm_new block page) (mark_replaced addr is_backup s)"
  have "block \<noteq> INVALID_BLOCK" "page \<noteq> INVALID_PAGE" using assms(4,5) by auto
  then have upd: "PMT_Update U addr block page is_backup s = Some (STATUS_SUCCESS, s')"
    using PMT_Update_cached [OF assms(2)] by (simp add: s'_def)
  have dist: "slots_distinct (mark_replaced addr is_backup s)" "pmt_cached (mark_replaced addr is_backup s) a = pmt_cached s a" for a
    using assms(1) by (simp_all add: slots_distinct_def pmt_cached_def)
  have c: "pmt_cached s' addr'" using assms(3) by (simp add: s'_def pmt_cached_def)
  have "pm_entry s' addr' = (if addr' = addr then pm_new block page else pm_entry s addr')"
    using pm_entry_store [OF dist(1)] assms(2,3) dist(2) by (simp add: s'_def)
  moreover have "pm_new block page = PM_NODE_SET_BLOCKPAGE block page"
    using \<open>block \<noteq> INVALID_BLOCK\<close> by (simp add: pm_new_def)
  ultimately show ?thesis
    using upd assms(4,5) PMT_Search_cached [OF c, of U b p] PMT_Search_cached [OF assms(3), of U b p]
    by auto
qed

text \<open>A mapping with cluster 0 in the first slot and every page unmapped.\<close>

definition pmt_demo :: "'u \<Rightarrow> 'u ftl_state" where
  "pmt_demo u = (ftl_start 4096 u)\<lparr>root_table := root_start\<lparr>page_mapping_nodes := (\<lambda>c. if c = 0 then 4096 else INVALID_PM_NODE)\<rparr>,
     pm_node_caches := (\<lambda>_ _. INVALID_PM_NODE), f_uninit := (\<lambda>_. 0)\<rparr>"

lemma cache_slot_demo: "pm_cache_base s = 4096 \<Longrightarrow> cache_slot s 4096 = Some 0"
  by (simp add: cache_slot_def cache_address_def upt_rec)

lemma demo_address: "PM_NODE_ADDRESS 4096 = 4096" "PM_NODE_IS_CACHED 4096"
  by (simp_all add: PM_NODE_ADDRESS_def PM_NODE_IS_CACHED_def)

lemma slot_of_demo [simp]: "slot_of (pmt_demo u) c = (if c = 0 then Some 0 else None)"
proof -
  have "node_of (pmt_demo u) c = (if c = 0 then 4096 else - 1)" for c by (simp add: node_of_def pmt_demo_def)
  moreover have "pm_cache_base (pmt_demo u) = 4096" by (simp add: pmt_demo_def ftl_start_def)
  ultimately show ?thesis by (simp add: slot_of_def demo_address cache_slot_demo)
qed

lemma pmt_demo_ok: "slots_distinct (pmt_demo u)" "pmt_cached (pmt_demo u) a \<longleftrightarrow> CLUSTER_INDEX a = 0"
  by (auto simp: slots_distinct_def pmt_cached_def split: if_splits)

theorem PMT_Update_Search_witness:
  "\<exists>s'. PMT_Update (ubi_over sim_mtd) 5 40 63 True (pmt_demo (ubi_start sim_start)) = Some (STATUS_SUCCESS, s') \<and>
    PMT_Search (ubi_over sim_mtd) 5 0 0 s' = Some (STATUS_SUCCESS, 40, 63, s')"
proof -
  have "CLUSTER_INDEX 5 = 0" by (simp add: CLUSTER_INDEX_def)
  then show ?thesis
    using PMT_Update_Search [OF pmt_demo_ok(1), of "ubi_start sim_start" 5 5 40 63 "ubi_over sim_mtd" True 0 0]
    by (simp add: pmt_demo_ok(2))
qed

end
