(* ===== verification/Tag.thy ===== *)
theory Tag
  imports Prelude
begin

text \<open>
  The tag byte of a SCSI command and its decoding by the SSD (recovery/recovery.c and
  recovery/recovery.h of the data backup and recovery modules).
\<close>

definition RANSOMTAG :: u8 where "RANSOMTAG = 0x7"
definition RANSOMTAG_MFT :: u8 where "RANSOMTAG_MFT = 0x8"
definition RECOVERTAG :: u8 where "RECOVERTAG = 0x10"
definition MFT_RESERVED_SECTOR_START :: u32 where "MFT_RESERVED_SECTOR_START = 850000"
definition MFT_RESERVED_SECTOR_END :: u32 where "MFT_RESERVED_SECTOR_END = 950032"

lemma tag_values [simp]:
  "RANSOMTAG = 0x7" "RANSOMTAG_MFT = 0x8" "RECOVERTAG = 0x10"
  "MFT_RESERVED_SECTOR_START = 850000" "MFT_RESERVED_SECTOR_END = 950032"
  by (simp_all add: RANSOMTAG_def RANSOMTAG_MFT_def RECOVERTAG_def
      MFT_RESERVED_SECTOR_START_def MFT_RESERVED_SECTOR_END_def)

definition CheckTag :: "u8 \<Rightarrow> int" where
  "CheckTag cdb =
     (if cdb = 0 then 0
      else if cdb AND RANSOMTAG = RANSOMTAG then 1
      else if cdb AND RANSOMTAG_MFT = RANSOMTAG_MFT then 2
      else if cdb AND RECOVERTAG = RECOVERTAG then 3
      else - 1)"

text \<open>The three tags occupy disjoint bits, so each test reads its own bits only.\<close>

lemma bit_tags:
  "bit (0x7 :: u8) n \<longleftrightarrow> n < 3" "bit (0x8 :: u8) n \<longleftrightarrow> n = 3" "bit (0x10 :: u8) n \<longleftrightarrow> n = 4"
proof -
  have m: "(0x7 :: u8) = mask 3" by (simp add: mask_eq_exp_minus_1)
  show "bit (0x7 :: u8) n \<longleftrightarrow> n < 3" unfolding m bit_mask_iff by auto
  show "bit (0x8 :: u8) n \<longleftrightarrow> n = 3"
    using bit_exp_iff [of 3 n, where 'a = "8 word"] by auto
  show "bit (0x10 :: u8) n \<longleftrightarrow> n = 4"
    using bit_exp_iff [of 4 n, where 'a = "8 word"] by auto
qed

lemma and_eq_mask_iff: "(c :: u8) AND t = t \<longleftrightarrow> (\<forall>n < 8. bit t n \<longrightarrow> bit c n)"
  by (auto simp: bit_eq_iff [where 'a = "8 word"] bit_and_iff)

lemma all_less_eight:
  "(\<forall>n < 8. P (n :: nat)) \<longleftrightarrow> P 0 \<and> P 1 \<and> P 2 \<and> P 3 \<and> P 4 \<and> P 5 \<and> P 6 \<and> P 7"
  by (simp add: eval_nat_numeral All_less_Suc) blast

lemma and_tag_iff:
  "(c :: u8) AND 0x7 = 0x7 \<longleftrightarrow> bit c 0 \<and> bit c 1 \<and> bit c 2"
  "c AND 0x8 = 0x8 \<longleftrightarrow> bit c 3"
  "c AND 0x10 = 0x10 \<longleftrightarrow> bit c 4"
  unfolding and_eq_mask_iff bit_tags all_less_eight by auto

text \<open>\<open>CheckTag\<close> reads three disjoint bit fields of the tag byte: all of bits 0 to 2 mark ransomware
  data, else bit 3 a write to the master file table, else bit 4 a recovery request.\<close>

theorem CheckTag_bits:
  "CheckTag c = (if bit c 0 \<and> bit c 1 \<and> bit c 2 then 1 else if bit c 3 then 2 else if bit c 4 then 3
     else if c = 0 then 0 else - 1)"
  by (simp add: CheckTag_def and_tag_iff)

end
