(* ===== verification/Ftl_Data.thy ===== *)
theory Ftl_Data
  imports Ftl_Pmt Tag
begin

text \<open>
  The data blocks of the FTL, core/ftl/ftl_data.c: writing a page to a hot or cold journal with the
  address of the version it replaces in the spare words, reclaiming the dirtiest data block, and
  replaying a journal at mount.
\<close>

section \<open>Journals\<close>

text \<open>The hot and the cold journal: its addresses in the root table, its meta data, its edition.\<close>

definition journal_of :: "bool \<Rightarrow> 'u ftl_state \<Rightarrow> u32 \<Rightarrow> JOURNAL_ADDR" where
  "journal_of is_hot s = (if is_hot then hot_journal (root_table s) else cold_journal (root_table s))"

definition set_journal :: "bool \<Rightarrow> u32 \<Rightarrow> JOURNAL_ADDR \<Rightarrow> 'u ftl_state \<Rightarrow> 'u ftl_state" where
  "set_journal is_hot j v s = s\<lparr>root_table :=
     (if is_hot then (root_table s)\<lparr>hot_journal := (hot_journal (root_table s))(j := v)\<rparr>
      else (root_table s)\<lparr>cold_journal := (cold_journal (root_table s))(j := v)\<rparr>)\<rparr>"

definition set_reclaim_journal :: "u32 \<Rightarrow> JOURNAL_ADDR \<Rightarrow> 'u ftl_state \<Rightarrow> 'u ftl_state" where
  "set_reclaim_journal j v s = s\<lparr>root_table :=
     (root_table s)\<lparr>reclaim_journal := (reclaim_journal (root_table s))(j := v)\<rparr>\<rparr>"

definition meta_of :: "bool \<Rightarrow> 'u ftl_state \<Rightarrow> u32 \<Rightarrow> mem" where
  "meta_of is_hot s = (if is_hot then hot_meta_data s else cold_meta_data s)"

definition set_meta :: "bool \<Rightarrow> u32 \<Rightarrow> mem \<Rightarrow> 'u ftl_state \<Rightarrow> 'u ftl_state" where
  "set_meta is_hot k v s =
     (if is_hot then s\<lparr>hot_meta_data := (hot_meta_data s)(k := v)\<rparr>
      else s\<lparr>cold_meta_data := (cold_meta_data s)(k := v)\<rparr>)"

text \<open>The meta data from entry \<open>k\<close> on as memory: four words a page.\<close>

definition meta_words :: "u32 \<Rightarrow> (u32 \<Rightarrow> mem) \<Rightarrow> mem" where
  "meta_words k m n = m (k + of_nat (n div SPARE_WORDS)) (n mod SPARE_WORDS)"

definition edition_of :: "bool \<Rightarrow> 'u ftl_state \<Rightarrow> u32" where
  "edition_of is_hot s = (if is_hot then edition_in_hot_journal s else edition_in_cold_journal s)"

definition set_edition :: "bool \<Rightarrow> u32 \<Rightarrow> 'u ftl_state \<Rightarrow> 'u ftl_state" where
  "set_edition is_hot e s = (if is_hot then s\<lparr>edition_in_hot_journal := e\<rparr> else s\<lparr>edition_in_cold_journal := e\<rparr>)"

section \<open>Format\<close>

text \<open>The three loops of \<open>DATA_Format\<close> differ in the journal they set.\<close>

definition data_format_journal :: "'u ubi_ops \<Rightarrow> (u32 \<Rightarrow> JOURNAL_ADDR \<Rightarrow> 'u ftl_state \<Rightarrow> 'u ftl_state) \<Rightarrow>
    STATUS \<times> u32 \<times> 'u ftl_state \<Rightarrow> (STATUS \<times> u32 \<times> 'u ftl_state) option" where
  "data_format_journal U set_j = for_each (upto_u32 0 JOURNAL_BLOCK_COUNT) (\<lambda>i (ret, block, s). do {
     (ret, s) \<leftarrow> (if ret = STATUS_SUCCESS then ubi_erase U block block s else Some (ret, s));
     Some (if ret = STATUS_SUCCESS
       then (ret, block + 1, set_dirty_count block 0 (set_j i (PM_NODE_SET_BLOCKPAGE block 0) s))
       else (ret, block, s)) })"

definition DATA_Format :: "'u ubi_ops \<Rightarrow> 'u ftl_state \<Rightarrow> (STATUS \<times> 'u ftl_state) option" where
  "DATA_Format U s = do {
     let s = fold (\<lambda>i. set_dirty_count i (ucast MAX_DIRTY_PAGES)) (upto_u32 0 CFG_LOG_BLOCK_COUNT) s;
     v \<leftarrow> data_format_journal U (set_journal True) (STATUS_SUCCESS, DATA_START_BLOCK, s);
     v \<leftarrow> data_format_journal U (set_journal False) v;
     (_, _, s) \<leftarrow> data_format_journal U set_reclaim_journal v;
     Some (STATUS_SUCCESS, s) }"

section \<open>Writing a page\<close>

text \<open>
  What a tagged write remembers: the status, the flash address of the version to keep (the page's
  current one, or the one that already keeps, in its spare words, the last benign version) and whether
  there is a version to back up at all. Without a mapping the address stays uninitialised.
\<close>

definition data_old_version :: "'u ubi_ops \<Rightarrow> u32 \<Rightarrow> bool \<Rightarrow> bool \<Rightarrow> 'u ftl_state \<Rightarrow>
    (STATUS \<times> PM_NODE_ADDR \<times> bool \<times> 'u ftl_state) option" where
  "data_old_version U addr flag mft s =
     (if flag \<or> mft then do {
        (ret, oldBlock, oldPage, s) \<leftarrow> PMT_Search U addr (f_uninit s 0) (f_uninit s 1) s;
        if oldBlock \<noteq> INVALID_BLOCK \<and> oldPage \<noteq> INVALID_PAGE then do {
          (ret, _, sp, s) \<leftarrow> ubi_read U oldBlock oldPage None (Some (f_uninit s)) s;
          let oldSpare = the sp;
          let oldLogicAddr = PM_NODE_SET_BLOCKPAGE oldBlock oldPage;
          Some (ret, if \<not> mft \<and> ret = STATUS_SUCCESS \<and> oldSpare 2 \<noteq> INVALID_PM_NODE then oldSpare 2
                     else oldLogicAddr, flag, s) }
        else Some (ret, f_uninit s 2, False, s) }
      else Some (STATUS_SUCCESS, f_uninit s 2, flag, s))"

text \<open>The search for an idle journal block; \<open>off\<close> is the entry \<open>data_journal\<close> points to.\<close>

partial_function (option) data_idle_loop :: "'u ubi_ops \<Rightarrow> bool \<Rightarrow> STATUS \<Rightarrow> u32 \<Rightarrow> 'u ftl_state \<Rightarrow>
    (STATUS \<times> u32 \<times> 'u ftl_state) option" where
  "data_idle_loop U is_hot ret off s = do {
     (ret, off, s) \<leftarrow> for_break (upto_u32 0 JOURNAL_BLOCK_COUNT)
        (\<lambda>i (ret, off, s).
           let j = journal_of is_hot s (off + i) in
           if PM_NODE_PAGE j < PAGE_PER_PHY_BLOCK - 1 then do {
             (ret, s) \<leftarrow> ubi_read_status U (PM_NODE_BLOCK j) s;
             Some (if ret = STATUS_SUCCESS then (True, ret, off + i, s) else (False, ret, off, s)) }
           else Some (False, ret, off, s)) (ret, off, s);
     if ret = STATUS_DIE_BUSY then data_idle_loop U is_hot ret off s else Some (ret, off, s) }"

text \<open>The spare words of the new page, and whether the old version's block is to be kept.\<close>

definition data_spare :: "u32 \<Rightarrow> u32 \<Rightarrow> PM_NODE_ADDR \<Rightarrow> bool \<Rightarrow> bool \<Rightarrow> mem \<Rightarrow> mem \<times> bool" where
  "data_spare addr edition oldLogicAddr is_backup mft m =
     (let (m, is_backup) =
        (if is_backup \<or> mft then
           if 2048 < PM_NODE_BLOCK oldLogicAddr
           then (m(2 := INVALID_PM_NODE, 3 := INVALID_PM_NODE), False)
           else (m(2 := oldLogicAddr, 3 := oldLogicAddr), is_backup)
         else (m(2 := INVALID_PM_NODE, 3 := INVALID_PM_NODE), is_backup))
      in (m(0 := addr, 1 := edition), is_backup))"

definition DATA_Write :: "'u ubi_ops \<Rightarrow> u32 \<Rightarrow> buf option \<Rightarrow> bool \<Rightarrow> bool \<Rightarrow> bool \<Rightarrow> 'u ftl_state \<Rightarrow>
    (STATUS \<times> 'u ftl_state) option" where
  "DATA_Write U addr buffer is_hot flag mft s = do {
     (ret, oldLogicAddr, is_backup, s) \<leftarrow> data_old_version U addr flag mft s;
     (ret, j, s) \<leftarrow> data_idle_loop U is_hot ret 0 s;
     ASSERT (ret = STATUS_SUCCESS);
     case buffer of
       Some b \<Rightarrow> do {
         let block = PM_NODE_BLOCK (journal_of is_hot s j);
         let page = PM_NODE_PAGE (journal_of is_hot s j);
         let k = j * PAGE_PER_PHY_BLOCK + page;
         let (m, is_backup) = data_spare addr (edition_of is_hot s) oldLogicAddr is_backup mft (meta_of is_hot s k);
         let s = set_meta is_hot k m s;
         let s = set_edition is_hot (edition_of is_hot s + 1) s;
         (ret, s) \<leftarrow> ubi_write U block page b (Some m) True s;
         (ret, s) \<leftarrow> (if ret = STATUS_SUCCESS then PMT_Update U addr block page is_backup s else Some (ret, s));
         let s = (if ret = STATUS_SUCCESS then set_journal is_hot j (PM_NODE_SET_BLOCKPAGE block (page + 1)) s else s);
         if PM_NODE_PAGE (journal_of is_hot s j) = PAGE_PER_PHY_BLOCK - 1
         then ubi_write U block (PAGE_PER_PHY_BLOCK - 1)
                (OtherMem (meta_words (j * PAGE_PER_PHY_BLOCK) (meta_of is_hot s))) None False s
         else Some (ret, s) }
     | None \<Rightarrow> PMT_Update U addr INVALID_BLOCK INVALID_PAGE is_backup s }"

definition DATA_IsFull :: "bool \<Rightarrow> 'u ftl_state \<Rightarrow> bool" where
  "DATA_IsFull is_hot s =
     (\<forall>i \<in> set (upto_u32 0 JOURNAL_BLOCK_COUNT). \<not> PM_NODE_PAGE (journal_of is_hot s i) < PAGE_PER_PHY_BLOCK - 1)"

section \<open>Reclaim\<close>

text \<open>
  The search for the dirtiest blocks. A pass visits the data blocks, except the other journal's; a
  block whose dirty count is the target is taken, and the next target is the largest smaller count seen.
\<close>

record data_scan =
  ds_found :: u32
  ds_total :: u32
  ds_next :: u32
  ds_blocks :: "u32 \<Rightarrow> u32"

fun data_scan_pass :: "(u32 \<Rightarrow> bool) \<Rightarrow> (u32 \<Rightarrow> u8) \<Rightarrow> u32 \<Rightarrow> u32 list \<Rightarrow> data_scan \<Rightarrow> data_scan" where
  "data_scan_pass excluded bdt target [] v = v"
| "data_scan_pass excluded bdt target (i # is) v =
     (if excluded i then data_scan_pass excluded bdt target is v
      else
        let dirty = ucast (bdt i);
            v = (if dirty = target
                 then v\<lparr>ds_blocks := (ds_blocks v)(ds_found v := i),
                        ds_total := ds_total v + (MAX_DIRTY_PAGES - dirty), ds_found := ds_found v + 1\<rparr>
                 else if dirty < target \<and> ds_next v < dirty then v\<lparr>ds_next := dirty\<rparr> else v)
        in if ds_found v = JOURNAL_BLOCK_COUNT then v else data_scan_pass excluded bdt target is v)"

partial_function (option) data_find_blocks ::
    "(u32 \<Rightarrow> bool) \<Rightarrow> (u32 \<Rightarrow> u8) \<Rightarrow> u32 list \<Rightarrow> u32 \<Rightarrow> data_scan \<Rightarrow> data_scan option" where
  "data_find_blocks excluded bdt blocks target v =
     (if ds_found v \<noteq> JOURNAL_BLOCK_COUNT
      then let v = data_scan_pass excluded bdt target blocks v
           in data_find_blocks excluded bdt blocks (ds_next v) (v\<lparr>ds_next := 0\<rparr>)
      else Some v)"

text \<open>The blocks from \<open>DATA_START_BLOCK\<close> to \<open>DATA_LAST_BLOCK\<close> (the capacity is positive once mounted).\<close>

definition data_blocks :: "'u ubi_ops \<Rightarrow> 'u ftl_state \<Rightarrow> u32 list" where
  "data_blocks U s = upto_u32 DATA_START_BLOCK (u_Capacity U (ubi s))"

definition is_journal_block :: "bool \<Rightarrow> 'u ftl_state \<Rightarrow> u32 \<Rightarrow> bool" where
  "is_journal_block hot s i = (\<exists>j \<in> set (upto_u32 0 JOURNAL_BLOCK_COUNT). i = PM_NODE_BLOCK (journal_of hot s j))"

text \<open>One page of a reclaimed block: the next reclaim page and the pages moved so far are carried.\<close>

definition data_reclaim_page :: "'u ubi_ops \<Rightarrow> bool \<Rightarrow> u32 \<Rightarrow> u32 \<Rightarrow> u32 \<Rightarrow> u32 \<Rightarrow>
    STATUS \<times> u32 \<times> u32 \<times> 'u ftl_state \<Rightarrow> (STATUS \<times> u32 \<times> u32 \<times> 'u ftl_state) option" where
  "data_reclaim_page U is_hot j reclaim_block dirty_block page = (\<lambda>(ret, rpage, total, s).
     if ret = STATUS_SUCCESS then do {
       let addr = pages_buffer s (unat page * SPARE_WORDS);
       (ret, true_block, true_page, s) \<leftarrow> PMT_Search U addr INVALID_BLOCK INVALID_PAGE s;
       if ret = STATUS_SUCCESS \<and> true_block = dirty_block \<and> true_page = page then do {
         (ret, buf, sp, s) \<leftarrow> ubi_read U dirty_block page (Some (data_buffer s)) (Some (f_uninit s)) s;
         let s = s\<lparr>data_buffer := the buf\<rparr>;
         let spare = (if ret = STATUS_SUCCESS then (the sp)(1 := total) else the sp);
         (ret, s) \<leftarrow> (if ret = STATUS_SUCCESS
            then ubi_write U reclaim_block rpage (OtherMem (data_buffer s)) (Some spare) False s
            else Some (ret, s));
         if ret = STATUS_SUCCESS then do {
           (ret, s) \<leftarrow> PMT_Update U addr reclaim_block rpage False s;
           ASSERT (spare 0 = addr);
           ASSERT (spare 1 = total);
           let k = j * PAGE_PER_PHY_BLOCK + rpage;
           let s = set_meta is_hot k ((meta_of is_hot s k)(0 := spare 0, 1 := spare 1)) s;
           Some (if ret = STATUS_SUCCESS
             then (ret, rpage + 1, total + 1,
                   set_reclaim_journal j (PM_NODE_SET_BLOCKPAGE reclaim_block (rpage + 1)) s)
             else (ret, rpage, total, s)) }
         else Some (ret, rpage, total, s) }
       else Some (ret, rpage, total, s) }
     else Some (ret, rpage, total, s))"

definition data_reclaim_block :: "'u ubi_ops \<Rightarrow> bool \<Rightarrow> u32 \<Rightarrow> STATUS \<times> u32 \<times> 'u ftl_state \<Rightarrow>
    (STATUS \<times> u32 \<times> 'u ftl_state) option" where
  "data_reclaim_block U is_hot j = (\<lambda>(_, total, s). do {
     let reclaim_block = PM_NODE_BLOCK (reclaim_journal (root_table s) j);
     let dirty_block = dirty_blocks s j;
     (ret, buf, _, s) \<leftarrow> ubi_read U dirty_block (PAGE_PER_PHY_BLOCK - 1) (Some (pages_buffer s)) None s;
     let s = s\<lparr>pages_buffer := the buf\<rparr>;
     if ret = STATUS_SUCCESS then do {
       (ret, _, total, s) \<leftarrow> for_each (upto_u32 0 (PAGE_PER_PHY_BLOCK - 1))
          (data_reclaim_page U is_hot j reclaim_block dirty_block) (ret, 0, total, s);
       Some (ret, total, s) }
     else Some (ret, total, s) })"

definition data_switch_journal :: "'u ubi_ops \<Rightarrow> bool \<Rightarrow> u32 \<Rightarrow> STATUS \<times> 'u ftl_state \<Rightarrow>
    (STATUS \<times> 'u ftl_state) option" where
  "data_switch_journal U is_hot j = (\<lambda>(ret, s). do {
     (ret, s) \<leftarrow> (if ret = STATUS_SUCCESS then ubi_erase U (dirty_blocks s j) j s else Some (ret, s));
     if ret = STATUS_SUCCESS then do {
       let s = set_journal is_hot j (reclaim_journal (root_table s) j) s;
       let s = set_reclaim_journal j (PM_NODE_SET_BLOCKPAGE (dirty_blocks s j) 0) s;
       let s = set_dirty_count (dirty_blocks s j) 0 s;
       Some (ret, set_dirty_count (PM_NODE_BLOCK (journal_of is_hot s j)) 0 s) }
     else Some (ret, s) })"

definition data_take_block :: "'u ubi_ops \<Rightarrow> bool \<Rightarrow> u32 \<Rightarrow> STATUS \<times> 'u ftl_state \<Rightarrow>
    (STATUS \<times> 'u ftl_state) option" where
  "data_take_block U is_hot j = (\<lambda>(ret, s). do {
     (ret, s) \<leftarrow> (if ret = STATUS_SUCCESS then ubi_erase U (dirty_blocks s j) j s else Some (ret, s));
     Some (ret, if ret = STATUS_SUCCESS
       then set_dirty_count (dirty_blocks s j) 0
              (set_journal is_hot j (PM_NODE_SET_BLOCKPAGE (dirty_blocks s j) 0) s)
       else s) })"

definition DATA_Reclaim :: "'u ubi_ops \<Rightarrow> bool \<Rightarrow> 'u ftl_state \<Rightarrow> (STATUS \<times> 'u ftl_state) option" where
  "DATA_Reclaim U is_hot s = do {
     (ret, s) \<leftarrow> ubi_flush U s;
     if ret = STATUS_SUCCESS then do {
       v \<leftarrow> data_find_blocks (is_journal_block (\<not> is_hot) s) (block_dirty_table s) (data_blocks U s)
              MAX_DIRTY_PAGES \<lparr>ds_found = 0, ds_total = 0, ds_next = 0, ds_blocks = dirty_blocks s\<rparr>;
       let s = s\<lparr>dirty_blocks := ds_blocks v\<rparr>;
       (ret, s) \<leftarrow>
         (if ds_total v \<noteq> 0 then do {
            (ret, total, s) \<leftarrow> for_each (upto_u32 0 JOURNAL_BLOCK_COUNT) (data_reclaim_block U is_hot) (ret, 0, s);
            ASSERT (ds_total v = total);
            for_each (upto_u32 0 JOURNAL_BLOCK_COUNT) (data_switch_journal U is_hot) (ret, s) }
          else for_each (upto_u32 0 JOURNAL_BLOCK_COUNT) (data_take_block U is_hot) (ret, s));
       Some (ret, if ret = STATUS_SUCCESS then set_edition is_hot (ds_total v) s else s) }
     else Some (ret, s) }"

section \<open>Replay\<close>

definition data_replay_step :: "'u ubi_ops \<Rightarrow> bool \<Rightarrow> u32 \<Rightarrow> u32 \<times> 'u ftl_state \<Rightarrow>
    (bool \<times> u32 \<times> 'u ftl_state) option" where
  "data_replay_step U is_hot j = (\<lambda>(journal_edition, s). do {
     let block = PM_NODE_BLOCK (journal_of is_hot s j);
     let page = PM_NODE_PAGE (journal_of is_hot s j);
     (ret, _, sp, s) \<leftarrow> ubi_read U block page None (Some (f_uninit s)) s;
     let spare = the sp;
     if ret = STATUS_SUCCESS \<and> spare 1 \<noteq> journal_edition then Some (False, journal_edition, s)
     else do {
       (ret, s) \<leftarrow> (if ret = STATUS_SUCCESS then PMT_Update U (spare 0) block page False s else Some (ret, s));
       Some (if ret = STATUS_SUCCESS
         then (True, journal_edition + 1, set_journal is_hot j (PM_NODE_SET_BLOCKPAGE block (page + 1)) s)
         else (False, MAX_UINT32, set_edition is_hot journal_edition s)) } })"

partial_function (option) data_replay_loop :: "'u ubi_ops \<Rightarrow> bool \<Rightarrow> u32 \<Rightarrow> 'u ftl_state \<Rightarrow> 'u ftl_state option" where
  "data_replay_loop U is_hot journal_edition s =
     (if journal_edition \<noteq> MAX_UINT32 then do {
        (journal_edition, s) \<leftarrow> for_break (upto_u32 0 JOURNAL_BLOCK_COUNT) (data_replay_step U is_hot) (journal_edition, s);
        data_replay_loop U is_hot journal_edition s }
      else Some s)"

definition data_rebuild_page :: "'u ubi_ops \<Rightarrow> bool \<Rightarrow> u32 \<Rightarrow> u32 \<Rightarrow> u32 \<Rightarrow> STATUS \<times> 'u ftl_state \<Rightarrow>
    (bool \<times> STATUS \<times> 'u ftl_state) option" where
  "data_rebuild_page U is_hot j block page = (\<lambda>(ret, s). do {
     (ret, sp, s) \<leftarrow> (if ret = STATUS_SUCCESS then do {
          (ret, _, sp, s) \<leftarrow> ubi_read U block page None (Some (f_uninit s)) s;
          Some (ret, the sp, s) } else Some (ret, f_uninit s, s));
     let k = j * PAGE_PER_PHY_BLOCK + page;
     if ret = STATUS_SUCCESS
     then Some (False, ret, set_meta is_hot k ((meta_of is_hot s k)(0 := sp 0, 1 := sp 1)) s)
     else if page = PAGE_PER_PHY_BLOCK - 1 then do {
       (ret, s) \<leftarrow> ubi_write U block (PAGE_PER_PHY_BLOCK - 1)
          (OtherMem (meta_words (j * PAGE_PER_PHY_BLOCK) (meta_of is_hot s))) None False s;
       Some (False, ret, s) }
     else Some (True, STATUS_SUCCESS, s) })"

definition DATA_Replay :: "'u ubi_ops \<Rightarrow> bool \<Rightarrow> 'u ftl_state \<Rightarrow> (STATUS \<times> 'u ftl_state) option" where
  "DATA_Replay U is_hot s = do {
     s \<leftarrow> data_replay_loop U is_hot 0 s;
     for_each (upto_u32 0 JOURNAL_BLOCK_COUNT)
       (\<lambda>j (ret, s). for_break (upto_u32 0 PAGE_PER_PHY_BLOCK)
          (data_rebuild_page U is_hot j (PM_NODE_BLOCK (journal_of is_hot s j))) (ret, s)) (STATUS_SUCCESS, s) }"

section \<open>The victim of a reclaim\<close>

definition victims :: "(u32 \<Rightarrow> bool) \<Rightarrow> (u32 \<Rightarrow> u8) \<Rightarrow> u32 list \<Rightarrow> u32 \<Rightarrow> u32 set" where
  "victims excluded bdt blocks n = {i \<in> set blocks. \<not> excluded i \<and> ucast (bdt i) = n}"

lemma scan_pass_none:
  assumes "victims excluded bdt is target = {}" "ds_found v = 0"
  shows "\<exists>n. data_scan_pass excluded bdt target is v = v\<lparr>ds_next := n\<rparr> \<and> ds_next v \<le> n \<and>
     (n = ds_next v \<or> n < target \<and> victims excluded bdt is n \<noteq> {}) \<and>
     (\<forall>m < target. victims excluded bdt is m \<noteq> {} \<longrightarrow> m \<le> n)"
  using assms
proof (induction "is" arbitrary: v)
  case Nil
  then show ?case by (auto simp: victims_def intro!: exI [of _ "ds_next v"])
next
  case (Cons i "is")
  define d :: u32 where "d = ucast (bdt i)"
  show ?case
  proof (cases "excluded i")
    case True
    then have "victims excluded bdt (i # is) n = victims excluded bdt is n" for n by (auto simp: victims_def)
    with Cons True show ?thesis by simp
  next
    case False
    have ne: "d \<noteq> target" and rest: "victims excluded bdt is target = {}"
      using Cons.prems(1) False by (auto simp: victims_def d_def)
    have vi: "victims excluded bdt (i # is) n = (if n = d then insert i (victims excluded bdt is n) else victims excluded bdt is n)" for n
      using False by (auto simp: victims_def d_def)
    define w where "w = (if d < target \<and> ds_next v < d then v\<lparr>ds_next := d\<rparr> else v)"
    have w: "ds_found w = 0" "ds_next w = (if d < target \<and> ds_next v < d then d else ds_next v)" "v\<lparr>ds_next := n\<rparr> = w\<lparr>ds_next := n\<rparr>" for n
      using Cons.prems(2) by (simp_all add: w_def)
    have step: "data_scan_pass excluded bdt target (i # is) v = data_scan_pass excluded bdt target is w"
      using False ne Cons.prems(2) by (simp add: Let_def d_def [symmetric] flip: w_def) (simp add: w_def)
    from Cons.IH [OF rest w(1)] obtain n where n: "data_scan_pass excluded bdt target is w = w\<lparr>ds_next := n\<rparr>"
      "ds_next w \<le> n" "n = ds_next w \<or> n < target \<and> victims excluded bdt is n \<noteq> {}"
      "\<forall>m < target. victims excluded bdt is m \<noteq> {} \<longrightarrow> m \<le> n" by blast
    show ?thesis
      unfolding step n(1) vi using n(2-4) by (intro exI [of _ n]) (auto simp: w(2) w(3) split: if_splits)
  qed
qed

lemma scan_pass_found:
  assumes "victims excluded bdt is target \<noteq> {}" "ds_found v = 0"
  shows "\<exists>i n. i \<in> victims excluded bdt is target \<and>
     data_scan_pass excluded bdt target is v = v\<lparr>ds_found := 1, ds_total := ds_total v + (MAX_DIRTY_PAGES - target),
       ds_next := n, ds_blocks := (ds_blocks v)(0 := i)\<rparr>"
  using assms
proof (induction "is" arbitrary: v)
  case Nil
  then show ?case by (simp add: victims_def)
next
  case (Cons i "is")
  define d :: u32 where "d = ucast (bdt i)"
  have sub: "victims excluded bdt is n \<subseteq> victims excluded bdt (i # is) n" for n by (auto simp: victims_def)
  consider "excluded i" | "\<not> excluded i" "d = target" | "\<not> excluded i" "d \<noteq> target" by blast
  then show ?case
  proof cases
    case 1
    then have "victims excluded bdt (i # is) target = victims excluded bdt is target" by (auto simp: victims_def)
    with Cons 1 show ?thesis by simp
  next
    case 2
    then have "i \<in> victims excluded bdt (i # is) target" by (simp add: victims_def d_def)
    moreover have "data_scan_pass excluded bdt target (i # is) v = v\<lparr>ds_found := 1, ds_total := ds_total v + (MAX_DIRTY_PAGES - target),
       ds_next := ds_next v, ds_blocks := (ds_blocks v)(0 := i)\<rparr>"
      using 2 Cons.prems(2) by (simp add: Let_def d_def)
    ultimately show ?thesis by blast
  next
    case 3
    define w where "w = (if d < target \<and> ds_next v < d then v\<lparr>ds_next := d\<rparr> else v)"
    have step: "data_scan_pass excluded bdt target (i # is) v = data_scan_pass excluded bdt target is w"
      using 3 Cons.prems(2) by (simp add: Let_def d_def [symmetric] flip: w_def) (simp add: w_def)
    have "victims excluded bdt is target \<noteq> {}" "ds_found w = 0"
      using Cons.prems 3 by (auto simp: victims_def d_def w_def)
    from Cons.IH [OF this] obtain k n where k: "k \<in> victims excluded bdt is target"
      "data_scan_pass excluded bdt target is w = w\<lparr>ds_found := 1, ds_total := ds_total w + (MAX_DIRTY_PAGES - target),
       ds_next := n, ds_blocks := (ds_blocks w)(0 := k)\<rparr>" by blast
    moreover have "w\<lparr>ds_found := 1, ds_total := ds_total w + (MAX_DIRTY_PAGES - target), ds_next := n, ds_blocks := (ds_blocks w)(0 := k)\<rparr> =
      v\<lparr>ds_found := 1, ds_total := ds_total v + (MAX_DIRTY_PAGES - target), ds_next := n, ds_blocks := (ds_blocks v)(0 := k)\<rparr>"
      by (simp add: w_def)
    ultimately have "data_scan_pass excluded bdt target (i # is) v =
      v\<lparr>ds_found := 1, ds_total := ds_total v + (MAX_DIRTY_PAGES - target), ds_next := n, ds_blocks := (ds_blocks v)(0 := k)\<rparr>"
      using step by simp
    then show ?thesis using subsetD [OF sub k(1)] by blast
  qed
qed

lemma find_blocks_found:
  assumes "victims excluded bdt blocks target \<noteq> {}" "ds_found v = 0"
  shows "\<exists>i. i \<in> victims excluded bdt blocks target \<and>
     data_find_blocks excluded bdt blocks target v = Some (v\<lparr>ds_found := 1, ds_total := ds_total v + (MAX_DIRTY_PAGES - target),
       ds_next := 0, ds_blocks := (ds_blocks v)(0 := i)\<rparr>)"
proof -
  from scan_pass_found [OF assms] obtain i n where i: "i \<in> victims excluded bdt blocks target"
     "data_scan_pass excluded bdt target blocks v = v\<lparr>ds_found := 1, ds_total := ds_total v + (MAX_DIRTY_PAGES - target),
       ds_next := n, ds_blocks := (ds_blocks v)(0 := i)\<rparr>" by blast
  then have "data_find_blocks excluded bdt blocks target v = Some (v\<lparr>ds_found := 1, ds_total := ds_total v + (MAX_DIRTY_PAGES - target),
       ds_next := 0, ds_blocks := (ds_blocks v)(0 := i)\<rparr>)"
    using assms(2) by (simp add: data_find_blocks.simps Let_def)
  with i(1) show ?thesis by blast
qed

text \<open>With a usable block at or below the target the search ends with the dirtiest such block.\<close>

lemma find_blocks_max:
  assumes "victims excluded bdt blocks n \<noteq> {}" "n \<le> target" "ds_found v = 0" "ds_next v = 0" "target \<le> 63"
  shows "\<exists>i m. n \<le> m \<and> m \<le> target \<and> i \<in> victims excluded bdt blocks m \<and>
     (\<forall>k \<le> target. victims excluded bdt blocks k \<noteq> {} \<longrightarrow> k \<le> m) \<and>
     data_find_blocks excluded bdt blocks target v = Some (v\<lparr>ds_found := 1, ds_total := ds_total v + (MAX_DIRTY_PAGES - m),
       ds_next := 0, ds_blocks := (ds_blocks v)(0 := i)\<rparr>)"
  using assms
proof (induction "unat target" arbitrary: target rule: less_induct)
  case less
  show ?case
  proof (cases "victims excluded bdt blocks target = {}")
    case False
    from find_blocks_found [OF this less.prems(3)] obtain i where "i \<in> victims excluded bdt blocks target"
      "data_find_blocks excluded bdt blocks target v = Some (v\<lparr>ds_found := 1, ds_total := ds_total v + (MAX_DIRTY_PAGES - target),
       ds_next := 0, ds_blocks := (ds_blocks v)(0 := i)\<rparr>)" by blast
    with less.prems(2) show ?thesis
      by - (rule exI [of _ i], rule exI [of _ target], simp)
  next
    case True
    from scan_pass_none [OF True less.prems(3)] obtain t where t:
      "data_scan_pass excluded bdt target blocks v = v\<lparr>ds_next := t\<rparr>"
      "t = ds_next v \<or> t < target \<and> victims excluded bdt blocks t \<noteq> {}"
      "\<forall>m < target. victims excluded bdt blocks m \<noteq> {} \<longrightarrow> m \<le> t" by blast
    have n: "n < target" using True less.prems(1,2) by (cases "n = target") auto
    then have nt: "n \<le> t" using t(3) less.prems(1) by blast
    have tt: "t < target"
    proof (rule ccontr)
      assume "\<not> t < target"
      then have "t = 0" using t(2) less.prems(4) by auto
      then have "n = 0" using nt by simp
      with n \<open>\<not> t < target\<close> \<open>t = 0\<close> show False by simp
    qed
    have v0: "v\<lparr>ds_next := 0\<rparr> = v" using less.prems(4) by (cases v) simp
    have step: "data_find_blocks excluded bdt blocks target v = data_find_blocks excluded bdt blocks t v"
      using less.prems(3,4) t(1) by (subst data_find_blocks.simps) (simp add: Let_def, simp only: v0)
    have "unat t < unat target" using tt by (simp add: word_less_nat_alt)
    have t63: "t \<le> 63" using tt less.prems(5) by (rule order.trans [OF less_imp_le])
    from less.hyps [OF \<open>unat t < unat target\<close> less.prems(1) nt less.prems(3,4) t63]
    obtain i m where im: "n \<le> m" "m \<le> t" "i \<in> victims excluded bdt blocks m"
      "\<forall>k \<le> t. victims excluded bdt blocks k \<noteq> {} \<longrightarrow> k \<le> m"
      "data_find_blocks excluded bdt blocks t v = Some (v\<lparr>ds_found := 1, ds_total := ds_total v + (MAX_DIRTY_PAGES - m),
       ds_next := 0, ds_blocks := (ds_blocks v)(0 := i)\<rparr>)"
      by (elim exE conjE)
    have "k \<le> m" if "k \<le> target" "victims excluded bdt blocks k \<noteq> {}" for k
    proof -
      have "k < target" using that True by (cases "k = target") auto
      then have "k \<le> t" using t(3) that(2) by blast
      then show ?thesis using im(4) that(2) by blast
    qed
    moreover have "m \<le> target" using im(2) tt by simp
    ultimately show ?thesis using im(1,3,5) by (intro exI conjI) (simp_all only: step not_False_eq_True imp_conjL, blast+)
  qed
qed

lemma find_blocks_never:
  assumes "data_find_blocks excluded bdt blocks target v = Some y"
  shows "(\<forall>n \<le> target. victims excluded bdt blocks n = {}) \<longrightarrow> ds_found v = 0 \<longrightarrow> ds_next v = 0 \<longrightarrow> False"
proof (rule data_find_blocks.raw_induct [OF _ assms, where P = "\<lambda>excluded bdt blocks target v y.
    (\<forall>n \<le> target. victims excluded bdt blocks n = {}) \<longrightarrow> ds_found v = 0 \<longrightarrow> ds_next v = 0 \<longrightarrow> False"])
  fix f excluded bdt blocks target v y
  assume 1: "\<And>excluded bdt blocks target v y. f excluded bdt blocks target v = Some y \<Longrightarrow>
      (\<forall>n \<le> target. victims excluded bdt blocks n = {}) \<longrightarrow> ds_found v = 0 \<longrightarrow> ds_next v = 0 \<longrightarrow> False"
    and 2: "(if ds_found v \<noteq> JOURNAL_BLOCK_COUNT
      then let v = data_scan_pass excluded bdt target blocks v
           in f excluded bdt blocks (ds_next v) (v\<lparr>ds_next := 0\<rparr>)
      else Some v) = Some y"
  show "(\<forall>n \<le> target. victims excluded bdt blocks n = {}) \<longrightarrow> ds_found v = 0 \<longrightarrow> ds_next v = 0 \<longrightarrow> False"
  proof (intro impI)
    assume a: "\<forall>n \<le> target. victims excluded bdt blocks n = {}" "ds_found v = 0" "ds_next v = 0"
    then have "victims excluded bdt blocks target = {}" by simp
    from scan_pass_none [OF this a(2)] obtain t where t:
      "data_scan_pass excluded bdt target blocks v = v\<lparr>ds_next := t\<rparr>"
      "t = ds_next v \<or> t < target \<and> victims excluded bdt blocks t \<noteq> {}" by blast
    with a have t0: "t = 0" by auto
    have "f excluded bdt blocks 0 (v\<lparr>ds_next := 0\<rparr>) = Some y"
      using 2 a(2,3) t(1) t0 by (simp add: Let_def)
    from 1 [OF this] a show False by simp
  qed
qed

lemma unat_ucast_u8: "unat (ucast (a :: u8) :: u32) = unat a"
proof -
  have "unat a < 256" by (rule order_less_le_trans [OF unsigned_less]) simp
  then show ?thesis by (simp add: unsigned_ucast_eq take_bit_nat_eq_self)
qed

lemma find_victim:
  "case data_find_blocks excluded bdt blocks MAX_DIRTY_PAGES \<lparr>ds_found = 0, ds_total = 0, ds_next = 0, ds_blocks = f\<rparr> of
     None \<Rightarrow> {i \<in> set blocks. \<not> excluded i \<and> bdt i \<le> 63} = {}
   | Some v \<Rightarrow> ds_blocks v 0 \<in> {i \<in> set blocks. \<not> excluded i \<and> bdt i \<le> 63 \<and> bdt i < BACKUPFLAG} \<and>
       {i \<in> set blocks. \<not> excluded i \<and> bdt i \<le> 63 \<and> bdt (ds_blocks v 0) < bdt i} = {} \<and>
       ds_total v = MAX_DIRTY_PAGES - ucast (bdt (ds_blocks v 0))"
proof -
  let ?v = "\<lparr>ds_found = 0, ds_total = 0, ds_next = 0, ds_blocks = f\<rparr>"
  have le: "ucast a \<le> (ucast b :: u32) \<longleftrightarrow> a \<le> b" for a b :: u8
    by (simp add: word_le_nat_alt unat_ucast_u8)
  have le63: "ucast a \<le> (63 :: u32) \<longleftrightarrow> a \<le> 63" for a :: u8
    using le [of a 63] by simp
  show ?thesis
  proof (cases "\<exists>n \<le> 63. victims excluded bdt blocks n \<noteq> {}")
    case False
    then have "data_find_blocks excluded bdt blocks 63 ?v = None"
      using find_blocks_never [of excluded bdt blocks 63 ?v] by (cases "data_find_blocks excluded bdt blocks 63 ?v") auto
    moreover have "{i \<in> set blocks. \<not> excluded i \<and> bdt i \<le> 63} = {}"
      using False le63 by (fastforce simp: victims_def)
    ultimately show ?thesis by simp
  next
    case True
    then obtain n where "n \<le> 63" "victims excluded bdt blocks n \<noteq> {}" by blast
    from find_blocks_max [OF this(2,1), of ?v] obtain i m where im: "m \<le> 63" "i \<in> victims excluded bdt blocks m"
      "\<forall>k \<le> 63. victims excluded bdt blocks k \<noteq> {} \<longrightarrow> k \<le> m"
      "data_find_blocks excluded bdt blocks 63 ?v = Some (?v\<lparr>ds_found := 1, ds_total := 63 - m, ds_next := 0, ds_blocks := f(0 := i)\<rparr>)"
      by auto
    have m: "m = ucast (bdt i)" using im(2) by (simp add: victims_def)
    have "{j \<in> set blocks. \<not> excluded j \<and> bdt j \<le> 63 \<and> bdt i < bdt j} = {}"
    proof -
      have "bdt j \<le> bdt i" if "j \<in> set blocks" "\<not> excluded j" "bdt j \<le> 63" for j
      proof -
        have "j \<in> victims excluded bdt blocks (ucast (bdt j))" using that by (simp add: victims_def)
        with im(3) that(3) le63 have "ucast (bdt j) \<le> m" by blast
        then show ?thesis by (simp add: m le)
      qed
      then show ?thesis by (auto simp: not_less [symmetric])
    qed
    moreover have "i \<in> set blocks" "\<not> excluded i" "bdt i \<le> 63"
      using im(1,2) le63 by (auto simp: victims_def m)
    moreover from this(3) have "bdt i < 128" by (rule order_le_less_trans) simp
    ultimately show ?thesis by (simp add: im(4) m)
  qed
qed

text \<open>The search of \<open>DATA_Reclaim\<close> for the dirtiest block ends exactly when a data block that is not the other
  journal's has a dirty count of at most 63; the block found is then one of the largest such count, and the number of
  valid pages to move is 63 less that count. A block whose count carries the backup flag is never chosen, and when
  every data block is flagged or the other journal's the search does not end.\<close>

theorem reclaim_victim:
  "case data_find_blocks (is_journal_block (\<not> is_hot) s) (block_dirty_table s) (data_blocks U s) MAX_DIRTY_PAGES
       \<lparr>ds_found = 0, ds_total = 0, ds_next = 0, ds_blocks = dirty_blocks s\<rparr> of
     None \<Rightarrow> {i \<in> set (data_blocks U s). \<not> is_journal_block (\<not> is_hot) s i \<and> block_dirty_table s i \<le> 63} = {}
   | Some v \<Rightarrow> ds_blocks v 0 \<in> {i \<in> set (data_blocks U s). \<not> is_journal_block (\<not> is_hot) s i \<and>
          block_dirty_table s i \<le> 63 \<and> block_dirty_table s i < BACKUPFLAG} \<and>
       {i \<in> set (data_blocks U s). \<not> is_journal_block (\<not> is_hot) s i \<and> block_dirty_table s i \<le> 63 \<and>
          block_dirty_table s (ds_blocks v 0) < block_dirty_table s i} = {} \<and>
       ds_total v = MAX_DIRTY_PAGES - ucast (block_dirty_table s (ds_blocks v 0))"
  by (rule find_victim)

section \<open>Blocks that hold a backup\<close>

lemma mark_old_block_count:
  "block_dirty_table (mark_old_block b bk s) = (block_dirty_table s)(b :=
     if bk then block_dirty_table s b OR BACKUPFLAG else block_dirty_table s b + 1)"
  by (simp add: mark_old_block_def set_dirty_count_def Let_def)

lemma or_flag: "128 \<le> (c OR 128 :: u8)" "c < 128 \<Longrightarrow> c OR 128 = c + 128" "128 \<le> c \<Longrightarrow> c OR 128 = c"
proof -
  have 128: "bit (128 :: u8) n \<longleftrightarrow> n = 7" for n
    using bit_exp_iff [where 'a = "8 word", of 7 n] by auto
  have mask: "mask 7 = (127 :: u8)" by (simp add: mask_eq_exp_minus_1)
  have small: "c < 128 \<longleftrightarrow> \<not> bit c 7" for c :: u8
  proof -
    have "c < 128 \<longleftrightarrow> unat c < 128" by (simp add: word_less_nat_alt)
    also have "\<dots> \<longleftrightarrow> \<not> bit (unat c) 7"
    proof -
      have "unat c < 256" by (rule order_less_le_trans [OF unsigned_less]) simp
      then have "unat c div 128 = (if unat c < 128 then 0 else 1)" by (auto intro: div_nat_eqI)
      then show ?thesis by (simp add: bit_iff_odd)
    qed
    finally show ?thesis using bit_unsigned_iff [where 'a = nat, of c 7] by simp
  qed
  show "128 \<le> c OR 128" using small [of "c OR 128"] by (simp add: bit_or_iff 128 not_less [symmetric])
  show "c OR 128 = c + 128" if "c < 128"
  proof -
    have "\<not> bit c 7" using that small [of c] by blast
    then have "c AND 128 = 0" by (intro bit_word_eqI) (simp only: bit_and_iff 128, auto)
    then show ?thesis by (rule disjunctive_add_eq_or [symmetric])
  qed
  show "c OR 128 = c" if "128 \<le> c"
  proof (rule bit_word_eqI)
    have "bit c 7" using that small [of c] by (simp add: not_less [symmetric])
    then show "bit (c OR 128) n = bit c n" for n by (simp only: bit_or_iff 128, auto)
  qed
qed

definition mark_all :: "(u32 \<times> bool) list \<Rightarrow> 'u ftl_state \<Rightarrow> 'u ftl_state" where
  "mark_all ops = fold (\<lambda>(b, bk). mark_old_block b bk) ops"

lemma mark_all_flagged:
  assumes "128 \<le> block_dirty_table s b" "unat (block_dirty_table s b) + length ops < 256"
  shows "128 \<le> block_dirty_table (mark_all ops s) b"
  using assms
proof (induction ops arbitrary: s)
  case Nil
  then show ?case by (simp add: mark_all_def)
next
  case (Cons op ops)
  obtain b' bk where op: "op = (b', bk)" by (cases op)
  define s1 where "s1 = mark_old_block b' bk s"
  have "128 \<le> block_dirty_table s1 b \<and> unat (block_dirty_table s1 b) \<le> unat (block_dirty_table s b) + 1"
  proof (cases "b' = b \<and> \<not> bk")
    case True
    have lt: "unat (block_dirty_table s b) < 255" using Cons.prems(2) by simp
    then have "unat (block_dirty_table s b + 1) = unat (block_dirty_table s b) + 1"
      by (simp add: unat_word_ariths)
    with True Cons.prems(1) show ?thesis by (simp add: s1_def mark_old_block_count word_le_nat_alt)
  next
    case False
    with Cons.prems(1) show ?thesis by (auto simp: s1_def mark_old_block_count or_flag)
  qed
  then show ?case using Cons.IH [of s1] Cons.prems(2) by (simp add: mark_all_def op s1_def)
qed

text \<open>C24: Backing up a page keeps its block out of every later reclaim, whatever up to 64 further pages of any blocks
  become dirty or are backed up meanwhile.\<close>

theorem backup_block_kept:
  assumes "block_dirty_table s b \<le> 63" "length ops \<le> 64"
    and "data_find_blocks excluded (block_dirty_table (mark_all ops (mark_old_block b True s))) blocks MAX_DIRTY_PAGES
       \<lparr>ds_found = 0, ds_total = 0, ds_next = 0, ds_blocks = f\<rparr> = Some v"
  shows "ds_blocks v 0 \<noteq> b"
proof -
  have "block_dirty_table s b < 128" using assms(1) by (rule order_le_less_trans) simp
  then have c: "block_dirty_table (mark_old_block b True s) b = block_dirty_table s b + 128"
    by (simp add: mark_old_block_count or_flag)
  have "unat (block_dirty_table s b) \<le> 63" using assms(1) by (simp add: word_le_nat_alt)
  then have n: "unat (block_dirty_table s b + 128) = unat (block_dirty_table s b) + 128"
    by (simp add: unat_word_ariths)
  have "128 \<le> block_dirty_table (mark_all ops (mark_old_block b True s)) b"
    using assms(2) \<open>unat (block_dirty_table s b) \<le> 63\<close> by (intro mark_all_flagged) (simp_all add: c n word_le_nat_alt)
  moreover have "block_dirty_table (mark_all ops (mark_old_block b True s)) (ds_blocks v 0) < 128"
    using find_victim [of blocks excluded "block_dirty_table (mark_all ops (mark_old_block b True s))" f] assms(3)
    by simp
  ultimately show ?thesis by auto
qed

definition bdt_demo :: "unit ftl_state" where
  "bdt_demo = (ftl_start 4 ())\<lparr>block_dirty_table := (\<lambda>i. if i = 20 then 63 else if i = 21 then 7 else 0)\<rparr>"

theorem backup_block_kept_witness:
  "case data_find_blocks (\<lambda>i. i = 16) (block_dirty_table (mark_old_block 20 True bdt_demo)) [16, 17, 20, 21] MAX_DIRTY_PAGES
     \<lparr>ds_found = 0, ds_total = 0, ds_next = 0, ds_blocks = (\<lambda>_. 0)\<rparr> of Some v \<Rightarrow> ds_blocks v 0 \<noteq> 20 | None \<Rightarrow> False"
proof -
  let ?r = "data_find_blocks (\<lambda>i. i = 16) (block_dirty_table (mark_old_block 20 True bdt_demo)) [16, 17, 20, 21] MAX_DIRTY_PAGES
     \<lparr>ds_found = 0, ds_total = 0, ds_next = 0, ds_blocks = (\<lambda>_. 0)\<rparr>"
  have "block_dirty_table bdt_demo 20 \<le> 63" by (simp add: bdt_demo_def)
  note kept = backup_block_kept [OF this, of "[]", unfolded mark_all_def fold.simps id_apply list.size, OF le0]
  have "?r \<noteq> None"
    using find_victim [of "[16, 17, 20, 21]" "\<lambda>i. i = 16" "block_dirty_table (mark_old_block 20 True bdt_demo)" "\<lambda>_. 0"]
  proof (rule contrapos_pn)
    assume "?r = None"
    moreover have "block_dirty_table (mark_old_block 20 True bdt_demo) 21 \<le> 63"
      by (simp add: mark_old_block_count bdt_demo_def)
    then have "21 \<in> {i \<in> set [16, 17, 20, 21]. i \<noteq> 16 \<and> block_dirty_table (mark_old_block 20 True bdt_demo) i \<le> 63}"
      by simp
    ultimately show "\<not> (case ?r of
       None \<Rightarrow> {i \<in> set [16, 17, 20, 21]. i \<noteq> 16 \<and> block_dirty_table (mark_old_block 20 True bdt_demo) i \<le> 63} = {}
     | Some v \<Rightarrow> ds_blocks v 0 \<in> {i \<in> set [16, 17, 20, 21]. i \<noteq> 16 \<and> block_dirty_table (mark_old_block 20 True bdt_demo) i \<le> 63 \<and>
          block_dirty_table (mark_old_block 20 True bdt_demo) i < BACKUPFLAG} \<and>
       {i \<in> set [16, 17, 20, 21]. i \<noteq> 16 \<and> block_dirty_table (mark_old_block 20 True bdt_demo) i \<le> 63 \<and>
          block_dirty_table (mark_old_block 20 True bdt_demo) (ds_blocks v 0) < block_dirty_table (mark_old_block 20 True bdt_demo) i} = {} \<and>
       ds_total v = MAX_DIRTY_PAGES - ucast (block_dirty_table (mark_old_block 20 True bdt_demo) (ds_blocks v 0)))"
      by (simp only: option.case) blast
  qed
  then obtain v where "?r = Some v" by blast
  with kept show ?thesis by simp
qed

end
