(* ===== verification/Ftl_Api.thy ===== *)
theory Ftl_Api
  imports Ftl_Data
begin

text \<open>
  The operations of the FTL, core/ftl/ftl_api.c: format, mount, page write, page read with its
  recovery modes, trim, flush; and \<open>BUF_GetPage\<close> of core/buf/buf_api.c, which merges the sectors
  written with the rest of their page through \<open>FTL_Read\<close>.
\<close>

section \<open>Format and mount\<close>

definition ubi_format :: "'u ubi_ops \<Rightarrow> 'u ftl_state \<Rightarrow> (STATUS \<times> 'u ftl_state) option" where
  "ubi_format U s = do { (ret, u) \<leftarrow> u_Format U (ubi s); Some (ret, s\<lparr>ubi := u\<rparr>) }"

definition ubi_init :: "'u ubi_ops \<Rightarrow> 'u ftl_state \<Rightarrow> (STATUS \<times> 'u ftl_state) option" where
  "ubi_init U s = do { (ret, u) \<leftarrow> u_Init U (ubi s); Some (ret, s\<lparr>ubi := u\<rparr>) }"

text \<open>Run the next call only after success.\<close>

definition if_success :: "('s \<Rightarrow> (STATUS \<times> 's) option) \<Rightarrow> STATUS \<times> 's \<Rightarrow> (STATUS \<times> 's) option" where
  "if_success f = (\<lambda>(ret, s). if ret = STATUS_SUCCESS then f s else Some (ret, s))"

definition FTL_Format :: "'u ubi_ops \<Rightarrow> 'u ftl_state \<Rightarrow> (STATUS \<times> 'u ftl_state) option" where
  "FTL_Format U s = do {
     v \<leftarrow> ubi_format U s;
     v \<leftarrow> if_success (ubi_init U) v;
     v \<leftarrow> if_success (DATA_Format U) v;
     v \<leftarrow> if_success (HDI_Format U) v;
     v \<leftarrow> if_success (PMT_Format U) v;
     v \<leftarrow> if_success (BDT_Format U) v;
     if_success (ROOT_Format U) v }"

definition ftl_reclaim_if_full :: "'u ubi_ops \<Rightarrow> bool \<Rightarrow> STATUS \<times> 'u ftl_state \<Rightarrow> (STATUS \<times> 'u ftl_state) option" where
  "ftl_reclaim_if_full U is_hot = (\<lambda>(ret, s).
     if DATA_IsFull is_hot s then do {
       v \<leftarrow> DATA_Reclaim U is_hot s;
       if_success (DATA_Commit U) v }
     else Some (ret, s))"

definition FTL_Init :: "'u ubi_ops \<Rightarrow> 'u ftl_state \<Rightarrow> (STATUS \<times> 'u ftl_state) option" where
  "FTL_Init U s = do {
     v \<leftarrow> ubi_init U s;
     v \<leftarrow> if_success (ROOT_Init U) v;
     v \<leftarrow> if_success (BDT_Init U) v;
     v \<leftarrow> if_success (\<lambda>s. Some (PMT_Init s)) v;
     v \<leftarrow> if_success (HDI_Init U) v;
     v \<leftarrow> if_success (DATA_Replay U True) v;
     (ret, s) \<leftarrow> if_success (DATA_Replay U False) v;
     if ret = STATUS_SUCCESS then do {
       v \<leftarrow> ftl_reclaim_if_full U True (ret, s);
       ftl_reclaim_if_full U False v }
     else Some (ret, s) }"

section \<open>Page operations\<close>

definition FTL_Write :: "'u ubi_ops \<Rightarrow> u32 \<Rightarrow> buf option \<Rightarrow> bool \<Rightarrow> bool \<Rightarrow> 'u ftl_state \<Rightarrow>
    (STATUS \<times> 'u ftl_state) option" where
  "FTL_Write U addr buffer flag mft s = do {
     let (is_hot, s) = HDI_IsHotPage addr s;
     (ret, s) \<leftarrow> DATA_Write U addr buffer is_hot flag mft s;
     if ret = STATUS_SUCCESS then ftl_reclaim_if_full U is_hot (ret, s) else Some (ret, s) }"

text \<open>
  The repeated read of a master file table page: the first read of an address remembers the version
  its spare words point to, each further read of it goes one version back.
\<close>

definition ftl_read_mft :: "'u ubi_ops \<Rightarrow> u32 \<Rightarrow> u32 \<Rightarrow> u32 \<Rightarrow> mem option \<Rightarrow> 'u ftl_state \<Rightarrow>
    (STATUS \<times> mem option \<times> 'u ftl_state) option" where
  "ftl_read_mft U addr block page buffer s =
     (if addr = last_addr s + 1 then do {
        (ret, buffer, _, s) \<leftarrow> ubi_read U block page buffer None s;
        Some (ret, buffer, s) }
      else
        let s = s\<lparr>last_addr := addr\<rparr> in
        if lastpage s \<noteq> page \<or> lastblock s \<noteq> block then do {
          let s = s\<lparr>lastblock := block, lastpage := page\<rparr>;
          (ret, buffer, sp, s) \<leftarrow> ubi_read U block page buffer (Some (f_uninit s)) s;
          let spare = the sp;
          let temp_block = PM_NODE_BLOCK (spare 2);
          Some (ret, buffer,
            s\<lparr>backupmft := (if spare 2 = INVALID_PM_NODE then PM_NODE_SET_BLOCKPAGE block page
                            else if 2048 < temp_block then PM_NODE_SET_BLOCKPAGE block page
                            else spare 2)\<rparr>) }
        else do {
          (ret, buffer, sp, s) \<leftarrow> ubi_read U (PM_NODE_BLOCK (backupmft s)) (PM_NODE_PAGE (backupmft s)) buffer
             (Some (f_uninit s)) s;
          let spare = the sp;
          Some (ret, buffer, if PM_NODE_BLOCK (spare 2) < 2049 then s\<lparr>backupmft := spare 2\<rparr> else s) })"

text \<open>The recovery read: the version the page's spare words point to, if any, else the page itself.\<close>

definition ftl_read_backup :: "'u ubi_ops \<Rightarrow> STATUS \<Rightarrow> u32 \<Rightarrow> u32 \<Rightarrow> mem option \<Rightarrow> 'u ftl_state \<Rightarrow>
    (STATUS \<times> mem option \<times> 'u ftl_state) option" where
  "ftl_read_backup U ret block page buffer s = do {
     (ret, block, page, s) \<leftarrow>
       (if block \<noteq> INVALID_BLOCK \<and> page \<noteq> INVALID_PAGE then do {
          (ret, _, sp, s) \<leftarrow> ubi_read U block page None (Some (f_uninit s)) s;
          let old_block = the sp 2;
          Some (if old_block \<noteq> INVALID_PM_NODE
                then (ret, PM_NODE_BLOCK old_block, PM_NODE_PAGE old_block, s)
                else (ret, block, page, s)) }
        else Some (ret, block, page, s));
     if ret = STATUS_SUCCESS then do {
       (ret, buffer, _, s) \<leftarrow> ubi_read U block page buffer None s;
       Some (ret, buffer, s) }
     else Some (ret, buffer, s) }"

definition FTL_Read :: "'u ubi_ops \<Rightarrow> u32 \<Rightarrow> mem option \<Rightarrow> bool \<Rightarrow> bool \<Rightarrow> 'u ftl_state \<Rightarrow>
    (STATUS \<times> mem option \<times> 'u ftl_state) option" where
  "FTL_Read U addr buffer flag mft s = do {
     (ret, block, page, s) \<leftarrow> PMT_Search U addr (f_uninit s 0) (f_uninit s 1) s;
     if \<not> mft \<and> \<not> flag \<and> ret = STATUS_SUCCESS then do {
       (ret, buffer, _, s) \<leftarrow> ubi_read U block page buffer None s;
       Some (ret, buffer, s) }
     else if mft then ftl_read_mft U addr block page buffer s
     else ftl_read_backup U ret block page buffer s }"

partial_function (option) ftl_trim_loop :: "'u ubi_ops \<Rightarrow> u32 \<Rightarrow> u32 \<Rightarrow> STATUS \<Rightarrow> 'u ftl_state \<Rightarrow>
    (STATUS \<times> 'u ftl_state) option" where
  "ftl_trim_loop U addr end_addr ret s =
     (if addr \<le> end_addr then do {
        (ret, s) \<leftarrow> FTL_Write U addr None False False s;
        if ret \<noteq> STATUS_SUCCESS then Some (ret, s) else ftl_trim_loop U (addr + 1) end_addr ret s }
      else Some (ret, s))"

definition FTL_Trim :: "'u ubi_ops \<Rightarrow> u32 \<Rightarrow> u32 \<Rightarrow> 'u ftl_state \<Rightarrow> (STATUS \<times> 'u ftl_state) option" where
  "FTL_Trim U start end_addr s = ftl_trim_loop U start end_addr STATUS_SUCCESS s"

definition FTL_SetWP :: "u32 \<Rightarrow> bool \<Rightarrow> STATUS" where "FTL_SetWP laddr enabled = STATUS_FAILURE"

definition FTL_CheckWP :: "u32 \<Rightarrow> bool" where "FTL_CheckWP laddr = False"

definition FTL_BgTasks :: STATUS where "FTL_BgTasks = STATUS_SUCCESS"

definition FTL_Flush :: "'u ubi_ops \<Rightarrow> 'u ftl_state \<Rightarrow> (STATUS \<times> 'u ftl_state) option" where
  "FTL_Flush U s = do {
     v \<leftarrow> DATA_Commit U s;
     if_success (ubi_flush U) v }"

section \<open>The page buffer\<close>

definition get_bufs :: "'u ubi_ops \<Rightarrow> 'u ftl_state \<Rightarrow> buf_state" where
  "get_bufs U s = u_bufs U (ubi s)"

definition put_bufs :: "'u ubi_ops \<Rightarrow> buf_state \<Rightarrow> 'u ftl_state \<Rightarrow> 'u ftl_state" where
  "put_bufs U b s = s\<lparr>ubi := u_set_bufs U b (ubi s)\<rparr>"

definition sector_at :: "u32 \<Rightarrow> nat" where
  "sector_at i = unat i * SECTOR_WORDS"

definition copy_sector :: "u32 \<Rightarrow> mem \<Rightarrow> mem \<Rightarrow> mem" where
  "copy_sector i src dst =
     ptr_sub (sector_at i) (memcpy_words SECTOR_WORDS (ptr_add (sector_at i) src) (ptr_add (sector_at i) dst)) dst"

text \<open>The merge of the written sectors into the page read back.\<close>

definition merge_sectors :: "(u32 \<Rightarrow> bool) \<Rightarrow> mem \<Rightarrow> mem \<Rightarrow> mem" where
  "merge_sectors written src dst =
     fold (\<lambda>i m. if written i then copy_sector i src m else m) (upto_u32 0 SECTOR_PER_MPP) dst"

text \<open>Returns the page address and the buffer that holds the page.\<close>

definition BUF_GetPage :: "'u ubi_ops \<Rightarrow> bool \<Rightarrow> bool \<Rightarrow> 'u ftl_state \<Rightarrow> (u32 \<times> buf option \<times> 'u ftl_state) option" where
  "BUF_GetPage U flag mft s = do {
     let b = get_bufs U s;
     let page_addr = drop_bit SECTOR_PER_MPP_SHIFT (buf_start_addr b);
     ASSERT (buf_start_addr b \<noteq> INVALID_LSADDR);
     (buffer, s) \<leftarrow>
       (if find (\<lambda>i. \<not> sector_written b i) (upto_u32 0 SECTOR_PER_MPP) \<noteq> None then do {
          ASSERT (merge_buffer b = None);
          let (p, b) = BUF_Allocate b;
          let s = put_bufs U b s;
          (ret, data, s) \<leftarrow> FTL_Read U page_addr (map_option (pb_pool b) p) flag mft s;
          let b = get_bufs U s;
          let b = (case (p, data) of (Some p, Some m) \<Rightarrow> pool_put p m b | _ \<Rightarrow> b);
          b \<leftarrow> (if ret = STATUS_SUCCESS then do {
                 p \<leftarrow> p;
                 w \<leftarrow> write_buffer b;
                 Some (pool_put p (merge_sectors (sector_written b) (pb_pool b w) (pb_pool b p)) b) }
               else Some b);
          b \<leftarrow> (case write_buffer b of Some w \<Rightarrow> BUF_Free (PoolBuf w) b | None \<Rightarrow> Some b);
          Some (map_option PoolBuf p, put_bufs U (b\<lparr>write_buffer := None, merge_buffer := None\<rparr>) s) }
        else Some (map_option PoolBuf (write_buffer b), put_bufs U (b\<lparr>write_buffer := None\<rparr>) s));
     let b = get_bufs U s;
     let b = b\<lparr>buf_start_addr := INVALID_LSADDR, buf_end_addr := INVALID_LSADDR\<rparr>;
     let b = fold (\<lambda>i b. b\<lparr>sector_written := (sector_written b)(i := False)\<rparr>) (upto_u32 0 SECTOR_PER_MPP) b;
     let b = (if write_buffer b = None then (let (p, b) = BUF_Allocate b in b\<lparr>write_buffer := p\<rparr>) else b);
     Some (page_addr, buffer, put_bufs U b s) }"

section \<open>Merging\<close>

lemma copy_sector_apply:
  "copy_sector i src dst n = (if n div SECTOR_WORDS = unat i then src n else dst n)"
proof -
  have "n div 128 = unat i \<longleftrightarrow> unat i * 128 \<le> n \<and> n < unat i * 128 + 128" by (auto simp: div_nat_eqI)
  then show ?thesis
    by (auto simp: copy_sector_def sector_at_def mem_simps)
qed

lemma fold_copy_sector:
  "fold (\<lambda>i m. if P i then copy_sector i src m else m) is dst n =
     (if \<exists>i \<in> set is. P i \<and> n div SECTOR_WORDS = unat i then src n else dst n)"
  by (induction "is" arbitrary: dst) (auto simp: copy_sector_apply)

lemma merge_sectors_apply:
  "merge_sectors written src dst n =
     (if n < MPP_WORDS \<and> written (of_nat (n div SECTOR_WORDS)) then src n else dst n)"
proof -
  define k where "k = n div 128"
  have k: "k < 8 \<longleftrightarrow> n < 1024" by (auto simp: k_def)
  have "(\<exists>i \<in> set (upto_u32 0 8). written i \<and> k = unat i) \<longleftrightarrow> k < 8 \<and> written (of_nat k)"
  proof (cases "k < 8")
    case True
    then have "(of_nat k :: u32) \<in> set (upto_u32 0 8)"
      unfolding set_upto_u32 by (simp add: word_less_nat_alt unat_of_nat)
    with True show ?thesis by (auto simp add: unat_eq_iff_of_nat simp del: upto_u32_numeral)
  next
    case False
    then show ?thesis unfolding set_upto_u32 by (auto simp: word_less_nat_alt)
  qed
  then show ?thesis
    unfolding merge_sectors_def size_values fold_copy_sector SECTOR_WORDS_value MPP_WORDS_value k_def [symmetric]
    by (simp only: k)
qed

text \<open>The merge of a partly written page takes a word from the write buffer exactly when its sector
  was written, and keeps the word read from flash otherwise.\<close>

theorem merge_sectors_correct:
  "merge_sectors written src dst n =
     (if n < MPP_WORDS \<and> written (of_nat (n div SECTOR_WORDS)) then src n else dst n)"
  by (rule merge_sectors_apply)

section \<open>Collecting sectors\<close>

text \<open>An open page is eight aligned sectors; \<open>page_overlay\<close> is the page as the buffer will merge it.\<close>

definition buf_page_ok :: "buf_state \<Rightarrow> bool" where
  "buf_page_ok b \<longleftrightarrow> buf_end_addr b = INVALID_LSADDR \<or>
     buf_start_addr b AND (SECTOR_PER_MPP - 1) = 0 \<and> buf_end_addr b = buf_start_addr b OR (SECTOR_PER_MPP - 1)"

definition page_overlay :: "buf_state \<Rightarrow> mem \<Rightarrow> mem" where
  "page_overlay b dst = (case write_buffer b of
     None \<Rightarrow> dst | Some w \<Rightarrow> merge_sectors (sector_written b) (pb_pool b w) dst)"

lemma page_offset_less:
  assumes "s AND 7 = (0 :: u32)" "s \<le> a" "a \<le> s OR 7"
  shows "unat (a - s) < 8"
proof -
  have "s OR 7 = s + 7" using assms(1) by (simp add: disjunctive_add_eq_or)
  moreover have "unat (s + 7) \<le> unat s + 7" by (simp add: unat_word_ariths)
  ultimately have "unat a \<le> unat s + 7" using assms(3) by (simp add: word_le_nat_alt)
  moreover have "unat (a - s) = unat a - unat s" using assms(2) by (rule unat_sub)
  ultimately show ?thesis by simp
qed

lemma page_start: "(a AND NOT 7) AND 7 = (0 :: u32)" "(a AND NOT 7) OR 7 = a OR (7 :: u32)"
    "a AND NOT 7 \<le> a" "a \<le> a OR (7 :: u32)"
proof -
  have 1: "(a AND NOT w) AND w = 0" "(a AND NOT w) OR w = a OR w" for w :: u32
    by (rule bit_word_eqI; auto simp: bit_simps)+
  show "(a AND NOT 7) AND 7 = (0 :: u32)" "(a AND NOT 7) OR 7 = a OR (7 :: u32)"
    by (rule 1)+
  show "a AND NOT 7 \<le> a" "a \<le> a OR (7 :: u32)"
    by (simp_all add: word_and_le2 le_word_or2)
qed

text \<open>A sector written to the open page appears in the merged page at its place and nowhere else, and
  the page stays open at an aligned range of eight sectors that holds the address.\<close>

theorem BUF_PutSector_overlay:
  assumes "buf_page_ok b" and put: "BUF_PutSector addr sector b = Some b'"
  shows "buf_page_ok b' \<and> unat (addr - buf_start_addr b') < 8 \<and> page_overlay b' dst n =
     (if n div SECTOR_WORDS = unat (addr - buf_start_addr b') then sector (n mod SECTOR_WORDS)
      else page_overlay b dst n)"
proof -
  obtain w where w: "write_buffer b = Some w"
    using put by (cases "write_buffer b") (auto simp: BUF_PutSector_def)
  define s0 where "s0 = (if buf_end_addr b = - 1 then addr AND NOT 7 else buf_start_addr b)"
  define e0 where "e0 = (if buf_end_addr b = - 1 then addr OR 7 else buf_end_addr b)"
  have ok0: "s0 AND 7 = 0 \<and> e0 = s0 OR 7"
    using assms(1) page_start [of addr] by (auto simp add: buf_page_ok_def s0_def e0_def)
  define off where "off = unat (addr - s0)"
  define m where "m = ptr_sub (off * 128) (memcpy_words 128 sector (ptr_add (off * 128) (pb_pool b w))) (pb_pool b w)"
  have open_page: "(if buf_end_addr b = INVALID_LSADDR
      then b\<lparr>buf_start_addr := addr AND NOT (SECTOR_PER_MPP - 1), buf_end_addr := addr OR (SECTOR_PER_MPP - 1)\<rparr>
      else b) = b\<lparr>buf_start_addr := s0, buf_end_addr := e0\<rparr>"
    by (simp add: s0_def e0_def)
  have "BUF_PutSector addr sector b = (if s0 \<le> addr \<and> addr \<le> e0
      then Some (b\<lparr>buf_start_addr := s0, buf_end_addr := e0, pb_pool := (pb_pool b)(w := m),
                  sector_written := (sector_written b)(addr - s0 := True)\<rparr>) else None)"
  proof (cases "s0 \<le> addr \<and> addr \<le> e0")
    case True
    then show ?thesis
      unfolding BUF_PutSector_def open_page Let_def pool_put_def
      by (simp add: w m_def off_def)
  next
    case False
    then show ?thesis
      unfolding BUF_PutSector_def open_page by (simp add: Let_def del: de_Morgan_conj)
  qed
  then have rng: "s0 \<le> addr \<and> addr \<le> e0"
    and b': "b' = b\<lparr>buf_start_addr := s0, buf_end_addr := e0, pb_pool := (pb_pool b)(w := m),
                  sector_written := (sector_written b)(addr - s0 := True)\<rparr>"
    using put by (metis option.distinct(1), metis option.distinct(1) option.inject)
  have off8: "off < 8" using page_offset_less rng ok0 by (simp add: off_def)
  have ok': "buf_page_ok b'" using ok0 by (simp add: buf_page_ok_def b')
  have "n div 128 = off \<longleftrightarrow> off * 128 \<le> n \<and> n < off * 128 + 128" by (auto simp: div_nat_eqI)
  moreover have "n div 128 = off \<Longrightarrow> n mod 128 = n - off * 128" by (simp add: minus_div_mult_eq_mod [symmetric])
  ultimately have mn: "m n = (if n div 128 = off then sector (n mod 128) else pb_pool b w n)"
    by (auto simp: m_def mem_simps)
  have n8: "n < 1024 \<longleftrightarrow> n div 128 < 8" by auto
  have eq: "(of_nat (n div 128) :: u32) = addr - s0 \<longleftrightarrow> n div 128 = off" if "n div 128 < 8"
  proof -
    have "n div 128 < 4294967296" using that by simp
    from unat_eq_iff_of_nat [OF this, of "addr - s0"] show ?thesis unfolding off_def by metis
  qed
  have "page_overlay b' dst n = (if n div SECTOR_WORDS = unat (addr - buf_start_addr b') then sector (n mod SECTOR_WORDS)
      else page_overlay b dst n)"
  proof -
    have 1: "page_overlay b' dst n = (if n < 1024 \<and> ((sector_written b)(addr - s0 := True)) (of_nat (n div 128)) then m n else dst n)"
      by (simp add: page_overlay_def w b' merge_sectors_apply)
    have 2: "page_overlay b dst n = (if n < 1024 \<and> sector_written b (of_nat (n div 128)) then pb_pool b w n else dst n)"
      by (simp add: page_overlay_def w merge_sectors_apply)
    have 3: "unat (addr - buf_start_addr b') = off" by (simp add: b' off_def)
    show ?thesis
    proof (cases "n div 128 = off")
      case True
      then have "(of_nat (n div 128) :: u32) = addr - s0" "n < 1024" using eq off8 n8 by simp_all
      with True show ?thesis unfolding 1 3 SECTOR_WORDS_value by (simp add: mn)
    next
      case False
      then show ?thesis unfolding 1 2 3 SECTOR_WORDS_value n8 using eq by (simp add: mn)
    qed
  qed
  with ok' off8 show ?thesis by (simp add: b' flip: off_def)
qed

definition opened_bufs :: buf_state where
  "opened_bufs = the (BUF_PutSector 9 (\<lambda>_. 7) empty_bufs)"

theorem BUF_PutSector_overlay_witness:
  "page_overlay opened_bufs (\<lambda>_. 0) 130 = 7"
proof -
  have "BUF_PutSector 9 (\<lambda>_. 7) empty_bufs = Some opened_bufs"
    by (simp add: BUF_PutSector_def empty_bufs_def opened_bufs_def pool_put_def Let_def)
  from BUF_PutSector_overlay [OF _ this, of "\<lambda>_. 0" 130]
  show ?thesis by (simp add: buf_page_ok_def empty_bufs_def opened_bufs_def BUF_PutSector_def pool_put_def Let_def)
qed

end
