(* ===== verification/Onfm.thy ===== *)
theory Onfm
  imports Ftl_Api
begin

text \<open>
  The sector interface of the storage device, core/onfm.c: reads and writes of sectors with the
  recovery and backup flags, through a read cache of one page and the write buffer of one page;
  and the backup of the master file table of recovery/recovery.c.
\<close>

record 'u onfm_state =
  ftl :: "'u ftl_state"
  onfm_read_buffer :: mem
  read_buffer_start_sector :: u32
  starting_sector :: u32
  MFT_Reserved_currentsec :: u32

text \<open>Calls to the FTL.\<close>

definition ftl_read :: "'u ubi_ops \<Rightarrow> u32 \<Rightarrow> mem option \<Rightarrow> bool \<Rightarrow> bool \<Rightarrow> 'u onfm_state \<Rightarrow>
    (STATUS \<times> mem option \<times> 'u onfm_state) option" where
  "ftl_read U addr buffer flag mft s = do {
     (ret, buffer, f) \<leftarrow> FTL_Read U addr buffer flag mft (ftl s);
     Some (ret, buffer, s\<lparr>ftl := f\<rparr>) }"

definition ftl_write :: "'u ubi_ops \<Rightarrow> u32 \<Rightarrow> buf option \<Rightarrow> bool \<Rightarrow> bool \<Rightarrow> 'u onfm_state \<Rightarrow>
    (STATUS \<times> 'u onfm_state) option" where
  "ftl_write U addr buffer flag mft s = do {
     (ret, f) \<leftarrow> FTL_Write U addr buffer flag mft (ftl s);
     Some (ret, s\<lparr>ftl := f\<rparr>) }"

definition put_sector :: "'u ubi_ops \<Rightarrow> u32 \<Rightarrow> mem \<Rightarrow> 'u onfm_state \<Rightarrow> 'u onfm_state option" where
  "put_sector U addr sector s = do {
     b \<leftarrow> BUF_PutSector addr sector (get_bufs U (ftl s));
     Some (s\<lparr>ftl := put_bufs U b (ftl s)\<rparr>) }"

definition get_page :: "'u ubi_ops \<Rightarrow> bool \<Rightarrow> bool \<Rightarrow> 'u onfm_state \<Rightarrow> (u32 \<times> buf option \<times> 'u onfm_state) option" where
  "get_page U flag mft s = do {
     (addr, buffer, f) \<leftarrow> BUF_GetPage U flag mft (ftl s);
     Some (addr, buffer, s\<lparr>ftl := f\<rparr>) }"

section \<open>Sectors\<close>

text \<open>Result 0 or -1, and the destination's new contents.\<close>

definition onfm_read_sector :: "'u ubi_ops \<Rightarrow> u32 \<Rightarrow> mem option \<Rightarrow> bool \<Rightarrow> bool \<Rightarrow> 'u onfm_state \<Rightarrow>
    (int \<times> mem option \<times> 'u onfm_state) option" where
  "onfm_read_sector U sector_addr sector_data flag mft s = do {
     (ret, s) \<leftarrow>
       (if read_buffer_start_sector s \<le> sector_addr \<and> sector_addr < read_buffer_start_sector s + SECTOR_PER_MPP
        then Some (STATUS_SUCCESS, s)
        else do {
          let page_addr = drop_bit SECTOR_PER_MPP_SHIFT sector_addr;
          (ret, buf, s) \<leftarrow> ftl_read U page_addr (Some (onfm_read_buffer s)) flag mft s;
          let s = s\<lparr>onfm_read_buffer := the buf\<rparr>;
          Some (ret, if ret = STATUS_SUCCESS
             then s\<lparr>read_buffer_start_sector := push_bit SECTOR_PER_MPP_SHIFT page_addr\<rparr> else s) });
     case (ret = STATUS_SUCCESS, sector_data) of
       (True, Some d) \<Rightarrow>
         Some (0, Some (memcpy_words SECTOR_WORDS
                (ptr_add (sector_at (sector_addr - read_buffer_start_sector s)) (onfm_read_buffer s)) d), s)
     | _ \<Rightarrow> Some (- 1, sector_data, s\<lparr>read_buffer_start_sector := INVALID_LSADDR\<rparr>) }"

definition onfm_write_sector :: "'u ubi_ops \<Rightarrow> u32 \<Rightarrow> mem option \<Rightarrow> bool \<Rightarrow> bool \<Rightarrow> 'u onfm_state \<Rightarrow>
    (int \<times> 'u onfm_state) option" where
  "onfm_write_sector U sector_addr sector_data flag mft s = do {
     let page_addr = drop_bit SECTOR_PER_MPP_SHIFT sector_addr;
     (ret, s) \<leftarrow>
       (if starting_sector s = INVALID_LSADDR then
          case sector_data of
            Some d \<Rightarrow> do {
              let s = s\<lparr>starting_sector := push_bit SECTOR_PER_MPP_SHIFT page_addr\<rparr>;
              s \<leftarrow> put_sector U sector_addr d s;
              Some (STATUS_SUCCESS, s) }
          | None \<Rightarrow> Some (STATUS_SUCCESS, s)
        else if starting_sector s \<le> sector_addr \<and> sector_addr < starting_sector s + SECTOR_PER_MPP \<and>
                sector_data \<noteq> None
        then do {
          s \<leftarrow> put_sector U sector_addr (the sector_data) s;
          Some (STATUS_SUCCESS, s) }
        else do {
          ASSERT (sector_data = None \<or> sector_addr = starting_sector s + SECTOR_PER_MPP);
          (page_addr, buffer, s) \<leftarrow> get_page U flag mft s;
          (ret, s) \<leftarrow> ftl_write U page_addr buffer flag mft s;
          if ret = STATUS_SUCCESS then
            case sector_data of
              Some d \<Rightarrow> do {
                let page_addr = drop_bit SECTOR_PER_MPP_SHIFT sector_addr;
                let s = s\<lparr>starting_sector := push_bit SECTOR_PER_MPP_SHIFT page_addr\<rparr>;
                s \<leftarrow> put_sector U sector_addr d s;
                Some (ret, s) }
            | None \<Rightarrow> do {
                ASSERT (sector_addr = - 1);
                Some (ret, s\<lparr>starting_sector := INVALID_LSADDR\<rparr>) }
          else Some (ret, s) });
     Some (if ret = STATUS_SUCCESS then 0 else - 1, s) }"

section \<open>Reads and writes\<close>

definition ONFM_Read :: "'u ubi_ops \<Rightarrow> u32 \<Rightarrow> u32 \<Rightarrow> mem \<Rightarrow> bool \<Rightarrow> bool \<Rightarrow> 'u onfm_state \<Rightarrow>
    (int \<times> mem \<times> 'u onfm_state) option" where
  "ONFM_Read U sector_addr sector_count sector_data flag mft s = do {
     (ret, sector_data, s) \<leftarrow>
       (if sector_addr mod SECTOR_PER_MPP = 0 \<and> sector_count = SECTOR_PER_MPP then do {
          (status, buf, s) \<leftarrow> ftl_read U (drop_bit SECTOR_PER_MPP_SHIFT sector_addr) (Some sector_data) flag mft s;
          Some (if status = STATUS_SUCCESS then 0 else - 1, the buf, s) }
        else for_each (upto_u32 0 sector_count)
          (\<lambda>i (ret, data, s).
             if ret = (0 :: int) then do {
               (ret, at, s) \<leftarrow> onfm_read_sector U (sector_addr + i) (Some (ptr_add (sector_at i) data)) flag mft s;
               Some (ret, ptr_sub (sector_at i) (the at) data, s) }
             else Some (ret, data, s)) (0, sector_data, s));
     ASSERT (ret = 0);
     Some (ret, sector_data, s) }"

definition ONFM_Write :: "'u ubi_ops \<Rightarrow> u32 \<Rightarrow> u32 \<Rightarrow> buf option \<Rightarrow> bool \<Rightarrow> bool \<Rightarrow> 'u onfm_state \<Rightarrow>
    (int \<times> 'u onfm_state) option" where
  "ONFM_Write U sector_addr sector_count sector_data flag mft s = do {
     let s = s\<lparr>read_buffer_start_sector := INVALID_LSADDR\<rparr>;
     if sector_addr mod SECTOR_PER_MPP = 0 \<and> sector_count = SECTOR_PER_MPP then do {
       (status, s) \<leftarrow> ftl_write U (drop_bit SECTOR_PER_MPP_SHIFT sector_addr) sector_data flag mft s;
       Some (if status = STATUS_SUCCESS then 0 else - 1, s) }
     else do {
       (ret, s) \<leftarrow> for_break (upto_u32 0 sector_count)
          (\<lambda>i (ret, s).
             if ret = (0 :: int) then do {
               b \<leftarrow> sector_data;
               let data = deref (get_bufs U (ftl s)) b;
               (ret, s) \<leftarrow> onfm_write_sector U (sector_addr + i) (Some (ptr_add (sector_at i) data)) flag mft s;
               Some (False, ret, s) }
             else Some (True, ret, s)) (0, s);
       if ret = 0 then onfm_write_sector U (- 1) None flag mft s else Some (ret, s) } }"

definition ONFM_Capacity :: "'u ubi_ops \<Rightarrow> 'u onfm_state \<Rightarrow> u32" where
  "ONFM_Capacity U s = push_bit SECTOR_PER_MPP_SHIFT (FTL_Capacity U (ftl s) - 1)"

text \<open>\<open>MTD_Init\<close> reaches below the UBI layer; it is a parameter here.\<close>

definition ONFM_Format :: "'u ubi_ops \<Rightarrow> ('u \<Rightarrow> 'u option) \<Rightarrow> 'u onfm_state \<Rightarrow> (int \<times> 'u onfm_state) option" where
  "ONFM_Format U mtd_init s = do {
     u \<leftarrow> mtd_init (ubi (ftl s));
     (ret, f) \<leftarrow> FTL_Format U ((ftl s)\<lparr>ubi := u\<rparr>);
     Some (if ret = STATUS_SUCCESS then 0 else - 1, s\<lparr>ftl := f\<rparr>) }"

definition ONFM_Mount :: "'u ubi_ops \<Rightarrow> ('u \<Rightarrow> 'u option) \<Rightarrow> 'u onfm_state \<Rightarrow> (int \<times> 'u onfm_state) option" where
  "ONFM_Mount U mtd_init s = do {
     let s = s\<lparr>read_buffer_start_sector := INVALID_LSADDR\<rparr>;
     let f = put_bufs U (BUF_Init (get_bufs U (ftl s))) (ftl s);
     u \<leftarrow> mtd_init (ubi f);
     (ret, f) \<leftarrow> FTL_Init U (f\<lparr>ubi := u\<rparr>);
     Some (if ret = STATUS_SUCCESS then 0 else - 1, s\<lparr>ftl := f\<rparr>) }"

definition ONFM_Unmount :: "'u ubi_ops \<Rightarrow> 'u onfm_state \<Rightarrow> (int \<times> 'u onfm_state) option" where
  "ONFM_Unmount U s = do {
     (ret, f) \<leftarrow> FTL_Flush U (ftl s);
     Some (if ret = STATUS_SUCCESS then 0 else - 1, s\<lparr>ftl := f\<rparr>) }"

section \<open>Backup of the master file table (recovery.c)\<close>

definition BackupMFT :: "'u ubi_ops \<Rightarrow> u32 \<Rightarrow> u32 \<Rightarrow> 'u onfm_state \<Rightarrow> (int \<times> 'u onfm_state) option" where
  "BackupMFT U sector_addr sector_count s =
     (if 8 < sector_count then Some (- 1, s)
      else do {
        (ret, buffer, s) \<leftarrow> ONFM_Read U sector_addr sector_count (\<lambda>_. 0) False False s;
        if ret \<noteq> 0 then Some (- 1, s)
        else if MFT_Reserved_currentsec s < MFT_RESERVED_SECTOR_END - sector_count then do {
          (ret, s) \<leftarrow> ONFM_Write U (MFT_Reserved_currentsec s) sector_count (Some (OtherMem buffer)) False False s;
          if ret = 0
          then Some (0, s\<lparr>MFT_Reserved_currentsec := MFT_Reserved_currentsec s + sector_count\<rparr>)
          else Some (- 1, s) }
        else Some (- 1, s) })"

definition Backup :: "'u ubi_ops \<Rightarrow> int \<Rightarrow> u32 \<Rightarrow> u32 \<Rightarrow> 'u onfm_state \<Rightarrow> (int \<times> 'u onfm_state) option" where
  "Backup U ransomtag sector_addr sector_count s =
     (if ransomtag = 2 then do {
        (_, s) \<leftarrow> BackupMFT U sector_addr sector_count s;
        Some (0, s) }
      else Some (0, s))"

section \<open>Start-up\<close>

definition onfm_start :: "'u ftl_state \<Rightarrow> 'u onfm_state" where
  "onfm_start f = \<lparr>ftl = f, onfm_read_buffer = (\<lambda>_. 0), read_buffer_start_sector = 0,
     starting_sector = INVALID_LSADDR, MFT_Reserved_currentsec = MFT_RESERVED_SECTOR_START\<rparr>"

end
