(* ===== verification/Msc.thy ===== *)
theory Msc
  imports Onfm
begin

text \<open>
  The USB mass storage side of the device (sys/lpc313x/usb/mscuser.c, msc.h, mscuser.h) and the main
  loop of sys/lpc313x/main.c. The interrupt handlers decode commands, carry the tag byte of the
  command into a ring of tasks, and the loop in user space runs the tasks, turning the tag into the
  backup and recovery flags. What the handlers ask of the USB controller is a log of requests; the data the
  controller stores through a primed buffer is an environment step.
\<close>

section \<open>State\<close>

record MSC_CBW =
  cbw_dSignature :: u32
  cbw_dTag :: u32
  dDataLength :: u32
  bmFlags :: u8
  bLUN :: u8
  bCBLength :: u8
  CB :: "nat \<Rightarrow> u8"

record MSC_CSW =
  csw_dSignature :: u32
  csw_dTag :: u32
  dDataResidue :: u32
  bStatus :: u8

definition MSC_CBW_SIZE :: u32 where "MSC_CBW_SIZE = 4 + 4 + 4 + 1 + 1 + 1 + 16"
definition MSC_CBW_Signature :: u32 where "MSC_CBW_Signature = 0x43425355"
definition MSC_CSW_Signature :: u32 where "MSC_CSW_Signature = 0x53425355"
definition CSW_CMD_PASSED :: u8 where "CSW_CMD_PASSED = 0"
definition CSW_CMD_FAILED :: u8 where "CSW_CMD_FAILED = 1"
definition CSW_PHASE_ERROR :: u8 where "CSW_PHASE_ERROR = 2"

datatype BULK_STAGE =
  MSC_BS_CBW | MSC_BS_DATA_OUT | MSC_BS_DATA_IN | MSC_BS_DATA_IN_LAST | MSC_BS_DATA_IN_LAST_STALL
  | MSC_BS_CSW | MSC_BS_ERROR

definition SCSI_TEST_UNIT_READY :: u8 where "SCSI_TEST_UNIT_READY = 0x00"
definition SCSI_REQUEST_SENSE :: u8 where "SCSI_REQUEST_SENSE = 0x03"
definition SCSI_INQUIRY :: u8 where "SCSI_INQUIRY = 0x12"
definition SCSI_MODE_SENSE6 :: u8 where "SCSI_MODE_SENSE6 = 0x1A"
definition SCSI_READ_FORMAT_CAPACITIES :: u8 where "SCSI_READ_FORMAT_CAPACITIES = 0x23"
definition SCSI_READ_CAPACITY :: u8 where "SCSI_READ_CAPACITY = 0x25"
definition SCSI_READ10 :: u8 where "SCSI_READ10 = 0x28"
definition SCSI_WRITE10 :: u8 where "SCSI_WRITE10 = 0x2A"
definition SCSI_VERIFY10 :: u8 where "SCSI_VERIFY10 = 0x2F"
definition SCSI_READ12 :: u8 where "SCSI_READ12 = 0xA8"
definition SCSI_WRITE12 :: u8 where "SCSI_WRITE12 = 0xAA"
definition SCSI_MODE_SENSE10 :: u8 where "SCSI_MODE_SENSE10 = 0x5A"

lemmas scsi_values [simp] = MSC_CBW_SIZE_def MSC_CBW_Signature_def MSC_CSW_Signature_def
  CSW_CMD_PASSED_def CSW_CMD_FAILED_def CSW_PHASE_ERROR_def SCSI_TEST_UNIT_READY_def
  SCSI_REQUEST_SENSE_def SCSI_INQUIRY_def SCSI_MODE_SENSE6_def SCSI_READ_FORMAT_CAPACITIES_def
  SCSI_READ_CAPACITY_def SCSI_READ10_def SCSI_WRITE10_def SCSI_VERIFY10_def SCSI_READ12_def
  SCSI_WRITE12_def SCSI_MODE_SENSE10_def

datatype UT_TYPE = UT_READ | UT_WRITE | UT_MERGE | UT_PREREAD
datatype MERGE_STAGE = MERGE_NONE | MERGE_START | MERGE_FINISH

text \<open>A task's buffer is the static read buffer or a buffer of the page pool (NULL if none).\<close>

datatype ut_buffer = UtReadBuf | UtPool "u32 option"

record USB_TRANSCATION =
  ut_type :: UT_TYPE
  ut_offset :: u32
  ut_length :: u32
  ut_buffer :: ut_buffer
  ut_tag :: u8

definition UT_LIST_SIZE :: u32 where "UT_LIST_SIZE = BUFFER_COUNT * 2"
definition MSC_EP_IN :: u32 where "MSC_EP_IN = 0x81"
definition MSC_EP_OUT :: u32 where "MSC_EP_OUT = 0x01"
definition MSC_BlockSize :: u32 where "MSC_BlockSize = SECTOR_SIZE"

lemma msc_values [simp, cfg_defs]: "UT_LIST_SIZE = 8" "MSC_EP_IN = 0x81" "MSC_EP_OUT = 1" "MSC_BlockSize = 512"
  by (simp_all add: UT_LIST_SIZE_def MSC_EP_IN_def MSC_EP_OUT_def MSC_BlockSize_def)

text \<open>Requests to the controller: data to send (the status, the command or the read buffer), a stall, a primed
  buffer (the CBW, or memory of a pool buffer from a byte offset on).\<close>

datatype usb_request =
    WriteCSW MSC_CSW
  | WriteCMD u32
  | WriteData u32
  | StallEP u32
  | PrimeCBW u32
  | PrimeBuf u32 u32 u32

record msc_state =
  MemOK :: bool
  Offset :: u32
  Length :: u32
  BulkBuf :: "u32 option"
  BulkLen :: u32
  MSC_BlockCount :: u32
  Read_BulkLen :: u32
  Read_BulkBuf :: mem
  CMD_BulkBuf :: "nat \<Rightarrow> u8"
  CBW :: MSC_CBW
  CSW :: MSC_CSW
  BulkStage :: BULK_STAGE
  ut_list :: "u32 \<Rightarrow> USB_TRANSCATION"
  ut_pop :: u32
  ut_push :: u32
  merge_stage :: MERGE_STAGE
  merge_count :: u32
  DevStatusFS2HS :: bool
  USB_EndPointHalt :: u32
  USB_EndPointStall :: u32
  usb_log :: "usb_request list"

record 'u device_state =
  onfm :: "'u onfm_state"
  msc :: msc_state

section \<open>Status and stalls\<close>

definition usb_request :: "usb_request \<Rightarrow> msc_state \<Rightarrow> msc_state" where
  "usb_request r m = m\<lparr>usb_log := usb_log m @ [r]\<rparr>"

definition MSC_SetStallEP :: "u32 \<Rightarrow> msc_state \<Rightarrow> msc_state" where
  "MSC_SetStallEP EPNum m =
     (usb_request (StallEP EPNum) m)\<lparr>USB_EndPointHalt := USB_EndPointHalt m OR
        (if EPNum AND 0x80 \<noteq> 0 then push_bit (unat (EPNum AND 0x0F)) (push_bit 16 1)
         else push_bit (unat EPNum) 1)\<rparr>"

definition MSC_SetCSW :: "msc_state \<Rightarrow> msc_state" where
  "MSC_SetCSW m =
     (let m = m\<lparr>CSW := (CSW m)\<lparr>csw_dSignature := MSC_CSW_Signature\<rparr>\<rparr>
      in (usb_request (WriteCSW (CSW m)) m)\<lparr>BulkStage := MSC_BS_CSW\<rparr>)"

definition set_status :: "u8 \<Rightarrow> msc_state \<Rightarrow> msc_state" where
  "set_status v m = m\<lparr>CSW := (CSW m)\<lparr>bStatus := v\<rparr>\<rparr>"

definition finish_with :: "u8 \<Rightarrow> msc_state \<Rightarrow> msc_state" where
  "finish_with v m = MSC_SetCSW (set_status v m)"

definition MSC_Reset :: "msc_state \<Rightarrow> msc_state" where
  "MSC_Reset m = m\<lparr>USB_EndPointStall := 0, CSW := (CSW m)\<lparr>csw_dSignature := 0\<rparr>, BulkStage := MSC_BS_CBW\<rparr>"

definition MSC_Init :: "'u ubi_ops \<Rightarrow> 'u device_state \<Rightarrow> 'u device_state" where
  "MSC_Init U d = d\<lparr>msc := (msc d)\<lparr>BulkBuf := None, Read_BulkLen := 0, merge_stage := MERGE_NONE,
     merge_count := 0, ut_pop := 0, ut_push := 0, MSC_BlockCount := ONFM_Capacity U (onfm d)\<rparr>\<rparr>"

definition cbw_in :: "msc_state \<Rightarrow> bool" where
  "cbw_in m \<longleftrightarrow> bmFlags (CBW m) AND 0x80 \<noteq> 0"

section \<open>The task ring\<close>

definition ut_put :: "USB_TRANSCATION \<Rightarrow> msc_state \<Rightarrow> msc_state option" where
  "ut_put t m = do {
     let m = m\<lparr>ut_list := (ut_list m)(ut_push m := t), ut_push := (ut_push m + 1) mod UT_LIST_SIZE\<rparr>;
     ASSERT (ut_push m \<noteq> ut_pop m);
     Some m }"

definition MSC_MemoryRead :: "msc_state \<Rightarrow> msc_state option" where
  "MSC_MemoryRead m =
     (if DevStatusFS2HS m then do {
        let n = min (SECTOR_PER_MPP - Offset m mod SECTOR_PER_MPP) (Length m);
        let (n, m) = (if MSC_BlockCount m < Offset m + n
           then (MSC_BlockCount m - Offset m, m\<lparr>BulkStage := MSC_BS_DATA_IN_LAST_STALL\<rparr>) else (n, m));
        m \<leftarrow> ut_put \<lparr>ut_type = UT_READ, ut_offset = Offset m, ut_length = n, ut_buffer = UtReadBuf,
                     ut_tag = CB (CBW m) 6\<rparr> m;
        Some (m\<lparr>Read_BulkLen := 0, Offset := Offset m + n, Length := Length m - n,
                CSW := (CSW m)\<lparr>dDataResidue := dDataResidue (CSW m) - n * MSC_BlockSize\<rparr>\<rparr>) }
      else Some m)"

definition MSC_MemoryWrite :: "msc_state \<Rightarrow> msc_state option" where
  "MSC_MemoryWrite m =
     (if BulkLen m mod MSC_BlockSize = 0 then do {
        let n = BulkLen m div MSC_BlockSize;
        let m = (if MSC_BlockCount m < Offset m + n
           then MSC_SetStallEP MSC_EP_OUT (m\<lparr>BulkLen := (MSC_BlockCount m - Offset m) * MSC_BlockSize,
                                             BulkStage := MSC_BS_CSW\<rparr>)
           else m);
        m \<leftarrow> ut_put \<lparr>ut_type = UT_WRITE, ut_offset = Offset m AND NOT (SECTOR_PER_MPP - 1),
                     ut_length = SECTOR_PER_MPP, ut_buffer = UtPool (BulkBuf m), ut_tag = CB (CBW m) 6\<rparr> m;
        let m = m\<lparr>Offset := Offset m + n, Length := Length m - n,
                  CSW := (CSW m)\<lparr>dDataResidue := dDataResidue (CSW m) - BulkLen m\<rparr>\<rparr>;
        Some (if Length m = 0 \<or> BulkStage m = MSC_BS_CSW then finish_with CSW_CMD_PASSED m else m) }
      else Some m)"

definition MSC_MemoryVerify :: "msc_state \<Rightarrow> msc_state" where
  "MSC_MemoryVerify m =
     finish_with CSW_CMD_PASSED
       (m\<lparr>Offset := Offset m + Length m, Length := 0, CSW := (CSW m)\<lparr>dDataResidue := 0\<rparr>\<rparr>)"

text \<open>The address and length of a read or write command; false when the command has been answered.\<close>

definition be32 :: "u8 \<Rightarrow> u8 \<Rightarrow> u8 \<Rightarrow> u8 \<Rightarrow> u32" where
  "be32 a b c d = push_bit 24 (ucast a) OR push_bit 16 (ucast b) OR push_bit 8 (ucast c) OR ucast d"

definition rw_length :: "(nat \<Rightarrow> u8) \<Rightarrow> u32 \<Rightarrow> u32" where
  "rw_length cb n =
     (if cb 0 = SCSI_READ10 \<or> cb 0 = SCSI_WRITE10 \<or> cb 0 = SCSI_VERIFY10
      then push_bit 8 (ucast (cb 7)) OR ucast (cb 8)
      else if cb 0 = SCSI_READ12 \<or> cb 0 = SCSI_WRITE12 then be32 (cb 6) (cb 7) (cb 8) (cb 9)
      else n)"

definition stall_data_ep :: "msc_state \<Rightarrow> msc_state" where
  "stall_data_ep m = MSC_SetStallEP (if cbw_in m then MSC_EP_IN else MSC_EP_OUT) m"

definition MSC_RWSetup :: "msc_state \<Rightarrow> bool \<times> msc_state" where
  "MSC_RWSetup m =
     (let cb = CB (CBW m);
          n = be32 (cb 2) (cb 3) (cb 4) (cb 5);
          m = m\<lparr>Offset := n\<rparr>;
          n = rw_length cb n;
          m = m\<lparr>Length := n\<rparr>
      in if dDataLength (CBW m) = 0 then (False, finish_with CSW_CMD_FAILED m)
         else if dDataLength (CBW m) \<noteq> n * MSC_BlockSize
         then (False, finish_with CSW_CMD_FAILED (stall_data_ep m))
         else (True, m))"

section \<open>Other commands\<close>

definition DataIn_Format :: "msc_state \<Rightarrow> bool \<times> msc_state" where
  "DataIn_Format m =
     (if dDataLength (CBW m) = 0 then (False, finish_with CSW_PHASE_ERROR m)
      else if \<not> cbw_in m then (False, finish_with CSW_PHASE_ERROR (MSC_SetStallEP MSC_EP_OUT m))
      else (True, m))"

definition DataIn_Transfer :: "msc_state \<Rightarrow> msc_state" where
  "DataIn_Transfer m =
     (let m = m\<lparr>BulkLen := min (BulkLen m) (dDataLength (CBW m)), BulkStage := MSC_BS_DATA_IN_LAST\<rparr>;
          m = usb_request (WriteCMD (BulkLen m)) m
      in m\<lparr>CSW := (CSW m)\<lparr>dDataResidue := 0, bStatus := CSW_CMD_PASSED\<rparr>\<rparr>)"

definition data_in :: "u8 list \<Rightarrow> msc_state \<Rightarrow> msc_state" where
  "data_in bytes m =
     (let (ok, m) = DataIn_Format m in
      if ok then DataIn_Transfer (m\<lparr>CMD_BulkBuf := (\<lambda>k. if k < length bytes then bytes ! k else CMD_BulkBuf m k),
                                    BulkLen := of_nat (length bytes)\<rparr>)
      else m)"

definition MSC_TestUnitReady :: "msc_state \<Rightarrow> msc_state" where
  "MSC_TestUnitReady m =
     finish_with CSW_CMD_PASSED (if dDataLength (CBW m) \<noteq> 0 then stall_data_ep m else m)"

definition MSC_RequestSense :: "msc_state \<Rightarrow> msc_state" where
  "MSC_RequestSense = data_in [0x70, 0, 0x02, 0, 0, 0, 0, 0x0A, 0, 0, 0, 0, 0x30, 0x01, 0, 0, 0, 0]"

text \<open>Vendor "Crane544", product "Open NANDF Mgr  ", revision "0.1 ".\<close>

definition MSC_Inquiry :: "msc_state \<Rightarrow> msc_state" where
  "MSC_Inquiry = data_in
     [0x00, 0x80, 0x00, 0x01, 36 - 4, 0x80, 0x00, 0x00,
      67, 114, 97, 110, 101, 53, 52, 52,
      79, 112, 101, 110, 32, 78, 65, 78, 68, 70, 32, 77, 103, 114, 32, 32,
      48, 46, 49, 32]"

definition MSC_ModeSense6 :: "msc_state \<Rightarrow> msc_state" where
  "MSC_ModeSense6 = data_in [0x03, 0, 0, 0]"

definition MSC_ModeSense10 :: "msc_state \<Rightarrow> msc_state" where
  "MSC_ModeSense10 = data_in [0x00, 0x06, 0, 0, 0, 0, 0, 0]"

definition byte_at :: "nat \<Rightarrow> u32 \<Rightarrow> u8" where
  "byte_at sh w = ucast (drop_bit sh w AND 0xFF)"

definition MSC_ReadCapacity :: "msc_state \<Rightarrow> msc_state" where
  "MSC_ReadCapacity m = data_in
     [byte_at 24 (MSC_BlockCount m - 1), byte_at 16 (MSC_BlockCount m - 1), byte_at 8 (MSC_BlockCount m - 1),
      byte_at 0 (MSC_BlockCount m - 1),
      byte_at 24 MSC_BlockSize, byte_at 16 MSC_BlockSize, byte_at 8 MSC_BlockSize, byte_at 0 MSC_BlockSize] m"

definition MSC_ReadFormatCapacity :: "msc_state \<Rightarrow> msc_state" where
  "MSC_ReadFormatCapacity m = data_in
     [0x00, 0x00, 0x00, 0x08,
      byte_at 24 (MSC_BlockCount m), byte_at 16 (MSC_BlockCount m), byte_at 8 (MSC_BlockCount m),
      byte_at 0 (MSC_BlockCount m),
      0x02, byte_at 16 MSC_BlockSize, byte_at 8 MSC_BlockSize, byte_at 0 MSC_BlockSize] m"

section \<open>Dispatch\<close>

definition msc_read_command :: "msc_state \<Rightarrow> msc_state option" where
  "msc_read_command m =
     (let (ok, m) = MSC_RWSetup m in
      if ok then
        if cbw_in m then MSC_MemoryRead (m\<lparr>BulkStage := MSC_BS_DATA_IN\<rparr>)
        else Some (finish_with CSW_PHASE_ERROR (MSC_SetStallEP MSC_EP_OUT m))
      else Some m)"

definition msc_write_command :: "bool \<Rightarrow> msc_state \<Rightarrow> msc_state" where
  "msc_write_command verify m =
     (let (ok, m) = MSC_RWSetup m in
      if ok then
        if \<not> cbw_in m then (if verify then m\<lparr>BulkStage := MSC_BS_DATA_OUT, MemOK := True\<rparr>
                             else m\<lparr>BulkStage := MSC_BS_DATA_OUT\<rparr>)
        else finish_with CSW_PHASE_ERROR (MSC_SetStallEP MSC_EP_IN m)
      else m)"

definition msc_command :: "msc_state \<Rightarrow> msc_state option" where
  "msc_command m =
     (let c = CB (CBW m) 0 in
      if c = SCSI_TEST_UNIT_READY then Some (MSC_TestUnitReady m)
      else if c = SCSI_REQUEST_SENSE then Some (MSC_RequestSense m)
      else if c = SCSI_INQUIRY then Some (MSC_Inquiry m)
      else if c = SCSI_MODE_SENSE6 then Some (MSC_ModeSense6 m)
      else if c = SCSI_MODE_SENSE10 then Some (MSC_ModeSense10 m)
      else if c = SCSI_READ_FORMAT_CAPACITIES then Some (MSC_ReadFormatCapacity m)
      else if c = SCSI_READ_CAPACITY then Some (MSC_ReadCapacity m)
      else if c = SCSI_READ10 \<or> c = SCSI_READ12 then msc_read_command m
      else if c = SCSI_WRITE10 \<or> c = SCSI_WRITE12 then Some (msc_write_command False m)
      else if c = SCSI_VERIFY10 then
        if CB (CBW m) 1 AND 0x02 = 0 then Some (finish_with CSW_CMD_PASSED m)
        else Some (msc_write_command True m)
      else Some (finish_with CSW_CMD_FAILED m))"

definition MSC_GetCBW :: "msc_state \<Rightarrow> msc_state option" where
  "MSC_GetCBW m =
     (if BulkLen m = MSC_CBW_SIZE \<and> cbw_dSignature (CBW m) = MSC_CBW_Signature
      then
        let m = m\<lparr>CSW := (CSW m)\<lparr>csw_dTag := cbw_dTag (CBW m), dDataResidue := dDataLength (CBW m)\<rparr>\<rparr> in
        if bLUN (CBW m) \<noteq> 0 \<or> bCBLength (CBW m) < 1 \<or> 16 < bCBLength (CBW m)
        then Some (finish_with CSW_CMD_FAILED m)
        else msc_command m
      else
        let m = MSC_SetStallEP MSC_EP_IN m;
            m = m\<lparr>USB_EndPointStall := USB_EndPointStall m OR push_bit (16 + unat (MSC_EP_IN AND 0x0F)) 1\<rparr>;
            m = MSC_SetStallEP MSC_EP_OUT m;
            m = m\<lparr>USB_EndPointStall := USB_EndPointStall m OR push_bit (unat MSC_EP_OUT) 1\<rparr>
        in Some (m\<lparr>BulkStage := MSC_BS_ERROR\<rparr>))"

definition MSC_BulkInNak :: "msc_state \<Rightarrow> msc_state" where
  "MSC_BulkInNak m =
     (if Read_BulkLen m \<noteq> 0 then
        let m = usb_request (WriteData (Read_BulkLen m)) m;
            m = (if Length m = 0 then m\<lparr>BulkStage := MSC_BS_DATA_IN_LAST\<rparr> else m)
        in if BulkStage m \<noteq> MSC_BS_DATA_IN then set_status CSW_CMD_PASSED m else m
      else m)"

definition MSC_BulkIn :: "msc_state \<Rightarrow> msc_state option" where
  "MSC_BulkIn m = (case BulkStage m of
     MSC_BS_DATA_IN \<Rightarrow>
       if CB (CBW m) 0 = SCSI_READ10 \<or> CB (CBW m) 0 = SCSI_READ12 then MSC_MemoryRead m else Some m
   | MSC_BS_DATA_IN_LAST \<Rightarrow> Some (MSC_SetCSW m)
   | MSC_BS_DATA_IN_LAST_STALL \<Rightarrow> Some (MSC_SetCSW (MSC_SetStallEP MSC_EP_IN m))
   | MSC_BS_CSW \<Rightarrow> Some (m\<lparr>BulkStage := MSC_BS_CBW\<rparr>)
   | _ \<Rightarrow> Some m)"

text \<open>\<open>len\<close> is what \<open>USB_ReadEP\<close> returns.\<close>

definition MSC_BulkOut :: "u32 \<Rightarrow> msc_state \<Rightarrow> msc_state option" where
  "MSC_BulkOut len m =
     (let m = m\<lparr>BulkLen := len\<rparr> in
      case BulkStage m of
        MSC_BS_CBW \<Rightarrow> MSC_GetCBW m
      | MSC_BS_DATA_OUT \<Rightarrow>
          let c = CB (CBW m) 0 in
          if c = SCSI_WRITE10 \<or> c = SCSI_WRITE12 then MSC_MemoryWrite m
          else if c = SCSI_VERIFY10 then Some (MSC_MemoryVerify m)
          else Some m
      | MSC_BS_CSW \<Rightarrow> Some m
      | _ \<Rightarrow> Some (finish_with CSW_PHASE_ERROR (MSC_SetStallEP MSC_EP_OUT m)))"

definition prime :: "u32 option \<Rightarrow> u32 \<Rightarrow> u32 \<Rightarrow> msc_state \<Rightarrow> msc_state" where
  "prime p off len m = (case p of Some i \<Rightarrow> usb_request (PrimeBuf i off len) m | None \<Rightarrow> m)"

definition MSC_BulkOutNak :: "'u ubi_ops \<Rightarrow> 'u device_state \<Rightarrow> 'u device_state option" where
  "MSC_BulkOutNak U d =
     (let m = msc d in
      if DevStatusFS2HS m then
        if BulkStage m = MSC_BS_DATA_OUT then
          case merge_stage m of
            MERGE_START \<Rightarrow> Some d
          | MERGE_FINISH \<Rightarrow>
              Some (d\<lparr>msc := (prime (BulkBuf m) (Offset m mod SECTOR_PER_MPP * MSC_BlockSize)
                                (merge_count m * MSC_BlockSize) m)\<lparr>merge_stage := MERGE_NONE, merge_count := 0\<rparr>\<rparr>)
          | MERGE_NONE \<Rightarrow> do {
              let f = ftl (onfm d);
              let (p, b) = BUF_Allocate (get_bufs U f);
              let d = d\<lparr>onfm := (onfm d)\<lparr>ftl := put_bufs U b f\<rparr>\<rparr>;
              let m = m\<lparr>BulkBuf := p\<rparr>;
              if p \<noteq> None then do {
                let n = min (SECTOR_PER_MPP - Offset m mod SECTOR_PER_MPP) (Length m);
                if n \<noteq> SECTOR_PER_MPP then do {
                  m \<leftarrow> ut_put ((ut_list m (ut_push m))\<lparr>ut_type := UT_MERGE,
                         ut_offset := Offset m AND NOT (SECTOR_PER_MPP - 1), ut_length := SECTOR_PER_MPP,
                         ut_buffer := UtPool p\<rparr>) m;
                  Some (d\<lparr>msc := m\<lparr>merge_stage := MERGE_START, merge_count := n\<rparr>\<rparr>) }
                else Some (d\<lparr>msc := prime p 0 MPP_SIZE m\<rparr>) }
              else Some (d\<lparr>msc := m\<rparr>) }
        else if BulkStage m = MSC_BS_CBW then Some (d\<lparr>msc := usb_request (PrimeCBW MSC_CBW_SIZE) m\<rparr>)
        else Some d
      else Some d)"

section \<open>The main loop\<close>

text \<open>The flags of a task: a tagged write keeps the old version; a recovery read asks for it.\<close>

definition write_flags :: "u8 \<Rightarrow> bool \<times> bool" where
  "write_flags tag = (let ransomtag = CheckTag tag in (ransomtag = 1, ransomtag = 2))"

definition read_flags :: "u8 \<Rightarrow> bool \<times> bool" where
  "read_flags tag = (let ransomtag = CheckTag tag in (ransomtag = 3, ransomtag = 2))"

definition task_buf :: "msc_state \<Rightarrow> ut_buffer \<Rightarrow> buf option" where
  "task_buf m b = (case b of UtReadBuf \<Rightarrow> Some (OtherMem (Read_BulkBuf m)) | UtPool p \<Rightarrow> map_option PoolBuf p)"

text \<open>Run \<open>ONFM_Read\<close> into a task's buffer.\<close>

definition task_read :: "'u ubi_ops \<Rightarrow> USB_TRANSCATION \<Rightarrow> bool \<Rightarrow> bool \<Rightarrow> 'u device_state \<Rightarrow> 'u device_state option" where
  "task_read U t flag mft d = do {
     b \<leftarrow> task_buf (msc d) (ut_buffer t);
     (_, data, o') \<leftarrow> ONFM_Read U (ut_offset t) (ut_length t) (deref (get_bufs U (ftl (onfm d))) b) flag mft (onfm d);
     Some (case b of
       PoolBuf i \<Rightarrow> d\<lparr>onfm := o'\<lparr>ftl := put_bufs U (pool_put i data (get_bufs U (ftl o'))) (ftl o')\<rparr>\<rparr>
     | OtherMem _ \<Rightarrow> d\<lparr>onfm := o', msc := (msc d)\<lparr>Read_BulkBuf := data\<rparr>\<rparr>) }"

text \<open>One round of \<open>usb_user_task_loop\<close>.\<close>

definition usb_user_task_step :: "'u ubi_ops \<Rightarrow> 'u device_state \<Rightarrow> 'u device_state option" where
  "usb_user_task_step U d =
     (let m = msc d in
      if ut_pop m \<noteq> ut_push m then do {
        let t = ut_list m (ut_pop m);
        d \<leftarrow>
          (if ut_type t = UT_WRITE then do {
             let (flag, mft) = write_flags (ut_tag t);
             (_, o') \<leftarrow> ONFM_Write U (ut_offset t) (ut_length t) (task_buf m (ut_buffer t)) flag mft (onfm d);
             Some (d\<lparr>onfm := o'\<rparr>) }
           else if ut_type t = UT_READ then
             if Read_BulkLen m = 0 then do {
               let (flag, mft) = read_flags (ut_tag t);
               d \<leftarrow> task_read U t flag mft d;
               Some (d\<lparr>msc := (msc d)\<lparr>Read_BulkLen := ut_length t * MSC_BlockSize\<rparr>\<rparr>) }
             else Some d
           else do {
             ASSERT (ut_type t = UT_MERGE);
             if merge_stage m = MERGE_START then do {
               d \<leftarrow> task_read U t False False d;
               Some (d\<lparr>msc := (msc d)\<lparr>merge_stage := MERGE_FINISH\<rparr>\<rparr>) }
             else Some d });
        Some (d\<lparr>msc := (msc d)\<lparr>ut_pop := (ut_pop (msc d) + 1) mod UT_LIST_SIZE\<rparr>\<rparr>) }
      else Some d)"

text \<open>Start-up of \<open>main\<close>: the flash is always formatted before it is mounted.\<close>

definition main_start :: "'u ubi_ops \<Rightarrow> ('u \<Rightarrow> 'u option) \<Rightarrow> 'u device_state \<Rightarrow> (int \<times> 'u device_state) option" where
  "main_start U mtd_init d = do {
     (r, o') \<leftarrow> ONFM_Format U mtd_init (onfm d);
     (r, o') \<leftarrow> (if r = 0 then ONFM_Mount U mtd_init o' else Some (r, o'));
     let d = d\<lparr>onfm := o'\<rparr>;
     Some (r, if r = 0 then MSC_Init U d else d) }"

section \<open>Start-up\<close>

text \<open>The device as reset leaves it, over the simulated flash.\<close>

definition msc_start :: msc_state where
  "msc_start = \<lparr>MemOK = False, Offset = 0, Length = 0, BulkBuf = None, BulkLen = 0, MSC_BlockCount = 0,
     Read_BulkLen = 0, Read_BulkBuf = (\<lambda>_. 0), CMD_BulkBuf = (\<lambda>_. 0),
     CBW = \<lparr>cbw_dSignature = 0, cbw_dTag = 0, dDataLength = 0, bmFlags = 0, bLUN = 0, bCBLength = 0, CB = (\<lambda>_. 0)\<rparr>,
     CSW = \<lparr>csw_dSignature = 0, csw_dTag = 0, dDataResidue = 0, bStatus = 0\<rparr>, BulkStage = MSC_BS_CBW,
     ut_list = (\<lambda>_. \<lparr>ut_type = UT_READ, ut_offset = 0, ut_length = 0, ut_buffer = UtPool None, ut_tag = 0\<rparr>),
     ut_pop = 0, ut_push = 0, merge_stage = MERGE_NONE, merge_count = 0, DevStatusFS2HS = False,
     USB_EndPointHalt = 0, USB_EndPointStall = 0, usb_log = []\<rparr>"

definition device_start :: "sim_state ubi_state device_state" where
  "device_start = \<lparr>onfm = onfm_start (ftl_start 4 (ubi_start sim_start)), msc = msc_start\<rparr>"

section \<open>The task ring as a queue\<close>

text \<open>What a handler and the main loop do with a queue: put an item in, or take the front out if there is one. A run stops for ever at a
  \<open>put\<close> that does not return; its outputs are the items taken.\<close>

datatype 'a queue_op = Put 'a | Take

fun queue_run :: "('a \<Rightarrow> 's \<Rightarrow> 's option) \<Rightarrow> ('s \<Rightarrow> ('a \<times> 's) option) \<Rightarrow> 'a queue_op list \<Rightarrow> 's \<Rightarrow> ('a list \<times> 's) option" where
  "queue_run put get [] s = Some ([], s)"
| "queue_run put get (Put x # ops) s = do { s \<leftarrow> put x s; queue_run put get ops s }"
| "queue_run put get (Take # ops) s = (case get s of
     None \<Rightarrow> queue_run put get ops s
   | Some (x, s) \<Rightarrow> do { (out, s) \<leftarrow> queue_run put get ops s; Some (x # out, s) })"

text \<open>The abstract queue: a list of at most \<open>cap\<close> items.\<close>

definition fifo_put :: "nat \<Rightarrow> 'a \<Rightarrow> 'a list \<Rightarrow> 'a list option" where
  "fifo_put cap x q = (if length q < cap then Some (q @ [x]) else None)"

fun fifo_take :: "'a list \<Rightarrow> ('a \<times> 'a list) option" where
  "fifo_take [] = None"
| "fifo_take (x # q) = Some (x, q)"

locale bounded_queue =
  fixes ok :: "'s \<Rightarrow> bool"
    and items :: "'s \<Rightarrow> 'a list"
    and put :: "'a \<Rightarrow> 's \<Rightarrow> 's option"
    and get :: "'s \<Rightarrow> ('a \<times> 's) option"
    and cap :: nat
  assumes put_items: "ok s \<Longrightarrow> map_option items (put x s) = fifo_put cap x (items s)"
    and put_ok: "ok s \<Longrightarrow> put x s = Some s' \<Longrightarrow> ok s'"
    and get_items: "ok s \<Longrightarrow> map_option (apsnd items) (get s) = fifo_take (items s)"
    and get_ok: "ok s \<Longrightarrow> get s = Some (x, s') \<Longrightarrow> ok s'"
begin

lemma run_items: "ok s \<Longrightarrow> map_option (apsnd items) (queue_run put get ops s) = queue_run (fifo_put cap) fifo_take ops (items s)"
proof (induction ops arbitrary: s)
  case (Cons op ops)
  show ?case
  proof (cases op)
    case (Put x)
    show ?thesis
    proof (cases "put x s")
      case None
      then show ?thesis using put_items [OF Cons.prems, of x] by (simp add: Put fifo_put_def split: if_splits)
    next
      case (Some s1)
      then have "fifo_put cap x (items s) = Some (items s1)" using put_items [OF Cons.prems, of x] by simp
      with Cons.IH [OF put_ok [OF Cons.prems Some]] Some show ?thesis by (simp add: Put)
    qed
  next
    case Take
    show ?thesis
    proof (cases "get s")
      case None
      then have "fifo_take (items s) = None" using get_items [OF Cons.prems] by simp
      with Cons.IH [OF Cons.prems] None show ?thesis by (simp add: Take)
    next
      case (Some p)
      obtain x s1 where p: "p = (x, s1)" by (cases p)
      then have "fifo_take (items s) = Some (x, items s1)" using get_items [OF Cons.prems] Some by simp
      with Cons.IH [OF get_ok [OF Cons.prems Some [unfolded p]]] Some p show ?thesis
        by (cases "queue_run put get ops s1") (auto simp: Take dest: sym)
    qed
  qed
qed simp

lemma run_ok: "ok s \<Longrightarrow> queue_run put get ops s = Some (out, s') \<Longrightarrow> ok s'"
proof (induction ops arbitrary: s out)
  case (Cons op ops)
  show ?case
  proof (cases op)
    case (Put x)
    then show ?thesis using Cons put_ok [OF Cons.prems(1)] by (auto split: Option.bind_splits)
  next
    case Take
    then show ?thesis using Cons get_ok [OF Cons.prems(1)] by (auto split: option.splits Option.bind_splits)
  qed
qed simp

end

definition ring_ok :: "msc_state \<Rightarrow> bool" where
  "ring_ok m \<longleftrightarrow> ut_pop m < UT_LIST_SIZE \<and> ut_push m < UT_LIST_SIZE"

definition ring_length :: "msc_state \<Rightarrow> nat" where
  "ring_length m = (unat (ut_push m) + 8 - unat (ut_pop m)) mod 8"

definition ring_tasks :: "msc_state \<Rightarrow> USB_TRANSCATION list" where
  "ring_tasks m = map (\<lambda>k. ut_list m (of_nat ((unat (ut_pop m) + k) mod 8))) [0 ..< ring_length m]"

definition ring_pop :: "msc_state \<Rightarrow> msc_state" where
  "ring_pop m = m\<lparr>ut_pop := (ut_pop m + 1) mod UT_LIST_SIZE\<rparr>"

text \<open>The main loop's access: the task at the front, if the ring is not empty, and the advance behind it.\<close>

definition ut_take :: "msc_state \<Rightarrow> (USB_TRANSCATION \<times> msc_state) option" where
  "ut_take m = (if ut_pop m \<noteq> ut_push m then Some (ut_list m (ut_pop m), ring_pop m) else None)"

lemma unat_ring_next: "i < 8 \<Longrightarrow> unat ((i + 1) mod 8 :: u32) = (unat i + 1) mod 8"
proof -
  assume "i < 8"
  then have "unat i < 8" by (simp add: word_less_nat_alt)
  then have "unat (i + 1) = unat i + 1" by (simp add: unat_word_ariths)
  then show ?thesis by (simp add: unat_mod)
qed

lemma length_ring_tasks [simp]: "length (ring_tasks m) = ring_length m"
  by (simp add: ring_tasks_def)

lemma mod_8_small: "n < 16 \<Longrightarrow> n mod 8 = (if n < 8 then n else n - (8 :: nat))"
  by (simp add: mod_if)

lemma ring_arith:
  assumes "p < 8" "q < (8 :: nat)"
  defines "l \<equiv> (q + 8 - p) mod 8"
  shows "(p + l) mod 8 = q"
    and "k < l \<Longrightarrow> (p + k) mod 8 \<noteq> q"
    and "l < 7 \<longleftrightarrow> (q + 1) mod 8 \<noteq> p"
    and "l < 7 \<Longrightarrow> ((q + 1) mod 8 + 8 - p) mod 8 = Suc l"
    and "l = Suc n \<Longrightarrow> (q + 8 - (p + 1) mod 8) mod 8 = n"
proof -
  have l: "l = (if p \<le> q then q - p else q + 8 - p)"
    unfolding l_def using assms(1,2) by (subst mod_8_small) auto
  have lt: "l < 8" by (simp add: l_def)
  show "(p + l) mod 8 = q"
    using assms(1,2) by (subst mod_8_small) (auto simp: l)
  show "(p + k) mod 8 \<noteq> q" if "k < l"
    using that lt assms(1,2) by (subst mod_8_small) (auto simp: l split: if_splits)
  have q1: "(q + 1) mod 8 = (if q = 7 then 0 else q + 1)" using assms(2) by (subst mod_8_small) auto
  have p1: "(p + 1) mod 8 = (if p = 7 then 0 else p + 1)" using assms(1) by (subst mod_8_small) auto
  show "l < 7 \<longleftrightarrow> (q + 1) mod 8 \<noteq> p"
    unfolding q1 l using assms(1,2) by auto
  show "((q + 1) mod 8 + 8 - p) mod 8 = Suc l" if "l < 7"
    unfolding q1 using that assms(1,2) by (subst mod_8_small) (auto simp: l split: if_splits)
  show "(q + 8 - (p + 1) mod 8) mod 8 = n" if "l = Suc n"
    unfolding p1 using that assms(1,2) by (subst mod_8_small) (auto simp: l split: if_splits)
qed

lemma ring_lt: "ring_ok m \<Longrightarrow> unat (ut_pop m) < 8 \<and> unat (ut_push m) < 8"
  by (simp add: ring_ok_def word_less_nat_alt)

lemma ut_put_eq:
  assumes "ring_ok m"
  shows "ut_put t m = (if ring_length m < 7 then Some (m\<lparr>ut_list := (ut_list m)(ut_push m := t),
      ut_push := (ut_push m + 1) mod UT_LIST_SIZE\<rparr>) else None)"
proof -
  have lt: "unat (ut_pop m) < 8" "unat (ut_push m) < 8" using ring_lt [OF assms] by simp_all
  have "unat ((ut_push m + 1) mod 8) = (unat (ut_push m) + 1) mod 8"
    using assms by (intro unat_ring_next) (simp add: ring_ok_def)
  then have "(ut_push m + 1) mod 8 \<noteq> ut_pop m \<longleftrightarrow> ring_length m < 7"
    using ring_arith(3) [OF lt] by (simp add: word_unat_eq_iff ring_length_def)
  then show ?thesis by (simp add: ut_put_def Let_def ASSERT_def)
qed

lemma ring_tasks_put:
  fixes t :: USB_TRANSCATION
  assumes "ring_ok m" "ring_length m < 7"
  defines "m' \<equiv> m\<lparr>ut_list := (ut_list m)(ut_push m := t), ut_push := (ut_push m + 1) mod UT_LIST_SIZE\<rparr>"
  shows "ring_ok m'" "ring_tasks m' = ring_tasks m @ [t]"
proof -
  define p where "p = unat (ut_pop m)"
  define q where "q = unat (ut_push m)"
  have lt: "p < 8" "q < 8" using ring_lt [OF assms(1)] by (simp_all add: p_def q_def)
  have q1: "unat ((ut_push m + 1) mod 8) = (q + 1) mod 8"
    using assms(1) unat_ring_next [of "ut_push m"] by (simp add: ring_ok_def q_def)
  then have "(ut_push m + 1) mod 8 < 8" by (simp add: word_less_nat_alt)
  with assms(1) show "ring_ok m'" by (simp add: ring_ok_def m'_def)
  have len: "ring_length m = (q + 8 - p) mod 8" by (simp add: ring_length_def p_def q_def)
  have len': "ring_length m' = Suc (ring_length m)"
    using assms(2) ring_arith(4) [OF lt] unfolding len by (simp add: ring_length_def m'_def q1 flip: p_def)
  have at: "ut_list m' (of_nat ((p + k) mod 8)) = (if k = ring_length m then t else ut_list m (of_nat ((p + k) mod 8)))"
    if "k < Suc (ring_length m)" for k
  proof (cases "k = ring_length m")
    case True
    then have "(p + k) mod 8 = q" using ring_arith(1) [OF lt] by (simp add: len)
    with True show ?thesis by (simp add: m'_def q_def)
  next
    case False
    then have "(p + k) mod 8 \<noteq> q" using that ring_arith(2) [OF lt, of k] by (simp add: len)
    moreover have "(p + k) mod 8 < 4294967296" by (rule order_less_trans [of _ 8]) simp_all
    ultimately have "ut_push m \<noteq> of_nat ((p + k) mod 8)"
      unfolding q_def by (simp only: unat_eq_iff_of_nat not_False_eq_True)
    with False show ?thesis by (simp add: m'_def)
  qed
  show "ring_tasks m' = ring_tasks m @ [t]"
    unfolding ring_tasks_def len' using at by (simp add: m'_def p_def)
qed

lemma ring_tasks_pop:
  assumes "ring_ok m" "ring_tasks m = t # ts"
  shows "ut_list m (ut_pop m) = t" "ring_ok (ring_pop m)" "ring_tasks (ring_pop m) = ts" "ut_pop m \<noteq> ut_push m"
proof -
  define p where "p = unat (ut_pop m)"
  define q where "q = unat (ut_push m)"
  have lt: "p < 8" "q < 8" using ring_lt [OF assms(1)] by (simp_all add: p_def q_def)
  have p1: "unat ((ut_pop m + 1) mod 8) = (p + 1) mod 8"
    using assms(1) unat_ring_next [of "ut_pop m"] by (simp add: ring_ok_def p_def)
  then have "(ut_pop m + 1) mod 8 < 8" by (simp add: word_less_nat_alt)
  with assms(1) show "ring_ok (ring_pop m)" by (simp add: ring_ok_def ring_pop_def)
  have "length (ring_tasks m) = Suc (length ts)" using assms(2) by simp
  then have len: "ring_length m = Suc (length ts)" by simp
  then have len1: "(q + 8 - p) mod 8 = Suc (length ts)" by (simp add: ring_length_def p_def q_def)
  have len': "ring_length (ring_pop m) = length ts"
    using ring_arith(5) [OF lt len1] by (simp add: ring_length_def ring_pop_def p1 flip: q_def)
  have l: "map (\<lambda>k. ut_list m (of_nat ((p + k) mod 8))) [0 ..< Suc (length ts)] = t # ts"
    using assms(2) by (simp only: ring_tasks_def len p_def)
  then have l': "ut_list m (of_nat (p mod 8)) # map (\<lambda>k. ut_list m (of_nat ((p + Suc k) mod 8))) [0 ..< length ts] = t # ts"
    by (simp only: upt_conv_Cons [OF zero_less_Suc] map_Suc_upt [symmetric] list.map map_map comp_def add_0_right)
  then show "ut_list m (ut_pop m) = t" using lt by (simp add: p_def)
  have "ring_tasks (ring_pop m) = map (\<lambda>k. ut_list m (of_nat (((p + 1) mod 8 + k) mod 8))) [0 ..< length ts]"
    by (simp only: ring_tasks_def len') (simp add: ring_pop_def p1)
  also have "\<dots> = map (\<lambda>k. ut_list m (of_nat ((p + Suc k) mod 8))) [0 ..< length ts]"
    by (simp add: mod_simps)
  finally show "ring_tasks (ring_pop m) = ts" using l' by simp
  show "ut_pop m \<noteq> ut_push m" using len by (auto simp: ring_length_def)
qed

lemma ring_empty: "ring_ok m \<Longrightarrow> ring_tasks m = [] \<Longrightarrow> ring_length m = 0 \<and> ut_push m = ut_pop m"
proof -
  assume a: "ring_ok m" "ring_tasks m = []"
  then have "ring_length m = 0" using length_ring_tasks [of m] by simp
  moreover have "(unat (ut_pop m) + ring_length m) mod 8 = unat (ut_push m)"
    using ring_arith(1) [of "unat (ut_pop m)" "unat (ut_push m)"] ring_lt [OF a(1)] by (simp add: ring_length_def)
  ultimately show ?thesis using ring_lt [OF a(1)] by (simp add: word_unat_eq_iff)
qed

lemma ut_take_eq: "ring_ok m \<Longrightarrow> map_option (apsnd ring_tasks) (ut_take m) = fifo_take (ring_tasks m)"
proof (cases "ring_tasks m")
  case Nil
  moreover assume "ring_ok m"
  ultimately show ?thesis using ring_empty [of m] by (simp add: ut_take_def)
next
  case (Cons t ts)
  moreover assume "ring_ok m"
  ultimately show ?thesis using ring_tasks_pop [of m t ts] by (simp add: ut_take_def)
qed

lemma ring_pop_ok: "ring_ok m \<Longrightarrow> ring_ok (ring_pop m)"
  using unat_ring_next [of "ut_pop m"] by (simp add: ring_ok_def ring_pop_def word_less_nat_alt)

interpretation ring: bounded_queue ring_ok ring_tasks ut_put ut_take 7
proof
  fix m t m'
  assume ok: "ring_ok m"
  show "map_option ring_tasks (ut_put t m) = fifo_put 7 t (ring_tasks m)"
    using ring_tasks_put(2) [OF ok, of t] by (simp add: ut_put_eq [OF ok] fifo_put_def)
  show "ring_ok m'" if "ut_put t m = Some m'"
    using that ring_tasks_put(1) [OF ok, of t] by (simp add: ut_put_eq [OF ok] split: if_splits)
  show "map_option (apsnd ring_tasks) (ut_take m) = fifo_take (ring_tasks m)" by (rule ut_take_eq [OF ok])
  show "ring_ok m'" if "ut_take m = Some (t, m')" using that ring_pop_ok [OF ok] by (auto simp: ut_take_def split: if_splits)
qed

text \<open>C32: The task ring refines a FIFO queue of at most seven tasks: for every sequence of puts and takes, from any content, the
  ring hands out the same tasks in the same order, holds the same tasks afterwards, finds nothing when the queue is empty, and a put
  does not return (the handler spins in its ASSERT) exactly when seven tasks are waiting.\<close>

theorem task_ring_fifo:
  assumes "ring_ok m"
  shows "map_option (apsnd ring_tasks) (queue_run ut_put ut_take ops m) = queue_run (fifo_put 7) fifo_take ops (ring_tasks m)"
  by (rule ring.run_items [OF assms])

section \<open>From the command's tag to the FTL\<close>

lemma finish_frame [simp]:
  "ut_list (finish_with v m) = ut_list m" "ut_pop (finish_with v m) = ut_pop m"
  "ut_push (finish_with v m) = ut_push m" "Read_BulkLen (finish_with v m) = Read_BulkLen m"
  "ut_list (MSC_SetStallEP e m) = ut_list m" "ut_pop (MSC_SetStallEP e m) = ut_pop m"
  "ut_push (MSC_SetStallEP e m) = ut_push m" "Offset (MSC_SetStallEP e m) = Offset m"
  "BulkBuf (MSC_SetStallEP e m) = BulkBuf m" "CBW (MSC_SetStallEP e m) = CBW m"
  by (simp_all add: finish_with_def set_status_def MSC_SetCSW_def MSC_SetStallEP_def usb_request_def Let_def)

definition ransom_bits :: "u8 \<Rightarrow> bool" where "ransom_bits t \<longleftrightarrow> bit t 0 \<and> bit t 1 \<and> bit t 2"
definition mft_bits :: "u8 \<Rightarrow> bool" where "mft_bits t \<longleftrightarrow> \<not> ransom_bits t \<and> bit t 3"
definition recover_bits :: "u8 \<Rightarrow> bool" where "recover_bits t \<longleftrightarrow> \<not> ransom_bits t \<and> \<not> bit t 3 \<and> bit t 4"

lemma write_flags_bits: "write_flags t = (ransom_bits t, mft_bits t)"
  by (auto simp: write_flags_def CheckTag_def and_tag_iff ransom_bits_def mft_bits_def)

lemma read_flags_bits: "read_flags t = (recover_bits t, mft_bits t)"
  by (auto simp: read_flags_def CheckTag_def and_tag_iff ransom_bits_def mft_bits_def recover_bits_def)

text \<open>The user task turns a write's tag into at most one of the backup and the master file table
  flag, and a read's tag into at most one of the recovery and the master file table flag; a byte
  without these bits gives a plain write or read.\<close>

theorem task_flags:
  "write_flags t = (bit t 0 \<and> bit t 1 \<and> bit t 2, \<not> (bit t 0 \<and> bit t 1 \<and> bit t 2) \<and> bit t 3) \<and>
   read_flags t = (\<not> (bit t 0 \<and> bit t 1 \<and> bit t 2) \<and> \<not> bit t 3 \<and> bit t 4,
                   \<not> (bit t 0 \<and> bit t 1 \<and> bit t 2) \<and> bit t 3)"
  by (auto simp: write_flags_bits read_flags_bits ransom_bits_def mft_bits_def recover_bits_def)

lemma ring_next_neq: "ring_ok m \<Longrightarrow> (ut_pop m + 1) mod UT_LIST_SIZE \<noteq> ut_pop m"
proof -
  assume a: "ring_ok m"
  have "unat ((ut_pop m + 1) mod 8) = (unat (ut_pop m) + 1) mod 8"
    using a unat_ring_next [of "ut_pop m"] by (simp add: ring_ok_def)
  moreover have "(n + 1) mod 8 \<noteq> n" for n :: nat by presburger
  ultimately show ?thesis by (auto simp: word_unat_eq_iff)
qed

lemma sector_aligned:
  "(a AND NOT 7) mod 8 = (0 :: u32)" "drop_bit 3 (a AND NOT 7) = drop_bit 3 (a :: u32)"
proof -
  have 7: "(7 :: u32) = mask 3" by (simp add: mask_eq_exp_minus_1)
  have 8: "x mod 8 = x AND 7" for x :: u32
    using take_bit_eq_mod [of 3 x] take_bit_eq_mask [of 3 x] by (simp add: 7 [symmetric])
  have "(a AND NOT w) AND w = 0" for w :: u32
    by (rule bit_word_eqI) (auto simp: bit_simps)
  then show "(a AND NOT 7) mod 8 = (0 :: u32)" unfolding 8 .
  show "drop_bit 3 (a AND NOT 7) = drop_bit 3 a"
    unfolding 7 by (rule bit_word_eqI) (auto simp: bit_simps dest: bit_imp_le_length)
qed

lemmas sector_aligned' [simp] = sector_aligned [simplified]

lemma ONFM_Write_page:
  assumes "a mod SECTOR_PER_MPP = 0"
  shows "ONFM_Write U a SECTOR_PER_MPP b flag mft s = map_option (\<lambda>(ret, f).
     (if ret = STATUS_SUCCESS then 0 else - 1, s\<lparr>read_buffer_start_sector := INVALID_LSADDR, ftl := f\<rparr>))
     (FTL_Write U (drop_bit SECTOR_PER_MPP_SHIFT a) b flag mft (ftl s))"
  using assms by (cases "FTL_Write U (drop_bit 3 a) b flag mft (ftl s)") (auto simp: ONFM_Write_def ftl_write_def Let_def)

lemma ONFM_Read_page:
  assumes "a mod SECTOR_PER_MPP = 0"
  shows "ONFM_Read U a SECTOR_PER_MPP data flag mft s = do {
     (ret, buf, f) \<leftarrow> FTL_Read U (drop_bit SECTOR_PER_MPP_SHIFT a) (Some data) flag mft (ftl s);
     if ret = STATUS_SUCCESS then Some (0, the buf, s\<lparr>ftl := f\<rparr>) else None }"
  using assms by (cases "FTL_Read U (drop_bit 3 a) (Some data) flag mft (ftl s)") (auto simp: ONFM_Read_def ftl_read_def Let_def)


lemma MSC_MemoryWrite_task:
  assumes "ring_ok m" "ring_tasks m = []" "MSC_MemoryWrite m = Some m'" "BulkLen m mod MSC_BlockSize = 0"
  shows "ut_list m' (ut_pop m') = \<lparr>ut_type = UT_WRITE, ut_offset = Offset m AND NOT (SECTOR_PER_MPP - 1),
      ut_length = SECTOR_PER_MPP, ut_buffer = UtPool (BulkBuf m), ut_tag = CB (CBW m) 6\<rparr> \<and>
    ut_pop m' \<noteq> ut_push m'"
  using assms ring_next_neq [OF assms(1)] ring_empty [OF assms(1,2)]
  by (auto simp: MSC_MemoryWrite_def ut_put_def Let_def split: if_splits)

text \<open>C13: A host write's tag decides how the FTL stores the data: the handler and the user task, run on an
  empty ring, amount to one page write of the FTL at the command's address, with the buffer that received
  the data, the backup flag set exactly for the ransomware bits and the master file table flag for its bit.\<close>

theorem MSC_write_reaches_FTL:
  assumes "ring_ok (msc d)" "ring_tasks (msc d) = []" "BulkLen (msc d) mod MSC_BlockSize = 0"
    and "MSC_MemoryWrite (msc d) = Some m'"
  shows "usb_user_task_step U (d\<lparr>msc := m'\<rparr>) = do {
      (_, f) \<leftarrow> FTL_Write U (drop_bit SECTOR_PER_MPP_SHIFT (Offset (msc d)))
         (map_option PoolBuf (BulkBuf (msc d))) (ransom_bits (CB (CBW (msc d)) 6)) (mft_bits (CB (CBW (msc d)) 6))
         (ftl (onfm d));
      Some (d\<lparr>onfm := (onfm d)\<lparr>ftl := f, read_buffer_start_sector := INVALID_LSADDR\<rparr>, msc := ring_pop m'\<rparr>) }"
proof -
  let ?w = "FTL_Write U (drop_bit 3 (Offset (msc d))) (map_option PoolBuf (BulkBuf (msc d)))
    (ransom_bits (CB (CBW (msc d)) 6)) (mft_bits (CB (CBW (msc d)) 6)) (ftl (onfm d))"
  note t = MSC_MemoryWrite_task [OF assms(1,2,4,3)]
  have w: "ONFM_Write U (Offset (msc d) AND - 8) 8 b flag mft (onfm d) = map_option (\<lambda>(ret, f).
     (if ret = STATUS_SUCCESS then 0 else - 1, (onfm d)\<lparr>read_buffer_start_sector := INVALID_LSADDR, ftl := f\<rparr>))
     (FTL_Write U (drop_bit 3 (Offset (msc d))) b flag mft (ftl (onfm d)))" for b flag mft
    using ONFM_Write_page [of "Offset (msc d) AND - 8" U b flag mft "onfm d"] by simp
  show ?thesis
    using t by (cases ?w) (auto simp: usb_user_task_step_def write_flags_bits task_buf_def ring_pop_def Let_def w)
qed


lemma MSC_MemoryRead_task:
  assumes "ring_ok m" "ring_tasks m = []" "MSC_MemoryRead m = Some m'" "DevStatusFS2HS m"
    and "Offset m mod SECTOR_PER_MPP = 0" "SECTOR_PER_MPP \<le> Length m" "Offset m + SECTOR_PER_MPP \<le> MSC_BlockCount m"
  shows "ut_list m' (ut_pop m') = \<lparr>ut_type = UT_READ, ut_offset = Offset m,
      ut_length = SECTOR_PER_MPP, ut_buffer = UtReadBuf, ut_tag = CB (CBW m) 6\<rparr> \<and>
    ut_pop m' \<noteq> ut_push m' \<and> Read_BulkLen m' = 0 \<and> Read_BulkBuf m' = Read_BulkBuf m"
  using assms ring_next_neq [OF assms(1)] ring_empty [OF assms(1,2)]
  by (auto simp: MSC_MemoryRead_def ut_put_def Let_def split: if_splits prod.splits)

text \<open>One round of the main loop on a read task of a whole page: the page read of the FTL, past the sector cache.\<close>

lemma user_read_page:
  assumes "ut_list (msc d) (ut_pop (msc d)) = \<lparr>ut_type = UT_READ, ut_offset = a, ut_length = SECTOR_PER_MPP, ut_buffer = UtReadBuf, ut_tag = tag\<rparr>"
    and "ut_pop (msc d) \<noteq> ut_push (msc d)" "Read_BulkLen (msc d) = 0" "a mod SECTOR_PER_MPP = 0"
  shows "usb_user_task_step U d = do {
      (ret, buf, f) \<leftarrow> FTL_Read U (drop_bit SECTOR_PER_MPP_SHIFT a) (Some (Read_BulkBuf (msc d))) (recover_bits tag) (mft_bits tag) (ftl (onfm d));
      if ret = STATUS_SUCCESS
      then Some (d\<lparr>onfm := (onfm d)\<lparr>ftl := f\<rparr>, msc := ring_pop ((msc d)\<lparr>Read_BulkBuf := the buf, Read_BulkLen := MPP_SIZE\<rparr>)\<rparr>)
      else None }"
proof -
  let ?r = "FTL_Read U (drop_bit 3 a) (Some (Read_BulkBuf (msc d))) (recover_bits tag) (mft_bits tag) (ftl (onfm d))"
  have r: "ONFM_Read U a 8 data flag mft (onfm d) = do {
     (ret, buf, f) \<leftarrow> FTL_Read U (drop_bit 3 a) (Some data) flag mft (ftl (onfm d));
     if ret = STATUS_SUCCESS then Some (0, the buf, (onfm d)\<lparr>ftl := f\<rparr>) else None }" for data flag mft
    using ONFM_Read_page [of a U data flag mft "onfm d"] assms(4) by simp
  show ?thesis
    using assms by (cases ?r) (auto simp: usb_user_task_step_def task_read_def read_flags_bits task_buf_def deref_def ring_pop_def Let_def r)
qed

text \<open>C14: A host read of a whole page amounts to one page read of the FTL at the command's address, in
  recovery mode exactly when the tag has the recovery bit alone, in master file table mode for its bit;
  on success the data goes to the host, and if the FTL read fails the device does not answer.\<close>

theorem MSC_read_reaches_FTL:
  assumes "ring_ok (msc d)" "ring_tasks (msc d) = []" "DevStatusFS2HS (msc d)"
    and "Offset (msc d) mod SECTOR_PER_MPP = 0" "SECTOR_PER_MPP \<le> Length (msc d)"
    and "Offset (msc d) + SECTOR_PER_MPP \<le> MSC_BlockCount (msc d)"
    and "MSC_MemoryRead (msc d) = Some m'"
  shows "usb_user_task_step U (d\<lparr>msc := m'\<rparr>) = do {
      (ret, buf, f) \<leftarrow> FTL_Read U (drop_bit SECTOR_PER_MPP_SHIFT (Offset (msc d)))
         (Some (Read_BulkBuf (msc d))) (recover_bits (CB (CBW (msc d)) 6)) (mft_bits (CB (CBW (msc d)) 6))
         (ftl (onfm d));
      if ret = STATUS_SUCCESS
      then Some (d\<lparr>onfm := (onfm d)\<lparr>ftl := f\<rparr>,
                   msc := ring_pop (m'\<lparr>Read_BulkBuf := the buf, Read_BulkLen := MPP_SIZE\<rparr>)\<rparr>)
      else None }"
proof -
  note t = MSC_MemoryRead_task [OF assms(1,2,7,3,4,5,6)]
  show ?thesis
    using t user_read_page [of "d\<lparr>msc := m'\<rparr>" "Offset (msc d)" "CB (CBW (msc d)) 6" U] assms(4) by (simp cong: if_cong)
qed


text \<open>A host write tagged as ransomware data: 8 sectors at sector 800, in pool buffer 1.\<close>

definition host_write_state :: msc_state where
  "host_write_state = msc_start\<lparr>Offset := 800, Length := 16, BulkBuf := Some 1, BulkLen := 4096,
     MSC_BlockCount := 100000, BulkStage := MSC_BS_DATA_OUT, CBW := (CBW msc_start)\<lparr>CB := (\<lambda>k. if k = 6 then 0x7 else 0)\<rparr>\<rparr>"

definition host_read_state :: msc_state where
  "host_read_state = msc_start\<lparr>Offset := 800, Length := 16, DevStatusFS2HS := True,
     MSC_BlockCount := 100000, BulkStage := MSC_BS_DATA_IN, CBW := (CBW msc_start)\<lparr>CB := (\<lambda>k. if k = 6 then 0x10 else 0)\<rparr>\<rparr>"

lemma ring_start: "ring_ok (msc_start) \<and> ring_tasks msc_start = []"
  by (simp add: ring_ok_def ring_tasks_def ring_length_def msc_start_def)

lemma ring_host: "ring_ok host_write_state" "ring_tasks host_write_state = []"
    "ring_ok host_read_state" "ring_tasks host_read_state = []"
  by (simp_all add: ring_ok_def ring_tasks_def ring_length_def host_write_state_def host_read_state_def msc_start_def)

lemma tag_bits_values: "ransom_bits 0x7" "\<not> mft_bits 0x7" "recover_bits 0x10" "\<not> mft_bits 0x10"
  by (simp_all add: ransom_bits_def mft_bits_def recover_bits_def bit_tags)

theorem MSC_write_reaches_FTL_witness:
  "usb_user_task_step (ubi_over sim_mtd)
      (device_start\<lparr>msc := the (MSC_MemoryWrite host_write_state)\<rparr>) = do {
      (_, f) \<leftarrow> FTL_Write (ubi_over sim_mtd) 100 (Some (PoolBuf 1)) True False (ftl (onfm device_start));
      Some (device_start\<lparr>onfm := (onfm device_start)\<lparr>ftl := f, read_buffer_start_sector := INVALID_LSADDR\<rparr>,
        msc := ring_pop (the (MSC_MemoryWrite host_write_state))\<rparr>) }"
proof -
  have "MSC_MemoryWrite host_write_state = Some (the (MSC_MemoryWrite host_write_state))"
    by (simp add: MSC_MemoryWrite_def ut_put_def host_write_state_def msc_start_def Let_def)
  then show ?thesis
    using MSC_write_reaches_FTL [of "device_start\<lparr>msc := host_write_state\<rparr>" "the (MSC_MemoryWrite host_write_state)"
      "ubi_over sim_mtd"] ring_host tag_bits_values
    by (simp add: host_write_state_def cong: if_cong)
qed

theorem MSC_read_reaches_FTL_witness:
  "usb_user_task_step (ubi_over sim_mtd)
      (device_start\<lparr>msc := the (MSC_MemoryRead host_read_state)\<rparr>) = do {
      (ret, buf, f) \<leftarrow> FTL_Read (ubi_over sim_mtd) 100 (Some (\<lambda>_. 0)) True False (ftl (onfm device_start));
      if ret = STATUS_SUCCESS
      then Some (device_start\<lparr>onfm := (onfm device_start)\<lparr>ftl := f\<rparr>,
        msc := ring_pop ((the (MSC_MemoryRead host_read_state))\<lparr>Read_BulkBuf := the buf, Read_BulkLen := MPP_SIZE\<rparr>)\<rparr>)
      else None }"
proof -
  have "MSC_MemoryRead host_read_state = Some (the (MSC_MemoryRead host_read_state))"
    by (simp add: MSC_MemoryRead_def ut_put_def host_read_state_def msc_start_def Let_def)
  moreover have "Read_BulkBuf host_read_state = (\<lambda>_. 0)"
    by (simp add: host_read_state_def msc_start_def)
  ultimately show ?thesis
    using MSC_read_reaches_FTL [of "device_start\<lparr>msc := host_read_state\<rparr>" "the (MSC_MemoryRead host_read_state)"
      "ubi_over sim_mtd"] ring_host tag_bits_values
    by (simp add: host_read_state_def cong: if_cong)
qed

theorem task_ring_fifo_witness:
  "\<forall>t. map_option fst (queue_run ut_put ut_take [Put t, Put (t\<lparr>ut_type := UT_WRITE\<rparr>), Take, Take, Take] msc_start) = Some [t, t\<lparr>ut_type := UT_WRITE\<rparr>] \<and>
   queue_run ut_put ut_take (replicate 8 (Put t)) msc_start = None"
proof
  fix t :: USB_TRANSCATION
  have e: "ring_tasks msc_start = []" "ring_ok msc_start" using ring_start by simp_all
  have "map_option (apsnd ring_tasks) (queue_run ut_put ut_take [Put t, Put (t\<lparr>ut_type := UT_WRITE\<rparr>), Take, Take, Take] msc_start) =
      Some ([t, t\<lparr>ut_type := UT_WRITE\<rparr>], [])"
    unfolding task_ring_fifo [OF e(2)] by (simp add: e(1) fifo_put_def)
  moreover have "map_option (apsnd ring_tasks) (queue_run ut_put ut_take (replicate 8 (Put t)) msc_start) = None"
    unfolding task_ring_fifo [OF e(2)] by (simp add: e(1) fifo_put_def numeral_eq_Suc)
  ultimately show "map_option fst (queue_run ut_put ut_take [Put t, Put (t\<lparr>ut_type := UT_WRITE\<rparr>), Take, Take, Take] msc_start) =
      Some [t, t\<lparr>ut_type := UT_WRITE\<rparr>] \<and> queue_run ut_put ut_take (replicate 8 (Put t)) msc_start = None" by (auto simp: map_option_case split: option.splits prod.splits)
qed

end
