(* ===== verification/Msc_Types.thy ===== *)
theory Msc_Types
  imports Msc
begin

text \<open>
  A type invariant of the USB mass storage device (sys/lpc313x/usb/mscuser.c and the main loop of sys/lpc313x/main.c): every
  handler keeps the task ring well-formed and fills it with tasks of the shapes the main loop expects.
\<close>

section \<open>Well-typed tasks\<close>

text \<open>What the main loop assumes of a task: a read goes to the static buffer; a write or merge is of one aligned page, in a
  buffer of the pool.\<close>

definition task_typed :: "USB_TRANSCATION \<Rightarrow> bool" where
  "task_typed t \<longleftrightarrow> (case ut_type t of
     UT_READ \<Rightarrow> ut_buffer t = UtReadBuf
   | UT_PREREAD \<Rightarrow> False
   | _ \<Rightarrow> (\<exists>p. ut_buffer t = UtPool p) \<and> ut_length t = SECTOR_PER_MPP \<and> ut_offset t mod SECTOR_PER_MPP = 0)"

definition msc_typed :: "msc_state \<Rightarrow> bool" where
  "msc_typed m \<longleftrightarrow> ring_ok m \<and> (\<forall>t \<in> set (ring_tasks m). task_typed t)"

definition ring_of :: "msc_state \<Rightarrow> (u32 \<Rightarrow> USB_TRANSCATION) \<times> u32 \<times> u32" where
  "ring_of m = (ut_list m, ut_pop m, ut_push m)"

lemma msc_typed_ring: "ring_of m' = ring_of m \<Longrightarrow> msc_typed m' = msc_typed m"
  by (simp add: msc_typed_def ring_ok_def ring_tasks_def ring_length_def ring_of_def)

lemma ring_of_frames [simp]:
  "ring_of (usb_request r m) = ring_of m" "ring_of (MSC_SetStallEP e m) = ring_of m" "ring_of (MSC_SetCSW m) = ring_of m"
  "ring_of (set_status v m) = ring_of m" "ring_of (finish_with v m) = ring_of m" "ring_of (MSC_Reset m) = ring_of m"
  "ring_of (stall_data_ep m) = ring_of m" "ring_of (prime p off len m) = ring_of m"
  by (simp_all add: ring_of_def usb_request_def MSC_SetStallEP_def MSC_SetCSW_def set_status_def finish_with_def MSC_Reset_def
      stall_data_ep_def prime_def Let_def split: option.split)

lemma ring_of_updates [simp]:
  "ring_of (m\<lparr>MemOK := b\<rparr>) = ring_of m" "ring_of (m\<lparr>Offset := w\<rparr>) = ring_of m" "ring_of (m\<lparr>Length := w\<rparr>) = ring_of m"
  "ring_of (m\<lparr>BulkBuf := p\<rparr>) = ring_of m" "ring_of (m\<lparr>BulkLen := w\<rparr>) = ring_of m" "ring_of (m\<lparr>Read_BulkLen := w\<rparr>) = ring_of m"
  "ring_of (m\<lparr>Read_BulkBuf := d\<rparr>) = ring_of m" "ring_of (m\<lparr>CMD_BulkBuf := f\<rparr>) = ring_of m" "ring_of (m\<lparr>CBW := c\<rparr>) = ring_of m"
  "ring_of (m\<lparr>CSW := x\<rparr>) = ring_of m" "ring_of (m\<lparr>BulkStage := g\<rparr>) = ring_of m" "ring_of (m\<lparr>merge_stage := h\<rparr>) = ring_of m"
  "ring_of (m\<lparr>merge_count := w\<rparr>) = ring_of m" "ring_of (m\<lparr>USB_EndPointStall := w\<rparr>) = ring_of m"
  by (simp_all add: ring_of_def)

lemma put_typed:
  assumes "ut_put t m = Some m'" "msc_typed m" "task_typed t"
  shows "msc_typed m'"
proof -
  have ok: "ring_ok m" using assms(2) by (simp add: msc_typed_def)
  have l: "ring_length m < 7" "m' = m\<lparr>ut_list := (ut_list m)(ut_push m := t), ut_push := (ut_push m + 1) mod UT_LIST_SIZE\<rparr>"
    using assms(1) unfolding ut_put_eq [OF ok] by (auto split: if_splits)
  have "ring_ok m'" "ring_tasks m' = ring_tasks m @ [t]"
    unfolding l(2) by (rule ring_tasks_put [OF ok l(1)])+
  then show ?thesis using assms(2,3) by (simp add: msc_typed_def)
qed

lemma typed_after: "msc_typed m \<Longrightarrow> ring_of m' = ring_of m \<Longrightarrow> msc_typed m'"
  using msc_typed_ring [of m' m] by simp

lemma MSC_MemoryRead_typed:
  assumes "MSC_MemoryRead m = Some m'" "msc_typed m"
  shows "msc_typed m'"
proof (cases "DevStatusFS2HS m")
  case True
  from assms(1) True obtain t m1 m2 where r: "ut_put t m1 = Some m2" "ring_of m1 = ring_of m" "ut_type t = UT_READ" "ut_buffer t = UtReadBuf"
    "ring_of m' = ring_of m2"
    by (auto simp: MSC_MemoryRead_def Let_def split: if_splits Option.bind_splits)
  then show ?thesis using put_typed [OF r(1)] assms(2) typed_after by (auto simp: task_typed_def)
next
  case False
  then show ?thesis using assms by (simp add: MSC_MemoryRead_def)
qed

lemma MSC_MemoryWrite_typed:
  assumes "MSC_MemoryWrite m = Some m'" "msc_typed m"
  shows "msc_typed m'"
proof (cases "BulkLen m mod MSC_BlockSize = 0")
  case True
  from assms(1) True obtain t m1 m2 where r: "ut_put t m1 = Some m2" "ring_of m1 = ring_of m" "ut_type t = UT_WRITE"
    "ut_buffer t = UtPool (BulkBuf m1)" "ut_length t = SECTOR_PER_MPP" "ut_offset t = Offset m1 AND NOT (SECTOR_PER_MPP - 1)"
    "ring_of m' = ring_of m2"
    by (auto simp: MSC_MemoryWrite_def Let_def split: if_splits Option.bind_splits)
  then show ?thesis using put_typed [OF r(1)] assms(2) typed_after by (auto simp: task_typed_def)
next
  case False
  then show ?thesis using assms by (simp add: MSC_MemoryWrite_def)
qed

lemma ring_of_commands [simp]:
  "ring_of (snd (DataIn_Format m)) = ring_of m" "ring_of (DataIn_Transfer m) = ring_of m" "ring_of (data_in bytes m) = ring_of m"
  "ring_of (snd (MSC_RWSetup m)) = ring_of m" "ring_of (MSC_MemoryVerify m) = ring_of m" "ring_of (MSC_BulkInNak m) = ring_of m"
proof -
  show f: "ring_of (snd (DataIn_Format m)) = ring_of m" for m by (simp add: DataIn_Format_def)
  show t: "ring_of (DataIn_Transfer m) = ring_of m" for m by (simp add: DataIn_Transfer_def Let_def)
  show "ring_of (data_in bytes m) = ring_of m" using f [of m] by (cases "DataIn_Format m") (simp add: data_in_def t)
qed (simp_all add: MSC_RWSetup_def MSC_MemoryVerify_def MSC_BulkInNak_def Let_def)

lemma msc_write_command_ring [simp]: "ring_of (msc_write_command verify m) = ring_of m"
  using ring_of_commands(4) [of m] by (cases "MSC_RWSetup m") (simp add: msc_write_command_def)

lemma msc_read_command_typed:
  assumes "msc_read_command m = Some m'" "msc_typed m"
  shows "msc_typed m'"
proof -
  obtain ok m1 where s: "MSC_RWSetup m = (ok, m1)" by (cases "MSC_RWSetup m")
  then have t1: "msc_typed m1" using ring_of_commands(4) [of m] assms(2) typed_after by simp
  have t2: "msc_typed (m1\<lparr>BulkStage := g\<rparr>)" "msc_typed (finish_with v (MSC_SetStallEP e m1))" for g v e
    by (rule typed_after [OF t1], simp)+
  show ?thesis using assms(1) s t1 t2 MSC_MemoryRead_typed [OF _ t2(1)]
    by (cases ok; cases "cbw_in m1") (auto simp: msc_read_command_def)
qed

lemma msc_command_typed:
  assumes "msc_command m = Some m'" "msc_typed m"
  shows "msc_typed m'"
proof (cases "CB (CBW m) 0 = SCSI_READ10 \<or> CB (CBW m) 0 = SCSI_READ12")
  case True
  then show ?thesis using assms msc_read_command_typed by (auto simp: msc_command_def)
next
  case False
  then have "ring_of m' = ring_of m" using assms(1)
    by (simp add: msc_command_def MSC_TestUnitReady_def MSC_RequestSense_def MSC_Inquiry_def MSC_ModeSense6_def MSC_ModeSense10_def
        MSC_ReadFormatCapacity_def MSC_ReadCapacity_def Let_def split: if_split_asm) (auto simp del: scsi_values)
  then show ?thesis using assms(2) typed_after by blast
qed

lemma MSC_GetCBW_typed:
  assumes "MSC_GetCBW m = Some m'" "msc_typed m"
  shows "msc_typed m'"
proof (cases "BulkLen m = MSC_CBW_SIZE \<and> cbw_dSignature (CBW m) = MSC_CBW_Signature")
  case True
  define m1 where "m1 = m\<lparr>CSW := (CSW m)\<lparr>csw_dTag := cbw_dTag (CBW m), dDataResidue := dDataLength (CBW m)\<rparr>\<rparr>"
  have "msc_typed m1" by (rule typed_after [OF assms(2)]) (simp add: m1_def)
  moreover from this have "msc_typed (finish_with v m1)" for v by (rule typed_after) simp
  ultimately show ?thesis using assms(1) True msc_command_typed [of m1]
    by (auto simp: MSC_GetCBW_def m1_def Let_def split: if_splits)
next
  case False
  then have "ring_of m' = ring_of m" using assms(1) unfolding MSC_GetCBW_def if_not_P [OF False] by (auto simp: Let_def)
  then show ?thesis using assms(2) typed_after by blast
qed

lemma MSC_BulkOut_typed:
  assumes "MSC_BulkOut len m = Some m'" "msc_typed m"
  shows "msc_typed m'"
proof -
  define m1 where "m1 = m\<lparr>BulkLen := len\<rparr>"
  have t: "msc_typed m1" by (rule typed_after [OF assms(2)]) (simp add: m1_def)
  have t2: "msc_typed (MSC_MemoryVerify m1)" "msc_typed (finish_with v (MSC_SetStallEP e m1))" for v e by (rule typed_after [OF t], simp)+
  show ?thesis using assms(1) t t2 MSC_GetCBW_typed [OF _ t] MSC_MemoryWrite_typed [OF _ t] unfolding MSC_BulkOut_def Let_def m1_def [symmetric]
    by (cases "BulkStage m1") (auto split: if_split_asm)
qed

lemma MSC_BulkIn_typed:
  assumes "MSC_BulkIn m = Some m'" "msc_typed m"
  shows "msc_typed m'"
proof -
  have "msc_typed (MSC_SetCSW m)" "msc_typed (MSC_SetCSW (MSC_SetStallEP e m))" "msc_typed (m\<lparr>BulkStage := g\<rparr>)" for e g
    by (rule typed_after [OF assms(2)], simp)+
  then show ?thesis using assms MSC_MemoryRead_typed [OF _ assms(2)] by (cases "BulkStage m") (auto simp: MSC_BulkIn_def split: if_split_asm)
qed

lemma merge_typed:
  "task_typed (t\<lparr>ut_type := UT_MERGE, ut_offset := a AND - 8, ut_length := 8, ut_buffer := UtPool p\<rparr>)"
  by (simp add: task_typed_def)

lemma MSC_BulkOutNak_typed:
  assumes "MSC_BulkOutNak U d = Some d'" "msc_typed (msc d)"
  shows "msc_typed (msc d')"
proof -
  have "ring_of (msc d') = ring_of (msc d) \<or> (\<exists>t m1 m2. ut_put t m1 = Some m2 \<and> task_typed t \<and> ring_of m1 = ring_of (msc d) \<and>
      ring_of (msc d') = ring_of m2)"
    using assms(1) unfolding MSC_BulkOutNak_def Let_def
    by (cases "DevStatusFS2HS (msc d)"; cases "BulkStage (msc d)"; cases "merge_stage (msc d)")
      (auto split: if_split_asm prod.splits Option.bind_splits, blast intro: merge_typed ring_of_updates)
  then show ?thesis
  proof (elim disjE exE conjE)
    assume "ring_of (msc d') = ring_of (msc d)"
    then show ?thesis using assms(2) typed_after by blast
  next
    fix t m1 m2
    assume r: "ut_put t m1 = Some m2" "task_typed t" "ring_of m1 = ring_of (msc d)" "ring_of (msc d') = ring_of m2"
    show ?thesis by (rule typed_after [OF put_typed [OF r(1) typed_after [OF assms(2) r(3)] r(2)] r(4)])
  qed
qed

text \<open>The main loop takes one task away, whatever else it does.\<close>

lemma usb_user_task_step_typed:
  assumes "usb_user_task_step U d = Some d'" "msc_typed (msc d)"
  shows "msc_typed (msc d')"
proof (cases "ut_pop (msc d) = ut_push (msc d)")
  case True
  then show ?thesis using assms by (simp add: usb_user_task_step_def)
next
  case False
  have tr: "ring_of (msc d2) = ring_of (msc d1)" if "task_read U t flag mft d1 = Some d2" for t flag mft d1 d2
    using that by (auto simp: task_read_def split: Option.bind_splits prod.splits buf.splits)
  have pop: "ring_of (msc d') = ring_of (ring_pop (msc d))"
    using assms(1) False unfolding usb_user_task_step_def Let_def
    by (auto simp: ring_pop_def ring_of_def split: if_split_asm prod.splits Option.bind_splits dest!: tr [unfolded ring_of_def])
  obtain t ts where "ring_tasks (msc d) = t # ts"
    using ring_empty [of "msc d"] False assms(2) by (cases "ring_tasks (msc d)") (auto simp: msc_typed_def)
  then have "msc_typed (ring_pop (msc d))" using assms(2) ring_tasks_pop [of "msc d" t ts] by (simp add: msc_typed_def)
  then show ?thesis using pop typed_after by blast
qed

text \<open>What the device does: the endpoint handlers, a new command in the CBW buffer, a reset, a turn of the main loop.\<close>

inductive device_event :: "'u ubi_ops \<Rightarrow> 'u device_state \<Rightarrow> 'u device_state \<Rightarrow> bool" for U where
  bulk_out: "MSC_BulkOut len (msc d) = Some m \<Longrightarrow> device_event U d (d\<lparr>msc := m\<rparr>)"
| bulk_out_nak: "MSC_BulkOutNak U d = Some d' \<Longrightarrow> device_event U d d'"
| bulk_in: "MSC_BulkIn (msc d) = Some m \<Longrightarrow> device_event U d (d\<lparr>msc := m\<rparr>)"
| bulk_in_nak: "device_event U d (d\<lparr>msc := MSC_BulkInNak (msc d)\<rparr>)"
| command: "device_event U d (d\<lparr>msc := (msc d)\<lparr>CBW := c\<rparr>\<rparr>)"
| reset: "device_event U d (d\<lparr>msc := MSC_Reset (msc d)\<rparr>)"
| main_loop: "usb_user_task_step U d = Some d' \<Longrightarrow> device_event U d d'"

text \<open>C31: From start-up on, whatever the host sends, the task ring is well-formed and each of its tasks well-typed: reads go to
  the read buffer; writes and merges are of one aligned page, in a buffer of the pool.\<close>

theorem device_stays_typed:
  assumes "(device_event U)\<^sup>*\<^sup>* (MSC_Init U d0) d"
  shows "msc_typed (msc d)"
  using assms
proof (induction rule: rtranclp_induct)
  case base
  have "ring_tasks (msc (MSC_Init U d0)) = []" by (simp add: ring_tasks_def ring_length_def MSC_Init_def)
  then show ?case by (simp add: msc_typed_def) (simp add: ring_ok_def MSC_Init_def)
next
  case (step d1 d2)
  from step(2) show ?case
  proof cases
    case bulk_in_nak
    then show ?thesis using typed_after [OF step(3), of "MSC_BulkInNak (msc d1)"] by simp
  next
    case (command c)
    then show ?thesis using typed_after [OF step(3), of "(msc d1)\<lparr>CBW := c\<rparr>"] by simp
  next
    case reset
    then show ?thesis using typed_after [OF step(3), of "MSC_Reset (msc d1)"] by simp
  qed (use step(3) MSC_BulkOut_typed MSC_BulkOutNak_typed MSC_BulkIn_typed usb_user_task_step_typed in auto)
qed

text \<open>A start in the middle of a READ(10).\<close>

definition reading_start :: "sim_state ubi_state device_state" where
  "reading_start = device_start\<lparr>msc := host_read_state\<lparr>CBW := (CBW host_read_state)\<lparr>CB := (\<lambda>k. if k = 0 then 0x28 else 0)\<rparr>\<rparr>\<rparr>"

theorem device_stays_typed_witness:
  "\<exists>d. (device_event (ubi_over sim_mtd))\<^sup>*\<^sup>* (MSC_Init (ubi_over sim_mtd) reading_start) d \<and>
     ut_push (msc d) \<noteq> ut_pop (msc d) \<and> msc_typed (msc d)"
proof -
  let ?d = "MSC_Init (ubi_over sim_mtd) reading_start"
  have "\<exists>m. MSC_BulkIn (msc ?d) = Some m \<and> ut_push m \<noteq> ut_pop m"
    by (simp add: MSC_BulkIn_def MSC_MemoryRead_def MSC_Init_def reading_start_def host_read_state_def ut_put_def Let_def split_beta)
  then obtain m where m: "MSC_BulkIn (msc ?d) = Some m" "ut_push m \<noteq> ut_pop m" by blast
  have "(device_event (ubi_over sim_mtd))\<^sup>*\<^sup>* ?d (?d\<lparr>msc := m\<rparr>)" by (rule r_into_rtranclp [of "device_event (ubi_over sim_mtd)", OF device_event.bulk_in [OF m(1)]])
  with device_stays_typed [OF this] m(2) show ?thesis by (intro exI [of _ "?d\<lparr>msc := m\<rparr>"]) simp
qed

end
