(* ===== verification/Ubi_Store.thy ===== *)
theory Ubi_Store
  imports Ubi_Api
begin

text \<open>
  The page path of the UBI layer (ubi_api.c, ubi_area.c) as a store of logical pages.  \<open>ubi_ok\<close> says which states
  the layer works in, \<open>ubi_pages\<close> which logical pages it holds, \<open>ubi_held\<close> which buffer an asynchronous write
  still keeps; UBI_Read, UBI_ReadStatus and UBI_Write are shown to follow that view over every flash that keeps the
  contract of Mtd.thy, and the contract the FTL relies on is the locale \<open>page_store\<close>.
\<close>

section \<open>The pages of the layer\<close>

text \<open>
  The flash page that holds the map of an area, the physical block it gives for a logical block, and the
  contents of the logical pages.
\<close>

definition area_page :: "(u32 \<Rightarrow> u32 \<Rightarrow> (mem \<times> mem) option) \<Rightarrow> 'h ubi_state \<Rightarrow> u32 \<Rightarrow> (mem \<times> mem) option" where
  "area_page pg s area = pg (area_index_table (index_table s) area) (area_offset_table s area)"

definition ubi_entry :: "(u32 \<Rightarrow> u32 \<Rightarrow> (mem \<times> mem) option) \<Rightarrow> 'h ubi_state \<Rightarrow> u32 \<Rightarrow> AREA_BLOCK" where
  "ubi_entry pg s b = area_load (fst (the (area_page pg s (AREA_INDEX b))))
     (cached_area_table s) (BLOCK_OFFSET_AREA b)"

definition ubi_phys :: "(u32 \<Rightarrow> u32 \<Rightarrow> (mem \<times> mem) option) \<Rightarrow> 'h ubi_state \<Rightarrow> u32 \<Rightarrow> u32" where
  "ubi_phys pg s b = physical_block (ubi_entry pg s b)"

definition ubi_pages :: "(u32 \<Rightarrow> u32 \<Rightarrow> (mem \<times> mem) option) \<Rightarrow> 'h ubi_state \<Rightarrow> u32 \<Rightarrow> u32 \<Rightarrow> (mem \<times> mem) option" where
  "ubi_pages pg s b p = (if b < total_data_block (anchor_table s) then pg (ubi_phys pg s b) p else None)"

text \<open>The buffer of the page the die is still programming, and buffers a caller may hand over.\<close>

definition ubi_held :: "'h ubi_state \<Rightarrow> buf option" where
  "ubi_held s = (if dh_phy_block (dice_hold s 0) \<noteq> INVALID_BLOCK then dh_buffer (dice_hold s 0) else None)"

definition buf_live :: "buf_state \<Rightarrow> buf \<Rightarrow> bool" where
  "buf_live b p = (case p of PoolBuf i \<Rightarrow> i < BUFFER_COUNT \<and> pb_pool_used b i | OtherMem _ \<Rightarrow> True)"

definition held_ok :: "'h ubi_state \<Rightarrow> bool" where
  "held_ok s \<longleftrightarrow> (dh_phy_block (dice_hold s 0) \<noteq> INVALID_BLOCK \<longrightarrow>
     (case dh_buffer (dice_hold s 0) of None \<Rightarrow> False | Some p \<Rightarrow> buf_live (bufs s) p))"

definition area_ok :: "(u32 \<Rightarrow> u32 \<Rightarrow> (mem \<times> mem) option) \<Rightarrow> 'h ubi_state \<Rightarrow> u32 \<Rightarrow> bool" where
  "area_ok pg s b \<longleftrightarrow> area_index_table (index_table s) (AREA_INDEX b) < CFG_LOG_BLOCK_COUNT \<and>
     area_offset_table s (AREA_INDEX b) < PAGE_PER_PHY_BLOCK \<and>
     (case area_page pg s (AREA_INDEX b) of None \<Rightarrow> False | Some (_, sm) \<Rightarrow> sm 0 \<noteq> - 1) \<and>
     ubi_phys pg s b < CFG_LOG_BLOCK_COUNT \<and>
     (cached_area_number s = AREA_INDEX b \<longrightarrow> cached_area_table s (BLOCK_OFFSET_AREA b) = ubi_entry pg s b)"

text \<open>The data blocks lie in distinct good blocks, none of which holds an area table.\<close>

definition ubi_ok :: "(u32 \<Rightarrow> u32 \<Rightarrow> (mem \<times> mem) option) \<Rightarrow> 'h ubi_state \<Rightarrow> bool" where
  "ubi_ok pg s \<longleftrightarrow> total_data_block (anchor_table s) \<le> CFG_LOG_BLOCK_COUNT \<and> held_ok s \<and>
     (\<forall>b < total_data_block (anchor_table s). area_ok pg s b) \<and>
     (\<forall>b < total_data_block (anchor_table s). \<forall>c < total_data_block (anchor_table s).
        (ubi_phys pg s b = ubi_phys pg s c \<longrightarrow> b = c) \<and> ubi_phys pg s b \<noteq> area_index_table (index_table s) (AREA_INDEX c))"

lemma ubi_entry_load: "ubi_entry pg s b = \<lparr>physical_block = fst (the (area_page pg s (AREA_INDEX b))) (2 * unat (BLOCK_OFFSET_AREA b)),
    physical_block_ec = fst (the (area_page pg s (AREA_INDEX b))) (2 * unat (BLOCK_OFFSET_AREA b) + 1)\<rparr>"
proof -
  have "unat (BLOCK_OFFSET_AREA b) < 512" by (simp add: BLOCK_OFFSET_AREA_def unat_mod)
  then show ?thesis by (simp add: ubi_entry_def area_load_def)
qed

lemma ubi_entry_cong:
  "area_page pg s (AREA_INDEX b) = area_page pg' s' (AREA_INDEX b) \<Longrightarrow> ubi_entry pg s b = ubi_entry pg' s' b"
  by (simp add: ubi_entry_load)

lemma AREA_INDEX_valid: "b < 2048 \<Longrightarrow> AREA_INDEX b \<noteq> INVALID_AREA"
proof -
  assume "b < 2048"
  then have "unat (AREA_INDEX b) < 4" by (simp add: AREA_INDEX_def unat_div word_less_nat_alt)
  moreover have "unat (- 1 :: u32) = 4294967295" by (simp add: unsigned_minus_1_eq_mask mask_eq_exp_minus_1)
  ultimately show ?thesis by auto
qed

text \<open>A state that differs in the cached area and the flash driver's registers only.\<close>

definition same_ubi :: "'h ubi_state \<Rightarrow> 'h ubi_state \<Rightarrow> bool" where
  "same_ubi s s' \<longleftrightarrow> (\<exists>h t a. s' = s\<lparr>mtd := h, cached_area_table := t, cached_area_number := a\<rparr>)"

lemma same_ubi_fields:
  "same_ubi s s' \<Longrightarrow> bufs s' = bufs s \<and> anchor_table s' = anchor_table s \<and> index_table s' = index_table s \<and>
     area_offset_table s' = area_offset_table s \<and> dice_hold s' = dice_hold s \<and> uninit s' = uninit s"
  by (auto simp: same_ubi_def)

lemma same_ubi_entry: "same_ubi s s' \<Longrightarrow> ubi_entry pg s' = ubi_entry pg s"
  by (auto simp: fun_eq_iff ubi_entry_load area_page_def dest: same_ubi_fields)

lemma same_ubi_trans: "same_ubi s s' \<Longrightarrow> same_ubi s' s'' \<Longrightarrow> same_ubi s s''"
  by (fastforce simp: same_ubi_def)

lemma same_ubi_mtd: "same_ubi s (s\<lparr>mtd := h\<rparr>)"
  unfolding same_ubi_def by (intro exI [of _ h] exI [of _ "cached_area_table s"] exI [of _ "cached_area_number s"]) simp

context mtd_store
begin

lemma TABLE_Read_at:
  assumes "ok (mtd s)" "b < CFG_LOG_BLOCK_COUNT" "p < PAGE_PER_PHY_BLOCK" "pages (mtd s) b p = Some (dm, sm)" "sm 0 \<noteq> - 1"
  shows "\<exists>h. TABLE_Read M b p buf s = Some (STATUS_SUCCESS, p, map_option (memcpy_words MPP_WORDS dm) buf, s\<lparr>mtd := h\<rparr>) \<and>
     ok h \<and> pages h = pages (mtd s)"
proof -
  have mid: "(p + p) div 2 = p"
  proof -
    have "unat p < 64" using assms(3) by (simp add: word_less_nat_alt)
    then show ?thesis by (simp add: word_unat_eq_iff unat_div unat_word_ariths)
  qed
  have p: "p \<noteq> INVALID_PAGE" using assms(3) by auto
  have search: "table_search M b p p s = Some (p, p, s)"
    by (subst table_search.simps) (simp only: mid Let_def, simp)
  obtain h where "mtd_read M b p buf (Some (uninit s)) s = Some (STATUS_SUCCESS, map_option (memcpy_words MPP_WORDS dm) buf,
      map_option (memcpy_words SPARE_WORDS sm) (Some (uninit s)), s\<lparr>mtd := h\<rparr>)" "ok h" "pages h = pages (mtd s)"
    using mtd_read_table [OF assms(1,2) _ assms(4), of buf "Some (uninit s)"] assms(3) by auto
  then show ?thesis
    using p assms(5) by (intro exI [of _ h]) (simp add: TABLE_Read_def search mid [simplified] Let_def mem_simps)
qed

lemma AREA_Read_ok:
  assumes "ok (mtd s)" "ubi_ok (pages (mtd s)) s" "b < total_data_block (anchor_table s)"
  shows "\<exists>s'. AREA_Read M (AREA_INDEX b) s = Some (STATUS_SUCCESS, s') \<and> same_ubi s s' \<and> ok (mtd s') \<and>
     pages (mtd s') = pages (mtd s) \<and> ubi_ok (pages (mtd s')) s' \<and> cached_area_number s' = AREA_INDEX b"
proof (cases "AREA_INDEX b = cached_area_number s")
  case True
  then have "AREA_Read M (AREA_INDEX b) s = Some (STATUS_SUCCESS, s)" by (simp add: AREA_Read_def)
  with True assms show ?thesis using same_ubi_mtd [of s "mtd s"] by (intro exI [of _ s]) simp
next
  case False
  have cap: "b < 2048" using assms(2,3) by (auto simp: ubi_ok_def)
  have b: "area_ok (pages (mtd s)) s b" using assms(2,3) by (simp add: ubi_ok_def)
  then obtain dm sm where page: "area_page (pages (mtd s)) s (AREA_INDEX b) = Some (dm, sm)" "sm 0 \<noteq> - 1"
    by (auto simp: area_ok_def split: option.splits)
  obtain h where h: "TABLE_Read M (area_index_table (index_table s) (AREA_INDEX b)) (area_offset_table s (AREA_INDEX b))
      (Some (area_words (cached_area_table s))) s =
      Some (STATUS_SUCCESS, area_offset_table s (AREA_INDEX b), Some (memcpy_words MPP_WORDS dm (area_words (cached_area_table s))),
        s\<lparr>mtd := h\<rparr>)" "ok h" "pages h = pages (mtd s)"
    using TABLE_Read_at [OF assms(1), of "area_index_table (index_table s) (AREA_INDEX b)" "area_offset_table s (AREA_INDEX b)" dm sm
        "Some (area_words (cached_area_table s))"] b page by (auto simp: area_ok_def area_page_def)
  define t where "t = area_load (memcpy_words MPP_WORDS dm (area_words (cached_area_table s))) (cached_area_table s)"
  define s' where "s' = s\<lparr>mtd := h, cached_area_table := t, cached_area_number := AREA_INDEX b\<rparr>"
  have same: "same_ubi s s'" unfolding same_ubi_def s'_def by blast
  have "AREA_Read M (AREA_INDEX b) s = Some (STATUS_SUCCESS, s')"
    using False AREA_INDEX_valid [OF cap] h(1) by (simp add: AREA_Read_def s'_def t_def)
  moreover have "area_ok (pages h) s' c" if c: "c < total_data_block (anchor_table s)" for c
  proof -
    have ok: "area_ok (pages (mtd s)) s c" using assms(2) c by (simp add: ubi_ok_def)
    have "t (BLOCK_OFFSET_AREA c) = ubi_entry (pages (mtd s)) s c" if "AREA_INDEX c = AREA_INDEX b"
    proof -
      have "unat (BLOCK_OFFSET_AREA c) < 512" by (simp add: BLOCK_OFFSET_AREA_def unat_mod)
      then show ?thesis using that by (simp add: t_def area_load_def ubi_entry_load page(1) mem_simps)
    qed
    then show ?thesis
      using ok same_ubi_entry [OF same, of "pages (mtd s)"] same_ubi_fields [OF same]
      by (auto simp: area_ok_def area_page_def ubi_phys_def h(3) s'_def)
  qed
  then have "ubi_ok (pages h) s'"
    using assms(2) same_ubi_entry [OF same, of "pages (mtd s)"] same_ubi_fields [OF same]
    by (simp add: ubi_ok_def held_ok_def ubi_phys_def h(3) cong: option.case_cong)
  ultimately show ?thesis using same h(2,3) by (intro exI [of _ s']) (simp add: s'_def)
qed

end

definition buf_done :: "buf option \<Rightarrow> buf_state \<Rightarrow> buf_state" where
  "buf_done p b = (case p of Some (PoolBuf i) \<Rightarrow> b\<lparr>pb_pool_used := (pb_pool_used b)(i := False)\<rparr> | _ \<Rightarrow> b)"

lemma BUF_Free_live: "buf_live b p \<Longrightarrow> BUF_Free p b = Some (buf_done (Some p) b)"
  by (cases p) (auto simp: BUF_Free_def buf_live_def buf_done_def)

lemma buf_done_deref [simp]: "deref (buf_done p b) = deref b"
  by (auto simp: fun_eq_iff deref_def buf_done_def split: option.splits buf.splits)

lemma buf_live_done: "buf_live b p \<Longrightarrow> (\<And>i. p = PoolBuf i \<Longrightarrow> q \<noteq> Some p) \<Longrightarrow> buf_live (buf_done q b) p"
  by (auto simp: buf_live_def buf_done_def split: option.splits buf.splits)

text \<open>A buffer the caller may hand over: live and, if of the pool, not the one still held.\<close>

definition buf_fresh :: "buf_state \<Rightarrow> buf option \<Rightarrow> buf \<Rightarrow> bool" where
  "buf_fresh b held p \<longleftrightarrow> buf_live b p \<and> (case p of PoolBuf i \<Rightarrow> held \<noteq> Some p | OtherMem _ \<Rightarrow> True)"

lemma ubi_pages_program:
  fixes p :: u32 and x :: "(mem \<times> mem) option"
  assumes "ubi_ok pg s" "b < total_data_block (anchor_table s)"
  defines "pg' \<equiv> pg(ubi_phys pg s b := (pg (ubi_phys pg s b))(p := x))"
  shows "ubi_ok pg' s" "ubi_pages pg' s = (ubi_pages pg s)(b := (ubi_pages pg s b)(p := x))"
proof -
  have page: "area_page pg' s (AREA_INDEX c) = area_page pg s (AREA_INDEX c)" if "c < total_data_block (anchor_table s)" for c
  proof -
    have "ubi_phys pg s b \<noteq> area_index_table (index_table s) (AREA_INDEX c)"
      using assms(1,2) that by (simp add: ubi_ok_def)
    then show ?thesis by (simp add: area_page_def pg'_def)
  qed
  then have entry: "ubi_entry pg' s c = ubi_entry pg s c" if "c < total_data_block (anchor_table s)" for c
    using that by (intro ubi_entry_cong) simp
  then show "ubi_ok pg' s"
    using assms(1) page by (auto simp: ubi_ok_def area_ok_def ubi_phys_def)
  have inj: "ubi_phys pg s c = ubi_phys pg s b \<longleftrightarrow> c = b" if "c < total_data_block (anchor_table s)" for c
    using assms(1,2) that by (auto simp: ubi_ok_def)
  show "ubi_pages pg' s = (ubi_pages pg s)(b := (ubi_pages pg s b)(p := x))"
  proof (intro ext)
    fix c q
    show "ubi_pages pg' s c q = ((ubi_pages pg s)(b := (ubi_pages pg s b)(p := x))) c q"
    proof (cases "c < total_data_block (anchor_table s)")
      case True
      then have "ubi_pages pg' s c q = pg' (ubi_phys pg s c) q" by (simp add: ubi_pages_def ubi_phys_def entry)
      also have "\<dots> = (if c = b \<and> q = p then x else pg (ubi_phys pg s c) q)"
        using inj [OF True] by (auto simp: pg'_def)
      finally show ?thesis using True assms(2) by (auto simp: ubi_pages_def)
    next
      case False
      with assms(2) show ?thesis by (auto simp: ubi_pages_def)
    qed
  qed
qed

text \<open>The state of the released buffer: nothing is held afterwards.\<close>

lemma release_held_ok:
  assumes "held_ok s"
  shows "\<exists>d. release_held 0 s = Some (s\<lparr>bufs := buf_done (ubi_held s) (bufs s), dice_hold := d\<rparr>) \<and>
     dh_phy_block (d 0) = INVALID_BLOCK"
proof (cases "dh_phy_block (dice_hold s 0) = INVALID_BLOCK")
  case True
  then have "ubi_held s = None" by (simp add: ubi_held_def)
  with True show ?thesis
    by (intro exI [of _ "dice_hold s"]) (simp add: release_held_def buf_done_def)
next
  case False
  with assms obtain p where p: "dh_buffer (dice_hold s 0) = Some p" "buf_live (bufs s) p"
    by (auto simp: held_ok_def split: option.splits)
  with False have "ubi_held s = Some p" by (simp add: ubi_held_def)
  with False p show ?thesis
    by (auto simp: release_held_def release_buffer_def BUF_Free_live hold_update_def)
qed

lemma ubi_phys_cong:
  "same_ubi s s' \<Longrightarrow> ubi_phys pg s' = ubi_phys pg s" "same_ubi s s' \<Longrightarrow> ubi_pages pg s' = ubi_pages pg s"
  "same_ubi s s' \<Longrightarrow> ubi_held s' = ubi_held s"
  by (auto simp: ubi_phys_def ubi_pages_def ubi_held_def fun_eq_iff same_ubi_entry dest: same_ubi_fields)

text \<open>The buffers, the held page and the flash driver's registers do not matter for the pages.\<close>

lemma ubi_entry_frame [simp]:
  "ubi_entry pg (s\<lparr>bufs := b\<rparr>) = ubi_entry pg s" "ubi_entry pg (s\<lparr>dice_hold := d\<rparr>) = ubi_entry pg s"
  "ubi_entry pg (s\<lparr>mtd := h\<rparr>) = ubi_entry pg s"
  "area_page pg (s\<lparr>bufs := b\<rparr>) = area_page pg s" "area_page pg (s\<lparr>dice_hold := d\<rparr>) = area_page pg s"
  "area_page pg (s\<lparr>mtd := h\<rparr>) = area_page pg s"
  by (simp_all add: fun_eq_iff ubi_entry_load area_page_def)

lemma ubi_pages_frame [simp]:
  "ubi_pages pg (s\<lparr>bufs := b\<rparr>) = ubi_pages pg s" "ubi_pages pg (s\<lparr>dice_hold := d\<rparr>) = ubi_pages pg s"
  "ubi_pages pg (s\<lparr>mtd := h\<rparr>) = ubi_pages pg s"
  "ubi_phys pg (s\<lparr>bufs := b\<rparr>) = ubi_phys pg s" "ubi_phys pg (s\<lparr>dice_hold := d\<rparr>) = ubi_phys pg s"
  "ubi_phys pg (s\<lparr>mtd := h\<rparr>) = ubi_phys pg s"
  by (simp_all add: fun_eq_iff ubi_pages_def ubi_phys_def)

lemma area_ok_frame [simp]:
  "area_ok pg (s\<lparr>bufs := b\<rparr>) = area_ok pg s" "area_ok pg (s\<lparr>dice_hold := d\<rparr>) = area_ok pg s"
  "area_ok pg (s\<lparr>mtd := h\<rparr>) = area_ok pg s"
  by (simp_all add: fun_eq_iff area_ok_def)

lemma ubi_ok_mtd [simp]: "ubi_ok pg (s\<lparr>mtd := h\<rparr>) = ubi_ok pg s"
  by (simp add: ubi_ok_def held_ok_def cong: option.case_cong)

lemma ubi_ok_hold:
  "ubi_ok pg s \<Longrightarrow> held_ok (s\<lparr>bufs := b, dice_hold := d\<rparr>) \<Longrightarrow> ubi_ok pg (s\<lparr>bufs := b, dice_hold := d\<rparr>)"
  by (simp add: ubi_ok_def)

definition ubi_keeps :: "('h \<Rightarrow> bool) \<Rightarrow> ('h \<Rightarrow> u32 \<Rightarrow> u32 \<Rightarrow> (mem \<times> mem) option) \<Rightarrow>
    'h ubi_state \<Rightarrow> 'h ubi_state \<Rightarrow> bool" where
  "ubi_keeps okf pg s s' \<longleftrightarrow> same_ubi s s' \<and> okf (mtd s') \<and> pg (mtd s') = pg (mtd s) \<and> ubi_ok (pg (mtd s')) s'"

context mtd_store
begin

lemma AREA_Get_ok:
  assumes "ok (mtd s)" "ubi_ok (pages (mtd s)) s" "b < total_data_block (anchor_table s)"
  shows "\<exists>s'. AREA_GetBlock M b s = Some (ubi_phys (pages (mtd s)) s b, s') \<and> same_ubi s s' \<and> ok (mtd s') \<and>
     pages (mtd s') = pages (mtd s) \<and> ubi_ok (pages (mtd s')) s'"
    and "\<exists>ec s'. AREA_GetEC M b s = Some (ec, s') \<and> same_ubi s s' \<and> ok (mtd s') \<and>
     pages (mtd s') = pages (mtd s) \<and> ubi_ok (pages (mtd s')) s'"
proof -
  obtain s' where s': "AREA_Read M (AREA_INDEX b) s = Some (STATUS_SUCCESS, s')" "same_ubi s s'" "ok (mtd s')"
    "pages (mtd s') = pages (mtd s)" "ubi_ok (pages (mtd s')) s'" "cached_area_number s' = AREA_INDEX b"
    using AREA_Read_ok [OF assms] by blast
  have "area_ok (pages (mtd s')) s' b"
    using s'(5) assms(3) same_ubi_fields [OF s'(2)] by (simp add: ubi_ok_def)
  then have "physical_block (cached_area_table s' (BLOCK_OFFSET_AREA b)) = ubi_phys (pages (mtd s)) s b"
    using s'(6) same_ubi_entry [OF s'(2), of "pages (mtd s)"] by (simp add: area_ok_def ubi_phys_def s'(4))
  with s' show "\<exists>s'. AREA_GetBlock M b s = Some (ubi_phys (pages (mtd s)) s b, s') \<and> same_ubi s s' \<and> ok (mtd s') \<and>
     pages (mtd s') = pages (mtd s) \<and> ubi_ok (pages (mtd s')) s'"
    by (intro exI [of _ s']) (simp add: AREA_GetBlock_def Let_def)
  from s' show "\<exists>ec s'. AREA_GetEC M b s = Some (ec, s') \<and> same_ubi s s' \<and> ok (mtd s') \<and>
     pages (mtd s') = pages (mtd s) \<and> ubi_ok (pages (mtd s')) s'"
    by (intro exI [of _ "physical_block_ec (cached_area_table s' (BLOCK_OFFSET_AREA b))"] exI [of _ s'])
      (simp add: AREA_GetEC_def Let_def)
qed

lemma keepsD:
  assumes "ubi_keeps ok pages s s'"
  shows "ok (mtd s')" "ubi_ok (pages (mtd s')) s'" "ubi_pages (pages (mtd s')) s' = ubi_pages (pages (mtd s)) s"
    "bufs s' = bufs s" "ubi_held s' = ubi_held s" "anchor_table s' = anchor_table s" "dice_hold s' = dice_hold s"
    "pages (mtd s') = pages (mtd s)" "ubi_phys (pages (mtd s')) s' = ubi_phys (pages (mtd s)) s" "same_ubi s s'"
  using assms same_ubi_fields [of s s'] ubi_phys_cong [of s s'] by (auto simp: ubi_keeps_def)

lemma keeps_trans: "ubi_keeps ok pages s s' \<Longrightarrow> ubi_keeps ok pages s' s'' \<Longrightarrow> ubi_keeps ok pages s s''"
  by (auto simp: ubi_keeps_def intro: same_ubi_trans)

lemma keeps_mtd: "ubi_keeps ok pages s s' \<Longrightarrow> ok h \<Longrightarrow> pages h = pages (mtd s') \<Longrightarrow> ubi_keeps ok pages s (s'\<lparr>mtd := h\<rparr>)"
  using same_ubi_mtd [of s' h] by (auto simp: ubi_keeps_def intro: same_ubi_trans)

lemma phys_ok:
  assumes "ubi_ok pg s" "b < total_data_block (anchor_table s)"
  shows "ubi_phys pg s b < 2048" "ubi_phys pg s b \<noteq> INVALID_BLOCK"
proof -
  show "ubi_phys pg s b < 2048" using assms by (auto simp: ubi_ok_def area_ok_def)
  then show "ubi_phys pg s b \<noteq> INVALID_BLOCK" by auto
qed

lemma UBI_Read_ok:
  assumes "ok (mtd s)" "ubi_ok (pages (mtd s)) s" "b < total_data_block (anchor_table s)" "p < PAGE_PER_PHY_BLOCK"
    and "ubi_pages (pages (mtd s)) s b p = Some (dm, sm)"
  shows "\<exists>s'. UBI_Read M b p buf sp s = Some (STATUS_SUCCESS, map_option (memcpy_words MPP_WORDS dm) buf,
     map_option (memcpy_words SPARE_WORDS sm) sp, s') \<and> ubi_keeps ok pages s s'"
proof -
  obtain s1 where s1: "AREA_GetBlock M b s = Some (ubi_phys (pages (mtd s)) s b, s1)" "ubi_keeps ok pages s s1"
    using AREA_Get_ok(1) [OF assms(1-3)] by (auto simp: ubi_keeps_def)
  have "pages (mtd s1) (ubi_phys (pages (mtd s)) s b) p = Some (dm, sm)"
    using assms(3,5) keepsD(8) [OF s1(2)] by (simp add: ubi_pages_def)
  from mtd_read_table [OF keepsD(1) [OF s1(2)] _ _ this, of buf sp] phys_ok [OF assms(2,3)] assms(4)
  obtain h where "mtd_read M (ubi_phys (pages (mtd s)) s b) p buf sp s1 = Some (STATUS_SUCCESS,
      map_option (memcpy_words MPP_WORDS dm) buf, map_option (memcpy_words SPARE_WORDS sm) sp, s1\<lparr>mtd := h\<rparr>)"
    "ok h" "pages h = pages (mtd s1)" by auto
  moreover have "b \<noteq> INVALID_BLOCK" "p \<noteq> INVALID_PAGE" using assms(2,3,4) by (auto simp: ubi_ok_def)
  ultimately show ?thesis
    using phys_ok [OF assms(2,3)] keeps_mtd [OF s1(2)] by (intro exI [of _ "s1\<lparr>mtd := h\<rparr>"]) (simp add: UBI_Read_def s1(1))
qed

lemma UBI_Read_empty:
  assumes "ok (mtd s)" "ubi_ok (pages (mtd s)) s" "b < total_data_block (anchor_table s)" "p < PAGE_PER_PHY_BLOCK"
    and "ubi_pages (pages (mtd s)) s b p = None"
  shows "\<exists>buf' sp' s'. UBI_Read M b p buf sp s = Some (STATUS_FAILURE, buf', sp', s') \<and> ubi_keeps ok pages s s' \<and>
     (buf' = None \<longleftrightarrow> buf = None) \<and> (sp' = None \<longleftrightarrow> sp = None)"
proof -
  obtain s1 where s1: "AREA_GetBlock M b s = Some (ubi_phys (pages (mtd s)) s b, s1)" "ubi_keeps ok pages s s1"
    using AREA_Get_ok(1) [OF assms(1-3)] by (auto simp: ubi_keeps_def)
  have "pages (mtd s1) (ubi_phys (pages (mtd s)) s b) p = None"
    using assms(3,5) keepsD(8) [OF s1(2)] by (simp add: ubi_pages_def)
  from read_erased [OF keepsD(1) [OF s1(2)] _ assms(4) this, of buf sp] phys_ok [OF assms(2,3)]
  obtain h buf' sp' where r: "m_Read M (ubi_phys (pages (mtd s)) s b) p buf sp (mtd s1) = Some (STATUS_FAILURE, buf', sp', h)"
    "ok h" "pages h = pages (mtd s1)" "(buf' = None) = (buf = None)" "(sp' = None) = (sp = None)" by auto
  have "b \<noteq> INVALID_BLOCK" "p \<noteq> INVALID_PAGE" using assms(2,3,4) by (auto simp: ubi_ok_def)
  then have "UBI_Read M b p buf sp s = Some (STATUS_FAILURE, buf', sp', s1\<lparr>mtd := h\<rparr>)"
    using phys_ok [OF assms(2,3)] by (simp add: UBI_Read_def s1(1) mtd_read_def r(1))
  with keeps_mtd [OF s1(2) r(2,3)] r(4,5) show ?thesis by blast
qed

lemma UBI_ReadStatus_ok:
  assumes "ok (mtd s)" "ubi_ok (pages (mtd s)) s" "b < total_data_block (anchor_table s)"
  shows "\<exists>s'. UBI_ReadStatus M b s = Some (STATUS_SUCCESS, s') \<and> ubi_keeps ok pages s s'"
proof -
  obtain s1 where s1: "AREA_GetBlock M b s = Some (ubi_phys (pages (mtd s)) s b, s1)" "ubi_keeps ok pages s s1"
    using AREA_Get_ok(1) [OF assms(1-3)] by (auto simp: ubi_keeps_def)
  from read_status [OF keepsD(1) [OF s1(2)], of "ubi_phys (pages (mtd s)) s b"] phys_ok [OF assms(2,3)]
  obtain h where "m_ReadStatus M (ubi_phys (pages (mtd s)) s b) (mtd s1) = Some (STATUS_SUCCESS, h)" "ok h" "pages h = pages (mtd s1)"
    by auto
  then show ?thesis
    using phys_ok [OF assms(2,3)] keeps_mtd [OF s1(2)]
    by (intro exI [of _ "s1\<lparr>mtd := h\<rparr>"]) (simp add: UBI_ReadStatus_def s1(1) mtd_read_status_def)
qed

end

lemma ubi_hold_loop_idle: "ubi_hold_loop M phy STATUS_SUCCESS die s = Some (STATUS_SUCCESS, die, s)"
  by (subst ubi_hold_loop.simps) simp

lemma ubi_sync_loop_idle: "ubi_sync_loop M b phy ec p buf sp STATUS_SUCCESS s = Some (STATUS_SUCCESS, s)"
  by (subst ubi_sync_loop.simps) simp

context mtd_store
begin

text \<open>What the first half of \<open>UBI_Write\<close> leaves: the die is idle and the buffer of the page before is free again.\<close>

lemma write_prologue:
  assumes "ok (mtd s)" "ubi_ok (pages (mtd s)) s" "b < total_data_block (anchor_table s)"
  shows "\<exists>ec s1 s2 s3 h d.
     AREA_GetBlock M b s = Some (ubi_phys (pages (mtd s)) s b, s1) \<and> AREA_GetEC M b s1 = Some (ec, s2) \<and>
     mtd_wait_ready M (ubi_phys (pages (mtd s)) s b) s2 = Some (STATUS_SUCCESS, s2\<lparr>mtd := h\<rparr>) \<and>
     release_held 0 (s2\<lparr>mtd := h\<rparr>) = Some s3 \<and> s3 = s2\<lparr>mtd := h, bufs := buf_done (ubi_held s) (bufs s), dice_hold := d\<rparr> \<and>
     ubi_keeps ok pages s (s2\<lparr>mtd := h\<rparr>) \<and> dh_phy_block (d 0) = INVALID_BLOCK \<and> ubi_ok (pages h) s3"
proof -
  obtain s1 where s1: "AREA_GetBlock M b s = Some (ubi_phys (pages (mtd s)) s b, s1)" "ubi_keeps ok pages s s1"
    using AREA_Get_ok(1) [OF assms] by (auto simp: ubi_keeps_def)
  have b1: "b < total_data_block (anchor_table s1)" using assms(3) keepsD(6) [OF s1(2)] by simp
  obtain ec s2 where s2: "AREA_GetEC M b s1 = Some (ec, s2)" "ubi_keeps ok pages s1 s2"
    using AREA_Get_ok(2) [OF keepsD(1,2) [OF s1(2)] b1] by (auto simp: ubi_keeps_def)
  have k2: "ubi_keeps ok pages s s2" by (rule keeps_trans [OF s1(2) s2(2)])
  obtain h where h: "m_WaitReady M (ubi_phys (pages (mtd s)) s b) (mtd s2) = Some (STATUS_SUCCESS, h)" "ok h" "pages h = pages (mtd s2)"
    using wait_ready [OF keepsD(1) [OF k2], of "ubi_phys (pages (mtd s)) s b"] phys_ok(1) [OF assms(2,3)] by auto
  have k3: "ubi_keeps ok pages s (s2\<lparr>mtd := h\<rparr>)" by (rule keeps_mtd [OF k2 h(2,3)])
  have "held_ok (s2\<lparr>mtd := h\<rparr>)" using keepsD(2) [OF k3] by (simp add: ubi_ok_def)
  from release_held_ok [OF this] obtain d where
    d: "release_held 0 (s2\<lparr>mtd := h\<rparr>) = Some (s2\<lparr>mtd := h, bufs := buf_done (ubi_held s) (bufs s), dice_hold := d\<rparr>)"
      "dh_phy_block (d 0) = INVALID_BLOCK"
    using keepsD(4,5) [OF k3] by auto
  have "held_ok ((s2\<lparr>mtd := h\<rparr>)\<lparr>bufs := buf_done (ubi_held s) (bufs s), dice_hold := d\<rparr>)"
    using d(2) by (simp add: held_ok_def)
  from ubi_ok_hold [OF keepsD(2) [OF k3] this]
  have "ubi_ok (pages h) (s2\<lparr>mtd := h, bufs := buf_done (ubi_held s) (bufs s), dice_hold := d\<rparr>)" by simp
  with s1(1) s2(1) h(1) d k3 show ?thesis
    by (intro exI [of _ ec] exI [of _ s1] exI [of _ s2] exI [of _ h] exI [of _ d] exI conjI) (auto simp: mtd_wait_ready_def)
qed

lemma UBI_Write_ok:
  assumes "ok (mtd s)" "ubi_ok (pages (mtd s)) s" "b < total_data_block (anchor_table s)" "p < PAGE_PER_PHY_BLOCK"
    and "ubi_pages (pages (mtd s)) s b p = None" "buf_fresh (bufs s) (ubi_held s) bf" "async \<Longrightarrow> sp \<noteq> None"
  shows "\<exists>s'. UBI_Write M b p (Some bf) sp async s = Some (STATUS_SUCCESS, s') \<and> ok (mtd s') \<and>
     ubi_ok (pages (mtd s')) s' \<and> anchor_table s' = anchor_table s \<and>
     ubi_pages (pages (mtd s')) s' = (ubi_pages (pages (mtd s)) s)(b := (ubi_pages (pages (mtd s)) s b)
       (p \<mapsto> (clip MPP_WORDS (deref (bufs s) bf), clip SPARE_WORDS (spare_or_ones sp)))) \<and>
     ubi_held s' = (if async then Some bf else None) \<and>
     bufs s' = (if async then buf_done (ubi_held s) (bufs s) else buf_done (Some bf) (buf_done (ubi_held s) (bufs s)))"
proof -
  define phy where "phy = ubi_phys (pages (mtd s)) s b"
  define bs where "bs = buf_done (ubi_held s) (bufs s)"
  obtain ec s1 s2 s3 h d where w: "AREA_GetBlock M b s = Some (phy, s1)" "AREA_GetEC M b s1 = Some (ec, s2)"
     "mtd_wait_ready M phy s2 = Some (STATUS_SUCCESS, s2\<lparr>mtd := h\<rparr>)"
     "release_held 0 (s2\<lparr>mtd := h\<rparr>) = Some s3" "s3 = s2\<lparr>mtd := h, bufs := bs, dice_hold := d\<rparr>"
     "ubi_keeps ok pages s (s2\<lparr>mtd := h\<rparr>)" "dh_phy_block (d 0) = INVALID_BLOCK" "ubi_ok (pages h) s3"
    using write_prologue [OF assms(1-3)] unfolding phy_def [symmetric] bs_def [symmetric] by blast
  have phy: "phy < 2048" "phy \<noteq> INVALID_BLOCK" using phys_ok [OF assms(2,3)] by (simp_all add: phy_def)
  have k: "ok h" "pages h = pages (mtd s)" "anchor_table s2 = anchor_table s" "same_ubi s s2"
    using keepsD(1,6,8) [OF w(6)] same_ubi_trans [OF keepsD(10) [OF w(6)] same_ubi_mtd [of _ "mtd s2"]] by simp_all
  have b3: "b < total_data_block (anchor_table s3)" using assms(3) k(3) by (simp add: w(5))
  have phy3: "ubi_phys (pages h) s3 b = phy"
    using ubi_phys_cong(1) [OF k(4)] by (simp add: w(5) k(2) phy_def)
  have pages3: "ubi_pages (pages h) s3 = ubi_pages (pages (mtd s)) s"
    using ubi_phys_cong(2) [OF k(4)] by (simp add: w(5) k(2))
  have none: "pages h phy p = None" using assms(3,5) by (simp add: ubi_pages_def k(2) phy_def)
  define x where "x = (clip MPP_WORDS (deref (bufs s) bf), clip SPARE_WORDS (spare_or_ones sp))"
  obtain h1 where h1: "m_Program M phy p (deref bs bf) sp h = Some (STATUS_SUCCESS, h1)" "ok h1"
    "pages h1 = (pages h)(phy := (pages h phy)(p \<mapsto> x))"
    using program [OF k(1) _ assms(4) none, of "deref bs bf" sp] phy by (auto simp: bs_def x_def)
  note prog = ubi_pages_program [OF w(8) b3, of p "Some x", unfolded phy3, folded h1(3)]
  have start: "UBI_Write M b p (Some bf) sp async s = do {
      (ret, s) \<leftarrow> mtd_program M phy p (deref bs bf) sp s3;
      if ret = STATUS_SUCCESS then
         if \<not> async then do {
           (ret, s) \<leftarrow> mtd_wait_ready M phy s;
           (ret, s) \<leftarrow> ubi_sync_loop M b phy ec p bf sp ret s;
           ASSERT (ret = STATUS_SUCCESS);
           s \<leftarrow> release_buffer bf s;
           Some (ret, s) }
         else do {
           sp \<leftarrow> sp;
           Some (ret, hold_update 0 (\<lambda>d. d\<lparr>dh_log_block := b, dh_phy_block := phy, dh_ec := ec, dh_page := p,
             dh_buffer := Some bf, dh_spare := (dh_spare d)(0 := sp 0, 1 := sp 1)\<rparr>) s) }
       else Some (ret, s) }"
    using assms(4) phy(2) w(1-5) by (auto simp: UBI_Write_def ubi_hold_loop_idle)
  have live: "buf_live bs bf"
    using assms(6) unfolding bs_def buf_fresh_def by (auto intro!: buf_live_done)
  have final: "ubi_pages (pages h1) s3 = (ubi_pages (pages (mtd s)) s)(b := (ubi_pages (pages (mtd s)) s b)(p \<mapsto> x))"
    using prog(2) by (simp add: pages3)
  show ?thesis
  proof (cases async)
    case False
    obtain h2 where h2: "m_WaitReady M phy h1 = Some (STATUS_SUCCESS, h2)" "ok h2" "pages h2 = pages h1"
      using wait_ready [OF h1(2)] phy by auto
    define s' where "s' = s3\<lparr>mtd := h2, bufs := buf_done (Some bf) bs\<rparr>"
    have run: "UBI_Write M b p (Some bf) sp async s = Some (STATUS_SUCCESS, s')"
      unfolding start using False h1(1) h2(1) live
      by (simp add: mtd_program_def mtd_wait_ready_def ubi_sync_loop_idle release_buffer_def BUF_Free_live s'_def w(5))
    have "held_ok ((s3\<lparr>mtd := h2\<rparr>)\<lparr>bufs := buf_done (Some bf) bs, dice_hold := d\<rparr>)" using w(7) by (simp add: held_ok_def)
    moreover have "s' = (s3\<lparr>mtd := h2\<rparr>)\<lparr>bufs := buf_done (Some bf) bs, dice_hold := d\<rparr>"
      by (rule ubi_state.equality) (simp_all add: s'_def w(5))
    ultimately have "ubi_ok (pages h1) s'"
      using ubi_ok_hold [where pg = "pages h1" and s = "s3\<lparr>mtd := h2\<rparr>" and b = "buf_done (Some bf) bs" and d = d] prog(1) by simp
    then show ?thesis
      using run h2(2,3) final k(3) w(7) False
      by (intro exI [of _ s']) (simp add: s'_def x_def w(5) ubi_held_def bs_def)
  next
    case True
    then obtain sw where sw: "sp = Some sw" using assms(7) by blast
    define d' where "d' = d(0 := (d 0)\<lparr>dh_log_block := b, dh_phy_block := phy, dh_ec := ec, dh_page := p,
             dh_buffer := Some bf, dh_spare := (dh_spare (d 0))(0 := sw 0, 1 := sw 1)\<rparr>)"
    define s' where "s' = s3\<lparr>mtd := h1, dice_hold := d'\<rparr>"
    have run: "UBI_Write M b p (Some bf) sp async s = Some (STATUS_SUCCESS, s')"
      unfolding start using True h1(1)
      by (simp add: mtd_program_def sw hold_update_def s'_def d'_def w(5))
    have "held_ok ((s3\<lparr>mtd := h1\<rparr>)\<lparr>bufs := bs, dice_hold := d'\<rparr>)" using live by (simp add: held_ok_def d'_def)
    moreover have "s' = (s3\<lparr>mtd := h1\<rparr>)\<lparr>bufs := bs, dice_hold := d'\<rparr>"
      by (rule ubi_state.equality) (simp_all add: s'_def w(5))
    ultimately have "ubi_ok (pages h1) s'"
      using ubi_ok_hold [where pg = "pages h1" and s = "s3\<lparr>mtd := h1\<rparr>" and b = bs and d = d'] prog(1) by simp
    moreover have "ubi_held s' = Some bf" using phy(2) by (simp add: ubi_held_def s'_def d'_def)
    ultimately show ?thesis
      using run h1(2) final k(3) True
      by (intro exI [of _ s']) (simp add: s'_def x_def w(5) bs_def)
  qed
qed

end

section \<open>The contract of the layer\<close>

text \<open>
  The part of the interface that the page path of the FTL relies on: pages of logical blocks that are read as
  they were written, and the buffer that an asynchronous write keeps until the next one.
\<close>

locale page_store =
  fixes U :: "'u ubi_ops"
    and uok :: "'u \<Rightarrow> bool"
    and upages :: "'u \<Rightarrow> u32 \<Rightarrow> u32 \<Rightarrow> (mem \<times> mem) option"
    and held :: "'u \<Rightarrow> buf option"
  assumes u_read: "uok u \<Longrightarrow> b < u_Capacity U u \<Longrightarrow> p < PAGE_PER_PHY_BLOCK \<Longrightarrow> upages u b p = Some (dm, sm) \<Longrightarrow>
      \<exists>u'. u_Read U b p buf sp u = Some (STATUS_SUCCESS, map_option (memcpy_words MPP_WORDS dm) buf,
             map_option (memcpy_words SPARE_WORDS sm) sp, u') \<and> uok u' \<and> upages u' = upages u \<and> held u' = held u \<and>
        u_bufs U u' = u_bufs U u \<and> u_Capacity U u' = u_Capacity U u"
    and u_read_empty: "uok u \<Longrightarrow> b < u_Capacity U u \<Longrightarrow> p < PAGE_PER_PHY_BLOCK \<Longrightarrow> upages u b p = None \<Longrightarrow>
      \<exists>buf' sp' u'. u_Read U b p buf sp u = Some (STATUS_FAILURE, buf', sp', u') \<and> (buf' = None \<longleftrightarrow> buf = None) \<and>
        (sp' = None \<longleftrightarrow> sp = None) \<and> uok u' \<and> upages u' = upages u \<and> held u' = held u \<and>
        u_bufs U u' = u_bufs U u \<and> u_Capacity U u' = u_Capacity U u"
    and u_read_status: "uok u \<Longrightarrow> b < u_Capacity U u \<Longrightarrow>
      \<exists>u'. u_ReadStatus U b u = Some (STATUS_SUCCESS, u') \<and> uok u' \<and> upages u' = upages u \<and> held u' = held u \<and>
        u_bufs U u' = u_bufs U u \<and> u_Capacity U u' = u_Capacity U u"
    and u_write: "uok u \<Longrightarrow> b < u_Capacity U u \<Longrightarrow> p < PAGE_PER_PHY_BLOCK \<Longrightarrow> upages u b p = None \<Longrightarrow>
      buf_fresh (u_bufs U u) (held u) bf \<Longrightarrow> async \<longrightarrow> sp \<noteq> None \<Longrightarrow>
      \<exists>u'. u_Write U b p (Some bf) sp async u = Some (STATUS_SUCCESS, u') \<and> uok u' \<and>
        upages u' = (upages u)(b := (upages u b)(p \<mapsto>
          (clip MPP_WORDS (deref (u_bufs U u) bf), clip SPARE_WORDS (spare_or_ones sp)))) \<and>
        held u' = (if async then Some bf else None) \<and> u_Capacity U u' = u_Capacity U u \<and>
        u_bufs U u' = (if async then buf_done (held u) (u_bufs U u) else buf_done (Some bf) (buf_done (held u) (u_bufs U u)))"
    and u_bufs_set: "uok u \<Longrightarrow> (case held u of None \<Rightarrow> True | Some q \<Rightarrow> buf_live bs q) \<Longrightarrow>
      uok (u_set_bufs U bs u) \<and> upages (u_set_bufs U bs u) = upages u \<and> held (u_set_bufs U bs u) = held u \<and>
      u_bufs U (u_set_bufs U bs u) = bs \<and> u_Capacity U (u_set_bufs U bs u) = u_Capacity U u"

lemma ubi_over_select:
  "u_Read (ubi_over M) = UBI_Read M" "u_Write (ubi_over M) = UBI_Write M" "u_ReadStatus (ubi_over M) = UBI_ReadStatus M"
  "u_Capacity (ubi_over M) s = total_data_block (anchor_table s)" "u_bufs (ubi_over M) = bufs"
  "u_set_bufs (ubi_over M) b s = s\<lparr>bufs := b\<rparr>"
  by (simp_all add: ubi_over_def UBI_Capacity_def)

sublocale mtd_store \<subseteq> ubi: page_store "ubi_over M" "\<lambda>s. ok (mtd s) \<and> ubi_ok (pages (mtd s)) s"
    "\<lambda>s. ubi_pages (pages (mtd s)) s" ubi_held
proof
  fix u b p dm sm and buf sp :: "mem option" and bf async bs
  assume u: "ok (mtd u) \<and> ubi_ok (pages (mtd u)) u"
  note kd = keepsD(1-6)
  show "\<exists>u'. u_Read (ubi_over M) b p buf sp u = Some (STATUS_SUCCESS, map_option (memcpy_words MPP_WORDS dm) buf,
             map_option (memcpy_words SPARE_WORDS sm) sp, u') \<and> (ok (mtd u') \<and> ubi_ok (pages (mtd u')) u') \<and>
        ubi_pages (pages (mtd u')) u' = ubi_pages (pages (mtd u)) u \<and> ubi_held u' = ubi_held u \<and>
        u_bufs (ubi_over M) u' = u_bufs (ubi_over M) u \<and> u_Capacity (ubi_over M) u' = u_Capacity (ubi_over M) u"
    if "b < u_Capacity (ubi_over M) u" "p < PAGE_PER_PHY_BLOCK" "ubi_pages (pages (mtd u)) u b p = Some (dm, sm)"
  proof -
    from UBI_Read_ok [of u b p dm sm buf sp] u that obtain u' where
      "UBI_Read M b p buf sp u = Some (STATUS_SUCCESS, map_option (memcpy_words MPP_WORDS dm) buf,
             map_option (memcpy_words SPARE_WORDS sm) sp, u')" "ubi_keeps ok pages u u'"
      unfolding ubi_over_select by blast
    with kd [OF this(2)] show ?thesis unfolding ubi_over_select by auto
  qed
  show "\<exists>buf' sp' u'. u_Read (ubi_over M) b p buf sp u = Some (STATUS_FAILURE, buf', sp', u') \<and> (buf' = None \<longleftrightarrow> buf = None) \<and>
        (sp' = None \<longleftrightarrow> sp = None) \<and> (ok (mtd u') \<and> ubi_ok (pages (mtd u')) u') \<and>
        ubi_pages (pages (mtd u')) u' = ubi_pages (pages (mtd u)) u \<and> ubi_held u' = ubi_held u \<and>
        u_bufs (ubi_over M) u' = u_bufs (ubi_over M) u \<and> u_Capacity (ubi_over M) u' = u_Capacity (ubi_over M) u"
    if "b < u_Capacity (ubi_over M) u" "p < PAGE_PER_PHY_BLOCK" "ubi_pages (pages (mtd u)) u b p = None"
  proof -
    from UBI_Read_empty [of u b p buf sp] u that obtain buf' sp' u' where
      r: "UBI_Read M b p buf sp u = Some (STATUS_FAILURE, buf', sp', u')" "ubi_keeps ok pages u u'"
      "(buf' = None) = (buf = None)" "(sp' = None) = (sp = None)"
      unfolding ubi_over_select by blast
    show ?thesis unfolding ubi_over_select
      by (rule exI [of _ buf'], rule exI [of _ sp'], rule exI [of _ u']) (use r kd [OF r(2)] in simp)
  qed
  show "\<exists>u'. u_ReadStatus (ubi_over M) b u = Some (STATUS_SUCCESS, u') \<and> (ok (mtd u') \<and> ubi_ok (pages (mtd u')) u') \<and>
        ubi_pages (pages (mtd u')) u' = ubi_pages (pages (mtd u)) u \<and> ubi_held u' = ubi_held u \<and>
        u_bufs (ubi_over M) u' = u_bufs (ubi_over M) u \<and> u_Capacity (ubi_over M) u' = u_Capacity (ubi_over M) u"
    if "b < u_Capacity (ubi_over M) u"
  proof -
    from UBI_ReadStatus_ok [of u b] u that obtain u' where
      r: "UBI_ReadStatus M b u = Some (STATUS_SUCCESS, u')" "ubi_keeps ok pages u u'"
      unfolding ubi_over_select by blast
    with kd [OF this(2)] show ?thesis unfolding ubi_over_select by auto
  qed
  show "\<exists>u'. u_Write (ubi_over M) b p (Some bf) sp async u = Some (STATUS_SUCCESS, u') \<and>
        (ok (mtd u') \<and> ubi_ok (pages (mtd u')) u') \<and>
        ubi_pages (pages (mtd u')) u' = (ubi_pages (pages (mtd u)) u)(b := (ubi_pages (pages (mtd u)) u b)(p \<mapsto>
          (clip MPP_WORDS (deref (u_bufs (ubi_over M) u) bf), clip SPARE_WORDS (spare_or_ones sp)))) \<and>
        ubi_held u' = (if async then Some bf else None) \<and> u_Capacity (ubi_over M) u' = u_Capacity (ubi_over M) u \<and>
        u_bufs (ubi_over M) u' = (if async then buf_done (ubi_held u) (u_bufs (ubi_over M) u)
          else buf_done (Some bf) (buf_done (ubi_held u) (u_bufs (ubi_over M) u)))"
    if "b < u_Capacity (ubi_over M) u" "p < PAGE_PER_PHY_BLOCK" "ubi_pages (pages (mtd u)) u b p = None"
      "buf_fresh (u_bufs (ubi_over M) u) (ubi_held u) bf" "async \<longrightarrow> sp \<noteq> None"
  proof -
    from UBI_Write_ok [of u b p bf async sp] u that obtain u' where
      "UBI_Write M b p (Some bf) sp async u = Some (STATUS_SUCCESS, u')" "ok (mtd u')" "ubi_ok (pages (mtd u')) u'"
      "anchor_table u' = anchor_table u"
      "ubi_pages (pages (mtd u')) u' = (ubi_pages (pages (mtd u)) u)(b := (ubi_pages (pages (mtd u)) u b)
         (p \<mapsto> (clip MPP_WORDS (deref (bufs u) bf), clip SPARE_WORDS (spare_or_ones sp))))"
      "ubi_held u' = (if async then Some bf else None)"
      "bufs u' = (if async then buf_done (ubi_held u) (bufs u) else buf_done (Some bf) (buf_done (ubi_held u) (bufs u)))"
      unfolding ubi_over_select by blast
    then show ?thesis unfolding ubi_over_select by (intro exI [of _ u']) simp
  qed
  show "(ok (mtd (u_set_bufs (ubi_over M) bs u)) \<and> ubi_ok (pages (mtd (u_set_bufs (ubi_over M) bs u))) (u_set_bufs (ubi_over M) bs u)) \<and>
      ubi_pages (pages (mtd (u_set_bufs (ubi_over M) bs u))) (u_set_bufs (ubi_over M) bs u) = ubi_pages (pages (mtd u)) u \<and>
      ubi_held (u_set_bufs (ubi_over M) bs u) = ubi_held u \<and>
      u_bufs (ubi_over M) (u_set_bufs (ubi_over M) bs u) = bs \<and>
      u_Capacity (ubi_over M) (u_set_bufs (ubi_over M) bs u) = u_Capacity (ubi_over M) u"
    if "case ubi_held u of None \<Rightarrow> True | Some q \<Rightarrow> buf_live bs q"
  proof -
    have "held_ok (u\<lparr>bufs := bs\<rparr>)"
      using that u by (auto simp: held_ok_def ubi_held_def ubi_ok_def split: option.splits if_splits)
    then show ?thesis using u unfolding ubi_over_select by (simp add: ubi_ok_def ubi_held_def)
  qed
qed

text \<open>The UBI layer of the firmware on the simulated flash.\<close>

definition sim_ubi :: "sim_state ubi_state ubi_ops" where "sim_ubi = ubi_over sim_mtd"

definition sim_ubi_ok :: "sim_state ubi_state \<Rightarrow> bool" where
  "sim_ubi_ok s \<longleftrightarrow> sim_flash_ok (mtd s) \<and> ubi_ok (sim_pages (mtd s)) s"

definition sim_ubi_pages :: "sim_state ubi_state \<Rightarrow> u32 \<Rightarrow> u32 \<Rightarrow> (mem \<times> mem) option" where
  "sim_ubi_pages s = ubi_pages (sim_pages (mtd s)) s"

interpretation sim_store: page_store sim_ubi sim_ubi_ok sim_ubi_pages ubi_held
  using sim_flash.ubi.page_store_axioms
  by (simp only: sim_ubi_def sim_ubi_ok_def [abs_def] sim_ubi_pages_def [abs_def])

section \<open>Write and read\<close>

text \<open>C20: A logical page written through the layer, synchronously or not, reads back with its data and spare words, and no
  other logical page changes; an asynchronous write keeps its buffer, a synchronous one has freed it.\<close>

theorem UBI_Write_Read:
  assumes "sim_ubi_ok s" "b < UBI_Capacity s" "p < PAGE_PER_PHY_BLOCK" "sim_ubi_pages s b p = None"
    and "buf_fresh (bufs s) (ubi_held s) bf"
  shows "\<exists>s1 s2. UBI_Write sim_mtd b p (Some bf) (Some sw) async s = Some (STATUS_SUCCESS, s1) \<and>
    UBI_Read sim_mtd b p (Some m) (Some sp) s1 =
      Some (STATUS_SUCCESS, Some (memcpy_words MPP_WORDS (deref (bufs s) bf) m), Some (memcpy_words SPARE_WORDS sw sp), s2) \<and>
    sim_ubi_ok s2 \<and> (sim_ubi_pages s2)(b := (sim_ubi_pages s2 b)(p := None)) = sim_ubi_pages s \<and>
    ubi_held s2 = (if async then Some bf else None)"
proof -
  have sel: "u_Capacity sim_ubi s = UBI_Capacity s" "u_bufs sim_ubi = bufs" "u_Write sim_ubi = UBI_Write sim_mtd"
      "u_Read sim_ubi = UBI_Read sim_mtd" for s
    by (simp_all add: sim_ubi_def ubi_over_def)
  define x where "x = (clip MPP_WORDS (deref (bufs s) bf), clip SPARE_WORDS sw)"
  obtain s1 where s1: "UBI_Write sim_mtd b p (Some bf) (Some sw) async s = Some (STATUS_SUCCESS, s1)" "sim_ubi_ok s1"
    "sim_ubi_pages s1 = (sim_ubi_pages s)(b := (sim_ubi_pages s b)(p \<mapsto> x))"
    "ubi_held s1 = (if async then Some bf else None)" "UBI_Capacity s1 = UBI_Capacity s"
    using sim_store.u_write [of s b p bf async "Some sw"] assms by (auto simp: sel x_def)
  have "sim_ubi_pages s1 b p = Some x" by (simp add: s1(3))
  from sim_store.u_read [OF s1(2) _ assms(3) this [unfolded x_def], of "Some m" "Some sp"] assms(2)
  obtain s2 where "UBI_Read sim_mtd b p (Some m) (Some sp) s1 =
      Some (STATUS_SUCCESS, Some (memcpy_words MPP_WORDS (deref (bufs s) bf) m), Some (memcpy_words SPARE_WORDS sw sp), s2)"
    "sim_ubi_ok s2" "sim_ubi_pages s2 = sim_ubi_pages s1" "ubi_held s2 = ubi_held s1"
    by (auto simp: sel s1(5))
  moreover have "(sim_ubi_pages s1)(b := (sim_ubi_pages s1 b)(p := None)) = sim_ubi_pages s"
    using assms(4) by (auto simp: s1(3) fun_eq_iff)
  ultimately show ?thesis using s1(1,4) by metis
qed

text \<open>A small device: 24 data blocks, mapped to the blocks from 200 on by a table in page 0 of block 100.\<close>

definition demo_map :: "u32 \<Rightarrow> AREA_BLOCK" where
  "demo_map i = \<lparr>physical_block = 200 + i, physical_block_ec = 0\<rparr>"

definition demo_flash :: sim_state where
  "demo_flash = snd (the (MTD_Program sim_ops 100 0 (area_words demo_map) (Some (\<lambda>_. 0)) sim_start))"

definition ubi_demo :: "sim_state ubi_state" where
  "ubi_demo = (ubi_start demo_flash)\<lparr>anchor_table := (anchor_table (ubi_start demo_flash))\<lparr>total_data_block := 24\<rparr>,
     index_table := (index_table (ubi_start demo_flash))\<lparr>area_index_table := (\<lambda>_. 100)\<rparr>,
     cached_area_number := INVALID_AREA,
     dice_hold := (\<lambda>d. (dice_hold (ubi_start demo_flash) d)\<lparr>dh_phy_block := INVALID_BLOCK\<rparr>)\<rparr>"

lemma demo_flash_ok: "sim_flash_ok demo_flash"
    "sim_pages demo_flash = (\<lambda>_ _. None)(100 := [0 \<mapsto> (clip MPP_WORDS (area_words demo_map), clip SPARE_WORDS (\<lambda>_. 0))])"
proof -
  obtain h where "MTD_Program sim_ops 100 0 (area_words demo_map) (Some (\<lambda>_. 0)) sim_start = Some (STATUS_SUCCESS, h)"
    "sim_flash_ok h" "sim_pages h = (\<lambda>_ _. None)(100 := [0 \<mapsto> (clip MPP_WORDS (area_words demo_map), clip SPARE_WORDS (\<lambda>_. 0))])"
    using sim_flash.program [of sim_start 100 0 "area_words demo_map" "Some (\<lambda>_. 0)"] by (auto simp: sim_mtd_ops)
  then show "sim_flash_ok demo_flash"
    "sim_pages demo_flash = (\<lambda>_ _. None)(100 := [0 \<mapsto> (clip MPP_WORDS (area_words demo_map), clip SPARE_WORDS (\<lambda>_. 0))])"
    by (simp_all add: demo_flash_def)
qed

lemma ubi_demo_fields:
  "mtd ubi_demo = demo_flash" "bufs ubi_demo = buf_start" "total_data_block (anchor_table ubi_demo) = 24"
  "area_index_table (index_table ubi_demo) a = 100" "area_offset_table ubi_demo a = 0"
  "cached_area_number ubi_demo = - 1" "dh_phy_block (dice_hold ubi_demo d) = - 1"
  by (simp_all add: ubi_demo_def ubi_start_def)

lemma demo_area: "b < 24 \<Longrightarrow> AREA_INDEX b = 0 \<and> BLOCK_OFFSET_AREA b = b \<and> unat b < 24"
proof -
  assume "b < 24"
  then have "unat b < 24" by (simp add: word_less_nat_alt)
  then show ?thesis
    by (simp add: AREA_INDEX_def BLOCK_OFFSET_AREA_def word_unat_eq_iff unat_div unat_mod)
qed

lemma demo_phys:
  assumes "b < 24"
  shows "ubi_phys (sim_pages demo_flash) ubi_demo b = 200 + b" "unat (200 + b) = 200 + unat b"
proof -
  have b: "AREA_INDEX b = 0" "BLOCK_OFFSET_AREA b = b" "unat b < 24" using demo_area [OF assms] by simp_all
  show "unat (200 + b) = 200 + unat b" using b(3) by (simp add: unat_word_ariths)
  have "area_page (sim_pages demo_flash) ubi_demo 0 = Some (clip MPP_WORDS (area_words demo_map), clip SPARE_WORDS (\<lambda>_. 0))"
    by (simp add: area_page_def ubi_demo_fields demo_flash_ok(2))
  moreover have "2 * unat b < 1024" using b(3) by simp
  ultimately show "ubi_phys (sim_pages demo_flash) ubi_demo b = 200 + b"
    by (simp add: ubi_phys_def ubi_entry_load b mem_simps area_words_def demo_map_def)
qed

lemma ubi_demo_ok: "sim_ubi_ok ubi_demo" "sim_ubi_pages ubi_demo = (\<lambda>_ _. None)" "ubi_held ubi_demo = None"
    "bufs ubi_demo = buf_start" "UBI_Capacity ubi_demo = 24"
proof -
  have page: "area_page (sim_pages demo_flash) ubi_demo 0 = Some (clip MPP_WORDS (area_words demo_map), clip SPARE_WORDS (\<lambda>_. 0))"
    by (simp add: area_page_def ubi_demo_fields demo_flash_ok(2))
  have less: "200 + b < 2048" "200 + b \<noteq> 100" if "b < 24" for b :: u32
  proof -
    have "unat b < 24" "unat (200 + b) = 200 + unat b" using demo_area [OF that] demo_phys(2) [OF that] by simp_all
    then show "200 + b < 2048" "200 + b \<noteq> 100" by (auto simp: word_less_nat_alt word_unat_eq_iff)
  qed
  have "AREA_INDEX b \<noteq> - 1" if "b < 24" for b :: u32 using demo_area [OF that] by simp
  then have "area_ok (sim_pages demo_flash) ubi_demo b" if "b < 24" for b :: u32
    using that less [OF that] demo_phys(1) [OF that] demo_area [OF that] page
    by (simp add: area_ok_def ubi_demo_fields mem_simps)
  then have "ubi_ok (sim_pages demo_flash) ubi_demo"
    using less demo_phys(1) by (auto simp: ubi_ok_def held_ok_def ubi_demo_fields)
  then show "sim_ubi_ok ubi_demo" by (simp add: sim_ubi_ok_def ubi_demo_fields demo_flash_ok(1))
  show "sim_ubi_pages ubi_demo = (\<lambda>_ _. None)"
    using demo_phys(1) less by (auto simp: sim_ubi_pages_def ubi_pages_def ubi_demo_fields demo_flash_ok(2) fun_eq_iff)
qed (simp_all add: ubi_held_def ubi_demo_fields UBI_Capacity_def)

theorem UBI_Write_Read_witness:
  "\<exists>s1 s2. UBI_Write sim_mtd 17 3 (Some (OtherMem (\<lambda>_. 8))) (Some (\<lambda>_. 2)) True ubi_demo = Some (STATUS_SUCCESS, s1) \<and>
    UBI_Read sim_mtd 17 3 (Some (\<lambda>_. 0)) (Some (\<lambda>_. 0)) s1 =
      Some (STATUS_SUCCESS, Some (memset_words MPP_WORDS 8 (\<lambda>_. 0)), Some (memset_words SPARE_WORDS 2 (\<lambda>_. 0)), s2)"
  using UBI_Write_Read [OF ubi_demo_ok(1), of 17 3 "OtherMem (\<lambda>_. 8)" "\<lambda>_. 2" True "\<lambda>_. 0" "\<lambda>_. 0"]
  by (auto simp: ubi_demo_ok buf_fresh_def buf_live_def deref_def)

end
