(* ===== verification/Ftl_Recovery.thy ===== *)
theory Ftl_Recovery
  imports Ftl_Api Ubi_Store
begin

text \<open>
  What the firmware promises of a page, ftl_api.c over ftl_data.c and ftl_pmt.c: its contents, and its last benign
  version, which page writes under a ransomware tag keep and a recovery read returns.  The page path is proved over
  every layer with the contract \<open>page_store\<close> of Ubi_Store.thy and then taken to the UBI layer, the MTD layer and
  the simulated NAND.  A state is \<open>ftl_ready\<close> with room for \<open>r\<close> pages when both journals have that many erased
  pages before they would be reclaimed, and every version a mapping or a spare word refers to is on the flash; the
  pages considered are those whose mapping cluster is in the RAM cache, so that no commit falls into the session.
\<close>

section \<open>Frames\<close>

text \<open>Updates that leave the cached mapping alone, and those that leave the journals alone.\<close>

definition same_mapping :: "'u ftl_state \<Rightarrow> 'u ftl_state \<Rightarrow> bool" where
  "same_mapping s s' \<longleftrightarrow> pm_cache_base s' = pm_cache_base s \<and> pm_node_caches s' = pm_node_caches s \<and> node_of s' = node_of s"

lemma same_mappingD:
  assumes "same_mapping s s'"
  shows "slot_of s' = slot_of s" "pm_entry s' = pm_entry s" "pmt_cached s' = pmt_cached s" "slots_distinct s' = slots_distinct s"
proof -
  show 1: "slot_of s' = slot_of s" using assms by (intro ext slot_of_cong) (simp_all add: same_mapping_def)
  show "pm_entry s' = pm_entry s" using assms by (simp add: fun_eq_iff pm_entry_def 1 same_mapping_def)
  show "pmt_cached s' = pmt_cached s" "slots_distinct s' = slots_distinct s"
    by (simp_all add: fun_eq_iff pmt_cached_def slots_distinct_def 1)
qed

lemma same_mapping_intros:
  "same_mapping s (s\<lparr>ubi := u\<rparr>)" "same_mapping s (set_meta hot k m s)" "same_mapping s (set_edition hot e s)"
  "same_mapping s (set_journal hot j v s)" "same_mapping s (snd (HDI_IsHotPage a s))"
  by (simp_all add: same_mapping_def set_meta_def set_edition_def set_journal_def HDI_IsHotPage_def node_of_def fun_eq_iff
      split: prod.splits)

lemmas mapping_frames [simp] = same_mapping_intros [THEN same_mappingD(1)] same_mapping_intros [THEN same_mappingD(2)]
  same_mapping_intros [THEN same_mappingD(3)] same_mapping_intros [THEN same_mappingD(4)]

lemma pmt_frames [simp]:
  "pmt_cached (pm_store a e s) = pmt_cached s" "pmt_cached (mark_replaced a bk s) = pmt_cached s"
  "slots_distinct (pm_store a e s) = slots_distinct s" "slots_distinct (mark_replaced a bk s) = slots_distinct s"
  by (simp_all add: fun_eq_iff pmt_cached_def slots_distinct_def)

lemma journal_frames [simp]:
  "journal_of h (s\<lparr>ubi := u\<rparr>) = journal_of h s" "journal_of h (set_meta hot k m s) = journal_of h s"
  "journal_of h (set_edition hot e s) = journal_of h s" "journal_of h (snd (HDI_IsHotPage a s)) = journal_of h s"
  "journal_of h (pm_store a e s) = journal_of h s" "journal_of h (mark_replaced a bk s) = journal_of h s"
  "journal_of h (set_journal hot j v s) = (if h = hot then (journal_of h s)(j := v) else journal_of h s)"
  by (simp_all add: journal_of_def set_meta_def set_edition_def HDI_IsHotPage_def pm_store_def Let_def set_node_def
      mark_replaced_def mark_old_block_def set_dirty_count_def set_journal_def split: prod.splits)

lemma ubi_frames [simp]:
  "ubi (set_meta hot k m s) = ubi s" "ubi (set_edition hot e s) = ubi s" "ubi (snd (HDI_IsHotPage a s)) = ubi s"
  "ubi (pm_store a e s) = ubi s" "ubi (set_journal hot j v s) = ubi s" "f_uninit (snd (HDI_IsHotPage a s)) = f_uninit s"
  by (simp_all add: set_meta_def set_edition_def HDI_IsHotPage_def pm_store_def Let_def set_journal_def split: prod.splits)

lemma edition_frames [simp]: "edition_of h (s\<lparr>ubi := u\<rparr>) = edition_of h s" "meta_of h (s\<lparr>ubi := u\<rparr>) = meta_of h s"
  "edition_of h (set_meta hot k m s) = edition_of h s"
  by (simp_all add: edition_of_def meta_of_def set_meta_def)

section \<open>Versions\<close>

text \<open>
  What the layer promises of a page: its contents and the contents a recovery read gives, the last version
  that was not written under a ransomware tag.
\<close>

definition page_at :: "(u32 \<Rightarrow> u32 \<Rightarrow> (mem \<times> mem) option) \<Rightarrow> PM_NODE_ADDR \<Rightarrow> (mem \<times> mem) option" where
  "page_at pg w = pg (PM_NODE_BLOCK w) (PM_NODE_PAGE w)"

text \<open>A page's contents and its last benign contents.\<close>

definition with_benign :: "(u32 \<Rightarrow> u32 \<Rightarrow> (mem \<times> mem) option) \<Rightarrow> mem \<times> mem \<Rightarrow> mem \<times> mem" where
  "with_benign pg = (\<lambda>(dm, sm). (dm, if sm 2 = INVALID_PM_NODE then dm else fst (the (page_at pg (sm 2)))))"

definition versions :: "('u \<Rightarrow> u32 \<Rightarrow> u32 \<Rightarrow> (mem \<times> mem) option) \<Rightarrow> 'u ftl_state \<Rightarrow> u32 \<Rightarrow> (mem \<times> mem) option" where
  "versions up s a =
     (if pmt_cached s a \<and> pm_entry s a \<noteq> INVALID_PM_NODE
      then map_option (with_benign (up (ubi s))) (page_at (up (ubi s)) (pm_entry s a))
      else None)"

definition version_write :: "u32 \<Rightarrow> bool \<Rightarrow> mem \<Rightarrow> (u32 \<Rightarrow> (mem \<times> mem) option) \<Rightarrow> u32 \<Rightarrow> (mem \<times> mem) option" where
  "version_write a tagged d v = v(a \<mapsto> (d, case v a of Some (_, benign) \<Rightarrow> if tagged then benign else d | None \<Rightarrow> d))"

text \<open>Every version a mapping or a spare word refers to is there.\<close>

definition versions_ok :: "u32 \<Rightarrow> (u32 \<Rightarrow> u32 \<Rightarrow> (mem \<times> mem) option) \<Rightarrow> 'u ftl_state \<Rightarrow> bool" where
  "versions_ok cap pg s \<longleftrightarrow> (\<forall>a. pmt_cached s a \<and> pm_entry s a \<noteq> INVALID_PM_NODE \<longrightarrow>
     PM_NODE_BLOCK (pm_entry s a) < cap \<and>
     (case page_at pg (pm_entry s a) of None \<Rightarrow> False
      | Some (_, sm) \<Rightarrow> sm 2 \<noteq> INVALID_PM_NODE \<longrightarrow> PM_NODE_BLOCK (sm 2) < cap \<and> page_at pg (sm 2) \<noteq> None))"

text \<open>Room for \<open>r\<close> further pages in a journal before a reclaim, all of them erased.\<close>

definition journal_room :: "u32 \<Rightarrow> (u32 \<Rightarrow> u32 \<Rightarrow> (mem \<times> mem) option) \<Rightarrow> nat \<Rightarrow> JOURNAL_ADDR \<Rightarrow> bool" where
  "journal_room cap pg r j \<longleftrightarrow> PM_NODE_BLOCK j < cap \<and> unat (PM_NODE_PAGE j) + r \<le> 62 \<and>
     (\<forall>p < PAGE_PER_PHY_BLOCK. PM_NODE_PAGE j \<le> p \<longrightarrow> pg (PM_NODE_BLOCK j) p = None)"

definition ftl_ready :: "'u ubi_ops \<Rightarrow> ('u \<Rightarrow> bool) \<Rightarrow> ('u \<Rightarrow> u32 \<Rightarrow> u32 \<Rightarrow> (mem \<times> mem) option) \<Rightarrow> nat \<Rightarrow> 'u ftl_state \<Rightarrow> bool" where
  "ftl_ready U uok up r s \<longleftrightarrow> uok (ubi s) \<and> u_Capacity U (ubi s) \<le> CFG_LOG_BLOCK_COUNT \<and> slots_distinct s \<and>
     (\<forall>hot. journal_room (u_Capacity U (ubi s)) (up (ubi s)) r (journal_of hot s 0)) \<and>
     PM_NODE_BLOCK (journal_of True s 0) \<noteq> PM_NODE_BLOCK (journal_of False s 0) \<and>
     versions_ok (u_Capacity U (ubi s)) (up (ubi s)) s"

text \<open>The flash word a tagged write puts in the new page's spare words.\<close>

definition kept_version :: "(u32 \<Rightarrow> u32 \<Rightarrow> (mem \<times> mem) option) \<Rightarrow> 'u ftl_state \<Rightarrow> u32 \<Rightarrow> bool \<Rightarrow> PM_NODE_ADDR" where
  "kept_version pg s a tagged =
     (if tagged \<and> pm_entry s a \<noteq> INVALID_PM_NODE
      then let sm = snd (the (page_at pg (pm_entry s a)))
           in if sm 2 \<noteq> INVALID_PM_NODE then sm 2
              else PM_NODE_SET_BLOCKPAGE (PM_NODE_BLOCK (pm_entry s a)) (PM_NODE_PAGE (pm_entry s a))
      else INVALID_PM_NODE)"

text \<open>The state after the page, with its mapping and journal, is written.\<close>

definition page_written :: "bool \<Rightarrow> u32 \<Rightarrow> mem \<Rightarrow> bool \<Rightarrow> 'u \<Rightarrow> 'u ftl_state \<Rightarrow> 'u ftl_state" where
  "page_written hot addr m isb u s =
     (let j = journal_of hot s 0; block = PM_NODE_BLOCK j; page = PM_NODE_PAGE j
      in set_journal hot 0 (PM_NODE_SET_BLOCKPAGE block (page + 1))
           (pm_store addr (PM_NODE_SET_BLOCKPAGE block page) (mark_replaced addr isb
              (set_edition hot (edition_of hot s + 1) (set_meta hot page m (s\<lparr>ubi := u\<rparr>))))))"

definition same_store :: "'u ubi_ops \<Rightarrow> ('u \<Rightarrow> bool) \<Rightarrow> ('u \<Rightarrow> u32 \<Rightarrow> u32 \<Rightarrow> (mem \<times> mem) option) \<Rightarrow> ('u \<Rightarrow> buf option) \<Rightarrow> 'u \<Rightarrow> 'u \<Rightarrow> bool" where
  "same_store U uok up held u u' \<longleftrightarrow> uok u' \<and> up u' = up u \<and> held u' = held u \<and> u_bufs U u' = u_bufs U u \<and>
     u_Capacity U u' = u_Capacity U u"

lemma same_store_trans: "same_store U uok up held u u' \<Longrightarrow> same_store U uok up held u' u'' \<Longrightarrow> same_store U uok up held u u''"
  by (simp add: same_store_def)

lemma ftl_ready_same:
  assumes "ftl_ready U uok up r s" "same_store U uok up held (ubi s) u"
  shows "ftl_ready U uok up r (s\<lparr>ubi := u\<rparr>)" "versions up (s\<lparr>ubi := u\<rparr>) = versions up s"
proof -
  have "versions_ok c pg (s\<lparr>ubi := u\<rparr>) = versions_ok c pg s" for c pg by (simp add: versions_ok_def)
  then show "ftl_ready U uok up r (s\<lparr>ubi := u\<rparr>)" using assms by (simp add: ftl_ready_def same_store_def)
  show "versions up (s\<lparr>ubi := u\<rparr>) = versions up s" using assms(2) by (intro ext) (simp add: versions_def same_store_def)
qed

lemma PM_NODE_no_minus: "PM_NODE_BLOCK e \<noteq> - 1" "PM_NODE_PAGE e \<noteq> - 1"
proof -
  have "unat (- 1 :: u32) = 4294967295" by (simp add: unsigned_minus_1_eq_mask mask_eq_exp_minus_1)
  moreover have "unat (PM_NODE_BLOCK e) < 16777216" "unat (PM_NODE_PAGE e) < 64"
    using PM_NODE_BLOCK_less [of e] PM_NODE_PAGE_less [of e] by (simp_all add: word_less_nat_alt)
  ultimately show "PM_NODE_BLOCK e \<noteq> - 1" "PM_NODE_PAGE e \<noteq> - 1" by auto
qed

lemma versions_okD:
  assumes "versions_ok cap pg s" "pmt_cached s a" "pm_entry s a \<noteq> - 1"
  shows "\<exists>dm sm. page_at pg (pm_entry s a) = Some (dm, sm) \<and> PM_NODE_BLOCK (pm_entry s a) < cap \<and>
    (sm 2 \<noteq> - 1 \<longrightarrow> PM_NODE_BLOCK (sm 2) < cap \<and> page_at pg (sm 2) \<noteq> None)"
proof -
  have "PM_NODE_BLOCK (pm_entry s a) < cap \<and> (case page_at pg (pm_entry s a) of None \<Rightarrow> False
      | Some (_, sm) \<Rightarrow> sm 2 \<noteq> INVALID_PM_NODE \<longrightarrow> PM_NODE_BLOCK (sm 2) < cap \<and> page_at pg (sm 2) \<noteq> None)"
    using assms unfolding versions_ok_def INVALID_PM_NODE_value by blast
  then show ?thesis by (auto split: option.splits)
qed

lemma data_spare_eq:
  "PM_NODE_BLOCK old \<le> 2048 \<Longrightarrow> \<exists>m'. data_spare a e old True False m = (m', True) \<and> m' 2 = old"
  "\<exists>m'. data_spare a e old False False m = (m', False) \<and> m' 2 = INVALID_PM_NODE"
  by (auto simp: data_spare_def Let_def not_less [symmetric])

context page_store
begin

lemma read_at:
  assumes "uok (ubi s)" "b < u_Capacity U (ubi s)" "p < PAGE_PER_PHY_BLOCK" "upages (ubi s) b p = Some (dm, sm)"
  shows "\<exists>u. ubi_read U b p buf sp s = Some (STATUS_SUCCESS, map_option (memcpy_words MPP_WORDS dm) buf,
     map_option (memcpy_words SPARE_WORDS sm) sp, s\<lparr>ubi := u\<rparr>) \<and> same_store U uok upages held (ubi s) u"
proof -
  from u_read [OF assms] obtain u where "u_Read U b p buf sp (ubi s) = Some (STATUS_SUCCESS, map_option (memcpy_words MPP_WORDS dm) buf,
      map_option (memcpy_words SPARE_WORDS sm) sp, u)" "same_store U uok upages held (ubi s) u"
    unfolding same_store_def by blast
  then show ?thesis by (auto simp: ubi_read_def)
qed

lemma old_version_ok:
  assumes "ftl_ready U uok upages r s" "pmt_cached s a"
  shows "\<exists>old u. data_old_version U a tagged False s = Some (STATUS_SUCCESS, old, tagged \<and> pm_entry s a \<noteq> INVALID_PM_NODE, s\<lparr>ubi := u\<rparr>) \<and>
     same_store U uok upages held (ubi s) u \<and>
     (tagged \<and> pm_entry s a \<noteq> INVALID_PM_NODE \<longrightarrow> old = kept_version (upages (ubi s)) s a tagged \<and>
        PM_NODE_BLOCK old \<le> 2048 \<and> old \<noteq> INVALID_PM_NODE)"
proof -
  have self: "same_store U uok upages held (ubi s) (ubi s)" "s\<lparr>ubi := ubi s\<rparr> = s"
    using assms(1) by (simp_all add: same_store_def ftl_ready_def)
  let ?e = "pm_entry s a"
  have no: "PM_NODE_BLOCK ?e \<noteq> INVALID_BLOCK" "PM_NODE_PAGE ?e \<noteq> INVALID_PAGE"
    by (simp_all add: PM_NODE_no_minus)
  consider "\<not> tagged" | "tagged" "?e = - 1" | "tagged" "?e \<noteq> - 1" by blast
  then show ?thesis
  proof cases
    case 1
    then show ?thesis using self by (intro exI [of _ "f_uninit s 2"] exI [of _ "ubi s"]) (simp add: data_old_version_def)
  next
    case 2
    then show ?thesis using self PMT_Search_cached [OF assms(2), of U "f_uninit s 0" "f_uninit s 1"]
      by (intro exI [of _ "f_uninit s 2"] exI [of _ "ubi s"]) (simp add: data_old_version_def)
  next
    case 3
    have ok: "u_Capacity U (ubi s) \<le> 2048" "uok (ubi s)" "versions_ok (u_Capacity U (ubi s)) (upages (ubi s)) s"
      using assms(1) by (simp_all add: ftl_ready_def)
    from versions_okD [OF ok(3) assms(2) 3(2)] obtain dm sm where page: "page_at (upages (ubi s)) ?e = Some (dm, sm)"
      "sm 2 \<noteq> - 1 \<longrightarrow> PM_NODE_BLOCK (sm 2) < u_Capacity U (ubi s)" "PM_NODE_BLOCK ?e < u_Capacity U (ubi s)" by blast
    from read_at [OF ok(2) page(3) _ page(1) [unfolded page_at_def], of None "Some (f_uninit s)"]
    obtain u where u: "ubi_read U (PM_NODE_BLOCK ?e) (PM_NODE_PAGE ?e) None (Some (f_uninit s)) s =
      Some (STATUS_SUCCESS, None, Some (memcpy_words SPARE_WORDS sm (f_uninit s)), s\<lparr>ubi := u\<rparr>)"
      "same_store U uok upages held (ubi s) u" by auto
    let ?old = "if sm 2 \<noteq> - 1 then sm 2 else PM_NODE_SET_BLOCKPAGE (PM_NODE_BLOCK ?e) (PM_NODE_PAGE ?e)"
    have "data_old_version U a tagged False s = Some (STATUS_SUCCESS, ?old, True, s\<lparr>ubi := u\<rparr>)"
      using 3 no PMT_Search_cached [OF assms(2), of U "f_uninit s 0" "f_uninit s 1"] u(1)
      by (simp add: data_old_version_def Let_def mem_simps)
    moreover have "kept_version (upages (ubi s)) s a tagged = ?old" using 3 page(1) by (simp add: kept_version_def Let_def)
    moreover have "PM_NODE_BLOCK ?old \<le> 2048"
    proof -
      have "PM_NODE_BLOCK ?old < u_Capacity U (ubi s)" using page(2,3) PM_NODE_BLOCK_less [of ?e] by simp
      then show ?thesis using ok(1) by simp
    qed
    ultimately show ?thesis using 3 u(2) by (intro exI [of _ ?old] exI [of _ u]) simp
  qed
qed

lemma idle_loop_ok:
  assumes "uok (ubi s)" "PM_NODE_BLOCK (journal_of hot s 0) < u_Capacity U (ubi s)" "PM_NODE_PAGE (journal_of hot s 0) < 63"
  shows "\<exists>u. data_idle_loop U hot ret 0 s = Some (STATUS_SUCCESS, 0, s\<lparr>ubi := u\<rparr>) \<and> same_store U uok upages held (ubi s) u"
proof -
  from u_read_status [OF assms(1,2)] obtain u where "u_ReadStatus U (PM_NODE_BLOCK (journal_of hot s 0)) (ubi s) = Some (STATUS_SUCCESS, u)"
    "same_store U uok upages held (ubi s) u" unfolding same_store_def by blast
  then show ?thesis using assms(3)
    by (intro exI [of _ u]) (subst data_idle_loop.simps, simp add: upt_rec Let_def ubi_read_status_def)
qed

end

lemma set_ubi_commute:
  "(set_edition hot e (set_meta hot k m (s\<lparr>ubi := u\<rparr>)))\<lparr>ubi := u'\<rparr> = set_edition hot e (set_meta hot k m (s\<lparr>ubi := u'\<rparr>))"
  by (cases hot) (simp_all add: set_edition_def set_meta_def)

lemma next_page:
  assumes "unat (p :: u32) \<le> 61"
  shows "unat (p + 1) = unat p + 1" "p < 63" "p + 1 < 64" "p + 1 \<noteq> 63" "p + 1 < 63"
proof -
  show 1: "unat (p + 1) = unat p + 1" using assms by (simp add: unat_word_ariths)
  show "p < 63" "p + 1 < 64" "p + 1 < 63" using assms by (simp_all add: word_less_nat_alt 1)
  then show "p + 1 \<noteq> 63" by auto
qed

context page_store
begin

lemma DATA_Write_ok:
  fixes s :: "'u ftl_state" and hot tagged :: bool and bf :: buf
  assumes "ftl_ready U uok upages (Suc r) s" "pmt_cached s a" "buf_fresh (u_bufs U (ubi s)) (held (ubi s)) bf"
  defines "block \<equiv> PM_NODE_BLOCK (journal_of hot s 0)" and "page \<equiv> PM_NODE_PAGE (journal_of hot s 0)"
  shows "\<exists>m u. DATA_Write U a (Some bf) hot tagged False s =
      Some (STATUS_SUCCESS, page_written hot a m (tagged \<and> pm_entry s a \<noteq> INVALID_PM_NODE) u s) \<and>
    m 2 = kept_version (upages (ubi s)) s a tagged \<and> uok u \<and> u_Capacity U u = u_Capacity U (ubi s) \<and> held u = Some bf \<and>
    u_bufs U u = buf_done (held (ubi s)) (u_bufs U (ubi s)) \<and>
    upages u = (upages (ubi s))(block := (upages (ubi s) block)
      (page \<mapsto> (clip MPP_WORDS (deref (u_bufs U (ubi s)) bf), clip SPARE_WORDS m)))"
proof -
  let ?isb = "tagged \<and> pm_entry s a \<noteq> INVALID_PM_NODE"
  have room: "journal_room (u_Capacity U (ubi s)) (upages (ubi s)) (Suc r) (journal_of hot s 0)"
    using assms(1) by (simp add: ftl_ready_def)
  then have block: "block < u_Capacity U (ubi s)" "unat page \<le> 61" "upages (ubi s) block page = None"
    by (auto simp: journal_room_def block_def page_def)
  note pg = next_page [OF block(2)]
  have page64: "page < 64" by (simp add: page_def)
  have block24: "block < 0x1000000" unfolding block_def by (rule PM_NODE_BLOCK_less)
  from old_version_ok [OF assms(1,2), of tagged] obtain old u1 where
    old: "data_old_version U a tagged False s = Some (STATUS_SUCCESS, old, ?isb, s\<lparr>ubi := u1\<rparr>)"
      "same_store U uok upages held (ubi s) u1"
      "?isb \<longrightarrow> old = kept_version (upages (ubi s)) s a tagged \<and> PM_NODE_BLOCK old \<le> 2048 \<and> old \<noteq> INVALID_PM_NODE"
    by blast
  have "\<exists>u. data_idle_loop U hot STATUS_SUCCESS 0 (s\<lparr>ubi := u1\<rparr>) = Some (STATUS_SUCCESS, 0, (s\<lparr>ubi := u1\<rparr>)\<lparr>ubi := u\<rparr>) \<and>
      same_store U uok upages held (ubi (s\<lparr>ubi := u1\<rparr>)) u"
    by (rule idle_loop_ok) (use old(2) block(1) pg(2) in \<open>simp_all add: same_store_def block_def page_def\<close>)
  then obtain u2 where idle: "data_idle_loop U hot STATUS_SUCCESS 0 (s\<lparr>ubi := u1\<rparr>) = Some (STATUS_SUCCESS, 0, s\<lparr>ubi := u2\<rparr>)"
    "same_store U uok upages held u1 u2" by auto
  note same_u = same_store_trans [OF old(2) idle(2)]
  obtain m where m: "data_spare a (edition_of hot s) old ?isb False (meta_of hot s page) = (m, ?isb)"
    "m 2 = kept_version (upages (ubi s)) s a tagged"
  proof (cases ?isb)
    case True
    then show ?thesis using that data_spare_eq(1) [of old a "edition_of hot s" "meta_of hot s page"] old(3) by auto
  next
    case False
    then have "kept_version (upages (ubi s)) s a tagged = INVALID_PM_NODE" by (auto simp: kept_version_def)
    then show ?thesis using False that data_spare_eq(2) [of a "edition_of hot s" old "meta_of hot s page"] by (cases ?isb) auto
  qed
  have fresh: "buf_fresh (u_bufs U u2) (held u2) bf" using assms(3) same_u by (simp add: same_store_def)
  have "uok u2" "block < u_Capacity U u2" "upages u2 block page = None" using same_u block by (simp_all add: same_store_def)
  from u_write [OF this(1,2) _ this(3) fresh, of True "Some m"] page64 obtain u where
    u: "u_Write U block page (Some bf) (Some m) True u2 = Some (STATUS_SUCCESS, u)" "uok u" "u_Capacity U u = u_Capacity U u2"
      "held u = Some bf" "u_bufs U u = buf_done (held u2) (u_bufs U u2)"
      "upages u = (upages u2)(block := (upages u2 block)(page \<mapsto> (clip MPP_WORDS (deref (u_bufs U u2) bf), clip SPARE_WORDS m)))"
    by auto
  define s2 where "s2 = set_edition hot (edition_of hot s + 1) (set_meta hot page m (s\<lparr>ubi := u\<rparr>))"
  have wr: "ubi_write U block page bf (Some m) True
      (set_edition hot (edition_of hot s + 1) (set_meta hot page m (s\<lparr>ubi := u2\<rparr>))) = Some (STATUS_SUCCESS, s2)"
    by (simp add: ubi_write_def u(1) set_ubi_commute s2_def)
  have upd: "PMT_Update U a block page ?isb s2 = Some (STATUS_SUCCESS, pm_store a (PM_NODE_SET_BLOCKPAGE block page) (mark_replaced a ?isb s2))"
    using PMT_Update_cached [of s2 a block page U ?isb] assms(2)
    by (simp add: s2_def pm_new_def PM_NODE_no_minus block_def page_def)
  have pw: "page_written hot a m ?isb u s = set_journal hot 0 (PM_NODE_SET_BLOCKPAGE block (page + 1))
      (pm_store a (PM_NODE_SET_BLOCKPAGE block page) (mark_replaced a ?isb s2))"
    by (simp add: page_written_def Let_def s2_def block_def page_def)
  have last: "PM_NODE_PAGE (PM_NODE_SET_BLOCKPAGE block (page + 1)) \<noteq> 63"
    using pg(3,4) block24 by simp
  have "DATA_Write U a (Some bf) hot tagged False s = Some (STATUS_SUCCESS, page_written hot a m ?isb u s)"
    unfolding pw using old(1) idle(1) m(1) wr upd last
    by (simp add: DATA_Write_def block_def [symmetric] page_def [symmetric] Let_def)
  then show ?thesis using u(2-6) m(2) same_u by (intro exI [of _ m] exI [of _ u]) (simp add: same_store_def)
qed

end

lemma page_written_ubi [simp]: "ubi (page_written hot a m isb u s) = u"
  by (simp add: page_written_def Let_def)

lemma page_written_journal:
  "journal_of h (page_written hot a m isb u s) 0 =
     (if h = hot then PM_NODE_SET_BLOCKPAGE (PM_NODE_BLOCK (journal_of hot s 0)) (PM_NODE_PAGE (journal_of hot s 0) + 1)
      else journal_of h s 0)"
  by (simp add: page_written_def Let_def)

lemma page_written_mapping:
  "pmt_cached (page_written hot a m isb u s) = pmt_cached s" "slots_distinct (page_written hot a m isb u s) = slots_distinct s"
  "slots_distinct s \<Longrightarrow> pmt_cached s a \<Longrightarrow> pmt_cached s a' \<Longrightarrow> pm_entry (page_written hot a m isb u s) a' =
     (if a' = a then PM_NODE_SET_BLOCKPAGE (PM_NODE_BLOCK (journal_of hot s 0)) (PM_NODE_PAGE (journal_of hot s 0)) else pm_entry s a')"
  by (simp_all add: page_written_def Let_def pm_entry_store)

text \<open>A page programmed at an erased place changes no page that is there.\<close>

lemma page_at_program:
  assumes "pg b p = None"
  shows "page_at pg w \<noteq> None \<Longrightarrow> page_at (pg(b := (pg b)(p \<mapsto> x))) w = page_at pg w"
    and "page_at (pg(b := (pg b)(p \<mapsto> x))) w = None \<Longrightarrow> page_at pg w = None"
  using assms by (auto simp: page_at_def split: if_splits)

lemma journal_room_program:
  assumes "pg (PM_NODE_BLOCK j) (PM_NODE_PAGE j) = None" "journal_room cap pg (Suc r) j"
  shows "journal_room cap (pg(PM_NODE_BLOCK j := (pg (PM_NODE_BLOCK j))(PM_NODE_PAGE j \<mapsto> x))) r (PM_NODE_SET_BLOCKPAGE (PM_NODE_BLOCK j) (PM_NODE_PAGE j + 1))"
proof -
  have "unat (PM_NODE_PAGE j) \<le> 61" using assms(2) by (simp add: journal_room_def)
  note pg = next_page [OF this]
  have jb: "PM_NODE_BLOCK (PM_NODE_SET_BLOCKPAGE (PM_NODE_BLOCK j) (PM_NODE_PAGE j + 1)) = PM_NODE_BLOCK j"
    "PM_NODE_PAGE (PM_NODE_SET_BLOCKPAGE (PM_NODE_BLOCK j) (PM_NODE_PAGE j + 1)) = PM_NODE_PAGE j + 1"
    using pg(3) PM_NODE_BLOCK_less [of j] by simp_all
  have "PM_NODE_PAGE j \<le> p \<and> p \<noteq> PM_NODE_PAGE j" if "PM_NODE_PAGE j + 1 \<le> p" for p
    using that pg(1) by (auto simp: word_le_nat_alt)
  then show ?thesis
    using assms(2) pg(1) unfolding journal_room_def jb by auto
qed

lemma journal_room_other:
  "journal_room cap pg (Suc r) j \<Longrightarrow> PM_NODE_BLOCK j \<noteq> b \<Longrightarrow> journal_room cap (pg(b := y)) r j"
  by (simp add: journal_room_def)

text \<open>The state a write leaves: the versions are those of the abstract write, and one page less is free.\<close>

lemma versions_page_written:
  fixes s :: "'u ftl_state" and hot tagged isb :: bool and u :: 'u and m :: mem
  assumes ready: "ftl_ready U uok up (Suc r) s" and a: "pmt_cached s a"
    and m: "m 2 = kept_version (up (ubi s)) s a tagged"
    and u: "uok u" "u_Capacity U u = u_Capacity U (ubi s)"
      "up u = (up (ubi s))(PM_NODE_BLOCK (journal_of hot s 0) := (up (ubi s) (PM_NODE_BLOCK (journal_of hot s 0)))
        (PM_NODE_PAGE (journal_of hot s 0) \<mapsto> (d, clip SPARE_WORDS m)))"
  defines "s' \<equiv> page_written hot a m isb u s"
  shows "ftl_ready U uok up r s'" "versions up s' = version_write a tagged d (versions up s)"
proof -
  define pg pg' b p where d: "pg = up (ubi s)" "pg' = up u" "b = PM_NODE_BLOCK (journal_of hot s 0)" "p = PM_NODE_PAGE (journal_of hot s 0)"
  note pg' = u(3) [folded d]
  have sd: "slots_distinct s" and vok: "versions_ok (u_Capacity U (ubi s)) pg s"
    and room: "\<And>h. journal_room (u_Capacity U (ubi s)) pg (Suc r) (journal_of h s 0)"
    and diff: "PM_NODE_BLOCK (journal_of True s 0) \<noteq> PM_NODE_BLOCK (journal_of False s 0)"
    using ready by (simp_all add: ftl_ready_def d)
  have b: "b < u_Capacity U (ubi s)" "b < 0x1000000" "p < 64" "pg b p = None"
    using room [of hot] PM_NODE_BLOCK_less by (simp_all add: journal_room_def d)
  have keep: "page_at pg' w = page_at pg w" if "page_at pg w \<noteq> None" for w
    using page_at_program(1) [of pg b p, OF b(4) that] by (simp add: pg')
  note entry = page_written_mapping(3) [OF sd a, of _ hot m isb u, folded s'_def d]
  have cached: "pmt_cached s' = pmt_cached s" "slots_distinct s'" using sd by (simp_all add: s'_def page_written_mapping)
  have entry_a: "pm_entry s' a = PM_NODE_SET_BLOCKPAGE b p" "PM_NODE_BLOCK (pm_entry s' a) = b" "PM_NODE_PAGE (pm_entry s' a) = p"
    using entry [OF a] b by simp_all
  have at_a: "page_at pg' (pm_entry s' a) = Some (d, clip SPARE_WORDS m)" by (simp add: page_at_def entry_a(2,3) pg')
  have old: "\<exists>dm sm. page_at pg (pm_entry s x) = Some (dm, sm) \<and> PM_NODE_BLOCK (pm_entry s x) < u_Capacity U (ubi s) \<and>
      (sm 2 \<noteq> - 1 \<longrightarrow> PM_NODE_BLOCK (sm 2) < u_Capacity U (ubi s) \<and> page_at pg (sm 2) \<noteq> None)"
    if "pmt_cached s x" "pm_entry s x \<noteq> - 1" for x
    using versions_okD [OF vok that] .
  have kept: "m 2 = - 1 \<and> \<not> (tagged \<and> pm_entry s a \<noteq> - 1) \<or> tagged \<and> pm_entry s a \<noteq> - 1 \<and> m 2 \<noteq> - 1 \<and> PM_NODE_BLOCK (m 2) < u_Capacity U (ubi s) \<and>
      page_at pg (m 2) \<noteq> None \<and> fst (the (page_at pg (m 2))) = snd (with_benign pg (the (page_at pg (pm_entry s a))))"
  proof (cases "tagged \<and> pm_entry s a \<noteq> - 1")
    case True
    from old [OF a] True obtain dm sm where o: "page_at pg (pm_entry s a) = Some (dm, sm)" "PM_NODE_BLOCK (pm_entry s a) < u_Capacity U (ubi s)"
      "sm 2 \<noteq> - 1 \<longrightarrow> PM_NODE_BLOCK (sm 2) < u_Capacity U (ubi s) \<and> page_at pg (sm 2) \<noteq> None" by blast
    have bp: "PM_NODE_BLOCK (pm_entry s a) < 0x1000000" by (rule PM_NODE_BLOCK_less)
    have "page_at pg (PM_NODE_SET_BLOCKPAGE (PM_NODE_BLOCK (pm_entry s a)) (PM_NODE_PAGE (pm_entry s a))) = Some (dm, sm)"
      using o(1) bp by (simp add: page_at_def)
    then show ?thesis using True o bp by (auto simp: m d [symmetric] kept_version_def with_benign_def)
  next
    case False
    then show ?thesis by (auto simp: m kept_version_def)
  qed
  have us: "up (ubi s') = pg'" by (simp add: s'_def d)
  have m2: "clip 4 m 2 = m 2" by (simp add: mem_simps)
  have "versions_ok (u_Capacity U u) pg' s'"
    unfolding versions_ok_def
  proof (intro allI impI, elim conjE)
    fix x assume x: "pmt_cached s' x" "pm_entry s' x \<noteq> INVALID_PM_NODE"
    show "PM_NODE_BLOCK (pm_entry s' x) < u_Capacity U u \<and> (case page_at pg' (pm_entry s' x) of None \<Rightarrow> False
      | Some (_, sm) \<Rightarrow> sm 2 \<noteq> INVALID_PM_NODE \<longrightarrow> PM_NODE_BLOCK (sm 2) < u_Capacity U u \<and> page_at pg' (sm 2) \<noteq> None)"
    proof (cases "x = a")
      case True
      then show ?thesis using kept b(1) keep [of "m 2"] by (auto simp: at_a entry_a(2) u(2) m2)
    next
      case False
      then have e: "pm_entry s' x = pm_entry s x" using entry x(1) by (simp add: cached)
      from old [of x] x obtain dm sm where o: "page_at pg (pm_entry s x) = Some (dm, sm)" "PM_NODE_BLOCK (pm_entry s x) < u_Capacity U (ubi s)"
        "sm 2 \<noteq> - 1 \<longrightarrow> PM_NODE_BLOCK (sm 2) < u_Capacity U (ubi s) \<and> page_at pg (sm 2) \<noteq> None" by (auto simp: e cached)
      have "page_at pg' (pm_entry s x) = Some (dm, sm)" using keep [of "pm_entry s x"] o(1) by simp
      then show ?thesis using o(2,3) keep [of "sm 2"] by (auto simp: e u(2))
    qed
  qed
  moreover have "journal_room (u_Capacity U u) pg' r (journal_of h s' 0)" for h
  proof (cases "h = hot")
    case True
    then show ?thesis using journal_room_program [of pg "journal_of hot s 0"] b(4) room [of hot]
      by (simp add: s'_def page_written_journal u(2) pg' d [symmetric])
  next
    case False
    then have "PM_NODE_BLOCK (journal_of h s 0) \<noteq> b" using diff by (cases h; cases hot) (simp_all add: d)
    then show ?thesis using journal_room_other [OF room [of h]] False by (simp add: s'_def page_written_journal u(2) pg')
  qed
  moreover have "PM_NODE_BLOCK (journal_of True s' 0) \<noteq> PM_NODE_BLOCK (journal_of False s' 0)"
  proof -
    have "unat (PM_NODE_PAGE (journal_of hot s 0)) \<le> 61" using room [of hot] by (simp add: journal_room_def)
    note pg = next_page(3) [OF this]
    have "PM_NODE_BLOCK (journal_of h s' 0) = PM_NODE_BLOCK (journal_of h s 0)" for h
      using pg PM_NODE_BLOCK_less [of "journal_of hot s 0"] by (simp add: s'_def page_written_journal)
    then show ?thesis using diff by simp
  qed
  ultimately show "ftl_ready U uok up r s'"
    using ready u(1,2) cached(2) by (simp add: ftl_ready_def s'_def d)
  show "versions up s' = version_write a tagged d (versions up s)"
  proof
    fix x
    show "versions up s' x = version_write a tagged d (versions up s) x"
    proof (cases "x = a")
      case True
      have "versions up s' a = Some (with_benign pg' (d, clip SPARE_WORDS m))"
        using a at_a entry_a(1) by (simp add: versions_def cached us)
      moreover have "with_benign pg' (d, clip SPARE_WORDS m) = (d, if m 2 = - 1 then d else fst (the (page_at pg (m 2))))"
        using kept keep [of "m 2"] by (auto simp: with_benign_def m2)
      moreover have "versions up s a = (if pm_entry s a \<noteq> - 1 then Some (with_benign pg (the (page_at pg (pm_entry s a)))) else None)"
        using a old [OF a] by (auto simp: versions_def d)
      ultimately show ?thesis using True kept by (auto simp: version_write_def split: prod.splits)
    next
      case False
      have "versions up s' x = versions up s x"
      proof (cases "pmt_cached s x \<and> pm_entry s x \<noteq> - 1")
        case True
        with False have e: "pm_entry s' x = pm_entry s x" using entry by (simp add: cached)
        from old True obtain dm sm where o: "page_at pg (pm_entry s x) = Some (dm, sm)" "sm 2 \<noteq> - 1 \<longrightarrow> page_at pg (sm 2) \<noteq> None"
          by blast
        have "page_at pg' (pm_entry s x) = Some (dm, sm)" using keep [of "pm_entry s x"] o(1) by simp
        moreover have "with_benign pg' (dm, sm) = with_benign pg (dm, sm)" using o(2) keep [of "sm 2"] by (auto simp: with_benign_def)
        ultimately show ?thesis using o(1) True by (simp add: versions_def e cached us d(1) [symmetric])
      next
        case F: False
        then show ?thesis using False entry [of x] by (auto simp: versions_def cached)
      qed
      with False show ?thesis by (simp add: version_write_def)
    qed
  qed
qed

context page_store
begin

lemma FTL_Write_versions:
  assumes "ftl_ready U uok upages (Suc r) s" "pmt_cached s a" "buf_fresh (u_bufs U (ubi s)) (held (ubi s)) bf"
  shows "\<exists>s'. FTL_Write U a (Some bf) tagged False s = Some (STATUS_SUCCESS, s') \<and> ftl_ready U uok upages r s' \<and>
     versions upages s' = version_write a tagged (clip MPP_WORDS (deref (u_bufs U (ubi s)) bf)) (versions upages s) \<and>
     pmt_cached s' = pmt_cached s \<and> held (ubi s') = Some bf \<and> u_bufs U (ubi s') = buf_done (held (ubi s)) (u_bufs U (ubi s))"
proof -
  obtain hot sh where h: "HDI_IsHotPage a s = (hot, sh)" by (cases "HDI_IsHotPage a s")
  then have sh: "sh = snd (HDI_IsHotPage a s)" by simp
  have frame: "ubi sh = ubi s" "pmt_cached sh = pmt_cached s" "pm_entry sh = pm_entry s" "slots_distinct sh = slots_distinct s"
    "journal_of j sh = journal_of j s" for j by (simp_all add: sh)
  have ready: "ftl_ready U uok upages (Suc r) sh" and vers: "versions upages sh = versions upages s"
    using assms(1) by (simp_all add: ftl_ready_def frame versions_ok_def versions_def fun_eq_iff)
  from DATA_Write_ok [OF ready, of a bf hot tagged] assms(2,3) obtain m u where
    w: "DATA_Write U a (Some bf) hot tagged False sh =
      Some (STATUS_SUCCESS, page_written hot a m (tagged \<and> pm_entry sh a \<noteq> INVALID_PM_NODE) u sh)"
    "m 2 = kept_version (upages (ubi sh)) sh a tagged" "uok u" "u_Capacity U u = u_Capacity U (ubi sh)" "held u = Some bf"
    "u_bufs U u = buf_done (held (ubi s)) (u_bufs U (ubi s))"
    "upages u = (upages (ubi sh))(PM_NODE_BLOCK (journal_of hot sh 0) := (upages (ubi sh) (PM_NODE_BLOCK (journal_of hot sh 0)))
      (PM_NODE_PAGE (journal_of hot sh 0) \<mapsto> (clip MPP_WORDS (deref (u_bufs U (ubi s)) bf), clip SPARE_WORDS m)))"
    by (auto simp: frame)
  define s' where "s' = page_written hot a m (tagged \<and> pm_entry sh a \<noteq> INVALID_PM_NODE) u sh"
  note v = versions_page_written [OF ready _ w(2-4) w(7), of "tagged \<and> pm_entry sh a \<noteq> INVALID_PM_NODE", folded s'_def]
  have ok: "ftl_ready U uok upages r s'" using v(1) assms(2) by (simp add: frame)
  then have room: "unat (PM_NODE_PAGE (journal_of hot s' 0)) + r \<le> 62"
    unfolding ftl_ready_def journal_room_def by blast
  then have "\<not> DATA_IsFull hot s'" by (simp add: DATA_IsFull_def upt_rec word_less_nat_alt)
  then have "FTL_Write U a (Some bf) tagged False s = Some (STATUS_SUCCESS, s')"
    using w(1) by (simp add: FTL_Write_def h s'_def ftl_reclaim_if_full_def)
  then show ?thesis
    using ok v(2) assms(2) w(5,6) by (intro exI [of _ s']) (simp add: frame vers, simp add: s'_def page_written_mapping frame)
qed

lemma FTL_Read_versions:
  assumes "ftl_ready U uok upages r s" "versions upages s a = Some (cur, benign)"
  shows "\<exists>u. FTL_Read U a (Some m) recovery False s =
       Some (STATUS_SUCCESS, Some (memcpy_words MPP_WORDS (if recovery then benign else cur) m), s\<lparr>ubi := u\<rparr>) \<and>
     same_store U uok upages held (ubi s) u"
proof -
  let ?e = "pm_entry s a" and ?pg = "upages (ubi s)"
  have c: "pmt_cached s a" "?e \<noteq> - 1" using assms(2) by (auto simp: versions_def split: if_splits)
  have ok: "uok (ubi s)" "versions_ok (u_Capacity U (ubi s)) ?pg s" using assms(1) by (simp_all add: ftl_ready_def)
  from versions_okD [OF ok(2) c] obtain sm where p: "page_at ?pg ?e = Some (cur, sm)" "PM_NODE_BLOCK ?e < u_Capacity U (ubi s)"
    "sm 2 \<noteq> - 1 \<longrightarrow> PM_NODE_BLOCK (sm 2) < u_Capacity U (ubi s) \<and> page_at ?pg (sm 2) \<noteq> None"
    "benign = (if sm 2 = - 1 then cur else fst (the (page_at ?pg (sm 2))))"
    using assms(2) c by (auto simp: versions_def with_benign_def)
  note search = PMT_Search_cached [OF c(1), of U "f_uninit s 0" "f_uninit s 1"]
  show ?thesis
  proof (cases recovery)
    case False
    from read_at [OF ok(1) p(2) _ p(1) [unfolded page_at_def], of "Some m" None] obtain u where
      "ubi_read U (PM_NODE_BLOCK ?e) (PM_NODE_PAGE ?e) (Some m) None s =
        Some (STATUS_SUCCESS, Some (memcpy_words MPP_WORDS cur m), None, s\<lparr>ubi := u\<rparr>)" "same_store U uok upages held (ubi s) u" by auto
    then show ?thesis using False c(2) search by (intro exI [of _ u]) (simp add: FTL_Read_def)
  next
    case True
    from read_at [OF ok(1) p(2) _ p(1) [unfolded page_at_def], of None "Some (f_uninit s)"] obtain u1 where
      u1: "ubi_read U (PM_NODE_BLOCK ?e) (PM_NODE_PAGE ?e) None (Some (f_uninit s)) s =
        Some (STATUS_SUCCESS, None, Some (memcpy_words SPARE_WORDS sm (f_uninit s)), s\<lparr>ubi := u1\<rparr>)"
      "same_store U uok upages held (ubi s) u1" by auto
    define w where "w = (if sm 2 = - 1 then ?e else sm 2)"
    obtain sw where w: "page_at ?pg w = Some (benign, sw)" "PM_NODE_BLOCK w < u_Capacity U (ubi s)"
      using p by (cases "sm 2 = - 1") (auto simp: w_def)
    have "\<exists>u. ubi_read U (PM_NODE_BLOCK w) (PM_NODE_PAGE w) (Some m) None (s\<lparr>ubi := u1\<rparr>) =
        Some (STATUS_SUCCESS, map_option (memcpy_words MPP_WORDS benign) (Some m), map_option (memcpy_words SPARE_WORDS sw) None, (s\<lparr>ubi := u1\<rparr>)\<lparr>ubi := u\<rparr>) \<and>
        same_store U uok upages held (ubi (s\<lparr>ubi := u1\<rparr>)) u"
      by (rule read_at) (use u1(2) w in \<open>simp_all add: same_store_def page_at_def\<close>)
    then obtain u where u: "ubi_read U (PM_NODE_BLOCK w) (PM_NODE_PAGE w) (Some m) None (s\<lparr>ubi := u1\<rparr>) =
        Some (STATUS_SUCCESS, Some (memcpy_words MPP_WORDS benign m), None, s\<lparr>ubi := u\<rparr>)" "same_store U uok upages held u1 u" by auto
    have "FTL_Read U a (Some m) recovery False s = Some (STATUS_SUCCESS, Some (memcpy_words MPP_WORDS benign m), s\<lparr>ubi := u\<rparr>)"
      using True c(2) search u1(1) u(1)
      by (cases "sm 2 = - 1") (simp_all add: FTL_Read_def ftl_read_backup_def PM_NODE_no_minus mem_simps w_def Let_def)
    then show ?thesis using True same_store_trans [OF u1(2) u(2)] by auto
  qed
qed

lemma set_bufs_ready:
  assumes "ftl_ready U uok upages r s" "case held (ubi s) of None \<Rightarrow> True | Some q \<Rightarrow> buf_live bs q"
  defines "s' \<equiv> s\<lparr>ubi := u_set_bufs U bs (ubi s)\<rparr>"
  shows "ftl_ready U uok upages r s'" "versions upages s' = versions upages s" "pmt_cached s' = pmt_cached s"
proof -
  have "uok (ubi s)" using assms(1) by (simp add: ftl_ready_def)
  note b = u_bufs_set [OF this assms(2)]
  have "versions_ok c pg s' = versions_ok c pg s" for c pg by (simp add: versions_ok_def s'_def)
  then show "ftl_ready U uok upages r s'" using assms(1) b by (simp add: ftl_ready_def s'_def)
  show "versions upages s' = versions upages s" using b by (intro ext) (simp add: versions_def s'_def)
  show "pmt_cached s' = pmt_cached s" by (simp add: s'_def)
qed

end

section \<open>Runs\<close>

text \<open>
  The steps of a session on cached pages: a page write, tagged or not, a page read, plain or recovery, and
  whatever the sector interface does to the page buffers in between.
\<close>

datatype page_op = PageWrite u32 bool mem | PageRead u32 bool | FillBuffers

inductive page_step :: "'u ubi_ops \<Rightarrow> ('u \<Rightarrow> buf option) \<Rightarrow> 'u ftl_state \<Rightarrow> page_op \<Rightarrow> 'u ftl_state \<Rightarrow> bool"
  for U held where
  step_write: "pmt_cached s a \<Longrightarrow> buf_fresh (u_bufs U (ubi s)) (held (ubi s)) bf \<Longrightarrow>
     FTL_Write U a (Some bf) tagged False s = Some (STATUS_SUCCESS, s') \<Longrightarrow>
     page_step U held s (PageWrite a tagged (clip MPP_WORDS (deref (u_bufs U (ubi s)) bf))) s'"
| step_read: "pmt_cached s a \<Longrightarrow> pm_entry s a \<noteq> INVALID_PM_NODE \<Longrightarrow>
     FTL_Read U a (Some m) recovery False s = Some (STATUS_SUCCESS, m', s') \<Longrightarrow> page_step U held s (PageRead a recovery) s'"
| step_fill: "(case held (ubi s) of None \<Rightarrow> True | Some q \<Rightarrow> buf_live bs q) \<Longrightarrow>
     page_step U held s FillBuffers (s\<lparr>ubi := u_set_bufs U bs (ubi s)\<rparr>)"

inductive_cases page_writeE: "page_step U held s (PageWrite a tagged d) s'"
inductive_cases page_readE: "page_step U held s (PageRead a recovery) s'"
inductive_cases fill_buffersE: "page_step U held s FillBuffers s'"

inductive page_run :: "'u ubi_ops \<Rightarrow> ('u \<Rightarrow> buf option) \<Rightarrow> 'u ftl_state \<Rightarrow> page_op list \<Rightarrow> 'u ftl_state \<Rightarrow> bool"
  for U held where
  run_none: "page_run U held s [] s"
| run_step: "page_step U held s op s1 \<Longrightarrow> page_run U held s1 ops s' \<Longrightarrow> page_run U held s (op # ops) s'"

inductive_simps page_run_simps: "page_run U held s [] s'" "page_run U held s (op # ops) s'"

fun op_pages :: "page_op list \<Rightarrow> nat" where
  "op_pages [] = 0"
| "op_pages (PageWrite a tagged d # ops) = Suc (op_pages ops)"
| "op_pages (_ # ops) = op_pages ops"

fun apply_op :: "page_op \<Rightarrow> (u32 \<Rightarrow> (mem \<times> mem) option) \<Rightarrow> u32 \<Rightarrow> (mem \<times> mem) option" where
  "apply_op (PageWrite a tagged d) v = version_write a tagged d v"
| "apply_op _ v = v"

fun benign_write :: "u32 \<Rightarrow> page_op \<Rightarrow> bool" where
  "benign_write a (PageWrite a' tagged d) \<longleftrightarrow> a' = a \<and> \<not> tagged"
| "benign_write a _ \<longleftrightarrow> False"

lemma apply_op_benign:
  assumes "v a = Some (cur, benign)" "\<not> (\<exists>op \<in> set ops. benign_write a op)"
  shows "\<exists>cur. fold apply_op ops v a = Some (cur, benign)"
  using assms
proof (induction ops arbitrary: v cur)
  case Nil
  then show ?case by simp
next
  case (Cons op ops)
  have "\<exists>cur. apply_op op v a = Some (cur, benign)"
    using Cons.prems by (cases op) (auto simp: version_write_def)
  then obtain cur1 where "apply_op op v a = Some (cur1, benign)" by blast
  from Cons.IH [of "apply_op op v", OF this] Cons.prems(2) show ?case by simp
qed

fun op_of_write :: "u32 \<times> bool \<times> mem \<Rightarrow> page_op" where
  "op_of_write (a, tagged, d) = PageWrite a tagged (clip MPP_WORDS d)"

lemma op_pages_writes [simp]: "op_pages (map op_of_write ws) = length ws"
  by (induction ws) auto

context page_store
begin

lemma page_step_versions:
  assumes "page_step U held s op s'" "ftl_ready U uok upages (r + op_pages [op]) s"
  shows "ftl_ready U uok upages r s' \<and> versions upages s' = apply_op op (versions upages s)"
proof (cases op)
  case (PageWrite a tagged d)
  with assms(1) obtain bf where w: "d = clip MPP_WORDS (deref (u_bufs U (ubi s)) bf)" "pmt_cached s a"
    "buf_fresh (u_bufs U (ubi s)) (held (ubi s)) bf" "FTL_Write U a (Some bf) tagged False s = Some (STATUS_SUCCESS, s')"
    by (auto elim: page_writeE)
  from FTL_Write_versions [OF _ w(2,3), of r tagged] assms(2) w(4) show ?thesis by (auto simp: PageWrite w(1))
next
  case (PageRead a recovery)
  with assms(1) obtain m m' where rd: "pmt_cached s a" "pm_entry s a \<noteq> - 1"
    "FTL_Read U a (Some m) recovery False s = Some (STATUS_SUCCESS, m', s')" by (auto elim: page_readE)
  have ready: "ftl_ready U uok upages r s" using assms(2) by (simp add: PageRead)
  then have "versions_ok (u_Capacity U (ubi s)) (upages (ubi s)) s" by (simp add: ftl_ready_def)
  from versions_okD [OF this rd(1,2)] have "versions upages s a \<noteq> None" using rd(1,2) by (auto simp: versions_def)
  then obtain cur benign where "versions upages s a = Some (cur, benign)" by auto
  from FTL_Read_versions [OF ready this, of m recovery] rd(3) obtain u where
    "s' = s\<lparr>ubi := u\<rparr>" "same_store U uok upages held (ubi s) u" by auto
  with ftl_ready_same [OF ready] show ?thesis by (simp add: PageRead)
next
  case FillBuffers
  with assms show ?thesis by (auto elim!: fill_buffersE simp: set_bufs_ready)
qed

lemma page_run_versions:
  assumes "page_run U held s ops s'" "ftl_ready U uok upages (r + op_pages ops) s"
  shows "ftl_ready U uok upages r s' \<and> versions upages s' = fold apply_op ops (versions upages s)"
  using assms
proof (induction arbitrary: r rule: page_run.induct)
  case (run_step s op s1 ops s')
  have "r + op_pages (op # ops) = r + op_pages ops + op_pages [op]" by (cases op) simp_all
  with run_step.prems page_step_versions [OF run_step.hyps(1)] have
    "ftl_ready U uok upages (r + op_pages ops) s1 \<and> versions upages s1 = apply_op op (versions upages s)" by metis
  with run_step.IH [of r] show ?case by simp
qed simp

lemma writes_run:
  assumes "ftl_ready U uok upages (r + length ws) s" "list_all (\<lambda>(a, tagged, d). pmt_cached s a) ws"
  shows "\<exists>s'. page_run U held s (map op_of_write ws) s' \<and> ftl_ready U uok upages r s' \<and> pmt_cached s' = pmt_cached s"
  using assms
proof (induction ws arbitrary: s)
  case Nil
  then show ?case by (auto simp: page_run_simps)
next
  case (Cons w ws)
  obtain a tagged d where w: "w = (a, tagged, d)" by (cases w)
  have fresh: "buf_fresh (u_bufs U (ubi s)) (held (ubi s)) (OtherMem d)" by (simp add: buf_fresh_def buf_live_def)
  from FTL_Write_versions [of "r + length ws" s a "OtherMem d" tagged] Cons.prems fresh obtain s1 where
    s1: "FTL_Write U a (Some (OtherMem d)) tagged False s = Some (STATUS_SUCCESS, s1)" "ftl_ready U uok upages (r + length ws) s1"
    "pmt_cached s1 = pmt_cached s" by (auto simp: w)
  have "page_step U held s (PageWrite a tagged (clip MPP_WORDS (deref (u_bufs U (ubi s)) (OtherMem d)))) s1"
    using Cons.prems(2) fresh s1(1) by (intro step_write) (simp_all add: w)
  then have "page_step U held s (op_of_write w) s1" by (simp add: w deref_def)
  moreover from Cons.IH [OF s1(2)] Cons.prems(2) obtain s' where
    "page_run U held s1 (map op_of_write ws) s'" "ftl_ready U uok upages r s'" "pmt_cached s' = pmt_cached s1" by (auto simp: s1(3))
  ultimately show ?case using s1(3) by (auto simp: page_run_simps)
qed

end

section \<open>The FTL over the simulated flash\<close>

abbreviation sim_ready :: "nat \<Rightarrow> sim_state ubi_state ftl_state \<Rightarrow> bool" where
  "sim_ready \<equiv> ftl_ready sim_ubi sim_ubi_ok sim_ubi_pages"

abbreviation sim_versions :: "sim_state ubi_state ftl_state \<Rightarrow> u32 \<Rightarrow> (mem \<times> mem) option" where
  "sim_versions \<equiv> versions sim_ubi_pages"

text \<open>C4: A page write of the FTL refines the abstract write of a page with two versions: with room for a page in the
  journals and the page's mapping cached, writing a page always succeeds, the page's contents become the data
  written, its benign version stays under a ransomware tag and becomes the data otherwise, no other page changes
  either version, and one page less of room is left. The whole path below is the firmware's: UBI, MTD and the
  simulated NAND.\<close>

theorem FTL_Write_refines:
  assumes "sim_ready (Suc r) s" "pmt_cached s a" "buf_fresh (bufs (ubi s)) (ubi_held (ubi s)) bf"
  shows "\<exists>s'. FTL_Write sim_ubi a (Some bf) tagged False s = Some (STATUS_SUCCESS, s') \<and> sim_ready r s' \<and>
     sim_versions s' = version_write a tagged (clip MPP_WORDS (deref (bufs (ubi s)) bf)) (sim_versions s)"
  using sim_store.FTL_Write_versions [OF assms(1,2), of bf tagged] assms(3) by (auto simp: sim_ubi_def ubi_over_select)

text \<open>C5: A page read returns the page's contents, a recovery read its benign version, and neither changes any version.\<close>

theorem FTL_Read_refines:
  assumes "sim_ready r s" "sim_versions s a = Some (cur, benign)"
  shows "\<exists>s'. FTL_Read sim_ubi a (Some m) recovery False s =
       Some (STATUS_SUCCESS, Some (memcpy_words MPP_WORDS (if recovery then benign else cur) m), s') \<and>
     sim_ready r s' \<and> sim_versions s' = sim_versions s"
proof -
  from sim_store.FTL_Read_versions [OF assms, of m recovery] obtain u where u:
    "FTL_Read sim_ubi a (Some m) recovery False s =
       Some (STATUS_SUCCESS, Some (memcpy_words MPP_WORDS (if recovery then benign else cur) m), s\<lparr>ubi := u\<rparr>)"
    "same_store sim_ubi sim_ubi_ok sim_ubi_pages ubi_held (ubi s) u" by blast
  with ftl_ready_same [OF assms(1) u(2)] show ?thesis by blast
qed

text \<open>Whatever a session of page writes, reads and buffer changes does, as long as the journals have room for its
  writes, the FTL stays ready and both versions of every page are those of the abstract writes in order.\<close>

theorem FTL_session_versions:
  assumes "page_run sim_ubi ubi_held s ops s'" "sim_ready (r + op_pages ops) s"
  shows "sim_ready r s' \<and> sim_versions s' = fold apply_op ops (sim_versions s)"
  using sim_store.page_run_versions [OF assms] .

lemma recovered:
  assumes "page_run sim_ubi ubi_held s ops s'" "sim_ready (r + op_pages ops) s" "sim_versions s a = Some (cur, benign)"
    and "list_all (\<lambda>op. \<not> benign_write a op) ops"
  shows "\<exists>s''. FTL_Read sim_ubi a (Some m) True False s' = Some (STATUS_SUCCESS, Some (memcpy_words MPP_WORDS benign m), s'')"
proof -
  note v = sim_store.page_run_versions [OF assms(1,2)]
  have "\<not> (\<exists>op \<in> set ops. benign_write a op)" using assms(4) by (auto simp: list_all_iff)
  from apply_op_benign [of "sim_versions s", OF assms(3) this] obtain c where "sim_versions s' a = Some (c, benign)" using v by auto
  from sim_store.FTL_Read_versions [OF conjunct1 [OF v] this, of m True] show ?thesis by auto
qed

text \<open>C3: The promise of the firmware: after any session of page writes, reads and buffer changes that fits the room of the journals (at
  most 62 pages are left after a change of journal; no reclaim, no commit of the mapping) and has no benign write to a page, so
  any number of writes to it under the ransomware tag within that room and any traffic on other pages, a recovery read of the page
  returns its last benign version.\<close>

theorem recovery_after_attack:
  assumes "page_run sim_ubi ubi_held s ops s'" "sim_ready (r + op_pages ops) s" "sim_versions s a = Some (cur, benign)"
    and "list_all (\<lambda>op. \<not> benign_write a op) ops"
  shows "\<exists>s''. FTL_Read sim_ubi a (Some m) True False s' = Some (STATUS_SUCCESS, Some (memcpy_words MPP_WORDS benign m), s'')"
  by (rule recovered [OF assms])


section \<open>A small FTL\<close>

text \<open>The device of \<open>ubi_demo\<close> with journals in blocks 16 and 17, and cluster 0 of the mapping cached.\<close>

definition ftl_demo :: "sim_state ubi_state ftl_state" where
  "ftl_demo = set_journal True 0 (PM_NODE_SET_BLOCKPAGE 16 0) (set_journal False 0 (PM_NODE_SET_BLOCKPAGE 17 0) (pmt_demo ubi_demo))"

lemma ftl_demo_mapping: "pmt_cached ftl_demo a \<longleftrightarrow> CLUSTER_INDEX a = 0" "slots_distinct ftl_demo"
    "pmt_cached ftl_demo a \<Longrightarrow> pm_entry ftl_demo a = - 1"
  by (simp_all add: ftl_demo_def pmt_demo_ok pm_entry_def) (simp add: pmt_demo_def)

lemma ftl_demo_ready: "sim_ready 62 ftl_demo"
proof -
  have u: "ubi ftl_demo = ubi_demo" by (simp add: ftl_demo_def) (simp add: pmt_demo_def ftl_start_def)
  have j: "journal_of h ftl_demo 0 = (if h then PM_NODE_SET_BLOCKPAGE 16 0 else PM_NODE_SET_BLOCKPAGE 17 0)" for h
    by (cases h) (simp_all add: ftl_demo_def)
  have "u_Capacity sim_ubi ubi_demo = 24" using ubi_demo_ok(5) by (simp add: sim_ubi_def ubi_over_def)
  moreover have "versions_ok c pg ftl_demo" for c pg
    using ftl_demo_mapping(3) by (auto simp: versions_ok_def)
  ultimately show ?thesis
    by (simp add: ftl_ready_def u j journal_room_def ubi_demo_ok(1,2) ftl_demo_mapping(2))
qed


lemma ftl_demo_versions: "sim_versions ftl_demo = (\<lambda>_. None)"
proof
  fix a
  show "sim_versions ftl_demo a = None" using ftl_demo_mapping(3) [of a] by (cases "pmt_cached ftl_demo a") (simp_all add: versions_def)
qed

text \<open>A run of writes from the demo state.\<close>

lemma demo_run:
  assumes "length ws \<le> 62" "list_all (\<lambda>(a, tagged, d). CLUSTER_INDEX a = 0) ws"
  shows "\<exists>s'. page_run sim_ubi ubi_held ftl_demo (map op_of_write ws) s' \<and> sim_ready (62 - length ws) s' \<and>
     sim_versions s' = fold apply_op (map op_of_write ws) (\<lambda>_. None) \<and> pmt_cached s' = pmt_cached ftl_demo"
proof -
  have r: "sim_ready (62 - length ws + length ws) ftl_demo" using assms(1) ftl_demo_ready by simp
  have c: "list_all (\<lambda>(a, tagged, d). pmt_cached ftl_demo a) ws" using assms(2) by (simp add: ftl_demo_mapping(1))
  from sim_store.writes_run [OF r c] obtain s' where s': "page_run sim_ubi ubi_held ftl_demo (map op_of_write ws) s'"
    "pmt_cached s' = pmt_cached ftl_demo" by blast
  with sim_store.page_run_versions [OF s'(1), of "62 - length ws"] r ftl_demo_versions show ?thesis by auto
qed

theorem FTL_Write_refines_witness:
  "\<exists>s'. FTL_Write sim_ubi 5 (Some (OtherMem (\<lambda>_. 8))) True False ftl_demo = Some (STATUS_SUCCESS, s') \<and>
     sim_versions s' 5 = Some (clip MPP_WORDS (\<lambda>_. 8), clip MPP_WORDS (\<lambda>_. 8))"
proof -
  have r: "sim_ready (Suc 61) ftl_demo" using ftl_demo_ready by simp
  have c: "pmt_cached ftl_demo 5" by (simp add: ftl_demo_mapping(1) CLUSTER_INDEX_def)
  show ?thesis
    using FTL_Write_refines [OF r c, of "OtherMem (\<lambda>_. 8)" True] ftl_demo_versions
    by (auto simp: buf_fresh_def buf_live_def deref_def version_write_def)
qed

theorem FTL_Read_refines_witness:
  "\<exists>s s'. page_run sim_ubi ubi_held ftl_demo [PageWrite 5 False (clip MPP_WORDS (\<lambda>_. 7)), PageWrite 5 True (clip MPP_WORDS (\<lambda>_. 9))] s \<and>
     FTL_Read sim_ubi 5 (Some (\<lambda>_. 0)) True False s = Some (STATUS_SUCCESS, Some (memcpy_words MPP_WORDS (clip MPP_WORDS (\<lambda>_. 7)) (\<lambda>_. 0)), s')"
proof -
  from demo_run [of "[(5, False, \<lambda>_. 7), (5, True, \<lambda>_. 9)]"] obtain s where
    s: "page_run sim_ubi ubi_held ftl_demo [PageWrite 5 False (clip MPP_WORDS (\<lambda>_. 7)), PageWrite 5 True (clip MPP_WORDS (\<lambda>_. 9))] s"
      "sim_ready 60 s" "sim_versions s 5 = Some (clip MPP_WORDS (\<lambda>_. 9), clip MPP_WORDS (\<lambda>_. 7))"
    by (auto simp: CLUSTER_INDEX_def version_write_def)
  from FTL_Read_refines [OF s(2,3), of "\<lambda>_. 0" True] s(1) show ?thesis by auto
qed

theorem FTL_session_versions_witness:
  "\<exists>s. page_run sim_ubi ubi_held ftl_demo [PageWrite 5 False (clip MPP_WORDS (\<lambda>_. 7)), PageWrite 6 True (clip MPP_WORDS (\<lambda>_. 9))] s \<and>
     sim_ready 60 s \<and> sim_versions s 6 = Some (clip MPP_WORDS (\<lambda>_. 9), clip MPP_WORDS (\<lambda>_. 9))"
proof -
  from demo_run [of "[(5, False, \<lambda>_. 7), (6, True, \<lambda>_. 9)]"] obtain s where
    s: "page_run sim_ubi ubi_held ftl_demo [PageWrite 5 False (clip MPP_WORDS (\<lambda>_. 7)), PageWrite 6 True (clip MPP_WORDS (\<lambda>_. 9))] s"
    by (auto simp: CLUSTER_INDEX_def)
  from FTL_session_versions [OF s, of 60] ftl_demo_ready ftl_demo_versions s show ?thesis by (auto simp: version_write_def)
qed

theorem recovery_after_attack_witness:
  "\<exists>s s' s''. page_run sim_ubi ubi_held ftl_demo [PageWrite 5 False (clip MPP_WORDS (\<lambda>_. 7))] s \<and>
     page_run sim_ubi ubi_held s [PageWrite 5 True (clip MPP_WORDS (\<lambda>_. 9)), PageWrite 5 True (clip MPP_WORDS (\<lambda>_. 10))] s' \<and>
     FTL_Read sim_ubi 5 (Some (\<lambda>_. 0)) True False s' = Some (STATUS_SUCCESS, Some (memcpy_words MPP_WORDS (clip MPP_WORDS (\<lambda>_. 7)) (\<lambda>_. 0)), s'')"
proof -
  from demo_run [of "[(5, False, \<lambda>_. 7)]"] obtain s where
    s: "page_run sim_ubi ubi_held ftl_demo [PageWrite 5 False (clip MPP_WORDS (\<lambda>_. 7))] s"
      "sim_ready 61 s" "sim_versions s 5 = Some (clip MPP_WORDS (\<lambda>_. 7), clip MPP_WORDS (\<lambda>_. 7))" "pmt_cached s 5"
    by (auto simp: CLUSTER_INDEX_def version_write_def ftl_demo_mapping(1))
  let ?ws = "[(5, True, \<lambda>_. 9), (5, True, \<lambda>_. 10)] :: (u32 \<times> bool \<times> mem) list"
  have "sim_ready (59 + length ?ws) s" using s(2) by simp
  from sim_store.writes_run [OF this] s(4) obtain s' where
    s': "page_run sim_ubi ubi_held s [PageWrite 5 True (clip MPP_WORDS (\<lambda>_. 9)), PageWrite 5 True (clip MPP_WORDS (\<lambda>_. 10))] s'"
    by auto
  from recovery_after_attack [OF s' _ s(3), of 59 "\<lambda>_. 0"] s(1,2) s' show ?thesis by auto
qed


section \<open>Capacity\<close>

text \<open>C30: For every number of blocks that UBI can offer and the FTL can use (19 to 2048) the capacity does not wrap: it is
  63 pages for each block left after the reserved ones and the over-provisioning of 3 in 100; its mapping fits the
  table of clusters, so that the assertion of \<open>PMT_Format\<close> holds, and the blocks of the mapping; and at least three data
  blocks remain beyond a full disk.\<close>

theorem FTL_Capacity_bounds:
  assumes "19 \<le> u_Capacity U (ubi s)" "u_Capacity U (ubi s) \<le> CFG_LOG_BLOCK_COUNT"
  shows "unat (FTL_Capacity U s) = (unat (u_Capacity U (ubi s)) - 19 - 3 * ((unat (u_Capacity U (ubi s)) - 19) div 100)) * 63 \<and>
    (FTL_Capacity U s + PM_PER_NODE - 1) div PM_PER_NODE < MAX_PM_CLUSTERS \<and>
    unat ((FTL_Capacity U s + PM_PER_NODE - 1) div PM_PER_NODE) \<le> unat PMT_BLOCK_COUNT * 63 \<and>
    unat (FTL_Capacity U s) + 3 * 63 \<le> length (data_blocks U s) * 63"
proof -
  define c where "c = unat (u_Capacity U (ubi s))"
  have c: "19 \<le> c" "c \<le> 2048" using assms by (simp_all add: c_def word_le_nat_alt)
  define b where "b = c - 19"
  have cap: "u_Capacity U (ubi s) = of_nat c" by (simp add: c_def)
  have sub: "(of_nat c - 19 :: u32) = of_nat b" using c(1) by (simp add: b_def of_nat_diff)
  have b: "b \<le> 2029" using c(2) by (simp add: b_def)
  define p where "p = b - b div 100 * 3"
  have "FTL_Capacity U s = (of_nat b - of_nat b div 100 * 3) * 63"
    by (simp add: FTL_Capacity_def cap sub [symmetric] Let_def)
  also have "(of_nat b :: u32) div 100 = of_nat (b div 100)" using b by (simp add: word_unat_eq_iff unat_div unat_of_nat)
  also have "of_nat b - of_nat (b div 100) * 3 = (of_nat p :: u32)" by (simp add: p_def of_nat_diff)
  finally have f: "FTL_Capacity U s = of_nat (p * 63)" by simp
  have p: "p * 63 \<le> 127827" using b by (simp add: p_def)
  then have u: "unat (FTL_Capacity U s) = p * 63" unfolding f by (simp add: unat_of_nat del: of_nat_mult)
  have cl: "unat ((FTL_Capacity U s + PM_PER_NODE - 1) div PM_PER_NODE) = (p * 63 + 1023) div 1024"
    using u p by (simp add: unat_div unat_word_ariths)
  have "length (data_blocks U s) = c - 16" by (simp add: data_blocks_def upto_u32_def c_def)
  moreover have "p + 3 \<le> c - 16" using c(1) by (simp add: p_def b_def)
  ultimately have "p * 63 + 3 * 63 \<le> length (data_blocks U s) * 63" by simp
  moreover have "(p * 63 + 1023) div 1024 \<le> 125" using p by simp
  ultimately show ?thesis using u cl unfolding word_less_nat_alt cl u c_def [symmetric] by (simp add: p_def b_def mult.commute)
qed

theorem FTL_Capacity_bounds_witness: "unat (FTL_Capacity sim_ubi ftl_demo) = 315"
proof -
  have "u_Capacity sim_ubi (ubi ftl_demo) = 24"
    using ubi_demo_ok(5) by (simp add: ftl_demo_def) (simp add: pmt_demo_def ftl_start_def sim_ubi_def ubi_over_def)
  then show ?thesis using FTL_Capacity_bounds [of sim_ubi ftl_demo] by simp
qed

end
