(* ===== verification/Ssd_Read.thy ===== *)
theory Ssd_Read
  imports Msc Ftl_Recovery
begin

text \<open>
  The SSD's whole path of a READ command of aligned pages: the command arrives at the bulk endpoint (\<open>MSC_BulkOut\<close>), the handler
  puts a task into the ring, the main loop runs it through \<open>ONFM_Read\<close> and the FTL, the next request of the host finds the buffer full
  (\<open>MSC_BulkInNak\<close>), and the end of its transfer asks for the next page or sends the status (\<open>MSC_BulkIn\<close>). The events come in this
  order because the host waits for each.
\<close>

section \<open>The run of a command\<close>

text \<open>The pages of a command: a round of the main loop, the host's request, the end of the transfer.\<close>

fun ssd_pages :: "'u ubi_ops \<Rightarrow> nat \<Rightarrow> 'u device_state \<Rightarrow> (u8 list \<times> 'u device_state) option" where
  "ssd_pages U 0 d = Some ([], d)"
| "ssd_pages U (Suc n) d = do {
     d \<leftarrow> usb_user_task_step U d;
     let data = map (bytes_of (Read_BulkBuf (msc d))) [0..<unat (Read_BulkLen (msc d))];
     m \<leftarrow> MSC_BulkIn (MSC_BulkInNak (msc d));
     (rest, d) \<leftarrow> ssd_pages U n (d\<lparr>msc := m\<rparr>);
     Some (data @ rest, d) }"

text \<open>A command of \<open>n\<close> pages, up to the transfer of its status. The controller stores the command in the CBW.\<close>

definition ssd_read :: "'u ubi_ops \<Rightarrow> MSC_CBW \<Rightarrow> nat \<Rightarrow> 'u device_state \<Rightarrow> (u8 list \<times> 'u device_state) option" where
  "ssd_read U c n d = do {
     m \<leftarrow> MSC_BulkOut MSC_CBW_SIZE ((msc d)\<lparr>CBW := c\<rparr>);
     (data, d) \<leftarrow> ssd_pages U n (d\<lparr>msc := m\<rparr>);
     m \<leftarrow> MSC_BulkIn (msc d);
     Some (data, d\<lparr>msc := m\<rparr>) }"

section \<open>Its states\<close>

text \<open>Between commands nothing is in the ring and a command is expected; \<open>cap\<close> is the number of sectors.\<close>

definition msc_idle :: "u32 \<Rightarrow> msc_state \<Rightarrow> bool" where
  "msc_idle cap m \<longleftrightarrow> BulkStage m = MSC_BS_CBW \<and> ring_ok m \<and> ring_tasks m = [] \<and> DevStatusFS2HS m \<and> MSC_BlockCount m = cap"

text \<open>The read of page \<open>p\<close> is in the ring, and \<open>n\<close> pages follow it.\<close>

definition serving :: "u32 \<Rightarrow> nat \<Rightarrow> nat \<Rightarrow> u8 \<Rightarrow> msc_state \<Rightarrow> bool" where
  "serving cap p n tag m \<longleftrightarrow> BulkStage m = MSC_BS_DATA_IN \<and> ring_ok m \<and> DevStatusFS2HS m \<and> MSC_BlockCount m = cap \<and>
     ring_tasks m = [\<lparr>ut_type = UT_READ, ut_offset = of_nat (8 * p), ut_length = SECTOR_PER_MPP, ut_buffer = UtReadBuf, ut_tag = tag\<rparr>] \<and>
     Read_BulkLen m = 0 \<and> Offset m = of_nat (8 * (p + 1)) \<and> Length m = of_nat (8 * n) \<and> CB (CBW m) 0 = SCSI_READ10 \<and> CB (CBW m) 6 = tag"

text \<open>A READ(10) of \<open>n\<close> pages from page \<open>p\<close>, as the host fills it in.\<close>

definition page_read_command :: "MSC_CBW \<Rightarrow> nat \<Rightarrow> nat \<Rightarrow> bool" where
  "page_read_command c p n \<longleftrightarrow> cbw_dSignature c = MSC_CBW_Signature \<and> bmFlags c = 0x80 \<and> bLUN c = 0 \<and> bCBLength c = 10 \<and>
     CB c 0 = SCSI_READ10 \<and> be32 (CB c 2) (CB c 3) (CB c 4) (CB c 5) = of_nat (8 * p) \<and> be32 0 0 (CB c 7) (CB c 8) = of_nat (8 * n) \<and>
     dDataLength c = of_nat (4096 * n)"

lemma sectors_unat: "q < 2 ^ 29 \<Longrightarrow> unat (of_nat (8 * q) :: u32) = 8 * q"
  by (simp add: unat_of_nat del: of_nat_mult)

lemma sectors_page: "q < 2 ^ 29 \<Longrightarrow> (of_nat (8 * q) :: u32) mod SECTOR_PER_MPP = 0 \<and> drop_bit SECTOR_PER_MPP_SHIFT (of_nat (8 * q) :: u32) = of_nat q"
proof -
  assume q: "q < 2 ^ 29"
  have "unat ((of_nat (8 * q) :: u32) mod 8) = 0" by (simp only: unat_mod sectors_unat [OF q]) simp
  moreover have "unat (drop_bit 3 (of_nat (8 * q) :: u32)) = unat (of_nat q :: u32)"
    unfolding unat_drop_bit_eq sectors_unat [OF q] using q by (simp add: drop_bit_eq_div unat_of_nat)
  ultimately show ?thesis by (simp add: word_unat_eq_iff del: of_nat_mult)
qed

lemma MSC_MemoryRead_serving:
  assumes "ring_ok m" "ring_tasks m = []" "BulkStage m = MSC_BS_DATA_IN" "DevStatusFS2HS m" "MSC_BlockCount m = cap"
    and "Offset m = of_nat (8 * p)" "Length m = of_nat (8 * Suc n)" "CB (CBW m) 0 = SCSI_READ10" "CB (CBW m) 6 = tag"
    and "p + Suc n < 2 ^ 29" "8 * (p + 1) \<le> unat cap"
  shows "\<exists>m'. MSC_MemoryRead m = Some m' \<and> serving cap p n tag m'"
proof -
  let ?t = "\<lparr>ut_type = UT_READ, ut_offset = of_nat (8 * p), ut_length = 8, ut_buffer = UtReadBuf, ut_tag = tag\<rparr> :: USB_TRANSCATION"
  have p: "p < 2 ^ 29" "p + 1 < 2 ^ 29" "Suc n < 2 ^ 29" using assms(10) by simp_all
  have a: "Offset m mod 8 = 0" using sectors_page [OF p(1)] assms(6) by simp
  have l: "min 8 (Length m) = 8"
  proof -
    have "unat (8 :: u32) \<le> unat (Length m)" unfolding assms(7) sectors_unat [OF p(3)] by simp
    then show ?thesis by (simp add: word_le_nat_alt min_def)
  qed
  have o8: "Offset m + 8 = of_nat (8 * (p + 1))" by (simp add: assms(6) algebra_simps)
  have c: "\<not> cap < Offset m + 8" unfolding o8 word_less_nat_alt sectors_unat [OF p(2)] using assms(11) by simp
  have l8: "Length m - 8 = of_nat (8 * n)" by (simp add: assms(7) algebra_simps)
  have r: "ring_length m < 7" using ring_empty [OF assms(1,2)] by simp
  define m1 where "m1 = m\<lparr>ut_list := (ut_list m)(ut_push m := ?t), ut_push := (ut_push m + 1) mod UT_LIST_SIZE\<rparr>"
  have put: "ut_put ?t m = Some m1" using ut_put_eq [OF assms(1), of ?t] r by (simp add: m1_def)
  have ok: "ring_ok m1" "ring_tasks m1 = [?t]" using ring_tasks_put [OF assms(1) r, of ?t] assms(2) by (simp_all add: m1_def)
  define m2 where "m2 = m1\<lparr>Read_BulkLen := 0, Offset := Offset m + 8, Length := Length m - 8,
      CSW := (CSW m)\<lparr>dDataResidue := dDataResidue (CSW m) - 8 * 512\<rparr>\<rparr>"
  have "MSC_MemoryRead m = Some m2"
    using assms(4,5,6,9) a l c put by (simp add: MSC_MemoryRead_def m2_def m1_def Let_def)
  moreover have "ring_ok m2" "ring_tasks m2 = [?t]"
    using ok by (simp_all add: m2_def ring_ok_def ring_tasks_def ring_length_def)
  moreover have "BulkStage m2 = MSC_BS_DATA_IN" "DevStatusFS2HS m2" "MSC_BlockCount m2 = cap" "CBW m2 = CBW m"
    using assms(3-5) by (simp_all add: m2_def m1_def)
  moreover have "Read_BulkLen m2 = 0" "Offset m2 = of_nat (8 * (p + 1))" "Length m2 = of_nat (8 * n)"
    using o8 l8 by (simp_all add: m2_def del: of_nat_mult of_nat_add mult_Suc_right add_mult_distrib2)
  ultimately show ?thesis using assms(8,9) by (intro exI [of _ m2]) (simp add: serving_def del: of_nat_mult of_nat_add mult_Suc_right add_mult_distrib2)
qed

text \<open>The start of a command.\<close>

lemma MSC_BulkOut_read:
  assumes "msc_idle cap m" "page_read_command c p (Suc n)" "p + Suc n < 2 ^ 29" "8 * (p + Suc n) \<le> unat cap" "Suc n \<le> 8191"
  shows "\<exists>m'. MSC_BulkOut MSC_CBW_SIZE (m\<lparr>CBW := c\<rparr>) = Some m' \<and> serving cap p n (CB c 6) m'"
proof -
  note c = assms(2) [unfolded page_read_command_def]
  define m1 where "m1 = m\<lparr>CBW := c, BulkLen := 31, CSW := (CSW m)\<lparr>csw_dTag := cbw_dTag c, dDataResidue := dDataLength c\<rparr>,
    Offset := of_nat (8 * p), Length := of_nat (8 * Suc n), BulkStage := MSC_BS_DATA_IN\<rparr>"
  have len: "rw_length (CB c) x = of_nat (8 * Suc n)" for x
  proof -
    have "rw_length (CB c) x = be32 0 0 (CB c 7) (CB c 8)" using c by (simp add: rw_length_def be32_def)
    then show ?thesis using c by simp
  qed
  have d: "dDataLength c = of_nat (8 * Suc n) * 512" "dDataLength c \<noteq> 0"
  proof -
    show "dDataLength c = of_nat (8 * Suc n) * 512" using c by simp
    have "unat (of_nat (4096 * Suc n) :: u32) = 4096 * Suc n" 
    proof -
      have "4096 * Suc n < 2 ^ 32" using assms(5) by simp
      then show ?thesis by (simp only: unat_of_nat len_of_numeral_defs mod_less) (simp add: mod_less)
    qed
    then have "of_nat (4096 * Suc n) \<noteq> (0 :: u32)" by (metis unat_0 mult_eq_0_iff numeral_neq_zero nat.distinct(2))
    then show "dDataLength c \<noteq> 0" using c by simp
  qed
  have in_dir: "(0x80 :: u8) \<noteq> 0" by simp
  have "MSC_BulkOut MSC_CBW_SIZE (m\<lparr>CBW := c\<rparr>) = msc_read_command (m\<lparr>CBW := c, BulkLen := 31,
      CSW := (CSW m)\<lparr>csw_dTag := cbw_dTag c, dDataResidue := dDataLength c\<rparr>\<rparr>)"
    using assms(1) c by (simp add: MSC_BulkOut_def MSC_GetCBW_def msc_command_def msc_idle_def Let_def)
  also have "\<dots> = MSC_MemoryRead m1"
    using c d in_dir by (simp add: msc_read_command_def MSC_RWSetup_def len cbw_in_def m1_def Let_def del: of_nat_mult of_nat_Suc mult_Suc_right)
  finally have e: "MSC_BulkOut MSC_CBW_SIZE (m\<lparr>CBW := c\<rparr>) = MSC_MemoryRead m1" .
  have r: "ring_ok m1" "ring_tasks m1 = []" using assms(1) by (simp_all add: m1_def msc_idle_def ring_ok_def ring_tasks_def ring_length_def)
  have "\<exists>m'. MSC_MemoryRead m1 = Some m' \<and> serving cap p n (CB c 6) m'"
    by (rule MSC_MemoryRead_serving [OF r]) (use assms c in \<open>simp_all add: m1_def msc_idle_def\<close>)
  then show ?thesis by (simp only: e)
qed

text \<open>The end of a page's transfer: the next page, or the status.\<close>

lemma MSC_BulkIn_next:
  fixes b :: mem
  assumes "serving cap p n tag m" "p + Suc n < 2 ^ 29" "8 * (p + Suc n) \<le> unat cap"
  defines "m1 \<equiv> ring_pop (m\<lparr>Read_BulkBuf := b, Read_BulkLen := MPP_SIZE\<rparr>)"
  shows "\<exists>m'. MSC_BulkIn (MSC_BulkInNak m1) = Some m' \<and>
    (case n of Suc k \<Rightarrow> serving cap (p + 1) k tag m'
     | 0 \<Rightarrow> BulkStage m' = MSC_BS_CSW \<and> ring_ok m' \<and> ring_tasks m' = [] \<and> DevStatusFS2HS m' \<and> MSC_BlockCount m' = cap)"
proof -
  note s = assms(1) [unfolded serving_def]
  have s1: "ring_ok (m\<lparr>Read_BulkBuf := b, Read_BulkLen := MPP_SIZE\<rparr>)" "ring_tasks (m\<lparr>Read_BulkBuf := b, Read_BulkLen := MPP_SIZE\<rparr>) = ring_tasks m"
    using s by (simp_all add: ring_ok_def ring_tasks_def ring_length_def)
  have r: "ring_ok m1" "ring_tasks m1 = []" using ring_tasks_pop [OF s1(1)] s s1(2) by (simp_all add: m1_def)
  have f: "BulkStage m1 = MSC_BS_DATA_IN" "DevStatusFS2HS m1" "MSC_BlockCount m1 = cap" "Offset m1 = of_nat (8 * (p + 1))"
    "Length m1 = of_nat (8 * n)" "CB (CBW m1) 0 = SCSI_READ10" "CB (CBW m1) 6 = tag" "Read_BulkLen m1 = 4096"
    using s by (simp_all add: m1_def ring_pop_def)
  show ?thesis
  proof (cases n)
    case 0
    define m2 where "m2 = MSC_SetCSW (MSC_BulkInNak m1)"
    have "MSC_BulkIn (MSC_BulkInNak m1) = Some m2" using f(1,5,8) 0 by (simp add: MSC_BulkIn_def MSC_BulkInNak_def m2_def usb_request_def set_status_def)
    moreover have "ring_ok m2" "ring_tasks m2 = []" "BulkStage m2 = MSC_BS_CSW" "DevStatusFS2HS m2" "MSC_BlockCount m2 = cap"
      using r f by (simp_all add: m2_def MSC_BulkInNak_def MSC_SetCSW_def usb_request_def set_status_def ring_ok_def ring_tasks_def ring_length_def Let_def)
    ultimately show ?thesis by (simp add: 0)
  next
    case (Suc k)
    have "Length m1 \<noteq> 0"
    proof -
      have "n < 2 ^ 29" using assms(2) by simp
      then have "unat (Length m1) = 8 * n" unfolding f(5) by (rule sectors_unat)
      then show ?thesis using Suc by auto
    qed
    then have n: "MSC_BulkInNak m1 = usb_request (WriteData 4096) m1" using f(1,8) by (simp add: MSC_BulkInNak_def usb_request_def)
    have r2: "ring_ok (usb_request (WriteData 4096) m1)" "ring_tasks (usb_request (WriteData 4096) m1) = []"
      using r by (simp_all add: usb_request_def ring_ok_def ring_tasks_def ring_length_def)
    have i: "MSC_BulkIn (MSC_BulkInNak m1) = MSC_MemoryRead (usb_request (WriteData 4096) m1)"
      using f(1,6) by (simp add: n MSC_BulkIn_def usb_request_def)
    have "\<exists>m'. MSC_MemoryRead (usb_request (WriteData 4096) m1) = Some m' \<and> serving cap (p + 1) k tag m'"
      by (rule MSC_MemoryRead_serving [OF r2]) (use f assms(2,3) Suc in \<open>simp_all add: usb_request_def\<close>)
    then show ?thesis by (simp add: i Suc)
  qed
qed

section \<open>What a command returns\<close>

lemma bytes_of_memcpy: "k < 4096 \<Longrightarrow> bytes_of (memcpy_words MPP_WORDS v d) k = bytes_of v k"
proof (rule bytes_of_cong)
  assume "k < 4096"
  then have "k div 4 < 1024" by (simp add: less_mult_imp_div_less)
  then show "memcpy_words MPP_WORDS v d (k div 4) = v (k div 4)" by (simp add: memcpy_words_def)
qed

text \<open>The state after the last page.\<close>

definition msc_done :: "u32 \<Rightarrow> msc_state \<Rightarrow> bool" where
  "msc_done cap m \<longleftrightarrow> BulkStage m = MSC_BS_CSW \<and> ring_ok m \<and> ring_tasks m = [] \<and> DevStatusFS2HS m \<and> MSC_BlockCount m = cap"

lemma ssd_page_version:
  assumes "serving cap p n tag (msc d)" "p + Suc n < 2 ^ 29" "8 * (p + Suc n) \<le> unat cap" "\<not> mft_bits tag"
    and "sim_ready r (ftl (onfm d))" "sim_versions (ftl (onfm d)) (of_nat p) = Some (cur, benign)"
  shows "\<exists>d1 m. usb_user_task_step sim_ubi d = Some d1 \<and>
    map (bytes_of (Read_BulkBuf (msc d1))) [0..<unat (Read_BulkLen (msc d1))] = map (bytes_of (if recover_bits tag then benign else cur)) [0..<4096] \<and>
    MSC_BulkIn (MSC_BulkInNak (msc d1)) = Some m \<and> (case n of Suc k \<Rightarrow> serving cap (p + 1) k tag m | 0 \<Rightarrow> msc_done cap m) \<and>
    sim_ready r (ftl (onfm d1)) \<and> sim_versions (ftl (onfm d1)) = sim_versions (ftl (onfm d))"
proof -
  let ?v = "if recover_bits tag then benign else cur"
  note s = assms(1) [unfolded serving_def]
  have p: "p < 2 ^ 29" using assms(2) by simp
  have t: "ut_list (msc d) (ut_pop (msc d)) = \<lparr>ut_type = UT_READ, ut_offset = of_nat (8 * p), ut_length = SECTOR_PER_MPP, ut_buffer = UtReadBuf, ut_tag = tag\<rparr>"
    "ut_pop (msc d) \<noteq> ut_push (msc d)"
    using s ring_tasks_pop [of "msc d"] by blast+
  from sim_store.FTL_Read_versions [OF assms(5,6), of "Read_BulkBuf (msc d)" "recover_bits tag"] obtain u where
    u: "FTL_Read sim_ubi (of_nat p) (Some (Read_BulkBuf (msc d))) (recover_bits tag) False (ftl (onfm d)) =
        Some (STATUS_SUCCESS, Some (memcpy_words MPP_WORDS ?v (Read_BulkBuf (msc d))), (ftl (onfm d))\<lparr>ubi := u\<rparr>)"
      "same_store sim_ubi sim_ubi_ok sim_ubi_pages ubi_held (ubi (ftl (onfm d))) u" by blast
  define m1 where "m1 = ring_pop ((msc d)\<lparr>Read_BulkBuf := memcpy_words MPP_WORDS ?v (Read_BulkBuf (msc d)), Read_BulkLen := MPP_SIZE\<rparr>)"
  define d1 where "d1 = d\<lparr>onfm := (onfm d)\<lparr>ftl := (ftl (onfm d))\<lparr>ubi := u\<rparr>\<rparr>, msc := m1\<rparr>"
  have a: "(of_nat (8 * p) :: u32) mod SECTOR_PER_MPP = 0" "drop_bit SECTOR_PER_MPP_SHIFT (of_nat (8 * p) :: u32) = of_nat p" using sectors_page [OF p] by simp_all
  have b: "Read_BulkLen (msc d) = 0" "mft_bits tag = False" using s assms(4) by simp_all
  have step: "usb_user_task_step sim_ubi d = Some d1"
    unfolding user_read_page [OF t b(1) a(1)] a(2) b(2) u(1) by (simp add: d1_def m1_def)
  have "map (bytes_of (Read_BulkBuf m1)) [0..<unat (Read_BulkLen m1)] = map (bytes_of ?v) [0..<4096]"
    using bytes_of_memcpy by (simp add: m1_def ring_pop_def)
  moreover note MSC_BulkIn_next [OF assms(1-3), of "memcpy_words MPP_WORDS ?v (Read_BulkBuf (msc d))", folded m1_def]
  moreover have "sim_ready r (ftl (onfm d1))" "sim_versions (ftl (onfm d1)) = sim_versions (ftl (onfm d))"
    using ftl_ready_same [OF assms(5) u(2)] by (simp_all add: d1_def)
  ultimately show ?thesis using step by (cases n) (auto simp: d1_def msc_done_def)
qed

lemma ssd_pages_versions:
  assumes "serving cap p n tag (msc d)" "p + Suc n < 2 ^ 29" "8 * (p + Suc n) \<le> unat cap" "\<not> mft_bits tag"
    and "sim_ready r (ftl (onfm d))" "\<And>i. i < Suc n \<Longrightarrow> sim_versions (ftl (onfm d)) (of_nat (p + i)) = Some (cur i, benign i)"
  shows "\<exists>d'. ssd_pages sim_ubi (Suc n) d =
      Some (concat (map (\<lambda>i. map (bytes_of (if recover_bits tag then benign i else cur i)) [0..<4096]) [0..<Suc n]), d') \<and>
    sim_ready r (ftl (onfm d')) \<and> sim_versions (ftl (onfm d')) = sim_versions (ftl (onfm d)) \<and> msc_done cap (msc d')"
  using assms
proof (induction n arbitrary: p d cur benign)
  case (0 p d)
  from ssd_page_version [OF 0(1-5), of "cur 0" "benign 0"] 0(6) [of 0] obtain d1 m where
    "usb_user_task_step sim_ubi d = Some d1" "MSC_BulkIn (MSC_BulkInNak (msc d1)) = Some m" "msc_done cap m"
    "map (bytes_of (Read_BulkBuf (msc d1))) [0..<unat (Read_BulkLen (msc d1))] = map (bytes_of (if recover_bits tag then benign 0 else cur 0)) [0..<4096]"
    "sim_ready r (ftl (onfm d1))" "sim_versions (ftl (onfm d1)) = sim_versions (ftl (onfm d))" by auto
  then show ?case by (intro exI [of _ "d1\<lparr>msc := m\<rparr>"]) (simp add: Let_def)
next
  case (Suc n p d)
  from ssd_page_version [OF Suc.prems(1-5), of "cur 0" "benign 0"] Suc.prems(6) [of 0] obtain d1 m where
    d1: "usb_user_task_step sim_ubi d = Some d1" "MSC_BulkIn (MSC_BulkInNak (msc d1)) = Some m" "serving cap (p + 1) n tag m"
    "map (bytes_of (Read_BulkBuf (msc d1))) [0..<unat (Read_BulkLen (msc d1))] = map (bytes_of (if recover_bits tag then benign 0 else cur 0)) [0..<4096]"
    "sim_ready r (ftl (onfm d1))" "sim_versions (ftl (onfm d1)) = sim_versions (ftl (onfm d))" by auto
  have v: "sim_versions (ftl (onfm (d1\<lparr>msc := m\<rparr>))) (of_nat (p + 1 + i)) = Some (cur (Suc i), benign (Suc i))" if "i < Suc n" for i
    using Suc.prems(6) [of "Suc i"] that d1(6) by simp
  have q: "p + 1 + Suc n < 2 ^ 29" "8 * (p + 1 + Suc n) \<le> unat cap" using Suc.prems(2,3) by simp_all
  from Suc.IH [OF _ q Suc.prems(4) _ v] d1(3,5) obtain d2 where
    d2: "ssd_pages sim_ubi (Suc n) (d1\<lparr>msc := m\<rparr>) =
        Some (concat (map (\<lambda>i. map (bytes_of (if recover_bits tag then benign (Suc i) else cur (Suc i))) [0..<4096]) [0..<Suc n]), d2)"
      "sim_ready r (ftl (onfm d2))" "sim_versions (ftl (onfm d2)) = sim_versions (ftl (onfm d1))" "msc_done cap (msc d2)" by auto
  have c: "concat (map f [0..<Suc (Suc n)]) = f 0 @ concat (map (\<lambda>i. f (Suc i)) [0..<Suc n])" for f :: "nat \<Rightarrow> u8 list"
    by (simp only: upt_conv_Cons [OF zero_less_Suc] map_Suc_upt [symmetric] list.map map_map comp_def concat.simps)
  have e: "ssd_pages sim_ubi (Suc (Suc n)) d = Some (map (bytes_of (if recover_bits tag then benign 0 else cur 0)) [0..<4096] @
      concat (map (\<lambda>i. map (bytes_of (if recover_bits tag then benign (Suc i) else cur (Suc i))) [0..<4096]) [0..<Suc n]), d2)"
    by (subst ssd_pages.simps) (simp only: d1(1,2,4) d2(1) Let_def Option.bind.bind_lunit prod.case)
  show ?case unfolding e c using d2(2-4) d1(6) by (intro exI [of _ d2]) simp
qed

text \<open>The device answers a READ command with the benign versions of its pages if the command has the recovery tag, and with their
  contents if it has no tag; neither changes a version.\<close>

lemma ssd_read_versions:
  assumes "msc_idle cap (msc d)" "page_read_command c p n" "0 < n" "n \<le> 8191" "p + n < 2 ^ 29" "8 * (p + n) \<le> unat cap" "\<not> mft_bits (CB c 6)"
    and "sim_ready r (ftl (onfm d))" "\<And>i. i < n \<Longrightarrow> sim_versions (ftl (onfm d)) (of_nat (p + i)) = Some (cur i, benign i)"
  shows "\<exists>d'. ssd_read sim_ubi c n d =
      Some (concat (map (\<lambda>i. map (bytes_of (if recover_bits (CB c 6) then benign i else cur i)) [0..<4096]) [0..<n]), d') \<and>
    sim_ready r (ftl (onfm d')) \<and> sim_versions (ftl (onfm d')) = sim_versions (ftl (onfm d)) \<and> msc_idle cap (msc d')"
proof -
  obtain k where n: "n = Suc k" using assms(3) by (cases n) simp_all
  from MSC_BulkOut_read [OF assms(1) assms(2) [unfolded n]] assms(4-6) obtain m where
    m: "MSC_BulkOut MSC_CBW_SIZE ((msc d)\<lparr>CBW := c\<rparr>) = Some m" "serving cap p k (CB c 6) m" by (auto simp: n)
  from ssd_pages_versions [of cap p k "CB c 6" "d\<lparr>msc := m\<rparr>" r cur benign] m(2) assms(5-9) obtain d1 where
    d1: "ssd_pages sim_ubi n (d\<lparr>msc := m\<rparr>) =
        Some (concat (map (\<lambda>i. map (bytes_of (if recover_bits (CB c 6) then benign i else cur i)) [0..<4096]) [0..<n]), d1)"
      "sim_ready r (ftl (onfm d1))" "sim_versions (ftl (onfm d1)) = sim_versions (ftl (onfm d))" "msc_done cap (msc d1)"
    by (auto simp: n)
  have i: "MSC_BulkIn (msc d1) = Some ((msc d1)\<lparr>BulkStage := MSC_BS_CBW\<rparr>)" using d1(4) by (simp add: MSC_BulkIn_def msc_done_def)
  have idle: "msc_idle cap ((msc d1)\<lparr>BulkStage := MSC_BS_CBW\<rparr>)"
    using d1(4) by (simp add: msc_idle_def msc_done_def ring_ok_def ring_tasks_def ring_length_def)
  have "ssd_read sim_ubi c n d = Some (concat (map (\<lambda>i. map (bytes_of (if recover_bits (CB c 6) then benign i else cur i)) [0..<4096]) [0..<n]),
      d1\<lparr>msc := (msc d1)\<lparr>BulkStage := MSC_BS_CBW\<rparr>\<rparr>)"
    by (simp only: ssd_read_def m(1) d1(1) i Option.bind.bind_lunit prod.case)
  then show ?thesis using d1(2,3) idle by (intro exI [of _ "d1\<lparr>msc := (msc d1)\<lparr>BulkStage := MSC_BS_CBW\<rparr>\<rparr>"]) simp
qed

end
