(* ===== verification/Crc32.thy ===== *)
theory Crc32
  imports Prelude
begin

text \<open>
  The checksum of the boot image headers, mpt/dfu/crc32.c of the data backup and recovery modules: the table, the
  loop over a buffer, and the proof that the table computes the reflected CRC-32 of the polynomial 0x04C11DB7 bit by bit.
\<close>

section \<open>The code\<close>

definition crc32table :: "u32 list" where
  "crc32table = [
    0x00000000, 0x77073096, 0xEE0E612C, 0x990951BA, 0x076DC419, 0x706AF48F, 0xE963A535, 0x9E6495A3,
    0x0EDB8832, 0x79DCB8A4, 0xE0D5E91E, 0x97D2D988, 0x09B64C2B, 0x7EB17CBD, 0xE7B82D07, 0x90BF1D91,
    0x1DB71064, 0x6AB020F2, 0xF3B97148, 0x84BE41DE, 0x1ADAD47D, 0x6DDDE4EB, 0xF4D4B551, 0x83D385C7,
    0x136C9856, 0x646BA8C0, 0xFD62F97A, 0x8A65C9EC, 0x14015C4F, 0x63066CD9, 0xFA0F3D63, 0x8D080DF5,
    0x3B6E20C8, 0x4C69105E, 0xD56041E4, 0xA2677172, 0x3C03E4D1, 0x4B04D447, 0xD20D85FD, 0xA50AB56B,
    0x35B5A8FA, 0x42B2986C, 0xDBBBC9D6, 0xACBCF940, 0x32D86CE3, 0x45DF5C75, 0xDCD60DCF, 0xABD13D59,
    0x26D930AC, 0x51DE003A, 0xC8D75180, 0xBFD06116, 0x21B4F4B5, 0x56B3C423, 0xCFBA9599, 0xB8BDA50F,
    0x2802B89E, 0x5F058808, 0xC60CD9B2, 0xB10BE924, 0x2F6F7C87, 0x58684C11, 0xC1611DAB, 0xB6662D3D,
    0x76DC4190, 0x01DB7106, 0x98D220BC, 0xEFD5102A, 0x71B18589, 0x06B6B51F, 0x9FBFE4A5, 0xE8B8D433,
    0x7807C9A2, 0x0F00F934, 0x9609A88E, 0xE10E9818, 0x7F6A0DBB, 0x086D3D2D, 0x91646C97, 0xE6635C01,
    0x6B6B51F4, 0x1C6C6162, 0x856530D8, 0xF262004E, 0x6C0695ED, 0x1B01A57B, 0x8208F4C1, 0xF50FC457,
    0x65B0D9C6, 0x12B7E950, 0x8BBEB8EA, 0xFCB9887C, 0x62DD1DDF, 0x15DA2D49, 0x8CD37CF3, 0xFBD44C65,
    0x4DB26158, 0x3AB551CE, 0xA3BC0074, 0xD4BB30E2, 0x4ADFA541, 0x3DD895D7, 0xA4D1C46D, 0xD3D6F4FB,
    0x4369E96A, 0x346ED9FC, 0xAD678846, 0xDA60B8D0, 0x44042D73, 0x33031DE5, 0xAA0A4C5F, 0xDD0D7CC9,
    0x5005713C, 0x270241AA, 0xBE0B1010, 0xC90C2086, 0x5768B525, 0x206F85B3, 0xB966D409, 0xCE61E49F,
    0x5EDEF90E, 0x29D9C998, 0xB0D09822, 0xC7D7A8B4, 0x59B33D17, 0x2EB40D81, 0xB7BD5C3B, 0xC0BA6CAD,
    0xEDB88320, 0x9ABFB3B6, 0x03B6E20C, 0x74B1D29A, 0xEAD54739, 0x9DD277AF, 0x04DB2615, 0x73DC1683,
    0xE3630B12, 0x94643B84, 0x0D6D6A3E, 0x7A6A5AA8, 0xE40ECF0B, 0x9309FF9D, 0x0A00AE27, 0x7D079EB1,
    0xF00F9344, 0x8708A3D2, 0x1E01F268, 0x6906C2FE, 0xF762575D, 0x806567CB, 0x196C3671, 0x6E6B06E7,
    0xFED41B76, 0x89D32BE0, 0x10DA7A5A, 0x67DD4ACC, 0xF9B9DF6F, 0x8EBEEFF9, 0x17B7BE43, 0x60B08ED5,
    0xD6D6A3E8, 0xA1D1937E, 0x38D8C2C4, 0x4FDFF252, 0xD1BB67F1, 0xA6BC5767, 0x3FB506DD, 0x48B2364B,
    0xD80D2BDA, 0xAF0A1B4C, 0x36034AF6, 0x41047A60, 0xDF60EFC3, 0xA867DF55, 0x316E8EEF, 0x4669BE79,
    0xCB61B38C, 0xBC66831A, 0x256FD2A0, 0x5268E236, 0xCC0C7795, 0xBB0B4703, 0x220216B9, 0x5505262F,
    0xC5BA3BBE, 0xB2BD0B28, 0x2BB45A92, 0x5CB36A04, 0xC2D7FFA7, 0xB5D0CF31, 0x2CD99E8B, 0x5BDEAE1D,
    0x9B64C2B0, 0xEC63F226, 0x756AA39C, 0x026D930A, 0x9C0906A9, 0xEB0E363F, 0x72076785, 0x05005713,
    0x95BF4A82, 0xE2B87A14, 0x7BB12BAE, 0x0CB61B38, 0x92D28E9B, 0xE5D5BE0D, 0x7CDCEFB7, 0x0BDBDF21,
    0x86D3D2D4, 0xF1D4E242, 0x68DDB3F8, 0x1FDA836E, 0x81BE16CD, 0xF6B9265B, 0x6FB077E1, 0x18B74777,
    0x88085AE6, 0xFF0F6A70, 0x66063BCA, 0x11010B5C, 0x8F659EFF, 0xF862AE69, 0x616BFFD3, 0x166CCF45,
    0xA00AE278, 0xD70DD2EE, 0x4E048354, 0x3903B3C2, 0xA7672661, 0xD06016F7, 0x4969474D, 0x3E6E77DB,
    0xAED16A4A, 0xD9D65ADC, 0x40DF0B66, 0x37D83BF0, 0xA9BCAE53, 0xDEBB9EC5, 0x47B2CF7F, 0x30B5FFE9,
    0xBDBDF21C, 0xCABAC28A, 0x53B39330, 0x24B4A3A6, 0xBAD03605, 0xCDD70693, 0x54DE5729, 0x23D967BF,
    0xB3667A2E, 0xC4614AB8, 0x5D681B02, 0x2A6F2B94, 0xB40BBE37, 0xC30C8EA1, 0x5A05DF1B, 0x2D02EF8D]"

definition crc32_step :: "u32 \<Rightarrow> u8 \<Rightarrow> u32" where
  "crc32_step crc b = crc32table ! unat ((crc XOR ucast b) AND 0xFF) XOR drop_bit 8 crc"

text \<open>\<open>data\<close> is the buffer from its first byte on; a negative length of the source runs past every buffer.\<close>

fun crc32_loop :: "u32 \<Rightarrow> u8 list \<Rightarrow> u32" where
  "crc32_loop crc [] = crc"
| "crc32_loop crc (b # data) = crc32_loop (crc32_step crc b) data"

definition crc32_compute :: "u8 list \<Rightarrow> u32" where
  "crc32_compute data = crc32_loop 0xFFFFFFFF data XOR 0xFFFFFFFF"

section \<open>The checksum bit by bit\<close>

definition crc32_poly :: u32 where "crc32_poly = 0xEDB88320"

definition crc_shift :: "u32 \<Rightarrow> u32" where
  "crc_shift c = (if bit c 0 then drop_bit 1 c XOR crc32_poly else drop_bit 1 c)"

definition crc_byte :: "u32 \<Rightarrow> u8 \<Rightarrow> u32" where
  "crc_byte c b = (crc_shift ^^ 8) (c XOR ucast b)"

definition crc32_reference :: "u8 list \<Rightarrow> u32" where
  "crc32_reference data = NOT (foldl crc_byte 0xFFFFFFFF data)"

lemma crc_ones: "c XOR 0xFFFFFFFF = NOT (c :: u32)"
proof -
  have ones: "(0xFFFFFFFF :: u32) = - 1" by simp
  show ?thesis unfolding ones by simp
qed

lemma xor_cancel: "a XOR c = b XOR c \<longleftrightarrow> a = (b :: u32)"
proof
  assume "a XOR c = b XOR c"
  then have "(a XOR c) XOR c = (b XOR c) XOR c" by simp
  then show "a = b" by (simp add: xor.assoc)
qed simp

lemma crc_shift_xor: "crc_shift (a XOR b) = crc_shift a XOR crc_shift b"
  by (rule bit_word_eqI) (auto simp: crc_shift_def bit_simps)

lemma crc_shifts_xor: "(crc_shift ^^ n) (a XOR b) = (crc_shift ^^ n) a XOR (crc_shift ^^ n) b"
  by (induction n) (simp_all add: crc_shift_xor)

lemma crc_shifts_clear: "\<forall>i < k. \<not> bit c i \<Longrightarrow> (crc_shift ^^ k) c = drop_bit k c"
proof (induction k)
  case 0
  then show ?case by simp
next
  case (Suc k)
  then have "(crc_shift ^^ k) c = drop_bit k c" by simp
  moreover have "crc_shift (drop_bit k c) = drop_bit (Suc k) c"
    using Suc.prems by (simp add: crc_shift_def bit_simps)
  ultimately show ?case by simp
qed

lemma inj_crc_shift: "inj crc_shift"
proof (rule injI, rule ccontr)
  fix a b assume eq: "crc_shift a = crc_shift b" and "a \<noteq> b"
  then obtain n where n: "bit a n \<noteq> bit b n" by (auto simp: bit_eq_iff)
  have "crc_shift (a XOR b) = 0" using eq by (simp add: crc_shift_xor)
  then have z: "\<not> bit (crc_shift (a XOR b)) k" for k by simp
  have "\<not> bit (a XOR b) 0"
  proof
    assume "bit (a XOR b) 0"
    then show False using z [of 31] by (auto simp: crc_shift_def crc32_poly_def bit_simps dest: bit_imp_le_length)
  qed
  moreover then have "\<not> bit (a XOR b) (Suc k)" for k
    using z [of k] by (simp add: crc_shift_def bit_simps)
  ultimately have "\<not> bit (a XOR b) n" by (cases n) simp_all
  then show False using n by (simp add: bit_simps)
qed

lemma inj_crc_shifts: "inj (crc_shift ^^ n)"
  by (induction n) (auto intro: inj_compose [OF inj_crc_shift, unfolded comp_def] simp: inj_crc_shift)

text \<open>The entries at \<open>2 i\<close> and \<open>2 i + 1\<close> follow from the one at \<open>i\<close>.\<close>

fun table_pairs :: "u32 list \<Rightarrow> u32 list \<Rightarrow> bool" where
  "table_pairs (t # ts) (a # b # xs) \<longleftrightarrow> crc_shift a = t \<and> b = a XOR 0x77073096 \<and> table_pairs ts xs"
| "table_pairs ts xs \<longleftrightarrow> xs = []"

lemma table_pairs_nth:
  "table_pairs ts xs \<Longrightarrow> i < length xs div 2 \<Longrightarrow>
     i < length ts \<and> crc_shift (xs ! (2 * i)) = ts ! i \<and> xs ! (2 * i + 1) = xs ! (2 * i) XOR 0x77073096"
proof (induction ts xs arbitrary: i rule: table_pairs.induct)
  case (1 t ts a b xs)
  then show ?case by (cases i) auto
qed auto

lemma crc32table_pairs: "table_pairs crc32table crc32table"
  unfolding crc32table_def by (simp add: crc_shift_def crc32_poly_def)

lemma crc_shifts_one: "(crc_shift ^^ 8) 1 = 0x77073096"
proof -
  have "crc_shift 1 = 0xEDB88320" "crc_shift 0xEDB88320 = 0x76DC4190" "crc_shift 0x76DC4190 = 0x3B6E20C8"
    "crc_shift 0x3B6E20C8 = 0x1DB71064" "crc_shift 0x1DB71064 = 0x0EDB8832" "crc_shift 0x0EDB8832 = 0x076DC419"
    "crc_shift 0x076DC419 = 0xEE0E612C" "crc_shift 0xEE0E612C = 0x77073096"
    by (simp_all add: crc_shift_def crc32_poly_def)
  then show ?thesis by (simp add: eval_nat_numeral)
qed

lemma crc32table_entry: "i < 256 \<Longrightarrow> crc32table ! i = (crc_shift ^^ 8) (of_nat i)"
proof (induction i rule: less_induct)
  case (less i)
  have len: "length crc32table = 256" by (simp add: crc32table_def)
  show ?case
  proof (cases "i = 0")
    case True
    have "(crc_shift ^^ 8) 0 = drop_bit 8 0" by (rule crc_shifts_clear) simp
    with True show ?thesis by (simp add: crc32table_def)
  next
    case False
    define k where "k = i div 2"
    have k: "k < i" "k < 128" using False less.prems by (auto simp: k_def)
    note pair = table_pairs_nth [OF crc32table_pairs, of k, simplified len]
    have half: "crc_shift (of_nat (2 * k)) = of_nat k"
      using k(2) by (simp add: crc_shift_def bit_0 word_unat_eq_iff drop_bit_eq_div unat_div unat_of_nat unat_word_ariths)
    have "crc_shift (crc32table ! (2 * k)) = (crc_shift ^^ 8) (crc_shift (of_nat (2 * k)))"
      unfolding half using less.IH [OF k(1)] k(2) pair by simp
    also have "\<dots> = crc_shift ((crc_shift ^^ 8) (of_nat (2 * k)))" by (simp add: funpow_swap1)
    finally have even: "crc32table ! (2 * k) = (crc_shift ^^ 8) (of_nat (2 * k))" by (rule injD [OF inj_crc_shift])
    have "of_nat (2 * k + 1) = of_nat (2 * k) XOR (1 :: u32)" by (simp add: xor_one_eq)
    then have "crc32table ! (2 * k + 1) = (crc_shift ^^ 8) (of_nat (2 * k + 1))"
      using pair k(2) even by (simp only: crc_shifts_xor crc_shifts_one)
    moreover have "i = 2 * k \<or> i = 2 * k + 1" by (auto simp: k_def)
    ultimately show ?thesis using even by blast
  qed
qed

lemma crc32_step_byte: "crc32_step c b = crc_byte c b"
proof -
  let ?x = "c XOR ucast b"
  have low: "unat (?x AND 0xFF) < 256"
  proof -
    have "?x AND 0xFF = take_bit 8 ?x" by (simp add: take_bit_eq_mask mask_eq_exp_minus_1)
    then show ?thesis using take_bit_nat_less_exp [of 8 "unat ?x"] by (simp only: unsigned_take_bit_eq) simp
  qed
  have x: "?x = (?x AND 0xFF) XOR (?x AND NOT 0xFF)"
    by (rule bit_word_eqI) (auto simp: bit_simps)
  have "(crc_shift ^^ 8) (?x AND NOT 0xFF) = drop_bit 8 (?x AND NOT 0xFF)"
    by (rule crc_shifts_clear) (auto simp: bit_simps less_Suc_eq numeral_eq_Suc)
  also have "\<dots> = drop_bit 8 c"
    by (rule bit_word_eqI) (auto simp: bit_simps numeral_eq_Suc dest: bit_imp_le_length)
  finally have "crc_byte c b = (crc_shift ^^ 8) (?x AND 0xFF) XOR drop_bit 8 c"
    unfolding crc_byte_def by (subst x) (simp only: crc_shifts_xor)
  moreover have "crc32table ! unat (?x AND 0xFF) = (crc_shift ^^ 8) (?x AND 0xFF)"
    using crc32table_entry [OF low] by simp
  ultimately show ?thesis by (simp add: crc32_step_def)
qed

lemma crc32_loop_foldl: "crc32_loop c data = foldl crc_byte c data"
  by (induction data arbitrary: c) (simp_all add: crc32_step_byte)

text \<open>The loop from any state over four bytes at most is linear in the bytes as one word.\<close>

fun le_word :: "u8 list \<Rightarrow> u32" where
  "le_word [] = 0"
| "le_word (b # bs) = ucast b XOR push_bit 8 (le_word bs)"

lemma bit_le_word: "bit (le_word bs) n \<longleftrightarrow> n < 32 \<and> n < 8 * length bs \<and> bit (bs ! (n div 8)) (n mod 8)"
proof (induction bs arbitrary: n)
  case (Cons b bs)
  show ?case
  proof (cases "n < 8")
    case False
    then have "n div 8 = Suc ((n - 8) div 8)" "n mod 8 = (n - 8) mod 8" by (simp_all add: le_div_geq le_mod_geq)
    with False show ?thesis by (auto simp: bit_simps Cons.IH bit_u8_beyond)
  qed (simp add: bit_simps)
qed simp

lemma le_word_inject: "length bs \<le> 4 \<Longrightarrow> length bs = length cs \<Longrightarrow> le_word bs = le_word cs \<Longrightarrow> bs = cs"
proof (rule nth_equalityI)
  fix i assume len: "length bs \<le> 4" "length bs = length cs" and eq: "le_word bs = le_word cs" and i: "i < length bs"
  show "bs ! i = cs ! i"
  proof (rule bit_word_eqI)
    fix n assume n: "n < LENGTH(8)"
    have "bit (le_word bs) (8 * i + n) = bit (le_word cs) (8 * i + n)" by (simp add: eq)
    with n len i show "bit (bs ! i) n = bit (cs ! i) n" by (simp add: bit_le_word)
  qed
qed

lemma crc_bytes: "length bs \<le> 4 \<Longrightarrow> foldl crc_byte c bs = (crc_shift ^^ (8 * length bs)) (c XOR le_word bs)"
proof (induction bs arbitrary: c)
  case (Cons b bs)
  have "(crc_shift ^^ 8) (push_bit 8 (le_word bs)) = drop_bit 8 (push_bit 8 (le_word bs))"
    by (rule crc_shifts_clear) (simp add: bit_simps)
  also have "\<dots> = le_word bs"
    using Cons.prems by (intro bit_word_eqI) (auto simp: bit_simps bit_le_word)
  finally have "(crc_shift ^^ 8) (c XOR ucast b) XOR le_word bs = (crc_shift ^^ 8) (c XOR le_word (b # bs))"
    by (simp add: crc_shifts_xor xor.assoc)
  then show ?case
    using Cons by (simp add: crc_byte_def funpow_add [symmetric, THEN fun_cong, unfolded comp_def] add.commute)
qed simp

lemma inj_crc_bytes: "foldl crc_byte c ys = foldl crc_byte d ys \<Longrightarrow> c = d"
proof (induction ys arbitrary: c d)
  case (Cons y ys)
  from Cons.IH Cons.prems have "crc_byte c y = crc_byte d y" by simp
  then have "c XOR ucast y = d XOR ucast y" unfolding crc_byte_def by (rule injD [OF inj_crc_shifts])
  then show ?case by (simp add: xor_cancel)
qed simp

text \<open>
  C28: a buffer whose bytes were changed only within four neighbouring bytes has a different checksum, so the
  header's checksum detects every burst of errors of up to 25 bits, wherever it starts.
\<close>

theorem crc32_detects_burst:
  assumes "length bs = length cs" "length bs \<le> 4" "bs \<noteq> cs"
  shows "crc32_compute (xs @ bs @ ys) \<noteq> crc32_compute (xs @ cs @ ys)"
proof
  define c where "c = foldl crc_byte 0xFFFFFFFF xs"
  assume "crc32_compute (xs @ bs @ ys) = crc32_compute (xs @ cs @ ys)"
  then have "foldl crc_byte (foldl crc_byte c bs) ys = foldl crc_byte (foldl crc_byte c cs) ys"
    by (simp add: crc32_compute_def crc32_loop_foldl c_def crc_ones)
  then have "foldl crc_byte c bs = foldl crc_byte c cs" by (rule inj_crc_bytes)
  then have "c XOR le_word bs = c XOR le_word cs"
    using assms by (simp add: crc_bytes injD [OF inj_crc_shifts])
  then have "le_word bs = le_word cs" by (simp add: xor.commute [of c] xor_cancel)
  with assms show False by (simp add: le_word_inject)
qed

theorem crc32_detects_burst_witness:
  "crc32_compute ([1, 2] @ [3, 4] @ [5]) \<noteq> crc32_compute ([1, 2] @ [3, 5] @ [5])"
  by (rule crc32_detects_burst) simp_all

text \<open>C29: the table-driven checksum is the bitwise reflected CRC-32, for every buffer.\<close>

theorem crc32_equals_reference: "crc32_compute data = crc32_reference data"
  by (simp add: crc32_compute_def crc32_reference_def crc32_loop_foldl crc_ones)

end
