(* ===== verification/Detect_Common.thy ===== *)
theory Detect_Common
  imports Tag
begin

text \<open>
  The part of the detection module that both guest systems share, drivers/usb/ransomtag.c and ransomtag.h of the
  detection modules, in the hypervisor: the command wrapper of a USB mass storage request and the tags put into
  it, the map of sectors to protect, byte string search, and reads of the guest's memory.  A computation that
  returns \<open>None\<close> has left C: an access outside an array, a search for a missing terminator, or a loop that
  never ends.
\<close>

section \<open>The command block wrapper\<close>

record cbw =
  dCBWSignature :: u32
  dCBWTag :: u32
  dCBWDataTransferLength :: u32
  bmCBWFlags :: u8
  bCBWLUN :: u8
  bCBWCBLength :: u8
  CBWCB :: "nat \<Rightarrow> u8"

record cbw_info =
  ci_cbw :: cbw
  ci_direction :: u8
  ci_lba :: u32
  ci_n_blocks :: u16

text \<open>Bytes 2 to 5 of the command block, big endian, which every parser of the module spells out.\<close>

definition cbw_lba :: "cbw \<Rightarrow> u32" where
  "cbw_lba c = push_bit 24 (ucast (CBWCB c 2)) OR push_bit 16 (ucast (CBWCB c 3)) OR push_bit 8 (ucast (CBWCB c 4)) OR ucast (CBWCB c 5)"

definition reversebytes_uint32t :: "u32 \<Rightarrow> u32" where
  "reversebytes_uint32t v = push_bit 24 (v AND 0x000000FF) OR push_bit 8 (v AND 0x0000FF00) OR
     drop_bit 8 (v AND 0x00FF0000) OR drop_bit 24 (v AND 0xFF000000)"

definition bswap16 :: "u16 \<Rightarrow> u16" where
  "bswap16 x = push_bit 8 x OR drop_bit 8 x"

definition parse_CBW :: "cbw_info \<Rightarrow> cbw_info" where
  "parse_CBW i = i\<lparr>ci_direction := drop_bit 7 (bmCBWFlags (ci_cbw i)), ci_lba := cbw_lba (ci_cbw i),
     ci_n_blocks := bswap16 (ucast (CBWCB (ci_cbw i) 7) OR push_bit 8 (ucast (CBWCB (ci_cbw i) 8)))\<rparr>"

text \<open>\<open>linux_AddTag\<close> and \<open>win_AddTag\<close> have the same body; a null wrapper is left alone.\<close>

definition AddTag :: "u8 \<Rightarrow> cbw \<Rightarrow> cbw" where
  "AddTag tag c =
     (if tag = RANSOMTAG then c\<lparr>CBWCB := (CBWCB c)(6 := CBWCB c 6 OR RANSOMTAG)\<rparr>
      else if tag = RANSOMTAG_MFT then c\<lparr>CBWCB := (CBWCB c)(6 := CBWCB c 6 OR RANSOMTAG_MFT)\<rparr>
      else if tag = RECOVERTAG then c\<lparr>CBWCB := (CBWCB c)(6 := CBWCB c 6 OR RECOVERTAG)\<rparr>
      else c)"

section \<open>The sector map\<close>

definition NN :: int where "NN = 16000000"
definition SHIFT :: nat where "SHIFT = 3"
definition BIT_MASK :: int where "BIT_MASK = 0x7"

text \<open>\<open>SectorPageBitmap\<close>: \<open>1 + NN / WORD\<close> integers of which the low eight bits are used.\<close>

type_synonym sector_map = "int \<Rightarrow> u32"

definition map_index_ok :: "int \<Rightarrow> bool" where
  "map_index_ok i \<longleftrightarrow> 0 \<le> drop_bit SHIFT i \<and> drop_bit SHIFT i < 1 + NN div 8"

definition SetBitmap :: "int \<Rightarrow> sector_map \<Rightarrow> sector_map option" where
  "SetBitmap i m = (if map_index_ok i
     then Some (m(drop_bit SHIFT i := m (drop_bit SHIFT i) OR push_bit (nat (i AND BIT_MASK)) 1)) else None)"

definition ClearBitmap :: "int \<Rightarrow> sector_map \<Rightarrow> sector_map option" where
  "ClearBitmap i m = (if map_index_ok i
     then Some (m(drop_bit SHIFT i := m (drop_bit SHIFT i) AND NOT (push_bit (nat (i AND BIT_MASK)) 1))) else None)"

definition TestBitmap :: "int \<Rightarrow> sector_map \<Rightarrow> u32 option" where
  "TestBitmap i m = (if map_index_ok i
     then Some (m (drop_bit SHIFT i) AND push_bit (nat (i AND BIT_MASK)) 1) else None)"

section \<open>Byte strings\<close>

type_synonym bytes = "nat \<Rightarrow> u8"

partial_function (option) strlen_from :: "bytes \<Rightarrow> nat \<Rightarrow> nat option" where
  "strlen_from p n = (if p n = 0 then Some n else strlen_from p (n + 1))"

definition strlen :: "bytes \<Rightarrow> nat option" where "strlen p = strlen_from p 0"

definition memcmp_eq :: "bytes \<Rightarrow> bytes \<Rightarrow> nat \<Rightarrow> bool" where
  "memcmp_eq p q n = list_all (\<lambda>k. p k = q k) [0..<n]"

definition memcpy_bytes :: "nat \<Rightarrow> bytes \<Rightarrow> bytes \<Rightarrow> bytes" where
  "memcpy_bytes n src dst = (\<lambda>k. if k < n then src k else dst k)"

definition memset_bytes :: "nat \<Rightarrow> u8 \<Rightarrow> bytes \<Rightarrow> bytes" where
  "memset_bytes n v dst = (\<lambda>k. if k < n then v else dst k)"

text \<open>The result is the offset of the match; the outer \<open>None\<close> is a substring without a terminator.\<close>

definition mem_find_str :: "bytes \<Rightarrow> nat \<Rightarrow> bytes \<Rightarrow> nat option option" where
  "mem_find_str full_data full_data_len substr =
     (if full_data_len = 0 \<or> substr 0 = 0 then Some None
      else do {
        sublen \<leftarrow> strlen substr;
        Some (find (\<lambda>i. full_data i = substr 0 \<and> memcmp_eq (\<lambda>k. full_data (i + k)) substr sublen)
                [0..<nat (int full_data_len - int sublen + 1)]) })"

text \<open>A string of the source as bytes: its characters, then zeros.\<close>

definition c_string :: "u8 list \<Rightarrow> bytes" where
  "c_string s = (\<lambda>k. if k < length s then s ! k else 0)"

section \<open>Byte counts\<close>

definition count_byte :: "u8 \<Rightarrow> (u8 \<Rightarrow> u64) \<Rightarrow> u8 \<Rightarrow> u64" where
  "count_byte d c = (if d \<noteq> 0 then c(d := c d + 1) else c)"

definition buffer_byte_count :: "bytes \<Rightarrow> nat \<Rightarrow> (u8 \<Rightarrow> u64) \<Rightarrow> u8 \<Rightarrow> u64" where
  "buffer_byte_count data n = fold (\<lambda>i. count_byte (data i)) [0..<n]"

section \<open>The guest's memory and registers\<close>

text \<open>
  What the module asks of the hypervisor: a byte of the guest's linear address space (\<open>None\<close> when the page walk
  fails, and the destination stays as it was), a guest virtual address translated, and the registers.
\<close>

record guest =
  linear_byte :: "u64 \<Rightarrow> u8 option"
  guest_phys :: "u64 \<Rightarrow> u64"
  guest_rbp :: u64
  guest_gs_base :: u64
  guest_cr3 :: u64

definition read_guest :: "guest \<Rightarrow> u64 \<Rightarrow> nat \<Rightarrow> bytes \<Rightarrow> bytes" where
  "read_guest g a n dst = (\<lambda>k. if k < n then (case linear_byte g (a + of_nat k) of Some v \<Rightarrow> v | None \<Rightarrow> dst k) else dst k)"

text \<open>Little endian words and their bytes.\<close>

definition le_bytes :: "'a::len word \<Rightarrow> bytes" where
  "le_bytes w = (\<lambda>k. ucast (drop_bit (8 * k) w))"

definition le_load :: "nat \<Rightarrow> bytes \<Rightarrow> 'a::len word" where
  "le_load n p = foldr (\<lambda>k w. push_bit 8 w OR ucast (p k)) [0..<n] 0"

section \<open>Words and bytes\<close>

lemma sint_small:
  assumes "unat (w :: u32) < 2147483648"
  shows "sint w = int (unat w)"
proof -
  define n where "n = unat w"
  have "signed_take_bit 31 (int n) = int n" using assms unfolding n_def [symmetric] by (intro signed_take_bit_int_eq_self) simp_all
  moreover have "sint w = signed_take_bit 31 (int n)" unfolding n_def sint_uint uint_nat by simp
  ultimately show ?thesis by (simp add: n_def)
qed

lemma le_load_Suc: "le_load (Suc n) p = (ucast (p 0) :: 'a::len word) OR push_bit 8 (le_load n (\<lambda>k. p (Suc k)))"
proof -
  have "foldr (\<lambda>k w. push_bit 8 w OR ucast (p k)) (map Suc [0..<n]) (0 :: 'a word) =
      foldr (\<lambda>k w. push_bit 8 w OR ucast (p (Suc k))) [0..<n] 0" by (simp add: foldr_map comp_def)
  then show ?thesis by (simp add: le_load_def upt_conv_Cons map_Suc_upt [symmetric] or.commute del: upt_Suc)
qed

lemma bit_le_load:
  "bit (le_load n p :: 'a::len word) i \<longleftrightarrow> i < LENGTH('a) \<and> i < 8 * n \<and> bit (p (i div 8)) (i mod 8)"
proof (induction n arbitrary: p i)
  case 0
  then show ?case by (simp add: le_load_def)
next
  case (Suc n)
  show ?case
  proof (cases "i < 8")
    case True
    then show ?thesis by (auto simp: le_load_Suc bit_simps)
  next
    case False
    then have "i div 8 = Suc ((i - 8) div 8)" "i mod 8 = (i - 8) mod 8" by (simp_all add: le_div_geq le_mod_geq)
    moreover have "\<not> bit (p 0) i" using False by (simp add: bit_u8_beyond)
    ultimately show ?thesis using False by (auto simp: le_load_Suc bit_simps Suc.IH dest: bit_imp_le_length)
  qed
qed

lemma le_load_bytes [simp]: "LENGTH('a) \<le> 8 * n \<Longrightarrow> le_load n (le_bytes (w :: 'a::len word)) = w"
  by (rule bit_word_eqI) (auto simp: bit_le_load le_bytes_def bit_simps)

lemma le_load_cong: "(\<And>k. k < n \<Longrightarrow> p k = q k) \<Longrightarrow> le_load n p = le_load n q"
  unfolding le_load_def by (rule foldr_cong) auto

section \<open>Tagged commands\<close>

lemma tagged_byte:
  "CheckTag (CBWCB (AddTag tag c) 6) = (if tag = RANSOMTAG then 1 else if tag = RANSOMTAG_MFT then 2 else 3)"
    if "CBWCB c 6 = 0" "tag \<in> {RANSOMTAG, RANSOMTAG_MFT, RECOVERTAG}"
  using that by (auto simp: AddTag_def CheckTag_def)

lemma AddTag_lba [simp]: "cbw_lba (AddTag tag c) = cbw_lba c"
  by (simp add: AddTag_def cbw_lba_def)

lemma AddTag_only_byte6: "(AddTag tag c)\<lparr>CBWCB := (CBWCB (AddTag tag c))(6 := CBWCB c 6)\<rparr> = c"
  by (cases c) (simp add: AddTag_def)

text \<open>A command as a host sends it.\<close>

definition demo_cbw :: "u8 \<Rightarrow> u32 \<Rightarrow> cbw" where
  "demo_cbw op lba = \<lparr>dCBWSignature = 0x43425355, dCBWTag = 1, dCBWDataTransferLength = 4096, bmCBWFlags = 0, bCBWLUN = 0,
     bCBWCBLength = 10, CBWCB = (\<lambda>k. if k = 0 then op else if k = 2 then ucast (drop_bit 24 lba) else if k = 3 then ucast (drop_bit 16 lba)
       else if k = 4 then ucast (drop_bit 8 lba) else if k = 5 then ucast lba else 0)\<rparr>"

lemma demo_cbw_lba [simp]: "cbw_lba (demo_cbw op lba) = lba"
proof (rule bit_word_eqI)
  fix n assume "n < LENGTH(32)"
  then have n: "n < 32" by simp
  then consider "n < 8" | "8 \<le> n" "n < 16" | "16 \<le> n" "n < 24" | "24 \<le> n" by linarith
  then show "bit (cbw_lba (demo_cbw op lba)) n = bit lba n"
    by cases (use n in \<open>auto simp: cbw_lba_def demo_cbw_def bit_simps\<close>)
qed

lemma demo_cbw_bytes [simp]: "CBWCB (demo_cbw op lba) 0 = op" "CBWCB (demo_cbw op lba) 6 = 0"
  by (simp_all add: demo_cbw_def)

section \<open>The sector map as a set\<close>

definition sector_set :: "sector_map \<Rightarrow> int set" where
  "sector_set m = {i. map_index_ok i \<and> bit (m (i div 8)) (nat (i mod 8))}"

lemma map_index: "drop_bit SHIFT i = i div 8" "i AND BIT_MASK = i mod 8" "map_index_ok i \<longleftrightarrow> 0 \<le> i \<and> i < 16000008"
proof -
  have "(7 :: int) = mask 3" by (simp add: mask_eq_exp_minus_1)
  then show m: "i AND BIT_MASK = i mod 8" by (simp only: BIT_MASK_def take_bit_eq_mask [symmetric] take_bit_eq_mod) simp
  show d: "drop_bit SHIFT i = i div 8" by (simp add: SHIFT_def drop_bit_eq_div)
  show "map_index_ok i \<longleftrightarrow> 0 \<le> i \<and> i < 16000008" unfolding map_index_ok_def d NN_def by auto
qed

lemma bit_one_shift: "k < 32 \<Longrightarrow> bit (push_bit k 1 :: u32) n \<longleftrightarrow> n = k"
  by (auto simp: bit_push_bit_iff bit_1_iff simp del: push_bit_of_1)

lemma test_bit_word:
  assumes "k < 32"
  shows "(w :: u32) AND push_bit k 1 \<noteq> 0 \<longleftrightarrow> bit w k"
proof -
  have "x = 0 \<longleftrightarrow> (\<forall>n. \<not> bit x n)" for x :: u32 by (auto intro: bit_word_eqI)
  from this [of "w AND push_bit k 1"] have "w AND push_bit k 1 = 0 \<longleftrightarrow> (\<forall>n. \<not> bit (w AND push_bit k 1) n)" .
  then show ?thesis using bit_one_shift [OF assms] by (auto simp: bit_and_iff simp del: push_bit_of_1)
qed

lemma div_mod_eq: "(i :: int) div 8 = j div 8 \<Longrightarrow> i mod 8 = j mod 8 \<Longrightarrow> i = j"
  by (metis mult_div_mod_eq)

lemma SetBitmap_set:
  assumes "map_index_ok i"
  shows "\<exists>m'. SetBitmap i m = Some m' \<and> sector_set m' = insert i (sector_set m)"
proof -
  define m' where "m' = m(i div 8 := m (i div 8) OR push_bit (nat (i mod 8)) 1)"
  have "SetBitmap i m = Some m'" using assms by (simp add: SetBitmap_def map_index(1,2) m'_def)
  moreover have "bit (m' (j div 8)) (nat (j mod 8)) \<longleftrightarrow> j = i \<or> bit (m (j div 8)) (nat (j mod 8))" for j
  proof -
    have "nat (j mod 8) = nat (i mod 8) \<longleftrightarrow> j mod 8 = i mod 8" by (auto simp: nat_eq_iff2)
    moreover have "nat (i mod 8) < 32" "nat (j mod 8) < 32"
      using pos_mod_bound [of 8 i] pos_mod_bound [of 8 j] by linarith+
    ultimately show ?thesis by (auto simp: m'_def bit_or_iff bit_one_shift dest: div_mod_eq simp del: push_bit_of_1)
  qed
  ultimately show ?thesis using assms by (auto simp: sector_set_def)
qed

lemma ClearBitmap_set:
  assumes "map_index_ok i"
  shows "\<exists>m'. ClearBitmap i m = Some m' \<and> sector_set m' = sector_set m - {i}"
proof -
  define m' where "m' = m(i div 8 := m (i div 8) AND NOT (push_bit (nat (i mod 8)) 1))"
  have "ClearBitmap i m = Some m'" using assms by (simp add: ClearBitmap_def map_index(1,2) m'_def)
  moreover have "bit (m' (j div 8)) (nat (j mod 8)) \<longleftrightarrow> j \<noteq> i \<and> bit (m (j div 8)) (nat (j mod 8))" for j
  proof -
    have "nat (j mod 8) = nat (i mod 8) \<longleftrightarrow> j mod 8 = i mod 8" by (auto simp: nat_eq_iff2)
    moreover have "nat (i mod 8) < 32" "nat (j mod 8) < 32"
      using pos_mod_bound [of 8 i] pos_mod_bound [of 8 j] by linarith+
    ultimately show ?thesis by (auto simp: m'_def bit_and_iff bit_not_iff bit_one_shift dest: div_mod_eq simp del: push_bit_of_1)
  qed
  ultimately show ?thesis by (auto simp: sector_set_def)
qed

lemma TestBitmap_set:
  assumes "map_index_ok i"
  shows "\<exists>v. TestBitmap i m = Some v \<and> (v \<noteq> 0 \<longleftrightarrow> i \<in> sector_set m)"
proof -
  have "nat (i mod 8) < 32" using pos_mod_bound [of 8 i] by linarith
  then show ?thesis using assms test_bit_word [of "nat (i mod 8)" "m (i div 8)"]
    by (simp add: TestBitmap_def map_index(1,2) sector_set_def)
qed

text \<open>The sector map behaves as a set of sectors within its array: setting, clearing and testing a bit are insertion,
  removal and membership, for every sector, and outside the array each of the three leaves it.\<close>

theorem sector_map_refines:
  "if 0 \<le> i \<and> i < 16000008
   then (\<exists>m1 m2 v. SetBitmap i m = Some m1 \<and> sector_set m1 = insert i (sector_set m) \<and>
     ClearBitmap i m = Some m2 \<and> sector_set m2 = sector_set m - {i} \<and>
     TestBitmap i m = Some v \<and> (v \<noteq> 0) = (i \<in> sector_set m))
   else SetBitmap i m = None \<and> ClearBitmap i m = None \<and> TestBitmap i m = None"
proof (cases "map_index_ok i")
  case True
  from SetBitmap_set [OF this, of m] ClearBitmap_set [OF this, of m] TestBitmap_set [OF this, of m] show ?thesis
    using True unfolding map_index(3) [symmetric] by auto
next
  case False
  then show ?thesis unfolding map_index(3) [symmetric] by (simp add: SetBitmap_def ClearBitmap_def TestBitmap_def)
qed

section \<open>Searches of names\<close>

lemma c_string_nonzero: "n < length xs \<Longrightarrow> 0 \<notin> set xs \<Longrightarrow> c_string xs n \<noteq> 0"
  by (simp add: c_string_def) (metis nth_mem)

lemma strlen_from_c_string:
  assumes "n \<le> length xs" "0 \<notin> set xs"
  shows "strlen_from (c_string xs) n = Some (length xs)"
  using assms(1)
proof (induction "length xs - n" arbitrary: n)
  case 0
  then show ?case by (subst strlen_from.simps) (simp add: c_string_def)
next
  case (Suc m)
  then have "n < length xs" by simp
  then have "c_string xs n \<noteq> 0" using assms(2) by (rule c_string_nonzero)
  then show ?case using Suc.hyps(1) [of "n + 1"] Suc.hyps(2) Suc.prems by (subst strlen_from.simps) simp
qed

lemma strlen_c_string: "0 \<notin> set xs \<Longrightarrow> strlen (c_string xs) = Some (length xs)"
  by (simp add: strlen_def strlen_from_c_string)

text \<open>The search of a name in the first bytes of a process name.\<close>

lemma mem_find_c_string:
  assumes "length xs = m" "0 < m" "0 \<notin> set xs" "n = m + d"
  shows "\<exists>r. mem_find_str p n (c_string xs) = Some r \<and> (r \<noteq> None \<longleftrightarrow> (\<exists>i \<le> d. memcmp_eq (\<lambda>k. p (i + k)) (c_string xs) m))"
proof -
  define P where "P i \<longleftrightarrow> p i = c_string xs 0 \<and> memcmp_eq (\<lambda>k. p (i + k)) (c_string xs) m" for i
  have hd: "c_string xs 0 \<noteq> 0" using assms(1,2,3) by (intro c_string_nonzero) simp_all
  have "memcmp_eq q (c_string xs) m \<Longrightarrow> q 0 = c_string xs 0" for q
    using assms(2) by (auto simp: memcmp_eq_def list_all_iff)
  from this [of "\<lambda>k. p (_ + k)"] have P: "P i \<longleftrightarrow> memcmp_eq (\<lambda>k. p (i + k)) (c_string xs) m" for i by (auto simp: P_def)
  have n: "nat (int n - int m + 1) = Suc d" using assms(4) by simp
  have "mem_find_str p n (c_string xs) = Some (find P [0..<Suc d])"
    using hd assms(1,2,4) strlen_c_string [OF assms(3)] n by (simp add: mem_find_str_def P_def [abs_def] del: upt_Suc)
  moreover have "find P [0..<Suc d] \<noteq> None \<longleftrightarrow> (\<exists>i \<le> d. P i)"
    by (simp only: find_None_iff set_upt atLeast0LessThan lessThan_Suc_atMost) auto
  ultimately show ?thesis unfolding P by blast
qed

end
