(* ===== verification/Detect_Linux.thy ===== *)
theory Detect_Linux
  imports Detect_Common
begin

text \<open>
  The Linux part of the detection module, drivers/usb/ransomtag.c: the task list and open files of the guest read
  from its memory, the ext4 metadata read on the way, and \<open>linux_analyse_cbw\<close>, which puts the tag into each command.
  A 32-bit int of the source is a word, read with \<open>sint\<close> where its sign matters.
\<close>

section \<open>Addresses\<close>

definition LINUX_ADDR_SIZE :: nat where "LINUX_ADDR_SIZE = 8"
definition INIT_TASK :: u64 where "INIT_TASK = 0xffffffff82612780"
definition START_INIT_TASK :: u64 where "START_INIT_TASK = 0xFFFFFFFF82600000"
definition USER_ADDR_SPACE_END :: u64 where "USER_ADDR_SPACE_END = 0x00007FFFFFFFFFFF"
definition KERNEL_ADDR_SPACE_START :: u64 where "KERNEL_ADDR_SPACE_START = 0xFFFF800000000000"
definition TASK_STRUCT_COMM_OFFSET :: u64 where "TASK_STRUCT_COMM_OFFSET = 0xA58"
definition TASK_STRUCT_STACK_OFFSET :: u64 where "TASK_STRUCT_STACK_OFFSET = 0x18"
definition TASK_STRUCT_TASKS_OFFSET :: u64 where "TASK_STRUCT_TASKS_OFFSET = 0x7A0"
definition TASK_STRUCT_PARENT_OFFSET :: u64 where "TASK_STRUCT_PARENT_OFFSET = 0x8B8"
definition TASK_STRUCT_PID_OFFSET :: u64 where "TASK_STRUCT_PID_OFFSET = 0x8A0"
definition TASK_STRUCT_FILES_OFFSET :: u64 where "TASK_STRUCT_FILES_OFFSET = 0xAA0"
definition TASK_STRUCT_MM_OFFSET :: u64 where "TASK_STRUCT_MM_OFFSET = 0x7F0"
definition TASK_STRUCT_ACTIVE_MM_OFFSET :: u64 where "TASK_STRUCT_ACTIVE_MM_OFFSET = 0x7F8"
definition MM_STRUCT_PGD_OFFSET :: u64 where "MM_STRUCT_PGD_OFFSET = 0x50"
definition FILES_STRUCT_FDT_OFFSET :: u64 where "FILES_STRUCT_FDT_OFFSET = 0x20"
definition FDTABLE_FD_OFFSET :: u64 where "FDTABLE_FD_OFFSET = 0x8"
definition NR_OPEN_DEFAULT :: nat where "NR_OPEN_DEFAULT = 64"
definition STRUCT_FILE_FINODE_OFFSET :: u64 where "STRUCT_FILE_FINODE_OFFSET = 0x20"
definition SG_CHAIN :: u64 where "SG_CHAIN = 0x01"
definition SG_END :: u64 where "SG_END = 0x02"

definition is_linux_user_addr :: "u64 \<Rightarrow> bool" where
  "is_linux_user_addr a \<longleftrightarrow> a < USER_ADDR_SPACE_END"

definition is_linux_kernel_addr :: "u64 \<Rightarrow> bool" where
  "is_linux_kernel_addr a \<longleftrightarrow> KERNEL_ADDR_SPACE_START \<le> a"

text \<open>Returns whether the address was accepted, and the destination.\<close>

definition read_virtaddr_data :: "guest \<Rightarrow> u64 \<Rightarrow> nat \<Rightarrow> bytes \<Rightarrow> bool \<times> bytes" where
  "read_virtaddr_data g a n dst = (if \<not> is_linux_kernel_addr a then (False, dst) else (True, read_guest g a n dst))"

text \<open>A variable of eight bytes as the destination.\<close>

definition read_virtaddr :: "guest \<Rightarrow> u64 \<Rightarrow> u64 \<Rightarrow> bool \<times> u64" where
  "read_virtaddr g a old = (let (ret, p) = read_virtaddr_data g a LINUX_ADDR_SIZE (le_bytes old) in (ret, le_load 8 p))"

definition peek :: "guest \<Rightarrow> u64 \<Rightarrow> u64 \<Rightarrow> u64" where "peek g a old = snd (read_virtaddr g a old)"

record linux_list_head =
  list_head_field :: u64
  lh_next :: u64
  lh_prev :: u64

definition get_list_head :: "guest \<Rightarrow> u64 \<Rightarrow> u64 \<Rightarrow> u64 \<Rightarrow> linux_list_head \<Rightarrow> bool \<times> linux_list_head" where
  "get_list_head g a garbage garbage' h =
     (if \<not> is_linux_kernel_addr a then (False, h)
      else (True, h\<lparr>lh_next := peek g a garbage, lh_prev := peek g (a + of_nat LINUX_ADDR_SIZE) garbage'\<rparr>))"

definition container_of :: "u64 \<Rightarrow> u64 \<Rightarrow> u64" where "container_of field_addr offset = field_addr - offset"

section \<open>Tasks\<close>

record linux_task_info =
  task_struct :: u64
  stack :: u64
  files :: u64
  fdtable :: u64
  list_head_tasks :: linux_list_head
  pid :: u32
  parent_task_struct :: u64
  parent_pid :: u32
  mm :: u64
  mm_pgd :: u64
  mm_pgd_phys :: u64
  active_mm :: u64
  active_mm_pgd :: u64
  active_mm_pgd_phys :: u64
  task_name :: bytes

definition zero_task :: linux_task_info where
  "zero_task = \<lparr>task_struct = 0, stack = 0, files = 0, fdtable = 0, list_head_tasks = \<lparr>list_head_field = 0, lh_next = 0, lh_prev = 0\<rparr>,
     pid = 0, parent_task_struct = 0, parent_pid = 0, mm = 0, mm_pgd = 0, mm_pgd_phys = 0, active_mm = 0, active_mm_pgd = 0,
     active_mm_pgd_phys = 0, task_name = (\<lambda>_. 0)\<rparr>"

text \<open>The pids are read with eight bytes; the upper four fall into the padding that follows them.\<close>

definition get_linux_task_struct_info :: "guest \<Rightarrow> u64 \<Rightarrow> linux_task_info \<Rightarrow> linux_task_info" where
  "get_linux_task_struct_info g ts t =
     (let t = t\<lparr>task_struct := ts\<rparr>;
          t = t\<lparr>stack := peek g (ts + TASK_STRUCT_STACK_OFFSET) (stack t)\<rparr>;
          t = t\<lparr>files := peek g (ts + TASK_STRUCT_FILES_OFFSET) (files t)\<rparr>;
          t = t\<lparr>fdtable := peek g (files t + FILES_STRUCT_FDT_OFFSET) (fdtable t)\<rparr>;
          t = t\<lparr>list_head_tasks := (list_head_tasks t)
                \<lparr>lh_next := peek g (ts + TASK_STRUCT_TASKS_OFFSET) (lh_next (list_head_tasks t)),
                 lh_prev := peek g (ts + TASK_STRUCT_TASKS_OFFSET + of_nat LINUX_ADDR_SIZE) (lh_prev (list_head_tasks t))\<rparr>\<rparr>;
          t = t\<lparr>pid := ucast (peek g (ts + TASK_STRUCT_PID_OFFSET) (ucast (pid t)))\<rparr>;
          t = t\<lparr>parent_task_struct := peek g (ts + TASK_STRUCT_PARENT_OFFSET) (parent_task_struct t)\<rparr>;
          t = t\<lparr>parent_pid := ucast (peek g (parent_task_struct t + TASK_STRUCT_PID_OFFSET) (ucast (parent_pid t)))\<rparr>;
          t = t\<lparr>task_name := snd (read_virtaddr_data g (ts + TASK_STRUCT_COMM_OFFSET) 16 (task_name t))\<rparr>;
          t = t\<lparr>mm := peek g (ts + TASK_STRUCT_MM_OFFSET) (mm t)\<rparr>;
          t = t\<lparr>mm_pgd := peek g (mm t + MM_STRUCT_PGD_OFFSET) (mm_pgd t)\<rparr>;
          t = t\<lparr>active_mm := peek g (ts + TASK_STRUCT_ACTIVE_MM_OFFSET) (active_mm t)\<rparr>;
          t = t\<lparr>active_mm_pgd := peek g (active_mm t + MM_STRUCT_PGD_OFFSET) (active_mm_pgd t)\<rparr>
      in t\<lparr>mm_pgd_phys := guest_phys g (mm_pgd t), active_mm_pgd_phys := guest_phys g (active_mm_pgd t),
           list_head_tasks := (list_head_tasks t)\<lparr>list_head_field := ts + TASK_STRUCT_TASKS_OFFSET\<rparr>\<rparr>)"

definition get_kaslr_offset :: "guest \<Rightarrow> u64 option" where
  "get_kaslr_offset g = (if 0xFFFFFFFF00000000 < guest_rbp g
     then Some ((guest_rbp g AND NOT (0x4000 - 1)) - START_INIT_TASK) else None)"

text \<open>\<open>init_task\<close> and \<open>init_task_info\<close>, found once.\<close>

definition get_init_task :: "guest \<Rightarrow> u64 \<times> linux_task_info \<Rightarrow> u64 \<times> linux_task_info" where
  "get_init_task g = (\<lambda>(init_task, info).
     if init_task = 0
     then (case get_kaslr_offset g of
             None \<Rightarrow> (init_task, info)
           | Some k \<Rightarrow> (INIT_TASK + k, get_linux_task_struct_info g (INIT_TASK + k) info))
     else (init_task, info))"

definition find_cr3_in_task :: "linux_task_info \<Rightarrow> u64 \<Rightarrow> bool" where
  "find_cr3_in_task t cr3 = (if mm t = 0 then cr3 = active_mm_pgd_phys t else cr3 = mm_pgd_phys t)"

partial_function (option) cr3_loop :: "guest \<Rightarrow> u64 \<Rightarrow> u64 \<Rightarrow> linux_task_info \<Rightarrow> linux_task_info option" where
  "cr3_loop g head cr3 pos =
     (if lh_next (list_head_tasks pos) = head then Some zero_task
      else if find_cr3_in_task pos cr3 then Some pos
      else cr3_loop g head cr3
             (get_linux_task_struct_info g (container_of (lh_next (list_head_tasks pos)) TASK_STRUCT_TASKS_OFFSET) pos))"

definition traverse_task_list_by_cr3 :: "guest \<Rightarrow> linux_task_info \<Rightarrow> u64 \<Rightarrow> linux_task_info option" where
  "traverse_task_list_by_cr3 g t cr3 = cr3_loop g (list_head_field (list_head_tasks t)) cr3 t"

definition find_cr3_in_task_list :: "guest \<Rightarrow> u64 \<Rightarrow> linux_task_info \<Rightarrow> linux_task_info \<Rightarrow> u64 \<Rightarrow> linux_task_info option" where
  "find_cr3_in_task_list g init_task init_task_info garbage cr3 =
     (if init_task \<noteq> 0 then traverse_task_list_by_cr3 g init_task_info cr3 else Some garbage)"

section \<open>Open files\<close>

text \<open>The first 64 files of the table; a failed read keeps the last file and inode.\<close>

fun inode_loop :: "guest \<Rightarrow> u64 \<Rightarrow> nat \<Rightarrow> u64 \<Rightarrow> u64 \<Rightarrow> u64 \<Rightarrow> int" where
  "inode_loop g inode 0 fd file inode_in_task = 0"
| "inode_loop g inode (Suc n) fd file inode_in_task =
     (let file = peek g fd file;
          inode_in_task = peek g (file + STRUCT_FILE_FINODE_OFFSET) inode_in_task
      in if inode_in_task = inode then 1 else inode_loop g inode n (fd + of_nat LINUX_ADDR_SIZE) file inode_in_task)"

definition find_inode_in_task :: "guest \<Rightarrow> u64 \<times> u64 \<times> u64 \<Rightarrow> linux_task_info \<Rightarrow> u64 \<Rightarrow> int" where
  "find_inode_in_task g garbage t inode = (case garbage of (fd, file, inode_in_task) \<Rightarrow>
     if \<not> is_linux_kernel_addr (fdtable t) then - 1
     else inode_loop g inode NR_OPEN_DEFAULT (peek g (fdtable t + FDTABLE_FD_OFFSET) fd) file inode_in_task)"

partial_function (option) inode_task_loop :: "guest \<Rightarrow> u64 \<times> u64 \<times> u64 \<Rightarrow> u64 \<Rightarrow> u64 \<Rightarrow> linux_task_info \<Rightarrow> linux_task_info option" where
  "inode_task_loop g garbage head inode pos =
     (if lh_next (list_head_tasks pos) = head then Some zero_task
      else if parent_pid pos \<noteq> 2 \<and> find_inode_in_task g garbage pos inode = 1 then Some pos
      else inode_task_loop g garbage head inode
             (get_linux_task_struct_info g (container_of (lh_next (list_head_tasks pos)) TASK_STRUCT_TASKS_OFFSET) pos))"

definition traverse_task_list_by_inode :: "guest \<Rightarrow> u64 \<times> u64 \<times> u64 \<Rightarrow> linux_task_info \<Rightarrow> u64 \<Rightarrow> linux_task_info option" where
  "traverse_task_list_by_inode g garbage t inode = inode_task_loop g garbage (list_head_field (list_head_tasks t)) inode t"

definition sg_page :: "u64 \<Rightarrow> u64" where "sg_page page_link = page_link AND NOT (SG_CHAIN OR SG_END)"

text \<open>\<open>sizeof(struct ehci_qtd)\<close> is 52; the guest's URB address follows the descriptor.\<close>

definition get_urbvirt_from_qtdm :: "bytes \<Rightarrow> u64" where
  "get_urbvirt_from_qtdm qtd = le_load 8 (\<lambda>k. qtd (52 + 28 + k))"

definition get_inode_from_qtdm :: "guest \<Rightarrow> bytes \<Rightarrow> u64" where
  "get_inode_from_qtdm g qtd =
     (let (ret, guesturbsg) = read_virtaddr g (get_urbvirt_from_qtdm qtd + 112) 0 in
      if \<not> ret then 0
      else let (ret, page_link) = read_virtaddr g guesturbsg 0 in
      if \<not> ret then 0
      else let (ret, address_space) = read_virtaddr g (sg_page page_link + 24) 0 in
      if \<not> ret then 0
      else let (ret, inode) = read_virtaddr g address_space 0 in
      if ret then inode else 0)"

section \<open>The walk over the task list\<close>

text \<open>In the guest, the next pointer of task \<open>a\<close> leads to the list field of task \<open>b\<close>.\<close>

definition next_task :: "guest \<Rightarrow> u64 \<Rightarrow> u64 \<Rightarrow> bool" where
  "next_task g a b \<longleftrightarrow> is_linux_kernel_addr (a + TASK_STRUCT_TASKS_OFFSET) \<and>
     (\<forall>k < 8. linear_byte g (a + TASK_STRUCT_TASKS_OFFSET + of_nat k) = Some (le_bytes (b + TASK_STRUCT_TASKS_OFFSET) k))"

fun task_chain :: "guest \<Rightarrow> u64 \<Rightarrow> u64 list \<Rightarrow> bool" where
  "task_chain g end [] \<longleftrightarrow> False"
| "task_chain g end [a] \<longleftrightarrow> next_task g a end"
| "task_chain g end (a # b # ts) \<longleftrightarrow> next_task g a b \<and> task_chain g end (b # ts)"

lemma peek_next: "next_task g a b \<Longrightarrow> peek g (a + TASK_STRUCT_TASKS_OFFSET) old = b + TASK_STRUCT_TASKS_OFFSET"
proof -
  assume a: "next_task g a b"
  have "le_load 8 (read_guest g (a + TASK_STRUCT_TASKS_OFFSET) 8 (le_bytes old)) = (le_load 8 (le_bytes (b + TASK_STRUCT_TASKS_OFFSET)) :: u64)"
    using a by (intro le_load_cong) (simp add: next_task_def read_guest_def)
  then show ?thesis using a
    by (simp add: peek_def read_virtaddr_def read_virtaddr_data_def next_task_def LINUX_ADDR_SIZE_def)
qed

lemma task_info_fields:
  "task_struct (get_linux_task_struct_info g a t) = a"
  "list_head_field (list_head_tasks (get_linux_task_struct_info g a t)) = a + TASK_STRUCT_TASKS_OFFSET"
  "next_task g a b \<Longrightarrow> lh_next (list_head_tasks (get_linux_task_struct_info g a t)) = b + TASK_STRUCT_TASKS_OFFSET"
  by (simp_all add: get_linux_task_struct_info_def Let_def peek_next)

lemma cr3_loop_chain:
  assumes "task_chain g end ts" "end \<notin> set (tl ts)"
  shows "\<exists>r. cr3_loop g (end + TASK_STRUCT_TASKS_OFFSET) cr3 (get_linux_task_struct_info g (hd ts) t) = Some r \<and>
     (r = zero_task \<or> task_struct r \<in> set (butlast ts) \<and> find_cr3_in_task r cr3)"
  using assms
proof (induction g "end" ts arbitrary: t rule: task_chain.induct)
  case (2 g "end" a)
  then show ?case by (subst cr3_loop.simps) (simp add: task_info_fields)
next
  case (3 g "end" a b ts)
  define p where "p = get_linux_task_struct_info g a t"
  have nx: "lh_next (list_head_tasks p) = b + TASK_STRUCT_TASKS_OFFSET" "task_struct p = a"
    using 3 by (simp_all add: p_def task_info_fields)
  have step: "cr3_loop g (end + TASK_STRUCT_TASKS_OFFSET) cr3 p =
    (if find_cr3_in_task p cr3 then Some p
     else cr3_loop g (end + TASK_STRUCT_TASKS_OFFSET) cr3 (get_linux_task_struct_info g b p))"
    using 3 nx by (subst cr3_loop.simps) (auto simp: container_of_def)
  have "end \<notin> set (tl (b # ts))" "task_chain g end (b # ts)" using 3 by simp_all
  from 3(1) [OF this(2,1), of p] obtain r where r:
    "cr3_loop g (end + TASK_STRUCT_TASKS_OFFSET) cr3 (get_linux_task_struct_info g b p) = Some r"
    "r = zero_task \<or> task_struct r \<in> set (butlast (b # ts)) \<and> find_cr3_in_task r cr3" by auto
  show ?case
  proof (cases "find_cr3_in_task p cr3")
    case True
    then show ?thesis using step nx(2) by (simp add: p_def [symmetric])
  next
    case False
    then show ?thesis using step r by (auto simp: p_def [symmetric])
  qed
qed simp

text \<open>C35: Over a task list that is a ring in the guest the walk for a page table returns, with a task that uses the page
  table or with none, and the last task of the ring, the one created last, is never returned.\<close>

theorem cr3_walk_returns:
  assumes "task_chain g (hd ts) ts" "distinct ts" "init_task_info = get_linux_task_struct_info g (hd ts) t"
  shows "\<exists>r. find_cr3_in_task_list g (hd ts) init_task_info garbage cr3 = (if hd ts = 0 then Some garbage else Some r) \<and>
     (r = zero_task \<or> task_struct r \<in> set ts - {last ts} \<and> find_cr3_in_task r cr3)"
proof -
  have ne: "ts \<noteq> []" using assms(1) by auto
  have "hd ts \<notin> set (tl ts)" using assms(2) ne by (cases ts) auto
  from cr3_loop_chain [OF assms(1) this, of cr3 t] obtain r where
    r: "cr3_loop g (hd ts + TASK_STRUCT_TASKS_OFFSET) cr3 init_task_info = Some r"
    "r = zero_task \<or> task_struct r \<in> set (butlast ts) \<and> find_cr3_in_task r cr3" by (auto simp: assms(3))
  have "last ts \<notin> set (butlast ts)" using assms(2) ne
    by (metis append_butlast_last_id distinct_append disjoint_insert(1) list.simps(15))
  then have "set (butlast ts) \<subseteq> set ts - {last ts}" by (auto dest: in_set_butlastD)
  then show ?thesis using r
    by (intro exI [of _ r]) (auto simp: find_cr3_in_task_list_def traverse_task_list_by_cr3_def assms(3) task_info_fields)
qed

text \<open>Two tasks in a ring.\<close>

definition ring_demo :: guest where
  "ring_demo = \<lparr>linear_byte = (\<lambda>a. Some
       (if a < 0xFFFF888000001000 + 0x7A8 then le_bytes (0xFFFF888000009000 + 0x7A0 :: u64) (unat (a - (0xFFFF888000001000 + 0x7A0)))
        else le_bytes (0xFFFF888000001000 + 0x7A0 :: u64) (unat (a - (0xFFFF888000009000 + 0x7A0))))),
     guest_phys = (\<lambda>a. a AND 0xFFFFFFFF), guest_rbp = 0, guest_gs_base = 0, guest_cr3 = 0\<rparr>"

theorem cr3_walk_returns_witness:
  "\<exists>r. find_cr3_in_task_list ring_demo 0xFFFF888000001000
      (get_linux_task_struct_info ring_demo 0xFFFF888000001000 zero_task) zero_task 7 = Some r \<and> task_struct r \<noteq> 0xFFFF888000009000"
proof -
  have "task_chain ring_demo 0xFFFF888000001000 [0xFFFF888000001000, 0xFFFF888000009000]"
    unfolding task_chain.simps next_task_def all_less_eight
    by (simp add: ring_demo_def TASK_STRUCT_TASKS_OFFSET_def is_linux_kernel_addr_def KERNEL_ADDR_SPACE_START_def)
  then show ?thesis
    using cr3_walk_returns [of ring_demo "[0xFFFF888000001000, 0xFFFF888000009000]" _ zero_task zero_task 7]
    by (auto simp: zero_task_def)
qed

end
