(* ===== verification/Core_Syscall.thy ===== *)
theory Core_Syscall
  imports Detect_Linux
begin

text \<open>
  The interception of system calls, core/ransomtag_core.c of the detection modules, with the parts of the hypervisor
  that it changed: the EFER register in core/vt_msr.c, whose SCE bit is kept clear so that every SYSCALL and SYSRET of the guest
  raises an invalid opcode exception, and \<open>do_exception\<close> of core/vt_main.c, which hands that exception to \<open>handle_UD\<close>.
  A computation that returns \<open>None\<close> is a panic of the hypervisor or has left C.
  Shadow page tables and the TLB, which some of the register writes flush, are not part of the state.
\<close>

section \<open>The virtual CPU\<close>

datatype general_reg =
    GENERAL_REG_RAX | GENERAL_REG_RCX | GENERAL_REG_RDX | GENERAL_REG_RBX
  | GENERAL_REG_RSP | GENERAL_REG_RBP | GENERAL_REG_RSI | GENERAL_REG_RDI
  | GENERAL_REG_R8 | GENERAL_REG_R9 | GENERAL_REG_R10 | GENERAL_REG_R11
  | GENERAL_REG_R12 | GENERAL_REG_R13 | GENERAL_REG_R14 | GENERAL_REG_R15

record guest_segment =
  seg_sel :: u64
  seg_base :: u64
  seg_limit :: u64
  seg_access_rights :: u64

text \<open>
  The guest registers in the VMCS and in \<open>current->u.vt\<close>; \<open>cpu_msr\<close> are the MSRs of the processor itself,
  \<open>guest_msr\<close> the area that is loaded on entry to the guest. \<open>guest_rflags\<close> are the flags as \<open>vt_read_flags\<close> shows them and
  \<open>vt_write_flags\<close> sets them: while the hypervisor runs real mode code in virtual 8086 mode, the VMCS has the VM bit in addition, which
  none of the emulated instructions writes. \<open>updateip\<close> tells the loop of the hypervisor that an instruction has moved \<open>guest_rip\<close>.
\<close>

record vt_cpu =
  general :: "general_reg \<Rightarrow> u64"
  guest_rip :: u64
  updateip :: bool
  guest_rflags :: u64
  guest_cs :: guest_segment
  guest_ss :: guest_segment
  fs_base :: u64
  gs_base :: u64
  sysenter_cs :: u64
  sysenter_esp :: u64
  sysenter_eip :: u64
  debugctl :: u64
  vmcs_efer :: u64
  vmentry_ctl :: u64
  exit_instruction_len :: u64
  exit_intr_info :: u64
  exit_intr_errcode :: u64
  cpu_msr :: "u32 \<Rightarrow> u64"
  guest_msr :: "int \<Rightarrow> u64"
  msr_efer :: int
  save_load_efer_enable :: bool
  vt_lme :: bool
  vt_lma :: bool
  vr_pg :: bool
  vr_re :: bool
  sw_enable :: bool
  vmcs_intr_info :: u32
  vmcs_exception_errcode :: u32
  vmcs_instruction_len :: u32
  attemp_set_sce :: bool
  msrbmp :: "nat \<Rightarrow> u8"

definition MSR_IA32_SYSENTER_CS :: u32 where "MSR_IA32_SYSENTER_CS = 0x174"
definition MSR_IA32_SYSENTER_ESP :: u32 where "MSR_IA32_SYSENTER_ESP = 0x175"
definition MSR_IA32_SYSENTER_EIP :: u32 where "MSR_IA32_SYSENTER_EIP = 0x176"
definition MSR_IA32_DEBUGCTL :: u32 where "MSR_IA32_DEBUGCTL = 0x1D9"
definition MSR_IA32_EFER :: u32 where "MSR_IA32_EFER = 0xC0000080"
definition MSR_IA32_STAR :: u32 where "MSR_IA32_STAR = 0xC0000081"
definition MSR_IA32_LSTAR :: u32 where "MSR_IA32_LSTAR = 0xC0000082"
definition MSR_AMD_CSTAR :: u32 where "MSR_AMD_CSTAR = 0xC0000083"
definition MSR_IA32_FMASK :: u32 where "MSR_IA32_FMASK = 0xC0000084"
definition MSR_IA32_FS_BASE :: u32 where "MSR_IA32_FS_BASE = 0xC0000100"
definition MSR_IA32_GS_BASE :: u32 where "MSR_IA32_GS_BASE = 0xC0000101"
definition MSR_IA32_KERNEL_GS_BASE :: u32 where "MSR_IA32_KERNEL_GS_BASE = 0xC0000102"

lemmas msr_defs = MSR_IA32_SYSENTER_CS_def MSR_IA32_SYSENTER_ESP_def MSR_IA32_SYSENTER_EIP_def MSR_IA32_DEBUGCTL_def
  MSR_IA32_EFER_def MSR_IA32_STAR_def MSR_IA32_LSTAR_def MSR_AMD_CSTAR_def MSR_IA32_FMASK_def MSR_IA32_FS_BASE_def
  MSR_IA32_GS_BASE_def MSR_IA32_KERNEL_GS_BASE_def

definition EFER_SCE_BIT :: u64 where "EFER_SCE_BIT = 0x1"
definition EFER_LME_BIT :: u64 where "EFER_LME_BIT = 0x100"
definition EFER_LMA_BIT :: u64 where "EFER_LMA_BIT = 0x400"
definition VMENTRY_CTL_64_GUEST_BIT :: u64 where "VMENTRY_CTL_64_GUEST_BIT = 0x200"
definition RFLAGS_RF_BIT :: u64 where "RFLAGS_RF_BIT = 0x10000"
definition RFLAGS_VM_BIT :: u64 where "RFLAGS_VM_BIT = 0x20000"
definition RFLAGS_ALWAYS1_BIT :: u64 where "RFLAGS_ALWAYS1_BIT = 0x2"
definition RFLAGS_IOPL_MASK :: u64 where "RFLAGS_IOPL_MASK = 0x3000"

section \<open>The EFER register\<close>

text \<open>The first component is the error flag of the source; \<open>old\<close> is the destination, kept on an error.\<close>

definition vt_read_guest_msr :: "vt_cpu \<Rightarrow> int \<Rightarrow> u64 \<Rightarrow> bool \<times> u64" where
  "vt_read_guest_msr s i old = (if 0 \<le> i then (False, guest_msr s i) else (True, old))"

definition vt_write_guest_msr :: "int \<Rightarrow> u64 \<Rightarrow> vt_cpu \<Rightarrow> bool \<times> vt_cpu" where
  "vt_write_guest_msr i data s =
     (if 0 \<le> i then (False, s\<lparr>guest_msr := (guest_msr s)(i := data)\<rparr>) else (True, s))"

definition read_guest_efer :: "vt_cpu \<Rightarrow> u64 \<Rightarrow> bool \<times> u64" where
  "read_guest_efer s old =
     (if \<not> save_load_efer_enable s then vt_read_guest_msr s (msr_efer s) old else (False, vmcs_efer s))"

definition write_guest_efer :: "u64 \<Rightarrow> vt_cpu \<Rightarrow> bool \<times> vt_cpu" where
  "write_guest_efer efer s =
     (if \<not> save_load_efer_enable s then vt_write_guest_msr (msr_efer s) efer s
      else (False, s\<lparr>vmcs_efer := efer\<rparr>))"

text \<open>\<open>garbage\<close> is the uninitialised local of the source, written back when there is no slot for the register.\<close>

definition vt_msr_update_lma :: "u64 \<Rightarrow> vt_cpu \<Rightarrow> vt_cpu" where
  "vt_msr_update_lma garbage s =
     (let mask = EFER_LME_BIT OR EFER_LMA_BIT in
      if vt_lme s \<and> vr_pg s then
        if vt_lma s then s
        else
          let s = s\<lparr>vt_lma := True, vmentry_ctl := vmentry_ctl s OR VMENTRY_CTL_64_GUEST_BIT\<rparr>
          in snd (write_guest_efer (snd (read_guest_efer s garbage) OR mask) s)
      else if \<not> vt_lma s then s
      else
        let s = s\<lparr>vt_lma := False, vmentry_ctl := vmentry_ctl s AND NOT VMENTRY_CTL_64_GUEST_BIT\<rparr>
        in snd (write_guest_efer (snd (read_guest_efer s garbage) AND NOT mask) s))"

text \<open>The two cases of \<open>vt_read_msr\<close> and \<open>vt_write_msr\<close> for the register.\<close>

definition vt_read_efer :: "vt_cpu \<Rightarrow> u64 \<Rightarrow> bool \<times> u64" where
  "vt_read_efer s old =
     (let mask = EFER_LME_BIT OR EFER_LMA_BIT;
          (r, data) = read_guest_efer s old
      in if r then (True, old)
         else
           let data = data AND NOT mask;
               data = (if vt_lme s then data OR EFER_LME_BIT else data);
               data = (if vt_lma s then data OR EFER_LMA_BIT else data);
               data = (if attemp_set_sce s \<and> data AND EFER_SCE_BIT = 0 then data OR EFER_SCE_BIT else data)
           in (False, data))"

definition vt_write_efer :: "u64 \<Rightarrow> u64 \<Rightarrow> vt_cpu \<Rightarrow> bool \<times> vt_cpu" where
  "vt_write_efer garbage msrdata s =
     (let mask = EFER_LME_BIT OR EFER_LMA_BIT;
          (r, data) = read_guest_efer s garbage
      in if r then (True, s)
         else
           let s = s\<lparr>vt_lme := msrdata AND EFER_LME_BIT \<noteq> 0\<rparr>;
               data = data AND mask OR msrdata AND NOT mask;
               (data, s) = (if data AND EFER_SCE_BIT \<noteq> 0
                 then (data AND NOT EFER_SCE_BIT, s\<lparr>attemp_set_sce := True\<rparr>) else (data, s));
               (r, s) = write_guest_efer data s
           in (r, vt_msr_update_lma garbage s))"

text \<open>
  The registers of the VMCS and those the processor keeps for the guest; the memory type, power and tracing registers, whose values come
  from other components, are the argument \<open>other\<close>.
\<close>

definition vt_read_msr :: "(vt_cpu \<Rightarrow> u32 \<Rightarrow> bool \<times> u64) \<Rightarrow> vt_cpu \<Rightarrow> u32 \<Rightarrow> u64 \<Rightarrow> bool \<times> u64" where
  "vt_read_msr other s i old =
     (if i = MSR_IA32_SYSENTER_CS then (False, sysenter_cs s)
      else if i = MSR_IA32_SYSENTER_ESP then (False, sysenter_esp s)
      else if i = MSR_IA32_SYSENTER_EIP then (False, sysenter_eip s)
      else if i = MSR_IA32_EFER then vt_read_efer s old
      else if i = MSR_IA32_FS_BASE then (False, fs_base s)
      else if i = MSR_IA32_GS_BASE then (False, gs_base s)
      else if i = MSR_IA32_DEBUGCTL then (False, debugctl s)
      else if i \<in> {MSR_IA32_STAR, MSR_IA32_LSTAR, MSR_AMD_CSTAR, MSR_IA32_FMASK, MSR_IA32_KERNEL_GS_BASE}
      then (False, cpu_msr s i)
      else other s i)"

section \<open>Emulated instructions\<close>

record syscall_sysret_opcode =
  code1 :: u8
  code2 :: u8
  code3 :: u8

text \<open>\<open>ransomtag_read_opcode\<close> is declared but not defined in the repository; it is the argument \<open>rd\<close>.\<close>

type_synonym opcode_reader = "vt_cpu \<Rightarrow> syscall_sysret_opcode \<Rightarrow> syscall_sysret_opcode"

definition zero_opcode :: syscall_sysret_opcode where "zero_opcode = \<lparr>code1 = 0, code2 = 0, code3 = 0\<rparr>"

definition is_syscall_instruction :: "opcode_reader \<Rightarrow> vt_cpu \<Rightarrow> bool" where
  "is_syscall_instruction rd s = (let opcode = rd s zero_opcode in code1 opcode = 0x0F \<and> code2 opcode = 0x05)"

definition is_sysret_instruction :: "opcode_reader \<Rightarrow> vt_cpu \<Rightarrow> bool" where
  "is_sysret_instruction rd s =
     (let opcode = rd s zero_opcode in code1 opcode = 0x48 \<and> code2 opcode = 0x0F \<and> code3 opcode = 0x07)"

definition write_general_reg :: "general_reg \<Rightarrow> u64 \<Rightarrow> vt_cpu \<Rightarrow> vt_cpu" where
  "write_general_reg r v s = s\<lparr>general := (general s)(r := v)\<rparr>"

text \<open>The selector is the 16-bit value of the expression in the source.\<close>

definition EmulateSYSCALL :: "vt_cpu \<Rightarrow> bool \<times> vt_cpu" where
  "EmulateSYSCALL s =
     (let msr_lstar = cpu_msr s MSR_IA32_LSTAR;
          rip = guest_rip s + exit_instruction_len s;
          s = write_general_reg GENERAL_REG_RCX rip s;
          s = s\<lparr>guest_rip := msr_lstar, updateip := True\<rparr>;
          rflags = guest_rflags s;
          s = write_general_reg GENERAL_REG_R11 rflags s;
          fmask = cpu_msr s MSR_IA32_FMASK;
          s = s\<lparr>guest_rflags := rflags AND NOT (fmask OR RFLAGS_RF_BIT)\<rparr>;
          msr_star = cpu_msr s MSR_IA32_STAR;
          s = s\<lparr>guest_cs := \<lparr>seg_sel = ucast (ucast (drop_bit 32 msr_star AND NOT 3) :: u16), seg_base = 0,
                              seg_limit = 0xFFFFFFFF, seg_access_rights = 0xA09B\<rparr>\<rparr>;
          s = s\<lparr>guest_ss := \<lparr>seg_sel = ucast (ucast ((drop_bit 32 msr_star AND NOT 3) + 8) :: u16), seg_base = 0,
                              seg_limit = 0xFFFFFFFF, seg_access_rights = 0xC093\<rparr>\<rparr>
      in (True, s))"

text \<open>\<open>RFLAGS_RESERVED_BIT\<close> has no definition in the repository; it is the argument \<open>reserved\<close>.\<close>

definition EmulateSYSRET :: "u64 \<Rightarrow> vt_cpu \<Rightarrow> bool \<times> vt_cpu" where
  "EmulateSYSRET reserved s =
     (let s = s\<lparr>guest_rip := general s GENERAL_REG_RCX, updateip := True\<rparr>;
          r11 = general s GENERAL_REG_R11;
          rflags = r11 AND NOT (RFLAGS_RF_BIT OR RFLAGS_VM_BIT OR reserved) OR RFLAGS_ALWAYS1_BIT;
          s = s\<lparr>guest_rflags := rflags\<rparr>;
          msr_star = cpu_msr s MSR_IA32_STAR;
          s = s\<lparr>guest_cs := \<lparr>seg_sel = ucast (ucast (drop_bit 48 msr_star + 16 OR 3) :: u16), seg_base = 0,
                              seg_limit = 0xFFFFFFFF, seg_access_rights = 0xA0FB\<rparr>\<rparr>;
          s = s\<lparr>guest_ss := \<lparr>seg_sel = ucast (ucast (drop_bit 48 msr_star + 8 OR 3) :: u16), seg_base = 0,
                              seg_limit = 0xFFFFFFFF, seg_access_rights = 0xC0F3\<rparr>\<rparr>
      in (True, s))"

definition handle_UD :: "opcode_reader \<Rightarrow> u64 \<Rightarrow> vt_cpu \<Rightarrow> bool \<times> vt_cpu" where
  "handle_UD rd reserved s =
     (if is_syscall_instruction rd s then EmulateSYSCALL s
      else if is_sysret_instruction rd s then EmulateSYSRET reserved s
      else (False, s))"

section \<open>Exceptions of the guest\<close>

definition EXCEPTION_DB :: u64 where "EXCEPTION_DB = 0x1"
definition EXCEPTION_UD :: u64 where "EXCEPTION_UD = 0x6"
definition EXCEPTION_GP :: u64 where "EXCEPTION_GP = 0xD"
definition EXCEPTION_PF :: u64 where "EXCEPTION_PF = 0xE"

definition ii_vector :: "u64 \<Rightarrow> u64" where "ii_vector v = v AND 0xFF"
definition ii_type :: "u64 \<Rightarrow> u64" where "ii_type v = drop_bit 8 v AND 0x7"
definition ii_err :: "u64 \<Rightarrow> bool" where "ii_err v = bit v 11"
definition ii_valid :: "u64 \<Rightarrow> bool" where "ii_valid v = bit v 31"

text \<open>
  The shadow paging fault handler, the interpreter and the interrupts of the real mode, which \<open>do_exception\<close> calls, as
  arguments; the interpreter returns whether it succeeded, the others the state or a panic.
\<close>

record vt_calls =
  call_pagefault :: "u64 \<Rightarrow> vt_cpu \<Rightarrow> vt_cpu option"
  call_interpreter :: "vt_cpu \<Rightarrow> bool \<times> vt_cpu"
  call_realmode_int :: "vt_cpu \<Rightarrow> bool \<times> vt_cpu"

definition hard_exception :: "vt_calls \<Rightarrow> opcode_reader \<Rightarrow> u64 \<Rightarrow> u64 \<Rightarrow> vt_cpu \<Rightarrow> vt_cpu option" where
  "hard_exception X rd reserved vii s =
     (if ii_vector vii = EXCEPTION_UD then Some (snd (handle_UD rd reserved s))
      else if ii_vector vii = EXCEPTION_DB \<and> sw_enable s then Some s
      else if ii_vector vii = EXCEPTION_PF then call_pagefault X (exit_intr_errcode s) s
      else if vr_re s then
        if ii_vector vii = EXCEPTION_GP then
          (let (ok, s) = call_interpreter X s in if ok then Some s else None)
        else if ii_vector vii = EXCEPTION_DB then
          (let (failed, s) = call_realmode_int X s in if failed then None else Some s)
        else None
      else if ucast (vmcs_intr_info s) = vii then None
      else
        let s = s\<lparr>vmcs_intr_info := ucast vii\<rparr> in
        if ii_err vii \<and> ii_vector vii = EXCEPTION_GP \<and> exit_intr_errcode s = 0x6B then None
        else
          let s = (if ii_err vii then s\<lparr>vmcs_exception_errcode := ucast (exit_intr_errcode s)\<rparr> else s)
          in Some (s\<lparr>vmcs_instruction_len := 0\<rparr>))"

definition do_exception :: "vt_calls \<Rightarrow> opcode_reader \<Rightarrow> u64 \<Rightarrow> vt_cpu \<Rightarrow> vt_cpu option" where
  "do_exception X rd reserved s =
     (let vii = exit_intr_info s in
      if \<not> ii_valid vii then Some s
      else if ii_type vii = 3 then hard_exception X rd reserved vii s
      else if ii_type vii = 6 then
        Some (s\<lparr>vmcs_intr_info := ucast vii, vmcs_instruction_len := ucast (exit_instruction_len s)\<rparr>)
      else if ii_type vii = 2 then Some s
      else None)"

section \<open>The MSR bitmap\<close>

definition SetBit :: "nat \<Rightarrow> u64 \<Rightarrow> bool \<Rightarrow> (nat \<Rightarrow> u8) \<Rightarrow> nat \<Rightarrow> u8" where
  "SetBit addr b on m =
     (let Byte = addr + unat (b div 8); N = 7 - unat (b mod 8)
      in if on then m(Byte := m Byte OR push_bit N 1) else m(Byte := m Byte AND NOT (push_bit N 1)))"

definition SetMsrBitmap :: "u64 \<Rightarrow> bool \<Rightarrow> bool \<Rightarrow> vt_cpu \<Rightarrow> vt_cpu" where
  "SetMsrBitmap Msr rd wr s =
     (if \<not> rd \<and> \<not> wr then s
      else if Msr \<le> 0x1FFF then
        let m = (if rd then SetBit 0 Msr True (msrbmp s) else msrbmp s);
            m = (if wr then SetBit 2048 Msr True m else m)
        in s\<lparr>msrbmp := m\<rparr>
      else if 0xC0000000 \<le> Msr \<and> Msr \<le> 0xC0001FFF then
        let m = (if rd then SetBit 1024 (Msr - 0xC0000000) True (msrbmp s) else msrbmp s);
            m = (if wr then SetBit 3072 (Msr - 0xC0000000) True m else m)
        in s\<lparr>msrbmp := m\<rparr>
      else s)"

text \<open>The hypervisor's own way to a bit of the bitmap, core/vt_msr.c.\<close>

definition vt_setmsrbmp :: "nat \<Rightarrow> u32 \<Rightarrow> bool \<Rightarrow> (nat \<Rightarrow> u8) \<Rightarrow> nat \<Rightarrow> u8" where
  "vt_setmsrbmp p bitoffset b m =
     (let k = p + unat (drop_bit 3 bitoffset); n = unat (bitoffset AND 7)
      in if b then m(k := m k OR push_bit n 1) else m(k := m k AND NOT (push_bit n 1)))"

section \<open>Registers and the current task of the guest\<close>

definition get_init_task_stack :: "vt_cpu \<Rightarrow> u64 option" where
  "get_init_task_stack s =
     (if 0xFFFFFFFF00000000 < general s GENERAL_REG_RBP then Some (general s GENERAL_REG_RBP AND NOT (0x4000 - 1)) else None)"

definition get_current_rsp_reg :: "vt_cpu \<Rightarrow> u64 \<times> u64" where
  "get_current_rsp_reg s = (general s GENERAL_REG_RSP, general s GENERAL_REG_RBP)"

definition core_is_linux_kernel_addr :: "u64 \<Rightarrow> bool" where
  "core_is_linux_kernel_addr addr \<longleftrightarrow> KERNEL_ADDR_SPACE_START \<le> addr \<and> addr \<le> 0xFFFFFFFFFFFFFFFF"

definition core_read_virtaddr_data :: "guest \<Rightarrow> u64 \<Rightarrow> nat \<Rightarrow> bytes \<Rightarrow> bool \<times> bytes" where
  "core_read_virtaddr_data g a n dst =
     (if \<not> core_is_linux_kernel_addr a then (False, dst) else (True, read_guest g a n dst))"

definition CURRENT_TASK_GS_OFFSET :: u64 where "CURRENT_TASK_GS_OFFSET = 0x16BC0"

text \<open>What the source reads of the task itself is only printed, in code that is commented out.\<close>

definition core_get_current_task :: "guest \<Rightarrow> u64 \<Rightarrow> vt_cpu \<Rightarrow> u64" where
  "core_get_current_task g garbage s =
     (let gs_base = cpu_msr s MSR_IA32_KERNEL_GS_BASE;
          (ret, p) = core_read_virtaddr_data g (gs_base + CURRENT_TASK_GS_OFFSET) LINUX_ADDR_SIZE (le_bytes garbage)
      in le_load 8 p)"

definition core_excluded_processes :: "bytes list" where
  "core_excluded_processes = map c_string
     [[0x73, 0x77, 0x61, 0x70, 0x70, 0x65, 0x72], [0x6D, 0x6F, 0x64, 0x70, 0x72, 0x6F, 0x62, 0x65]]"

fun core_traverse_excluded :: "bytes \<Rightarrow> bytes list \<Rightarrow> bool option" where
  "core_traverse_excluded name [] = Some False"
| "core_traverse_excluded name (p # ps) = do {
     found \<leftarrow> mem_find_str name 31 p;
     if found \<noteq> None then Some True else core_traverse_excluded name ps }"

definition core_linux_traverse_excluded_process_list :: "bytes \<Rightarrow> bool option" where
  "core_linux_traverse_excluded_process_list name = core_traverse_excluded name core_excluded_processes"

section \<open>The architecture's instructions\<close>

text \<open>
  SYSCALL and SYSRET to 64-bit code as the processor's manual defines them, on the same state; the segments' cached
  attributes are flat 64-bit code and flat data of privilege 0 and 3.
\<close>

definition sdm_flat :: "u64 \<Rightarrow> u64 \<Rightarrow> guest_segment" where
  "sdm_flat sel rights = \<lparr>seg_sel = sel, seg_base = 0, seg_limit = 0xFFFFFFFF, seg_access_rights = rights\<rparr>"

text \<open>The EFER register as the guest sees it, and 64-bit mode: long mode is active and the code segment has the L bit (13).\<close>

definition guest_efer :: "vt_cpu \<Rightarrow> u64" where
  "guest_efer s = snd (vt_read_efer s 0)"

definition mode_64bit :: "vt_cpu \<Rightarrow> bool" where
  "mode_64bit s \<longleftrightarrow> bit (guest_efer s) 10 \<and> bit (seg_access_rights (guest_cs s)) 13"

text \<open>SYSCALL raises an invalid opcode exception (\<open>None\<close>) outside 64-bit mode and while EFER.SCE (bit 0) is clear.\<close>

definition sdm_syscall :: "vt_cpu \<Rightarrow> vt_cpu option" where
  "sdm_syscall s =
     (if \<not> mode_64bit s \<or> \<not> bit (guest_efer s) 0 then None
      else Some (s\<lparr>
        general := (general s)(GENERAL_REG_RCX := guest_rip s + exit_instruction_len s, GENERAL_REG_R11 := guest_rflags s),
        guest_rip := cpu_msr s MSR_IA32_LSTAR,
        guest_rflags := guest_rflags s AND NOT (cpu_msr s MSR_IA32_FMASK),
        guest_cs := sdm_flat (take_bit 16 (drop_bit 32 (cpu_msr s MSR_IA32_STAR)) AND 0xFFFC) 0xA09B,
        guest_ss := sdm_flat (take_bit 16 (drop_bit 32 (cpu_msr s MSR_IA32_STAR) + 8)) 0xC093\<rparr>))"

text \<open>SYSRET of privilege 0 in 64-bit mode.\<close>

definition sdm_sysret :: "vt_cpu \<Rightarrow> vt_cpu" where
  "sdm_sysret s = s\<lparr>
     guest_rip := general s GENERAL_REG_RCX,
     guest_rflags := general s GENERAL_REG_R11 AND 0x3C7FD7 OR 2,
     guest_cs := sdm_flat (take_bit 16 (drop_bit 48 (cpu_msr s MSR_IA32_STAR) + 16) OR 3) 0xA0FB,
     guest_ss := sdm_flat (take_bit 16 (drop_bit 48 (cpu_msr s MSR_IA32_STAR) + 8) OR 3) 0xC0F3\<rparr>"

lemma ucast_u16: "(ucast (ucast (w :: u64) :: u16) :: u64) = take_bit 16 w"
  by (rule bit_word_eqI) (auto simp: bit_simps)

lemma take_bit_or3: "take_bit 16 (w OR 3 :: u64) = take_bit 16 w OR 3"
  by (simp add: take_bit_or)

text \<open>
  C18: where the processor would execute SYSCALL, in 64-bit mode with SCE set in the EFER that the guest sees, the emulation is exactly the
  processor's instruction, when the kernel masks the resume flag (or the flag is clear) and its segments in STAR have privilege 0. Where
  the processor would raise an invalid opcode exception instead, the guest enters its kernel all the same.
\<close>

theorem EmulateSYSCALL_sdm:
  assumes "guest_rflags s AND RFLAGS_RF_BIT = 0 \<or> cpu_msr s MSR_IA32_FMASK AND RFLAGS_RF_BIT = RFLAGS_RF_BIT"
    and "drop_bit 32 (cpu_msr s MSR_IA32_STAR) AND 3 = 0"
  shows "case sdm_syscall s of
      Some s' \<Rightarrow> EmulateSYSCALL s = (True, s'\<lparr>updateip := True\<rparr>)
    | None \<Rightarrow> fst (EmulateSYSCALL s) \<and> guest_rip (snd (EmulateSYSCALL s)) = cpu_msr s MSR_IA32_LSTAR"
proof -
  let ?star = "drop_bit 32 (cpu_msr s MSR_IA32_STAR)"
  have flags: "guest_rflags s AND NOT (cpu_msr s MSR_IA32_FMASK OR RFLAGS_RF_BIT) = guest_rflags s AND NOT (cpu_msr s MSR_IA32_FMASK)"
    using assms(1) by (auto simp: bit_eq_iff bit_simps)
  have star: "?star AND NOT 3 = ?star"
    using assms(2) by (auto simp: bit_eq_iff bit_simps)
  have "take_bit 16 ?star AND 0xFFFC = take_bit 16 ?star"
  proof -
    have "take_bit 16 ?star AND 0xFFFC = take_bit 16 (?star AND NOT 3)"
      by (simp add: take_bit_and)
    then show ?thesis by (simp only: star)
  qed
  then show ?thesis
    by (simp add: EmulateSYSCALL_def sdm_syscall_def sdm_flat_def write_general_reg_def ucast_u16 Let_def
        star [simplified] flags [simplified])
qed


text \<open>
  Likewise SYSRET, when the bits that \<open>RFLAGS_RESERVED_BIT\<close> stands for cover those that the architecture reserves or a clear R11 hides, and no
  other: bits 3, 5, 15 and 22 to 63.
\<close>

theorem EmulateSYSRET_sdm:
  assumes "general s GENERAL_REG_R11 AND (RFLAGS_RF_BIT OR RFLAGS_VM_BIT OR reserved) =
    general s GENERAL_REG_R11 AND NOT 0x3C7FD7"
  shows "EmulateSYSRET reserved s = (True, (sdm_sysret s)\<lparr>updateip := True\<rparr>)"
proof -
  have "general s GENERAL_REG_R11 AND NOT (RFLAGS_RF_BIT OR RFLAGS_VM_BIT OR reserved) =
      general s GENERAL_REG_R11 AND 0x3C7FD7"
  proof -
    have "a AND NOT b = a AND c" if "a AND b = a AND NOT c" for a b c :: u64
      using that by (simp add: bit_eq_iff bit_simps) blast
    then show ?thesis using assms by blast
  qed
  then show ?thesis
    by (simp add: EmulateSYSRET_def sdm_sysret_def sdm_flat_def ucast_u16 take_bit_or3 RFLAGS_ALWAYS1_BIT_def Let_def)
qed

text \<open>A guest whose kernel has set up STAR the way Linux does, at a SYSCALL instruction.\<close>

definition cpu_demo :: vt_cpu where
  "cpu_demo = \<lparr>general = (\<lambda>_. 0), guest_rip = 0x401000, updateip = False, guest_rflags = 0x202, guest_cs = sdm_flat 0x33 0xA0FB,
     guest_ss = sdm_flat 0x2B 0xC0F3, fs_base = 0, gs_base = 0, sysenter_cs = 0, sysenter_esp = 0, sysenter_eip = 0, debugctl = 0,
     vmcs_efer = 0, vmentry_ctl = 0, exit_instruction_len = 2, exit_intr_info = 0x80000306, exit_intr_errcode = 0,
     cpu_msr = (\<lambda>_. 0)(MSR_IA32_STAR := 0x0023001000000000, MSR_IA32_LSTAR := 0xFFFFFFFF81000000, MSR_IA32_FMASK := 0x47700),
     guest_msr = (\<lambda>_. 0), msr_efer = 0, save_load_efer_enable = True, vt_lme = True, vt_lma = True, vr_pg = True, vr_re = False,
     sw_enable = False, vmcs_intr_info = 0, vmcs_exception_errcode = 0, vmcs_instruction_len = 0, attemp_set_sce = True,
     msrbmp = (\<lambda>_. 0)\<rparr>"

lemma cpu_demo_efer: "guest_efer cpu_demo = 0x501" "guest_efer (cpu_demo\<lparr>attemp_set_sce := False\<rparr>) = 0x500"
  by (simp_all add: guest_efer_def vt_read_efer_def read_guest_efer_def cpu_demo_def EFER_LME_BIT_def EFER_LMA_BIT_def EFER_SCE_BIT_def)

lemma cpu_demo_syscall: "sdm_syscall cpu_demo \<noteq> None" "sdm_syscall (cpu_demo\<lparr>attemp_set_sce := False\<rparr>) = None"
proof -
  have "bit (0x501 :: u64) 10" "bit (0x501 :: u64) 0" "\<not> bit (0x500 :: u64) 0" "bit (0xA0FB :: u64) 13" by (simp_all add: bit_numeral_rec)
  then show "sdm_syscall cpu_demo \<noteq> None" "sdm_syscall (cpu_demo\<lparr>attemp_set_sce := False\<rparr>) = None"
    by (simp_all add: sdm_syscall_def mode_64bit_def cpu_demo_efer) (simp add: cpu_demo_def sdm_flat_def)
qed

theorem EmulateSYSCALL_sdm_witness:
  "(\<exists>s'. sdm_syscall cpu_demo = Some s' \<and> EmulateSYSCALL cpu_demo = (True, s'\<lparr>updateip := True\<rparr>)) \<and>
   sdm_syscall (cpu_demo\<lparr>attemp_set_sce := False\<rparr>) = None \<and>
   guest_rip (snd (EmulateSYSCALL (cpu_demo\<lparr>attemp_set_sce := False\<rparr>))) = 0xFFFFFFFF81000000"
proof -
  have d: "guest_rflags cpu_demo AND RFLAGS_RF_BIT = 0" "drop_bit 32 (cpu_msr cpu_demo MSR_IA32_STAR) AND 3 = 0"
    "cpu_msr cpu_demo MSR_IA32_LSTAR = 0xFFFFFFFF81000000"
    by (simp_all add: cpu_demo_def RFLAGS_RF_BIT_def msr_defs)
  then show ?thesis
    using EmulateSYSCALL_sdm [of cpu_demo] EmulateSYSCALL_sdm [of "cpu_demo\<lparr>attemp_set_sce := False\<rparr>"] cpu_demo_syscall by auto
qed

definition cpu_demo_return :: vt_cpu where
  "cpu_demo_return = cpu_demo\<lparr>general := (\<lambda>_. 0)(GENERAL_REG_RCX := 0x401002, GENERAL_REG_R11 := 0x10246)\<rparr>"

theorem EmulateSYSRET_sdm_witness: "EmulateSYSRET 0xFFFFFFFFFFC08028 cpu_demo_return = (True, (sdm_sysret cpu_demo_return)\<lparr>updateip := True\<rparr>)"
  by (rule EmulateSYSRET_sdm) (simp add: cpu_demo_return_def RFLAGS_RF_BIT_def RFLAGS_VM_BIT_def)

section \<open>System calls and returns\<close>

definition ud_exit :: "vt_cpu \<Rightarrow> bool" where
  "ud_exit s \<longleftrightarrow> ii_valid (exit_intr_info s) \<and> ii_type (exit_intr_info s) = 3 \<and> ii_vector (exit_intr_info s) = EXCEPTION_UD"

lemma do_exception_ud: "ud_exit s \<Longrightarrow> do_exception X rd reserved s = Some (snd (handle_UD rd reserved s))"
  by (simp add: ud_exit_def do_exception_def hard_exception_def Let_def)

lemma not_both: "is_sysret_instruction rd s \<Longrightarrow> \<not> is_syscall_instruction rd s"
  by (simp add: is_sysret_instruction_def is_syscall_instruction_def Let_def)

lemma handle_UD_syscall: "is_syscall_instruction rd s \<Longrightarrow> handle_UD rd reserved s = EmulateSYSCALL s"
  by (simp add: handle_UD_def)

lemma handle_UD_sysret: "is_sysret_instruction rd s \<Longrightarrow> handle_UD rd reserved s = EmulateSYSRET reserved s"
  by (simp add: handle_UD_def not_both)

text \<open>
  C17: a system call and the return from it bring the guest back behind the SYSCALL with its flags, whatever the kernel did in
  between, if the kernel kept RCX and R11.
\<close>

theorem syscall_returns:
  assumes "ud_exit s" "is_syscall_instruction rd s" "do_exception X rd reserved s = Some s1"
    and "general s2 GENERAL_REG_RCX = general s1 GENERAL_REG_RCX" "general s2 GENERAL_REG_R11 = general s1 GENERAL_REG_R11"
    and "ud_exit s2" "is_sysret_instruction rd s2"
    and "guest_rflags s AND (RFLAGS_RF_BIT OR RFLAGS_VM_BIT OR reserved) = 0" "guest_rflags s AND RFLAGS_ALWAYS1_BIT = RFLAGS_ALWAYS1_BIT"
  shows "\<exists>s3. do_exception X rd reserved s2 = Some s3 \<and> guest_rip s3 = guest_rip s + exit_instruction_len s \<and>
    guest_rflags s3 = guest_rflags s \<and> general s3 = general s2"
proof -
  let ?x = "RFLAGS_RF_BIT OR RFLAGS_VM_BIT OR reserved"
  have s1: "s1 = snd (EmulateSYSCALL s)"
    using assms(1-3) by (simp add: do_exception_ud handle_UD_syscall)
  then have regs: "general s2 GENERAL_REG_RCX = guest_rip s + exit_instruction_len s" "general s2 GENERAL_REG_R11 = guest_rflags s"
    using assms(4,5) by (simp_all add: EmulateSYSCALL_def write_general_reg_def Let_def)
  have "a AND NOT b OR c = a" if "a AND b = 0" "a AND c = c" for a b c :: u64
    using that by (simp add: bit_eq_iff bit_simps) blast
  from this [OF assms(8,9)] have "guest_rflags s AND NOT ?x OR RFLAGS_ALWAYS1_BIT = guest_rflags s" .
  then show ?thesis
    using assms(6,7) by (simp add: do_exception_ud handle_UD_sysret EmulateSYSRET_def regs Let_def)
qed

text \<open>
  C37: SYSRET is emulated for user code too, and loads the I/O privilege level and the interrupt flag from R11: a program of privilege 3
  gives itself access to every port of the guest, where the processor would raise a general protection fault.
\<close>

theorem sysret_escalates:
  assumes "ud_exit s" "is_sysret_instruction rd s" "seg_access_rights (guest_ss s) AND 0x60 = 0x60"
    and "reserved AND (RFLAGS_IOPL_MASK OR 0x200) = 0"
  shows "\<exists>s'. do_exception X rd reserved s = Some s' \<and> seg_access_rights (guest_ss s') AND 0x60 = 0x60 \<and>
    guest_rflags s' AND (RFLAGS_IOPL_MASK OR 0x200) = general s GENERAL_REG_R11 AND (RFLAGS_IOPL_MASK OR 0x200)"
proof -
  let ?m = "RFLAGS_IOPL_MASK OR 0x200"
  have keep: "(a AND NOT (b OR d OR r) OR c) AND m = a AND m" if "r AND m = 0" "b AND m = 0" "d AND m = 0" "c AND m = 0"
    for a b c d r m :: u64
    using that by (simp add: bit_eq_iff bit_simps) blast
  have "(a AND NOT (RFLAGS_RF_BIT OR RFLAGS_VM_BIT OR reserved) OR RFLAGS_ALWAYS1_BIT) AND ?m = a AND ?m" for a
    by (rule keep [OF assms(4)]) (simp_all add: RFLAGS_RF_BIT_def RFLAGS_VM_BIT_def RFLAGS_IOPL_MASK_def RFLAGS_ALWAYS1_BIT_def)
  then show ?thesis
    using assms(1,2) by (simp add: do_exception_ud handle_UD_sysret EmulateSYSRET_def Let_def)
qed

text \<open>
  C36: any other invalid opcode is swallowed: nothing of the guest changes and no exception is injected, so the guest meets the same
  instruction again, as often as it runs.
\<close>

theorem invalid_opcode_stuck:
  assumes "ud_exit s" "\<not> is_syscall_instruction rd s" "\<not> is_sysret_instruction rd s"
  shows "((\<lambda>r. Option.bind r (do_exception X rd reserved)) ^^ n) (Some s) = Some s"
  using assms by (induction n) (simp_all add: do_exception_ud handle_UD_def)

definition demo_calls :: vt_calls where
  "demo_calls = \<lparr>call_pagefault = (\<lambda>_ s. Some s), call_interpreter = (\<lambda>s. (True, s)), call_realmode_int = (\<lambda>s. (False, s))\<rparr>"

text \<open>A reader that takes the bytes at the guest's instruction pointer: SYSCALL at 0x401000, SYSRET at 0x401002, UD2 elsewhere.\<close>

definition demo_reader :: opcode_reader where
  "demo_reader s old =
     (if guest_rip s = 0x401000 then \<lparr>code1 = 0x0F, code2 = 0x05, code3 = 0x90\<rparr>
      else if guest_rip s = 0x401002 then \<lparr>code1 = 0x48, code2 = 0x0F, code3 = 0x07\<rparr>
      else \<lparr>code1 = 0x0F, code2 = 0x0B, code3 = 0x90\<rparr>)"

lemmas ud_demo = ud_exit_def ii_valid_def ii_type_def ii_vector_def EXCEPTION_UD_def demo_reader_def
  is_sysret_instruction_def is_syscall_instruction_def RFLAGS_RF_BIT_def RFLAGS_VM_BIT_def RFLAGS_IOPL_MASK_def RFLAGS_ALWAYS1_BIT_def

definition cpu_demo_kernel :: vt_cpu where "cpu_demo_kernel = (snd (EmulateSYSCALL cpu_demo))\<lparr>guest_rip := 0x401002\<rparr>"

theorem syscall_returns_witness:
  "\<exists>s3. do_exception demo_calls demo_reader 0xFFFFFFFFFFC08028 cpu_demo_kernel = Some s3 \<and> guest_rip s3 = 0x401002 \<and>
    guest_rflags s3 = 0x202 \<and> general s3 = general cpu_demo_kernel"
proof -
  have len: "guest_rip cpu_demo + exit_instruction_len cpu_demo = 0x401002" "guest_rflags cpu_demo = 0x202" by (simp_all add: cpu_demo_def)
  have call: "ud_exit cpu_demo" "is_syscall_instruction demo_reader cpu_demo"
    by (simp_all add: ud_demo cpu_demo_def bit_numeral_rec)
  have ret: "ud_exit cpu_demo_kernel" "is_sysret_instruction demo_reader cpu_demo_kernel"
    by (simp_all add: ud_demo cpu_demo_kernel_def cpu_demo_def EmulateSYSCALL_def write_general_reg_def bit_numeral_rec Let_def)
  have step: "do_exception demo_calls demo_reader 0xFFFFFFFFFFC08028 cpu_demo = Some (snd (EmulateSYSCALL cpu_demo))"
    using call by (simp add: do_exception_ud handle_UD_syscall)
  show ?thesis
    using syscall_returns [OF call step _ _ ret] unfolding len
    by (simp add: cpu_demo_kernel_def RFLAGS_RF_BIT_def RFLAGS_VM_BIT_def RFLAGS_ALWAYS1_BIT_def)
qed

theorem sysret_escalates_witness:
  "\<exists>s'. do_exception demo_calls demo_reader 0xFFFFFFFFFFC08028
      (cpu_demo\<lparr>guest_rip := 0x401002, general := (\<lambda>_. 0)(GENERAL_REG_R11 := 0x3002)\<rparr>) = Some s' \<and>
    seg_access_rights (guest_ss s') AND 0x60 = 0x60 \<and> guest_rflags s' AND (RFLAGS_IOPL_MASK OR 0x200) = 0x3000"
  using sysret_escalates [of "cpu_demo\<lparr>guest_rip := 0x401002, general := (\<lambda>_. 0)(GENERAL_REG_R11 := 0x3002)\<rparr>" demo_reader
      "0xFFFFFFFFFFC08028" demo_calls]
  by (simp add: ud_demo cpu_demo_def sdm_flat_def)

theorem invalid_opcode_stuck_witness:
  "((\<lambda>r. Option.bind r (do_exception demo_calls demo_reader 0xFFFFFFFFFFC08028)) ^^ 3) (Some (cpu_demo\<lparr>guest_rip := 0x401004\<rparr>)) =
    Some (cpu_demo\<lparr>guest_rip := 0x401004\<rparr>)"
  by (rule invalid_opcode_stuck) (simp_all add: ud_demo cpu_demo_def)

section \<open>The hidden bit of EFER\<close>

definition efer_slot :: "vt_cpu \<Rightarrow> bool" where "efer_slot s \<longleftrightarrow> save_load_efer_enable s \<or> 0 \<le> msr_efer s"

definition real_efer :: "vt_cpu \<Rightarrow> u64" where
  "real_efer s = (if save_load_efer_enable s then vmcs_efer s else guest_msr s (msr_efer s))"

lemma read_guest_efer_slot: "efer_slot s \<Longrightarrow> read_guest_efer s old = (False, real_efer s)"
  by (auto simp: read_guest_efer_def vt_read_guest_msr_def efer_slot_def real_efer_def)

lemma write_guest_efer_slot:
  assumes "efer_slot s"
  shows "fst (write_guest_efer e s) = False" "efer_slot (snd (write_guest_efer e s))" "real_efer (snd (write_guest_efer e s)) = e"
    "vt_lme (snd (write_guest_efer e s)) = vt_lme s" "vt_lma (snd (write_guest_efer e s)) = vt_lma s"
    "attemp_set_sce (snd (write_guest_efer e s)) = attemp_set_sce s"
  using assms by (auto simp: write_guest_efer_def vt_write_guest_msr_def efer_slot_def real_efer_def)

text \<open>
  What the guest does to the register: it writes it, or turns paging on or off, which \<open>vt_write_control_reg\<close> follows with
  \<open>vt_msr_update_lma\<close>; everything else leaves the register alone.
\<close>

inductive efer_step :: "vt_cpu \<Rightarrow> vt_cpu \<Rightarrow> bool" where
  efer_write: "vt_write_efer garbage v s = (r, s') \<Longrightarrow> efer_step s s'"
| efer_paging: "s' = vt_msr_update_lma garbage (s\<lparr>vr_pg := pg\<rparr>) \<Longrightarrow> efer_step s s'"
| efer_other: "efer_slot s' = efer_slot s \<Longrightarrow> real_efer s' = real_efer s \<Longrightarrow> attemp_set_sce s' = attemp_set_sce s \<Longrightarrow> efer_step s s'"

lemma bit_efer: "bit EFER_SCE_BIT n \<longleftrightarrow> n = 0" "bit EFER_LME_BIT n \<longleftrightarrow> n = 8" "bit EFER_LMA_BIT n \<longleftrightarrow> n = 10"
proof -
  have exps: "EFER_SCE_BIT = 2 ^ 0" "EFER_LME_BIT = 2 ^ 8" "EFER_LMA_BIT = 2 ^ 10"
    by (simp_all add: EFER_SCE_BIT_def EFER_LME_BIT_def EFER_LMA_BIT_def)
  show "bit EFER_SCE_BIT n \<longleftrightarrow> n = 0" "bit EFER_LME_BIT n \<longleftrightarrow> n = 8" "bit EFER_LMA_BIT n \<longleftrightarrow> n = 10"
    unfolding exps bit_exp_iff by auto
qed

lemma u64_eq_iff: "x = y \<longleftrightarrow> (\<forall>n < 64. bit x n = bit y n)" for x y :: u64
  by (auto intro: bit_word_eqI)

lemma efer_bit_set: "w AND EFER_SCE_BIT = 0 \<longleftrightarrow> \<not> bit w 0" "w AND EFER_LME_BIT = 0 \<longleftrightarrow> \<not> bit w 8"
proof -
  have exps: "EFER_SCE_BIT = 2 ^ 0" "EFER_LME_BIT = 2 ^ 8" by (simp_all add: EFER_SCE_BIT_def EFER_LME_BIT_def)
  show "w AND EFER_SCE_BIT = 0 \<longleftrightarrow> \<not> bit w 0" "w AND EFER_LME_BIT = 0 \<longleftrightarrow> \<not> bit w 8"
    unfolding exps and_exp_eq_0_iff_not_bit by simp_all
qed

lemma efer_bits:
  "(e OR (EFER_LME_BIT OR EFER_LMA_BIT)) AND EFER_SCE_BIT = e AND EFER_SCE_BIT"
  "(e AND NOT (EFER_LME_BIT OR EFER_LMA_BIT)) AND EFER_SCE_BIT = e AND EFER_SCE_BIT"
  "(e OR (EFER_LME_BIT OR EFER_LMA_BIT)) AND NOT (EFER_LME_BIT OR EFER_LMA_BIT) = e AND NOT (EFER_LME_BIT OR EFER_LMA_BIT)"
proof -
  have disjoint: "m AND k = 0 \<Longrightarrow> (e OR m) AND k = e AND k" "m AND k = 0 \<Longrightarrow> (e AND NOT m) AND k = e AND k"
    "(e OR m) AND NOT m = e AND NOT m" for m k :: u64
    by (simp_all add: bit_eq_iff bit_simps) blast+
  show "(e OR (EFER_LME_BIT OR EFER_LMA_BIT)) AND EFER_SCE_BIT = e AND EFER_SCE_BIT"
    "(e AND NOT (EFER_LME_BIT OR EFER_LMA_BIT)) AND EFER_SCE_BIT = e AND EFER_SCE_BIT"
    by (rule disjoint; simp add: EFER_SCE_BIT_def EFER_LME_BIT_def EFER_LMA_BIT_def)+
  show "(e OR (EFER_LME_BIT OR EFER_LMA_BIT)) AND NOT (EFER_LME_BIT OR EFER_LMA_BIT) = e AND NOT (EFER_LME_BIT OR EFER_LMA_BIT)"
    by (rule disjoint)
qed

lemma update_lma_efer:
  assumes "efer_slot s" "real_efer s AND EFER_SCE_BIT = 0"
  shows "efer_slot (vt_msr_update_lma garbage s)" "real_efer (vt_msr_update_lma garbage s) AND EFER_SCE_BIT = 0"
    "attemp_set_sce (vt_msr_update_lma garbage s) = attemp_set_sce s" "vt_lme (vt_msr_update_lma garbage s) = vt_lme s"
    "real_efer (vt_msr_update_lma garbage s) AND NOT (EFER_LME_BIT OR EFER_LMA_BIT) = real_efer s AND NOT (EFER_LME_BIT OR EFER_LMA_BIT)"
proof -
  have slot: "efer_slot (s\<lparr>vt_lma := b, vmentry_ctl := c\<rparr>)" "real_efer (s\<lparr>vt_lma := b, vmentry_ctl := c\<rparr>) = real_efer s" for b c
    using assms(1) by (simp_all add: efer_slot_def real_efer_def)
  note facts = vt_msr_update_lma_def Let_def assms slot read_guest_efer_slot efer_bits write_guest_efer_slot
  show "efer_slot (vt_msr_update_lma garbage s)" "real_efer (vt_msr_update_lma garbage s) AND EFER_SCE_BIT = 0"
    "attemp_set_sce (vt_msr_update_lma garbage s) = attemp_set_sce s" "vt_lme (vt_msr_update_lma garbage s) = vt_lme s"
    "real_efer (vt_msr_update_lma garbage s) AND NOT (EFER_LME_BIT OR EFER_LMA_BIT) = real_efer s AND NOT (EFER_LME_BIT OR EFER_LMA_BIT)"
    by (simp_all only: facts if_distrib [of real_efer] simp_thms) (simp_all add: facts del: bit.de_Morgan_disj)
qed

lemma write_efer_state:
  assumes "efer_slot s"
  shows "\<exists>s0 e. vt_write_efer garbage v s = (False, vt_msr_update_lma garbage s0) \<and> efer_slot s0 \<and> real_efer s0 = e \<and>
    e AND EFER_SCE_BIT = 0 \<and> vt_lme s0 = (v AND EFER_LME_BIT \<noteq> 0) \<and>
    attemp_set_sce s0 = (attemp_set_sce s \<or> v AND EFER_SCE_BIT \<noteq> 0) \<and>
    e AND NOT (EFER_LME_BIT OR EFER_LMA_BIT) = (v AND NOT EFER_SCE_BIT) AND NOT (EFER_LME_BIT OR EFER_LMA_BIT)"
proof -
  let ?m = "EFER_LME_BIT OR EFER_LMA_BIT"
  define e where "e = (real_efer s AND ?m OR v AND NOT ?m) AND NOT EFER_SCE_BIT"
  have merge: "(d AND m OR w AND NOT m) AND k = w AND k" "((d AND m OR w AND NOT m) AND NOT k) AND NOT m = (w AND NOT k) AND NOT m"
    if "m AND k = 0" for d m k w :: u64
    using that by (simp_all add: bit_eq_iff bit_simps) blast+
  have "?m AND EFER_SCE_BIT = 0" by (simp add: EFER_LME_BIT_def EFER_LMA_BIT_def EFER_SCE_BIT_def)
  note merge = merge [OF this, of "real_efer s" v]
  have e: "e AND EFER_SCE_BIT = 0" "e AND NOT ?m = (v AND NOT EFER_SCE_BIT) AND NOT ?m"
    unfolding e_def merge by (simp_all add: bit_eq_iff bit_simps)
  have no_sce: "e = real_efer s AND ?m OR v AND NOT ?m" if "v AND EFER_SCE_BIT = 0"
  proof -
    have "d AND NOT k = d" if "d AND k = 0" for d k :: u64 using that by (simp add: bit_eq_iff bit_simps) blast
    then show ?thesis using that merge(1) by (simp add: e_def)
  qed
  let ?s1 = "s\<lparr>vt_lme := v AND EFER_LME_BIT \<noteq> 0\<rparr>"
  let ?s2 = "if v AND EFER_SCE_BIT \<noteq> 0 then ?s1\<lparr>attemp_set_sce := True\<rparr> else ?s1"
  have slot: "efer_slot ?s2" using assms by (simp add: efer_slot_def)
  have "vt_write_efer garbage v s = (False, vt_msr_update_lma garbage (snd (write_guest_efer e ?s2)))"
    using read_guest_efer_slot [OF assms] write_guest_efer_slot(1) [OF slot, of e] no_sce merge(1)
    by (auto simp: vt_write_efer_def Let_def e_def prod_eq_iff case_prod_beta)
  moreover have "attemp_set_sce (snd (write_guest_efer e ?s2)) = (attemp_set_sce s \<or> v AND EFER_SCE_BIT \<noteq> 0)"
    "vt_lme (snd (write_guest_efer e ?s2)) = (v AND EFER_LME_BIT \<noteq> 0)"
    using write_guest_efer_slot [OF slot] by simp_all
  ultimately show ?thesis using write_guest_efer_slot(2,3) [OF slot] e by blast
qed

lemma efer_step_kept:
  assumes "efer_step s s'" "efer_slot s" "real_efer s AND EFER_SCE_BIT = 0"
  shows "efer_slot s' \<and> real_efer s' AND EFER_SCE_BIT = 0"
  using assms(1)
proof (cases rule: efer_step.cases)
  case (efer_write garbage v r)
  with write_efer_state [OF assms(2), of garbage v] show ?thesis by (auto simp: update_lma_efer)
next
  case (efer_paging garbage pg)
  have "efer_slot (s\<lparr>vr_pg := pg\<rparr>)" "real_efer (s\<lparr>vr_pg := pg\<rparr>) = real_efer s" using assms(2) by (simp_all add: efer_slot_def real_efer_def)
  with efer_paging assms(3) show ?thesis by (simp add: update_lma_efer)
qed (use assms in auto)

text \<open>
  C16: from the register's value 0 at start-up on, the processor's EFER never has the SCE bit, whatever the guest writes, so every SYSCALL
  and SYSRET of the guest raises the exception that \<open>handle_UD\<close> waits for.
\<close>

theorem sce_stays_clear:
  assumes "efer_step\<^sup>*\<^sup>* (snd (write_guest_efer 0 s)) s'" "efer_slot s"
  shows "efer_slot s' \<and> real_efer s' AND EFER_SCE_BIT = 0"
  using assms(1)
proof (induction rule: rtranclp_induct)
  case base
  then show ?case using write_guest_efer_slot [OF assms(2)] by simp
next
  case (step s1 s2)
  then show ?case using efer_step_kept [OF step.hyps(2)] by blast
qed

text \<open>
  the guest does not see this: what it reads back is what it wrote, with the LMA bit of its mode; but once it has set SCE, the bit
  reads as set even after it is cleared.
\<close>

theorem guest_sees_efer:
  assumes "efer_slot s" "vt_write_efer garbage v s = (r, s')" "real_efer s AND EFER_SCE_BIT = 0"
  shows "vt_read_efer s' old = (False, v AND NOT (EFER_SCE_BIT OR EFER_LMA_BIT) OR
    (if vt_lma s' then EFER_LMA_BIT else 0) OR (if attemp_set_sce s \<or> v AND EFER_SCE_BIT \<noteq> 0 then EFER_SCE_BIT else 0))"
proof -
  let ?m = "EFER_LME_BIT OR EFER_LMA_BIT"
  obtain s0 where s0: "s' = vt_msr_update_lma garbage s0" "efer_slot s0" "real_efer s0 AND EFER_SCE_BIT = 0"
    "vt_lme s0 = (v AND EFER_LME_BIT \<noteq> 0)" "attemp_set_sce s0 = (attemp_set_sce s \<or> v AND EFER_SCE_BIT \<noteq> 0)"
    "real_efer s0 AND NOT ?m = (v AND NOT EFER_SCE_BIT) AND NOT ?m"
    using write_efer_state [OF assms(1), of garbage v] assms(2) by auto
  note kept = update_lma_efer [OF s0(2,3), of garbage, folded s0(1)]
  have data: "real_efer s' AND NOT ?m = (v AND NOT EFER_SCE_BIT) AND NOT ?m" using kept(5) s0(6) by simp
  have real: "bit (real_efer s') n \<and> n \<noteq> 8 \<and> n \<noteq> 10 \<longleftrightarrow> bit v n \<and> n \<noteq> 0 \<and> n \<noteq> 8 \<and> n \<noteq> 10" for n
    using arg_cong [OF data, of "\<lambda>w. bit w n"] by (auto simp: bit_simps bit_efer dest: bit_imp_le_length)
  have "\<not> bit (real_efer s') 0" using kept(2) by (simp add: efer_bit_set)
  with read_guest_efer_slot [OF kept(1)] kept(3,4) s0(4,5) show ?thesis
    by (auto simp: vt_read_efer_def Let_def efer_bit_set bit_efer bit_simps u64_eq_iff real)
qed

theorem sce_stays_clear_witness:
  "efer_slot (snd (vt_write_efer 0 0xD01 (snd (write_guest_efer 0 cpu_demo)))) \<and>
    real_efer (snd (vt_write_efer 0 0xD01 (snd (write_guest_efer 0 cpu_demo)))) AND EFER_SCE_BIT = 0"
proof (rule sce_stays_clear)
  show "efer_step\<^sup>*\<^sup>* (snd (write_guest_efer 0 cpu_demo)) (snd (vt_write_efer 0 0xD01 (snd (write_guest_efer 0 cpu_demo))))"
    by (rule r_into_rtranclp, rule efer_write, rule prod.collapse [symmetric])
  show "efer_slot cpu_demo" by (simp add: efer_slot_def cpu_demo_def)
qed

theorem guest_sees_efer_witness:
  "\<exists>s'. vt_write_efer 0 0xD01 cpu_demo = (False, s') \<and> vt_read_efer s' 0 = (False, 0xD01)"
proof -
  obtain s' where s': "vt_write_efer 0 0xD01 cpu_demo = (False, s')" "vt_lma s'"
    by (simp add: vt_write_efer_def read_guest_efer_def write_guest_efer_def vt_msr_update_lma_def cpu_demo_def Let_def
        EFER_SCE_BIT_def EFER_LME_BIT_def EFER_LMA_BIT_def)
  have "efer_slot cpu_demo" "real_efer cpu_demo AND EFER_SCE_BIT = 0" by (simp_all add: efer_slot_def real_efer_def cpu_demo_def)
  from guest_sees_efer [OF this(1) s'(1) this(2), of 0] s'(2) have "vt_read_efer s' 0 = (False, 0xD01)"
    by (simp add: EFER_SCE_BIT_def EFER_LMA_BIT_def cpu_demo_def)
  with s'(1) show ?thesis by blast
qed

section \<open>The order of the bits in the MSR bitmap\<close>

lemma mirrored_bit: "unat ((u XOR 7) AND 7 :: u32) = 7 - unat u mod 8"
proof -
  define t where "t = unat u mod 8"
  have "(u XOR 7) AND 7 = take_bit 3 u XOR (7 :: u32)"
    by (simp add: take_bit_eq_mask mask_eq_exp_minus_1 bit.conj_xor_distrib2)
  moreover have "take_bit 3 u = of_nat t"
    by (simp add: t_def word_unat_eq_iff take_bit_eq_mod unat_mod unat_of_nat)
  moreover have "t \<in> {0, 1, 2, 3, 4, 5, 6, 7}" by (auto simp: t_def)
  ultimately show ?thesis by (auto simp: t_def [symmetric])
qed

lemma SetBit_mirrored:
  assumes "Msr < 0x2000"
  shows "SetBit p Msr True m = vt_setmsrbmp p (ucast Msr XOR 7) True m"
proof -
  define n where "n = unat Msr"
  have n: "n < 0x2000" "Msr = of_nat n" using assms by (auto simp: n_def word_less_nat_alt)
  have u32: "unat (ucast Msr :: u32) = n"
    using n(1) by (simp add: unsigned_ucast_eq n_def [symmetric] take_bit_nat_eq_self)
  have "drop_bit 3 (ucast Msr XOR 7 :: u32) = drop_bit 3 (ucast Msr)" by (simp add: drop_bit_xor)
  then have "unat (drop_bit 3 (ucast Msr XOR 7 :: u32)) = n div 8" using u32 by (simp add: drop_bit_eq_div unat_div)
  moreover have "unat (Msr div 8) = n div 8" "unat (Msr mod 8) = n mod 8" by (simp_all add: unat_div unat_mod n_def)
  ultimately show ?thesis by (simp add: SetBit_def vt_setmsrbmp_def mirrored_bit u32 Let_def)
qed

text \<open>
  \<open>SetMsrBitmap\<close> counts the bits of a byte from the top, the processor and the rest of the hypervisor from the bottom, so it
  intercepts the register whose number differs in the lowest three bits.
\<close>

theorem SetMsrBitmap_mirrored:
  assumes "Msr \<le> 0x1FFF"
  shows "msrbmp (SetMsrBitmap Msr True True s) =
    vt_setmsrbmp 2048 (ucast Msr XOR 7) True (vt_setmsrbmp 0 (ucast Msr XOR 7) True (msrbmp s))"
  using assms by (simp add: SetMsrBitmap_def Let_def SetBit_mirrored word_le_nat_alt word_less_nat_alt)

theorem SetMsrBitmap_mirrored_witness:
  "msrbmp (SetMsrBitmap 0x174 True True cpu_demo) = vt_setmsrbmp 2048 0x173 True (vt_setmsrbmp 0 0x173 True (\<lambda>_. 0))"
  using SetMsrBitmap_mirrored [of "0x174" cpu_demo] by (simp add: cpu_demo_def)

end
