(* ===== verification/Detect_Lists.thy ===== *)
theory Detect_Lists
  imports Detect_Common
begin

text \<open>
  The tables of the Windows detection, drivers/usb/ransomtag.c: the map of freed sectors filled from changes of the
  NTFS $Bitmap, the lists of process names, the read-write-delete patterns, and the master file table records that
  complete a pattern.  The name lists are the source's flat arrays of 15-byte entries.
\<close>

section \<open>State\<close>

record win_ransom_pattern =
  rp_ProcessName :: bytes
  ReadFileName :: bytes
  WriteFileName :: bytes
  DeleteFileName :: bytes
  rp_used :: bool

definition zero_pattern :: win_ransom_pattern where
  "zero_pattern = \<lparr>rp_ProcessName = (\<lambda>_. 0), ReadFileName = (\<lambda>_. 0), WriteFileName = (\<lambda>_. 0), DeleteFileName = (\<lambda>_. 0), rp_used = False\<rparr>"

record win_state =
  win_processe_blacklist :: bytes
  win_high_entropylist :: bytes
  patternlist :: "nat \<Rightarrow> win_ransom_pattern"
  ProcessForPattern :: bytes
  ntfs_bitmap :: "nat \<Rightarrow> u8"
  bitmap_lba :: u32
  bitmap_offset :: u64
  bitmap_inited :: bool
  bitmap_load_trigger :: bool
  bitmap_check_trigger :: bool
  bitmap_compare_trigger :: bool
  ParseMFT_trigger :: bool
  SectorPageBitmap :: sector_map
  sector2048count :: u32
  byte_count :: "u8 \<Rightarrow> u64"

definition NAME_SIZE :: nat where "NAME_SIZE = 15"
definition LIST_SIZE :: nat where "LIST_SIZE = 100"
definition BITMAP_SIZE :: nat where "BITMAP_SIZE = 250000"

section \<open>The sector map\<close>

text \<open>A sector number is an unsigned int that becomes the index, an int.\<close>

definition win_AddToSectorPageMap :: "u32 \<Rightarrow> u32 \<Rightarrow> sector_map \<Rightarrow> sector_map option" where
  "win_AddToSectorPageMap sector len = for_each [0..<unat len] (\<lambda>i. SetBitmap (sint (sector + of_nat i)))"

fun search_map :: "u32 \<Rightarrow> nat \<Rightarrow> sector_map \<Rightarrow> bool option" where
  "search_map lba 0 m = Some False"
| "search_map lba (Suc n) m = do {
     ret \<leftarrow> TestBitmap (sint lba) m;
     if ret \<noteq> 0 then Some True else search_map (lba + 1) n m }"

text \<open>The length is the transfer length of the command.\<close>

definition win_SearchSectorMap :: "cbw \<Rightarrow> sector_map \<Rightarrow> bool option" where
  "win_SearchSectorMap c m = search_map (cbw_lba c) (unat (dCBWDataTransferLength c)) m"

definition win_load_bitmap :: "win_state \<Rightarrow> win_state" where
  "win_load_bitmap s = (if bitmap_inited s then s else s\<lparr>bitmap_load_trigger := True\<rparr>)"

definition win_AddToBitmap :: "bytes \<Rightarrow> nat \<Rightarrow> win_state \<Rightarrow> win_state option" where
  "win_AddToBitmap buffer len s = for_each [0..<len] (\<lambda>i s. do {
     let element = unat (bitmap_offset s + of_nat i);
     ASSERT (element < BITMAP_SIZE);
     Some (s\<lparr>ntfs_bitmap := (ntfs_bitmap s)(element := buffer i)\<rparr>) }) s"

text \<open>The first loop of \<open>win_CheckBitmap\<close>: the bits that went from one to zero, when comparing, and the new bitmap.\<close>

definition bitmap_diff :: "bytes \<Rightarrow> nat \<Rightarrow> win_state \<Rightarrow> ((nat \<Rightarrow> u8) \<times> win_state) option" where
  "bitmap_diff buffer len s = for_each [0..<len] (\<lambda>i (CompareResult, s). do {
     let element = unat (bitmap_offset s + of_nat i);
     ASSERT (element < BITMAP_SIZE);
     ASSERT (bitmap_compare_trigger s \<longrightarrow> i < 4096);
     Some (if bitmap_compare_trigger s then CompareResult(i := NOT (buffer i) AND ntfs_bitmap s element) else CompareResult,
           s\<lparr>ntfs_bitmap := (ntfs_bitmap s)(element := buffer i)\<rparr>) }) ((\<lambda>_. 0), s)"

text \<open>The second loop: runs of such bits are added to the sector map when the bit after them is reached.\<close>

record runlist =
  RunlistStartCluster :: u32
  LengthCounter :: u32
  StartFlag :: bool
  ContinueFlag :: bool

definition compare_bit :: "(nat \<Rightarrow> u8) \<Rightarrow> nat \<Rightarrow> bool" where
  "compare_bit cr j \<longleftrightarrow> cr (j div 8) AND push_bit (j mod 8) 1 \<noteq> 0"

definition runlist_step :: "(nat \<Rightarrow> u8) \<Rightarrow> u64 \<Rightarrow> nat \<Rightarrow> runlist \<times> sector_map \<Rightarrow> (runlist \<times> sector_map) option" where
  "runlist_step cr offset j = (\<lambda>(r, m).
     if compare_bit cr j then
       Some (if StartFlag r
         then r\<lparr>RunlistStartCluster := of_nat j + ucast (offset * 8), LengthCounter := LengthCounter r + 1,
                StartFlag := False, ContinueFlag := True\<rparr>
         else r\<lparr>LengthCounter := LengthCounter r + 1\<rparr>, m)
     else if ContinueFlag r then do {
       m \<leftarrow> win_AddToSectorPageMap (RunlistStartCluster r * 8 + 2048) (LengthCounter r * 8) m;
       Some (r\<lparr>LengthCounter := 0, StartFlag := True, ContinueFlag := False\<rparr>, m) }
     else Some (r, m))"

definition win_CheckBitmap :: "bytes \<Rightarrow> nat \<Rightarrow> win_state \<Rightarrow> win_state option" where
  "win_CheckBitmap buffer len s = do {
     (cr, s) \<leftarrow> bitmap_diff buffer len s;
     if bitmap_compare_trigger s then do {
       (_, m) \<leftarrow> for_each [0..<len * 8] (runlist_step cr (bitmap_offset s))
          (\<lparr>RunlistStartCluster = 0, LengthCounter = 0, StartFlag = True, ContinueFlag = False\<rparr>, SectorPageBitmap s);
       Some (s\<lparr>SectorPageBitmap := m\<rparr>) }
     else Some s }"

section \<open>Process names\<close>

definition win_excluded_processes :: "bytes list" where
  "win_excluded_processes = map c_string [[0x49, 0x64, 0x6C, 0x65], [0x37, 0x7A, 0x47],
     [0x57, 0x69, 0x6E, 0x52, 0x41, 0x52], [0x44, 0x62, 0x67, 0x56, 0x69, 0x65, 0x77, 0x2E, 0x65, 0x78, 0x65]]"

definition win_entropy_excluded_processes :: "bytes list" where
  "win_entropy_excluded_processes = map c_string [[0x49, 0x64, 0x6C, 0x65], [0x53, 0x79, 0x73, 0x74, 0x65, 0x6D],
     [0x65, 0x78, 0x70, 0x6C, 0x6F, 0x72, 0x65, 0x72], [0x44, 0x62, 0x67, 0x56, 0x69, 0x65, 0x77, 0x2E, 0x65, 0x78, 0x65]]"

definition name_contains :: "bytes \<Rightarrow> bytes \<Rightarrow> bool option" where
  "name_contains name sub = map_option (\<lambda>r. r \<noteq> None) (mem_find_str name 14 sub)"

fun contains_any :: "bytes \<Rightarrow> bytes list \<Rightarrow> bool option" where
  "contains_any name [] = Some False"
| "contains_any name (sub # subs) = do {
     f \<leftarrow> name_contains name sub;
     if f then Some True else contains_any name subs }"

definition traverse_excluded_process_list :: "bytes \<Rightarrow> bool option" where
  "traverse_excluded_process_list name = contains_any name win_excluded_processes"

definition traverse_entropy_excluded_process_list :: "bytes \<Rightarrow> bool option" where
  "traverse_entropy_excluded_process_list name = contains_any name win_entropy_excluded_processes"

definition list_entry :: "bytes \<Rightarrow> nat \<Rightarrow> bytes" where
  "list_entry l i = (\<lambda>k. l (NAME_SIZE * i + k))"

text \<open>The search through a name list up to its first empty entry; it has no other bound.\<close>

fun name_search :: "nat \<Rightarrow> bytes \<Rightarrow> bytes \<Rightarrow> nat \<Rightarrow> (bool \<times> nat) option" where
  "name_search 0 name l i = None"
| "name_search (Suc n) name l i =
     (if list_entry l i 0 = 0 then Some (False, i)
      else do {
        f \<leftarrow> name_contains name (list_entry l i);
        if f then Some (True, i) else name_search n name l (i + 1) })"

definition set_entry :: "nat \<Rightarrow> bytes \<Rightarrow> bytes \<Rightarrow> bytes" where
  "set_entry i name l = (\<lambda>k. if NAME_SIZE * i \<le> k \<and> k < NAME_SIZE * (i + 1) then name (k - NAME_SIZE * i) else l k)"

definition win_traverse_process_blacklist :: "bytes \<Rightarrow> win_state \<Rightarrow> bool option" where
  "win_traverse_process_blacklist name s = map_option fst (name_search LIST_SIZE name (win_processe_blacklist s) 0)"

definition win_add_to_process_blacklist :: "bytes \<Rightarrow> win_state \<Rightarrow> (int \<times> win_state) option" where
  "win_add_to_process_blacklist name s = do {
     ex \<leftarrow> traverse_excluded_process_list name;
     if ex then Some (- 1, s)
     else do {
       (found, i) \<leftarrow> name_search LIST_SIZE name (win_processe_blacklist s) 0;
       Some (1, if found then s else s\<lparr>win_processe_blacklist := set_entry i name (win_processe_blacklist s)\<rparr>) } }"

definition win_add_to_high_entropylist :: "bytes \<Rightarrow> win_state \<Rightarrow> (int \<times> win_state) option" where
  "win_add_to_high_entropylist name s = do {
     (found, i) \<leftarrow> name_search LIST_SIZE name (win_high_entropylist s) 0;
     Some (if found then (1, s) else (2, s\<lparr>win_high_entropylist := set_entry i name (win_high_entropylist s)\<rparr>)) }"

definition win_traverse_high_entropylist :: "bytes \<Rightarrow> win_state \<Rightarrow> bool option" where
  "win_traverse_high_entropylist name s = map_option fst (name_search LIST_SIZE name (win_high_entropylist s) 0)"

section \<open>Patterns\<close>

datatype FileActivity = READFILE | WRITEFILE | DELETEFILE

text \<open>\<open>NTFS_MetaFile_ConvertToNonresident\<close>: the UTF-16 name, 42 bytes.\<close>

definition NTFS_MetaFile_ConvertToNonresident :: bytes where
  "NTFS_MetaFile_ConvertToNonresident = c_string
     [0x24, 0x0, 0x43, 0x0, 0x6F, 0x0, 0x6E, 0x0, 0x76, 0x0, 0x65, 0x0, 0x72, 0x0, 0x74, 0x0,
      0x54, 0x0, 0x6F, 0x0, 0x4E, 0x0, 0x6F, 0x0, 0x6E, 0x0, 0x72, 0x0, 0x65, 0x0, 0x73, 0x0,
      0x69, 0x0, 0x64, 0x0, 0x65, 0x0, 0x6E, 0x0, 0x74, 0x0]"

fun pattern_search :: "nat \<Rightarrow> bytes \<Rightarrow> nat \<Rightarrow> FileActivity \<Rightarrow> (nat \<Rightarrow> win_ransom_pattern) \<Rightarrow> nat \<Rightarrow> nat option option" where
  "pattern_search 0 filename len act t i = None"
| "pattern_search (Suc n) filename len act t i =
     (if \<not> rp_used (t i) then Some None
      else if memcmp_eq (case act of READFILE \<Rightarrow> ReadFileName (t i) | WRITEFILE \<Rightarrow> WriteFileName (t i) | DELETEFILE \<Rightarrow> DeleteFileName (t i))
                filename len then Some (Some i)
      else pattern_search n filename len act t (i + 1))"

definition win_traverse_patternlist :: "bytes \<Rightarrow> nat \<Rightarrow> FileActivity \<Rightarrow> win_state \<Rightarrow> nat option option" where
  "win_traverse_patternlist filename len act s = pattern_search LIST_SIZE filename len act (patternlist s) 0"

text \<open>Back from the last character to the last backslash: the start of the base name and its length.\<close>

fun base_name :: "bytes \<Rightarrow> nat \<Rightarrow> nat \<Rightarrow> (nat \<times> nat) option" where
  "base_name filename pos n =
     (if filename pos = 0x5C then Some (pos + 2, n)
      else if pos < 2 then None
      else base_name filename (pos - 2) (n + 2))"

text \<open>What one used entry does to a new activity: whether the function returns 1 there, and the entry.\<close>

definition pattern_entry :: "bytes \<Rightarrow> bytes \<Rightarrow> nat \<Rightarrow> FileActivity \<Rightarrow> bytes \<Rightarrow> win_ransom_pattern \<Rightarrow> (bool \<times> win_ransom_pattern) option" where
  "pattern_entry name filename len act for_pattern p =
     (case act of
        READFILE \<Rightarrow>
          if memcmp_eq (ReadFileName p) filename len
          then do { f \<leftarrow> name_contains (rp_ProcessName p) name; Some (f, p) }
          else Some (False, p)
      | WRITEFILE \<Rightarrow> do {
          f \<leftarrow> name_contains name for_pattern;
          f \<leftarrow> (if f then name_contains (rp_ProcessName p) name else Some False);
          let conv = f \<and> len \<le> 42 \<and> memcmp_eq NTFS_MetaFile_ConvertToNonresident filename len;
          let written = p\<lparr>WriteFileName := memcpy_bytes len filename (WriteFileName p)\<rparr>;
          Some (if conv \<and> memcmp_eq NTFS_MetaFile_ConvertToNonresident (WriteFileName p) 42 then (True, p)
                else if conv \<and> WriteFileName p 0 = 0 then (True, written)
                else if memcmp_eq (ReadFileName p) filename len then
                  if memcmp_eq (WriteFileName p) filename len then (True, p)
                  else if WriteFileName p 0 = 0 then (True, written)
                  else (False, p)
                else (False, p)) }
      | DELETEFILE \<Rightarrow> Some (False, p))"

fun pattern_loop :: "bytes \<Rightarrow> bytes \<Rightarrow> nat \<Rightarrow> FileActivity \<Rightarrow> bytes \<Rightarrow> nat list \<Rightarrow> nat \<Rightarrow> (nat \<Rightarrow> win_ransom_pattern) \<Rightarrow>
    (bool \<times> nat \<times> (nat \<Rightarrow> win_ransom_pattern)) option" where
  "pattern_loop name filename len act fp [] used t = Some (False, used, t)"
| "pattern_loop name filename len act fp (i # is) used t =
     (if \<not> rp_used (t i) then pattern_loop name filename len act fp is used t
      else do {
        (done, p) \<leftarrow> pattern_entry name filename len act fp (t i);
        let t = t(i := p);
        if done then Some (True, used + 1, t) else pattern_loop name filename len act fp is (used + 1) t })"

definition win_add_to_patternlist :: "bytes \<Rightarrow> bytes \<Rightarrow> u32 \<Rightarrow> FileActivity \<Rightarrow> win_state \<Rightarrow> (int \<times> win_state) option" where
  "win_add_to_patternlist name filename filename_length act s = do {
     black \<leftarrow> win_traverse_process_blacklist name s;
     if black \<or> filename_length < 2 then Some (0, s)
     else do {
       let filename_length = (if 512 < filename_length then 512 else filename_length);
       (start, len) \<leftarrow> base_name filename (unat filename_length - 2) 0;
       let filename = (\<lambda>k. filename (start + k));
       if len = 0 then Some (0, s)
       else do {
         (done, used, t) \<leftarrow> pattern_loop name filename len act (ProcessForPattern s) [0..<LIST_SIZE] 0 (patternlist s);
         if done then Some (1, s\<lparr>patternlist := t\<rparr>)
         else do {
           let t = (if LIST_SIZE \<le> used then (\<lambda>i. if i < LIST_SIZE then zero_pattern else t i) else t);
           if act \<noteq> READFILE then Some (0, s\<lparr>patternlist := t\<rparr>)
           else do {
             i \<leftarrow> find (\<lambda>i. \<not> rp_used (t i)) [0..<LIST_SIZE];
             let p = (t i)\<lparr>rp_ProcessName := memcpy_bytes 15 name (rp_ProcessName (t i)), rp_used := True,
                           ReadFileName := memcpy_bytes len filename (ReadFileName (t i))\<rparr>;
             Some (1, s\<lparr>patternlist := t(i := p)\<rparr>) } } } } }"

definition win_del_from_patternlist :: "bytes \<Rightarrow> win_state \<Rightarrow> win_state option" where
  "win_del_from_patternlist name = for_each [0..<LIST_SIZE] (\<lambda>i s. do {
     f \<leftarrow> name_contains (rp_ProcessName (patternlist s i)) name;
     Some (if f then s\<lparr>patternlist := (patternlist s)(i := zero_pattern)\<rparr> else s) })"

section \<open>The start\<close>

text \<open>The module's variables at load time.\<close>

definition win_boot :: win_state where
  "win_boot = \<lparr>win_processe_blacklist = (\<lambda>_. 0), win_high_entropylist = (\<lambda>_. 0), patternlist = (\<lambda>_. zero_pattern),
     ProcessForPattern = (\<lambda>_. 0), ntfs_bitmap = (\<lambda>_. 0), bitmap_lba = 0, bitmap_offset = 0, bitmap_inited = False,
     bitmap_load_trigger = False, bitmap_check_trigger = False, bitmap_compare_trigger = False, ParseMFT_trigger = False,
     SectorPageBitmap = (\<lambda>_. 0), sector2048count = 0, byte_count = (\<lambda>_. 0)\<rparr>"

section \<open>Changes of the bitmap\<close>

lemma sector_index:
  assumes "unat (a :: u32) + n < 16000008"
  shows "sint (a + of_nat n) = int (unat a + n)" "map_index_ok (int (unat a + n))"
proof -
  have "unat (a + of_nat n) = unat a + n" using assms by (simp add: unat_word_ariths unat_of_nat)
  then show "sint (a + of_nat n) = int (unat a + n)" using assms by (simp add: sint_small)
  have "int (unat a + n) < int 16000008" using assms by (simp only: of_nat_less_iff)
  then show "map_index_ok (int (unat a + n))" unfolding map_index(3) by simp
qed

lemma add_sectors:
  assumes "unat (sector :: u32) + n \<le> 16000008"
  shows "\<exists>m'. for_each [0..<n] (\<lambda>i. SetBitmap (sint (sector + of_nat i))) m = Some m' \<and>
     sector_set m' = sector_set m \<union> {int (unat sector) ..< int (unat sector + n)}"
  using assms
proof (induction n)
  case 0
  then show ?case by simp
next
  case (Suc n)
  then obtain m1 where m1: "for_each [0..<n] (\<lambda>i. SetBitmap (sint (sector + of_nat i))) m = Some m1"
    "sector_set m1 = sector_set m \<union> {int (unat sector) ..< int (unat sector + n)}" by auto
  have "unat sector + n < 16000008" using Suc.prems by simp
  note ix = sector_index [OF this]
  from SetBitmap_set [OF ix(2), of m1] obtain m2 where
    "SetBitmap (int (unat sector + n)) m1 = Some m2" "sector_set m2 = insert (int (unat sector + n)) (sector_set m1)" by blast
  with m1 show ?case by (auto simp: for_each_append ix(1))
qed

lemma win_AddToSectorPageMap_set:
  assumes "unat sector + unat len \<le> 16000008"
  shows "\<exists>m'. win_AddToSectorPageMap sector len m = Some m' \<and>
     sector_set m' = sector_set m \<union> {int (unat sector) ..< int (unat sector + unat len)}"
  unfolding win_AddToSectorPageMap_def by (rule add_sectors [OF assms])
section \<open>Freed clusters\<close>

text \<open>Bit \<open>j\<close> of the part of the bitmap that is written: a cluster in use that the write frees.\<close>

definition freed :: "bytes \<Rightarrow> win_state \<Rightarrow> nat \<Rightarrow> bool" where
  "freed buffer s j \<longleftrightarrow> bit (ntfs_bitmap s (unat (bitmap_offset s) + j div 8)) (j mod 8) \<and> \<not> bit (buffer (j div 8)) (j mod 8)"

text \<open>The eight sectors of cluster \<open>j\<close> of that part; the volume starts at sector 2048.\<close>

definition cluster_sectors :: "win_state \<Rightarrow> nat \<Rightarrow> int set" where
  "cluster_sectors s j = (let c = 8 * int (unat (bitmap_offset s)) + int j in {8 * c + 2048 ..< 8 * c + 2056})"

text \<open>The freed clusters whose run ends before position \<open>n\<close>.\<close>

definition ended_runs :: "(nat \<Rightarrow> bool) \<Rightarrow> nat \<Rightarrow> nat set" where
  "ended_runs P n = {i. P i \<and> (\<exists>k. i < k \<and> k < n \<and> \<not> P k)}"

lemma ended_runs_Suc:
  "P n \<Longrightarrow> ended_runs P (Suc n) = ended_runs P n"
  "\<not> P n \<Longrightarrow> ended_runs P (Suc n) = {i. i < n \<and> P i}"
  by (auto simp: ended_runs_def less_Suc_eq)

lemma bitmap_diff_ok:
  assumes "unat (bitmap_offset s) + n \<le> BITMAP_SIZE" "n \<le> 4096" "bitmap_compare_trigger s"
  shows "\<exists>cr. bitmap_diff buffer n s = Some (cr, s\<lparr>ntfs_bitmap := (\<lambda>k. if unat (bitmap_offset s) \<le> k \<and> k < unat (bitmap_offset s) + n
        then buffer (k - unat (bitmap_offset s)) else ntfs_bitmap s k)\<rparr>) \<and>
     (\<forall>i < n. cr i = NOT (buffer i) AND ntfs_bitmap s (unat (bitmap_offset s) + i))"
  using assms(1,2)
proof (induction n)
  case 0
  have "(\<lambda>k. if unat (bitmap_offset s) \<le> k \<and> k < unat (bitmap_offset s) + 0 then buffer (k - unat (bitmap_offset s)) else ntfs_bitmap s k) =
      ntfs_bitmap s" by (auto simp: fun_eq_iff)
  then show ?case by (simp add: bitmap_diff_def)
next
  case (Suc n)
  define off where "off = unat (bitmap_offset s)"
  from Suc obtain cr where cr: "bitmap_diff buffer n s = Some (cr, s\<lparr>ntfs_bitmap := (\<lambda>k. if off \<le> k \<and> k < off + n
        then buffer (k - off) else ntfs_bitmap s k)\<rparr>)" "\<forall>i < n. cr i = NOT (buffer i) AND ntfs_bitmap s (off + i)"
    unfolding off_def by auto
  have el: "unat (bitmap_offset s + of_nat n) = off + n"
    using Suc.prems(1) by (simp add: unat_word_ariths unat_of_nat off_def BITMAP_SIZE_def)
  have b: "off + n < BITMAP_SIZE" using Suc.prems(1) by (simp add: off_def)
  have upd: "(\<lambda>k. if off \<le> k \<and> k < off + n then buffer (k - off) else ntfs_bitmap s k)(off + n := buffer n) =
      (\<lambda>k. if off \<le> k \<and> k < off + Suc n then buffer (k - off) else ntfs_bitmap s k)"
    by (auto simp: fun_eq_iff)
  have "bitmap_diff buffer (Suc n) s = Some (cr(n := NOT (buffer n) AND ntfs_bitmap s (off + n)),
      s\<lparr>ntfs_bitmap := (\<lambda>k. if off \<le> k \<and> k < off + Suc n then buffer (k - off) else ntfs_bitmap s k)\<rparr>)"
    using cr(1) el b Suc.prems(2) assms(3) upd by (simp add: bitmap_diff_def for_each_append Let_def)
  then show ?case unfolding off_def [symmetric] using cr(2)
    by (intro exI [of _ "cr(n := NOT (buffer n) AND ntfs_bitmap s (off + n))"]) (simp add: less_Suc_eq fun_upd_def)
qed

lemma compare_bit_iff: "compare_bit cr j \<longleftrightarrow> bit (cr (j div 8)) (j mod 8)"
proof -
  have "j mod 8 < 8" by simp
  then have "bit (push_bit (j mod 8) 1 :: u8) n \<longleftrightarrow> n = j mod 8" for n
    by (auto simp: bit_push_bit_iff bit_1_iff simp del: push_bit_of_1 mod_less_divisor)
  moreover have "x = 0 \<longleftrightarrow> (\<forall>n. \<not> bit x n)" for x :: u8 by (auto intro: bit_word_eqI)
  ultimately show ?thesis by (auto simp: compare_bit_def bit_and_iff simp del: push_bit_of_1)
qed

text \<open>What the variables of the second loop say after \<open>n\<close> bits: the run that is open, or that none is.\<close>

definition runlist_inv :: "(nat \<Rightarrow> bool) \<Rightarrow> u64 \<Rightarrow> nat \<Rightarrow> runlist \<Rightarrow> bool" where
  "runlist_inv P off n r \<longleftrightarrow> StartFlag r = (\<not> ContinueFlag r) \<and>
    (if ContinueFlag r then \<exists>j0 < n. (\<forall>i. j0 \<le> i \<and> i < n \<longrightarrow> P i) \<and> (j0 = 0 \<or> \<not> P (j0 - 1)) \<and>
        unat (RunlistStartCluster r) = 8 * unat off + j0 \<and> LengthCounter r = of_nat (n - j0)
     else LengthCounter r = 0 \<and> (n = 0 \<or> \<not> P (n - 1)))"

lemma runlist_inv_open:
  assumes "runlist_inv P off n r" "ContinueFlag r"
  shows "\<exists>j0 < n. (\<forall>i. j0 \<le> i \<and> i < n \<longrightarrow> P i) \<and> (j0 = 0 \<or> \<not> P (j0 - 1)) \<and>
        unat (RunlistStartCluster r) = 8 * unat off + j0 \<and> LengthCounter r = of_nat (n - j0)"
  using conjunct2 [OF assms(1) [unfolded runlist_inv_def]] unfolding if_P [OF assms(2)] .

lemma ended_runs_none: "\<not> P n \<Longrightarrow> n = 0 \<or> \<not> P (n - 1) \<Longrightarrow> ended_runs P (Suc n) = ended_runs P n"
  unfolding ended_runs_Suc(2) [where P = P] ended_runs_def
  by (cases n) (auto simp: less_Suc_eq intro!: exI [of _ "n - 1"])

lemma ended_runs_close:
  assumes "\<not> P n" "j0 < n" "\<forall>i. j0 \<le> i \<and> i < n \<longrightarrow> P i" "j0 = 0 \<or> \<not> P (j0 - 1)"
  shows "ended_runs P (Suc n) = ended_runs P n \<union> {j0..<n}"
proof -
  have "i \<in> ended_runs P n" if "i < n" "P i" "\<not> j0 \<le> i" for i
  proof -
    have "\<not> P (j0 - 1)" "j0 \<noteq> 0" using assms(4) that by auto
    then have "i \<noteq> j0 - 1" using that by auto
    then show ?thesis using that \<open>\<not> P (j0 - 1)\<close> assms(2) by (auto simp: ended_runs_def intro!: exI [of _ "j0 - 1"])
  qed
  then show ?thesis unfolding ended_runs_Suc(2) [where P = P, OF assms(1)] using assms(3) by (auto simp: ended_runs_def)
qed

lemma cluster_block:
  assumes "j0 < n"
  shows "(\<Union>i \<in> {j0..<n}. {8 * (8 * int b + int i) + 2048 ..< 8 * (8 * int b + int i) + 2056}) =
    {int (8 * (8 * b + j0) + 2048) ..< int (8 * (8 * b + j0) + 2048 + 8 * (n - j0))}" (is "?U = ?I")
proof
  show "?U \<subseteq> ?I" using assms by (auto simp: of_nat_diff)
  show "?I \<subseteq> ?U"
  proof
    fix x assume x: "x \<in> ?I"
    define i where "i = nat ((x - 2048) div 8 - 8 * int b)"
    have "int j0 \<le> (x - 2048) div 8 - 8 * int b" "(x - 2048) div 8 - 8 * int b < int n" using x assms by auto
    then have i: "int i = (x - 2048) div 8 - 8 * int b" "j0 \<le> i" "i < n" by (simp_all add: i_def)
    have "8 * ((x - 2048) div 8) \<le> x - 2048" "x - 2048 < 8 * ((x - 2048) div 8) + 8" by linarith+
    then have "x \<in> {8 * (8 * int b + int i) + 2048 ..< 8 * (8 * int b + int i) + 2056}" unfolding i(1) by simp
    then show "x \<in> ?U" using i(2,3) by (intro UN_I [of i]) simp_all
  qed
qed

text \<open>One bit more: the four cases of the loop body.\<close>

lemma runlist_start:
  fixes off :: u64
  assumes "8 * unat off + N \<le> 1999744" "n < N"
  shows "unat (of_nat n + ucast (off * 8) :: u32) = 8 * unat off + n"
proof -
  have "unat (off * 8) = 8 * unat off" using assms(1) by (simp add: unat_word_ariths)
  then have "unat (ucast (off * 8) :: u32) = 8 * unat off" using assms(1) by (simp add: unsigned_ucast_eq take_bit_nat_eq_self)
  moreover have "unat (of_nat n :: u32) = n" using assms by (simp add: unat_of_nat)
  ultimately show ?thesis using assms by (simp add: unat_word_ariths)
qed

lemma runlist_step_in:
  assumes "compare_bit cr n" "P n" "runlist_inv P off n r" "8 * unat off + N \<le> 1999744" "n < N"
  shows "\<exists>r2. runlist_step cr off n (r, m) = Some (r2, m) \<and> runlist_inv P off (Suc n) r2"
proof (cases "ContinueFlag r")
  case True
  obtain j0 where j0: "j0 < n" "\<forall>i. j0 \<le> i \<and> i < n \<longrightarrow> P i" "j0 = 0 \<or> \<not> P (j0 - 1)"
    "unat (RunlistStartCluster r) = 8 * unat off + j0" "LengthCounter r = of_nat (n - j0)"
    using runlist_inv_open [OF assms(3) True] by (elim exE conjE) (rule that)
  have "LengthCounter r + 1 = of_nat (Suc n - j0)" using j0(1,5) by (simp add: Suc_diff_le del: of_nat_diff)
  then have "runlist_inv P off (Suc n) (r\<lparr>LengthCounter := LengthCounter r + 1\<rparr>)"
    unfolding runlist_inv_def using True assms(2,3) j0
    by (simp add: runlist_inv_def) (auto simp: less_Suc_eq)
  then show ?thesis using True assms(1,3) by (simp add: runlist_step_def runlist_inv_def)
next
  case False
  then have "LengthCounter r = 0" "n = 0 \<or> \<not> P (n - 1)" "StartFlag r" using assms(3) by (simp_all add: runlist_inv_def)
  then have "runlist_inv P off (Suc n) (r\<lparr>RunlistStartCluster := of_nat n + ucast (off * 8), LengthCounter := LengthCounter r + 1,
      StartFlag := False, ContinueFlag := True\<rparr>)"
    unfolding runlist_inv_def using assms(2) runlist_start [OF assms(4,5)] by simp (auto simp: less_Suc_eq)
  then show ?thesis using False assms(1) \<open>StartFlag r\<close> by (simp add: runlist_step_def)
qed

lemma runlist_step_out:
  assumes "\<not> compare_bit cr n" "\<not> P n" "runlist_inv P off n r" "8 * unat off + N \<le> 1999744" "n < N"
  defines "sec i \<equiv> {8 * (8 * int (unat off) + int i) + 2048 ..< 8 * (8 * int (unat off) + int i) + 2056}"
  assumes "sector_set m = M \<union> (\<Union>i \<in> ended_runs P n. sec i)"
  shows "\<exists>r2 m2. runlist_step cr off n (r, m) = Some (r2, m2) \<and> runlist_inv P off (Suc n) r2 \<and>
    sector_set m2 = M \<union> (\<Union>i \<in> ended_runs P (Suc n). sec i)"
proof (cases "ContinueFlag r")
  case False
  then have "LengthCounter r = 0" "n = 0 \<or> \<not> P (n - 1)" "StartFlag r" using assms(3) by (simp_all add: runlist_inv_def)
  then show ?thesis using False assms(1,2,7) ended_runs_none [of P n] by (simp add: runlist_step_def runlist_inv_def)
next
  case True
  obtain j0 where j0: "j0 < n" "\<forall>i. j0 \<le> i \<and> i < n \<longrightarrow> P i" "j0 = 0 \<or> \<not> P (j0 - 1)"
    "unat (RunlistStartCluster r) = 8 * unat off + j0" "LengthCounter r = of_nat (n - j0)"
    using runlist_inv_open [OF assms(3) True] by (elim exE conjE) (rule that)
  have a: "unat (RunlistStartCluster r * 8 + 2048) = 8 * (8 * unat off + j0) + 2048"
    using j0 assms(4,5) by (simp add: unat_word_ariths)
  have l: "unat (LengthCounter r * 8) = 8 * (n - j0)"
    using j0(1,5) assms(4,5) by (simp add: unat_word_ariths unat_of_nat del: of_nat_diff)
  have "unat (RunlistStartCluster r * 8 + 2048) + unat (LengthCounter r * 8) \<le> 16000008"
    unfolding a l using j0(1) assms(4,5) by simp
  from win_AddToSectorPageMap_set [OF this, of m] obtain m2 where
    m2: "win_AddToSectorPageMap (RunlistStartCluster r * 8 + 2048) (LengthCounter r * 8) m = Some m2"
    "sector_set m2 = sector_set m \<union> (\<Union>i \<in> {j0..<n}. sec i)"
    unfolding a l sec_def cluster_block [OF j0(1)] by blast
  have "runlist_inv P off (Suc n) (r\<lparr>LengthCounter := 0, StartFlag := True, ContinueFlag := False\<rparr>)"
    unfolding runlist_inv_def using assms(2) by simp
  moreover have "sector_set m2 = M \<union> (\<Union>i \<in> ended_runs P (Suc n). sec i)"
    unfolding m2(2) assms(7) ended_runs_close [where P = P, OF assms(2) j0(1-3)] by blast
  ultimately show ?thesis using True assms(1) m2(1) by (simp add: runlist_step_def)
qed

lemma runlist_loop:
  fixes off :: u64
  assumes "\<And>j. j < N \<Longrightarrow> compare_bit cr j = P j" and "8 * unat off + N \<le> 1999744" and "n \<le> N"
  defines "sec i \<equiv> {8 * (8 * int (unat off) + int i) + 2048 ..< 8 * (8 * int (unat off) + int i) + 2056}"
  shows "\<exists>r m'. for_each [0..<n] (runlist_step cr off)
      (\<lparr>RunlistStartCluster = 0, LengthCounter = 0, StartFlag = True, ContinueFlag = False\<rparr>, m) = Some (r, m') \<and>
    sector_set m' = sector_set m \<union> (\<Union>i \<in> ended_runs P n. sec i) \<and> runlist_inv P off n r"
  using assms(3)
proof (induction n)
  case 0
  then show ?case by (simp add: ended_runs_def runlist_inv_def)
next
  case (Suc n)
  from Suc obtain r m1 where r: "for_each [0..<n] (runlist_step cr off)
      (\<lparr>RunlistStartCluster = 0, LengthCounter = 0, StartFlag = True, ContinueFlag = False\<rparr>, m) = Some (r, m1)"
    "sector_set m1 = sector_set m \<union> (\<Union>i \<in> ended_runs P n. sec i)" "runlist_inv P off n r" by auto
  have n: "n < N" "compare_bit cr n = P n" using Suc.prems assms(1) by simp_all
  have "\<exists>r2 m2. runlist_step cr off n (r, m1) = Some (r2, m2) \<and> runlist_inv P off (Suc n) r2 \<and>
      sector_set m2 = sector_set m \<union> (\<Union>i \<in> ended_runs P (Suc n). sec i)"
  proof (cases "P n")
    case True
    then show ?thesis using runlist_step_in [OF _ True r(3) assms(2) n(1), of cr m1] n(2) r(2)
      unfolding ended_runs_Suc(1) [where P = P, OF True] by blast
  next
    case False
    then show ?thesis using runlist_step_out [OF _ False r(3) assms(2) n(1) r(2) [unfolded sec_def], of cr] n(2)
      unfolding sec_def by simp
  qed
  then show ?case using r(1) by (auto simp: for_each_append)
qed

text \<open>In the monitoring mode, a write to the volume bitmap of at most 4096 bytes that stays within the copy kept by
  the module marks exactly the sectors of the freed clusters: the new sector set is the old one and the eight sectors of
  every cluster that goes from used to free, except those of a run that lasts up to the end of the write, which the loop
  never closes. The copy becomes the written bitmap.\<close>

theorem win_CheckBitmap_freed:
  assumes "bitmap_compare_trigger s" "len \<le> 4096" "unat (bitmap_offset s) + len \<le> 249968"
  shows "\<exists>s'. win_CheckBitmap buffer len s = Some s' \<and>
    sector_set (SectorPageBitmap s') = sector_set (SectorPageBitmap s) \<union>
      (\<Union>i \<in> ended_runs (freed buffer s) (8 * len). cluster_sectors s i) \<and>
    (\<forall>i < len. ntfs_bitmap s' (unat (bitmap_offset s) + i) = buffer i)"
proof -
  define off where "off = bitmap_offset s"
  from bitmap_diff_ok [of s len buffer] assms obtain cr where cr: "bitmap_diff buffer len s = Some (cr, s\<lparr>ntfs_bitmap :=
      (\<lambda>k. if unat off \<le> k \<and> k < unat off + len then buffer (k - unat off) else ntfs_bitmap s k)\<rparr>)"
    "\<forall>i < len. cr i = NOT (buffer i) AND ntfs_bitmap s (unat off + i)" unfolding off_def by (auto simp: BITMAP_SIZE_def)
  have "compare_bit cr j = freed buffer s j" if "j < 8 * len" for j
  proof -
    have "j div 8 < len" "j mod 8 < 8" using that by auto
    then show ?thesis using cr(2) unfolding compare_bit_iff freed_def off_def
      by (auto simp: bit_and_iff bit_not_iff simp del: mod_less_divisor)
  qed
  from runlist_loop [of "8 * len" cr "freed buffer s" off "8 * len" "SectorPageBitmap s", OF this] assms(3)
  obtain r m' where m: "for_each [0..<8 * len] (runlist_step cr off)
      (\<lparr>RunlistStartCluster = 0, LengthCounter = 0, StartFlag = True, ContinueFlag = False\<rparr>, SectorPageBitmap s) = Some (r, m')"
    "sector_set m' = sector_set (SectorPageBitmap s) \<union> (\<Union>i \<in> ended_runs (freed buffer s) (8 * len). cluster_sectors s i)"
    by (auto simp: off_def cluster_sectors_def Let_def)
  then show ?thesis using cr(1) assms(1) by (simp add: win_CheckBitmap_def off_def mult.commute)
qed

definition bitmap_demo :: win_state where
  "bitmap_demo = win_boot\<lparr>bitmap_compare_trigger := True, ntfs_bitmap := (\<lambda>k. if k = 0 then 7 else 0)\<rparr>"

theorem win_CheckBitmap_freed_witness:
  "\<exists>s'. win_CheckBitmap (\<lambda>_. 0) 1 bitmap_demo = Some s' \<and>
    sector_set (SectorPageBitmap s') = sector_set (SectorPageBitmap bitmap_demo) \<union>
      (\<Union>i \<in> ended_runs (freed (\<lambda>_. 0) bitmap_demo) (8 * 1). cluster_sectors bitmap_demo i) \<and>
    (\<forall>i < 1. ntfs_bitmap s' (unat (bitmap_offset bitmap_demo) + i) = 0)"
  by (rule win_CheckBitmap_freed) (simp_all add: bitmap_demo_def win_boot_def)

section \<open>The lists of names\<close>

definition terminated :: "bytes \<Rightarrow> bool" where
  "terminated p \<longleftrightarrow> (\<exists>k < NAME_SIZE. p k = 0)"

lemma strlen_is:
  assumes "p n = 0" "\<forall>k < n. p k \<noteq> 0"
  shows "strlen p = Some n"
proof -
  have "strlen_from p m = Some n" if "m \<le> n" for m
    using that
  proof (induction "n - m" arbitrary: m)
    case 0
    then show ?case using assms by (subst strlen_from.simps) simp
  next
    case (Suc d)
    then have "p m \<noteq> 0" using assms(2) by simp
    then show ?case using Suc.hyps(1) [of "m + 1"] Suc.hyps(2) by (subst strlen_from.simps) simp
  qed
  then show ?thesis by (simp add: strlen_def)
qed

lemma terminated_length:
  assumes "terminated p"
  shows "\<exists>n < NAME_SIZE. strlen p = Some n \<and> p n = 0 \<and> (\<forall>k < n. p k \<noteq> 0)"
proof -
  from assms obtain k where k: "k < NAME_SIZE" "p k = 0" by (auto simp: terminated_def)
  define n where "n = (LEAST k. p k = 0)"
  have "p n = 0" unfolding n_def by (rule LeastI [of _ k]) (rule k)
  moreover have "\<forall>k < n. p k \<noteq> 0" unfolding n_def by (blast dest: not_less_Least)
  moreover have "n \<le> k" unfolding n_def by (rule Least_le) (rule k)
  ultimately show ?thesis using strlen_is [of p n] k by (intro exI [of _ n]) simp
qed

lemma name_contains_total:
  assumes "terminated sub"
  shows "\<exists>f. name_contains name sub = Some f"
  using terminated_length [OF assms] by (auto simp: name_contains_def mem_find_str_def)

lemma name_contains_cong:
  assumes "terminated sub" "\<And>k. k < NAME_SIZE \<Longrightarrow> sub k = sub' k"
  shows "name_contains name sub = name_contains name sub'"
proof -
  from terminated_length [OF assms(1)] obtain n where n: "n < NAME_SIZE" "strlen sub = Some n" "sub n = 0" "\<forall>k < n. sub k \<noteq> 0" by blast
  then have n': "strlen sub' = Some n" using assms(2) by (intro strlen_is) (metis order.strict_trans)+
  have "memcmp_eq p sub n = memcmp_eq p sub' n" for p
    using assms(2) n(1) by (auto simp: memcmp_eq_def list_all_iff)
  then show ?thesis using n(2) n' assms(2) [of 0] by (simp add: name_contains_def mem_find_str_def NAME_SIZE_def)
qed

lemma name_contains_self:
  assumes "terminated name" "name 0 \<noteq> 0"
  shows "name_contains name name = Some True"
proof -
  from terminated_length [OF assms(1)] obtain n where n: "n < NAME_SIZE" "strlen name = Some n" by blast
  define d where "d = 14 - n"
  have "nat (int 14 - int n + 1) = Suc d" using n(1) by (simp add: NAME_SIZE_def d_def)
  then show ?thesis using n(2) assms(2)
    by (simp add: name_contains_def mem_find_str_def upt_conv_Cons memcmp_eq_def list_all_iff del: upt_Suc)
qed

lemma name_search_cases:
  assumes "name_search n name l i = Some (b, m)"
  shows "i \<le> m \<and> m < i + n \<and> (\<forall>k. i \<le> k \<and> k < m \<longrightarrow> list_entry l k 0 \<noteq> 0 \<and> name_contains name (list_entry l k) = Some False) \<and>
    (if b then list_entry l m 0 \<noteq> 0 \<and> name_contains name (list_entry l m) = Some True else list_entry l m 0 = 0)"
  using assms
proof (induction n arbitrary: i)
  case (Suc n)
  show ?case
  proof (cases "list_entry l i 0 = 0 \<or> name_contains name (list_entry l i) = Some True")
    case True
    then show ?thesis using Suc.prems by (auto split: if_splits)
  next
    case False
    then have c: "name_contains name (list_entry l i) = Some False" "name_search n name l (i + 1) = Some (b, m)"
      using Suc.prems by (auto split: Option.bind_splits if_splits)
    from Suc.IH [OF c(2)] show ?thesis using False c(1)
      by (auto simp: Suc_le_eq) (metis le_neq_implies_less)+
  qed
qed simp

lemma name_search_at:
  assumes "i \<le> m" "m < i + n" "\<forall>k. i \<le> k \<and> k < m \<longrightarrow> list_entry l k 0 \<noteq> 0 \<and> name_contains name (list_entry l k) = Some False"
    and "if b then list_entry l m 0 \<noteq> 0 \<and> name_contains name (list_entry l m) = Some True else list_entry l m 0 = 0"
  shows "name_search n name l i = Some (b, m)"
  using assms
proof (induction n arbitrary: i)
  case (Suc n)
  show ?case
  proof (cases "i = m")
    case True
    then show ?thesis using Suc.prems(4) by (auto split: if_splits)
  next
    case False
    then have "name_search n name l (i + 1) = Some (b, m)" by (intro Suc.IH) (use Suc.prems in auto)
    then show ?thesis using Suc.prems(1,3) False by simp
  qed
qed simp

text \<open>A list whose entries are terminated, with a free one.\<close>

definition names_ok :: "bytes \<Rightarrow> bool" where
  "names_ok l \<longleftrightarrow> (\<forall>k < LIST_SIZE. terminated (list_entry l k)) \<and> (\<exists>k < LIST_SIZE. list_entry l k 0 = 0)"

lemma name_search_total:
  assumes "names_ok l"
  shows "\<exists>b m. name_search LIST_SIZE name l 0 = Some (b, m)"
proof -
  define stop where "stop k \<longleftrightarrow> list_entry l k 0 = 0 \<or> name_contains name (list_entry l k) = Some True" for k
  from assms obtain j where j: "j < LIST_SIZE" "stop j" by (auto simp: names_ok_def stop_def)
  define m where "m = (LEAST k. stop k)"
  have m: "stop m" "m \<le> j" unfolding m_def by (rule LeastI [of _ j], rule j, rule Least_le, rule j)
  have before: "\<not> stop k" if "k < m" for k using that unfolding m_def by (rule not_less_Least)
  have "name_search LIST_SIZE name l 0 = Some (list_entry l m 0 \<noteq> 0, m)"
  proof (rule name_search_at)
    show "\<forall>k. 0 \<le> k \<and> k < m \<longrightarrow> list_entry l k 0 \<noteq> 0 \<and> name_contains name (list_entry l k) = Some False"
    proof (intro allI impI)
      fix k assume k: "0 \<le> k \<and> k < m"
      then have "terminated (list_entry l k)" using assms m(2) j(1) by (simp add: names_ok_def)
      from name_contains_total [OF this, of name] obtain f where "name_contains name (list_entry l k) = Some f" ..
      then show "list_entry l k 0 \<noteq> 0 \<and> name_contains name (list_entry l k) = Some False"
        using before [of k] k by (cases f) (auto simp: stop_def)
    qed
  qed (use m j in \<open>auto simp: stop_def\<close>)
  then show ?thesis by blast
qed

lemma list_entry_set:
  "k < NAME_SIZE \<Longrightarrow> list_entry (set_entry m name l) i k = (if i = m then name k else list_entry l i k)"
  by (auto simp: list_entry_def set_entry_def NAME_SIZE_def)

lemma list_entry_other:
  assumes "names_ok l" "i < LIST_SIZE" "i \<noteq> m"
  shows "name_contains other (list_entry (set_entry m name l) i) = name_contains other (list_entry l i)"
    "list_entry (set_entry m name l) i 0 = list_entry l i 0"
  using assms by (auto intro!: name_contains_cong [symmetric] simp: names_ok_def list_entry_set list_entry_set [of 0] NAME_SIZE_def)

lemma name_search_added:
  assumes "names_ok l" "terminated name" "name 0 \<noteq> 0" "name_search LIST_SIZE name l 0 = Some (False, m)"
  shows "name_search LIST_SIZE name (set_entry m name l) 0 = Some (True, m)"
proof (rule name_search_at)
  note c = name_search_cases [OF assms(4)]
  show "\<forall>k. 0 \<le> k \<and> k < m \<longrightarrow> list_entry (set_entry m name l) k 0 \<noteq> 0 \<and>
      name_contains name (list_entry (set_entry m name l) k) = Some False"
    using c list_entry_other [OF assms(1), of _ m] by auto
  have "name_contains name (list_entry (set_entry m name l) m) = name_contains name name"
    by (rule name_contains_cong [OF assms(2), symmetric]) (simp add: list_entry_set)
  then show "if True then list_entry (set_entry m name l) m 0 \<noteq> 0 \<and> name_contains name (list_entry (set_entry m name l) m) = Some True
      else list_entry (set_entry m name l) m 0 = 0"
    using name_contains_self [OF assms(2,3)] assms(3) by (simp add: list_entry_set NAME_SIZE_def)
qed (use name_search_cases [OF assms(4)] in auto)

lemma name_search_kept:
  assumes "names_ok l" "name_search LIST_SIZE name l 0 = Some (False, m)" "name_search LIST_SIZE other l 0 = Some (True, i)"
  shows "name_search LIST_SIZE other (set_entry m name l) 0 = Some (True, i)"
proof (rule name_search_at)
  note c = name_search_cases [OF assms(2)] and d = name_search_cases [OF assms(3)]
  have "\<not> m \<le> i"
  proof
    assume "m \<le> i"
    then show False using c d by (cases "m = i") auto
  qed
  then have same: "k \<le> i \<Longrightarrow> name_contains other (list_entry (set_entry m name l) k) = name_contains other (list_entry l k) \<and>
      list_entry (set_entry m name l) k 0 = list_entry l k 0" for k
    using list_entry_other [OF assms(1), where i = k and m = m and name = name] d by simp
  show "\<forall>k. 0 \<le> k \<and> k < i \<longrightarrow> list_entry (set_entry m name l) k 0 \<noteq> 0 \<and>
      name_contains other (list_entry (set_entry m name l) k) = Some False"
    using d same by simp
  show "if True then list_entry (set_entry m name l) i 0 \<noteq> 0 \<and> name_contains other (list_entry (set_entry m name l) i) = Some True
      else list_entry (set_entry m name l) i 0 = 0"
    using d same by simp
qed (use name_search_cases [OF assms(3)] in auto)

text \<open>A process that is put on the blacklist is found there from then on, and so is every process found before, as long
  as the list has a free entry and the names are terminated; an excluded process is never put there.\<close>

theorem win_blacklist_add:
  assumes "names_ok (win_processe_blacklist s)" "terminated name" "name 0 \<noteq> 0" "traverse_excluded_process_list name = Some excluded"
  shows "\<exists>s'. win_add_to_process_blacklist name s = Some (if excluded then - 1 else 1, s') \<and>
    (if excluded then s' = s else win_traverse_process_blacklist name s' = Some True) \<and>
    (\<forall>other. win_traverse_process_blacklist other s = Some True \<longrightarrow> win_traverse_process_blacklist other s' = Some True)"
proof (cases excluded)
  case True
  then show ?thesis using assms(4) by (simp add: win_add_to_process_blacklist_def)
next
  case False
  obtain b m where s: "name_search LIST_SIZE name (win_processe_blacklist s) 0 = Some (b, m)"
    using name_search_total [OF assms(1)] by blast
  define s' where "s' = (if b then s else s\<lparr>win_processe_blacklist := set_entry m name (win_processe_blacklist s)\<rparr>)"
  have add: "win_add_to_process_blacklist name s = Some (1, s')"
    using False assms(4) s by (simp add: win_add_to_process_blacklist_def s'_def)
  have found: "win_traverse_process_blacklist name s' = Some True"
    using s name_search_added [OF assms(1-3)] by (cases b) (simp_all add: s'_def win_traverse_process_blacklist_def)
  have "win_traverse_process_blacklist other s' = Some True" if "win_traverse_process_blacklist other s = Some True" for other
    using that s name_search_kept [OF assms(1), of name m other]
    by (cases b) (auto simp: s'_def win_traverse_process_blacklist_def)
  with add found False show ?thesis by auto
qed

definition evil_name :: bytes where "evil_name = c_string [0x65, 0x76, 0x69, 0x6C]"

theorem win_blacklist_add_witness:
  "\<exists>s' e. traverse_excluded_process_list evil_name = Some e \<and>
    win_add_to_process_blacklist evil_name win_boot = Some (if e then - 1 else 1, s') \<and>
    (e \<or> win_traverse_process_blacklist evil_name s' = Some True)"
proof -
  have t: "terminated evil_name" by (auto simp: terminated_def evil_name_def c_string_def NAME_SIZE_def intro!: exI [of _ 4])
  have ok: "names_ok (win_processe_blacklist win_boot)"
    by (auto simp: names_ok_def terminated_def list_entry_def win_boot_def LIST_SIZE_def NAME_SIZE_def intro: exI [of _ 0])
  have "contains_any p (map c_string xss) \<noteq> None" if "\<forall>xs \<in> set xss. 0 \<notin> set xs" for p xss
    using that
  proof (induction xss)
    case (Cons xs xss)
    then show ?case using strlen_c_string [of xs] by (auto simp: name_contains_def mem_find_str_def)
  qed simp
  from this [of "[[0x49, 0x64, 0x6C, 0x65], [0x37, 0x7A, 0x47], [0x57, 0x69, 0x6E, 0x52, 0x41, 0x52],
       [0x44, 0x62, 0x67, 0x56, 0x69, 0x65, 0x77, 0x2E, 0x65, 0x78, 0x65]]" evil_name]
  obtain e where e: "traverse_excluded_process_list evil_name = Some e"
    unfolding traverse_excluded_process_list_def win_excluded_processes_def by auto
  have "evil_name 0 \<noteq> 0" by (simp add: evil_name_def c_string_def)
  from win_blacklist_add [OF ok t this e] show ?thesis using e by (cases e) auto
qed

end
