(* ===== verification/Detect_Ext4.thy ===== *)
theory Detect_Ext4
  imports Detect_Linux
begin

text \<open>
  The ext4 side of the Linux detection, drivers/usb/ransomtag.c: the superblock and group descriptors taken from the
  data that passes by, the blocks they say hold metadata, and \<open>linux_analyse_cbw\<close>, which recognises the recovery
  tools by the blocks they read and tags every command.
\<close>

section \<open>On-disk structures\<close>

text \<open>The superblock up to \<open>s_block_group_nr\<close>; the later fields are copied and never read.\<close>

record ext4_super_block =
  s_inodes_count :: u32
  s_blocks_count_lo :: u32
  s_r_blocks_count_lo :: u32
  s_free_blocks_count_lo :: u32
  s_free_inodes_count :: u32
  s_first_data_block :: u32
  s_log_block_size :: u32
  s_log_cluster_size :: u32
  s_blocks_per_group :: u32
  s_clusters_per_group :: u32
  s_inodes_per_group :: u32
  s_mtime :: u32
  s_wtime :: u32
  s_mnt_count :: u16
  s_max_mnt_count :: u16
  s_magic :: u16
  s_state :: u16
  s_errors :: u16
  s_minor_rev_level :: u16
  s_lastcheck :: u32
  s_checkinterval :: u32
  s_creator_os :: u32
  s_rev_level :: u32
  s_def_resuid :: u16
  s_def_resgid :: u16
  s_first_ino :: u32
  s_inode_size :: u16
  s_block_group_nr :: u16

definition le_at :: "bytes \<Rightarrow> nat \<Rightarrow> nat \<Rightarrow> 'a::len word" where
  "le_at p off n = le_load n (\<lambda>k. p (off + k))"

definition super_block_load :: "bytes \<Rightarrow> ext4_super_block" where
  "super_block_load p = \<lparr>s_inodes_count = le_at p 0x00 4, s_blocks_count_lo = le_at p 0x04 4, s_r_blocks_count_lo = le_at p 0x08 4,
     s_free_blocks_count_lo = le_at p 0x0C 4, s_free_inodes_count = le_at p 0x10 4, s_first_data_block = le_at p 0x14 4,
     s_log_block_size = le_at p 0x18 4, s_log_cluster_size = le_at p 0x1C 4, s_blocks_per_group = le_at p 0x20 4,
     s_clusters_per_group = le_at p 0x24 4, s_inodes_per_group = le_at p 0x28 4, s_mtime = le_at p 0x2C 4, s_wtime = le_at p 0x30 4,
     s_mnt_count = le_at p 0x34 2, s_max_mnt_count = le_at p 0x36 2, s_magic = le_at p 0x38 2, s_state = le_at p 0x3A 2,
     s_errors = le_at p 0x3C 2, s_minor_rev_level = le_at p 0x3E 2, s_lastcheck = le_at p 0x40 4, s_checkinterval = le_at p 0x44 4,
     s_creator_os = le_at p 0x48 4, s_rev_level = le_at p 0x4C 4, s_def_resuid = le_at p 0x50 2, s_def_resgid = le_at p 0x52 2,
     s_first_ino = le_at p 0x54 4, s_inode_size = le_at p 0x58 2, s_block_group_nr = le_at p 0x5A 2\<rparr>"

record ext4_group_desc =
  bg_block_bitmap_lo :: u32
  bg_inode_bitmap_lo :: u32
  bg_inode_table_lo :: u32
  bg_free_blocks_count_lo :: u16
  bg_free_inodes_count_lo :: u16
  bg_used_dirs_count_lo :: u16
  bg_flags :: u16
  bg_exclude_bitmap_lo :: u32
  bg_block_bitmap_csum_lo :: u16
  bg_inode_bitmap_csum_lo :: u16
  bg_itable_unused_lo :: u16
  bg_checksum :: u16

definition group_desc_load :: "bytes \<Rightarrow> ext4_group_desc" where
  "group_desc_load p = \<lparr>bg_block_bitmap_lo = le_at p 0 4, bg_inode_bitmap_lo = le_at p 4 4, bg_inode_table_lo = le_at p 8 4,
     bg_free_blocks_count_lo = le_at p 12 2, bg_free_inodes_count_lo = le_at p 14 2, bg_used_dirs_count_lo = le_at p 16 2,
     bg_flags = le_at p 18 2, bg_exclude_bitmap_lo = le_at p 20 4, bg_block_bitmap_csum_lo = le_at p 24 2,
     bg_inode_bitmap_csum_lo = le_at p 26 2, bg_itable_unused_lo = le_at p 28 2, bg_checksum = le_at p 30 2\<rparr>"

definition EXT4_SUPERBLOCK_LBA :: u32 where "EXT4_SUPERBLOCK_LBA = 0"
definition EXT4_SUPERBLOCK_OFFSET_BYTE :: nat where "EXT4_SUPERBLOCK_OFFSET_BYTE = 1024"
definition EXT4_SUPERBLOCK_SIZE :: u32 where "EXT4_SUPERBLOCK_SIZE = 1024"
definition EXT4_GROUP_DESC_SIZE :: nat where "EXT4_GROUP_DESC_SIZE = 32"

definition SECTOR_TO_EXT4_BLOCK :: "u32 \<Rightarrow> u32" where "SECTOR_TO_EXT4_BLOCK s = s * 512 div 4096"
definition EXT4_BLOCK_TO_SECTOR_START :: "u32 \<Rightarrow> u32" where "EXT4_BLOCK_TO_SECTOR_START b = b * 8"

section \<open>State\<close>

record linux_state =
  super_block :: ext4_super_block
  group_total :: u32
  group_desc :: "nat \<Rightarrow> ext4_group_desc"
  loaded_group_desc_count :: u32
  inode_table_start_sector :: "nat \<Rightarrow> u32"
  inode_bitmap_blocks :: "nat \<Rightarrow> u32"
  dir_inode_extent_block :: "nat \<Rightarrow> u32"
  trigger_mfttag_start :: bool
  trigger_recovertag_start :: bool
  parse_inode_trigger :: bool
  itable_transfer_length :: u32
  read_ext4_metadata :: bool
  super_block_loaded :: bool
  read_group_desc_metadata :: bool
  group_desc_loaded :: bool
  sector_index :: u64

definition GROUPS :: nat where "GROUPS = 4"
definition DIR_EXTENTS :: nat where "DIR_EXTENTS = 500"

section \<open>Directory extents\<close>

text \<open>
  The search over \<open>dir_inode_extent_block\<close> ends at a zero entry and knows no other bound: on a full array without the
  block it leaves the array. Returns whether it was found and the index where the search stopped.
\<close>

fun extent_search :: "nat \<Rightarrow> u32 \<Rightarrow> (nat \<Rightarrow> u32) \<Rightarrow> nat \<Rightarrow> (bool \<times> nat) option" where
  "extent_search 0 block t i = None"
| "extent_search (Suc n) block t i =
     (if t i = 0 then Some (False, i) else if t i = block then Some (True, i) else extent_search n block t (i + 1))"

definition linux_add_to_dir_inode_extent_block :: "u32 \<Rightarrow> (nat \<Rightarrow> u32) \<Rightarrow> (int \<times> (nat \<Rightarrow> u32)) option" where
  "linux_add_to_dir_inode_extent_block block t =
     (if block = 0 then Some (- 1, t)
      else do {
        (found, i) \<leftarrow> extent_search DIR_EXTENTS block t 0;
        Some (1, if found then t else t(i := block)) })"

definition linux_traverse_dir_inode_extent_block :: "u32 \<Rightarrow> (nat \<Rightarrow> u32) \<Rightarrow> bool option" where
  "linux_traverse_dir_inode_extent_block block t = map_option fst (extent_search DIR_EXTENTS block t 0)"

section \<open>Where the metadata lies\<close>

text \<open>The signed conversion of a start sector: \<open>None\<close> when \<open>sector * 512\<close> overflows an int.\<close>

definition sector_to_block_int :: "u32 \<Rightarrow> u32 option" where
  "sector_to_block_int s = (let v = sint s * 512 in
     if - (2 ^ 31) \<le> v \<and> v < 2 ^ 31 then Some (word_of_int (if v < 0 then - ((- v) div 4096) else v div 4096)) else None)"

fun inode_table_search :: "u32 \<Rightarrow> u32 \<Rightarrow> (nat \<Rightarrow> u32) \<Rightarrow> nat list \<Rightarrow> bool option" where
  "inode_table_search lba blocks starts [] = Some False"
| "inode_table_search lba blocks starts (i # is) = do {
     b \<leftarrow> sector_to_block_int (starts i);
     if starts i \<le> lba \<and> lba \<le> EXT4_BLOCK_TO_SECTOR_START (b + blocks) then Some True
     else inode_table_search lba blocks starts is }"

definition itable_blocks_count :: "linux_state \<Rightarrow> u32" where
  "itable_blocks_count s = ucast (s_inode_size (super_block s)) * s_inodes_per_group (super_block s) div 4096"

definition linux_is_inode_table_sector :: "linux_state \<Rightarrow> u32 \<Rightarrow> bool option" where
  "linux_is_inode_table_sector s lba =
     inode_table_search lba (itable_blocks_count s) (inode_table_start_sector s) [0..<GROUPS]"

definition linux_is_inode_bitmap_blocks :: "linux_state \<Rightarrow> u32 \<Rightarrow> bool" where
  "linux_is_inode_bitmap_blocks s lba = list_ex (\<lambda>i. SECTOR_TO_EXT4_BLOCK lba = inode_bitmap_blocks s i) [0..<GROUPS]"

section \<open>Parsing\<close>

text \<open>The loop over the descriptors; it takes them while the count is below the total, whatever the arrays hold.\<close>

partial_function (option) group_desc_loop :: "bytes \<Rightarrow> nat \<Rightarrow> linux_state \<Rightarrow> (bool \<times> linux_state) option" where
  "group_desc_loop buf p s = do {
     let n = unat (loaded_group_desc_count s);
     ASSERT (n < GROUPS);
     let s = s\<lparr>group_desc := (group_desc s)(n := group_desc_load (\<lambda>k. buf (p + k)))\<rparr>;
     if bg_flags (group_desc s n) = 0 then Some (False, s)
     else do {
       let s = s\<lparr>inode_table_start_sector := (inode_table_start_sector s)
                   (n := EXT4_BLOCK_TO_SECTOR_START (bg_inode_table_lo (group_desc s n))),
                 inode_bitmap_blocks := (inode_bitmap_blocks s)(n := bg_inode_bitmap_lo (group_desc s n)),
                 loaded_group_desc_count := loaded_group_desc_count s + 1\<rparr>;
       if loaded_group_desc_count s < group_total s then group_desc_loop buf (p + EXT4_GROUP_DESC_SIZE) s
       else Some (True, s) } }"

definition linux_parse_ext4_group_desc :: "bytes \<Rightarrow> linux_state \<Rightarrow> (bool \<times> linux_state) option" where
  "linux_parse_ext4_group_desc buf s = do {
     let d = s_blocks_per_group (super_block s);
     ASSERT (d \<noteq> 0);
     let s = s\<lparr>group_total := (s_blocks_count_lo (super_block s) + d - 1) div d\<rparr>;
     let block_num = (ucast (sector_index s * 512 div 4096) :: u32);
     (ok, s) \<leftarrow> (if block_num = 1 \<and> loaded_group_desc_count s < group_total s then group_desc_loop buf 0 s else Some (True, s));
     Some (if ok then (True, s\<lparr>read_group_desc_metadata := False, group_desc_loaded := True\<rparr>) else (False, s)) }"

definition linux_parse_ext4_superblock :: "bytes \<Rightarrow> u32 \<Rightarrow> linux_state \<Rightarrow> bool \<times> linux_state" where
  "linux_parse_ext4_superblock buf len s =
     (if sint len < sint EXT4_SUPERBLOCK_SIZE then (False, s)
      else (True, s\<lparr>super_block := super_block_load (\<lambda>k. buf (EXT4_SUPERBLOCK_OFFSET_BYTE + k)),
                    read_ext4_metadata := False, super_block_loaded := True\<rparr>))"

text \<open>The extent block of each directory inode in the data; \<open>n\<close> inodes of the superblock's size.\<close>

fun parse_inodes :: "bytes \<Rightarrow> nat \<Rightarrow> nat \<Rightarrow> nat \<Rightarrow> (nat \<Rightarrow> u32) \<Rightarrow> (nat \<Rightarrow> u32) option" where
  "parse_inodes dst isz 0 p t = Some t"
| "parse_inodes dst isz (Suc n) p t = do {
     t \<leftarrow> (if (le_at dst p 2 :: u16) AND 0x4000 \<noteq> 0 \<and> (le_at dst (p + 40) 2 :: u16) = 0xF30A
           then map_option snd (linux_add_to_dir_inode_extent_block (le_at dst (p + 60) 4) t)
           else Some t);
     parse_inodes dst isz n (p + isz) t }"

text \<open>
  The data of one access; \<open>same\<close> says that source and destination are the same buffer. Returns the destination.
\<close>

definition linux_ransomtag_storage_handle_sectors :: "u32 \<Rightarrow> u32 \<Rightarrow> bool \<Rightarrow> bytes \<Rightarrow> bytes \<Rightarrow> linux_state \<Rightarrow>
    (bytes \<times> linux_state) option" where
  "linux_ransomtag_storage_handle_sectors count sector_size same src dst s = do {
     (dst, s) \<leftarrow>
       (if 0 < count \<and> \<not> same then do {
          let len = count * sector_size;
          let dst = memcpy_bytes (unat len) src dst;
          let s = (if read_ext4_metadata s then snd (linux_parse_ext4_superblock dst len s) else s);
          s \<leftarrow> (if read_group_desc_metadata s \<and> super_block_loaded s
                then map_option snd (linux_parse_ext4_group_desc dst s) else Some s);
          s \<leftarrow> (if parse_inode_trigger s \<and> super_block_loaded s \<and> group_desc_loaded s then do {
                 let isz = unat (s_inode_size (super_block s));
                 ASSERT (isz \<noteq> 0);
                 t \<leftarrow> parse_inodes dst isz (unat len div isz) 0 (dir_inode_extent_block s);
                 Some (s\<lparr>dir_inode_extent_block := t\<rparr>) }
               else Some s);
          Some (dst, s) }
        else Some (dst, s));
     Some (dst, s\<lparr>sector_index := sector_index s + ucast count\<rparr>) }"

section \<open>The commands\<close>

text \<open>The blocks a recovery tool reads to announce what it does next.\<close>

definition signal_block :: "u32 \<Rightarrow> u32 \<Rightarrow> bool" where
  "signal_block k lba \<longleftrightarrow> lba = EXT4_BLOCK_TO_SECTOR_START (120000 + k)"

definition is_signal :: "u32 \<Rightarrow> bool" where
  "is_signal lba \<longleftrightarrow> signal_block 0 lba \<or> signal_block 1 lba \<or> signal_block 2 lba \<or> signal_block 3 lba"

definition linux_note_metadata_read :: "u32 \<Rightarrow> u32 \<Rightarrow> linux_state \<Rightarrow> linux_state" where
  "linux_note_metadata_read lba len s =
     (if lba = EXT4_SUPERBLOCK_LBA then
        if len = 4096 \<and> \<not> super_block_loaded s then s\<lparr>read_ext4_metadata := True\<rparr>
        else if 4096 \<le> len \<and> \<not> super_block_loaded s \<and> \<not> group_desc_loaded s
          then s\<lparr>read_ext4_metadata := True, read_group_desc_metadata := True\<rparr>
        else s
      else if lba = SECTOR_TO_EXT4_BLOCK EXT4_SUPERBLOCK_LBA + 1 * 8 \<and> super_block_loaded s \<and> \<not> group_desc_loaded s
        then s\<lparr>read_group_desc_metadata := True\<rparr>
      else s)"

definition linux_read_tag :: "u32 \<Rightarrow> cbw \<times> linux_state \<Rightarrow> cbw \<times> linux_state" where
  "linux_read_tag lba = (\<lambda>(c, s).
     if signal_block 0 lba then (c, s\<lparr>trigger_mfttag_start := True\<rparr>)
     else if trigger_mfttag_start s \<and> \<not> is_signal lba then (AddTag RANSOMTAG_MFT c, s)
     else if signal_block 1 lba \<and> trigger_mfttag_start s then (c, s\<lparr>trigger_mfttag_start := False\<rparr>)
     else if signal_block 2 lba then (c, s\<lparr>trigger_recovertag_start := True\<rparr>)
     else if trigger_recovertag_start s \<and> \<not> is_signal lba then (AddTag RECOVERTAG c, s)
     else if signal_block 3 lba \<and> trigger_recovertag_start s then (c, s\<lparr>trigger_recovertag_start := False\<rparr>)
     else (c, s))"

definition linux_note_inodes :: "cbw \<Rightarrow> linux_state \<Rightarrow> linux_state" where
  "linux_note_inodes c s = s\<lparr>parse_inode_trigger := True, itable_transfer_length := dCBWDataTransferLength c\<rparr>"

definition linux_analyse_cbw :: "cbw \<Rightarrow> linux_state \<Rightarrow> (cbw \<times> linux_state) option" where
  "linux_analyse_cbw c s = do {
     let lba = cbw_lba c;
     let s = s\<lparr>sector_index := ucast lba\<rparr>;
     if CBWCB c 0 = 0x28 then do {
       let s = linux_note_metadata_read lba (dCBWDataTransferLength c) s;
       itable \<leftarrow> linux_is_inode_table_sector s lba;
       let s = (if itable then linux_note_inodes c s else s);
       Some (linux_read_tag lba (c, s)) }
     else if CBWCB c 0 = 0x2a then do {
       itable \<leftarrow> linux_is_inode_table_sector s lba;
       if itable then Some (AddTag RANSOMTAG_MFT c, linux_note_inodes c s)
       else if linux_is_inode_bitmap_blocks s lba then Some (AddTag RANSOMTAG_MFT c, s)
       else do {
         dir \<leftarrow> linux_traverse_dir_inode_extent_block (SECTOR_TO_EXT4_BLOCK lba) (dir_inode_extent_block s);
         Some (AddTag (if dir then RANSOMTAG_MFT else RANSOMTAG) c, s) } }
     else Some (c, s) }"

section \<open>The tag of a write\<close>

text \<open>Tables as a small volume (under 2 GiB) has them, with a free entry among the directory extents.\<close>

definition ext4_tables_ok :: "linux_state \<Rightarrow> bool" where
  "ext4_tables_ok s \<longleftrightarrow>
     (\<forall>i < GROUPS. inode_table_start_sector s i < 0x400000 \<and> inode_table_start_sector s i mod 8 = 0) \<and>
     itable_blocks_count s < 0x10000 \<and> (\<exists>i < DIR_EXTENTS. dir_inode_extent_block s i = 0)"

text \<open>The directory extents recorded so far: the entries before the first free one.\<close>

definition dir_extents :: "(nat \<Rightarrow> u32) \<Rightarrow> u32 set" where
  "dir_extents t = {t i | i. \<forall>j \<le> i. t j \<noteq> 0}"

definition metadata_sectors :: "linux_state \<Rightarrow> u32 set" where
  "metadata_sectors s = {lba.
     (\<exists>i < GROUPS. unat (inode_table_start_sector s i) \<le> unat lba \<and>
        unat lba \<le> unat (inode_table_start_sector s i) + 8 * unat (itable_blocks_count s)) \<or>
     lba div 8 \<in> inode_bitmap_blocks s ` {..<GROUPS} \<or> lba div 8 \<in> dir_extents (dir_inode_extent_block s)}"

text \<open>The sectors that the module takes for metadata: for the bitmaps and directories it only looks at the low 23 bits of the sector
  number, the rest is lost when \<open>SECTOR_TO_EXT4_BLOCK\<close> multiplies by 512.\<close>

definition taken_for_metadata :: "linux_state \<Rightarrow> u32 set" where
  "taken_for_metadata s = {lba.
     (\<exists>i < GROUPS. unat (inode_table_start_sector s i) \<le> unat lba \<and>
        unat lba \<le> unat (inode_table_start_sector s i) + 8 * unat (itable_blocks_count s)) \<or>
     lba mod 0x800000 div 8 \<in> inode_bitmap_blocks s ` {..<GROUPS} \<or>
     lba mod 0x800000 div 8 \<in> dir_extents (dir_inode_extent_block s)}"

lemma groups_values [simp]: "GROUPS = 4" "DIR_EXTENTS = 500"
  by (simp_all add: GROUPS_def DIR_EXTENTS_def)

lemma sector_block: "SECTOR_TO_EXT4_BLOCK lba = lba mod 0x800000 div 8"
proof -
  have "unat (lba * 512) = unat lba * 512 mod (0x800000 * 512)" by (simp add: unat_word_ariths)
  also have "\<dots> = unat lba mod 0x800000 * 512" by (rule mult_mod_left [symmetric])
  finally have u: "unat (lba * 512) = unat lba mod 0x800000 * 512" .
  have "unat lba mod 0x800000 * 512 div (512 * 8) = unat lba mod 0x800000 div 8" by (simp only: div_mult2_eq)
  then show ?thesis
    by (simp add: SECTOR_TO_EXT4_BLOCK_def word_unat_eq_iff unat_div unat_mod u)
qed

lemma below_8_million: "unat (lba :: u32) < 0x800000 \<Longrightarrow> lba mod 0x800000 = lba"
  by (simp add: word_unat_eq_iff unat_mod)

lemma taken_for_metadata_small: "unat lba < 0x800000 \<Longrightarrow> lba \<in> taken_for_metadata s \<longleftrightarrow> lba \<in> metadata_sectors s"
  by (simp add: taken_for_metadata_def metadata_sectors_def below_8_million)

lemma sector_to_block_small:
  assumes "unat (w :: u32) < 0x400000"
  shows "sector_to_block_int w = Some (w div 8)"
proof -
  define n where "n = unat w"
  have s: "sint w = int n" using assms by (simp only: n_def) (rule sint_small, simp)
  have "int n * 512 div (512 * 8) = int n div 8" by (subst zdiv_zmult2_eq) simp_all
  moreover have "word_of_int (int n div 8) = w div 8"
  proof -
    have "int n div 8 = int (n div 8)" by (simp only: zdiv_int of_nat_numeral)
    then have "word_of_int (int n div 8) = (of_nat (n div 8) :: u32)" by (simp only: of_int_of_nat_eq)
    also have "\<dots> = w div 8" using assms by (simp add: word_unat_eq_iff unat_div unat_of_nat n_def)
    finally show ?thesis .
  qed
  moreover have "n < 4194304" using assms by (simp add: n_def)
  ultimately show ?thesis
    unfolding sector_to_block_int_def s Let_def by simp
qed

lemma inode_table_search_small:
  assumes "\<And>i. i \<in> set is \<Longrightarrow> starts i < 0x400000 \<and> starts i mod 8 = 0" "blocks < 0x10000"
  shows "inode_table_search lba blocks starts is =
    Some (\<exists>i \<in> set is. unat (starts i) \<le> unat lba \<and> unat lba \<le> unat (starts i) + 8 * unat blocks)"
  using assms(1)
proof (induction "is")
  case Nil
  then show ?case by simp
next
  case (Cons i "is")
  define w where "w = starts i"
  have w: "unat w < 0x400000" "unat blocks < 0x10000" using Cons.prems [of i] assms(2) by (simp_all add: w_def word_less_nat_alt)
  have "unat w mod 8 = unat (w mod 8)" by (simp add: unat_mod)
  then have m: "unat w mod 8 = 0" using Cons.prems [of i] by (simp add: w_def)
  have "unat (EXT4_BLOCK_TO_SECTOR_START (w div 8 + blocks)) = (unat w div 8 + unat blocks) * 8"
    using w by (simp add: EXT4_BLOCK_TO_SECTOR_START_def unat_word_ariths unat_div)
  also have "\<dots> = unat w + 8 * unat blocks" using m by (auto simp: mod_eq_0_iff_dvd add_mult_distrib)
  finally have e: "unat (EXT4_BLOCK_TO_SECTOR_START (w div 8 + blocks)) = unat w + 8 * unat blocks" .
  have IH: "inode_table_search lba blocks starts is =
    Some (\<exists>i \<in> set is. unat (starts i) \<le> unat lba \<and> unat lba \<le> unat (starts i) + 8 * unat blocks)"
    by (rule Cons.IH) (rule Cons.prems, simp)
  show ?case
    using sector_to_block_small [OF w(1)] e IH by (auto simp: word_le_nat_alt w_def)
qed

lemma extent_search_dir:
  assumes "\<exists>j. i \<le> j \<and> j < i + n \<and> t j = 0"
  shows "\<exists>k. extent_search n block t i = Some (\<exists>j. i \<le> j \<and> t j = block \<and> (\<forall>l. i \<le> l \<and> l \<le> j \<longrightarrow> t l \<noteq> 0), k)"
  using assms
proof (induction n arbitrary: i)
  case 0
  then show ?case by auto
next
  case (Suc n)
  show ?case
  proof (cases "t i = 0")
    case True
    then have "\<not> (\<exists>j. i \<le> j \<and> t j = block \<and> (\<forall>l. i \<le> l \<and> l \<le> j \<longrightarrow> t l \<noteq> 0))" by auto
    with True show ?thesis by auto
  next
    case False
    have "\<exists>j. Suc i \<le> j \<and> j < Suc i + n \<and> t j = 0"
      using Suc.prems False by (metis Suc_leI add_Suc_shift le_neq_implies_less)
    from Suc.IH [OF this] obtain k where k: "extent_search n block t (Suc i) =
      Some (\<exists>j. Suc i \<le> j \<and> t j = block \<and> (\<forall>l. Suc i \<le> l \<and> l \<le> j \<longrightarrow> t l \<noteq> 0), k)" by blast
    have all: "(\<forall>l. i \<le> l \<and> l \<le> j \<longrightarrow> t l \<noteq> 0) \<longleftrightarrow> (\<forall>l. Suc i \<le> l \<and> l \<le> j \<longrightarrow> t l \<noteq> 0)" for j
      using False by (metis Suc_leD Suc_leI le_neq_implies_less)
    have "(\<exists>j. i \<le> j \<and> t j = block \<and> (\<forall>l. i \<le> l \<and> l \<le> j \<longrightarrow> t l \<noteq> 0)) \<longleftrightarrow>
      t i = block \<or> (\<exists>j. Suc i \<le> j \<and> t j = block \<and> (\<forall>l. Suc i \<le> l \<and> l \<le> j \<longrightarrow> t l \<noteq> 0))" (is "?A \<longleftrightarrow> ?B")
    proof
      assume ?A
      then obtain j where "i \<le> j" "t j = block" "\<forall>l. Suc i \<le> l \<and> l \<le> j \<longrightarrow> t l \<noteq> 0" unfolding all by blast
      then show ?B by (cases "i = j") (simp, metis Suc_leI le_neq_implies_less)
    next
      assume ?B
      then show ?A unfolding all by (metis Suc_leD not_less_eq_eq order_refl)
    qed
    with False k show ?thesis by auto
  qed
qed

lemma extent_traverse:
  assumes "\<exists>i < DIR_EXTENTS. t i = 0"
  shows "linux_traverse_dir_inode_extent_block b t = Some (b \<in> dir_extents t)"
proof -
  have "\<exists>j. 0 \<le> j \<and> j < 0 + 500 \<and> t j = 0" using assms by auto
  from extent_search_dir [OF this, of b] show ?thesis
    by (auto simp: linux_traverse_dir_inode_extent_block_def dir_extents_def)
qed

lemma inode_table_sector_ok:
  assumes "ext4_tables_ok s"
  shows "linux_is_inode_table_sector s lba = Some (\<exists>i < GROUPS. unat (inode_table_start_sector s i) \<le> unat lba \<and>
        unat lba \<le> unat (inode_table_start_sector s i) + 8 * unat (itable_blocks_count s))"
proof -
  have ok: "\<And>i. i \<in> set [0..<GROUPS] \<Longrightarrow> inode_table_start_sector s i < 0x400000 \<and> inode_table_start_sector s i mod 8 = 0"
    "itable_blocks_count s < 0x10000" using assms by (auto simp: ext4_tables_ok_def)
  show ?thesis
    unfolding linux_is_inode_table_sector_def
    by (subst inode_table_search_small) (use ok in \<open>simp_all only: set_upt atLeast0LessThan Bex_def lessThan_iff\<close>)
qed

lemma linux_write_step:
  assumes "ext4_tables_ok s" "CBWCB c 0 = 0x2a" "CBWCB c 6 = 0"
  shows "\<exists>c' s'. linux_analyse_cbw c s = Some (c', s') \<and>
    CheckTag (CBWCB c' 6) = (if cbw_lba c \<in> taken_for_metadata s then 2 else 1) \<and> c'\<lparr>CBWCB := (CBWCB c')(6 := 0)\<rparr> = c"
proof -
  define s1 where "s1 = s\<lparr>sector_index := ucast (cbw_lba c)\<rparr>"
  define it where "it \<longleftrightarrow> (\<exists>i < GROUPS. unat (inode_table_start_sector s i) \<le> unat (cbw_lba c) \<and>
        unat (cbw_lba c) \<le> unat (inode_table_start_sector s i) + 8 * unat (itable_blocks_count s))"
  define bm where "bm \<longleftrightarrow> cbw_lba c mod 0x800000 div 8 \<in> inode_bitmap_blocks s ` {..<GROUPS}"
  define di where "di \<longleftrightarrow> cbw_lba c mod 0x800000 div 8 \<in> dir_extents (dir_inode_extent_block s)"
  have ok: "ext4_tables_ok s1" using assms(1) by (simp add: ext4_tables_ok_def s1_def itable_blocks_count_def)
  have 1: "linux_is_inode_table_sector s1 (cbw_lba c) = Some it"
    unfolding inode_table_sector_ok [OF ok] by (simp add: it_def s1_def itable_blocks_count_def)
  have 2: "linux_is_inode_bitmap_blocks s1 (cbw_lba c) = bm"
    using sector_block by (auto simp: linux_is_inode_bitmap_blocks_def bm_def s1_def list_ex_iff)
  have 3: "linux_traverse_dir_inode_extent_block (SECTOR_TO_EXT4_BLOCK (cbw_lba c)) (dir_inode_extent_block s1) = Some di"
    using sector_block extent_traverse [of "dir_inode_extent_block s"] assms(1)
    by (simp add: di_def s1_def ext4_tables_ok_def)
  have meta: "cbw_lba c \<in> taken_for_metadata s \<longleftrightarrow> it \<or> bm \<or> di"
    by (simp add: taken_for_metadata_def it_def bm_def di_def)
  define tag where "tag = (if it \<or> bm \<or> di then RANSOMTAG_MFT else RANSOMTAG)"
  have "\<exists>s'. linux_analyse_cbw c s = Some (AddTag tag c, s')"
    using 1 2 3 assms(2) by (cases it; cases bm; cases di) (simp_all add: linux_analyse_cbw_def s1_def [symmetric] Let_def tag_def)
  moreover have "CheckTag (CBWCB (AddTag tag c) 6) = (if cbw_lba c \<in> taken_for_metadata s then 2 else 1)"
    using tagged_byte [OF assms(3), of tag] by (auto simp: tag_def meta)
  moreover have "(AddTag tag c)\<lparr>CBWCB := (CBWCB (AddTag tag c))(6 := 0)\<rparr> = c"
    using AddTag_only_byte6 [of tag c] assms(3) by simp
  ultimately show ?thesis by blast
qed

text \<open>C6: A Linux write command, to any sector of any disk, leaves \<open>linux_analyse_cbw\<close> with a tag in byte 6 of its command block: the
  SSD reads it as a metadata write when the sector lies in an inode table (to one block past its end), or when the low 23 bits of its
  number are those of a sector of an inode bitmap or of a directory extent that was seen, and as a suspicious write in every other case.
  Below sector 2 to the 23 these are the metadata sectors; above it data writes are taken for metadata. Nothing else of the command
  changes. The module's tables are those of a volume with inode tables below sector 2 to the 22 and of at most 65535 blocks, and the
  list of directory extents is not full.\<close>

theorem linux_write_tagged:
  assumes "ext4_tables_ok s" "CBWCB c 0 = 0x2a" "CBWCB c 6 = 0"
  shows "\<exists>c' s'. linux_analyse_cbw c s = Some (c', s') \<and>
    CheckTag (CBWCB c' 6) = (if cbw_lba c \<in> taken_for_metadata s then 2 else 1) \<and>
    (unat (cbw_lba c) < 0x800000 \<longrightarrow> (cbw_lba c \<in> taken_for_metadata s \<longleftrightarrow> cbw_lba c \<in> metadata_sectors s)) \<and>
    c'\<lparr>CBWCB := (CBWCB c')(6 := 0)\<rparr> = c"
  using linux_write_step [OF assms] taken_for_metadata_small by blast

section \<open>Recovery sessions\<close>

fun linux_run :: "cbw list \<Rightarrow> linux_state \<Rightarrow> (cbw list \<times> linux_state) option" where
  "linux_run [] s = Some ([], s)"
| "linux_run (c # cs) s = do {
     (c, s) \<leftarrow> linux_analyse_cbw c s;
     (cs, s) \<leftarrow> linux_run cs s;
     Some (c # cs, s) }"

lemma linux_run_append:
  "linux_run (cs @ ds) s = do { (cs, s) \<leftarrow> linux_run cs s; (ds, s) \<leftarrow> linux_run ds s; Some (cs @ ds, s) }"
  by (induction cs arbitrary: s) (auto split: Option.bind_split prod.split)

text \<open>What a read command does apart from noting metadata.\<close>

lemma linux_read_step:
  assumes "ext4_tables_ok s" "CBWCB c 0 = 0x28"
  shows "\<exists>s1. linux_analyse_cbw c s = Some (linux_read_tag (cbw_lba c) (c, s1)) \<and> ext4_tables_ok s1 \<and>
     trigger_mfttag_start s1 = trigger_mfttag_start s \<and> trigger_recovertag_start s1 = trigger_recovertag_start s"
proof -
  define s2 where "s2 = linux_note_metadata_read (cbw_lba c) (dCBWDataTransferLength c) (s\<lparr>sector_index := ucast (cbw_lba c)\<rparr>)"
  have f: "ext4_tables_ok s2" "trigger_mfttag_start s2 = trigger_mfttag_start s" "trigger_recovertag_start s2 = trigger_recovertag_start s"
    using assms(1) by (simp_all add: s2_def linux_note_metadata_read_def ext4_tables_ok_def itable_blocks_count_def)
  from inode_table_sector_ok [OF f(1)] obtain it where it: "linux_is_inode_table_sector s2 (cbw_lba c) = Some it" by blast
  have "ext4_tables_ok (linux_note_inodes c s2)" using f(1)
    by (simp add: linux_note_inodes_def ext4_tables_ok_def itable_blocks_count_def)
  then show ?thesis
    using assms(2) it f by (intro exI [of _ "if it then linux_note_inodes c s2 else s2"])
      (simp add: linux_analyse_cbw_def s2_def [symmetric] Let_def linux_note_inodes_def)
qed

lemma signal_distinct: "signal_block k lba \<Longrightarrow> k < 4 \<Longrightarrow> j < 4 \<Longrightarrow> signal_block j lba \<longleftrightarrow> j = k"
proof -
  assume a: "signal_block k lba" "k < 4" "j < 4"
  have "unat k < 4" "unat j < 4" using a(2,3) by (simp_all add: word_less_nat_alt)
  then show ?thesis using a(1)
    by (auto simp: signal_block_def EXT4_BLOCK_TO_SECTOR_START_def word_unat_eq_iff unat_word_ariths)
qed

definition session_tag :: "bool \<Rightarrow> u8" where
  "session_tag mft = (if mft then RANSOMTAG_MFT else RECOVERTAG)"

definition in_session :: "bool \<Rightarrow> linux_state \<Rightarrow> bool" where
  "in_session mft s \<longleftrightarrow> ext4_tables_ok s \<and> trigger_mfttag_start s = mft \<and> trigger_recovertag_start s = (\<not> mft)"

lemma session_reads:
  assumes "in_session mft s" and "\<And>c. c \<in> set cs \<Longrightarrow> CBWCB c 0 = 0x28 \<and> \<not> is_signal (cbw_lba c)"
  shows "\<exists>s'. linux_run cs s = Some (map (AddTag (session_tag mft)) cs, s') \<and> in_session mft s'"
  using assms
proof (induction cs arbitrary: s)
  case Nil
  then show ?case by simp
next
  case (Cons c cs)
  have c: "CBWCB c 0 = 0x28" "\<not> is_signal (cbw_lba c)" using Cons.prems(2) by simp_all
  have "ext4_tables_ok s" using Cons.prems(1) by (simp add: in_session_def)
  from linux_read_step [OF this c(1)] obtain s1 where s1:
    "linux_analyse_cbw c s = Some (linux_read_tag (cbw_lba c) (c, s1))" "in_session mft s1"
    using Cons.prems(1) unfolding in_session_def by blast
  have "linux_read_tag (cbw_lba c) (c, s1) = (AddTag (session_tag mft) c, s1)"
    using s1(2) c(2) by (auto simp: linux_read_tag_def is_signal_def in_session_def session_tag_def)
  with Cons.IH [OF s1(2)] Cons.prems(2) s1(1) show ?case by auto
qed

text \<open>Outside a session a read that is no signal leaves as it came.\<close>

definition no_session :: "linux_state \<Rightarrow> bool" where
  "no_session s \<longleftrightarrow> ext4_tables_ok s \<and> \<not> trigger_mfttag_start s \<and> \<not> trigger_recovertag_start s"

lemma plain_reads:
  assumes "no_session s" "\<And>c. c \<in> set cs \<Longrightarrow> CBWCB c 0 = 0x28 \<and> \<not> is_signal (cbw_lba c)"
  shows "\<exists>s'. linux_run cs s = Some (cs, s') \<and> no_session s'"
  using assms
proof (induction cs arbitrary: s)
  case (Cons c cs)
  have c: "CBWCB c 0 = 0x28" "\<not> is_signal (cbw_lba c)" using Cons.prems(2) by simp_all
  have "ext4_tables_ok s" using Cons.prems(1) by (simp add: no_session_def)
  from linux_read_step [OF this c(1)] obtain s1 where s1:
    "linux_analyse_cbw c s = Some (linux_read_tag (cbw_lba c) (c, s1))" "no_session s1"
    using Cons.prems(1) unfolding no_session_def by blast
  have "linux_read_tag (cbw_lba c) (c, s1) = (c, s1)"
    using s1(2) c(2) by (auto simp: linux_read_tag_def is_signal_def no_session_def)
  with Cons.IH [OF s1(2)] Cons.prems(2) s1(1) show ?case by auto
qed simp

lemma linux_session_run:
  assumes "no_session s"
    and "list_all (\<lambda>c. CBWCB c 0 = 0x28 \<and> CBWCB c 6 = 0) (start # stop # cs)" "list_all (\<lambda>c. \<not> is_signal (cbw_lba c)) cs"
    and "signal_block (if mft then 0 else 2) (cbw_lba start)" "signal_block (if mft then 1 else 3) (cbw_lba stop)"
  shows "\<exists>s'. linux_run (start # cs @ [stop]) s = Some (start # map (AddTag (session_tag mft)) cs @ [stop], s') \<and> no_session s'"
proof -
  have ops: "CBWCB start 0 = 0x28" "CBWCB stop 0 = 0x28" "\<And>c. c \<in> set cs \<Longrightarrow> CBWCB c 0 = 0x28 \<and> \<not> is_signal (cbw_lba c)"
    using assms(2,3) by (auto simp: list_all_iff)
  have ok: "ext4_tables_ok s" using assms(1) by (simp add: no_session_def)
  note sig = signal_distinct [OF assms(4)] signal_distinct [OF assms(5)]
  from linux_read_step [OF ok ops(1)] obtain s1 where s1:
    "linux_analyse_cbw start s = Some (linux_read_tag (cbw_lba start) (start, s1))" "ext4_tables_ok s1"
    "\<not> trigger_mfttag_start s1" "\<not> trigger_recovertag_start s1" using assms(1) by (auto simp: no_session_def)
  obtain s2 where s2: "linux_read_tag (cbw_lba start) (start, s1) = (start, s2)" "in_session mft s2"
    using s1(2-4) sig(1) assms(4)
    by (cases mft) (auto simp: linux_read_tag_def in_session_def ext4_tables_ok_def itable_blocks_count_def)
  from session_reads [OF s2(2) ops(3)] obtain s3 where
    s3: "linux_run cs s2 = Some (map (AddTag (session_tag mft)) cs, s3)" "in_session mft s3" by blast
  from linux_read_step [OF _ ops(2), of s3] s3(2) obtain s4 where
    s4: "linux_analyse_cbw stop s3 = Some (linux_read_tag (cbw_lba stop) (stop, s4))" "in_session mft s4"
    unfolding in_session_def by blast
  obtain s5 where s5: "linux_read_tag (cbw_lba stop) (stop, s4) = (stop, s5)" "no_session s5"
    using s4(2) sig(2) assms(5)
    by (cases mft) (auto simp: linux_read_tag_def in_session_def is_signal_def no_session_def ext4_tables_ok_def itable_blocks_count_def)
  have "linux_run (start # cs @ [stop]) s = Some (start # map (AddTag (session_tag mft)) cs @ [stop], s5)"
    using s1(1) s2(1) s3(1) s4(1) s5(1) by (simp add: linux_run_append)
  then show ?thesis using s5(2) by blast
qed

text \<open>C8: A recovery tool announces itself by a read of block 120000 (metadata) or 120002 (data) and ends with a read of the block after
  that. Of all the reads that a host sends before, during and after it, the ones in between leave with the tag that the SSD answers
  with the retained versions, otherwise unchanged, and all the others, the two announcements included, leave exactly as they came;
  afterwards the module is back in its normal state. Other signals than these two are not sent.\<close>

theorem linux_recovery_session:
  assumes "ext4_tables_ok s" "\<not> trigger_mfttag_start s" "\<not> trigger_recovertag_start s"
    and "list_all (\<lambda>c. CBWCB c 0 = 0x28 \<and> CBWCB c 6 = 0) (before @ start # cs @ stop # after)"
    and "list_all (\<lambda>c. \<not> is_signal (cbw_lba c)) (before @ cs @ after)"
    and "signal_block (if mft then 0 else 2) (cbw_lba start)" "signal_block (if mft then 1 else 3) (cbw_lba stop)"
  shows "\<exists>cs' s'. linux_run (before @ start # cs @ stop # after) s = Some (before @ start # cs' @ stop # after, s') \<and>
    map (\<lambda>c. CheckTag (CBWCB c 6)) cs' = replicate (length cs) (if mft then 2 else 3) \<and>
    map (\<lambda>c. c\<lparr>CBWCB := (CBWCB c)(6 := 0)\<rparr>) cs' = cs \<and> \<not> trigger_mfttag_start s' \<and> \<not> trigger_recovertag_start s'"
proof -
  have n: "no_session s" using assms(1-3) by (simp add: no_session_def)
  have l: "list_all (\<lambda>c. CBWCB c 0 = 0x28 \<and> CBWCB c 6 = 0) (start # stop # cs)" "list_all (\<lambda>c. \<not> is_signal (cbw_lba c)) cs"
    "\<And>c. c \<in> set before \<union> set after \<Longrightarrow> CBWCB c 0 = 0x28 \<and> \<not> is_signal (cbw_lba c)" "\<And>c. c \<in> set cs \<Longrightarrow> CBWCB c 6 = 0"
    using assms(4,5) by (auto simp: list_all_iff)
  from plain_reads [OF n, of before] l(3) obtain s1 where s1: "linux_run before s = Some (before, s1)" "no_session s1" by blast
  from linux_session_run [OF s1(2) l(1,2) assms(6,7)] obtain s2 where
    s2: "linux_run (start # cs @ [stop]) s1 = Some (start # map (AddTag (session_tag mft)) cs @ [stop], s2)" "no_session s2" by blast
  from plain_reads [OF s2(2), of after] l(3) obtain s3 where s3: "linux_run after s2 = Some (after, s3)" "no_session s3" by blast
  have e: "before @ start # xs @ stop # after = before @ (start # xs @ [stop]) @ after" for xs by simp
  have "linux_run (before @ start # cs @ stop # after) s = Some (before @ start # map (AddTag (session_tag mft)) cs @ stop # after, s3)"
    unfolding e by (simp only: linux_run_append s1(1) s2(1) s3(1) Option.bind.bind_lunit prod.case)
  moreover have "map (\<lambda>c. CheckTag (CBWCB c 6)) (map (AddTag (session_tag mft)) cs) = replicate (length cs) (if mft then 2 else 3)"
    using l(4) by (intro replicate_eqI) (auto simp: tagged_byte session_tag_def)
  moreover have "map (\<lambda>c. c\<lparr>CBWCB := (CBWCB c)(6 := 0)\<rparr>) (map (AddTag (session_tag mft)) cs) = cs"
    unfolding map_map 
  proof (intro map_idI)
    fix c assume "c \<in> set cs"
    then show "((\<lambda>c. c\<lparr>CBWCB := (CBWCB c)(6 := 0)\<rparr>) \<circ> AddTag (session_tag mft)) c = c"
      using AddTag_only_byte6 [of "session_tag mft" c] l(4) by simp
  qed
  ultimately show ?thesis using s3(2) by (auto simp: no_session_def)
qed

section \<open>A small volume\<close>

text \<open>The module's variables at load time: zero.\<close>

definition linux_start :: linux_state where
  "linux_start = \<lparr>super_block = super_block_load (\<lambda>_. 0), group_total = 0, group_desc = (\<lambda>_. group_desc_load (\<lambda>_. 0)),
     loaded_group_desc_count = 0, inode_table_start_sector = (\<lambda>_. 0), inode_bitmap_blocks = (\<lambda>_. 0),
     dir_inode_extent_block = (\<lambda>_. 0), trigger_mfttag_start = False, trigger_recovertag_start = False,
     parse_inode_trigger = False, itable_transfer_length = 0, read_ext4_metadata = False, super_block_loaded = False,
     read_group_desc_metadata = False, group_desc_loaded = False, sector_index = 0\<rparr>"

definition ext4_demo :: linux_state where
  "ext4_demo = linux_start\<lparr>super_block := (super_block linux_start)\<lparr>s_inode_size := 256, s_inodes_per_group := 8192\<rparr>,
     inode_table_start_sector := (\<lambda>i. if i = 0 then 1096 else 5192), inode_bitmap_blocks := (\<lambda>_. 129),
     dir_inode_extent_block := (\<lambda>i. if i = 0 then 5000 else 0)\<rparr>"

lemma ext4_demo_ok: "ext4_tables_ok ext4_demo" "\<not> trigger_mfttag_start ext4_demo" "\<not> trigger_recovertag_start ext4_demo"
proof -
  have "dir_inode_extent_block ext4_demo 1 = 0" by (simp add: ext4_demo_def)
  then have "\<exists>i < 500. dir_inode_extent_block ext4_demo i = 0" by (intro exI [of _ 1]) simp
  then show "ext4_tables_ok ext4_demo"
    by (simp add: ext4_tables_ok_def) (simp add: ext4_demo_def itable_blocks_count_def)
qed (simp_all add: ext4_demo_def linux_start_def)

text \<open>A sector of the inode table, one of no metadata, and one far beyond 4 GiB that is taken for a sector of the bitmap in block 129.\<close>

theorem linux_write_tagged_witness:
  "\<exists>c' s' c'' s'' c3 s3. linux_analyse_cbw (demo_cbw 0x2a 1200) ext4_demo = Some (c', s') \<and> CheckTag (CBWCB c' 6) = 2 \<and>
     linux_analyse_cbw (demo_cbw 0x2a 70000) ext4_demo = Some (c'', s'') \<and> CheckTag (CBWCB c'' 6) = 1 \<and>
     linux_analyse_cbw (demo_cbw 0x2a 0x8000408) ext4_demo = Some (c3, s3) \<and> CheckTag (CBWCB c3 6) = 2"
proof -
  have in1: "1200 \<in> taken_for_metadata ext4_demo"
    by (simp add: taken_for_metadata_def) (rule disjI1, rule exI [of _ 0], simp add: ext4_demo_def itable_blocks_count_def)
  have "dir_extents (dir_inode_extent_block ext4_demo) \<subseteq> {5000}"
    by (auto simp: dir_extents_def ext4_demo_def split: if_splits)
  then have "8750 \<notin> dir_extents (dir_inode_extent_block ext4_demo)" by auto
  then have in2: "70000 \<notin> taken_for_metadata ext4_demo"
    by (simp add: taken_for_metadata_def) (auto simp: ext4_demo_def itable_blocks_count_def)
  have in3: "0x8000408 \<in> taken_for_metadata ext4_demo"
  proof -
    have "129 \<in> inode_bitmap_blocks ext4_demo ` {..<GROUPS}" by (simp add: ext4_demo_def) (metis image_eqI lessThan_iff zero_less_numeral)
    then show ?thesis by (simp add: taken_for_metadata_def)
  qed
  from linux_write_tagged [OF ext4_demo_ok(1), of "demo_cbw 0x2a 1200"] linux_write_tagged [OF ext4_demo_ok(1), of "demo_cbw 0x2a 70000"]
    linux_write_tagged [OF ext4_demo_ok(1), of "demo_cbw 0x2a 0x8000408"]
  show ?thesis using in1 in2 in3 by simp blast
qed

theorem linux_recovery_session_witness:
  "\<exists>c s'. linux_run [demo_cbw 0x28 4000, demo_cbw 0x28 960016, demo_cbw 0x28 4000, demo_cbw 0x28 960024, demo_cbw 0x28 4000] ext4_demo =
      Some ([demo_cbw 0x28 4000, demo_cbw 0x28 960016, c, demo_cbw 0x28 960024, demo_cbw 0x28 4000], s') \<and> CheckTag (CBWCB c 6) = 3"
proof -
  have "list_all (\<lambda>c. CBWCB c 0 = 0x28 \<and> CBWCB c 6 = 0)
      ([demo_cbw 0x28 4000] @ demo_cbw 0x28 960016 # [demo_cbw 0x28 4000] @ demo_cbw 0x28 960024 # [demo_cbw 0x28 4000])"
    "list_all (\<lambda>c. \<not> is_signal (cbw_lba c)) ([demo_cbw 0x28 4000] @ [demo_cbw 0x28 4000] @ [demo_cbw 0x28 4000])"
    by (simp_all add: is_signal_def signal_block_def EXT4_BLOCK_TO_SECTOR_START_def)
  from linux_recovery_session [OF ext4_demo_ok this, of False] obtain cs' s' where
    r: "linux_run ([demo_cbw 0x28 4000] @ demo_cbw 0x28 960016 # [demo_cbw 0x28 4000] @ demo_cbw 0x28 960024 # [demo_cbw 0x28 4000]) ext4_demo =
      Some ([demo_cbw 0x28 4000] @ demo_cbw 0x28 960016 # cs' @ demo_cbw 0x28 960024 # [demo_cbw 0x28 4000], s')"
      "map (\<lambda>c. CheckTag (CBWCB c 6)) cs' = [3]"
    by (auto simp: signal_block_def EXT4_BLOCK_TO_SECTOR_START_def)
  then obtain c where "cs' = [c]" "CheckTag (CBWCB c 6) = 3" by (cases cs') auto
  with r(1) show ?thesis by auto
qed

section \<open>More groups than the tables hold\<close>

lemma group_loop_overflow:
  assumes "loaded_group_desc_count s = of_nat n" "n \<le> 4" "4 < group_total s"
    and "\<And>k. n \<le> k \<Longrightarrow> k < 4 \<Longrightarrow> bg_flags (group_desc_load (\<lambda>i. buf (p + 32 * (k - n) + i))) \<noteq> 0"
  shows "group_desc_loop buf p s = None"
  using assms
proof (induction "4 - n" arbitrary: n p s)
  case 0
  then have "n = 4" by simp
  with 0 show ?case by (subst group_desc_loop.simps) simp
next
  case (Suc m)
  have n: "n < 4" using Suc.hyps(2) by simp
  then have u: "unat (loaded_group_desc_count s) = n" using Suc.prems(1) by (simp add: unat_of_nat)
  define s1 where "s1 = s\<lparr>group_desc := (group_desc s)(n := group_desc_load (\<lambda>k. buf (p + k)))\<rparr>"
  define s2 where "s2 = s1\<lparr>inode_table_start_sector := (inode_table_start_sector s1)
                   (n := EXT4_BLOCK_TO_SECTOR_START (bg_inode_table_lo (group_desc s1 n))),
                 inode_bitmap_blocks := (inode_bitmap_blocks s1)(n := bg_inode_bitmap_lo (group_desc s1 n)),
                 loaded_group_desc_count := loaded_group_desc_count s1 + 1\<rparr>"
  have fl: "bg_flags (group_desc s1 n) \<noteq> 0" using Suc.prems(4) [of n] n by (simp add: s1_def)
  have c: "loaded_group_desc_count s2 = of_nat (Suc n)" "group_total s2 = group_total s"
    using Suc.prems(1) by (simp_all add: s2_def s1_def)
  have lt: "loaded_group_desc_count s2 < group_total s2"
    using n Suc.prems(3) by (simp add: c(1) c(2) word_less_nat_alt unat_of_nat del: of_nat_Suc)
  have "group_desc_loop buf (p + 32) s2 = None"
  proof (rule Suc.hyps(1) [OF _ c(1)])
    fix k assume k: "Suc n \<le> k" "k < 4"
    then have e: "p + 32 + 32 * (k - Suc n) = p + 32 * (k - n)" by simp
    show "bg_flags (group_desc_load (\<lambda>i. buf (p + 32 + 32 * (k - Suc n) + i))) \<noteq> 0"
      unfolding e using Suc.prems(4) [of k] k by simp
  qed (use Suc.hyps(2) n Suc.prems(3) in \<open>simp_all add: c(2)\<close>)
  moreover have "group_desc_loop buf p s = group_desc_loop buf (p + 32) s2"
  proof -
    have fl': "bg_flags (group_desc_load (\<lambda>k. buf (p + k))) \<noteq> 0" using fl by (simp add: s1_def)
    show ?thesis
      using fl' lt n by (subst group_desc_loop.simps) (simp add: u Let_def EXT4_GROUP_DESC_SIZE_def s1_def s2_def)
  qed
  ultimately show ?case by simp
qed

text \<open>On a volume of more than four block groups with valid descriptors the parser of the group descriptors leaves its
  arrays of four.\<close>

theorem group_desc_overflow:
  assumes "loaded_group_desc_count s = 0" "sector_index s = 8" "s_blocks_per_group (super_block s) \<noteq> 0"
    and "4 < (s_blocks_count_lo (super_block s) + s_blocks_per_group (super_block s) - 1) div s_blocks_per_group (super_block s)"
    and "list_all (\<lambda>k. bg_flags (group_desc_load (\<lambda>i. buf (32 * k + i))) \<noteq> 0) [0..<4]"
  shows "linux_parse_ext4_group_desc buf s = None"
proof -
  define n where "n = (s_blocks_count_lo (super_block s) + s_blocks_per_group (super_block s) - 1) div s_blocks_per_group (super_block s)"
  have "group_desc_loop buf 0 (s\<lparr>group_total := n\<rparr>) = None"
    by (rule group_loop_overflow [of _ 0]) (use assms in \<open>simp_all add: n_def list_all_iff\<close>)
  moreover have "0 < n" using assms(4) by (simp add: n_def) (metis word_gt_0_no less_trans word_gt_0)
  ultimately show ?thesis
    using assms(1-3) by (simp add: linux_parse_ext4_group_desc_def Let_def n_def [symmetric])
qed

theorem group_desc_overflow_witness:
  "linux_parse_ext4_group_desc (\<lambda>_. 1) (linux_start\<lparr>sector_index := 8,
     super_block := (super_block linux_start)\<lparr>s_blocks_count_lo := 262144, s_blocks_per_group := 32768\<rparr>\<rparr>) = None"
  by (rule group_desc_overflow) (simp_all add: linux_start_def group_desc_load_def le_at_def le_load_def upt_rec)

end
