(* ===== verification/Detect_Win.thy ===== *)
theory Detect_Win
  imports Detect_Lists Detect_Ext4
begin

text \<open>
  The Windows detection, drivers/usb/ransomtag.c: master file table records that pass by, the current process and its
  I/O requests read from the guest's memory, \<open>win_DetermineTag\<close> and \<open>win_analyse\<close>; and the ends of a transfer in
  usb_mscd.c, where the triggers are reset.
\<close>

section \<open>Master file table records\<close>

definition MFT_FILE_SIZE :: nat where "MFT_FILE_SIZE = 1024"

text \<open>The deletion of a file that a listed process read and wrote: the process goes to the blacklist.\<close>

fun mft_deleted :: "bytes \<Rightarrow> nat \<Rightarrow> nat list \<Rightarrow> win_state \<Rightarrow> win_state option" where
  "mft_deleted filename len [] s = Some s"
| "mft_deleted filename len (x # xs) s =
     (let p = patternlist s x in
      if rp_used p \<and> memcmp_eq (ReadFileName p) filename len \<and>
         (memcmp_eq (WriteFileName p) filename len \<or> memcmp_eq (WriteFileName p) NTFS_MetaFile_ConvertToNonresident 42)
      then do {
        let name = memcpy_bytes 15 (rp_ProcessName p) (\<lambda>_. 0);
        high \<leftarrow> win_traverse_high_entropylist name s;
        if high then do {
          (_, s) \<leftarrow> win_add_to_process_blacklist name s;
          win_del_from_patternlist name s }
        else mft_deleted filename len xs s }
      else mft_deleted filename len xs s)"

definition mft_file_name :: "bytes \<Rightarrow> u16 \<Rightarrow> nat \<Rightarrow> win_state \<Rightarrow> win_state option" where
  "mft_file_name rec flags attr s =
     (let at = attr + unat (le_at rec (attr + 0x14) 2 :: u16);
          len = unat (rec (at + 0x40) * 2)
      in if flags = 0 then mft_deleted (\<lambda>k. rec (at + 0x42 + k)) len [0..<LIST_SIZE] s else Some s)"

text \<open>The attributes of a record, each as long as its header says; nothing makes a length of zero progress.\<close>

partial_function (option) mft_attributes :: "bytes \<Rightarrow> u16 \<Rightarrow> nat \<Rightarrow> win_state \<Rightarrow> win_state option" where
  "mft_attributes rec flags attr s =
     (if attr < MFT_FILE_SIZE then do {
        let ty = (le_at rec attr 4 :: u32);
        if ty = 0xFFFFFFFF then Some s
        else do {
          s \<leftarrow> (if ty = 0x30 then mft_file_name rec flags attr s else Some s);
          mft_attributes rec flags (attr + unat (le_at rec (attr + 4) 2 :: u16)) s } }
      else Some s)"

definition mft_record :: "bytes \<Rightarrow> win_state \<Rightarrow> win_state option" where
  "mft_record rec s =
     (if (le_at rec 0 4 :: u32) \<noteq> 0x454C4946 then Some s
      else mft_attributes rec (le_at rec 0x16 2) (unat (le_at rec 0x14 2 :: u16)) s)"

definition ParseMFT :: "bytes \<Rightarrow> nat \<Rightarrow> win_state \<Rightarrow> win_state option" where
  "ParseMFT buf len = for_each [0..<len div 1024] (\<lambda>j. mft_record (\<lambda>k. buf (1024 * j + k)))"

section \<open>Data on its way\<close>

definition win_ransomtag_storage_handle_sectors :: "u32 \<Rightarrow> u32 \<Rightarrow> bool \<Rightarrow> bytes \<Rightarrow> bytes \<Rightarrow> bool \<Rightarrow> win_state \<Rightarrow>
    (bytes \<times> win_state) option" where
  "win_ransomtag_storage_handle_sectors count sector_size same src dst rw s =
     (if 0 < count \<and> \<not> same then do {
        let len = unat (count * sector_size);
        s \<leftarrow> (if bitmap_load_trigger s \<and> \<not> rw then do {
                s \<leftarrow> win_AddToBitmap src len s;
                Some (s\<lparr>bitmap_offset := bitmap_offset s + ucast (count * sector_size)\<rparr>) }
              else Some s);
        let dst = memcpy_bytes len src dst;
        s \<leftarrow> (if bitmap_check_trigger s \<and> rw then do {
                s \<leftarrow> win_CheckBitmap dst len s;
                Some (s\<lparr>bitmap_offset := bitmap_offset s + ucast (count * sector_size)\<rparr>) }
              else Some s);
        s \<leftarrow> (if ParseMFT_trigger s \<and> rw then ParseMFT dst len s else Some s);
        Some (dst, if rw then s\<lparr>byte_count := buffer_byte_count dst len (byte_count s)\<rparr> else s) }
      else Some (dst, s))"

text \<open>The end of \<open>usbmsc_code_buffers\<close> (usb_mscd.c).\<close>

definition code_buffers_done :: "win_state \<Rightarrow> win_state" where
  "code_buffers_done s =
     (let s = (if bitmap_load_trigger s then s\<lparr>bitmap_load_trigger := False, bitmap_inited := True\<rparr>
               else if bitmap_check_trigger s \<or> bitmap_compare_trigger s
               then s\<lparr>bitmap_check_trigger := False, bitmap_compare_trigger := False\<rparr> else s)
      in if ParseMFT_trigger s then s\<lparr>ParseMFT_trigger := False\<rparr> else s)"

section \<open>The current process\<close>

definition WIN_KERNEL_ADDR_SPACE_START :: u64 where "WIN_KERNEL_ADDR_SPACE_START = 0xFFFF000000000000"

definition is_win_kernel_addr :: "u64 \<Rightarrow> bool" where
  "is_win_kernel_addr a \<longleftrightarrow> WIN_KERNEL_ADDR_SPACE_START \<le> a"

definition win_read_virtaddr_data :: "guest \<Rightarrow> u64 \<Rightarrow> nat \<Rightarrow> bytes \<Rightarrow> bytes" where
  "win_read_virtaddr_data g a n dst = (if is_win_kernel_addr a then read_guest g a n dst else dst)"

text \<open>A variable of \<open>n\<close> bytes as the destination.\<close>

definition win_peek :: "guest \<Rightarrow> u64 \<Rightarrow> nat \<Rightarrow> 'a::len word \<Rightarrow> 'a word" where
  "win_peek g a n old = le_load n (win_read_virtaddr_data g a n (le_bytes old))"

record Win_UNICODE_STRING =
  Length :: u16
  Buffer :: u64
  FileNameStr :: bytes

record win_list_entry =
  list_entry_field :: u64
  Flink :: u64
  Blink :: u64

record win_file_object_info =
  FileObject :: u64
  FileName :: Win_UNICODE_STRING
  ByteOffset :: u64
  is_MFT :: bool
  is_Bitmap :: bool

record win_irp_info =
  Irp :: u64
  StackCount :: u8
  CurrentLocation :: u8
  CurrentStackLocation :: u64
  TopStackLocation :: u64
  MajorFunction :: u8
  FileObjectInfo :: win_file_object_info
  ReadWriteLength :: u64
  irp_used :: bool

record win_process_info =
  EProcess :: u64
  EThread :: u64
  IrpList :: win_list_entry
  DirectoryTableBase :: u64
  wp_cr3 :: u64
  ProcessName :: bytes
  IrpInfo :: "nat \<Rightarrow> win_irp_info"

definition win_container_of :: "u64 \<Rightarrow> u64 \<Rightarrow> u64" where "win_container_of field offset = field - offset"

text \<open>The arguments \<open>garbage\<close> are what the uninitialised locals of the callers hold.\<close>

definition win_get_KPCR :: "guest \<Rightarrow> u64" where "win_get_KPCR g = guest_gs_base g"

definition win_get_KPRCB :: "guest \<Rightarrow> u64 \<Rightarrow> u64" where
  "win_get_KPRCB g garbage = win_peek g (win_get_KPCR g + 0x20) 8 garbage"

definition win_get_CurrentThread :: "guest \<Rightarrow> u64 \<Rightarrow> u64 \<Rightarrow> u64" where
  "win_get_CurrentThread g garbage garbage' = win_peek g (win_get_KPRCB g garbage + 0x8) 8 garbage'"

definition win_get_CurrentProcessInfo :: "guest \<Rightarrow> (nat \<Rightarrow> u64) \<Rightarrow> win_process_info \<Rightarrow> bool \<times> win_process_info" where
  "win_get_CurrentProcessInfo g garbage p =
     (let thread = win_get_CurrentThread g (garbage 0) (garbage 1) in
      if \<not> is_win_kernel_addr thread then (False, p)
      else
        let process = win_peek g (thread + 0x220) 8 (garbage 2);
            p = p\<lparr>IrpList := (IrpList p)\<lparr>Flink := win_peek g (thread + 0x670) 8 (Flink (IrpList p)),
                                       Blink := win_peek g (thread + 0x670 + 8) 8 (Blink (IrpList p))\<rparr>\<rparr>;
            p = p\<lparr>ProcessName := win_read_virtaddr_data g (process + 0x450) 16 (ProcessName p)\<rparr>
        in (True, p\<lparr>EThread := thread, EProcess := process, wp_cr3 := guest_cr3 g,
              DirectoryTableBase := win_peek g (process + 0x28) 8 (garbage 3),
              IrpList := (IrpList p)\<lparr>list_entry_field := thread + 0x670\<rparr>,
              IrpInfo := (\<lambda>i. if i < 5 then (IrpInfo p i)\<lparr>irp_used := False\<rparr> else IrpInfo p i)\<rparr>))"

section \<open>I/O requests\<close>

definition BITMAP_LBA :: u32 where "BITMAP_LBA = 2072"

definition NTFS_MetaFile_MFT :: bytes where
  "NTFS_MetaFile_MFT = c_string [0x5C, 0x0, 0x24, 0x0, 0x4D, 0x0, 0x66, 0x0, 0x74]"

definition NTFS_MetaFile_Bitmap :: bytes where
  "NTFS_MetaFile_Bitmap = c_string [0x5C, 0x0, 0x24, 0x0, 0x42, 0x0, 0x69, 0x0, 0x74, 0x0, 0x4D, 0x0, 0x61, 0x0, 0x70]"

datatype meta_file = IS_MFT | IS_BITMAP | IS_OTHER

definition win_is_MFT_or_Bitmap :: "bytes \<Rightarrow> u32 \<Rightarrow> meta_file" where
  "win_is_MFT_or_Bitmap name lba =
     (if memcmp_eq name NTFS_MetaFile_MFT 9 then IS_MFT
      else if lba = BITMAP_LBA \<or> memcmp_eq name NTFS_MetaFile_Bitmap 15 then IS_BITMAP
      else IS_OTHER)"

text \<open>The name is read to its guest length into an array of 512 bytes; a longer one leaves the array.\<close>

definition win_get_FileObjectInfo :: "guest \<Rightarrow> win_file_object_info \<Rightarrow> win_file_object_info option" where
  "win_get_FileObjectInfo g f = do {
     let n = FileName f;
     let n = n\<lparr>Length := win_peek g (FileObject f + 0x58) 2 (Length n)\<rparr>;
     let n = n\<lparr>Buffer := win_peek g (FileObject f + 0x58 + 0x8) 8 (Buffer n)\<rparr>;
     ASSERT (is_win_kernel_addr (Buffer n) \<longrightarrow> Length n \<le> 512);
     Some (f\<lparr>FileName := n\<lparr>FileNameStr := win_read_virtaddr_data g (Buffer n) (unat (Length n)) (FileNameStr n)\<rparr>\<rparr>) }"

definition win_get_IrpInfo :: "guest \<Rightarrow> u32 \<Rightarrow> win_irp_info \<times> win_state \<Rightarrow> (win_irp_info \<times> win_state) option" where
  "win_get_IrpInfo g lba = (\<lambda>(i, s).
     if \<not> is_win_kernel_addr (Irp i) then Some (i, s)
     else do {
       let i = i\<lparr>StackCount := win_peek g (Irp i + 0x42) 1 (StackCount i)\<rparr>;
       let i = i\<lparr>CurrentLocation := win_peek g (Irp i + 0x43) 1 (CurrentLocation i)\<rparr>;
       let i = i\<lparr>CurrentStackLocation := win_peek g (Irp i + 0xB8) 8 (CurrentStackLocation i)\<rparr>;
       let i = i\<lparr>TopStackLocation := CurrentStackLocation i + (scast (StackCount i) - scast (CurrentLocation i)) * 0x48\<rparr>;
       let i = i\<lparr>MajorFunction := win_peek g (TopStackLocation i) 1 (MajorFunction i)\<rparr>;
       let i = i\<lparr>FileObjectInfo := (FileObjectInfo i)\<lparr>FileObject := win_peek g (Irp i + 0xC0) 8 (FileObject (FileObjectInfo i))\<rparr>\<rparr>;
       if \<not> is_win_kernel_addr (FileObject (FileObjectInfo i)) then Some (i, s)
       else do {
         f \<leftarrow> win_get_FileObjectInfo g (FileObjectInfo i);
         let rw = (MajorFunction i = 0x03 \<or> MajorFunction i = 0x04);
         let f = f\<lparr>ByteOffset := if rw then win_peek g (TopStackLocation i + 0x18) 8 (ByteOffset f) else 0\<rparr>;
         let i = i\<lparr>ReadWriteLength := if rw then win_peek g (TopStackLocation i + 0x8) 8 (ReadWriteLength i) else 0, irp_used := True\<rparr>;
         let kind = win_is_MFT_or_Bitmap (FileNameStr (FileName f)) lba;
         let i = i\<lparr>FileObjectInfo := f\<lparr>is_MFT := kind = IS_MFT, is_Bitmap := kind = IS_BITMAP\<rparr>\<rparr>;
         Some (i, if kind = IS_BITMAP
           then s\<lparr>bitmap_check_trigger := bitmap_inited s \<and> MajorFunction i = 0x04 \<or> bitmap_check_trigger s,
                  bitmap_lba := lba, bitmap_offset := ByteOffset f\<rparr>
           else s) } })"

text \<open>At most four requests are taken from the thread's list.\<close>

fun irp_loop :: "guest \<Rightarrow> u32 \<Rightarrow> u64 \<Rightarrow> nat \<Rightarrow> nat \<Rightarrow> u64 \<Rightarrow> u64 \<Rightarrow> win_process_info \<times> win_state \<Rightarrow>
    (win_process_info \<times> win_state) option" where
  "irp_loop g lba head 0 n idx flink v = Some v"
| "irp_loop g lba head (Suc left) n idx flink (p, s) =
     (if idx = head \<or> \<not> is_win_kernel_addr idx \<or> \<not> is_win_kernel_addr (win_container_of idx 0x20) then Some (p, s)
      else do {
        (i, s) \<leftarrow> win_get_IrpInfo g lba ((IrpInfo p n)\<lparr>Irp := win_container_of idx 0x20\<rparr>, s);
        let flink = win_peek g idx 8 flink;
        irp_loop g lba head left (n + 1) flink flink (p\<lparr>IrpInfo := (IrpInfo p)(n := i)\<rparr>, s) })"

definition traverse_IrpList :: "guest \<Rightarrow> u64 \<Rightarrow> u32 \<Rightarrow> win_process_info \<times> win_state \<Rightarrow> (win_process_info \<times> win_state) option" where
  "traverse_IrpList g garbage lba = (\<lambda>(p, s).
     if \<not> is_win_kernel_addr (list_entry_field (IrpList p)) then Some (p, s)
     else irp_loop g lba (list_entry_field (IrpList p)) 4 0 (Flink (IrpList p)) garbage (p, s))"

section \<open>The commands\<close>

definition NTFS_MFT_START_LBA :: u32 where "NTFS_MFT_START_LBA = 319488"
definition NTFS_MFT_END_LBA :: u32 where "NTFS_MFT_END_LBA = 320000"

definition win_DetermineTag :: "win_process_info \<Rightarrow> cbw \<times> win_state \<Rightarrow> cbw \<times> win_state" where
  "win_DetermineTag p = (\<lambda>(c, s).
     let lba = cbw_lba c in
     if is_MFT (FileObjectInfo (IrpInfo p 0)) \<or> NTFS_MFT_START_LBA < lba \<and> lba < NTFS_MFT_END_LBA
     then (AddTag RANSOMTAG_MFT c, s\<lparr>ParseMFT_trigger := True\<rparr>)
     else (AddTag RANSOMTAG c, s))"

definition scanmft_name :: bytes where "scanmft_name = c_string [0x73, 0x63, 0x61, 0x6E, 0x6D, 0x66, 0x74]"

definition ransomrecover_name :: bytes where
  "ransomrecover_name = c_string [0x72, 0x61, 0x6E, 0x73, 0x6F, 0x6D, 0x72, 0x65, 0x63, 0x6F, 0x76, 0x65, 0x72]"

text \<open>The tag of a read, by the name of the process: the scanner's third pass over the table, or the recovery tool.\<close>

definition win_recovery_tag :: "bytes \<Rightarrow> cbw \<times> win_state \<Rightarrow> (cbw \<times> win_state) option" where
  "win_recovery_tag name = (\<lambda>(c, s). do {
     scan \<leftarrow> map_option (\<lambda>r. r \<noteq> None) (mem_find_str name 11 scanmft_name);
     if scan then do {
       let sector = cbw_lba c;
       let s = (if sector = 2048 then s\<lparr>sector2048count := sector2048count s + 1\<rparr> else s);
       Some (if sector2048count s = 2 \<and> sector \<noteq> 2048 then (AddTag RANSOMTAG_MFT c, s)
             else if sector2048count s = 3 then (c, s\<lparr>sector2048count := 0\<rparr>)
             else (c, s)) }
     else do {
       recover \<leftarrow> map_option (\<lambda>r. r \<noteq> None) (mem_find_str name 13 ransomrecover_name);
       Some (if recover then (AddTag RECOVERTAG c, s) else (c, s)) } })"

definition win_Handle_Recovery :: "guest \<Rightarrow> (nat \<Rightarrow> u64) \<Rightarrow> win_process_info \<Rightarrow> cbw \<times> win_state \<Rightarrow> (cbw \<times> win_state) option" where
  "win_Handle_Recovery g garbage p0 v =
     (let (_, p) = win_get_CurrentProcessInfo g garbage p0 in
      if \<not> is_win_kernel_addr (EThread p) then Some v else win_recovery_tag (ProcessName p) v)"

definition win_analyse :: "guest \<Rightarrow> (nat \<Rightarrow> u64) \<Rightarrow> win_process_info \<Rightarrow> win_process_info \<Rightarrow> cbw \<times> win_state \<Rightarrow> (cbw \<times> win_state) option" where
  "win_analyse g garbage p0 p1 = (\<lambda>(c, s).
     let (_, p) = win_get_CurrentProcessInfo g garbage p0 in
     if \<not> is_win_kernel_addr (EThread p) then Some (c, s)
     else do {
       (p, s) \<leftarrow> traverse_IrpList g (garbage 4) (cbw_lba c) (p, s);
       if CBWCB c 0 = 0x28 then win_Handle_Recovery g (\<lambda>i. garbage (5 + i)) p1 (c, s)
       else if CBWCB c 0 = 0x2a then Some (win_DetermineTag p (c, s))
       else Some (c, s) })"

section \<open>Reachable states\<close>

text \<open>A command, a piece of data on its way, or the end of a transfer.\<close>

inductive win_step :: "win_state \<Rightarrow> win_state \<Rightarrow> bool" where
  command: "win_analyse g garbage p0 p1 (c, s) = Some (c', s') \<Longrightarrow> win_step s s'"
| sectors: "win_ransomtag_storage_handle_sectors count sector_size same src dst rw s = Some (dst', s') \<Longrightarrow> win_step s s'"
| transfer_end: "win_step s (code_buffers_done s)"

definition no_patterns :: "win_state \<Rightarrow> bool" where
  "no_patterns s \<longleftrightarrow> (\<forall>i. \<not> rp_used (patternlist s i))"

lemma no_patterns_updates [simp]:
  "no_patterns (s\<lparr>ParseMFT_trigger := b\<rparr>) = no_patterns s" "no_patterns (s\<lparr>sector2048count := k\<rparr>) = no_patterns s"
  "no_patterns (s\<lparr>bitmap_check_trigger := b\<rparr>) = no_patterns s" "no_patterns (s\<lparr>bitmap_lba := l\<rparr>) = no_patterns s"
  "no_patterns (s\<lparr>bitmap_offset := x\<rparr>) = no_patterns s" "no_patterns (s\<lparr>byte_count := f\<rparr>) = no_patterns s"
  by (simp_all add: no_patterns_def)

text \<open>Nothing has been learned: no bitmap, no list entry, no pattern.\<close>

definition win_dormant :: "win_state \<Rightarrow> bool" where
  "win_dormant s \<longleftrightarrow> \<not> bitmap_inited s \<and> \<not> bitmap_load_trigger s \<and> \<not> bitmap_check_trigger s \<and> \<not> bitmap_compare_trigger s \<and>
     no_patterns s \<and> win_processe_blacklist s = (\<lambda>_. 0) \<and> win_high_entropylist s = (\<lambda>_. 0) \<and>
     ntfs_bitmap s = (\<lambda>_. 0) \<and> SectorPageBitmap s = (\<lambda>_. 0)"

lemma mft_deleted_unused: "no_patterns s \<Longrightarrow> mft_deleted f len xs s = Some s"
  by (induction xs) (simp_all add: Let_def no_patterns_def)

lemma mft_file_name_unused: "no_patterns s \<Longrightarrow> mft_file_name rec flags a s = Some s"
  by (simp add: mft_file_name_def mft_deleted_unused Let_def)

lemma mft_attributes_same:
  assumes "mft_attributes rec flags a s = Some s'" "no_patterns s"
  shows "s' = s"
proof -
  have "no_patterns s \<longrightarrow> s' = s"
  proof (rule mft_attributes.raw_induct [OF _ assms(1), where P = "\<lambda>rec flags a s t. no_patterns s \<longrightarrow> t = s"])
  qed (auto simp: Let_def mft_file_name_unused split: if_splits Option.bind_splits)
  with assms(2) show ?thesis by blast
qed

lemma mft_record_same: "mft_record rec s = Some s' \<Longrightarrow> no_patterns s \<Longrightarrow> s' = s"
  using mft_attributes_same by (auto simp: mft_record_def split: if_splits)

lemma ParseMFT_same:
  assumes "ParseMFT buf len s = Some s'" "no_patterns s"
  shows "s' = s"
proof -
  have "for_each [0..<n] (\<lambda>j. mft_record (\<lambda>k. buf (1024 * j + k))) s = Some t \<Longrightarrow> t = s" for n t
  proof (induction n arbitrary: t)
    case (Suc n)
    then obtain u where "for_each [0..<n] (\<lambda>j. mft_record (\<lambda>k. buf (1024 * j + k))) s = Some u"
      "mft_record (\<lambda>k. buf (1024 * n + k)) u = Some t" by (auto simp: for_each_append split: Option.bind_splits)
    then show ?case using Suc.IH [of u] mft_record_same assms(2) by simp
  qed simp
  then show ?thesis using assms(1) by (simp add: ParseMFT_def)
qed

lemma win_get_IrpInfo_dormant:
  "win_get_IrpInfo g lba (i, s) = Some (i', s') \<Longrightarrow> win_dormant s \<Longrightarrow> win_dormant s'"
  by (auto simp: win_get_IrpInfo_def Let_def win_dormant_def split: if_splits Option.bind_splits)

lemma irp_loop_dormant:
  "irp_loop g lba head left n idx flink (p, s) = Some (p', s') \<Longrightarrow> win_dormant s \<Longrightarrow> win_dormant s'"
proof (induction left arbitrary: n idx flink p s)
  case (Suc left)
  show ?case
  proof (cases "idx = head \<or> \<not> is_win_kernel_addr idx \<or> \<not> is_win_kernel_addr (win_container_of idx 0x20)")
    case True
    then show ?thesis using Suc.prems by simp
  next
    case False
    define q where "q = win_get_IrpInfo g lba ((IrpInfo p n)\<lparr>Irp := win_container_of idx 0x20\<rparr>, s)"
    have b: "q \<bind> (\<lambda>(i, t). irp_loop g lba head left (n + 1) (win_peek g idx 8 flink) (win_peek g idx 8 flink)
         (p\<lparr>IrpInfo := (IrpInfo p)(n := i)\<rparr>, t)) = Some (p', s')"
      using Suc.prems(1) unfolding irp_loop.simps if_not_P [OF False] Let_def q_def .
    obtain i t where i: "q = Some (i, t)" using b by (cases q) auto
    have "win_dormant t" by (rule win_get_IrpInfo_dormant [OF i [unfolded q_def] Suc.prems(2)])
    moreover have "irp_loop g lba head left (n + 1) (win_peek g idx 8 flink) (win_peek g idx 8 flink)
         (p\<lparr>IrpInfo := (IrpInfo p)(n := i)\<rparr>, t) = Some (p', s')" using b unfolding i by simp
    ultimately show ?thesis by (rule Suc.IH [rotated])
  qed
qed simp

lemma if_pair_snd: "(if P then (a, t) else if Q then (b, u) else (d, w)) = (x, y) \<Longrightarrow> y \<in> {t, u, w}"
  by (auto split: if_splits)

lemma win_recovery_tag_state:
  assumes "win_recovery_tag name (c, s) = Some (c', s')"
  shows "\<exists>k. s' = s\<lparr>sector2048count := k\<rparr>"
proof (cases "mem_find_str name 11 scanmft_name")
  case None
  then show ?thesis using assms by (simp add: win_recovery_tag_def)
next
  case a: (Some a)
  have same: "\<exists>k. s = s\<lparr>sector2048count := k\<rparr>" by (rule exI [of _ "sector2048count s"]) simp
  show ?thesis
  proof (cases a)
    case None
    then have "s' = s" using a assms
      by (cases "mem_find_str name 13 ransomrecover_name") (auto simp: win_recovery_tag_def split: if_split_asm)
    then show ?thesis using same by simp
  next
    case i: (Some i)
    define t where "t = (if cbw_lba c = 2048 then s\<lparr>sector2048count := sector2048count s + 1\<rparr> else s)"
    have "(if sector2048count t = 2 \<and> cbw_lba c \<noteq> 2048 then (AddTag RANSOMTAG_MFT c, t)
       else if sector2048count t = 3 then (c, t\<lparr>sector2048count := 0\<rparr>) else (c, t)) = (c', s')"
      using assms unfolding t_def win_recovery_tag_def a i by (simp only: win_recovery_tag_def t_def Let_def option.map Option.bind.simps prod.case if_True option.inject option.distinct not_False_eq_True)
    from if_pair_snd [OF this] have "s' = t \<or> s' = t\<lparr>sector2048count := 0\<rparr>" by (elim insertE emptyE) simp_all
    moreover have "\<exists>k. t = s\<lparr>sector2048count := k\<rparr>" 
      by (rule exI [of _ "if cbw_lba c = 2048 then sector2048count s + 1 else sector2048count s"]) (simp add: t_def)
    then obtain k where "t = s\<lparr>sector2048count := k\<rparr>" ..
    ultimately have "s' = s\<lparr>sector2048count := k\<rparr> \<or> s' = s\<lparr>sector2048count := 0\<rparr>" by auto
    then show ?thesis by (elim disjE) (erule exI)+
  qed
qed
lemma win_recovery_tag_dormant:
  "win_recovery_tag name (c, s) = Some (c', s') \<Longrightarrow> win_dormant s \<Longrightarrow> win_dormant s'"
  using win_recovery_tag_state [of name c s c' s'] by (auto simp: win_dormant_def)

lemma win_analyse_dormant:
  assumes "win_analyse g garbage p0 p1 (c, s) = Some (c', s')" "win_dormant s"
  shows "win_dormant s'"
proof -
  obtain b p where bp: "win_get_CurrentProcessInfo g garbage p0 = (b, p)" by (cases "win_get_CurrentProcessInfo g garbage p0")
  show ?thesis
  proof (cases "is_win_kernel_addr (EThread p)")
    case False
    then show ?thesis using assms bp by (simp add: win_analyse_def)
  next
    case True
    then obtain p2 s2 where t: "traverse_IrpList g (garbage 4) (cbw_lba c) (p, s) = Some (p2, s2)"
      "(if CBWCB c 0 = 0x28 then win_Handle_Recovery g (\<lambda>i. garbage (5 + i)) p1 (c, s2)
       else if CBWCB c 0 = 0x2a then Some (win_DetermineTag p2 (c, s2)) else Some (c, s2)) = Some (c', s')"
      using assms(1) bp by (auto simp: win_analyse_def split: Option.bind_splits)
    have "win_dormant s2" using t(1) assms(2) by (auto simp: traverse_IrpList_def split: if_splits dest: irp_loop_dormant)
    then show ?thesis using t(2)
      by (auto simp: win_Handle_Recovery_def win_DetermineTag_def Let_def win_dormant_def
          dest: win_recovery_tag_dormant split: if_splits prod.splits)
  qed
qed

lemma sectors_dormant:
  "win_ransomtag_storage_handle_sectors count sz same src dst rw s = Some (dst', s') \<Longrightarrow> win_dormant s \<Longrightarrow> win_dormant s'"
  by (auto simp: win_ransomtag_storage_handle_sectors_def Let_def win_dormant_def split: if_splits Option.bind_splits
      dest!: ParseMFT_same)

text \<open>C33: The Windows side of the module learns nothing: in every state that commands, data and transfer ends can lead to
  from the start, no bitmap was loaded or compared, the sector map, the name lists and the patterns are empty.\<close>

theorem win_stays_dormant: "win_step\<^sup>*\<^sup>* win_boot s \<Longrightarrow> win_dormant s"
proof (induction rule: rtranclp_induct)
  case base
  then show ?case by (simp add: win_dormant_def win_boot_def zero_pattern_def no_patterns_def)
next
  case (step s t)
  from step(2,3) show ?case
  proof cases
    case transfer_end
    then show ?thesis using step(3) by (simp add: code_buffers_done_def win_dormant_def Let_def)
  qed (auto dest: win_analyse_dormant sectors_dormant)
qed

section \<open>Tags\<close>

text \<open>The write is of the master file table: the thread's first request is for the file, or the sector lies strictly between the bounds.\<close>

definition mft_write :: "win_process_info \<Rightarrow> u32 \<Rightarrow> bool" where
  "mft_write p lba \<longleftrightarrow> is_MFT (FileObjectInfo (IrpInfo p 0)) \<or> NTFS_MFT_START_LBA < lba \<and> lba < NTFS_MFT_END_LBA"

lemma win_analyse_write:
  assumes "win_analyse g garbage p0 p1 (c, s) = Some (c', s')" "CBWCB c 0 = 0x2a"
    and "is_win_kernel_addr (EThread (snd (win_get_CurrentProcessInfo g garbage p0)))"
  shows "\<exists>p s2. traverse_IrpList g (garbage 4) (cbw_lba c) (snd (win_get_CurrentProcessInfo g garbage p0), s) = Some (p, s2) \<and>
    win_DetermineTag p (c, s2) = (c', s')"
proof -
  obtain b p where bp: "win_get_CurrentProcessInfo g garbage p0 = (b, p)" by (cases "win_get_CurrentProcessInfo g garbage p0")
  show ?thesis using assms bp
    by (cases "traverse_IrpList g (garbage 4) (cbw_lba c) (p, s)") (auto simp: win_analyse_def split: prod.splits)
qed

lemma win_write_step:
  assumes "win_analyse g garbage p0 p1 (c, s) = Some (c', s')" "CBWCB c 0 = 0x2a" "CBWCB c 6 = 0"
    and "is_win_kernel_addr (EThread (snd (win_get_CurrentProcessInfo g garbage p0)))"
  shows "\<exists>p s2. traverse_IrpList g (garbage 4) (cbw_lba c) (snd (win_get_CurrentProcessInfo g garbage p0), s) = Some (p, s2) \<and>
    CheckTag (CBWCB c' 6) = (if mft_write p (cbw_lba c) then 2 else 1) \<and> c'\<lparr>CBWCB := (CBWCB c')(6 := 0)\<rparr> = c"
proof -
  from win_analyse_write [OF assms(1,2,4)] obtain p s2 where
    t: "traverse_IrpList g (garbage 4) (cbw_lba c) (snd (win_get_CurrentProcessInfo g garbage p0), s) = Some (p, s2)"
    and d: "win_DetermineTag p (c, s2) = (c', s')" by blast
  have c': "c' = AddTag (if mft_write p (cbw_lba c) then RANSOMTAG_MFT else RANSOMTAG) c"
    using d by (cases "mft_write p (cbw_lba c)") (simp_all add: win_DetermineTag_def mft_write_def [symmetric])
  have "CheckTag (CBWCB c' 6) = (if mft_write p (cbw_lba c) then 2 else 1)"
    unfolding c' using tagged_byte [OF assms(3), of "if mft_write p (cbw_lba c) then RANSOMTAG_MFT else RANSOMTAG"]
    by (cases "mft_write p (cbw_lba c)") simp_all
  moreover have "c'\<lparr>CBWCB := (CBWCB c')(6 := 0)\<rparr> = c"
    unfolding c' using AddTag_only_byte6 [of "if mft_write p (cbw_lba c) then RANSOMTAG_MFT else RANSOMTAG" c] assms(3) by simp
  ultimately show ?thesis using t by blast
qed


section \<open>Requests of a thread\<close>

lemma irp_loop_bound:
  assumes "irp_loop g lba head left n idx flink (p, s) = Some (p', s')"
  shows "\<forall>k. k < n \<or> n + left \<le> k \<longrightarrow> IrpInfo p' k = IrpInfo p k"
  using assms
proof (induction left arbitrary: n idx flink p s)
  case (Suc left)
  show ?case
  proof (cases "idx = head \<or> \<not> is_win_kernel_addr idx \<or> \<not> is_win_kernel_addr (win_container_of idx 0x20)")
    case True
    then show ?thesis using Suc.prems by simp
  next
    case False
    define q where "q = win_get_IrpInfo g lba ((IrpInfo p n)\<lparr>Irp := win_container_of idx 0x20\<rparr>, s)"
    have b: "q \<bind> (\<lambda>(i, t). irp_loop g lba head left (n + 1) (win_peek g idx 8 flink) (win_peek g idx 8 flink)
         (p\<lparr>IrpInfo := (IrpInfo p)(n := i)\<rparr>, t)) = Some (p', s')"
      using Suc.prems unfolding irp_loop.simps if_not_P [OF False] Let_def q_def .
    obtain i t where i: "q = Some (i, t)" using b by (cases q) auto
    have "irp_loop g lba head left (n + 1) (win_peek g idx 8 flink) (win_peek g idx 8 flink)
         (p\<lparr>IrpInfo := (IrpInfo p)(n := i)\<rparr>, t) = Some (p', s')" using b unfolding i by simp
    from Suc.IH [OF this] show ?thesis by simp
  qed
qed simp

text \<open>Whatever list the guest's memory shows, a cyclic one included, at most the first four of the five request entries
  are written.\<close>

theorem irp_entries_bounded:
  assumes "traverse_IrpList g garbage lba (p, s) = Some (p', s')"
  shows "\<forall>k \<ge> 4. IrpInfo p' k = IrpInfo p k"
  using assms irp_loop_bound [of g lba _ 4 0]
  by (auto simp: traverse_IrpList_def split: if_splits)

text \<open>A request whose file name is longer than 512 bytes makes the module write past its name array.\<close>

theorem win_long_name_overrun:
  assumes "is_win_kernel_addr (Irp i)" "is_win_kernel_addr fo"
    and "win_peek g (Irp i + 0xC0) 8 (FileObject (FileObjectInfo i)) = fo"
    and "512 < win_peek g (fo + 0x58) 2 (Length (FileName (FileObjectInfo i)))"
    and "is_win_kernel_addr (win_peek g (fo + 0x60) 8 (Buffer (FileName (FileObjectInfo i))))"
  shows "win_get_IrpInfo g lba (i, s) = None"
proof -
  have "\<not> win_peek g (fo + 0x58) 2 (Length (FileName (FileObjectInfo i))) \<le> 512" using assms(4) by simp
  then show ?thesis using assms(1,2,3,5)
    by (simp add: win_get_IrpInfo_def win_get_FileObjectInfo_def add.assoc Let_def)
qed

section \<open>The walk over a record's attributes\<close>

definition attr_type :: "bytes \<Rightarrow> nat \<Rightarrow> u32" where "attr_type rec a = le_at rec a 4"
definition attr_length :: "bytes \<Rightarrow> nat \<Rightarrow> u16" where "attr_length rec a = le_at rec (a + 4) 2"

text \<open>The attributes a walk from \<open>a\<close> comes to.\<close>

inductive attr_from :: "bytes \<Rightarrow> nat \<Rightarrow> nat \<Rightarrow> bool" for rec a where
  here: "a < MFT_FILE_SIZE \<Longrightarrow> attr_type rec a \<noteq> 0xFFFFFFFF \<Longrightarrow> attr_from rec a a"
| there: "attr_from rec a b \<Longrightarrow> c = b + unat (attr_length rec b) \<Longrightarrow> c < MFT_FILE_SIZE \<Longrightarrow> attr_type rec c \<noteq> 0xFFFFFFFF \<Longrightarrow>
    attr_from rec a c"

lemma attr_from_next:
  "attr_from rec (a + unat (attr_length rec a)) b \<Longrightarrow> a < MFT_FILE_SIZE \<Longrightarrow> attr_type rec a \<noteq> 0xFFFFFFFF \<Longrightarrow> attr_from rec a b"
  by (induction rule: attr_from.induct) (auto intro: attr_from.intros attr_from.there [OF attr_from.here])

lemma mft_attributes_unused:
  assumes "no_patterns s"
  shows "mft_attributes rec flags a s =
    (if a < MFT_FILE_SIZE \<and> attr_type rec a \<noteq> 0xFFFFFFFF then mft_attributes rec flags (a + unat (attr_length rec a)) s else Some s)"
  using assms by (subst mft_attributes.simps) (simp add: attr_type_def attr_length_def mft_file_name_unused Let_def)


lemma attr_stuck:
  assumes "mft_attributes rec flags b s = Some s'" "no_patterns s"
    and "b < MFT_FILE_SIZE" "attr_type rec b \<noteq> 0xFFFFFFFF" "attr_length rec b = 0"
  shows False
proof -
  have "rec' = rec \<longrightarrow> a = b \<longrightarrow> (no_patterns t) \<longrightarrow> False" if "mft_attributes rec' flags' a t = Some t'" for rec' flags' a t t'
  proof (rule mft_attributes.raw_induct [OF _ that, where P = "\<lambda>rec' flags' a t t'. rec' = rec \<longrightarrow> a = b \<longrightarrow> (no_patterns t) \<longrightarrow> False"])
  qed (use assms(3-5) in \<open>auto simp: attr_type_def attr_length_def Let_def mft_file_name_unused split: if_splits Option.bind_splits\<close>)
  from this [OF assms(1)] assms(2) show False by blast
qed

lemma attr_stuck_from:
  assumes "attr_from rec a b" "attr_length rec b = 0" "no_patterns s"
  shows "mft_attributes rec flags a s = None"
proof -
  have "mft_attributes rec flags b s = mft_attributes rec flags a s" "b < MFT_FILE_SIZE" "attr_type rec b \<noteq> 0xFFFFFFFF" using assms(1)
  proof induction
    case (there b c)
    then show "mft_attributes rec flags c s = mft_attributes rec flags a s"
      using mft_attributes_unused [OF assms(3), of rec flags b] by simp
  qed simp_all
  then show ?thesis using attr_stuck [of rec flags b s] assms by (cases "mft_attributes rec flags a s") auto
qed

text \<open>While no pattern is in use the walk over a record's attributes ends exactly when no attribute that it comes to
  has the length zero; with one of length zero it never does.\<close>

theorem mft_walk_terminates:
  assumes "no_patterns s"
  shows "mft_attributes rec flags a s = (if \<exists>b. attr_from rec a b \<and> attr_length rec b = 0 then None else Some s)"
proof (cases "\<exists>b. attr_from rec a b \<and> attr_length rec b = 0")
  case True
  then show ?thesis using attr_stuck_from [OF _ _ assms] by auto
next
  case False
  then have "mft_attributes rec flags a s = Some s"
  proof (induction "MFT_FILE_SIZE - a" arbitrary: a rule: less_induct)
    case less
    show ?case
    proof (cases "a < MFT_FILE_SIZE \<and> attr_type rec a \<noteq> 0xFFFFFFFF")
      case True
      then have "attr_length rec a \<noteq> 0" using less.prems attr_from.here by blast
      then have "MFT_FILE_SIZE - (a + unat (attr_length rec a)) < MFT_FILE_SIZE - a"
        using True by (simp add: unat_gt_0 diff_less_mono2)
      from less.hyps [OF this] have "mft_attributes rec flags (a + unat (attr_length rec a)) s = Some s"
        using less.prems attr_from_next True by blast
      then show ?thesis using True by (subst mft_attributes_unused [OF assms]) simp
    next
      case False
      then show ?thesis by (subst mft_attributes_unused [OF assms]) auto
    qed
  qed
  with False show ?thesis by simp
qed

section \<open>Recovery by the tool\<close>

text \<open>Only two process names make a read special: a process whose name begins with \<open>ransomrecover\<close> gets the recovery tag
  on each of its reads, and one that has \<open>scanmft\<close> in the first eleven bytes the metadata tag on its reads between
  its second and third read of sector 2048; every other read is left as it is.\<close>

theorem win_recovery_reads:
  "win_recovery_tag name (c, s) = Some
    (if \<exists>i \<le> 4. memcmp_eq (\<lambda>k. name (i + k)) scanmft_name 7 then
       (let n = (if cbw_lba c = 2048 then sector2048count s + 1 else sector2048count s) in
        (if n = 2 \<and> cbw_lba c \<noteq> 2048 then AddTag RANSOMTAG_MFT c else c, s\<lparr>sector2048count := if n = 3 then 0 else n\<rparr>))
     else (if memcmp_eq name ransomrecover_name 13 then AddTag RECOVERTAG c else c, s))"
proof -
  from mem_find_c_string [of "[0x73, 0x63, 0x61, 0x6E, 0x6D, 0x66, 0x74]" 7 11 4 name] obtain r where
    r: "mem_find_str name 11 scanmft_name = Some r" "r \<noteq> None \<longleftrightarrow> (\<exists>i \<le> 4. memcmp_eq (\<lambda>k. name (i + k)) scanmft_name 7)"
    by (auto simp: scanmft_name_def)
  from mem_find_c_string [of "[0x72, 0x61, 0x6E, 0x73, 0x6F, 0x6D, 0x72, 0x65, 0x63, 0x6F, 0x76, 0x65, 0x72]" 13 13 0 name] obtain r' where
    r': "mem_find_str name 13 ransomrecover_name = Some r'" "r' \<noteq> None \<longleftrightarrow> memcmp_eq name ransomrecover_name 13"
    by (auto simp: ransomrecover_name_def)
  show ?thesis
    unfolding win_recovery_tag_def r(2) [symmetric] r'(2) [symmetric]
    by (cases "r \<noteq> None"; cases "cbw_lba c = 2048") (simp_all add: r(1) r'(1) Let_def)
qed

section \<open>A thread without requests\<close>

definition guest_demo :: guest where
  "guest_demo = \<lparr>linear_byte = (\<lambda>a. Some (if a < 0xFFFF800000001600 then le_bytes (0xFFFF800000001000 :: u64) (unat a mod 8) else 0)),
     guest_phys = id, guest_rbp = 0, guest_gs_base = 0xFFFF800000000000, guest_cr3 = 0\<rparr>"

lemma guest_demo_bytes:
  assumes "unat a mod 8 = 0" "a < 0xFFFF800000001600 - 8" "k < 8"
  shows "linear_byte guest_demo (a + of_nat k) = Some (le_bytes (0xFFFF800000001000 :: u64) k)"
proof -
  have lt: "unat a < 0xFFFF800000001600 - 8" using assms(2) by (simp add: word_less_nat_alt)
  then have u: "unat (a + of_nat k) = unat a + k" using assms(3) by (simp add: unat_word_ariths unat_of_nat)
  then have "a + of_nat k < 0xFFFF800000001600" using lt assms(3) by (simp add: word_less_nat_alt)
  moreover have "(unat a + k) mod 8 = k" using assms(1,3) by (metis mod_add_left_eq add_0 mod_less)
  ultimately show ?thesis by (simp add: guest_demo_def u)
qed

lemma guest_demo_peek:
  assumes "unat a mod 8 = 0" "a < 0xFFFF800000001600 - 8" "is_win_kernel_addr a" "n \<le> 8"
  shows "win_peek guest_demo a n old = le_load n (le_bytes (0xFFFF800000001000 :: u64))"
  unfolding win_peek_def win_read_virtaddr_data_def if_P [OF assms(3)]
  by (rule le_load_cong) (use guest_demo_bytes [OF assms(1,2)] assms(4) in \<open>simp add: read_guest_def\<close>)

lemma guest_demo_peek8:
  assumes "unat a mod 8 = 0" "a < 0xFFFF800000001600 - 8" "is_win_kernel_addr a"
  shows "win_peek guest_demo a 8 (old :: u64) = 0xFFFF800000001000"
  using guest_demo_peek [OF assms, of 8 old] by simp

lemma guest_demo_zero:
  assumes "a \<in> {0xFFFF800000001670, 0xFFFF800000001678}"
  shows "win_peek guest_demo a 8 (old :: u64) = 0"
proof -
  have "\<not> a + of_nat k < 0xFFFF800000001600" if "k < 8" for k
    using assms that by (auto simp: word_less_nat_alt unat_word_ariths unat_of_nat)
  then have "le_load 8 (read_guest guest_demo a 8 (le_bytes old)) = (le_load 8 (\<lambda>_. 0) :: u64)"
    by (intro le_load_cong) (simp add: read_guest_def guest_demo_def)
  also have "\<dots> = 0" by (rule bit_word_eqI) (simp add: bit_le_load)
  finally show ?thesis using assms
    by (auto simp: win_peek_def win_read_virtaddr_data_def is_win_kernel_addr_def WIN_KERNEL_ADDR_SPACE_START_def)
qed

lemma demo_kernel [simp]: "is_win_kernel_addr 0xFFFF800000001000" "is_win_kernel_addr 0xFFFF800000001670" "\<not> is_win_kernel_addr 0"
  by (simp_all add: is_win_kernel_addr_def WIN_KERNEL_ADDR_SPACE_START_def)

lemma guest_demo_thread [simp]: "win_get_CurrentThread guest_demo x y = 0xFFFF800000001000"
proof -
  have "win_get_KPRCB guest_demo x = 0xFFFF800000001000"
    unfolding win_get_KPRCB_def win_get_KPCR_def
    by (rule guest_demo_peek8) (simp_all add: guest_demo_def is_win_kernel_addr_def WIN_KERNEL_ADDR_SPACE_START_def)
  moreover have "win_peek guest_demo (0xFFFF800000001000 + 8) 8 y = 0xFFFF800000001000"
    by (rule guest_demo_peek8) (simp_all add: is_win_kernel_addr_def WIN_KERNEL_ADDR_SPACE_START_def)
  ultimately show ?thesis by (simp add: win_get_CurrentThread_def)
qed

lemma guest_demo_process:
  "is_win_kernel_addr (EThread (snd (win_get_CurrentProcessInfo guest_demo garbage p0)))"
  "list_entry_field (IrpList (snd (win_get_CurrentProcessInfo guest_demo garbage p0))) = 0xFFFF800000001670"
  "Flink (IrpList (snd (win_get_CurrentProcessInfo guest_demo garbage p0))) = 0"
  using guest_demo_zero by (simp_all add: win_get_CurrentProcessInfo_def Let_def)

lemma guest_demo_irps:
  "traverse_IrpList guest_demo old lba (snd (win_get_CurrentProcessInfo guest_demo garbage p0), s) =
     Some (snd (win_get_CurrentProcessInfo guest_demo garbage p0), s)"
proof -
  have "irp_loop g lba head 4 n 0 x (p, t) = Some (p, t)" for g head n x p t
    by (simp add: eval_nat_numeral)
  then show ?thesis by (simp add: traverse_IrpList_def guest_demo_process)
qed


theorem irp_entries_bounded_witness:
  "\<exists>p' s'. traverse_IrpList guest_demo 0 319500 (snd (win_get_CurrentProcessInfo guest_demo garbage p0), win_boot) = Some (p', s') \<and>
     IrpInfo p' 4 = IrpInfo (snd (win_get_CurrentProcessInfo guest_demo garbage p0)) 4"
  using irp_entries_bounded [OF guest_demo_irps [of 0 319500 garbage p0 win_boot]] guest_demo_irps [of 0 319500 garbage p0 win_boot]
  by blast

theorem win_long_name_overrun_witness:
  "\<forall>lba i s. win_get_IrpInfo guest_demo lba (i\<lparr>Irp := 0xFFFF800000001000\<rparr>, s) = None"
proof (intro allI, rule win_long_name_overrun)
  fix i :: win_irp_info
  have "le_load 2 (le_bytes (0xFFFF800000001000 :: u64)) = (0x1000 :: u16)"
    by (simp add: le_load_def upt_rec le_bytes_def)
  moreover have "win_peek guest_demo (0xFFFF800000001000 + 0x58) 2 old = (le_load 2 (le_bytes (0xFFFF800000001000 :: u64)) :: u16)" for old
    by (rule guest_demo_peek) (simp_all add: is_win_kernel_addr_def WIN_KERNEL_ADDR_SPACE_START_def)
  ultimately show "512 < win_peek guest_demo (0xFFFF800000001000 + 0x58) 2 (Length (FileName (FileObjectInfo (i\<lparr>Irp := 0xFFFF800000001000\<rparr>))))"
    by simp
  have "win_peek guest_demo a 8 (old :: u64) = 0xFFFF800000001000" if "a \<in> {0xFFFF800000001060, 0xFFFF8000000010C0}" for a old
    by (rule guest_demo_peek8) (use that in \<open>auto simp: is_win_kernel_addr_def WIN_KERNEL_ADDR_SPACE_START_def\<close>)
  then show "is_win_kernel_addr (win_peek guest_demo (0xFFFF800000001000 + 0x60) 8 (Buffer (FileName (FileObjectInfo (i\<lparr>Irp := 0xFFFF800000001000\<rparr>)))))"
    "win_peek guest_demo (Irp (i\<lparr>Irp := 0xFFFF800000001000\<rparr>) + 0xC0) 8 (FileObject (FileObjectInfo (i\<lparr>Irp := 0xFFFF800000001000\<rparr>))) = 0xFFFF800000001000"
    by simp_all
qed simp_all

theorem mft_walk_terminates_witness:
  "mft_attributes (\<lambda>_. 0) 0 0 win_boot = None \<and> mft_attributes (\<lambda>_. 0xFF) 0 0 win_boot = Some win_boot"
proof -
  have np: "no_patterns win_boot" by (simp add: no_patterns_def win_boot_def zero_pattern_def)
  have "attr_from (\<lambda>_. 0) 0 0" "attr_length (\<lambda>_. 0) 0 = 0"
    by (auto intro!: attr_from.here simp: MFT_FILE_SIZE_def attr_type_def attr_length_def le_at_def le_load_def upt_rec)
  moreover have "attr_type (\<lambda>_. 0xFF) 0 = 0xFFFFFFFF" by (simp add: attr_type_def le_at_def le_load_def upt_rec)
  then have "\<not> attr_from (\<lambda>_. 0xFF) 0 b" for b
    using attr_from.induct [of "\<lambda>_. 0xFF" 0 b "\<lambda>_. False"] by blast
  ultimately show ?thesis using mft_walk_terminates [OF np, of "\<lambda>_. 0" 0 0] mft_walk_terminates [OF np, of "\<lambda>_. 0xFF" 0 0] by auto
qed

theorem win_stays_dormant_witness: "win_dormant (code_buffers_done win_boot)"
  by (rule win_stays_dormant) (rule r_into_rtranclp [of win_step, OF win_step.transfer_end])

end
