(* ===== verification/Host_Device.thy ===== *)
theory Host_Device
  imports Detect_Win Ssd_Read
begin

text \<open>
  The two halves together: commands that went through the detection module arrive at the SSD, whose main loop takes the
  flags of each page operation from the tag byte (\<open>write_flags\<close>, \<open>read_flags\<close> of main.c).  A suspicious write keeps the
  page's last benign version, which a read of the recovery tool returns, through the whole path of the SSD (\<open>ssd_read\<close>).
\<close>

section \<open>Commands on the wire\<close>

text \<open>The page of a command, from the bytes the firmware reads its address from, and the operation on it.\<close>

definition device_page :: "cbw \<Rightarrow> u32" where
  "device_page c = drop_bit SECTOR_PER_MPP_SHIFT (be32 (CBWCB c 2) (CBWCB c 3) (CBWCB c 4) (CBWCB c 5))"

definition device_write :: "cbw \<Rightarrow> mem \<Rightarrow> page_op" where
  "device_write c d = PageWrite (device_page c) (fst (write_flags (CBWCB c 6))) (clip MPP_WORDS d)"

text \<open>The command block wrapper as the device's controller stores it.\<close>

definition wire :: "cbw \<Rightarrow> MSC_CBW" where
  "wire c = \<lparr>cbw_dSignature = dCBWSignature c, cbw_dTag = dCBWTag c, dDataLength = dCBWDataTransferLength c, bmFlags = bmCBWFlags c,
     bLUN = bCBWLUN c, bCBLength = bCBWCBLength c, CB = CBWCB c\<rparr>"

text \<open>The tag changes nothing that makes a command a page read.\<close>

lemma wire_AddTag: "page_read_command (wire (AddTag tag c)) p n \<longleftrightarrow> page_read_command (wire c) p n"
  by (simp add: page_read_command_def wire_def AddTag_def)

lemma recovery_tag_bits: "CBWCB c 6 = 0 \<Longrightarrow> recover_bits (CBWCB (AddTag RECOVERTAG c) 6) \<and> \<not> mft_bits (CBWCB (AddTag RECOVERTAG c) 6)"
  using tagged_byte [of c RECOVERTAG] read_flags_bits [of "CBWCB (AddTag RECOVERTAG c) 6"] by (simp add: read_flags_def)

text \<open>A write of file data, as it leaves either side of the module; the states of the module may be any.\<close>

inductive data_write :: "cbw \<Rightarrow> cbw \<Rightarrow> bool" where
  from_linux: "linux_analyse_cbw c s = Some (c', s') \<Longrightarrow> ext4_tables_ok s \<Longrightarrow> cbw_lba c \<notin> taken_for_metadata s \<Longrightarrow>
     CBWCB c 0 = 0x2a \<Longrightarrow> CBWCB c 6 = 0 \<Longrightarrow> data_write c c'"
| from_windows: "win_analyse g garbage p0 p1 (c, s) = Some (c', s') \<Longrightarrow>
     is_win_kernel_addr (EThread (snd (win_get_CurrentProcessInfo g garbage p0))) \<Longrightarrow> CheckTag (CBWCB c' 6) \<noteq> 2 \<Longrightarrow>
     CBWCB c 0 = 0x2a \<Longrightarrow> CBWCB c 6 = 0 \<Longrightarrow> data_write c c'"

lemma data_write_flags: "data_write c c' \<Longrightarrow> write_flags (CBWCB c' 6) = (True, False)"
proof (induction rule: data_write.induct)
  case (from_linux c s c' s')
  then show ?case using linux_write_step [OF from_linux(2,4,5)] by (simp add: write_flags_def)
next
  case (from_windows g garbage p0 p1 c s c' s')
  then show ?case using win_write_step [OF from_windows(1,4,5,2)] by (auto simp: write_flags_def split: if_splits)
qed

text \<open>The page writes among the operations of the FTL; between them are reads and changes of the page buffers.\<close>

definition writes_of :: "page_op list \<Rightarrow> page_op list" where
  "writes_of ops = filter (\<lambda>op. case op of PageWrite _ _ _ \<Rightarrow> True | _ \<Rightarrow> False) ops"

lemma writes_of_pages: "op_pages ops = length (writes_of ops)"
  by (induction ops rule: op_pages.induct) (simp_all add: writes_of_def split: page_op.splits)

lemma writes_of_benign: "list_all (\<lambda>op. \<not> benign_write a op) (writes_of ops) \<longleftrightarrow> list_all (\<lambda>op. \<not> benign_write a op) ops"
  by (induction ops) (auto simp: writes_of_def split: page_op.splits)

lemma attack_not_benign:
  assumes "list_all2 data_write cs cs'" "length ds = length cs'" "writes_of ops = map2 device_write cs' ds"
  shows "list_all (\<lambda>op. \<not> benign_write a op) ops" "op_pages ops = length ds"
proof -
  have "list_all (\<lambda>op. \<not> benign_write a op) (map2 device_write cs' ds)"
    using assms(2) assms(1)
  proof (induction ds cs' arbitrary: cs rule: list_induct2)
    case (Cons d ds c' cs')
    then show ?case using data_write_flags by (auto simp: list_all2_Cons2 device_write_def)
  qed simp
  then show "list_all (\<lambda>op. \<not> benign_write a op) ops" "op_pages ops = length ds"
    using assms(2) by (simp_all add: writes_of_benign [of a ops, symmetric] writes_of_pages assms(3))
qed


section \<open>An example\<close>

text \<open>A host write of page 5 under attack, after a benign one.\<close>

lemma demo_data_write: "\<exists>c'. data_write (demo_cbw 0x2a 40) c' \<and> device_page c' = 5"
proof -
  have "dir_extents (dir_inode_extent_block ext4_demo) \<subseteq> {5000}"
    by (auto simp: dir_extents_def ext4_demo_def split: if_splits)
  then have "5 \<notin> dir_extents (dir_inode_extent_block ext4_demo)" by auto
  then have m: "40 \<notin> taken_for_metadata ext4_demo"
    by (simp add: taken_for_metadata_def) (auto simp: ext4_demo_def itable_blocks_count_def)
  from linux_write_step [OF ext4_demo_ok(1), of "demo_cbw 0x2a 40"] obtain c' s' where
    c': "linux_analyse_cbw (demo_cbw 0x2a 40) ext4_demo = Some (c', s')" "c'\<lparr>CBWCB := (CBWCB c')(6 := 0)\<rparr> = demo_cbw 0x2a 40" by auto
  have "data_write (demo_cbw 0x2a 40) c'"
    using data_write.from_linux [OF c'(1) ext4_demo_ok(1)] m by simp
  moreover have "cbw_lba c' = 40"
    using arg_cong [OF c'(2), of cbw_lba] by (simp add: cbw_lba_def [of c'] cbw_lba_def [of "_\<lparr>CBWCB := _\<rparr>"])
  then have "device_page c' = 5" by (simp add: device_page_def be32_def cbw_lba_def)
  ultimately show ?thesis by blast
qed

text \<open>The read of page 5, and a device whose handlers are idle.\<close>

definition read_5 :: cbw where
  "read_5 = (demo_cbw 0x28 40)\<lparr>bmCBWFlags := 0x80, CBWCB := (CBWCB (demo_cbw 0x28 40))(8 := 8)\<rparr>"

definition idle_msc :: msc_state where
  "idle_msc = msc_start\<lparr>DevStatusFS2HS := True, MSC_BlockCount := 0x800000\<rparr>"

lemma idle_msc_ok: "msc_idle 0x800000 idle_msc"
  by (simp add: msc_idle_def idle_msc_def ring_ok_def ring_tasks_def ring_length_def msc_start_def)

lemma read_5_command: "page_read_command (wire read_5) 5 1" "cbw_lba read_5 = 40" "CBWCB read_5 0 = 0x28" "CBWCB read_5 6 = 0"
proof -
  have "be32 (CBWCB (demo_cbw 0x28 40) 2) (CBWCB (demo_cbw 0x28 40) 3) (CBWCB (demo_cbw 0x28 40) 4) (CBWCB (demo_cbw 0x28 40) 5) = cbw_lba (demo_cbw 0x28 40)"
    by (simp add: be32_def cbw_lba_def)
  then show "page_read_command (wire read_5) 5 1" "cbw_lba read_5 = 40"
    by (simp_all add: page_read_command_def wire_def read_5_def cbw_lba_def [of "_\<lparr>CBWCB := _\<rparr>"] be32_def)
      (simp_all add: demo_cbw_def)
qed (simp_all add: read_5_def)


section \<open>The fields of a command\<close>

lemma or_disjoint_add: "(\<And>n. \<not> bit a n \<or> \<not> bit b n) \<Longrightarrow> a OR b = a + (b :: 'a::len word)"
  by (simp add: disjunctive_add)

lemma be32_value: "unat (be32 a b c d) = unat a * 2 ^ 24 + unat b * 2 ^ 16 + unat c * 2 ^ 8 + unat d"
proof -
  define N where "N = unat a * 2 ^ 24 + unat b * 2 ^ 16 + unat c * 2 ^ 8 + unat d"
  have lt: "unat a < 256" "unat b < 256" "unat c < 256" "unat d < 256"
    using unsigned_less [of a] unsigned_less [of b] unsigned_less [of c] unsigned_less [of d] by simp_all
  have "be32 a b c d = push_bit 24 (ucast a) + push_bit 16 (ucast b) + push_bit 8 (ucast c) + ucast d"
    unfolding be32_def
    by (subst or_disjoint_add, force simp: bit_simps dest: bit_imp_le_length)+ simp
  also have "\<dots> = of_nat N" by (simp add: push_bit_eq_mult N_def)
  finally have "be32 a b c d = of_nat N" .
  moreover have "N < 2 ^ 32" using lt by (simp add: N_def)
  ultimately show ?thesis unfolding N_def [symmetric] by (simp add: unat_of_nat)
qed


lemma bswap16_value:
  fixes a b :: u8
  shows "unat (bswap16 (ucast a OR push_bit 8 (ucast b))) = unat a * 2 ^ 8 + unat b"
proof -
  define N where "N = unat a * 2 ^ 8 + unat b"
  have lt: "unat a < 256" "unat b < 256" using unsigned_less [of a] unsigned_less [of b] by simp_all
  have "bswap16 (ucast a OR push_bit 8 (ucast b)) = push_bit 8 (ucast a) + ucast (b :: u8)"
    unfolding bswap16_def
    by (subst or_disjoint_add [symmetric], force simp: bit_simps dest: bit_imp_le_length)
      (rule bit_word_eqI, force simp: bit_simps bit_u8_beyond dest: bit_imp_le_length)
  also have "\<dots> = of_nat N" by (simp add: push_bit_eq_mult N_def)
  finally have "bswap16 (ucast a OR push_bit 8 (ucast b)) = of_nat N" .
  moreover have "N < 2 ^ 16" using lt by (simp add: N_def)
  ultimately show ?thesis unfolding N_def [symmetric] by (simp add: unat_of_nat)
qed

text \<open>Both halves read the same address and length from a ten byte command: the big endian numbers in bytes 2 to 5 and
  7 to 8.\<close>

theorem same_command_fields:
  assumes "CB (CBW m) = CBWCB (ci_cbw i)" "CBWCB (ci_cbw i) 0 \<in> {SCSI_READ10, SCSI_WRITE10, SCSI_VERIFY10}"
  shows "Offset (snd (MSC_RWSetup m)) = ci_lba (parse_CBW i) \<and> Length (snd (MSC_RWSetup m)) = ucast (ci_n_blocks (parse_CBW i)) \<and>
    unat (ci_lba (parse_CBW i)) = foldl (\<lambda>n k. n * 256 + unat (CBWCB (ci_cbw i) k)) 0 [2, 3, 4, 5] \<and>
    unat (ci_n_blocks (parse_CBW i)) = foldl (\<lambda>n k. n * 256 + unat (CBWCB (ci_cbw i) k)) 0 [7, 8]"
proof -
  define c where "c = CBWCB (ci_cbw i)"
  have lba: "ci_lba (parse_CBW i) = be32 (c 2) (c 3) (c 4) (c 5)" by (simp add: parse_CBW_def cbw_lba_def be32_def c_def)
  have n: "unat (ci_n_blocks (parse_CBW i)) = unat (c 7) * 2 ^ 8 + unat (c 8)"
    using bswap16_value [of "c 7" "c 8"] by (simp add: parse_CBW_def c_def)
  have "unat (be32 0 0 (c 7) (c 8)) = unat (ci_n_blocks (parse_CBW i))" unfolding n be32_value by simp
  moreover have lt: "unat (ci_n_blocks (parse_CBW i)) < 65536" using unsigned_less [of "ci_n_blocks (parse_CBW i)"] by simp
  ultimately have "push_bit 8 (ucast (c 7)) OR ucast (c 8) = (ucast (ci_n_blocks (parse_CBW i)) :: u32)"
    using lt
    by (simp add: be32_def word_unat_eq_iff unsigned_ucast_eq take_bit_nat_eq_self)
  then have "Offset (snd (MSC_RWSetup m)) = ci_lba (parse_CBW i)" "Length (snd (MSC_RWSetup m)) = ucast (ci_n_blocks (parse_CBW i))"
    using assms by (simp_all add: MSC_RWSetup_def Let_def rw_length_def lba c_def finish_with_def set_status_def MSC_SetCSW_def
        stall_data_ep_def MSC_SetStallEP_def usb_request_def split: if_splits)
  then show ?thesis using n lba be32_value [of "c 2" "c 3" "c 4" "c 5"] by (simp add: c_def)
qed

theorem same_command_fields_witness:
  "Offset (snd (MSC_RWSetup (msc_start\<lparr>CBW := (CBW msc_start)\<lparr>CB := CBWCB (demo_cbw 0x2a 70000)\<rparr>\<rparr>))) = 70000"
proof -
  define i where "i = \<lparr>ci_cbw = demo_cbw 0x2a 70000, ci_direction = 0, ci_lba = 0, ci_n_blocks = 0\<rparr>"
  have "ci_lba (parse_CBW i) = 70000" by (simp add: parse_CBW_def i_def)
  then show ?thesis
    using same_command_fields [of "msc_start\<lparr>CBW := (CBW msc_start)\<lparr>CB := CBWCB (demo_cbw 0x2a 70000)\<rparr>\<rparr>" i]
    by (simp add: i_def SCSI_WRITE10_def)
qed

end
