(* ===== verification/Usb_Mscd.thy ===== *)
theory Usb_Mscd
  imports Host_Device
begin

text \<open>
  The mass storage driver of the hypervisor, drivers/usb/usb_mscd.c, which every bulk transfer between the guest and the device
  passes: the command wrapper is copied, analysed and tagged, the data blocks are copied through the data hook of the
  detection, and the status wrapper ends the command; and the shadow buffers of drivers/usb/ehci_shadow.c that the copies go to.
  A computation that returns \<open>None\<close> is a failed assertion, a division by zero or an access through a null pointer or
  past a buffer, all in the hypervisor.
\<close>

section \<open>Buffers\<close>

definition USB_PID_IN :: u8 where "USB_PID_IN = 0x69"
definition USB_PID_OUT :: u8 where "USB_PID_OUT = 0xe1"
definition USB_PID_SETUP :: u8 where "USB_PID_SETUP = 0x2d"

text \<open>
  One element of a buffer list: its direction, whether it has an address in the hypervisor (a shadow buffer) or only one in the
  guest, and the \<open>len\<close> bytes it refers to.
\<close>

record usb_buffer =
  ub_pid :: u8
  ub_vadr :: bool
  ub_data :: "u8 list"

abbreviation ub_len :: "usb_buffer \<Rightarrow> nat" where "ub_len ub \<equiv> length (ub_data ub)"

definition PAGESIZE :: nat where "PAGESIZE = 4096"

text \<open>
  A transfer descriptor of the guest, with its total length and five buffer pointers, as a list of buffers that end at page
  ends: their addresses and lengths, and what the guest's memory holds there.
\<close>

record ehci_qtd =
  qtd_token :: u32
  qtd_buffer :: "nat \<Rightarrow> u32"

record usb_page =
  pg_addr :: u32
  pg_len :: nat
  pg_pid :: u8

definition ehci_qtd_len :: "ehci_qtd \<Rightarrow> nat" where "ehci_qtd_len q = unat (drop_bit 16 (qtd_token q) AND 0x7FFF)"
definition ehci_qtd_pid :: "ehci_qtd \<Rightarrow> u8" where "ehci_qtd_pid q = ucast (drop_bit 8 (qtd_token q) AND 0x3)"
definition is_active_qtd :: "ehci_qtd \<Rightarrow> bool" where "is_active_qtd q \<longleftrightarrow> qtd_token q AND 0x80 \<noteq> 0"

definition pid_ehci2usb :: "u8 \<Rightarrow> u8" where
  "pid_ehci2usb p = (if p = 0 then USB_PID_OUT else if p = 1 then USB_PID_IN else if p = 2 then USB_PID_SETUP else p)"

definition register_buffer_page :: "u32 \<Rightarrow> nat \<Rightarrow> u8 \<Rightarrow> nat \<Rightarrow> usb_page \<times> nat" where
  "register_buffer_page bufp s_off upid remain =
     (let len = min (PAGESIZE - s_off) remain in (\<lparr>pg_addr = bufp, pg_len = len, pg_pid = upid\<rparr>, remain - len))"

fun following_pages :: "ehci_qtd \<Rightarrow> u8 \<Rightarrow> nat list \<Rightarrow> nat \<Rightarrow> usb_page list" where
  "following_pages q upid [] remain = []"
| "following_pages q upid (i # is) remain =
     (if 0 < remain then
        let (ub, remain) = register_buffer_page (qtd_buffer q i AND 0xfffff000) 0 upid remain
        in ub # following_pages q upid is remain
      else [])"

definition page_offset :: "ehci_qtd \<Rightarrow> nat" where "page_offset q = unat (qtd_buffer q 0 AND 0xFFF)"

definition qtd_pages :: "ehci_qtd \<Rightarrow> usb_page list" where
  "qtd_pages q =
     (if \<not> is_active_qtd q \<or> ehci_qtd_len q = 0 then []
      else
        let upid = pid_ehci2usb (ehci_qtd_pid q);
            (ub, remain) = register_buffer_page (qtd_buffer q 0) (page_offset q) upid (ehci_qtd_len q)
        in ub # following_pages q upid [1, 2, 3, 4] remain)"

definition make_buffer_list :: "ehci_qtd list \<Rightarrow> usb_page list" where
  "make_buffer_list qs = concat (map qtd_pages qs)"

definition guest_buffers :: "(u64 \<Rightarrow> u8) \<Rightarrow> usb_page list \<Rightarrow> usb_buffer list" where
  "guest_buffers mem = map (\<lambda>g. \<lparr>ub_pid = pg_pid g, ub_vadr = False,
     ub_data = map (\<lambda>k. mem (ucast (pg_addr g) + of_nat k)) [0..<pg_len g]\<rparr>)"

text \<open>
  The pointers of the copies of the descriptors are replaced by the addresses of the shadow buffers, after an assertion that
  they are still the ones that the list was made from; the list was made with the low bits cleared.
\<close>

fun fit_pointers :: "nat list \<Rightarrow> nat \<Rightarrow> usb_page list \<Rightarrow> u32 list \<Rightarrow> ehci_qtd \<Rightarrow> (ehci_qtd \<times> usb_page list \<times> u32 list) option" where
  "fit_pointers [] len gub hub q = Some (q, gub, hub)"
| "fit_pointers (i # is) len (g # gs) (h # hs) q =
     (if pg_addr g \<noteq> qtd_buffer q i then None
      else
        let q = q\<lparr>qtd_buffer := (qtd_buffer q)(i := h)\<rparr>; len = len - pg_len g
        in if len = 0 then Some (q, gs, hs) else fit_pointers is len gs hs q)"
| "fit_pointers (i # is) len _ _ q = None"

fun fit_qtds :: "ehci_qtd list \<Rightarrow> usb_page list \<Rightarrow> u32 list \<Rightarrow> ehci_qtd list option" where
  "fit_qtds [] gub hub = (if gub = [] \<and> hub = [] then Some [] else None)"
| "fit_qtds (q # qs) gub hub =
     (if \<not> is_active_qtd q \<or> ehci_qtd_len q = 0 then map_option ((#) q) (fit_qtds qs gub hub)
      else do {
        (q, gub, hub) \<leftarrow> fit_pointers [0, 1, 2, 3, 4] (ehci_qtd_len q) gub hub q;
        map_option ((#) q) (fit_qtds qs gub hub) })"

text \<open>The shadow of each buffer: a page of the hypervisor, filled only when \<open>flag\<close> is set.\<close>

definition ehci_shadow_buffer :: "bytes \<Rightarrow> bool \<Rightarrow> usb_buffer list \<Rightarrow> usb_buffer list option" where
  "ehci_shadow_buffer garbage flag gub = do {
     ASSERT (gub \<noteq> []);
     ASSERT (list_all (\<lambda>g. ub_len g \<le> PAGESIZE) gub);
     Some (map (\<lambda>g. \<lparr>ub_pid = ub_pid g, ub_vadr = True,
       ub_data = if flag then ub_data g else map garbage [0..<ub_len g]\<rparr>) gub) }"

section \<open>Data blocks\<close>

datatype buffer_mode = Unaligned | FromShadow | FromGuest

text \<open>How many buffers, and how many bytes, until the length is a multiple of the block length.\<close>

fun concat_buffers :: "nat \<Rightarrow> usb_buffer list \<Rightarrow> nat \<Rightarrow> nat \<Rightarrow> nat \<times> nat" where
  "concat_buffers block_len [] len n = (len, n)"
| "concat_buffers block_len (ub # ubs) len n =
     (if (len + ub_len ub) mod block_len \<noteq> 0 then concat_buffers block_len ubs (len + ub_len ub) (n + 1)
      else (len + ub_len ub, n + 1))"

definition prepare_buffers :: "nat \<Rightarrow> usb_buffer list \<Rightarrow> usb_buffer list \<Rightarrow> bytes \<Rightarrow>
    (buffer_mode \<times> nat \<times> u8 list \<times> u8 list) option" where
  "prepare_buffers block_len src dest garbage = do {
     ASSERT (src \<noteq> [] \<and> dest \<noteq> []);
     let (mode, len, s, d) =
       (if ub_len (hd src) mod block_len \<noteq> 0 then
          let (len, n) = concat_buffers block_len src 0 0
          in (Unaligned, len, concat (map ub_data (take n src)), map garbage [0..<len])
        else (if ub_vadr (hd src) then FromShadow else FromGuest, ub_len (hd src), ub_data (hd src), ub_data (hd dest)));
     ASSERT (mode = FromGuest \<longrightarrow> ub_vadr (hd dest));
     ASSERT (0 < len);
     Some (mode, len, s, d) }"

text \<open>The coded data of the temporary buffer into each buffer; the result is the buffers filled and how many.\<close>

fun distribute :: "u8 list \<Rightarrow> usb_buffer list \<Rightarrow> (usb_buffer list \<times> nat) option" where
  "distribute [] dest = Some (dest, 0)"
| "distribute (b # bs) [] = None"
| "distribute (b # bs) (ub # ubs) =
     (let k = min (ub_len ub) (length (b # bs)) in
      if k = 0 then
        (case distribute (b # bs) ubs of None \<Rightarrow> None | Some (r, n) \<Rightarrow> Some (ub # r, n + 1))
      else
        (case distribute (drop k (b # bs)) ubs of None \<Rightarrow> None
         | Some (r, n) \<Rightarrow> Some (ub\<lparr>ub_data := take k (b # bs) @ drop k (ub_data ub)\<rparr> # r, n + 1)))"

text \<open>
  Unwinding tells the cases apart by the addresses and by \<open>len == dest_ub->len\<close>; a temporary buffer of just that length is
  taken for a mapped guest buffer, and its contents are not copied.
\<close>

definition windup_buffers :: "buffer_mode \<Rightarrow> nat \<Rightarrow> u8 list \<Rightarrow> usb_buffer list \<Rightarrow> (usb_buffer list \<times> nat) option" where
  "windup_buffers mode len d dest =
     (case mode of
        FromGuest \<Rightarrow> Some ((hd dest)\<lparr>ub_data := d\<rparr> # tl dest, 1)
      | FromShadow \<Rightarrow> if len = ub_len (hd dest) then Some ((hd dest)\<lparr>ub_data := d\<rparr> # tl dest, 1) else None
      | Unaligned \<Rightarrow> if len = ub_len (hd dest) then Some (dest, 1) else distribute d dest)"

text \<open>
  One round of the loop of \<open>usbmsc_code_buffers\<close>. The data hook writes \<open>count\<close> blocks to the destination, which is an
  access outside it when that is shorter.
\<close>

definition code_round :: "nat \<Rightarrow> bool \<Rightarrow> bytes \<Rightarrow> usb_buffer list \<Rightarrow> usb_buffer list \<Rightarrow> win_state \<Rightarrow>
    (u32 \<times> usb_buffer list \<times> nat \<times> win_state) option" where
  "code_round block_len rw garbage dest src w = do {
     (mode, len, s, d) \<leftarrow> prepare_buffers block_len src dest garbage;
     let count = (of_nat (len div block_len) :: u32);
     ASSERT (unat (count * of_nat block_len) \<le> length d);
     (d', w) \<leftarrow> win_ransomtag_storage_handle_sectors count (of_nat block_len) False (c_string s) (c_string d) rw w;
     (dest, adv) \<leftarrow> windup_buffers mode len (map d' [0..<length d]) dest;
     Some (count, dest, adv, w) }"

text \<open>The loop; both lists advance by the buffers used, at least one.\<close>

function code_loop :: "nat \<Rightarrow> u8 \<Rightarrow> bool \<Rightarrow> bytes \<Rightarrow> u64 \<Rightarrow> usb_buffer list \<Rightarrow> usb_buffer list \<Rightarrow> win_state \<Rightarrow>
    (u32 \<times> usb_buffer list \<times> win_state) option" where
  "code_loop block_len upid rw garbage len dest src w =
     (if src = [] then None
      else if ub_len (hd src) = 0 \<or> ub_pid (hd src) \<noteq> upid then Some (0, dest, w)
      else case code_round block_len rw garbage dest src w of None \<Rightarrow> None
      | Some (count, dest, adv, w) \<Rightarrow>
          let coded = of_nat block_len * ucast count;
              len = (if len < coded then 0 else len - coded);
              k = max 1 adv
          in if length src < k \<or> length dest < k then None
             else if drop k src = [] \<or> drop k dest = [] \<or> len = 0 then Some (count, dest, w)
             else case code_loop block_len upid rw garbage len (drop k dest) (drop k src) w of None \<Rightarrow> None
                  | Some (n, rest, w) \<Rightarrow> Some (count + n, take k dest @ rest, w))"
  by pat_completeness auto
termination
  by (relation "measure (\<lambda>(_, _, _, _, _, _, src, _). length src)") auto

section \<open>The device and its units\<close>

definition USBMSC_LUN_MAX :: nat where "USBMSC_LUN_MAX = 15"
definition USBMSC_PROF_NOPROF :: u16 where "USBMSC_PROF_NOPROF = 0"

text \<open>A storage handle of a unit is never null (\<open>storage_new\<close> is asserted to succeed) and has no part in the copies.\<close>

record usbmsc_unit =
  command :: u8
  n_blocks :: u32
  unit_lba :: u32
  lba_max :: u32
  profile :: u16
  unit_length :: u64
  storage_sector_size :: u32

record usbmsc_device =
  msc_tag :: u32
  lun_max :: u8
  lun :: u8
  units :: "nat \<Rightarrow> usbmsc_unit option"

definition new_unit :: usbmsc_unit where
  "new_unit = \<lparr>command = 0, n_blocks = 0, unit_lba = 0, lba_max = 0, profile = 0, unit_length = 0, storage_sector_size = 0\<rparr>"

definition new_device :: usbmsc_device where
  "new_device = \<lparr>msc_tag = 0, lun_max = 0, lun = 0, units = (\<lambda>_. None)(0 := Some new_unit)\<rparr>"

definition set_unit :: "nat \<Rightarrow> usbmsc_unit \<Rightarrow> usbmsc_device \<Rightarrow> usbmsc_device" where
  "set_unit k u dev = dev\<lparr>units := (units dev)(k := Some u)\<rparr>"

abbreviation cur :: "usbmsc_device \<Rightarrow> nat" where "cur dev \<equiv> unat (lun dev)"

text \<open>The sector size is computed from the first transfer when READ CAPACITY has not been seen; dividing by zero blocks is fatal.\<close>

definition usbmsc_code_buffers :: "usbmsc_device \<Rightarrow> usb_buffer list \<Rightarrow> usb_buffer list \<Rightarrow> u8 \<Rightarrow> u64 \<Rightarrow> bool \<Rightarrow> bytes \<Rightarrow> win_state \<Rightarrow>
    (u32 \<times> usbmsc_device \<times> usb_buffer list \<times> win_state) option" where
  "usbmsc_code_buffers dev dest src upid len rw garbage w = do {
     u \<leftarrow> units dev (cur dev);
     u \<leftarrow> (if storage_sector_size u = 0 then
             if n_blocks u = 0 then None
             else Some (u\<lparr>storage_sector_size := ucast (unit_length u div ucast (n_blocks u))\<rparr>)
           else Some u);
     let block_len = (scast (storage_sector_size u) :: u64);
     ASSERT (0 < block_len);
     (n, dest, w) \<leftarrow> code_loop (unat block_len) upid rw garbage len dest src w;
     Some (n, set_unit (cur dev) u dev, dest, code_buffers_done w) }"

text \<open>What both directions do with the number of blocks coded.\<close>

definition account_blocks :: "u32 \<Rightarrow> usbmsc_unit \<Rightarrow> usbmsc_unit" where
  "account_blocks n u =
     (let n = (if n_blocks u < n then n_blocks u else n)
      in u\<lparr>unit_length := unit_length u - scast (storage_sector_size u * n), n_blocks := n_blocks u - n, unit_lba := unit_lba u + n\<rparr>)"

section \<open>Command and status wrappers\<close>

definition CBW_SIZE :: nat where "CBW_SIZE = 31"
definition CSW_SIZE :: nat where "CSW_SIZE = 13"

definition cbw_load :: "u8 list \<Rightarrow> cbw" where
  "cbw_load xs = (let p = c_string xs in
     \<lparr>dCBWSignature = le_load 4 p, dCBWTag = le_load 4 (\<lambda>k. p (4 + k)), dCBWDataTransferLength = le_load 4 (\<lambda>k. p (8 + k)),
      bmCBWFlags = p 12, bCBWLUN = p 13, bCBWCBLength = p 14, CBWCB = (\<lambda>k. if k < 16 then p (15 + k) else 0)\<rparr>)"

definition cbw_bytes :: "cbw \<Rightarrow> u8 list" where
  "cbw_bytes c = map (le_bytes (dCBWSignature c)) [0..<4] @ map (le_bytes (dCBWTag c)) [0..<4] @
     map (le_bytes (dCBWDataTransferLength c)) [0..<4] @ [bmCBWFlags c, bCBWLUN c, bCBWCBLength c] @ map (CBWCB c) [0..<16]"

definition bswap32 :: "u32 \<Rightarrow> u32" where
  "bswap32 x = push_bit 24 x OR push_bit 8 (x AND 0xFF00) OR drop_bit 8 x AND 0xFF00 OR drop_bit 24 x"

text \<open>The analysis of the command is \<open>win_analyse\<close>, on the copy; an argument here, with what it may return.\<close>

type_synonym analysis = "cbw \<times> win_state \<Rightarrow> (cbw \<times> win_state) option"

definition usbmsc_cbw_parser :: "analysis \<Rightarrow> usbmsc_device \<Rightarrow> cbw \<Rightarrow> win_state \<Rightarrow> (usbmsc_device \<times> cbw \<times> win_state) option" where
  "usbmsc_cbw_parser analyse dev c w = do {
     let dev = dev\<lparr>msc_tag := dCBWTag c, lun := bCBWLUN c AND 0x0f\<rparr>;
     let dev = (if lun_max dev < lun dev then dev\<lparr>lun := 0\<rparr> else dev);
     u \<leftarrow> units dev (cur dev);
     let u = u\<lparr>command := CBWCB c 0, unit_length := ucast (dCBWDataTransferLength c)\<rparr>;
     (c, w) \<leftarrow> analyse (c, w);
     let u =
       (if CBWCB c 0 = 0x28 \<or> CBWCB c 0 = 0x2a then
          u\<lparr>unit_lba := bswap32 (le_load 4 (\<lambda>k. CBWCB c (2 + k))), n_blocks := ucast (bswap16 (le_load 2 (\<lambda>k. CBWCB c (7 + k))))\<rparr>
        else if CBWCB c 0 = 0xa8 \<or> CBWCB c 0 = 0xaa then
          u\<lparr>unit_lba := bswap32 (le_load 4 (\<lambda>k. CBWCB c (2 + k))), n_blocks := bswap32 (le_load 4 (\<lambda>k. CBWCB c (6 + k)))\<rparr>
        else if CBWCB c 0 = 0x46 then u\<lparr>profile := USBMSC_PROF_NOPROF\<rparr>
        else u);
     Some (set_unit (cur dev) u dev, c, w) }"

text \<open>A copy of \<open>len\<close> bytes; a source longer than its destination is written past it.\<close>

fun usbmsc_copy_buffer :: "u64 \<Rightarrow> usb_buffer list \<Rightarrow> usb_buffer list \<Rightarrow> usb_buffer list option" where
  "usbmsc_copy_buffer len (d # ds) (x # xs) =
     (let clen = (if len < of_nat (ub_len x) then unat len else ub_len x) in
      if ub_len d < clen then None
      else
        let d = d\<lparr>ub_data := take clen (ub_data x) @ drop clen (ub_data d)\<rparr>;
            len = len - of_nat clen
        in if 0 < len \<and> xs \<noteq> [] \<and> ds \<noteq> [] then
             (case usbmsc_copy_buffer len ds xs of None \<Rightarrow> None | Some r \<Rightarrow> Some (d # r))
           else Some (d # ds))"
| "usbmsc_copy_buffer len _ _ = None"

section \<open>The hooks\<close>

datatype hook_result = USB_HOOK_PASS | USB_HOOK_DISCARD

text \<open>
  The request to the device before it is issued: the guest's buffers, the shadow of each, and the driver. The result tells
  whether the guest's transfer is marked as stalled, which happens to the commands of the security protocol.
\<close>

definition is_usbc :: "usb_buffer \<Rightarrow> bool" where
  "is_usbc ub \<longleftrightarrow> ub_len ub = CBW_SIZE \<and> take 4 (ub_data ub) = [0x55, 0x53, 0x42, 0x43]"

text \<open>
  The data of a command, for the unit \<open>k\<close> that was current before any wrapper in front of the data was parsed; the blocks are
  coded for the unit that is current now.
\<close>

definition outbuf_data :: "nat \<Rightarrow> usb_buffer list \<Rightarrow> usb_buffer list \<Rightarrow> bytes \<Rightarrow> usbmsc_device \<times> win_state \<Rightarrow>
    (hook_result \<times> usb_buffer list \<times> usbmsc_device \<times> win_state) option" where
  "outbuf_data k gub hub garbage = (\<lambda>(dev, w). do {
     u \<leftarrow> units dev k;
     if command u \<in> {0x2a, 0xaa} then do {
       (n, dev, hub, w) \<leftarrow> usbmsc_code_buffers dev hub gub USB_PID_OUT (unit_length u) True garbage w;
       u \<leftarrow> units dev k;
       Some (USB_HOOK_PASS, hub, set_unit k (account_blocks n u) dev, w) }
     else if command u \<in> {0xb6, 0x55, 0x5d, 0x04, 0x1b, 0xff} then do {
       hub \<leftarrow> usbmsc_copy_buffer (unit_length u) hub gub;
       Some (USB_HOOK_PASS, hub, set_unit k (u\<lparr>unit_length := 0\<rparr>) dev, w) }
     else Some (USB_HOOK_DISCARD, hub, set_unit k (u\<lparr>unit_length := 0\<rparr>) dev, w) })"

definition usbmsc_shadow_outbuf :: "analysis \<Rightarrow> bytes \<Rightarrow> usb_buffer list \<Rightarrow> usbmsc_device \<times> win_state \<Rightarrow>
    (hook_result \<times> bool \<times> usb_buffer list \<times> usbmsc_device \<times> win_state) option" where
  "usbmsc_shadow_outbuf analyse garbage gub = (\<lambda>(dev, w). do {
     hub \<leftarrow> (if gub \<noteq> [] then ehci_shadow_buffer garbage False gub else Some []);
     let k = cur dev;
     if gub \<noteq> [] \<and> is_usbc (hd gub) then do {
       (dev, c, w) \<leftarrow> usbmsc_cbw_parser analyse dev (cbw_load (ub_data (hd gub))) w;
       let wrapper = (hd hub)\<lparr>ub_data := cbw_bytes c\<rparr>;
       u \<leftarrow> units dev k;
       if command u \<in> {0xA2, 0xB5} then Some (USB_HOOK_DISCARD, True, wrapper # tl hub, dev, w)
       else if tl gub = [] then Some (USB_HOOK_PASS, False, wrapper # tl hub, dev, w)
       else do {
         (r, hub, dev, w) \<leftarrow> outbuf_data k (tl gub) (tl hub) garbage (dev, w);
         Some (r, False, wrapper # hub, dev, w) } }
     else if gub = [] then Some (USB_HOOK_PASS, False, hub, dev, w)
     else do {
       (r, hub, dev, w) \<leftarrow> outbuf_data k gub hub garbage (dev, w);
       Some (r, False, hub, dev, w) } })"

text \<open>A reply: the shadow buffers as the device filled them, back to the guest's.\<close>

definition is_usbs :: "usb_buffer \<Rightarrow> bool" where
  "is_usbs ub \<longleftrightarrow> take 4 (ub_data ub) = [0x55, 0x53, 0x42, 0x53]"

text \<open>The status of the command, or the code of a discarded transfer when the tag is not the command's; 0 means success.\<close>

definition usbmsc_csw_parser :: "usbmsc_device \<Rightarrow> u8 list \<Rightarrow> u32" where
  "usbmsc_csw_parser dev csw =
     (if msc_tag dev \<noteq> le_load 4 (\<lambda>k. c_string csw (4 + k)) then 0x00020000 else ucast (c_string csw 12))"

text \<open>Commands whose reply is copied as it is.\<close>

definition copied_replies :: "u8 set" where
  "copied_replies = {0x46, 0x03, 0x12, 0x1a, 0x23, 0x3c, 0x4a, 0x42, 0x43, 0x51, 0x52, 0x5a, 0x5c, 0xa4, 0xac, 0xad, 0xb9, 0xbe,
     0x06, 0xd4, 0xd5, 0xd8, 0xd9, 0xff}"

definition copyback_data :: "nat \<Rightarrow> usb_buffer list \<Rightarrow> usb_buffer list \<Rightarrow> bytes \<Rightarrow> usbmsc_device \<times> win_state \<Rightarrow>
    (usb_buffer list \<times> usbmsc_device \<times> win_state) option" where
  "copyback_data actlen gub hub garbage = (\<lambda>(dev, w). do {
     u \<leftarrow> units dev (cur dev);
     let p = c_string (ub_data (hd hub));
     let u = (if command u = 0x46 \<and> bswap16 (le_load 2 (\<lambda>k. p (6 + k))) \<noteq> USBMSC_PROF_NOPROF
              then u\<lparr>profile := bswap16 (le_load 2 (\<lambda>k. p (6 + k)))\<rparr> else u);
     if command u \<in> copied_replies then do {
       gub \<leftarrow> usbmsc_copy_buffer (unit_length u) gub hub;
       Some (gub, set_unit (cur dev) (u\<lparr>unit_length := 0\<rparr>) dev, w) }
     else if command u = 0x25 then do {
       let u = u\<lparr>lba_max := bswap32 (le_load 4 p), storage_sector_size := bswap32 (le_load 4 (\<lambda>k. p (4 + k)))\<rparr>;
       gub \<leftarrow> usbmsc_copy_buffer (unit_length u) gub hub;
       Some (gub, set_unit (cur dev) (u\<lparr>unit_length := 0\<rparr>) dev, w) }
     else if command u \<in> {0x28, 0xa8} then do {
       (n, dev, gub, w) \<leftarrow> usbmsc_code_buffers dev gub hub USB_PID_IN (of_nat actlen) False garbage w;
       u \<leftarrow> units dev (cur dev);
       Some (gub, set_unit (cur dev) (account_blocks n u) dev, w) }
     else Some (gub, set_unit (cur dev) (u\<lparr>unit_length := 0\<rparr>) dev, w) })"

definition usbmsc_copyback_shadow :: "bool \<Rightarrow> nat \<Rightarrow> bytes \<Rightarrow> usb_buffer list \<Rightarrow> usb_buffer list \<Rightarrow> usbmsc_device \<times> win_state \<Rightarrow>
    (usb_buffer list \<times> usbmsc_device \<times> win_state) option" where
  "usbmsc_copyback_shadow errors actlen garbage gub hub = (\<lambda>(dev, w).
     if hub = [] then Some (gub, dev, w)
     else if errors then do { ASSERT (actlen = 0); Some (gub, dev, w) }
     else if is_usbs (hd hub) \<and> actlen = CSW_SIZE then do {
       u \<leftarrow> units dev (cur dev);
       let ret = usbmsc_csw_parser dev (ub_data (hd hub));
       let u = (if ret \<noteq> 0 then
                  if command u = 0x25 then u\<lparr>lba_max := 0, storage_sector_size := 0\<rparr>
                  else if command u = 0x46 then u\<lparr>profile := USBMSC_PROF_NOPROF\<rparr>
                  else u
                else u);
       let u = u\<lparr>command := 0, unit_lba := 0, n_blocks := 0\<rparr>;
       gub \<leftarrow> usbmsc_copy_buffer (of_nat (ub_len (hd hub))) gub hub;
       ASSERT (tl gub = [] \<and> tl hub = []);
       Some (gub, set_unit (cur dev) u dev, w) }
     else copyback_data actlen gub hub garbage (dev, w))"

text \<open>The reply to GET MAX LUN: units are created up to the number the device returned, into an array of sixteen.\<close>

definition usbmsc_getmaxlun :: "usb_buffer list \<Rightarrow> usbmsc_device \<Rightarrow> usbmsc_device option" where
  "usbmsc_getmaxlun gub dev = do {
     let dev = fold (\<lambda>ub dev. if ub_pid ub = USB_PID_IN then dev\<lparr>lun_max := c_string (ub_data ub) 0\<rparr> else dev) gub dev;
     ASSERT (unat (lun_max dev) \<le> USBMSC_LUN_MAX);
     Some (dev\<lparr>units := (\<lambda>i. if 1 \<le> i \<and> i \<le> unat (lun_max dev) \<and> units dev i = None then Some new_unit else units dev i)\<rparr>) }"

section \<open>Attachment to a device\<close>

definition USB_ENDPOINT_TYPE_MASK :: u8 where "USB_ENDPOINT_TYPE_MASK = 0x03"
definition USB_ENDPOINT_TYPE_BULK :: u8 where "USB_ENDPOINT_TYPE_BULK = 0x02"
definition USB_ENDPOINT_IN :: u8 where "USB_ENDPOINT_IN = 0x80"

text \<open>An endpoint is its address and attributes; the first entry of the array of an interface is the control endpoint.\<close>

record usb_interface =
  bInterfaceClass :: u8
  bInterfaceSubClass :: u8
  bInterfaceProtocol :: u8
  bNumEndpoints :: nat
  if_endpoint :: "nat \<Rightarrow> u8 \<times> u8"

datatype usb_hook = GetMaxLun_Reply | In_Request u8 | In_Reply u8 | Out_Request u8

text \<open>The alternate settings are searched for one that the driver can handle; of none, the result of the hook.\<close>

fun find_interface :: "bool \<Rightarrow> usb_interface list \<Rightarrow> hook_result \<Rightarrow> hook_result + usb_interface" where
  "find_interface handled [] ret = Inl ret"
| "find_interface handled (iface # ifs) ret =
     (if bInterfaceClass iface \<noteq> 0x08 then find_interface handled ifs ret
      else if bInterfaceProtocol iface \<noteq> 0x50 \<or> bInterfaceSubClass iface \<notin> {0x06, 0x02, 0x05}
      then find_interface handled ifs USB_HOOK_DISCARD
      else if handled then find_interface handled ifs ret
      else Inr iface)"

definition bulk_hooks :: "u8 \<times> u8 \<Rightarrow> usb_hook list" where
  "bulk_hooks = (\<lambda>(addr, attr).
     if attr AND USB_ENDPOINT_TYPE_MASK \<noteq> USB_ENDPOINT_TYPE_BULK then []
     else if addr AND USB_ENDPOINT_IN \<noteq> 0 then [In_Request addr, In_Reply addr]
     else [Out_Request addr])"

definition usbmsc_init_bulkmon :: "bool \<Rightarrow> usb_interface list \<Rightarrow> hook_result \<times> (usbmsc_device \<times> usb_hook list) option" where
  "usbmsc_init_bulkmon handled altsettings =
     (case find_interface handled altsettings USB_HOOK_PASS of
        Inl ret \<Rightarrow> (ret, None)
      | Inr iface \<Rightarrow>
          (USB_HOOK_PASS, Some (new_device,
             GetMaxLun_Reply # concat (map (\<lambda>i. bulk_hooks (if_endpoint iface i)) [1..<Suc (bNumEndpoints iface)]))))"

definition supported :: "usb_interface \<Rightarrow> bool" where
  "supported iface \<longleftrightarrow> bInterfaceClass iface = 0x08 \<and> bInterfaceProtocol iface = 0x50 \<and> bInterfaceSubClass iface \<in> {0x06, 0x02, 0x05}"

lemma find_interface_found:
  "(\<exists>iface. find_interface handled ifs ret = Inr iface) \<longleftrightarrow> \<not> handled \<and> (\<exists>iface \<in> set ifs. supported iface)"
  by (induction ifs arbitrary: ret) (auto simp: supported_def)

lemma find_interface_in: "find_interface handled ifs ret = Inr iface \<Longrightarrow> iface \<in> set ifs \<and> supported iface"
  by (induction ifs arbitrary: ret) (auto simp: supported_def split: if_splits)

lemma find_interface_Cons:
  "find_interface handled (iface # ifs) ret =
    (if bInterfaceClass iface = 0x08 \<and> \<not> supported iface then find_interface handled ifs USB_HOOK_DISCARD
     else if supported iface \<and> \<not> handled then Inr iface
     else find_interface handled ifs ret)"
  by (auto simp: supported_def)

lemma find_interface_ret:
  "find_interface handled ifs ret = Inl r \<Longrightarrow>
    r = (if \<exists>iface \<in> set ifs. bInterfaceClass iface = 0x08 \<and> \<not> supported iface then USB_HOOK_DISCARD else ret)"
proof (induction ifs arbitrary: ret)
  case (Cons iface ifs)
  show ?case
  proof (cases "bInterfaceClass iface = 0x08 \<and> \<not> supported iface")
    case True
    then show ?thesis using Cons.IH [of USB_HOOK_DISCARD] Cons.prems unfolding find_interface_Cons by simp
  next
    case False
    then have "find_interface handled ifs ret = Inl r"
      using Cons.prems unfolding find_interface_Cons by (simp split: if_splits)
    from Cons.IH [OF this] False show ?thesis by auto
  qed
qed simp

text \<open>The driver attaches exactly to a device that it does not handle yet and that has a bulk-only mass storage interface with
  a known command set; then every bulk endpoint of that interface is hooked in both directions, so no data passes it unseen. A
  device it does not attach to is denied to the guest exactly when one of its interfaces is mass storage of another kind.\<close>

theorem bulk_endpoints_hooked:
  "(case usbmsc_init_bulkmon handled ifs of
      (r, None) \<Rightarrow> (handled \<or> (\<forall>iface \<in> set ifs. \<not> supported iface)) \<and>
        (r = USB_HOOK_DISCARD \<longleftrightarrow> (\<exists>iface \<in> set ifs. bInterfaceClass iface = 0x08 \<and> \<not> supported iface))
    | (r, Some (dev, hooks)) \<Rightarrow> r = USB_HOOK_PASS \<and> dev = new_device \<and> (\<exists>iface \<in> set ifs. supported iface \<and>
        (\<forall>i addr attr. 1 \<le> i \<and> i \<le> bNumEndpoints iface \<and> if_endpoint iface i = (addr, attr) \<and> attr AND 3 = 2 \<longrightarrow>
           (if addr AND 0x80 \<noteq> 0 then {In_Request addr, In_Reply addr} else {Out_Request addr}) \<subseteq> set hooks)))"
proof (cases "find_interface handled ifs USB_HOOK_PASS")
  case (Inl r)
  then have "handled \<or> (\<forall>iface \<in> set ifs. \<not> supported iface)"
    using find_interface_found [of handled ifs USB_HOOK_PASS] by auto
  then show ?thesis using find_interface_ret [OF Inl] by (auto simp: usbmsc_init_bulkmon_def Inl)
next
  case (Inr iface)
  define hooks where "hooks = concat (map (\<lambda>i. bulk_hooks (if_endpoint iface i)) [1..<Suc (bNumEndpoints iface)])"
  have "(if addr AND 0x80 \<noteq> 0 then {In_Request addr, In_Reply addr} else {Out_Request addr}) \<subseteq> set hooks"
    if "1 \<le> i" "i \<le> bNumEndpoints iface" "if_endpoint iface i = (addr, attr)" "attr AND 3 = 2" for i addr attr
  proof -
    have "i \<in> set [1..<Suc (bNumEndpoints iface)]" using that(1,2) by (simp del: upt_Suc)
    then have "set (bulk_hooks (if_endpoint iface i)) \<subseteq> set hooks" by (simp only: hooks_def set_concat set_map) blast
    moreover have "set (bulk_hooks (addr, attr)) = (if addr AND 0x80 \<noteq> 0 then {In_Request addr, In_Reply addr} else {Out_Request addr})"
      using that(4) by (simp add: bulk_hooks_def USB_ENDPOINT_IN_def USB_ENDPOINT_TYPE_MASK_def USB_ENDPOINT_TYPE_BULK_def)
    ultimately show ?thesis using that(3) by simp
  qed
  then show ?thesis using find_interface_in [OF Inr] unfolding usbmsc_init_bulkmon_def Inr sum.case prod.case option.case hooks_def [symmetric]
    by (intro conjI refl bexI [of _ iface] allI impI) (auto simp only: set_simps)
qed

theorem bulk_endpoints_hooked_witness:
  "\<exists>iface hooks. usbmsc_init_bulkmon False [\<lparr>bInterfaceClass = 8, bInterfaceSubClass = 6, bInterfaceProtocol = 0x50, bNumEndpoints = 2,
      if_endpoint = (\<lambda>i. if i = 1 then (0x81, 2) else (2, 2))\<rparr>] = (USB_HOOK_PASS, Some (new_device, hooks)) \<and> iface = (0x81 :: u8) \<and> In_Request iface \<in> set hooks"
proof -
  define f :: usb_interface where "f = \<lparr>bInterfaceClass = 8, bInterfaceSubClass = 6, bInterfaceProtocol = 0x50, bNumEndpoints = 2,
      if_endpoint = (\<lambda>i. if i = 1 then (0x81, 2) else (2, 2))\<rparr>"
  have "\<exists>hooks. usbmsc_init_bulkmon False [f] = (USB_HOOK_PASS, Some (new_device, hooks))"
    by (simp add: usbmsc_init_bulkmon_def f_def)
  then obtain hooks where h: "usbmsc_init_bulkmon False [f] = (USB_HOOK_PASS, Some (new_device, hooks))" by blast
  from bulk_endpoints_hooked [of False "[f]"] have "In_Request 0x81 \<in> set hooks"
    unfolding h by (auto simp: f_def dest: spec [of _ 1])
  with h show ?thesis by (auto simp: f_def)
qed

section \<open>Transfer descriptors\<close>

abbreviation pages_len :: "usb_page list \<Rightarrow> nat" where "pages_len ps \<equiv> sum_list (map pg_len ps)"

lemma following_pages_len: "pages_len (following_pages q upid is n) = min n (PAGESIZE * length is)"
  by (induction "is" arbitrary: n) (auto simp: register_buffer_page_def Let_def)

lemma following_pages_bound: "p \<in> set (following_pages q upid is n) \<Longrightarrow> pg_addr p AND 0xFFF = 0 \<and> pg_len p \<le> PAGESIZE"
proof (induction "is" arbitrary: n)
  case (Cons i "is")
  have "(x AND 0xfffff000) AND 0xFFF = 0" for x :: u32 by (simp add: and.assoc)
  then show ?case using Cons by (auto simp: register_buffer_page_def Let_def split: if_splits)
qed simp

lemma page_offset_bound: "page_offset q < PAGESIZE"
proof -
  have "(0xFFF :: u32) = mask 12" by (simp add: mask_eq_exp_minus_1)
  then have "unat (qtd_buffer q 0 AND 0xFFF) < 2 ^ 12" by (metis and.commute take_bit_eq_mask take_bit_nat_less_exp unsigned_take_bit_eq)
  then show ?thesis by (simp add: page_offset_def PAGESIZE_def)
qed

text \<open>The buffers made from a transfer descriptor stay within one page of memory each, at most five of them, and together
  are as long as the descriptor says, up to what its five pointers can reach.\<close>

theorem qtd_pages_cover:
  assumes "is_active_qtd q"
  shows "pages_len (qtd_pages q) = min (ehci_qtd_len q) (5 * PAGESIZE - page_offset q) \<and> length (qtd_pages q) \<le> 5 \<and>
    list_all (\<lambda>p. unat (pg_addr p AND 0xFFF) + pg_len p \<le> PAGESIZE) (qtd_pages q)"
proof -
  have len: "length (following_pages q upid is n) \<le> length is" for upid "is" n
    by (induction "is" arbitrary: n) (auto simp: register_buffer_page_def Let_def)
  have "length (qtd_pages q) \<le> 5"
    using len [of _ "[1, 2, 3, 4]"] by (simp add: qtd_pages_def register_buffer_page_def Let_def)
  moreover have "pages_len (qtd_pages q) = min (ehci_qtd_len q) (5 * PAGESIZE - page_offset q)"
  proof -
    define k where "k = min (PAGESIZE - page_offset q) (ehci_qtd_len q)"
    have "pages_len (qtd_pages q) = (if ehci_qtd_len q = 0 then 0 else k + min (ehci_qtd_len q - k) (PAGESIZE + (PAGESIZE + (PAGESIZE + PAGESIZE))))"
      using assms following_pages_len [of q _ "[1, 2, 3, 4]"]
      by (simp add: qtd_pages_def register_buffer_page_def [of "qtd_buffer q 0"] Let_def k_def del: following_pages.simps)
    then show ?thesis using page_offset_bound [of q] by (simp add: k_def min_def PAGESIZE_def) arith
  qed
  moreover have "unat (pg_addr p AND 0xFFF) + pg_len p \<le> PAGESIZE" if "p \<in> set (qtd_pages q)" for p
  proof -
    have "pg_addr p = qtd_buffer q 0 \<and> pg_len p \<le> PAGESIZE - page_offset q \<or> (\<exists>upid n. p \<in> set (following_pages q upid [1, 2, 3, 4] n))"
      using that by (auto simp: qtd_pages_def register_buffer_page_def [of "qtd_buffer q 0"] Let_def simp del: following_pages.simps split: if_splits)
    then show ?thesis
    proof (elim disjE exE conjE)
      assume "pg_addr p = qtd_buffer q 0" "pg_len p \<le> PAGESIZE - page_offset q"
      then show ?thesis using page_offset_bound [of q] by (simp add: page_offset_def)
    next
      fix upid n assume "p \<in> set (following_pages q upid [1, 2, 3, 4] n)"
      from following_pages_bound [OF this] show ?thesis by simp
    qed
  qed
  ultimately show ?thesis by (simp add: list_all_iff)
qed

lemma fit_following:
  assumes "0 < n" "distinct is" "\<forall>i \<in> set is. qtd_buffer q' i = qtd_buffer q i" "length hs1 = length (following_pages q upid is n)"
  shows "map_option snd (fit_pointers is n (following_pages q upid is n @ gs) (hs1 @ hs) q') =
    (if \<forall>i \<in> set (take (length hs1) is). qtd_buffer q i AND 0xfffff000 = qtd_buffer q i then Some (gs, hs) else None)"
  using assms
proof (induction "is" arbitrary: n q' hs1)
  case (Cons i "is")
  define m where "m = n - min PAGESIZE n"
  have f: "following_pages q upid (i # is) n =
    \<lparr>pg_addr = qtd_buffer q i AND 0xfffff000, pg_len = min PAGESIZE n, pg_pid = upid\<rparr> # following_pages q upid is m"
    using Cons.prems(1) by (simp add: register_buffer_page_def Let_def m_def)
  obtain h hs2 where hs1: "hs1 = h # hs2" "length hs2 = length (following_pages q upid is m)"
    using Cons.prems(4) f by (cases hs1) auto
  show ?case
  proof (cases "qtd_buffer q i AND 0xfffff000 = qtd_buffer q i")
    case True
    define q2 where "q2 = q'\<lparr>qtd_buffer := (qtd_buffer q')(i := h)\<rparr>"
    show ?thesis
    proof (cases "m = 0")
      case m: True
      then have "following_pages q upid is m = []" by (cases "is") simp_all
      then show ?thesis using True Cons.prems(3) hs1 m unfolding f by (simp add: m_def [symmetric])
    next
      case False
      have "\<forall>i \<in> set is. qtd_buffer q2 i = qtd_buffer q i" using Cons.prems(2,3) by (auto simp: q2_def)
      from Cons.IH [OF _ _ this hs1(2)] False Cons.prems(2)
      show ?thesis using True Cons.prems(3) hs1(1) False unfolding f by (simp add: m_def [symmetric] q2_def Let_def)
    qed
  next
    case False
    then show ?thesis using Cons.prems(3) hs1(1) unfolding f by simp
  qed
qed (simp add: following_pages.simps)

text \<open>Of an active descriptor, the pointers in use after the first have their low bits clear.\<close>

definition qtd_aligned :: "ehci_qtd \<Rightarrow> bool" where
  "qtd_aligned q \<longleftrightarrow> (\<forall>i \<in> {1..<length (qtd_pages q)}. qtd_buffer q i AND 0xfffff000 = qtd_buffer q i)"

lemma fit_qtd:
  assumes "is_active_qtd q" "ehci_qtd_len q \<noteq> 0" "length hs1 = length (qtd_pages q)"
  shows "map_option snd (fit_pointers [0, 1, 2, 3, 4] (ehci_qtd_len q) (qtd_pages q @ gs) (hs1 @ hs) q) =
    (if qtd_aligned q then Some (gs, hs) else None)"
proof -
  define upid where "upid = pid_ehci2usb (ehci_qtd_pid q)"
  define k where "k = min (PAGESIZE - page_offset q) (ehci_qtd_len q)"
  define n where "n = ehci_qtd_len q - k"
  have p: "qtd_pages q = \<lparr>pg_addr = qtd_buffer q 0, pg_len = k, pg_pid = upid\<rparr> # following_pages q upid [1, 2, 3, 4] n"
    using assms(1,2) by (simp add: qtd_pages_def register_buffer_page_def Let_def k_def n_def upid_def)
  obtain h hs2 where hs1: "hs1 = h # hs2" "length hs2 = length (following_pages q upid [1, 2, 3, 4] n)"
    using assms(3) p by (cases hs1) auto
  define q2 where "q2 = q\<lparr>qtd_buffer := (qtd_buffer q)(0 := h)\<rparr>"
  show ?thesis
  proof (cases "n = 0")
    case True
    then show ?thesis unfolding p hs1(1) using hs1(2) by (simp add: n_def [symmetric] qtd_aligned_def p)
  next
    case False
    have "length hs2 \<le> 4" unfolding hs1(2) by (simp add: register_buffer_page_def Let_def)
    moreover have "[1, 2, 3, 4] = [1..<5 :: nat]" by (simp add: upt_rec)
    ultimately have "set (take (length hs2) [1, 2, 3, 4]) = {1..<Suc (length hs2)}" by (simp add: take_upt del: upt_Suc)
    moreover have "\<forall>i \<in> set [1, 2, 3, 4]. qtd_buffer q2 i = qtd_buffer q i" by (simp add: q2_def)
    from fit_following [OF _ _ this hs1(2), of gs hs] False
    have "map_option snd (fit_pointers [1, 2, 3, 4] n (following_pages q upid [1, 2, 3, 4] n @ gs) (hs2 @ hs) q2) =
      (if \<forall>i \<in> set (take (length hs2) [1, 2, 3, 4]). qtd_buffer q i AND 0xfffff000 = qtd_buffer q i then Some (gs, hs) else None)" by simp
    moreover have "length (qtd_pages q) = Suc (length hs2)" using hs1(2) p by simp
    ultimately show ?thesis
      unfolding p hs1(1) append_Cons fit_pointers.simps(2) qtd_aligned_def using False
      by (simp add: n_def [symmetric] Let_def q2_def)
  qed
qed

text \<open>The shadow buffers are fitted into the copies of the transfer descriptors exactly when the guest left the low bits of
  every pointer after the first clear; a guest that sets one of these reserved bits makes an assertion of the hypervisor fail.\<close>

theorem shadow_buffers_fit:
  assumes "length hub = length (make_buffer_list qs)"
  shows "fit_qtds qs (make_buffer_list qs) hub \<noteq> None \<longleftrightarrow> (\<forall>q \<in> set qs. qtd_aligned q)"
  using assms
proof (induction qs arbitrary: hub)
  case (Cons q qs)
  show ?case
  proof (cases "\<not> is_active_qtd q \<or> ehci_qtd_len q = 0")
    case True
    then have "qtd_pages q = []" by (simp add: qtd_pages_def)
    then show ?thesis using Cons True by (auto simp: make_buffer_list_def qtd_aligned_def)
  next
    case False
    define hs1 where "hs1 = take (length (qtd_pages q)) hub"
    define hs where "hs = drop (length (qtd_pages q)) hub"
    have hub: "hub = hs1 @ hs" "length hs1 = length (qtd_pages q)" "length hs = length (make_buffer_list qs)"
      using Cons.prems by (simp_all add: hs1_def hs_def make_buffer_list_def)
    have m: "make_buffer_list (q # qs) = qtd_pages q @ make_buffer_list qs" by (simp add: make_buffer_list_def)
    have ih: "fit_qtds qs (make_buffer_list qs) hs \<noteq> None \<longleftrightarrow> (\<forall>q \<in> set qs. qtd_aligned q)" by (rule Cons.IH [OF hub(3)])
    have "map_option snd (fit_pointers [0, 1, 2, 3, 4] (ehci_qtd_len q) (make_buffer_list (q # qs)) hub q) =
      (if qtd_aligned q then Some (make_buffer_list qs, hs) else None)"
      using fit_qtd [OF _ _ hub(2), of "make_buffer_list qs" hs] False hub(1) m by simp
    then show ?thesis
      using False ih
      by (cases "fit_pointers [0, 1, 2, 3, 4] (ehci_qtd_len q) (make_buffer_list (q # qs)) hub q") (auto split: if_splits)
  qed
qed (simp add: make_buffer_list_def)

theorem qtd_pages_cover_witness:
  "length (qtd_pages \<lparr>qtd_token = 0x20000080, qtd_buffer = (\<lambda>i. 0x1200)\<rparr>) \<le> 5"
  using qtd_pages_cover [of "\<lparr>qtd_token = 0x20000080, qtd_buffer = (\<lambda>i. 0x1200)\<rparr>"] by (simp add: is_active_qtd_def)

theorem shadow_buffers_fit_witness:
  "fit_qtds [\<lparr>qtd_token = 0x12000080, qtd_buffer = (\<lambda>i. 0x1001)\<rparr>] (make_buffer_list [\<lparr>qtd_token = 0x12000080, qtd_buffer = (\<lambda>i. 0x1001)\<rparr>]) [0, 0] = None"
proof -
  define q :: ehci_qtd where "q = \<lparr>qtd_token = 0x12000080, qtd_buffer = (\<lambda>i. 0x1001)\<rparr>"
  have len: "length (qtd_pages q) = 2"
    by (simp add: q_def qtd_pages_def register_buffer_page_def Let_def is_active_qtd_def ehci_qtd_len_def page_offset_def PAGESIZE_def)
  have "1 \<in> {1..<2 :: nat}" "qtd_buffer q 1 AND 0xfffff000 \<noteq> qtd_buffer q 1" by (simp_all add: q_def)
  then have "\<not> qtd_aligned q" unfolding qtd_aligned_def len by blast
  then show ?thesis using shadow_buffers_fit [of "[0, 0]" "[q]"] len by (simp add: make_buffer_list_def q_def)
qed

section \<open>Data passes unchanged\<close>

definition copied :: "usb_buffer list \<Rightarrow> usb_buffer list \<Rightarrow> usb_buffer list" where
  "copied dest src = map2 (\<lambda>d x. d\<lparr>ub_data := ub_data x\<rparr>) dest src"

abbreviation total_len :: "usb_buffer list \<Rightarrow> nat" where "total_len ubs \<equiv> sum_list (map (\<lambda>ub. ub_len ub) ubs)"

text \<open>No bitmap is loaded or compared and no file record parsed; the data hook only copies and counts bytes.\<close>

definition quiet :: "win_state \<Rightarrow> bool" where
  "quiet w \<longleftrightarrow> \<not> bitmap_load_trigger w \<and> \<not> bitmap_check_trigger w \<and> \<not> bitmap_compare_trigger w \<and> \<not> ParseMFT_trigger w"

definition counted :: "win_state \<Rightarrow> win_state \<Rightarrow> bool" where
  "counted w w' \<longleftrightarrow> (\<exists>f. w' = w\<lparr>byte_count := f\<rparr>)"

lemma counted_quiet: "counted w w' \<Longrightarrow> quiet w' = quiet w"
  by (auto simp: counted_def quiet_def)

lemma counted_refl [simp]: "counted w w"
  unfolding counted_def by (rule exI [of _ "byte_count w"]) simp

lemma counted_trans: "counted w w' \<Longrightarrow> counted w' w'' \<Longrightarrow> counted w w''"
  by (auto simp: counted_def)

lemma code_buffers_done_quiet: "quiet w \<Longrightarrow> code_buffers_done w = w"
  by (simp add: quiet_def code_buffers_done_def Let_def)

lemma hook_copies:
  assumes "quiet w" "0 < count"
  shows "\<exists>w'. win_ransomtag_storage_handle_sectors count sz False src dst rw w =
    Some (memcpy_bytes (unat (count * sz)) src dst, w') \<and> counted w w'"
  using assms by (cases rw) (auto simp: win_ransomtag_storage_handle_sectors_def quiet_def counted_def Let_def intro: exI [of _ "byte_count w"])

lemma c_string_list: "map (c_string xs) [0..<length xs] = xs"
  by (rule nth_equalityI) (simp_all add: c_string_def)

lemma hook_copies_list:
  assumes "quiet w" "bl dvd length s" "0 < length s" "length s < 2 ^ 32" "length d = length s"
  shows "\<exists>d' w'. win_ransomtag_storage_handle_sectors (of_nat (length s div bl)) (of_nat bl) False (c_string s) (c_string d) rw w =
      Some (d', w') \<and> map d' [0..<length s] = s \<and> counted w w' \<and> unat (of_nat (length s div bl) * of_nat bl :: u32) = length s"
proof -
  have bl: "0 < bl" using assms(2,3) by (metis dvd_0_left_iff gr0I less_numeral_extra(3))
  have prod: "length s div bl * bl = length s" using assms(2) by simp
  have "(of_nat (length s div bl) * of_nat bl :: u32) = of_nat (length s)" by (metis of_nat_mult prod)
  then have u: "unat (of_nat (length s div bl) * of_nat bl :: u32) = length s"
    using assms(4) by (simp add: unat_of_nat take_bit_nat_eq_self)
  have "(of_nat (length s div bl) :: u32) \<noteq> 0"
  proof
    assume "(of_nat (length s div bl) :: u32) = 0"
    with u have "length s = 0" by simp
    then show False using assms(3) by simp
  qed
  then have "0 < (of_nat (length s div bl) :: u32)" by (simp add: word_neq_0_conv)
  from hook_copies [OF assms(1) this, of "of_nat bl" "c_string s" "c_string d" rw] obtain w' where
    w': "win_ransomtag_storage_handle_sectors (of_nat (length s div bl)) (of_nat bl) False (c_string s) (c_string d) rw w =
      Some (memcpy_bytes (length s) (c_string s) (c_string d), w')" "counted w w'"
    unfolding u by blast
  have "map (memcpy_bytes (length s) (c_string s) (c_string d)) [0..<length s] = map (c_string s) [0..<length s]"
    by (simp add: memcpy_bytes_def)
  with w' u c_string_list [of s] show ?thesis by auto
qed

lemma distribute_parts:
  assumes "map (\<lambda>ub. ub_len ub) ds = map length parts" "[] \<notin> set parts"
  shows "distribute (concat parts) (ds @ rest) = Some (map2 (\<lambda>d p. d\<lparr>ub_data := p\<rparr>) ds parts @ rest, length ds)"
  using assms
proof (induction ds parts rule: list_induct2')
  case (4 d ds p parts)
  then have len: "ub_len d = length p" "p \<noteq> []" by auto
  then obtain b bs where cat: "concat (p # parts) = b # bs" by (cases p) auto
  have k: "min (ub_len d) (length (b # bs)) = length p" "length p \<noteq> 0"
    using len arg_cong [OF cat, of length] by simp_all
  have parts: "take (length p) (b # bs) = p" "drop (length p) (b # bs) = concat parts" "drop (length p) (ub_data d) = []"
    using len by (simp_all add: cat [symmetric])
  have ih: "distribute (concat parts) (ds @ rest) = Some (map2 (\<lambda>d p. d\<lparr>ub_data := p\<rparr>) ds parts @ rest, length ds)"
    using 4 by simp
  show ?case
    unfolding cat append_Cons distribute.simps(3) k(1) Let_def if_not_P [OF k(2)] parts ih by simp
qed auto

text \<open>The group of buffers that ends at a block boundary.\<close>

lemma concat_buffers_group:
  assumes "0 < bl" "(len + total_len src) mod bl = 0" "src \<noteq> []"
  shows "\<exists>k. 0 < k \<and> k \<le> length src \<and> concat_buffers bl src len n = (len + total_len (take k src), n + k) \<and>
    (len + total_len (take k src)) mod bl = 0"
  using assms(2,3)
proof (induction src arbitrary: len n)
  case (Cons x xs)
  show ?case
  proof (cases "(len + ub_len x) mod bl = 0")
    case True
    then show ?thesis by (intro exI [of _ 1]) simp
  next
    case False
    with Cons.prems have xs: "xs \<noteq> []" by auto
    have "(len + ub_len x + total_len xs) mod bl = 0" using Cons.prems by (simp add: add.assoc)
    from Cons.IH [OF this xs, of "n + 1"] obtain k where k: "0 < k" "k \<le> length xs"
      "concat_buffers bl xs (len + ub_len x) (n + 1) = (len + ub_len x + total_len (take k xs), n + 1 + k)"
      "(len + ub_len x + total_len (take k xs)) mod bl = 0" by (elim exE conjE)
    have step: "concat_buffers bl (x # xs) len n = concat_buffers bl xs (len + ub_len x) (n + 1)"
      by (simp only: concat_buffers.simps(2) False if_True not_False_eq_True)
    show ?thesis
    proof (intro exI [of _ "Suc k"] conjI)
      show "0 < Suc k" by (rule zero_less_Suc)
      show "Suc k \<le> length (x # xs)" using k(2) by simp
      show "concat_buffers bl (x # xs) len n = (len + total_len (take (Suc k) (x # xs)), n + Suc k)"
        unfolding step k(3) by simp
      show "(len + total_len (take (Suc k) (x # xs))) mod bl = 0"
        using k(4) by (simp add: add.assoc)
    qed
  qed
qed simp

text \<open>What the lists of a transfer look like: the shadow has the guest's shape, and every buffer is of the direction and not empty.\<close>

definition paired :: "u8 \<Rightarrow> usb_buffer list \<Rightarrow> usb_buffer list \<Rightarrow> bool" where
  "paired upid = list_all2 (\<lambda>d x. ub_len d = ub_len x \<and> ub_pid x = upid \<and> ub_data x \<noteq> [] \<and> ub_vadr d = (\<not> ub_vadr x))"

lemma paired_length: "paired upid dest src \<Longrightarrow> length dest = length src"
  by (simp add: paired_def list_all2_lengthD)

lemma paired_drop: "paired upid dest src \<Longrightarrow> paired upid (drop k dest) (drop k src)"
  by (simp add: paired_def list_all2_dropI)

lemma paired_take: "paired upid dest src \<Longrightarrow> paired upid (take k dest) (take k src)"
  by (simp add: paired_def list_all2_takeI)

lemma paired_lens: "paired upid dest src \<Longrightarrow> map (\<lambda>ub. ub_len ub) dest = map (\<lambda>ub. ub_len ub) src"
  unfolding paired_def by (induction rule: list_all2_induct) simp_all

lemma paired_nonempty: "paired upid dest src \<Longrightarrow> [] \<notin> set (map ub_data src)"
  unfolding paired_def by (induction rule: list_all2_induct) auto

lemma copied_drop: "copied (take k dest) (take k src) @ copied (drop k dest) (drop k src) = copied dest src"
  by (simp add: copied_def take_zip [symmetric] drop_zip [symmetric] map_append [symmetric] del: map_append)

lemma total_len_take_drop: "total_len (take k src) + total_len (drop k src) = total_len src"
  by (metis append_take_drop_id map_append sum_list_append)

lemma total_len_pos:
  assumes "paired upid dest src" "src \<noteq> []"
  shows "0 < total_len src"
  using assms by (cases src) (auto simp: paired_def list_all2_Cons2)

lemma length_concat_data: "length (concat (map ub_data ubs)) = total_len ubs"
  by (simp add: length_concat comp_def)

lemma copied_parts: "copied ds src = map2 (\<lambda>d p. d\<lparr>ub_data := p\<rparr>) ds (map ub_data src)"
  by (simp add: copied_def zip_map2 comp_def case_prod_beta)

lemma copied_Cons: "copied (d # ds) (x # xs) = d\<lparr>ub_data := ub_data x\<rparr> # copied ds xs"
  by (simp add: copied_def)

lemma length_copied: "length (copied ds xs) = min (length ds) (length xs)"
  by (simp add: copied_def)

text \<open>One round copies one aligned buffer, or a group of buffers that together are aligned.\<close>

lemma code_round_aligned:
  assumes "paired upid (d # ds) (x # xs)" "quiet w" "0 < bl" "ub_len x mod bl = 0" "ub_len x < 2 ^ 32"
  shows "\<exists>w'. code_round bl rw garbage (d # ds) (x # xs) w =
    Some (of_nat (ub_len x div bl), d\<lparr>ub_data := ub_data x\<rparr> # ds, 1, w') \<and> counted w w'"
proof -
  have len: "ub_len d = ub_len x" "ub_data x \<noteq> []" "ub_vadr d = (\<not> ub_vadr x)"
    using assms(1) by (simp_all add: paired_def)
  have "bl dvd ub_len x" using assms(4) by auto
  from hook_copies_list [OF assms(2) this, of "ub_data d" rw] len assms(5) obtain d' w' where
    h: "win_ransomtag_storage_handle_sectors (of_nat (ub_len x div bl)) (of_nat bl) False (c_string (ub_data x)) (c_string (ub_data d)) rw w =
      Some (d', w')" "map d' [0..<ub_len x] = ub_data x" "counted w w'"
    "unat (of_nat (ub_len x div bl) * of_nat bl :: u32) = ub_len x" by auto
  have p: "prepare_buffers bl (x # xs) (d # ds) garbage =
    Some (if ub_vadr x then FromShadow else FromGuest, ub_len x, ub_data x, ub_data d)"
    using len assms(4) by (simp add: prepare_buffers_def Let_def)
  show ?thesis
    unfolding code_round_def p bind.bind_lunit prod.case Let_def h(4) len(1) ASSERT_def if_True order_refl h(1,2)
    using h(3) by (auto simp: windup_buffers_def len(1))
qed

lemma code_round_group:
  assumes P: "paired upid dest src" and Q: "quiet w" and bl: "0 < bl" and ne: "src \<noteq> []" and hd: "ub_len (hd src) mod bl \<noteq> 0"
    and al: "total_len src mod bl = 0" and lt: "total_len src < 2 ^ 32"
  shows "\<exists>k w'. 0 < k \<and> k \<le> length src \<and> total_len (take k src) mod bl = 0 \<and>
    code_round bl rw garbage dest src w =
      Some (of_nat (total_len (take k src) div bl), copied (take k dest) (take k src) @ drop k dest, k, w') \<and> counted w w'"
proof -
  have "(0 + total_len src) mod bl = 0" using al by simp
  from concat_buffers_group [OF bl this ne, of 0] obtain k where
    k: "0 < k" "k \<le> length src" "concat_buffers bl src 0 0 = (total_len (take k src), k)" "total_len (take k src) mod bl = 0"
    by auto
  define s where "s = concat (map ub_data (take k src))"
  have s: "length s = total_len (take k src)" by (simp add: s_def length_concat_data)
  have dvd: "bl dvd length s" using k(4) s by auto
  from ne obtain x xs where src: "src = x # xs" by (cases src) auto
  from P src obtain d ds where dest: "dest = d # ds" by (cases dest) (auto simp: paired_def)
  have d: "ub_len d = ub_len x" using P by (simp add: paired_def src dest)
  obtain k' where k': "k = Suc k'" using k(1) by (cases k) auto
  have tk: "total_len (take k src) = ub_len x + total_len (take k' xs)" by (simp add: k' src)
  have t: "total_len (take k' xs) \<noteq> 0" using hd k(4) tk src by (metis add.right_neutral list.sel(1))
  have gt: "length s \<noteq> ub_len d" "0 < length s" using s tk d t by linarith+
  have lt': "length s < 2 ^ 32" using s lt total_len_take_drop [of k src] by linarith
  have p: "prepare_buffers bl src dest garbage = Some (Unaligned, length s, s, map garbage [0..<length s])"
    unfolding prepare_buffers_def if_P [OF hd] k(3) Let_def prod.case s [symmetric] s_def [symmetric]
    using gt(2) ne dest by (simp only: ASSERT_simps bind.bind_lunit) simp
  from hook_copies_list [OF Q dvd gt(2) lt', of "map garbage [0..<length s]" rw] obtain d' w' where
    h: "win_ransomtag_storage_handle_sectors (of_nat (length s div bl)) (of_nat bl) False (c_string s) (c_string (map garbage [0..<length s])) rw w =
      Some (d', w')" "map d' [0..<length s] = s" "counted w w'" "unat (of_nat (length s div bl) * of_nat bl :: u32) = length s"
    by auto
  have lens: "map (\<lambda>ub. ub_len ub) (take k dest) = map length (map ub_data (take k src))"
    using paired_lens [OF paired_take [OF P]] by (simp add: comp_def)
  have "distribute (concat (map ub_data (take k src))) (take k dest @ drop k dest) =
    Some (copied (take k dest) (take k src) @ drop k dest, length (take k dest))"
    unfolding copied_parts by (rule distribute_parts [OF lens paired_nonempty [OF paired_take [OF P]]])
  moreover have "length (take k dest) = k" using k(2) paired_length [OF P] by simp
  ultimately have dist: "distribute s dest = Some (copied (take k dest) (take k src) @ drop k dest, k)" by (simp add: s_def)
  have "code_round bl rw garbage dest src w =
      Some (of_nat (length s div bl), copied (take k dest) (take k src) @ drop k dest, k, w')"
    unfolding code_round_def p bind.bind_lunit prod.case Let_def h(4) length_map length_upt diff_zero ASSERT_def if_True order_refl h(1,2)
    using gt(1) dist by (simp add: windup_buffers_def dest)
  with k h(3) s show ?thesis by metis
qed

lemma code_round_copies:
  assumes "paired upid dest src" "quiet w" "0 < bl" "src \<noteq> []" "total_len src mod bl = 0" "total_len src < 2 ^ 32"
  shows "\<exists>k w'. 0 < k \<and> k \<le> length src \<and> total_len (take k src) mod bl = 0 \<and>
    code_round bl rw garbage dest src w =
      Some (of_nat (total_len (take k src) div bl), copied (take k dest) (take k src) @ drop k dest, k, w') \<and> counted w w'"
proof (cases "ub_len (hd src) mod bl = 0")
  case True
  from assms(4) obtain x xs where src: "src = x # xs" by (cases src) auto
  from assms(1) src obtain d ds where dest: "dest = d # ds" by (cases dest) (auto simp: paired_def)
  have x: "ub_len x mod bl = 0" "ub_len x < 2 ^ 32" using True assms(6) by (simp_all add: src)
  from code_round_aligned [OF assms(1) [unfolded src dest] assms(2,3) x, of rw garbage] x(1) show ?thesis
    by (intro exI [of _ 1]) (simp add: src dest copied_def)
next
  case False
  from code_round_group [OF assms(1-4) False assms(5,6)] show ?thesis .
qed

declare code_loop.simps [simp del]

lemma coded_length:
  fixes L :: nat
  assumes "bl dvd L" "L < 2 ^ 32" "0 < L"
  shows "(of_nat bl * ucast (of_nat (L div bl) :: u32) :: u64) = of_nat L"
proof -
  have "L div bl < 2 ^ 32" using assms(2) by (meson div_le_dividend order_le_less_trans)
  then have "(ucast (of_nat (L div bl) :: u32) :: u64) = of_nat (L div bl)" by (simp add: unsigned_of_nat take_bit_nat_eq_self)
  then show ?thesis using assms(1) by (metis dvd_mult_div_cancel of_nat_mult)
qed

theorem code_loop_copies:
  assumes "paired upid dest src" "quiet w" "0 < bl" "src \<noteq> []" "total_len src mod bl = 0" "total_len src < 2 ^ 32"
    "total_len src \<le> unat len"
  shows "\<exists>w'. code_loop bl upid rw garbage len dest src w = Some (of_nat (total_len src div bl), copied dest src, w') \<and> counted w w'"
  using assms(1,2,4-)
proof (induction "length src" arbitrary: dest src w len rule: less_induct)
  case less
  from code_round_copies [OF less.prems(1,2) assms(3) less.prems(3,4,5), of rw garbage] obtain k w' where
    k: "0 < k" "k \<le> length src" "total_len (take k src) mod bl = 0" and
    r: "code_round bl rw garbage dest src w =
      Some (of_nat (total_len (take k src) div bl), copied (take k dest) (take k src) @ drop k dest, k, w')" and w': "counted w w'"
    by (elim exE conjE)
  define L where "L = total_len (take k src)"
  define R where "R = total_len (drop k src)"
  have LR: "L + R = total_len src" unfolding L_def R_def by (rule total_len_take_drop)
  have ne: "take k src \<noteq> []" using k(1) less.prems(3) by simp
  have L: "0 < L" unfolding L_def by (rule total_len_pos [OF paired_take [OF less.prems(1)] ne])
  have lt: "L < 2 ^ 32" using LR less.prems(5) by linarith
  have dvd: "bl dvd L" using k(3) by (auto simp: L_def)
  have coded: "(of_nat bl * ucast (of_nat (L div bl) :: u32) :: u64) = of_nat L" by (rule coded_length [OF dvd lt L])
  have uL: "unat (of_nat L :: u64) = L" using lt by (simp add: unat_of_nat take_bit_nat_eq_self)
  have le: "\<not> len < of_nat L" using LR less.prems(6) by (simp add: word_less_nat_alt uL)
  have rest: "unat (len - of_nat L) = unat len - L"
    using le by (simp add: unat_sub uL not_less)
  have len_d: "length dest = length src" by (rule paired_length [OF less.prems(1)])
  have len_c: "length (copied (take k dest) (take k src)) = k" using k(2) by (simp add: length_copied len_d)
  have hd: "\<not> (ub_len (hd src) = 0 \<or> ub_pid (hd src) \<noteq> upid)"
    using less.prems(1,3) by (cases src) (auto simp: paired_def list_all2_Cons2)
  have max: "max 1 k = k" using k(1) by simp
  have parts: "take k (copied (take k dest) (take k src) @ drop k dest) = copied (take k dest) (take k src)"
    "drop k (copied (take k dest) (take k src) @ drop k dest) = drop k dest" using len_c by simp_all
  have step: "code_loop bl upid rw garbage len dest src w =
    (if drop k src = [] \<or> len - of_nat L = 0 then Some (of_nat (L div bl), copied (take k dest) (take k src) @ drop k dest, w')
     else case code_loop bl upid rw garbage (len - of_nat L) (drop k dest) (drop k src) w' of None \<Rightarrow> None
       | Some (n, rest, w) \<Rightarrow> Some (of_nat (L div bl) + n, copied (take k dest) (take k src) @ rest, w))"
    apply (subst code_loop.simps)
    unfolding if_not_P [OF less.prems(3)] if_not_P [OF hd] r option.case prod.case L_def [symmetric] coded Let_def if_not_P [OF le] max parts
    using k(2) len_c len_d by simp
  show ?case
  proof (cases "drop k src = []")
    case True
    then have "k = length src" using k(2) by simp
    then show ?thesis unfolding step using True w' len_d by (simp add: L_def)
  next
    case False
    have P: "paired upid (drop k dest) (drop k src)" by (rule paired_drop [OF less.prems(1)])
    have R: "0 < R" unfolding R_def by (rule total_len_pos [OF P False])
    then have nz: "len - of_nat L \<noteq> 0" using rest LR less.prems(6) by (metis add_diff_cancel_left' diff_is_0_eq leD le_add1 le_antisym less_add_same_cancel1 less_le_trans unat_0 zero_less_diff)
    have q: "quiet w'" using counted_quiet [OF w'] less.prems(2) by simp
    have m: "total_len (drop k src) mod bl = 0"
      using LR less.prems(4) dvd by (metis R_def dvd_add_right_iff dvd_imp_mod_0 mod_0_imp_dvd)
    have lt': "total_len (drop k src) < 2 ^ 32" using LR less.prems(5) R_def by linarith
    have le': "total_len (drop k src) \<le> unat (len - of_nat L)" unfolding rest using LR less.prems(6) R_def by linarith
    have "length (drop k src) < length src" using k(1) less.prems(3) by simp
    from less.hyps [OF this P q False m lt' le'] obtain w'' where
      ih: "code_loop bl upid rw garbage (len - of_nat L) (drop k dest) (drop k src) w' =
        Some (of_nat (R div bl), copied (drop k dest) (drop k src), w'')" "counted w' w''" unfolding R_def by blast
    have "L div bl + R div bl = total_len src div bl" using dvd LR by (metis div_plus_div_distrib_dvd_left)
    then have sum: "(of_nat (L div bl) + of_nat (R div bl) :: u32) = of_nat (total_len src div bl)" by (metis of_nat_add)
    show ?thesis unfolding step ih(1) using False nz sum copied_drop counted_trans [OF w' ih(2)] by auto
  qed
qed

section \<open>A write command\<close>

lemma set_unit_twice [simp]: "set_unit k u (set_unit k v dev) = set_unit k u dev"
  by (simp add: set_unit_def)

lemma set_unit_get [simp]: "units (set_unit k u dev) k = Some u" "lun (set_unit k u dev) = lun dev"
  by (simp_all add: set_unit_def)

text \<open>A transfer of data as the guest queues it, in whole sectors.\<close>

definition data_transfer :: "nat \<Rightarrow> usb_buffer list \<Rightarrow> bool" where
  "data_transfer sz g \<longleftrightarrow> g \<noteq> [] \<and> \<not> is_usbc (hd g) \<and> sz dvd total_len g \<and>
     list_all (\<lambda>ub. ub_pid ub = USB_PID_OUT \<and> \<not> ub_vadr ub \<and> ub_data ub \<noteq> [] \<and> ub_len ub \<le> PAGESIZE) g"

lemma shadow_paired:
  assumes "data_transfer sz g"
  shows "\<exists>hub. ehci_shadow_buffer garbage False g = Some hub \<and> paired USB_PID_OUT hub g"
proof -
  have "list_all (\<lambda>x. ub_len x \<le> PAGESIZE) g" using assms by (auto simp: data_transfer_def list_all_iff)
  moreover have "paired USB_PID_OUT (map (\<lambda>x. \<lparr>ub_pid = ub_pid x, ub_vadr = True, ub_data = map garbage [0..<ub_len x]\<rparr>) g) g"
    using assms by (auto simp: data_transfer_def paired_def list_all2_map1 list_all2_same list_all_iff)
  ultimately show ?thesis using assms by (simp add: ehci_shadow_buffer_def data_transfer_def)
qed

lemma copied_data: "length dest = length src \<Longrightarrow> map ub_data (copied dest src) = map ub_data src"
  by (induction dest src rule: list_induct2) (simp_all add: copied_def)

lemma sector_size_value:
  assumes "storage_sector_size u = of_nat sz" "0 < sz" "sz < 2 ^ 31"
  shows "storage_sector_size u \<noteq> 0" "unat (scast (storage_sector_size u) :: u64) = sz" "0 < (scast (storage_sector_size u) :: u64)"
proof -
  have "signed_take_bit 31 (int sz) = int sz" using assms(3) by (intro signed_take_bit_int_eq_self) simp_all
  then have s: "(scast (storage_sector_size u) :: u64) = of_nat sz"
    by (simp add: assms(1) signed_of_nat)
  then show u: "unat (scast (storage_sector_size u) :: u64) = sz"
    using assms(3) by (simp add: unat_of_nat take_bit_nat_eq_self)
  then show "0 < (scast (storage_sector_size u) :: u64)" using assms(2) by (simp only: word_less_nat_alt unat_0)
  then show "storage_sector_size u \<noteq> 0" by auto
qed

lemma outbuf_write:
  assumes u: "units dev (cur dev) = Some u" "command u \<in> {0x2a, 0xaa}"
    and sz: "storage_sector_size u = of_nat sz" "0 < sz" "sz < 2 ^ 31"
    and g: "data_transfer sz g" "total_len g \<le> unat (unit_length u)" "total_len g < 2 ^ 32" and w: "quiet w"
  shows "\<exists>hub w'. usbmsc_shadow_outbuf analyse garbage g (dev, w) =
      Some (USB_HOOK_PASS, False, hub, set_unit (cur dev) (account_blocks (of_nat (total_len g div sz)) u) dev, w') \<and>
    map ub_data hub = map ub_data g \<and> counted w w'"
proof -
  note s = sector_size_value [OF sz]
  from shadow_paired [OF g(1)] obtain hub where hub: "ehci_shadow_buffer garbage False g = Some hub" "paired USB_PID_OUT hub g" by blast
  have ne: "g \<noteq> []" "\<not> is_usbc (hd g)" and md: "total_len g mod sz = 0" using g(1) by (auto simp: data_transfer_def)
  from code_loop_copies [OF hub(2) w sz(2) ne(1) md g(3,2), of True garbage] obtain w' where
    l: "code_loop sz USB_PID_OUT True garbage (unit_length u) hub g w = Some (of_nat (total_len g div sz), copied hub g, w')"
      "counted w w'" by blast
  have q: "code_buffers_done w' = w'" using code_buffers_done_quiet counted_quiet [OF l(2)] w by blast
  have "usbmsc_code_buffers dev hub g USB_PID_OUT (unit_length u) True garbage w =
      Some (of_nat (total_len g div sz), set_unit (cur dev) u dev, copied hub g, w')"
    unfolding usbmsc_code_buffers_def u(1) bind.bind_lunit if_not_P [OF s(1)] Let_def s(2) l(1) prod.case q
    using s(3) by simp
  then have "usbmsc_shadow_outbuf analyse garbage g (dev, w) =
      Some (USB_HOOK_PASS, False, copied hub g, set_unit (cur dev) (account_blocks (of_nat (total_len g div sz)) u) dev, w')"
    using u ne hub(1) by (auto simp: usbmsc_shadow_outbuf_def outbuf_data_def Let_def)
  then show ?thesis using copied_data [OF paired_length [OF hub(2)]] l(2) by blast
qed

text \<open>The counters of the command: the bytes and blocks that are left, and the address of the next block.\<close>

definition remaining :: "nat \<Rightarrow> u32 \<Rightarrow> nat \<Rightarrow> usbmsc_unit \<Rightarrow> bool" where
  "remaining sz lba n u \<longleftrightarrow> storage_sector_size u = of_nat sz \<and> unat (n_blocks u) = n \<and> unat (unit_length u) = sz * n \<and> unit_lba u = lba"

lemma account_remaining:
  assumes "remaining sz lba n u" "m \<le> n" "sz * n < 2 ^ 31" "0 < sz"
  shows "remaining sz (lba + of_nat m) (n - m) (account_blocks (of_nat m) u) \<and> command (account_blocks (of_nat m) u) = command u"
proof -
  have u: "storage_sector_size u = of_nat sz" "unat (n_blocks u) = n" "unat (unit_length u) = sz * n" "unit_lba u = lba"
    using assms(1) by (simp_all add: remaining_def)
  have n: "n \<le> sz * n" using assms(4) by simp
  have m32: "m < 2 ^ 32" using assms(2,3) n power_strict_increasing [of 31 32 "2::nat"] by linarith
  then have um: "unat (of_nat m :: u32) = m" by (simp add: unat_of_nat take_bit_nat_eq_self)
  have le: "\<not> n_blocks u < of_nat m" using assms(2) by (simp add: word_less_nat_alt um u(2))
  have prod: "sz * m \<le> sz * n" using assms(2) by simp
  have "sz * m < 2 ^ 31" using prod assms(3) by (rule order_le_less_trans)
  then have "int (sz * m) < 2 ^ 31" using of_nat_less_numeral_power_cancel_iff by blast
  then have "signed_take_bit 31 (int (sz * m)) = int (sz * m)"
    by (intro signed_take_bit_int_eq_self) (simp_all del: of_nat_mult)
  then have sc: "(scast (of_nat sz * of_nat m :: u32) :: u64) = of_nat (sz * m)"
    unfolding of_nat_mult [symmetric] by (simp add: signed_of_nat del: of_nat_mult)
  have "sz * m < 2 ^ 64" using prod assms(3) power_strict_increasing [of 31 64 "2::nat"] by linarith
  then have usm: "unat (of_nat (sz * m) :: u64) = sz * m" by (simp add: unat_of_nat del: of_nat_mult)
  have "unat (unit_length u - of_nat (sz * m)) = sz * n - sz * m"
    using prod by (subst unat_sub) (simp_all only: word_le_nat_alt usm u(3))
  moreover have "unat (n_blocks u - of_nat m) = n - m"
    using assms(2) by (subst unat_sub) (simp_all only: word_le_nat_alt um u(2))
  moreover have "account_blocks (of_nat m) u = u\<lparr>unit_length := unit_length u - of_nat (sz * m), n_blocks := n_blocks u - of_nat m,
      unit_lba := unit_lba u + of_nat m\<rparr>"
    unfolding account_blocks_def if_not_P [OF le] Let_def u(1) sc ..
  ultimately show ?thesis by (simp add: remaining_def u diff_mult_distrib2 del: of_nat_mult)
qed

text \<open>The transfers of one command, until one is discarded.\<close>

fun out_run :: "analysis \<Rightarrow> bytes \<Rightarrow> usb_buffer list list \<Rightarrow> usbmsc_device \<times> win_state \<Rightarrow>
    (usb_buffer list list \<times> usbmsc_device \<times> win_state) option" where
  "out_run analyse garbage [] s = Some ([], s)"
| "out_run analyse garbage (g # gs) s = do {
     (r, halt, hub, s) \<leftarrow> usbmsc_shadow_outbuf analyse garbage g s;
     ASSERT (r = USB_HOOK_PASS);
     (hubs, s) \<leftarrow> out_run analyse garbage gs s;
     Some (hub # hubs, s) }"

abbreviation transfers_len :: "usb_buffer list list \<Rightarrow> nat" where
  "transfers_len gs \<equiv> sum_list (map (\<lambda>g. total_len g) gs)"

lemma out_run_data:
  assumes "list_all (data_transfer sz) gs" "0 < sz" "sz < 2 ^ 31" "command u \<in> {0x2a, 0xaa}" "units dev (cur dev) = Some u"
    and "remaining sz lba n u" "sz * n < 2 ^ 31" "transfers_len gs \<le> sz * n" "quiet w"
  shows "\<exists>hubs dev' u' w'. out_run analyse garbage gs (dev, w) = Some (hubs, dev', w') \<and>
    map (map ub_data) hubs = map (map ub_data) gs \<and> cur dev' = cur dev \<and> units dev' (cur dev) = Some u' \<and>
    remaining sz (lba + of_nat (transfers_len gs div sz)) (n - transfers_len gs div sz) u' \<and> counted w w'"
  using assms(1,4-)
proof (induction gs arbitrary: dev u lba n w)
  case Nil
  then show ?case by simp
next
  case (Cons g gs)
  define m where "m = total_len g div sz"
  have g: "data_transfer sz g" "sz dvd total_len g" using Cons.prems(1) by (auto simp: data_transfer_def)
  then have tm: "total_len g = sz * m" by (simp add: m_def)
  have u: "unat (unit_length u) = sz * n" "storage_sector_size u = of_nat sz" using Cons.prems(4) by (simp_all add: remaining_def)
  have le: "sz * m + transfers_len gs \<le> sz * n" using Cons.prems(6) tm by simp
  have mn: "m \<le> n" using le assms(2) by (metis add_leD1 mult_le_cancel1)
  have "total_len g \<le> unat (unit_length u)" "total_len g < 2 ^ 32"
    using le Cons.prems(5) tm u(1) power_strict_increasing [of 31 32 "2::nat"] by linarith+
  from outbuf_write [OF Cons.prems(3,2) u(2) assms(2,3) g(1) this Cons.prems(7), of analyse garbage, folded m_def] obtain hub w1 where
    step: "usbmsc_shadow_outbuf analyse garbage g (dev, w) =
      Some (USB_HOOK_PASS, False, hub, set_unit (cur dev) (account_blocks (of_nat m) u) dev, w1)"
      "map ub_data hub = map ub_data g" "counted w w1" by (elim exE conjE)
  from account_remaining [OF Cons.prems(4) mn Cons.prems(5) assms(2)] Cons.prems(2) have
    acc: "remaining sz (lba + of_nat m) (n - m) (account_blocks (of_nat m) u)" "command (account_blocks (of_nat m) u) \<in> {0x2a, 0xaa}"
    by simp_all
  have lt: "sz * (n - m) < 2 ^ 31" using Cons.prems(5) by (simp add: diff_mult_distrib2)
  have le': "transfers_len gs \<le> sz * (n - m)" using le by (simp add: diff_mult_distrib2)
  have gs: "list_all (data_transfer sz) gs" using Cons.prems(1) by simp
  have q: "quiet w1" using counted_quiet [OF step(3)] Cons.prems(7) by simp
  have dv: "units (set_unit (cur dev) (account_blocks (of_nat m) u) dev) (cur (set_unit (cur dev) (account_blocks (of_nat m) u) dev)) =
    Some (account_blocks (of_nat m) u)" by simp
  from Cons.IH [OF gs acc(2) dv acc(1) lt le' q] obtain hubs dev' u' w' where
    ih: "out_run analyse garbage gs (set_unit (cur dev) (account_blocks (of_nat m) u) dev, w1) = Some (hubs, dev', w')"
      "map (map ub_data) hubs = map (map ub_data) gs" "cur dev' = cur dev" "units dev' (cur dev) = Some u'"
      "remaining sz (lba + of_nat m + of_nat (transfers_len gs div sz)) (n - m - transfers_len gs div sz) u'" "counted w1 w'"
    unfolding set_unit_get by (elim exE conjE)
  have "transfers_len (g # gs) div sz = m + transfers_len gs div sz" using assms(2) by (simp add: tm)
  then have "remaining sz (lba + of_nat (transfers_len (g # gs) div sz)) (n - transfers_len (g # gs) div sz) u'"
    using ih(5) by (simp add: add.assoc)
  moreover have "out_run analyse garbage (g # gs) (dev, w) = Some (hub # hubs, dev', w')" using step(1) ih(1) by simp
  moreover have "map (map ub_data) (hub # hubs) = map (map ub_data) (g # gs)" using step(2) ih(2) by simp
  ultimately show ?case using ih(3,4) counted_trans [OF step(3) ih(6)] by blast
qed

section \<open>The command wrapper\<close>

lemma upt_small: "[0..<4] = [0, 1, 2, 3 :: nat]" "[0..<16] = [0, 1, 2, 3, 4, 5, 6, 7, 8, 9, 10, 11, 12, 13, 14, 15 :: nat]"
  by (simp_all add: upt_rec)

lemma bytes_of_load:
  assumes "k < n" "8 * n = LENGTH('a)"
  shows "le_bytes (le_load n p :: 'a::len word) k = p k"
proof (rule bit_word_eqI)
  fix i assume "i < LENGTH(8)"
  then have "(8 * k + i) div 8 = k" "(8 * k + i) mod 8 = i" "8 * k + i < 8 * n" "i < 8" using assms(1) by simp_all
  then show "bit (le_bytes (le_load n p :: 'a word) k) i = bit (p k) i"
    using assms(2) by (simp add: le_bytes_def bit_simps bit_le_load add.commute [of i])
qed

lemma cbw_roundtrip:
  assumes "length xs = CBW_SIZE"
  shows "cbw_bytes (cbw_load xs) = xs"
proof -
  have upt: "[0..<31] = [0, 1, 2, 3, 4, 5, 6, 7, 8, 9, 10, 11, 12, 13, 14, 15, 16, 17, 18, 19, 20, 21, 22, 23, 24, 25, 26, 27, 28, 29, 30 :: nat]" by (simp add: upt_rec)
  have "cbw_bytes (cbw_load xs) = map ((!) xs) [0..<31]"
    using assms by (simp add: cbw_bytes_def cbw_load_def upt upt_small bytes_of_load c_string_def CBW_SIZE_def)
  then show ?thesis using assms map_nth [of xs] by (simp add: CBW_SIZE_def)
qed

lemma cbw_bytes_tag: "cbw_bytes (c\<lparr>CBWCB := (CBWCB c)(6 := x)\<rparr>) = (cbw_bytes c)[21 := x]"
  by (simp add: cbw_bytes_def upt_small)

lemma cbw_load_fields:
  assumes "length xs = CBW_SIZE"
  shows "k < 16 \<Longrightarrow> CBWCB (cbw_load xs) k = xs ! (15 + k)" "bCBWLUN (cbw_load xs) = xs ! 13"
  using assms by (simp_all add: cbw_load_def c_string_def CBW_SIZE_def)

text \<open>The analysis changes nothing of a command but the bits it adds to byte 6.\<close>

definition tagged :: "cbw \<Rightarrow> cbw \<Rightarrow> bool" where
  "tagged c c' \<longleftrightarrow> (\<exists>x. c' = c\<lparr>CBWCB := (CBWCB c)(6 := CBWCB c 6 OR x)\<rparr>)"

lemma tagged_refl [simp]: "tagged c c"
  unfolding tagged_def by (rule exI [of _ 0]) simp

lemma tagged_AddTag [simp]: "tagged c (AddTag tag c)"
proof -
  have "tagged c (c\<lparr>CBWCB := (CBWCB c)(6 := CBWCB c 6 OR x)\<rparr>)" for x
    unfolding tagged_def by (rule exI [of _ x]) (rule refl)
  then show ?thesis by (simp add: AddTag_def)
qed

text \<open>Whatever is returned is tagged at most.\<close>

definition tagging :: "cbw \<Rightarrow> (cbw \<times> win_state) option \<Rightarrow> bool" where
  "tagging c r \<longleftrightarrow> (case r of None \<Rightarrow> True | Some v \<Rightarrow> tagged c (fst v))"

lemma tagging_simps [simp]:
  "tagging c None" "tagging c (Some (c, s))" "tagging c (Some (AddTag tag c, s))"
  by (simp_all add: tagging_def)

lemma tagging_bind: "(\<And>v. tagging c (f v)) \<Longrightarrow> tagging c (m \<bind> f)"
  by (cases m) simp_all

lemma tagging_if:
  "tagging c x \<Longrightarrow> tagging c y \<Longrightarrow> tagging c (if b then x else y)"
  "tagging c (Some v) \<Longrightarrow> tagging c (Some w) \<Longrightarrow> tagging c (Some (if b then v else w))"
  by simp_all

lemma win_recovery_tagging: "tagging c (win_recovery_tag name (c, s))"
  unfolding win_recovery_tag_def prod.case Let_def by (intro tagging_bind tagging_if tagging_simps)

lemma win_analyse_tagging: "tagging c (win_analyse g garbage p0 p1 (c, s))"
proof -
  obtain b p where bp: "win_get_CurrentProcessInfo g garbage p0 = (b, p)" by (cases "win_get_CurrentProcessInfo g garbage p0")
  have rec: "tagging c (win_Handle_Recovery g garbage p1 (c, s2))" for garbage s2
    unfolding win_Handle_Recovery_def Let_def prod.case_eq_if by (intro tagging_if tagging_simps win_recovery_tagging)
  have det: "tagging c (Some (win_DetermineTag p (c, s2)))" for p s2
    unfolding win_DetermineTag_def Let_def prod.case by (intro tagging_if tagging_simps)
  show ?thesis
    unfolding win_analyse_def Let_def bp prod.case_eq_if fst_conv snd_conv by (intro tagging_bind tagging_if tagging_simps rec det)
qed

lemma win_analyse_other:
  assumes "win_analyse g garbage p0 p1 (c, s) = Some (c', s')" "CBWCB c 0 \<notin> {0x28, 0x2a}"
  shows "c' = c"
proof -
  obtain b p where bp: "win_get_CurrentProcessInfo g garbage p0 = (b, p)" by (cases "win_get_CurrentProcessInfo g garbage p0")
  show ?thesis
  proof (cases "is_win_kernel_addr (EThread p)")
    case True
    then show ?thesis using assms by (cases "traverse_IrpList g (garbage 4) (cbw_lba c) (p, s)") (auto simp: win_analyse_def bp)
  qed (use assms in \<open>simp add: win_analyse_def bp\<close>)
qed

lemma tagged_wrapper:
  assumes "length xs = CBW_SIZE" "tagged (cbw_load xs) c'"
  shows "\<exists>x. cbw_bytes c' = xs[21 := xs ! 21 OR x]"
proof -
  from assms(2) obtain x where "c' = (cbw_load xs)\<lparr>CBWCB := (CBWCB (cbw_load xs))(6 := CBWCB (cbw_load xs) 6 OR x)\<rparr>"
    unfolding tagged_def by (elim exE)
  then have "cbw_bytes c' = (cbw_bytes (cbw_load xs))[21 := CBWCB (cbw_load xs) 6 OR x]" by (simp only: cbw_bytes_tag)
  also have "\<dots> = xs[21 := xs ! 21 OR x]" using assms(1) by (simp only: cbw_roundtrip cbw_load_fields) simp
  finally show ?thesis ..
qed

lemma usbc_length: "is_usbc ub \<Longrightarrow> length (ub_data ub) = CBW_SIZE"
  by (simp add: is_usbc_def)

lemma outbuf_wrapper:
  assumes "is_usbc ub" "usbmsc_shadow_outbuf analyse garbage (ub # gub) (dev, w) = Some (r, halt, hub, dev', w')"
  shows "\<exists>c' w2. analyse (cbw_load (ub_data ub), w) = Some (c', w2) \<and> ub_data (hd hub) = cbw_bytes c'"
  using assms
  by (auto simp: usbmsc_shadow_outbuf_def usbmsc_cbw_parser_def Let_def split: Option.bind_splits if_splits)

lemma bswap32_load:
  fixes p :: bytes
  shows "bswap32 (le_load 4 p) = push_bit 24 (ucast (p 0)) OR push_bit 16 (ucast (p 1)) OR push_bit 8 (ucast (p 2)) OR ucast (p 3)"
    (is "?l = ?r")
proof (rule bit_word_eqI)
  have upt: "[0..<32] = [0, 1, 2, 3, 4, 5, 6, 7, 8, 9, 10, 11, 12, 13, 14, 15, 16, 17, 18, 19, 20, 21, 22, 23, 24, 25, 26, 27, 28, 29, 30, 31 :: nat]" by (simp add: upt_rec)
  have "list_all (\<lambda>i. bit ?l i = bit ?r i) [0..<32]"
    unfolding upt by (simp add: bswap32_def bit_simps bit_le_load bit_u8_beyond)
  then show "bit ?l i = bit ?r i" if "i < LENGTH(32)" for i using that by (simp add: list_all_iff)
qed

lemma load_lba: "bswap32 (le_load 4 (\<lambda>k. CBWCB c (2 + k))) = cbw_lba c"
  unfolding bswap32_load cbw_lba_def by simp

lemma load_blocks:
  fixes p :: bytes
  shows "unat (ucast (bswap16 (le_load 2 p)) :: u32) = unat (p 0) * 2 ^ 8 + unat (p 1)"
proof -
  have "le_load 2 p = (ucast (p 0) OR push_bit 8 (ucast (p 1)) :: u16)" by (simp add: numeral_2_eq_2 le_load_Suc le_load_def or.commute)
  moreover have "unat (ucast (x :: u16) :: u32) = unat x" for x
  proof -
    have "unat x < 65536" using unsigned_less [of x] by simp
    then show ?thesis by (simp add: unsigned_ucast_eq take_bit_nat_eq_self)
  qed
  ultimately show ?thesis by (simp add: bswap16_value)
qed

text \<open>A WRITE(10) as a guest sends it, to the current unit, whose sector size is known: its block count and byte count agree.\<close>

definition write_wrapper :: "nat \<Rightarrow> nat \<Rightarrow> usbmsc_device \<Rightarrow> usb_buffer \<Rightarrow> bool" where
  "write_wrapper sz n dev ub \<longleftrightarrow> is_usbc ub \<and> ub_data ub ! 15 = 0x2a \<and> ub_data ub ! 13 AND 0x0f = lun dev \<and> lun dev \<le> lun_max dev \<and>
     unat (ub_data ub ! 22) * 256 + unat (ub_data ub ! 23) = n \<and> dCBWDataTransferLength (cbw_load (ub_data ub)) = of_nat (sz * n) \<and>
     (\<exists>u. units dev (cur dev) = Some u \<and> storage_sector_size u = of_nat sz)"

text \<open>What the driver relies on of an analysis: it adds bits to byte 6 of the command, and leaves the rest.\<close>

locale command_analysis =
  fixes analyse :: analysis
  assumes only_tags: "tagging c (analyse (c, s))"
begin

lemma tags: "analyse (c, s) = Some (c', s') \<Longrightarrow> tagged c c'"
  using only_tags [of c s] by (simp add: tagging_def)

lemma analysed_wrapper:
  assumes "length xs = CBW_SIZE" "analyse (cbw_load xs, s) = Some (c', s')"
  shows "\<exists>x. cbw_bytes c' = xs[21 := xs ! 21 OR x]"
  by (rule tagged_wrapper [OF assms(1) tags [OF assms(2)]])

lemma wrapper_step:
  assumes W: "write_wrapper sz n dev ub" and lt: "sz * n < 2 ^ 31"
    and an: "analyse (cbw_load (ub_data ub), w) = Some (c', w')"
  shows "\<exists>hub dev1 u1. usbmsc_shadow_outbuf analyse garbage [ub] (dev, w) = Some (USB_HOOK_PASS, False, [hub], dev1, w') \<and>
    ub_data hub = cbw_bytes c' \<and> cur dev1 = cur dev \<and> units dev1 (cur dev) = Some u1 \<and>
    remaining sz (cbw_lba (cbw_load (ub_data ub))) n u1 \<and> command u1 = 0x2a"
proof -
  define c where "c = cbw_load (ub_data ub)"
  from W obtain u where u: "units dev (cur dev) = Some u" "storage_sector_size u = of_nat sz" by (auto simp: write_wrapper_def)
  have ub: "is_usbc ub" using W by (simp add: write_wrapper_def)
  note len = usbc_length [OF ub]
  have f: "CBWCB c 0 = 0x2a" "CBWCB c 7 = ub_data ub ! 22" "CBWCB c 8 = ub_data ub ! 23" "bCBWLUN c AND 0x0f = lun dev"
    "dCBWDataTransferLength c = of_nat (sz * n)" "\<not> lun_max dev < lun dev"
    using W cbw_load_fields(1) [OF len, of 0] cbw_load_fields(1) [OF len, of 7] cbw_load_fields(1) [OF len, of 8] cbw_load_fields(2) [OF len]
    by (simp_all add: write_wrapper_def c_def not_less)
  from tags [OF an] have c': "CBWCB c' 0 = 0x2a" "cbw_lba c' = cbw_lba c" "CBWCB c' 7 = ub_data ub ! 22" "CBWCB c' 8 = ub_data ub ! 23"
    using f by (auto simp: tagged_def cbw_lba_def c_def [symmetric])
  define u1 where "u1 = u\<lparr>command := 0x2a, unit_length := ucast (dCBWDataTransferLength c), unit_lba := cbw_lba c,
    n_blocks := ucast (bswap16 (le_load 2 (\<lambda>k. CBWCB c' (7 + k))))\<rparr>"
  have dev: "dev\<lparr>msc_tag := t, lun := lun dev\<rparr> = dev\<lparr>msc_tag := t\<rparr>" for t by (cases dev) simp
  have parse: "usbmsc_cbw_parser analyse dev c w = Some (set_unit (cur dev) u1 (dev\<lparr>msc_tag := dCBWTag c\<rparr>), c', w')"
    using u(1) f an c'(1,2)
    by (simp add: usbmsc_cbw_parser_def Let_def dev load_lba [simplified] u1_def c_def [symmetric])
  have hub: "ehci_shadow_buffer garbage False [ub] = Some [\<lparr>ub_pid = ub_pid ub, ub_vadr = True, ub_data = map garbage [0..<ub_len ub]\<rparr>]"
    using len by (simp add: ehci_shadow_buffer_def CBW_SIZE_def PAGESIZE_def)
  have "unat (n_blocks u1) = n"
    using W load_blocks [of "\<lambda>k. CBWCB c' (7 + k)"] c'(3,4) by (simp add: u1_def write_wrapper_def)
  moreover have "sz * n < 2 ^ 32" using lt power_strict_increasing [of 31 32 "2::nat"] by linarith
  then have "unat (unit_length u1) = sz * n"
    by (simp add: u1_def f(5) unsigned_of_nat unsigned_ucast_eq take_bit_nat_eq_self del: of_nat_mult)
  ultimately have "remaining sz (cbw_lba c) n u1" "command u1 = 0x2a" using u(2) by (simp_all add: remaining_def u1_def)
  moreover have "usbmsc_shadow_outbuf analyse garbage [ub] (dev, w) =
    Some (USB_HOOK_PASS, False, [\<lparr>ub_pid = ub_pid ub, ub_vadr = True, ub_data = cbw_bytes c'\<rparr>],
      set_unit (cur dev) u1 (dev\<lparr>msc_tag := dCBWTag c\<rparr>), w')"
    using ub parse hub by (simp add: usbmsc_shadow_outbuf_def Let_def c_def [symmetric] u1_def)
  ultimately show ?thesis by (auto simp: c_def)
qed

end

interpretation win: command_analysis "win_analyse g ge p0 p1" for g ge p0 p1
  by unfold_locales (rule win_analyse_tagging)

text \<open>C15: The command wrapper that the device receives is the guest's, but for the tag bits that the analysis of a READ(10) or
  WRITE(10) adds to byte 6 of the command; the guest's own buffer is only read.\<close>

theorem wrapper_only_tagged:
  assumes "is_usbc ub" "usbmsc_shadow_outbuf (win_analyse g ge p0 p1) garbage (ub # gub) (dev, w) = Some (r, halt, hub, dev', w')"
  shows "\<exists>x. ub_data (hd hub) = (ub_data ub)[21 := ub_data ub ! 21 OR x] \<and> (ub_data ub ! 15 \<notin> {0x28, 0x2a} \<longrightarrow> ub_data (hd hub) = ub_data ub)"
proof -
  note len = usbc_length [OF assms(1)]
  from outbuf_wrapper [OF assms] obtain c' w2 where
    c': "win_analyse g ge p0 p1 (cbw_load (ub_data ub), w) = Some (c', w2)" "ub_data (hd hub) = cbw_bytes c'" by (elim exE conjE)
  from win.analysed_wrapper [OF len c'(1)] obtain x where
    x: "cbw_bytes c' = (ub_data ub)[21 := ub_data ub ! 21 OR x]" by (elim exE)
  have "CBWCB (cbw_load (ub_data ub)) 0 = ub_data ub ! 15" using cbw_load_fields(1) [OF len, of 0] by simp
  then have "cbw_bytes c' = ub_data ub" if "ub_data ub ! 15 \<notin> {0x28, 0x2a}"
    using win_analyse_other [OF c'(1)] that cbw_roundtrip [OF len] by simp
  then show ?thesis using x c'(2) by auto
qed

lemma analysed_byte:
  assumes "length xs = CBW_SIZE" "cbw_bytes c' = xs[21 := x]"
  shows "cbw_bytes c' = xs[21 := CBWCB c' 6]"
proof -
  have "cbw_bytes c' ! 21 = CBWCB c' 6"
    by (simp add: cbw_bytes_def upt_small)
  moreover have "xs[21 := x] ! 21 = x" using assms(1) by (simp add: CBW_SIZE_def)
  ultimately show ?thesis using assms(2) by simp
qed

text \<open>C7: A whole write command passes the hypervisor: the device receives the wrapper with exactly the byte that the analysis computed in
  place of byte 6 of the command (byte 21 of the wrapper) and nothing else changed, and then byte for byte the data that the guest
  queued, in as many transfers and buffers as the guest used; at the end the driver has counted every block and every byte. Each
  transfer is of whole sectors, but its buffers may end inside of sectors; each buffer fits a page; and the module is not about to parse
  the data (no transfer of the bitmap or the file table is expected).\<close>

theorem write_command_passes:
  assumes "write_wrapper sz n dev ub" "0 < sz" "sz * n < 2 ^ 31" "0 < n"
    and "win_analyse g ge p0 p1 (cbw_load (ub_data ub), w) = Some (c', w1)" "quiet w1"
    and "list_all (data_transfer sz) gs" "transfers_len gs = sz * n"
  shows "\<exists>hubs dev' u' w'. out_run (win_analyse g ge p0 p1) garbage ([ub] # gs) (dev, w) = Some (hubs, dev', w') \<and>
    map (map ub_data) hubs = [(ub_data ub)[21 := CBWCB c' 6]] # map (map ub_data) gs \<and>
    units dev' (cur dev) = Some u' \<and> unat (n_blocks u') = 0 \<and> unat (unit_length u') = 0 \<and>
    unit_lba u' = cbw_lba (cbw_load (ub_data ub)) + of_nat n \<and> counted w1 w'"
proof -
  have len: "length (ub_data ub) = CBW_SIZE" using assms(1) by (simp add: write_wrapper_def usbc_length)
  from win.wrapper_step [OF assms(1,3,5), of garbage] obtain hub dev1 u1 where
    s: "usbmsc_shadow_outbuf (win_analyse g ge p0 p1) garbage [ub] (dev, w) = Some (USB_HOOK_PASS, False, [hub], dev1, w1)"
      "ub_data hub = cbw_bytes c'" "cur dev1 = cur dev" "units dev1 (cur dev) = Some u1"
      "remaining sz (cbw_lba (cbw_load (ub_data ub))) n u1" "command u1 = 0x2a" by (elim exE conjE)
  from win.analysed_wrapper [OF len assms(5)] obtain y where "cbw_bytes c' = (ub_data ub)[21 := ub_data ub ! 21 OR y]" by (elim exE)
  note x = analysed_byte [OF len this]
  have sz: "sz < 2 ^ 31" using assms(3,4) by (metis One_nat_def Suc_leI mult.right_neutral mult_le_mono2 order_le_less_trans)
  have "units dev1 (cur dev1) = Some u1" "command u1 \<in> {0x2a, 0xaa}" "transfers_len gs \<le> sz * n" using s assms(8) by simp_all
  from out_run_data [OF assms(7,2) sz this(2,1) s(5) assms(3) this(3) assms(6), of "win_analyse g ge p0 p1" garbage] obtain hubs dev' u' w' where
    r: "out_run (win_analyse g ge p0 p1) garbage gs (dev1, w1) = Some (hubs, dev', w')" "map (map ub_data) hubs = map (map ub_data) gs"
      "units dev' (cur dev1) = Some u'"
      "remaining sz (cbw_lba (cbw_load (ub_data ub)) + of_nat (transfers_len gs div sz)) (n - transfers_len gs div sz) u'" "counted w1 w'"
    by (elim exE conjE)
  have "transfers_len gs div sz = n" using assms(2,8) by simp
  with r(4) have u': "unat (n_blocks u') = 0" "unat (unit_length u') = 0" "unit_lba u' = cbw_lba (cbw_load (ub_data ub)) + of_nat n"
    by (simp_all add: remaining_def)
  have run: "out_run (win_analyse g ge p0 p1) garbage ([ub] # gs) (dev, w) = Some ([hub] # hubs, dev', w')" using s(1) r(1) by simp
  have "map (map ub_data) ([hub] # hubs) = [(ub_data ub)[21 := CBWCB c' 6]] # map (map ub_data) gs" using s(2) r(2) x by simp
  with run r(3,5) u' s(3) show ?thesis by metis
qed

text \<open>The data of a read comes back the same way: what the device put into the shadow buffers is what the guest's hold.\<close>

theorem read_data_passes:
  assumes u: "units dev (cur dev) = Some u" "command u \<in> {0x28, 0xa8}"
    and sz: "storage_sector_size u = of_nat sz" "0 < sz" "sz < 2 ^ 31"
    and P: "paired USB_PID_IN gub hub" "hub \<noteq> []" "sz dvd total_len hub" "total_len hub \<le> actlen" "actlen < 2 ^ 32"
    and "\<not> (is_usbs (hd hub) \<and> actlen = CSW_SIZE)" "quiet w"
  shows "\<exists>gub' w'. usbmsc_copyback_shadow False actlen garbage gub hub (dev, w) =
      Some (gub', set_unit (cur dev) (account_blocks (of_nat (total_len hub div sz)) u) dev, w') \<and>
    map ub_data gub' = map ub_data hub \<and> counted w w'"
proof -
  note s = sector_size_value [OF sz]
  have md: "total_len hub mod sz = 0" using P(3) by (rule dvd_imp_mod_0)
  have a: "unat (of_nat actlen :: u64) = actlen" using P(5) by (simp add: unat_of_nat)
  have le: "total_len hub \<le> unat (of_nat actlen :: u64)" unfolding a by (rule P(4))
  have lt: "total_len hub < 2 ^ 32" using P(4,5) by linarith
  from code_loop_copies [OF P(1) assms(12) sz(2) P(2) md lt le, of False garbage] obtain w' where
    l: "code_loop sz USB_PID_IN False garbage (of_nat actlen) gub hub w = Some (of_nat (total_len hub div sz), copied gub hub, w')"
      "counted w w'" by (elim exE conjE)
  have q: "code_buffers_done w' = w'" using code_buffers_done_quiet counted_quiet [OF l(2)] assms(12) by blast
  have c: "usbmsc_code_buffers dev gub hub USB_PID_IN (of_nat actlen) False garbage w =
      Some (of_nat (total_len hub div sz), set_unit (cur dev) u dev, copied gub hub, w')"
    unfolding usbmsc_code_buffers_def u(1) bind.bind_lunit if_not_P [OF s(1)] Let_def s(2) l(1) prod.case q
    using s(3) by simp
  have "command u \<notin> copied_replies" "command u \<noteq> 0x46" "command u \<noteq> 0x25" using u(2) by (auto simp: copied_replies_def)
  then have "usbmsc_copyback_shadow False actlen garbage gub hub (dev, w) =
      Some (copied gub hub, set_unit (cur dev) (account_blocks (of_nat (total_len hub div sz)) u) dev, w')"
    using u P(2) assms(11) c by (auto simp: usbmsc_copyback_shadow_def copyback_data_def Let_def)
  then show ?thesis using copied_data [OF paired_length [OF P(1)]] l(2) by blast
qed

section \<open>Reachable states of the driver\<close>

inductive mscd_step :: "usbmsc_device \<times> win_state \<Rightarrow> usbmsc_device \<times> win_state \<Rightarrow> bool" where
  outgoing: "usbmsc_shadow_outbuf analyse garbage gub s = Some (r, halt, hub, s') \<Longrightarrow> mscd_step s s'"
| incoming: "usbmsc_copyback_shadow errors actlen garbage gub hub s = Some (gub', s') \<Longrightarrow> mscd_step s s'"
| luns: "usbmsc_getmaxlun gub dev = Some dev' \<Longrightarrow> mscd_step (dev, w) (dev', w)"

definition units_ok :: "usbmsc_device \<Rightarrow> bool" where
  "units_ok dev \<longleftrightarrow> units dev (cur dev) \<noteq> None \<and> (\<forall>i \<le> unat (lun_max dev). units dev i \<noteq> None) \<and> unat (lun_max dev) \<le> USBMSC_LUN_MAX"

lemma units_ok_set [intro]: "units_ok dev \<Longrightarrow> units_ok (set_unit k u dev)"
  by (auto simp: units_ok_def set_unit_def)

lemma code_buffers_units: "usbmsc_code_buffers dev dest src upid len rw garbage w = Some (n, dev', dest', w') \<Longrightarrow> units_ok dev \<Longrightarrow> units_ok dev'"
  by (auto simp: usbmsc_code_buffers_def Let_def split: Option.bind_splits prod.splits)

lemma cbw_parser_units:
  assumes "usbmsc_cbw_parser analyse dev c w = Some (dev', c', w')" "units_ok dev"
  shows "units_ok dev'"
proof -
  define d1 where "d1 = dev\<lparr>msc_tag := dCBWTag c, lun := bCBWLUN c AND 0x0f\<rparr>"
  define d2 where "d2 = (if lun_max d1 < lun d1 then d1\<lparr>lun := 0\<rparr> else d1)"
  have "units d2 = units dev" "lun_max d2 = lun_max dev" "lun d2 \<le> lun_max dev"
    by (auto simp: d2_def d1_def)
  then have "units_ok d2" using assms(2) by (auto simp: units_ok_def word_le_nat_alt)
  moreover have "\<exists>u. dev' = set_unit (cur d2) u d2"
    using assms(1) unfolding usbmsc_cbw_parser_def Let_def d1_def [symmetric] d2_def [symmetric]
    by (auto split: Option.bind_splits if_splits)
  ultimately show ?thesis by auto
qed

lemma outbuf_data_units: "outbuf_data k gub hub garbage (dev, w) = Some (r, hub', dev', w') \<Longrightarrow> units_ok dev \<Longrightarrow> units_ok dev'"
  by (auto simp: outbuf_data_def split: Option.bind_splits if_splits prod.splits dest: code_buffers_units)

lemma shadow_outbuf_units:
  "usbmsc_shadow_outbuf analyse garbage gub (dev, w) = Some (r, halt, hub, dev', w') \<Longrightarrow> units_ok dev \<Longrightarrow> units_ok dev'"
  by (auto simp: usbmsc_shadow_outbuf_def Let_def split: Option.bind_splits if_splits prod.splits
      dest: cbw_parser_units outbuf_data_units)

lemma copyback_data_units: "copyback_data actlen gub hub garbage (dev, w) = Some (gub', dev', w') \<Longrightarrow> units_ok dev \<Longrightarrow> units_ok dev'"
  by (auto simp: copyback_data_def Let_def split: Option.bind_splits if_splits prod.splits dest: code_buffers_units)

lemma copyback_units:
  "usbmsc_copyback_shadow errors actlen garbage gub hub (dev, w) = Some (gub', dev', w') \<Longrightarrow> units_ok dev \<Longrightarrow> units_ok dev'"
  by (auto simp: usbmsc_copyback_shadow_def Let_def split: Option.bind_splits if_splits dest: copyback_data_units)

lemma getmaxlun_units: "usbmsc_getmaxlun gub dev = Some dev' \<Longrightarrow> units_ok dev \<Longrightarrow> units_ok dev'"
proof -
  define d where "d = fold (\<lambda>ub dev. if ub_pid ub = USB_PID_IN then dev\<lparr>lun_max := c_string (ub_data ub) 0\<rparr> else dev) gub dev"
  have "units d = units dev \<and> lun d = lun dev"
    unfolding d_def by (induction gub arbitrary: dev) simp_all
  moreover assume "usbmsc_getmaxlun gub dev = Some dev'" "units_ok dev"
  ultimately show "units_ok dev'"
    by (auto simp: usbmsc_getmaxlun_def Let_def d_def [symmetric] units_ok_def ASSERT_def split: if_splits)
qed

text \<open>C27: In every state that transfers of any shape, replies and failures of any device can lead the driver to, the current
  unit and every unit up to the highest number exist, so that no transfer is accounted through a null pointer.  A reply that
  announces a unit above 15, for which the source would write behind its array, ends the run of the model.\<close>

theorem driver_units_exist:
  assumes "mscd_step\<^sup>*\<^sup>* (new_device, w0) (dev, w)"
  shows "units dev (cur dev) \<noteq> None \<and> (\<forall>i \<le> unat (lun_max dev). units dev i \<noteq> None) \<and> unat (lun_max dev) \<le> USBMSC_LUN_MAX"
proof -
  have "units_ok (fst (dev, w))" using assms
  proof (induction rule: rtranclp_induct)
    case base
    then show ?case by (simp add: units_ok_def new_device_def)
  next
    case (step s t)
    from step(2,3) show ?case
      by (cases s; cases t) (auto elim!: mscd_step.cases dest: shadow_outbuf_units copyback_units getmaxlun_units)
  qed
  then show ?thesis by (simp add: units_ok_def)
qed

section \<open>Errors\<close>

text \<open>A command of the security protocol, for the current unit or another.\<close>

definition security_wrapper :: "usbmsc_device \<Rightarrow> usb_buffer \<Rightarrow> bool" where
  "security_wrapper dev ub \<longleftrightarrow> is_usbc ub \<and> ub_data ub ! 15 \<in> {0xA2, 0xB5} \<and> ub_data ub ! 13 AND 0x0f \<le> lun_max dev"

text \<open>Commands of the security protocol, which the driver is to ignore, are stalled only on the unit of the command before:
  the driver looks at the command of the unit it found before it read the wrapper, so a guest that addresses another unit has
  its wrapper sent to the device unchanged.\<close>

theorem security_commands_pass:
  assumes "security_wrapper dev ub" "units_ok dev" "units dev (cur dev) = Some u" "command u \<notin> {0xA2, 0xB5}"
    and "win_analyse g ge p0 p1 (cbw_load (ub_data ub), w) = Some (c', w')"
  shows "\<exists>hub dev'. usbmsc_shadow_outbuf (win_analyse g ge p0 p1) garbage [ub] (dev, w) =
    Some (if ub_data ub ! 13 AND 0x0f = lun dev then USB_HOOK_DISCARD else USB_HOOK_PASS, ub_data ub ! 13 AND 0x0f = lun dev, [hub], dev', w') \<and>
    ub_data hub = ub_data ub"
proof -
  define c where "c = cbw_load (ub_data ub)"
  define l where "l = ub_data ub ! 13 AND 0x0f"
  have ub: "is_usbc ub" using assms(1) by (simp add: security_wrapper_def)
  note len = usbc_length [OF ub]
  have f: "CBWCB c 0 \<in> {0xA2, 0xB5}" "bCBWLUN c AND 0x0f = l" "\<not> lun_max dev < l" "cbw_bytes c = ub_data ub"
    using assms(1) cbw_load_fields(1) [OF len, of 0] cbw_load_fields(2) [OF len] cbw_roundtrip [OF len]
    by (simp_all add: security_wrapper_def c_def l_def not_less)
  then have "CBWCB c 0 \<notin> {0x28, 0x2a}" by auto
  with win_analyse_other assms(5) have c': "c' = c" unfolding c_def by blast
  obtain v where v: "units dev (unat l) = Some v" using assms(2) f(3) by (auto simp: units_ok_def not_less word_le_nat_alt)
  define d1 where "d1 = dev\<lparr>msc_tag := dCBWTag c, lun := l\<rparr>"
  define v1 where "v1 = v\<lparr>command := CBWCB c 0, unit_length := ucast (dCBWDataTransferLength c)\<rparr>"
  have parse: "usbmsc_cbw_parser (win_analyse g ge p0 p1) dev c w = Some (set_unit (unat l) v1 d1, c, w')"
    using v f assms(5) by (auto simp: usbmsc_cbw_parser_def Let_def c' d1_def v1_def c_def [symmetric])
  have hub: "ehci_shadow_buffer garbage False [ub] = Some [\<lparr>ub_pid = ub_pid ub, ub_vadr = True, ub_data = map garbage [0..<ub_len ub]\<rparr>]"
    using len by (simp add: ehci_shadow_buffer_def CBW_SIZE_def PAGESIZE_def)
  have "units (set_unit (unat l) v1 d1) (cur dev) = Some (if l = lun dev then v1 else u)"
    using assms(3) by (auto simp: set_unit_def d1_def word_unat_eq_iff)
  then show ?thesis
    using f(1) assms(4) by (auto simp: usbmsc_shadow_outbuf_def Let_def ub hub parse c_def [symmetric] f(4) l_def [symmetric] v1_def)
qed

text \<open>Data of a WRITE(10) that the guest queues as one buffer that is longer than a sector, but not a whole number of
  sectors, is lost: the driver's temporary copy is taken for a mapped guest buffer, and the device receives the contents that the shadow page had before.\<close>

theorem unaligned_buffer_lost:
  assumes "units dev (cur dev) = Some u" "command u \<in> {0x2a, 0xaa}" "storage_sector_size u = of_nat sz" "0 < sz" "sz < ub_len ub"
    and "\<not> sz dvd ub_len ub" "ub_len ub \<le> PAGESIZE" "\<not> is_usbc ub" "ub_pid ub = USB_PID_OUT" "quiet w"
  shows "\<exists>hub dev' w'. usbmsc_shadow_outbuf analyse garbage [ub] (dev, w) = Some (USB_HOOK_PASS, False, [hub], dev', w') \<and>
    ub_data hub = map garbage [0..<ub_len ub]"
proof -
  define L where "L = ub_len ub"
  define h where "h = \<lparr>ub_pid = ub_pid ub, ub_vadr = True, ub_data = map garbage [0..<L]\<rparr>"
  have L: "L \<le> 4096" "sz < L" using assms(5,7) by (simp_all add: L_def PAGESIZE_def)
  have ne: "ub_data ub \<noteq> []" using L(2) by (auto simp: L_def)
  have md: "L mod sz \<noteq> 0" using assms(6) unfolding L_def mod_eq_0_iff_dvd .
  have "sz < 2 ^ 31" using L by simp
  note s = sector_size_value [OF assms(3,4) this]
  have hub: "ehci_shadow_buffer garbage False [ub] = Some [h]"
    using assms(5,7) by (simp add: ehci_shadow_buffer_def h_def L_def)
  have le: "L div sz * sz \<le> L" "0 < L div sz" using L assms(4) by (simp_all add: div_greater_zero_iff)
  have prod: "(of_nat (L div sz) * of_nat sz :: u32) = of_nat (L div sz * sz)" by simp
  have "L div sz * sz < 2 ^ 32" by (rule order_le_less_trans [OF le(1)]) (use L in simp)
  then have c: "unat (of_nat (L div sz) * of_nat sz :: u32) = L div sz * sz" unfolding prod by (simp add: unat_of_nat del: of_nat_mult)
  have "(of_nat (L div sz) :: u32) \<noteq> 0"
  proof
    assume "(of_nat (L div sz) :: u32) = 0"
    with c have "L div sz * sz = 0" by simp
    then show False using le assms(4) by simp
  qed
  then have "0 < (of_nat (L div sz) :: u32)" by (simp add: word_neq_0_conv)
  from hook_copies [OF assms(10) this, of "of_nat sz" "c_string (ub_data ub)" "c_string (map garbage [0..<L])" True] obtain d' w' where
    hk: "win_ransomtag_storage_handle_sectors (of_nat (L div sz)) (of_nat sz) False (c_string (ub_data ub)) (c_string (map garbage [0..<L])) True w =
      Some (d', w')" "counted w w'" by (elim exE conjE)
  have p: "prepare_buffers sz [ub] [h] garbage = Some (Unaligned, L, ub_data ub, map garbage [0..<L])"
    using L md by (simp add: prepare_buffers_def L_def [symmetric])
  have r: "code_round sz True garbage [h] [ub] w = Some (of_nat (L div sz), [h], 1, w')"
    unfolding code_round_def p bind.bind_lunit prod.case Let_def length_map length_upt diff_zero c ASSERT_def if_P [OF le(1)] hk(1)
    by (simp add: windup_buffers_def h_def)
  have l: "code_loop sz USB_PID_OUT True garbage (unit_length u) [h] [ub] w = Some (of_nat (L div sz), [h], w')"
    using ne assms(9) by (subst code_loop.simps) (simp add: r Let_def)
  show ?thesis
    using assms(1,2,8) s hub l by (auto simp: usbmsc_shadow_outbuf_def outbuf_data_def usbmsc_code_buffers_def Let_def h_def L_def)
qed

text \<open>A guest can bring the hypervisor down: a WRITE(10) of no blocks before the sector size of the unit is known, followed by
  any data, divides by zero.\<close>

theorem zero_blocks_fatal:
  assumes "write_wrapper 0 0 dev ub" "win_analyse g ge p0 p1 (cbw_load (ub_data ub), w) = Some (c', w')"
    and "data \<noteq> []" "\<not> is_usbc (hd data)"
  shows "out_run (win_analyse g ge p0 p1) garbage [[ub]] (dev, w) \<noteq> None \<and>
    out_run (win_analyse g ge p0 p1) garbage [[ub], data] (dev, w) = None"
proof -
  from win.wrapper_step [OF assms(1) _ assms(2), of garbage]
  obtain hub dev1 u1 where
    s: "usbmsc_shadow_outbuf (win_analyse g ge p0 p1) garbage [ub] (dev, w) = Some (USB_HOOK_PASS, False, [hub], dev1, w')"
      "cur dev1 = cur dev" "units dev1 (cur dev1) = Some u1" "storage_sector_size u1 = 0" "n_blocks u1 = 0" "command u1 = 0x2a"
    by (auto simp: remaining_def unat_eq_zero)
  have "usbmsc_shadow_outbuf (win_analyse g ge p0 p1) garbage data (dev1, w') = None"
    using s assms(3,4)
    by (cases "ehci_shadow_buffer garbage False data") (simp_all add: usbmsc_shadow_outbuf_def outbuf_data_def usbmsc_code_buffers_def Let_def)
  with s(1) show ?thesis by simp
qed

section \<open>Examples\<close>

text \<open>A device with two units, the first with sectors of 512 bytes, and a wrapper.\<close>

definition device_demo :: "u32 \<Rightarrow> usbmsc_device" where
  "device_demo sz = \<lparr>msc_tag = 0, lun_max = 1, lun = 0, units = (\<lambda>_. Some (new_unit\<lparr>storage_sector_size := sz\<rparr>))\<rparr>"

definition wrapper_demo :: "u8 \<Rightarrow> u8 \<Rightarrow> u8 \<Rightarrow> u8 \<Rightarrow> usb_buffer" where
  "wrapper_demo unit op blocks bytes = \<lparr>ub_pid = USB_PID_OUT, ub_vadr = False, ub_data =
     [0x55, 0x53, 0x42, 0x43, 1, 0, 0, 0, 0, bytes, 0, 0, 0, unit, 10, op, 0, 0, 0, 0, 40, 0, 0, blocks, 0, 0, 0, 0, 0, 0, 0]\<rparr>"

definition data_demo :: "nat \<Rightarrow> u8 \<Rightarrow> usb_buffer" where
  "data_demo n x = \<lparr>ub_pid = USB_PID_OUT, ub_vadr = False, ub_data = replicate n x\<rparr>"

lemma demo_wrapper [simp]: "is_usbc (wrapper_demo unit op blocks bytes)" "ub_data (wrapper_demo unit op blocks bytes) ! 15 = op"
  "ub_data (wrapper_demo unit op blocks bytes) ! 13 = unit" "ub_data (wrapper_demo unit op blocks bytes) ! 21 = 0"
  "CBWCB (cbw_load (ub_data (wrapper_demo unit op blocks bytes))) 0 = op"
  "cbw_lba (cbw_load (ub_data (wrapper_demo unit op blocks bytes))) = 40"
  by (simp_all add: wrapper_demo_def is_usbc_def CBW_SIZE_def cbw_load_def c_string_def cbw_lba_def)

lemma demo_not_usbc [simp]: "0 < n \<Longrightarrow> x \<noteq> 0x55 \<Longrightarrow> \<not> is_usbc (data_demo n x)"
  by (cases n) (simp_all add: data_demo_def is_usbc_def)

lemma quiet_boot [simp]: "quiet win_boot"
  by (simp add: quiet_def win_boot_def)

text \<open>Processes whose request is not for the file table.\<close>

definition no_mft :: "win_process_info \<Rightarrow> win_process_info" where
  "no_mft p = p\<lparr>IrpInfo := (\<lambda>k. (IrpInfo p k)\<lparr>FileObjectInfo := (FileObjectInfo (IrpInfo p k))\<lparr>is_MFT := False\<rparr>\<rparr>)\<rparr>"

lemma demo_analyse:
  assumes "CBWCB c 0 \<noteq> 0x28" "cbw_lba c = 40"
  shows "\<exists>c'. win_analyse guest_demo ge (no_mft p0) p1 (c, s) = Some (c', s)"
proof -
  obtain b p where p: "win_get_CurrentProcessInfo guest_demo ge (no_mft p0) = (b, p)"
    by (cases "win_get_CurrentProcessInfo guest_demo ge (no_mft p0)")
  have "\<not> is_MFT (FileObjectInfo (IrpInfo p 0))"
    using p guest_demo_process(1) [of ge "no_mft p0"]
    by (auto simp: win_get_CurrentProcessInfo_def no_mft_def Let_def split: if_splits)
  then show ?thesis
    using guest_demo_irps [of "ge 4" _ ge "no_mft p0"] guest_demo_process(1) [of ge "no_mft p0"] assms p
    by (simp add: win_analyse_def win_DetermineTag_def NTFS_MFT_START_LBA_def NTFS_MFT_END_LBA_def)
qed

theorem write_command_passes_witness:
  "\<forall>ge p0 p1 garbage. \<exists>c' hubs dev' u' w'. win_analyse guest_demo ge (no_mft p0) p1 (cbw_load (ub_data (wrapper_demo 0 0x2a 3 6)), win_boot) = Some (c', win_boot) \<and>
     out_run (win_analyse guest_demo ge (no_mft p0) p1) garbage
      [[wrapper_demo 0 0x2a 3 6], [data_demo 512 1], [data_demo 700 2, data_demo 324 3]] (device_demo 512, win_boot) = Some (hubs, dev', w') \<and>
    map (map ub_data) hubs = [[(ub_data (wrapper_demo 0 0x2a 3 6))[21 := CBWCB c' 6]], [replicate 512 1], [replicate 700 2, replicate 324 3]] \<and>
    units dev' 0 = Some u' \<and> unat (n_blocks u') = 0 \<and> unit_lba u' = 43"
proof (intro allI)
  fix ge p0 p1 garbage
  define c where "c = cbw_load (ub_data (wrapper_demo 0 0x2a 3 6))"
  have "CBWCB c 0 \<noteq> 0x28" "cbw_lba c = 40" by (simp_all add: c_def)
  from demo_analyse [OF this, of ge p0 p1 win_boot] obtain c' where
    an: "win_analyse guest_demo ge (no_mft p0) p1 (c, win_boot) = Some (c', win_boot)" by (elim exE)
  have w: "write_wrapper 512 3 (device_demo 512) (wrapper_demo 0 0x2a 3 6)"
    by (simp add: write_wrapper_def device_demo_def wrapper_demo_def is_usbc_def CBW_SIZE_def cbw_load_def c_string_def le_load_def upt_rec)
  have t: "list_all (data_transfer 512) [[data_demo 512 1], [data_demo 700 2, data_demo 324 3]]"
    by (simp add: data_transfer_def) (simp add: data_demo_def PAGESIZE_def)
  have l: "transfers_len [[data_demo 512 1], [data_demo 700 2, data_demo 324 3]] = 512 * 3" by (simp add: data_demo_def)
  from write_command_passes [OF w _ _ _ an [unfolded c_def] quiet_boot t l, of garbage]
  show "\<exists>c' hubs dev' u' w'. win_analyse guest_demo ge (no_mft p0) p1 (cbw_load (ub_data (wrapper_demo 0 0x2a 3 6)), win_boot) = Some (c', win_boot) \<and>
     out_run (win_analyse guest_demo ge (no_mft p0) p1) garbage
      [[wrapper_demo 0 0x2a 3 6], [data_demo 512 1], [data_demo 700 2, data_demo 324 3]] (device_demo 512, win_boot) = Some (hubs, dev', w') \<and>
    map (map ub_data) hubs = [[(ub_data (wrapper_demo 0 0x2a 3 6))[21 := CBWCB c' 6]], [replicate 512 1], [replicate 700 2, replicate 324 3]] \<and>
    units dev' 0 = Some u' \<and> unat (n_blocks u') = 0 \<and> unit_lba u' = 43"
    using an unfolding c_def by (simp add: device_demo_def) (simp add: data_demo_def, metis)
qed

theorem security_commands_pass_witness:
  "\<forall>ge p0 p1 garbage. \<exists>hub dev' w'. usbmsc_shadow_outbuf (win_analyse guest_demo ge (no_mft p0) p1) garbage [wrapper_demo 1 0xB5 0 0] (device_demo 512, win_boot) =
    Some (USB_HOOK_PASS, False, [hub], dev', w') \<and> ub_data hub = ub_data (wrapper_demo 1 0xB5 0 0)"
proof (intro allI)
  fix ge p0 p1 garbage
  define c where "c = cbw_load (ub_data (wrapper_demo 1 0xB5 0 0))"
  have "CBWCB c 0 \<noteq> 0x28" "cbw_lba c = 40" by (simp_all add: c_def)
  from demo_analyse [OF this, of ge p0 p1 win_boot] obtain c' where
    an: "win_analyse guest_demo ge (no_mft p0) p1 (c, win_boot) = Some (c', win_boot)" by (elim exE)
  have s: "security_wrapper (device_demo 512) (wrapper_demo 1 0xB5 0 0)" "units_ok (device_demo 512)"
    "units (device_demo 512) (cur (device_demo 512)) = Some (new_unit\<lparr>storage_sector_size := 512\<rparr>)"
    "command (new_unit\<lparr>storage_sector_size := 512\<rparr>) \<notin> {0xA2, 0xB5}"
    by (simp_all add: security_wrapper_def device_demo_def units_ok_def USBMSC_LUN_MAX_def new_unit_def)
  from security_commands_pass [OF s an [unfolded c_def], of garbage]
  show "\<exists>hub dev' w'. usbmsc_shadow_outbuf (win_analyse guest_demo ge (no_mft p0) p1) garbage [wrapper_demo 1 0xB5 0 0] (device_demo 512, win_boot) =
    Some (USB_HOOK_PASS, False, [hub], dev', w') \<and> ub_data hub = ub_data (wrapper_demo 1 0xB5 0 0)"
    by (auto simp: device_demo_def)
qed

theorem unaligned_buffer_lost_witness:
  "\<forall>analyse garbage. \<exists>hub s'. usbmsc_shadow_outbuf analyse garbage [data_demo 700 7]
      (set_unit 0 (new_unit\<lparr>storage_sector_size := 512, command := 0x2a\<rparr>) (device_demo 512), win_boot) = Some (USB_HOOK_PASS, False, [hub], s') \<and>
    ub_data hub = map garbage [0..<700]"
proof (intro allI)
  fix analyse garbage
  have "units (set_unit 0 (new_unit\<lparr>storage_sector_size := 512, command := 0x2a\<rparr>) (device_demo 512))
      (cur (set_unit 0 (new_unit\<lparr>storage_sector_size := 512, command := 0x2a\<rparr>) (device_demo 512))) =
    Some (new_unit\<lparr>storage_sector_size := 512, command := 0x2a\<rparr>)" by (simp add: device_demo_def)
  from unaligned_buffer_lost [OF this, of 512 "data_demo 700 7" win_boot analyse garbage]
  show "\<exists>hub s'. usbmsc_shadow_outbuf analyse garbage [data_demo 700 7]
      (set_unit 0 (new_unit\<lparr>storage_sector_size := 512, command := 0x2a\<rparr>) (device_demo 512), win_boot) = Some (USB_HOOK_PASS, False, [hub], s') \<and>
    ub_data hub = map garbage [0..<700]"
    by (simp add: data_demo_def PAGESIZE_def is_usbc_def CBW_SIZE_def)
qed

theorem zero_blocks_fatal_witness:
  "\<forall>ge p0 p1 garbage. out_run (win_analyse guest_demo ge (no_mft p0) p1) garbage [[wrapper_demo 0 0x2a 0 0], [data_demo 512 1]] (new_device, win_boot) = None"
proof (intro allI)
  fix ge p0 p1 garbage
  define c where "c = cbw_load (ub_data (wrapper_demo 0 0x2a 0 0))"
  have "CBWCB c 0 \<noteq> 0x28" "cbw_lba c = 40" by (simp_all add: c_def)
  from demo_analyse [OF this, of ge p0 p1 win_boot] obtain c' where
    an: "win_analyse guest_demo ge (no_mft p0) p1 (c, win_boot) = Some (c', win_boot)" by (elim exE)
  have w: "write_wrapper 0 0 new_device (wrapper_demo 0 0x2a 0 0)"
    by (simp add: write_wrapper_def new_device_def new_unit_def wrapper_demo_def is_usbc_def CBW_SIZE_def cbw_load_def c_string_def le_load_def upt_rec)
  from zero_blocks_fatal [OF w an [unfolded c_def], of "[data_demo 512 1]" garbage]
  show "out_run (win_analyse guest_demo ge (no_mft p0) p1) garbage [[wrapper_demo 0 0x2a 0 0], [data_demo 512 1]] (new_device, win_boot) = None"
    by simp
qed

theorem wrapper_only_tagged_witness:
  "\<forall>ge p0 p1 garbage. \<exists>x hub s'. usbmsc_shadow_outbuf (win_analyse guest_demo ge (no_mft p0) p1) garbage [wrapper_demo 0 0x2a 3 6] (device_demo 512, win_boot) =
    Some (USB_HOOK_PASS, False, hub, s') \<and> ub_data (hd hub) = (ub_data (wrapper_demo 0 0x2a 3 6))[21 := x]"
proof (intro allI)
  fix ge p0 p1 garbage
  define c where "c = cbw_load (ub_data (wrapper_demo 0 0x2a 3 6))"
  have "CBWCB c 0 \<noteq> 0x28" "cbw_lba c = 40" by (simp_all add: c_def)
  from demo_analyse [OF this, of ge p0 p1 win_boot] obtain c' where
    an: "win_analyse guest_demo ge (no_mft p0) p1 (c, win_boot) = Some (c', win_boot)" by (elim exE)
  have w: "write_wrapper 512 3 (device_demo 512) (wrapper_demo 0 0x2a 3 6)"
    by (simp add: write_wrapper_def device_demo_def wrapper_demo_def is_usbc_def CBW_SIZE_def cbw_load_def c_string_def le_load_def upt_rec)
  from win.wrapper_step [OF w _ an [unfolded c_def], of garbage]
  obtain hub dev1 where
    s: "usbmsc_shadow_outbuf (win_analyse guest_demo ge (no_mft p0) p1) garbage [wrapper_demo 0 0x2a 3 6] (device_demo 512, win_boot) =
      Some (USB_HOOK_PASS, False, [hub], dev1, win_boot)" by auto
  from wrapper_only_tagged [OF demo_wrapper(1) s] s
  show "\<exists>x hub s'. usbmsc_shadow_outbuf (win_analyse guest_demo ge (no_mft p0) p1) garbage [wrapper_demo 0 0x2a 3 6] (device_demo 512, win_boot) =
    Some (USB_HOOK_PASS, False, hub, s') \<and> ub_data (hd hub) = (ub_data (wrapper_demo 0 0x2a 3 6))[21 := x]"
    by blast
qed

theorem driver_units_exist_witness:
  "\<forall>w. units (set_unit 1 new_unit (new_device\<lparr>lun_max := 1\<rparr>)) 1 \<noteq> None"
proof
  fix w
  have "usbmsc_getmaxlun [\<lparr>ub_pid = USB_PID_IN, ub_vadr = False, ub_data = [1]\<rparr>] new_device = Some (set_unit 1 new_unit (new_device\<lparr>lun_max := 1\<rparr>))"
    by (auto simp: usbmsc_getmaxlun_def new_device_def set_unit_def c_string_def USBMSC_LUN_MAX_def)
  then have "mscd_step\<^sup>*\<^sup>* (new_device, w) (set_unit 1 new_unit (new_device\<lparr>lun_max := 1\<rparr>), w)" by (intro r_into_rtranclp mscd_step.luns)
  from driver_units_exist [OF this] show "units (set_unit 1 new_unit (new_device\<lparr>lun_max := 1\<rparr>)) 1 \<noteq> None" by (simp add: set_unit_def)
qed

end
