(* ===== verification/Detect_Evasion.thy ===== *)
theory Detect_Evasion
  imports Detect_Ext4
begin

text \<open>
  How a guest misleads the ext4 side of the detection, drivers/usb/ransomtag.c: \<open>parse_inode_trigger\<close> is set by the first
  access to an inode table and nothing clears it, so from then on every piece of data that passes is parsed as inodes. File
  contents that look like the inode of a directory make the block of their choice count as directory data, and writes to
  it leave the module as metadata.
\<close>

inductive linux_step :: "linux_state \<Rightarrow> linux_state \<Rightarrow> bool" where
  command: "linux_analyse_cbw c s = Some (c', s') \<Longrightarrow> linux_step s s'"
| data: "linux_ransomtag_storage_handle_sectors count sector_size same src dst s = Some (dst', s') \<Longrightarrow> linux_step s s'"

section \<open>What only grows\<close>

text \<open>The trigger and the directory extents; the arrays of the groups have no part in them.\<close>

definition grows :: "linux_state \<Rightarrow> linux_state \<Rightarrow> bool" where
  "grows s s' \<longleftrightarrow> (parse_inode_trigger s \<longrightarrow> parse_inode_trigger s') \<and>
     dir_extents (dir_inode_extent_block s) \<subseteq> dir_extents (dir_inode_extent_block s')"

lemma grows_refl [simp]: "grows s s"
  by (simp add: grows_def)

lemma grows_trans [trans]: "grows s s' \<Longrightarrow> grows s' s'' \<Longrightarrow> grows s s''"
  by (auto simp: grows_def)

lemma grows_same: "parse_inode_trigger s' = parse_inode_trigger s \<Longrightarrow> dir_inode_extent_block s' = dir_inode_extent_block s \<Longrightarrow> grows s s'"
  by (simp add: grows_def)

lemma extent_search_stop:
  assumes "extent_search n block t i = Some (found, k)"
  shows "i \<le> k \<and> (\<forall>j. i \<le> j \<and> j < k \<longrightarrow> t j \<noteq> 0) \<and> (if found then t k = block \<and> t k \<noteq> 0 else t k = 0)"
  using assms
proof (induction n arbitrary: i)
  case (Suc n)
  show ?case
  proof (cases "t i = 0 \<or> t i = block")
    case True
    then show ?thesis using Suc.prems by (auto split: if_splits)
  next
    case False
    with Suc.prems have "extent_search n block t (i + 1) = Some (found, k)" by simp
    from Suc.IH [OF this] False show ?thesis by (auto simp: Suc_le_eq) (metis Suc_leI le_neq_implies_less)+
  qed
qed simp

lemma add_extent:
  assumes "linux_add_to_dir_inode_extent_block block t = Some (r, t')"
  shows "dir_extents t \<subseteq> dir_extents t' \<and> (block \<noteq> 0 \<longrightarrow> block \<in> dir_extents t')"
proof (cases "block = 0")
  case True
  then show ?thesis using assms by (simp add: linux_add_to_dir_inode_extent_block_def)
next
  case False
  then obtain found i where f: "extent_search DIR_EXTENTS block t 0 = Some (found, i)" "t' = (if found then t else t(i := block))"
    using assms by (auto simp: linux_add_to_dir_inode_extent_block_def split: Option.bind_splits)
  from extent_search_stop [OF f(1)] have s: "\<forall>j < i. t j \<noteq> 0" "if found then t i = block \<and> t i \<noteq> 0 else t i = 0" by auto
  show ?thesis
  proof (cases found)
    case True
    have "\<forall>j \<le> i. t j \<noteq> 0" using s True by (auto simp: le_less)
    then have "t i \<in> dir_extents t" by (auto simp: dir_extents_def)
    then show ?thesis using True s(2) f(2) by simp
  next
    case False
    have t': "t' = t(i := block)" using False f(2) by simp
    have "\<forall>j \<le> i. t' j \<noteq> 0" using s(1) \<open>block \<noteq> 0\<close> by (auto simp: t' le_less)
    then have "t' i \<in> dir_extents t'" by (auto simp: dir_extents_def)
    moreover have "dir_extents t \<subseteq> dir_extents t'"
    proof
      fix b assume "b \<in> dir_extents t"
      then obtain k where k: "b = t k" "\<forall>j \<le> k. t j \<noteq> 0" by (auto simp: dir_extents_def)
      then have "k < i" using s(2) False by (metis not_le)
      then have "t' k = b" "\<forall>j \<le> k. t' j \<noteq> 0" using k by (auto simp: t')
      then show "b \<in> dir_extents t'" by (auto simp: dir_extents_def)
    qed
    ultimately show ?thesis by (simp add: t')
  qed
qed

lemma parse_inodes_grow: "parse_inodes dst isz n p t = Some t' \<Longrightarrow> dir_extents t \<subseteq> dir_extents t'"
proof (induction n arbitrary: p t)
  case (Suc n)
  from Suc.prems obtain u where u: "parse_inodes dst isz n (p + isz) u = Some t'"
    "u = t \<or> (\<exists>r. linux_add_to_dir_inode_extent_block (le_at dst (p + 60) 4) t = Some (r, u))"
    by (auto split: Option.bind_splits if_splits)
  have "dir_extents t \<subseteq> dir_extents u" using u(2) add_extent by blast
  with Suc.IH [OF u(1)] show ?case by blast
qed simp

lemma group_desc_loop_same:
  assumes "group_desc_loop buf p s = Some (r, s')"
  shows "parse_inode_trigger s' = parse_inode_trigger s \<and> dir_inode_extent_block s' = dir_inode_extent_block s"
proof -
  have "parse_inode_trigger (snd (r, s')) = parse_inode_trigger s \<and> dir_inode_extent_block (snd (r, s')) = dir_inode_extent_block s"
  proof (rule group_desc_loop.raw_induct [OF _ assms, where P = "\<lambda>buf p s y.
      parse_inode_trigger (snd y) = parse_inode_trigger s \<and> dir_inode_extent_block (snd y) = dir_inode_extent_block s"])
  qed (fastforce simp: Let_def split: Option.bind_splits if_splits)
  then show ?thesis by simp
qed

lemma note_metadata_grows: "grows s (linux_note_metadata_read lba len s)"
  by (rule grows_same) (auto simp: linux_note_metadata_read_def)

lemma note_inodes_grows: "grows s (linux_note_inodes c s)"
  by (simp add: grows_def linux_note_inodes_def)

lemma read_tag_grows: "grows s (snd (linux_read_tag lba (c, s)))"
  by (rule grows_same) (simp_all add: linux_read_tag_def)

lemma analyse_grows:
  assumes "linux_analyse_cbw c s = Some (c', s')"
  shows "grows s s'"
proof -
  define s1 where "s1 = s\<lparr>sector_index := ucast (cbw_lba c)\<rparr>"
  have s1: "grows s s1" by (rule grows_same) (simp_all add: s1_def)
  consider (read) "CBWCB c 0 = 0x28" | (write_data) "CBWCB c 0 = 0x2a" | (other) "CBWCB c 0 \<notin> {0x28, 0x2a}" by blast
  then have "grows s1 s'"
  proof cases
    case read
    define s2 where "s2 = linux_note_metadata_read (cbw_lba c) (dCBWDataTransferLength c) s1"
    note a = assms [unfolded linux_analyse_cbw_def Let_def, folded s1_def, folded s2_def]
    from a read obtain it where "linux_read_tag (cbw_lba c) (c, if it then linux_note_inodes c s2 else s2) = (c', s')"
      by (auto split: Option.bind_splits)
    then have "s' = snd (linux_read_tag (cbw_lba c) (c, if it then linux_note_inodes c s2 else s2))" by simp
    then have "grows (if it then linux_note_inodes c s2 else s2) s'" using read_tag_grows by simp
    moreover have "grows s2 (if it then linux_note_inodes c s2 else s2)" using note_inodes_grows by simp
    moreover have "grows s1 s2" unfolding s2_def by (rule note_metadata_grows)
    ultimately show ?thesis using grows_trans by blast
  next
    case write_data
    then have "s' = s1 \<or> s' = linux_note_inodes c s1"
      using assms by (auto simp: linux_analyse_cbw_def Let_def s1_def [symmetric] split: Option.bind_splits if_splits)
    then show ?thesis using note_inodes_grows by auto
  next
    case other
    then show ?thesis using assms by (auto simp: linux_analyse_cbw_def Let_def s1_def)
  qed
  with s1 show ?thesis using grows_trans by blast
qed

text \<open>The parts of the data hook.\<close>

definition hook_super :: "bytes \<Rightarrow> u32 \<Rightarrow> linux_state \<Rightarrow> linux_state" where
  "hook_super d len s = (if read_ext4_metadata s then snd (linux_parse_ext4_superblock d len s) else s)"

definition hook_groups :: "bytes \<Rightarrow> linux_state \<Rightarrow> linux_state option" where
  "hook_groups d s = (if read_group_desc_metadata s \<and> super_block_loaded s then map_option snd (linux_parse_ext4_group_desc d s) else Some s)"

definition hook_inodes :: "bytes \<Rightarrow> u32 \<Rightarrow> linux_state \<Rightarrow> linux_state option" where
  "hook_inodes d len s =
     (if parse_inode_trigger s \<and> super_block_loaded s \<and> group_desc_loaded s then do {
        ASSERT (unat (s_inode_size (super_block s)) \<noteq> 0);
        t \<leftarrow> parse_inodes d (unat (s_inode_size (super_block s))) (unat len div unat (s_inode_size (super_block s))) 0 (dir_inode_extent_block s);
        Some (s\<lparr>dir_inode_extent_block := t\<rparr>) }
      else Some s)"

lemma hook_split:
  assumes "0 < count"
  shows "linux_ransomtag_storage_handle_sectors count sz False src dst s = do {
    let d = memcpy_bytes (unat (count * sz)) src dst;
    s2 \<leftarrow> hook_groups d (hook_super d (count * sz) s);
    s3 \<leftarrow> hook_inodes d (count * sz) s2;
    Some (d, s3\<lparr>sector_index := sector_index s3 + ucast count\<rparr>) }"
  using assms
  by (simp add: linux_ransomtag_storage_handle_sectors_def hook_super_def hook_groups_def hook_inodes_def Let_def cong: if_cong)

lemma hook_grows:
  assumes "linux_ransomtag_storage_handle_sectors count sz same src dst s = Some (dst', s')"
  shows "grows s s'"
proof (cases "0 < count \<and> \<not> same")
  case False
  then show ?thesis using assms by (intro grows_same) (auto simp: linux_ransomtag_storage_handle_sectors_def)
next
  case True
  define d where "d = memcpy_bytes (unat (count * sz)) src dst"
  define s1 where "s1 = hook_super d (count * sz) s"
  from assms True hook_split [of count sz src dst s, folded d_def] obtain s2 s3 where
    s2: "hook_groups d s1 = Some s2" and s3: "hook_inodes d (count * sz) s2 = Some s3"
    and s': "s' = s3\<lparr>sector_index := sector_index s3 + ucast count\<rparr>"
    unfolding d_def [symmetric] Let_def s1_def [symmetric] by (auto split: Option.bind_splits)
  have "grows s s1" by (rule grows_same) (auto simp: s1_def hook_super_def linux_parse_ext4_superblock_def)
  moreover have "grows s1 s2"
    using s2 by (intro grows_same) (auto simp: hook_groups_def linux_parse_ext4_group_desc_def Let_def
        split: Option.bind_splits if_splits dest!: group_desc_loop_same)
  moreover have "grows s2 s3"
    using s3 by (auto simp: hook_inodes_def grows_def split: Option.bind_splits if_splits dest!: parse_inodes_grow)
  moreover have "grows s3 s'" by (rule grows_same) (simp_all add: s')
  ultimately show ?thesis using grows_trans by blast
qed

lemma linux_step_grows: "linux_step s s' \<Longrightarrow> grows s s'"
  by (induction rule: linux_step.induct) (auto intro: analyse_grows hook_grows)

lemma linux_steps_grow: "linux_step\<^sup>*\<^sup>* s s' \<Longrightarrow> grows s s'"
  by (induction rule: rtranclp_induct) (auto intro: grows_trans linux_step_grows)

section \<open>Forged inodes\<close>

text \<open>Data whose first bytes look like the inode of a directory with one extent at \<open>block\<close>.\<close>

definition forged_inode :: "u32 \<Rightarrow> bytes \<Rightarrow> bool" where
  "forged_inode block d \<longleftrightarrow> (le_at d 0 2 :: u16) AND 0x4000 \<noteq> 0 \<and> (le_at d 40 2 :: u16) = 0xF30A \<and> le_at d 60 4 = block \<and> block \<noteq> 0"

text \<open>The module has loaded the superblock and the group descriptors and has seen an access to an inode table.\<close>

definition module_running :: "linux_state \<Rightarrow> bool" where
  "module_running s \<longleftrightarrow> parse_inode_trigger s \<and> super_block_loaded s \<and> group_desc_loaded s \<and>
     \<not> read_ext4_metadata s \<and> \<not> read_group_desc_metadata s \<and> 64 \<le> unat (s_inode_size (super_block s))"

lemma hook_forged:
  assumes "module_running s" "forged_inode block src" "0 < count" "unat (s_inode_size (super_block s)) \<le> unat (count * sz)"
    and "linux_ransomtag_storage_handle_sectors count sz False src dst s = Some (dst', s')"
  shows "block \<in> dir_extents (dir_inode_extent_block s')"
proof -
  define isz where "isz = unat (s_inode_size (super_block s))"
  define d where "d = memcpy_bytes (unat (count * sz)) src dst"
  have isz: "64 \<le> isz" "isz \<le> unat (count * sz)" using assms(1,4) by (simp_all add: isz_def module_running_def)
  then obtain n where n: "unat (count * sz) div isz = Suc n" by (metis div_greater_zero_iff gr0_conv_Suc less_le_trans zero_less_numeral)
  have "d k = src k" if "k < 64" for k using that isz by (simp add: d_def memcpy_bytes_def)
  then have same: "(le_at d 0 2 :: u16) = le_at src 0 2" "(le_at d 40 2 :: u16) = le_at src 40 2" "(le_at d 60 4 :: u32) = le_at src 60 4"
    unfolding le_at_def by (intro le_load_cong; simp)+
  from assms(5) hook_split [OF assms(3), of sz src dst s, folded d_def] obtain s3 where
    s3: "hook_inodes d (count * sz) s = Some s3" "s' = s3\<lparr>sector_index := sector_index s3 + ucast count\<rparr>"
    using assms(1) unfolding d_def [symmetric] Let_def
    by (auto simp: hook_super_def hook_groups_def module_running_def split: Option.bind_splits)
  then obtain t where t: "parse_inodes d isz (Suc n) 0 (dir_inode_extent_block s) = Some t" "s3 = s\<lparr>dir_inode_extent_block := t\<rparr>"
    using assms(1) n by (auto simp: hook_inodes_def module_running_def isz_def split: Option.bind_splits)
  then obtain r u where u: "linux_add_to_dir_inode_extent_block block (dir_inode_extent_block s) = Some (r, u)"
    "parse_inodes d isz n isz u = Some t"
    using assms(2) same by (auto simp: forged_inode_def split: Option.bind_splits)
  have "block \<in> dir_extents u" using add_extent [OF u(1)] assms(2) by (simp add: forged_inode_def)
  then show ?thesis using parse_inodes_grow [OF u(2)] t(2) s3(2) by auto
qed

text \<open>C39: Once the module has seen an inode table, a guest program that writes (or reads) a file whose contents look like a directory's
  inode makes any block of its choice count as directory data for ever: whatever the module handles afterwards, a write to that block,
  in the first 2 to the 23 sectors and at a time when the module's tables are those of \<open>linux_write_tagged\<close>, leaves it with the metadata
  tag instead of the ransomware tag, so the SSD does not treat it as suspicious.\<close>

theorem forged_inode_evades:
  assumes "module_running s" "forged_inode block src" "0 < count" "unat (s_inode_size (super_block s)) \<le> unat (count * sz)"
    and "linux_ransomtag_storage_handle_sectors count sz False src dst s = Some (dst', s1)"
    and "linux_step\<^sup>*\<^sup>* s1 s2" "ext4_tables_ok s2"
    and "CBWCB c 0 = 0x2a" "CBWCB c 6 = 0" "unat (cbw_lba c) < 0x800000" "cbw_lba c div 8 = block"
  shows "\<exists>c' s3. linux_analyse_cbw c s2 = Some (c', s3) \<and> CheckTag (CBWCB c' 6) = 2 \<and> parse_inode_trigger s3"
proof -
  have "block \<in> dir_extents (dir_inode_extent_block s1)" by (rule hook_forged [OF assms(1-5)])
  then have "block \<in> dir_extents (dir_inode_extent_block s2)" using linux_steps_grow [OF assms(6)] by (auto simp: grows_def)
  then have "cbw_lba c \<in> metadata_sectors s2" using assms(11) by (simp add: metadata_sectors_def)
  then have "cbw_lba c \<in> taken_for_metadata s2" using taken_for_metadata_small [OF assms(10)] by simp
  with linux_write_step [OF assms(7,8,9)] obtain c' s3 where
    c': "linux_analyse_cbw c s2 = Some (c', s3)" "CheckTag (CBWCB c' 6) = 2" by auto
  have "parse_inode_trigger s1" using hook_grows [OF assms(5)] assms(1) by (simp add: grows_def module_running_def)
  then have "parse_inode_trigger s3" using linux_steps_grow [OF assms(6)] analyse_grows [OF c'(1)] by (simp add: grows_def)
  with c' show ?thesis by blast
qed

section \<open>An example\<close>

definition forged_demo :: bytes where
  "forged_demo = (\<lambda>k. if k = 1 then 0x40 else if k = 40 then 0x0A else if k = 41 then 0xF3 else if k = 60 then 5 else 0)"

definition running_demo :: linux_state where
  "running_demo = ext4_demo\<lparr>parse_inode_trigger := True, super_block_loaded := True, group_desc_loaded := True\<rparr>"

lemma running_demo_ok: "module_running running_demo" "s_inode_size (super_block running_demo) = 256"
  by (simp_all add: module_running_def running_demo_def ext4_demo_def linux_start_def)

lemma forged_demo_inode: "forged_inode 5 forged_demo" "unat ((le_at forged_demo 256 2 :: u16) AND 0x4000) = 0"
  by (simp_all add: forged_inode_def le_at_def le_load_def forged_demo_def upt_rec)

definition dirs_demo :: "nat \<Rightarrow> u32" where
  "dirs_demo = (dir_inode_extent_block running_demo)(1 := 5)"

lemma hook_demo: "linux_ransomtag_storage_handle_sectors 1 512 False forged_demo (\<lambda>_. 0) running_demo =
  Some (memcpy_bytes 512 forged_demo (\<lambda>_. 0), running_demo\<lparr>dir_inode_extent_block := dirs_demo, sector_index := 1\<rparr>)"
proof -
  define d where "d = memcpy_bytes 512 forged_demo (\<lambda>_. 0)"
  have d: "(le_at d 0 2 :: u16) = 0x4000" "(le_at d 40 2 :: u16) = 0xF30A" "(le_at d 60 4 :: u32) = 5" "(le_at d 256 2 :: u16) = 0"
    by (simp_all add: d_def memcpy_bytes_def le_at_def le_load_def forged_demo_def upt_rec)
  have t: "dir_inode_extent_block running_demo = (\<lambda>i. if i = 0 then 5000 else 0)"
    by (simp add: running_demo_def ext4_demo_def)
  have "extent_search DIR_EXTENTS 5 (\<lambda>i. if i = 0 then 5000 else 0) 0 = Some (False, 1)"
  proof -
    have e: "DIR_EXTENTS = Suc (Suc 498)" by simp
    show ?thesis unfolding e extent_search.simps by simp
  qed
  then have a: "linux_add_to_dir_inode_extent_block 5 (dir_inode_extent_block running_demo) = Some (1, dirs_demo)"
    by (simp add: linux_add_to_dir_inode_extent_block_def t dirs_demo_def)
  have "parse_inodes d 256 2 0 (dir_inode_extent_block running_demo) = Some dirs_demo"
    unfolding numeral_2_eq_2 by (simp add: d a)
  then have "hook_inodes d 512 running_demo = Some (running_demo\<lparr>dir_inode_extent_block := dirs_demo\<rparr>)"
    using running_demo_ok by (simp add: hook_inodes_def module_running_def)
  moreover have "hook_groups d (hook_super d 512 running_demo) = Some running_demo"
    using running_demo_ok by (simp add: hook_groups_def hook_super_def module_running_def)
  moreover have "sector_index running_demo = 0" by (simp add: running_demo_def ext4_demo_def linux_start_def)
  ultimately show ?thesis by (simp add: hook_split d_def)
qed

theorem forged_inode_evades_witness:
  "\<exists>dst' s1 c' s3. linux_ransomtag_storage_handle_sectors 1 512 False forged_demo (\<lambda>_. 0) running_demo = Some (dst', s1) \<and>
     linux_analyse_cbw (demo_cbw 0x2a 40) s1 = Some (c', s3) \<and> CheckTag (CBWCB c' 6) = 2"
proof -
  define s1 where "s1 = running_demo\<lparr>dir_inode_extent_block := dirs_demo, sector_index := 1\<rparr>"
  have "ext4_tables_ok ext4_demo" by (rule ext4_demo_ok(1))
  then have "ext4_tables_ok s1"
    by (auto simp: ext4_tables_ok_def s1_def running_demo_def itable_blocks_count_def dirs_demo_def ext4_demo_def intro: exI [of _ 2])
  from forged_inode_evades [OF running_demo_ok(1) forged_demo_inode(1) _ _ hook_demo [folded s1_def] rtranclp.rtrancl_refl this, of "demo_cbw 0x2a 40"]
  show ?thesis using running_demo_ok(2) hook_demo s1_def by (auto simp: demo_cbw_def cbw_lba_def)
qed

end
