(* ===== verification/Recover_Ext4.thy ===== *)
theory Recover_Ext4
  imports Prelude
begin

unbundle bit_operations_syntax

text \<open>
  The recovery tool for ext4, 03.Recovery tool/ext4/ransomtag-recover.py: reading the blocks of a file from its inode (extent
  tree or block pointers), the entries of a directory block, and \<open>recover_file\<close>, which announces itself to the
  detection module by reads of fixed blocks and then writes every retained version of every file of a snapshot.

  A computation is \<open>None\<close> when Python raises an exception; all loops but one run over a list or a count. The loop over a directory block
  may run for ever: there \<open>None\<close> is not returning, and an exception is a left value of the result. The device behind \<open>directio.pread\<close> is the argument
  \<open>pread\<close> of a length and an offset, with a state of any type. Python's integers are \<open>nat\<close> where they are never
  negative; the superblock, which the tool takes from the output of dumpe2fs, is the record \<open>fs_super\<close>.
\<close>

section \<open>Bytes\<close>

text \<open>\<open>struct.unpack\<close> of one little endian number, which raises when the length is not its size, and slices.\<close>

fun le_nat :: "u8 list \<Rightarrow> nat" where
  "le_nat [] = 0"
| "le_nat (b # bs) = unat b + 256 * le_nat bs"

definition unpack :: "nat \<Rightarrow> u8 list \<Rightarrow> nat option" where
  "unpack n d = (if length d = n then Some (le_nat d) else None)"

definition slice :: "nat \<Rightarrow> nat \<Rightarrow> 'a list \<Rightarrow> 'a list" where
  "slice a b d = take (b - a) (drop a d)"

text \<open>\<open>d[0:k]\<close>: a negative end counts from the back.\<close>

definition slice_to :: "int \<Rightarrow> 'a list \<Rightarrow> 'a list" where
  "slice_to k d = (if 0 \<le> k then take (nat k) d else take (length d - nat (- k)) d)"

section \<open>Reads\<close>

type_synonym 'd disk = "nat \<Rightarrow> nat \<Rightarrow> 'd \<Rightarrow> (u8 list \<times> 'd) option"

record fs_super =
  Block_size :: nat
  Filesystem_features :: "string list"

definition read_blocks :: "'d disk \<Rightarrow> nat \<Rightarrow> nat \<Rightarrow> nat \<Rightarrow> 'd \<Rightarrow> (u8 list \<times> 'd) option" where
  "read_blocks pread block_size addr count = pread (count * block_size) (addr * block_size)"

definition trigger_recovertag_start :: "'d disk \<Rightarrow> nat \<Rightarrow> 'd \<Rightarrow> 'd option" where
  "trigger_recovertag_start pread block_size d = map_option snd (read_blocks pread block_size 120002 1 d)"

definition trigger_recovertag_end :: "'d disk \<Rightarrow> nat \<Rightarrow> 'd \<Rightarrow> 'd option" where
  "trigger_recovertag_end pread block_size d = map_option snd (read_blocks pread block_size 120003 1 d)"

section \<open>Ranges\<close>

text \<open>Runs of consecutive numbers as (first, total); the loop's last_from and last_to are arguments.\<close>

fun join_loop :: "nat list \<Rightarrow> nat \<Rightarrow> nat \<Rightarrow> (nat \<times> nat) list" where
  "join_loop [] last_from last_to = [(last_from, last_to - last_from + 1)]"
| "join_loop (entry # arr) last_from last_to =
     (if entry = last_to + 1 then join_loop arr last_from entry
      else (last_from, last_to - last_from + 1) # join_loop arr entry entry)"

definition join_ranges :: "nat list \<Rightarrow> (nat \<times> nat) list" where
  "join_ranges arr = (case arr of [] \<Rightarrow> [] | entry # arr \<Rightarrow> join_loop arr entry entry)"

section \<open>Inodes\<close>

datatype filetype = S_IFIFO | S_IFCHR | S_IFDIR | S_IFBLK | S_IFREG | S_IFLNK | S_IFSOCK

definition get_filetype :: "nat \<Rightarrow> filetype option" where
  "get_filetype i_mode = (let filetype_flag = i_mode AND 0xF000 in
     if filetype_flag = 0x1000 then Some S_IFIFO
     else if filetype_flag = 0x2000 then Some S_IFCHR
     else if filetype_flag = 0x4000 then Some S_IFDIR
     else if filetype_flag = 0x6000 then Some S_IFBLK
     else if filetype_flag = 0x8000 then Some S_IFREG
     else if filetype_flag = 0xA000 then Some S_IFLNK
     else if filetype_flag = 0xC000 then Some S_IFSOCK
     else None)"

datatype iflag = EXT4_INDEX_FL | EXT4_HUGE_FILE_FL | EXT4_EXTENTS_FL | EXT4_INLINE_DATA_FL

definition get_flags :: "nat \<Rightarrow> iflag list" where
  "get_flags f =
     (if f AND 0x1000 \<noteq> 0 then [EXT4_INDEX_FL] else []) @
     (if f AND 0x40000 \<noteq> 0 then [EXT4_HUGE_FILE_FL] else []) @
     (if f AND 0x80000 \<noteq> 0 then [EXT4_EXTENTS_FL] else []) @
     (if f AND 0x10000000 \<noteq> 0 then [EXT4_INLINE_DATA_FL] else [])"

text \<open>The assertion compares the digits of the halves, padded to 32 each, with those of the number: it holds when the lower half has
  at most 32.\<close>

definition join_int32 :: "nat \<Rightarrow> nat \<Rightarrow> nat option" where
  "join_int32 hi lo = (if lo < 2 ^ 32 then Some (hi * 2 ^ 32 + lo) else None)"

record inode =
  i_filetype :: "filetype option"
  i_iflags :: "iflag list"
  i_links_count :: nat
  i_data :: "u8 list"
  i_size :: nat

definition inode_parse :: "u8 list \<Rightarrow> inode option" where
  "inode_parse data = do {
     i_mode \<leftarrow> unpack 2 (slice 0 2 data);
     i_size_lo \<leftarrow> unpack 4 (slice 4 8 data);
     i_links \<leftarrow> unpack 2 (slice 26 28 data);
     i_flags \<leftarrow> unpack 4 (slice 32 36 data);
     let i_block = slice 40 100 data;
     i_size_high \<leftarrow> unpack 4 (slice 108 112 data);
     sz \<leftarrow> join_int32 i_size_high i_size_lo;
     Some \<lparr>i_filetype = get_filetype i_mode, i_iflags = get_flags i_flags, i_links_count = i_links,
       i_data = i_block, i_size = sz\<rparr> }"

section \<open>Extent trees\<close>

record extent_header =
  eh_entries :: nat
  eh_max :: nat
  eh_depth :: nat

definition ext4_extent_header :: "u8 list \<Rightarrow> extent_header option" where
  "ext4_extent_header data = do {
     ASSERT (12 \<le> length data);
     eh_magic \<leftarrow> unpack 2 (slice 0 2 data);
     entries \<leftarrow> unpack 2 (slice 2 4 data);
     mx \<leftarrow> unpack 2 (slice 4 6 data);
     depth \<leftarrow> unpack 2 (slice 6 8 data);
     ASSERT (eh_magic = 0xF30A);
     Some \<lparr>eh_entries = entries, eh_max = mx, eh_depth = depth\<rparr> }"

text \<open>The two kinds of entries: index (\<open>ei_block\<close>, \<open>ei_leaf\<close>) and leaf (\<open>ee_block\<close>, \<open>ee_len\<close>, \<open>ee_start\<close>).\<close>

datatype extent_entry = is_Idx: Idx (ei_block: nat) (ei_leaf: nat) | Ext (ee_block: nat) (ee_len: nat) (ee_start: nat)

definition ext4_extent_idx :: "u8 list \<Rightarrow> extent_entry option" where
  "ext4_extent_idx data = do {
     ASSERT (12 \<le> length data);
     block \<leftarrow> unpack 4 (slice 0 4 data);
     leaf_lo \<leftarrow> unpack 4 (slice 4 8 data);
     leaf_hi \<leftarrow> unpack 2 (slice 8 10 data);
     ei_unused \<leftarrow> unpack 2 (slice 10 12 data);
     leaf \<leftarrow> join_int32 leaf_hi leaf_lo;
     Some (Idx block leaf) }"

definition ext4_extent :: "u8 list \<Rightarrow> extent_entry option" where
  "ext4_extent data = do {
     ASSERT (12 \<le> length data);
     block \<leftarrow> unpack 4 (slice 0 4 data);
     len \<leftarrow> unpack 2 (slice 4 6 data);
     start_hi \<leftarrow> unpack 2 (slice 6 8 data);
     start_lo \<leftarrow> unpack 4 (slice 8 12 data);
     start \<leftarrow> join_int32 start_hi start_lo;
     Some (Ext block len start) }"

fun parse_entries :: "nat \<Rightarrow> u8 list \<Rightarrow> nat \<Rightarrow> nat \<Rightarrow> extent_entry list option" where
  "parse_entries depth block 0 offset = Some []"
| "parse_entries depth block (Suc n) offset = do {
     e \<leftarrow> (if depth = 0 then ext4_extent (slice offset (offset + 12) block)
          else ext4_extent_idx (slice offset (offset + 12) block));
     es \<leftarrow> parse_entries depth block n (offset + 12);
     Some (e # es) }"

definition parse_extent_data :: "u8 list \<Rightarrow> (nat \<times> extent_entry list) option" where
  "parse_extent_data block = do {
     hdr \<leftarrow> ext4_extent_header block;
     entries \<leftarrow> parse_entries (eh_depth hdr) block (eh_entries hdr) 12;
     Some (eh_depth hdr, entries) }"

text \<open>One level of the tree: the nodes that its index entries point to; a leaf entry has no \<open>ei_leaf\<close>.\<close>

fun read_level :: "'d disk \<Rightarrow> nat \<Rightarrow> extent_entry list \<Rightarrow> 'd \<Rightarrow> (extent_entry list \<times> 'd) option" where
  "read_level pread bs [] d = Some ([], d)"
| "read_level pread bs (Ext _ _ _ # es) d = None"
| "read_level pread bs (Idx _ leaf # es) d = do {
     (leaf_data, d) \<leftarrow> read_blocks pread bs leaf 1 d;
     (leaf_depth, leaf_entries) \<leftarrow> parse_extent_data leaf_data;
     (rest, d) \<leftarrow> read_level pread bs es d;
     Some (leaf_entries @ rest, d) }"

fun read_levels :: "'d disk \<Rightarrow> nat \<Rightarrow> nat \<Rightarrow> extent_entry list \<Rightarrow> 'd \<Rightarrow> (extent_entry list \<times> 'd) option" where
  "read_levels pread bs 0 entries d = Some (entries, d)"
| "read_levels pread bs (Suc depth) entries d = do {
     (entries, d) \<leftarrow> read_level pread bs entries d;
     read_levels pread bs depth entries d }"

definition parse_extent_tree :: "'d disk \<Rightarrow> nat \<Rightarrow> u8 list \<Rightarrow> 'd \<Rightarrow> (extent_entry list \<times> 'd) option" where
  "parse_extent_tree pread bs root d = do {
     (depth, entries) \<leftarrow> parse_extent_data root;
     read_levels pread bs depth entries d }"

text \<open>Chunks are (addr, len) in bytes; the loop asserts that the extents follow each other from block 0 on.\<close>

type_synonym chunk = "nat \<times> nat"

fun extent_chunks :: "nat \<Rightarrow> nat \<Rightarrow> extent_entry list \<Rightarrow> chunk list option" where
  "extent_chunks bs block [] = Some []"
| "extent_chunks bs block (entry # entries) = do {
     ASSERT (ee_block entry = block);
     chunks \<leftarrow> extent_chunks bs (block + ee_len entry) entries;
     Some ((ee_start entry * bs, ee_len entry * bs) # chunks) }"

definition parse_extent_tree_chunks :: "'d disk \<Rightarrow> nat \<Rightarrow> u8 list \<Rightarrow> 'd \<Rightarrow> (chunk list \<times> 'd) option" where
  "parse_extent_tree_chunks pread bs root d = do {
     (entries, d) \<leftarrow> parse_extent_tree pread bs root d;
     ASSERT (list_all (\<lambda>e. \<not> is_Idx e) entries);
     chunks \<leftarrow> extent_chunks bs 0 (sort_key ee_block entries);
     Some (chunks, d) }"

section \<open>Block pointers\<close>

text \<open>The nonzero pointers of a block; \<open>n\<close> is the rest of the count.\<close>

fun unpack_from :: "nat \<Rightarrow> nat \<Rightarrow> u8 list \<Rightarrow> nat list" where
  "unpack_from 0 offset data = []"
| "unpack_from (Suc n) offset data =
     (let pointer = le_nat (slice offset (offset + 4) data)
      in if pointer \<noteq> 0 then pointer # unpack_from n (offset + 4) data else unpack_from n (offset + 4) data)"

definition unpack_pointers :: "u8 list \<Rightarrow> nat list" where
  "unpack_pointers data = unpack_from (length data div 4) 0 data"

text \<open>The data blocks behind a pointer block of a level: 1 for the block of pointer 12, 3 for that of pointer 14.\<close>

fun read_pointers :: "'d disk \<Rightarrow> nat \<Rightarrow> nat \<Rightarrow> nat \<Rightarrow> 'd \<Rightarrow> (nat list \<times> 'd) option"
  and read_all_pointers :: "'d disk \<Rightarrow> nat \<Rightarrow> nat \<Rightarrow> nat list \<Rightarrow> 'd \<Rightarrow> (nat list \<times> 'd) option" where
  "read_pointers pread bs level pointer d = do {
     (data, d) \<leftarrow> read_blocks pread bs pointer 1 d;
     (case level of Suc (Suc l) \<Rightarrow> read_all_pointers pread bs (Suc l) (unpack_pointers data) d
      | _ \<Rightarrow> Some (unpack_pointers data, d)) }"
| "read_all_pointers pread bs level [] d = Some ([], d)"
| "read_all_pointers pread bs level (pointer # pointers) d = do {
     (blocks, d) \<leftarrow> read_pointers pread bs level pointer d;
     (rest, d) \<leftarrow> read_all_pointers pread bs level pointers d;
     Some (blocks @ rest, d) }"

definition pointer_level :: "'d disk \<Rightarrow> nat \<Rightarrow> nat \<Rightarrow> nat \<Rightarrow> 'd \<Rightarrow> (nat list \<times> 'd) option" where
  "pointer_level pread bs level pointer d = (if pointer \<noteq> 0 then read_pointers pread bs level pointer d else Some ([], d))"

definition parse_indirect_blocks_chunks :: "'d disk \<Rightarrow> nat \<Rightarrow> u8 list \<Rightarrow> 'd \<Rightarrow> (chunk list \<times> 'd) option" where
  "parse_indirect_blocks_chunks pread bs inode_data d = do {
     ASSERT (length inode_data = 60);
     let data_blocks = unpack_pointers (slice 0 48 inode_data);
     pointer \<leftarrow> unpack 4 (slice 48 52 inode_data);
     (single, d) \<leftarrow> pointer_level pread bs 1 pointer d;
     pointer \<leftarrow> unpack 4 (slice 52 56 inode_data);
     (double, d) \<leftarrow> pointer_level pread bs 2 pointer d;
     pointer \<leftarrow> unpack 4 (slice 56 60 inode_data);
     (tripple, d) \<leftarrow> pointer_level pread bs 3 pointer d;
     Some (map (\<lambda>(first, count). (first * bs, count * bs)) (join_ranges (data_blocks @ single @ double @ tripple)), d) }"

section \<open>Files\<close>

definition inode_to_chunks :: "'d disk \<Rightarrow> nat \<Rightarrow> inode \<Rightarrow> 'd \<Rightarrow> (nat \<times> chunk list \<times> 'd) option" where
  "inode_to_chunks pread bs inode d = do {
     ASSERT (EXT4_INLINE_DATA_FL \<notin> set (i_iflags inode));
     (chunks, d) \<leftarrow> (if EXT4_EXTENTS_FL \<in> set (i_iflags inode) then parse_extent_tree_chunks pread bs (i_data inode) d
                     else parse_indirect_blocks_chunks pread bs (i_data inode) d);
     Some (i_size inode, chunks, d) }"

text \<open>The loop over the chunks; both branches of the source read one block more than the chunk has. Returns what is written.\<close>

fun file_loop :: "'d disk \<Rightarrow> nat \<Rightarrow> nat \<Rightarrow> nat \<Rightarrow> chunk list \<Rightarrow> 'd \<Rightarrow> (u8 list \<times> 'd) option" where
  "file_loop pread bs fsize chunks_size [] d = Some ([], d)"
| "file_loop pread bs fsize chunks_size ((addr, len) # chunks) d = do {
     let chunks_size = chunks_size + len;
     (data_in_blocks, d) \<leftarrow> read_blocks pread bs (addr div bs) (len div bs + 1) d;
     let offset = addr mod bs;
     let data = slice offset (offset + len) data_in_blocks;
     let out = (if fsize < chunks_size then slice_to (int len - int (chunks_size - fsize)) data else data);
     (rest, d) \<leftarrow> file_loop pread bs fsize chunks_size chunks d;
     Some (out @ rest, d) }"

definition get_file_from_chunks :: "'d disk \<Rightarrow> nat \<Rightarrow> chunk list \<Rightarrow> nat \<Rightarrow> 'd \<Rightarrow> (u8 list \<times> 'd) option" where
  "get_file_from_chunks pread bs chunks fsize = file_loop pread bs fsize 0 chunks"

section \<open>Strings\<close>

text \<open>A Python string is its list of code points.\<close>

type_synonym pystr = "nat list"

abbreviation lit :: "string \<Rightarrow> pystr" where "lit \<equiv> map of_char"

text \<open>\<open>decode("utf-8")\<close>: the code point of a sequence, which is neither overlong nor a surrogate nor too large.\<close>

definition utf8_tail :: "nat list \<Rightarrow> nat \<Rightarrow> nat option" where
  "utf8_tail bs start = (if list_all (\<lambda>b. b div 64 = 2) bs then Some (foldl (\<lambda>n b. n * 64 + b mod 64) start bs) else None)"

fun utf8_decode :: "nat list \<Rightarrow> pystr option" where
  "utf8_decode [] = Some []"
| "utf8_decode (b # bs) =
     (if b < 0x80 then map_option ((#) b) (utf8_decode bs)
      else let (n, start, least) = (if b < 0xC0 then (0, 0, 0) else if b < 0xE0 then (1, b - 0xC0, 0x80)
                 else if b < 0xF0 then (2, b - 0xE0, 0x800) else if b < 0xF8 then (3, b - 0xF0, 0x10000) else (0 :: nat, 0, 0))
      in if n = 0 \<or> length bs < n then None
      else do {
        c \<leftarrow> utf8_tail (take n bs) start;
        ASSERT (least \<le> c \<and> c < 0x110000 \<and> \<not> (0xD800 \<le> c \<and> c < 0xE000));
        map_option ((#) c) (utf8_decode (drop n bs)) })"

definition py_decode :: "u8 list \<Rightarrow> pystr option" where
  "py_decode data = utf8_decode (map unat data)"

text \<open>\<open>os.path.split\<close>, \<open>os.path.splitext\<close> and \<open>os.path.basename\<close> on POSIX.\<close>

definition after_slash :: "pystr \<Rightarrow> pystr" where
  "after_slash p = rev (takeWhile (\<lambda>c. c \<noteq> 47) (rev p))"

definition path_split :: "pystr \<Rightarrow> pystr \<times> pystr" where
  "path_split p = (let tail = after_slash p; head = take (length p - length tail) p
     in (if list_all (\<lambda>c. c = 47) head then head else rev (dropWhile (\<lambda>c. c = 47) (rev head)), tail))"

definition path_splitext :: "pystr \<Rightarrow> pystr \<times> pystr" where
  "path_splitext p = (let name = after_slash p; ext = rev (takeWhile (\<lambda>c. c \<noteq> 46) (rev name))
     in if 46 \<in> set name \<and> \<not> list_all (\<lambda>c. c = 46) (take (length name - length ext - 1) name)
        then (take (length p - length ext - 1) p, 46 # ext) else (p, []))"

text \<open>\<open>str\<close> of a number.\<close>

fun py_str :: "nat \<Rightarrow> pystr" where
  "py_str n = (if n < 10 then [48 + n] else py_str (n div 10) @ [48 + n mod 10])"

declare py_str.simps [simp del]

section \<open>Directories\<close>

datatype dir_filetype = Type filetype | Raw nat

record dir_entry =
  de_version :: nat
  de_inode :: nat
  de_filetype :: "dir_filetype option"
  de_name :: pystr

definition parse_file_type :: "nat \<Rightarrow> dir_filetype option" where
  "parse_file_type file_type =
     (if file_type = 0x0 then None
      else if file_type = 0x5 then Some (Type S_IFIFO)
      else if file_type = 0x3 then Some (Type S_IFCHR)
      else if file_type = 0x2 then Some (Type S_IFDIR)
      else if file_type = 0x4 then Some (Type S_IFBLK)
      else if file_type = 0x1 then Some (Type S_IFREG)
      else if file_type = 0x7 then Some (Type S_IFLNK)
      else if file_type = 0x6 then Some (Type S_IFSOCK)
      else Some (Raw file_type))"

text \<open>What an entry raises: a failed assertion, a slice that is too short to unpack, a name that is not UTF-8.\<close>

datatype py_error = AssertionError | StructError | UnicodeDecodeError

fun or_raise :: "py_error \<Rightarrow> 'a option \<Rightarrow> py_error + 'a" where
  "or_raise e None = Inl e"
| "or_raise e (Some x) = Inr x"

fun try_then :: "py_error + 'a \<Rightarrow> ('a \<Rightarrow> py_error + 'b) \<Rightarrow> py_error + 'b" where
  "try_then (Inl e) f = Inl e"
| "try_then (Inr x) f = f x"

text \<open>One round of the loop up to the advance of the offset: the length of the entry and, unless it is a removed one, what is appended.\<close>

definition readdir_one :: "bool \<Rightarrow> nat \<Rightarrow> u8 list \<Rightarrow> nat \<Rightarrow> py_error + nat \<times> dir_entry list" where
  "readdir_one filetype_feature version data offset =
     try_then (or_raise AssertionError (ASSERT (offset \<le> length data))) (\<lambda>_.
     try_then (or_raise StructError (unpack 4 (slice offset (offset + 4) data))) (\<lambda>inode.
     try_then (or_raise StructError (unpack 2 (slice (offset + 4) (offset + 6) data))) (\<lambda>rec_len.
     try_then
       (if filetype_feature then
          try_then (or_raise StructError (unpack 1 (slice (offset + 6) (offset + 7) data))) (\<lambda>name_len.
          try_then (or_raise StructError (unpack 1 (slice (offset + 7) (offset + 8) data))) (\<lambda>file_type.
          Inr (name_len, file_type)))
        else
          try_then (or_raise StructError (unpack 2 (slice (offset + 4) (offset + 8) data))) (\<lambda>name_len.
          Inr (name_len, 0))) (\<lambda>(name_len, file_type).
     try_then (or_raise AssertionError (ASSERT (name_len \<le> 0xFF))) (\<lambda>_.
     try_then (or_raise UnicodeDecodeError (py_decode (slice (offset + 8) (offset + 8 + name_len) data))) (\<lambda>name.
     Inr (rec_len, if inode \<noteq> 0
       then [\<lparr>de_version = version, de_inode = inode, de_filetype = parse_file_type file_type, de_name = name\<rparr>] else [])))))))"

text \<open>\<open>None\<close> when the loop does not end.\<close>

partial_function (option) readdir_loop ::
    "bool \<Rightarrow> nat \<Rightarrow> u8 list \<Rightarrow> nat \<Rightarrow> dir_entry list \<Rightarrow> (py_error + dir_entry list) option" where
  "readdir_loop filetype_feature version data offset entries =
     (case readdir_one filetype_feature version data offset of
        Inl e \<Rightarrow> Some (Inl e)
      | Inr (rec_len, new) \<Rightarrow>
          if offset + rec_len = length data then Some (Inr (entries @ new))
          else readdir_loop filetype_feature version data (offset + rec_len) (entries @ new))"

definition readdir_block :: "fs_super \<Rightarrow> u8 list \<Rightarrow> nat \<Rightarrow> (py_error + dir_entry list) option" where
  "readdir_block sb data version = readdir_loop (''filetype'' \<in> set (Filesystem_features sb)) version data 0 []"

section \<open>Recovery\<close>

text \<open>A snapshot: the paths with their inodes, and for an inode the versions of its file, each a fsize and chunks.\<close>

record snapshot =
  dirs :: "(pystr \<times> nat) list"
  inodes :: "nat \<Rightarrow> (nat \<times> chunk list) list option"

definition output_name :: "pystr \<Rightarrow> nat \<Rightarrow> pystr" where
  "output_name filename_full name_idx =
     (let (path, filename_ext) = path_split filename_full;
          (filename, extension) = path_splitext filename_ext
      in after_slash (path @ filename @ lit ''_version'' @ py_str name_idx @ extension))"

text \<open>The files written, by name.\<close>

type_synonym outputs = "pystr \<Rightarrow> u8 list option"

fun recover_versions :: "'d disk \<Rightarrow> nat \<Rightarrow> pystr \<Rightarrow> nat \<Rightarrow> (nat \<times> chunk list) list \<Rightarrow> outputs \<times> 'd \<Rightarrow> (outputs \<times> 'd) option" where
  "recover_versions pread bs filename_full name_idx [] st = Some st"
| "recover_versions pread bs filename_full name_idx ((fsize, chunks) # versions) (files, d) = do {
     let output = output_name filename_full name_idx;
     d \<leftarrow> trigger_recovertag_start pread bs d;
     (data, d) \<leftarrow> get_file_from_chunks pread bs chunks fsize d;
     d \<leftarrow> trigger_recovertag_end pread bs d;
     recover_versions pread bs filename_full (name_idx + 1) versions (files(output \<mapsto> data), d) }"

definition recover_file :: "'d disk \<Rightarrow> fs_super \<Rightarrow> snapshot \<Rightarrow> outputs \<times> 'd \<Rightarrow> (outputs \<times> 'd) option" where
  "recover_file pread sb snap = for_each (dirs snap) (\<lambda>(filename_full, inode_id) st.
     case inodes snap inode_id of
       None \<Rightarrow> Some st
     | Some versions \<Rightarrow> recover_versions pread (Block_size sb) filename_full 0 versions st)"

section \<open>Ranges expand to their list\<close>

definition expand :: "(nat \<times> nat) list \<Rightarrow> nat list" where
  "expand rs = concat (map (\<lambda>(first, count). [first..<first + count]) rs)"

lemma expand_simps [simp]: "expand [] = []" "expand ((a, n) # rs) = [a..<a + n] @ expand rs" "expand (rs @ qs) = expand rs @ expand qs"
  by (simp_all add: expand_def)

lemma join_loop_expand: "a \<le> b \<Longrightarrow> expand (join_loop arr a b) = [a..<Suc b] @ arr"
  by (induction arr a b rule: join_loop.induct) (auto simp: upt_conv_Cons)

lemma join_loop_apart:
  assumes "a \<le> b"
  shows "successively (\<lambda>(a, n) (b, m). a + n \<noteq> b) (join_loop arr a b) \<and> (\<forall>(a, n) \<in> set (join_loop arr a b). 0 < n) \<and>
    (\<exists>n rs. join_loop arr a b = (a, n) # rs)"
  using assms
proof (induction arr a b rule: join_loop.induct)
  case (2 entry arr last_from last_to)
  then show ?case by (cases "entry = last_to + 1") auto
qed simp

theorem join_ranges_expand:
  "expand (join_ranges arr) = arr \<and> (\<forall>(a, n) \<in> set (join_ranges arr). 0 < n) \<and>
   successively (\<lambda>(a, n) (b, m). a + n \<noteq> b) (join_ranges arr)"
proof (cases arr)
  case (Cons e es)
  then show ?thesis using join_loop_expand [of e e es] join_loop_apart [of e e es] by (auto simp: join_ranges_def)
qed (simp add: join_ranges_def)

section \<open>Little endian numbers\<close>

definition le_list :: "nat \<Rightarrow> nat \<Rightarrow> u8 list" where
  "le_list k n = map (\<lambda>i. of_nat (n div 256 ^ i)) [0..<k]"

lemma le_list_simps [simp]: "le_list 0 n = []" "le_list (Suc k) n = of_nat n # le_list k (n div 256)" "length (le_list k n) = k"
  by (simp_all add: le_list_def upt_conv_Cons map_Suc_upt [symmetric] div_mult2_eq del: upt_Suc)

lemma le_nat_list: "le_nat (le_list k n) = n mod 256 ^ k"
proof (induction k arbitrary: n)
  case (Suc k)
  then show ?case by (simp add: unat_of_nat mod_mult2_eq)
qed simp

lemma unpack_le: "n < 256 ^ k \<Longrightarrow> unpack k (le_list k n) = Some n"
  by (simp add: unpack_def le_nat_list)

lemma slice_append: "slice a b (xs @ ys) = slice a b xs @ slice (a - length xs) (b - length xs) ys"
proof -
  have "a + (length xs - a) = length xs + (a - length xs)" by arith
  then show ?thesis by (simp add: slice_def)
qed

lemma slice_drop: "a \<le> b \<Longrightarrow> slice (p + a) (p + b) data = slice a b (drop p data)"
  by (simp add: slice_def add.commute)

lemma slice_all: "length xs \<le> b \<Longrightarrow> slice 0 b xs = xs" and slice_none [simp]: "slice a 0 xs = []" "slice a b [] = []"
  by (simp_all add: slice_def)

lemma slice_out: "length xs \<le> a \<Longrightarrow> slice a b xs = []"
  by (simp add: slice_def)

lemmas slice_fields = slice_append slice_all slice_out

section \<open>Extent trees on disk\<close>

fun entry_bytes :: "extent_entry \<Rightarrow> u8 list" where
  "entry_bytes (Idx b l) = le_list 4 b @ le_list 4 (l mod 2 ^ 32) @ le_list 2 (l div 2 ^ 32) @ le_list 2 0"
| "entry_bytes (Ext b n s) = le_list 4 b @ le_list 2 n @ le_list 2 (s div 2 ^ 32) @ le_list 4 (s mod 2 ^ 32)"

fun entry_ok :: "nat \<Rightarrow> extent_entry \<Rightarrow> bool" where
  "entry_ok depth (Idx b l) \<longleftrightarrow> 0 < depth \<and> b < 2 ^ 32 \<and> l < 2 ^ 48"
| "entry_ok depth (Ext b n s) \<longleftrightarrow> depth = 0 \<and> b < 2 ^ 32 \<and> n < 2 ^ 16 \<and> s < 2 ^ 48"

lemma entry_bytes_length [simp]: "length (entry_bytes e) = 12"
  by (cases e) simp_all

lemma parse_entry:
  "entry_ok depth e \<Longrightarrow> (if depth = 0 then ext4_extent (entry_bytes e) else ext4_extent_idx (entry_bytes e)) = Some e"
proof (cases e)
  case (Idx b l)
  assume "entry_ok depth e"
  then have a: "0 < depth" "b < 2 ^ 32" "l < 2 ^ 48" using Idx by simp_all
  have "l div 2 ^ 32 < 256 ^ 2" using a(3) by (simp add: less_mult_imp_div_less)
  then show ?thesis using a
    by (simp add: Idx ext4_extent_idx_def slice_fields unpack_le join_int32_def del: le_list_simps(2))
next
  case (Ext b n s)
  assume "entry_ok depth e"
  then have a: "depth = 0" "b < 2 ^ 32" "n < 2 ^ 16" "s < 2 ^ 48" using Ext by simp_all
  have "s div 2 ^ 32 < 256 ^ 2" using a(4) by (simp add: less_mult_imp_div_less)
  then show ?thesis using a
    by (simp add: Ext ext4_extent_def slice_fields unpack_le join_int32_def del: le_list_simps(2))
qed

text \<open>A node as ext4 stores it; what follows the entries is arbitrary.\<close>

definition node_bytes :: "nat \<Rightarrow> nat \<Rightarrow> nat \<Rightarrow> extent_entry list \<Rightarrow> u8 list \<Rightarrow> u8 list" where
  "node_bytes depth mx generation es rest = le_list 2 0xF30A @ le_list 2 (length es) @ le_list 2 mx @ le_list 2 depth @
     le_list 4 generation @ concat (map entry_bytes es) @ rest"

lemma parse_entries_node:
  "list_all (entry_ok depth) es \<Longrightarrow> drop offset data = concat (map entry_bytes es) @ rest \<Longrightarrow>
   parse_entries depth data (length es) offset = Some es"
proof (induction es arbitrary: offset)
  case (Cons e es)
  have "slice offset (offset + 12) data = entry_bytes e"
    using slice_drop [of 0 12 offset data] Cons.prems(2) by (simp add: slice_fields)
  moreover have "drop (offset + 12) data = concat (map entry_bytes es) @ rest"
    using arg_cong [OF Cons.prems(2), of "drop 12"] by (simp add: add.commute)
  ultimately show ?case using Cons parse_entry [of depth e] by (auto split: if_splits)
qed simp

lemma parse_extent_data_node:
  assumes "list_all (entry_ok depth) es" "length es < 2 ^ 16" "mx < 2 ^ 16" "depth < 2 ^ 16"
  shows "parse_extent_data (node_bytes depth mx generation es rest) = Some (depth, es)"
proof -
  have "ext4_extent_header (node_bytes depth mx generation es rest) = Some \<lparr>eh_entries = length es, eh_max = mx, eh_depth = depth\<rparr>"
    using assms(2-4) by (simp add: ext4_extent_header_def node_bytes_def slice_fields unpack_le del: le_list_simps(2))
  moreover have "parse_entries depth (node_bytes depth mx generation es rest) (length es) 12 = Some es"
    by (rule parse_entries_node [OF assms(1)]) (simp add: node_bytes_def)
  ultimately show ?thesis by (simp add: parse_extent_data_def)
qed

datatype ext_tree = Leaf "(nat \<times> nat \<times> nat) list" | Node "(nat \<times> nat \<times> ext_tree) list"

fun tree_entries :: "ext_tree \<Rightarrow> extent_entry list" where
  "tree_entries (Leaf es) = map (\<lambda>(b, n, s). Ext b n s) es"
| "tree_entries (Node cs) = map (\<lambda>(b, l, _). Idx b l) cs"

fun tree_leaves :: "ext_tree \<Rightarrow> extent_entry list" where
  "tree_leaves (Leaf es) = map (\<lambda>(b, n, s). Ext b n s) es"
| "tree_leaves (Node cs) = concat (map (\<lambda>(_, _, t). tree_leaves t) cs)"

text \<open>A node's data holds a tree, whose other nodes are in the blocks that the index entries name.\<close>

definition holds_node :: "u8 list \<Rightarrow> nat \<Rightarrow> extent_entry list \<Rightarrow> bool" where
  "holds_node data depth es \<longleftrightarrow> list_all (entry_ok depth) es \<and> length es < 2 ^ 16 \<and> depth < 2 ^ 16 \<and>
     (\<exists>mx < 2 ^ 16. \<exists>generation rest. data = node_bytes depth mx generation es rest)"

inductive stored :: "(nat \<Rightarrow> u8 list option) \<Rightarrow> nat \<Rightarrow> u8 list \<Rightarrow> ext_tree \<Rightarrow> bool" for content where
  stored_leaf: "holds_node data 0 (tree_entries (Leaf es)) \<Longrightarrow> stored content 0 data (Leaf es)"
| stored_node: "holds_node data (Suc depth) (tree_entries (Node cs)) \<Longrightarrow>
     (\<And>b l t. (b, l, t) \<in> set cs \<Longrightarrow> \<exists>data'. content l = Some data' \<and> stored content depth data' t) \<Longrightarrow>
     stored content (Suc depth) data (Node cs)"

inductive_cases stored_leafE: "stored content 0 data t"
inductive_cases stored_nodeE: "stored content (Suc depth) data t"

lemma stored_parse: "stored content depth data t \<Longrightarrow> parse_extent_data data = Some (depth, tree_entries t)"
  by (induction rule: stored.induct) (auto simp: holds_node_def parse_extent_data_node)

lemma concat_map_kids: "concat (map g (concat (map f ts))) = concat (map (\<lambda>t. concat (map g (f t))) ts)"
  by (induction ts) simp_all

section \<open>Devices\<close>

text \<open>What the tool relies on when it reads blocks: as long as \<open>inv\<close> holds, a read returns the contents of the blocks.\<close>

locale block_reads =
  fixes pread :: "'d disk" and bs :: nat and inv :: "'d \<Rightarrow> bool" and content :: "'d \<Rightarrow> nat \<Rightarrow> u8 list option"
  assumes block_size: "0 < bs"
    and content_length: "content d b = Some x \<Longrightarrow> length x = bs"
    and reads: "inv d \<Longrightarrow> 0 < k \<Longrightarrow> (\<And>b. n \<le> b \<Longrightarrow> b < n + k \<Longrightarrow> content d b \<noteq> None) \<Longrightarrow>
      \<exists>d'. pread (k * bs) (n * bs) d = Some (concat (map (\<lambda>b. the (content d b)) [n..<n + k]), d') \<and> inv d' \<and> content d' = content d"
begin

lemma read_one:
  assumes "inv d" "content d b = Some x"
  shows "\<exists>d'. read_blocks pread bs b 1 d = Some (x, d') \<and> inv d' \<and> content d' = content d"
proof -
  have "content d c \<noteq> None" if "b \<le> c" "c < b + 1" for c using that assms(2) by (metis Suc_eq_plus1 le_neq_implies_less not_less_eq option.simps(3))
  with reads [OF assms(1), of 1 b] assms(2) show ?thesis by (simp add: read_blocks_def)
qed

lemma read_level_forest:
  assumes "inv d" "\<And>b l t. (b, l, t) \<in> set cs \<Longrightarrow> \<exists>data dp. content d l = Some data \<and> parse_extent_data data = Some (dp, tree_entries t)"
  shows "\<exists>d'. read_level pread bs (tree_entries (Node cs)) d = Some (concat (map (\<lambda>(_, _, t). tree_entries t) cs), d') \<and> inv d' \<and>
    content d' = content d"
  using assms
proof (induction cs arbitrary: d)
  case (Cons c cs)
  obtain b l t where c: "c = (b, l, t)" by (cases c)
  from Cons.prems(2) [of b l t] c obtain data dp where p: "content d l = Some data" "parse_extent_data data = Some (dp, tree_entries t)" by auto
  from read_one [OF Cons.prems(1) p(1)] obtain d1 where d1: "read_blocks pread bs l 1 d = Some (data, d1)" "inv d1" "content d1 = content d" by blast
  from Cons.IH [OF d1(2)] Cons.prems(2) d1(3) obtain d2 where
    "read_level pread bs (tree_entries (Node cs)) d1 = Some (concat (map (\<lambda>(_, _, t). tree_entries t) cs), d2)" "inv d2" "content d2 = content d"
    by (metis list.set_intros(2))
  then show ?case using d1 p by (simp add: c)
qed simp

lemma read_levels_forest:
  assumes "inv d" "\<And>t. t \<in> set ts \<Longrightarrow> \<exists>data. stored (content d) depth data t"
  shows "\<exists>d'. read_levels pread bs depth (concat (map tree_entries ts)) d = Some (concat (map tree_leaves ts), d') \<and> inv d' \<and> content d' = content d"
  using assms
proof (induction depth arbitrary: ts d)
  case 0
  have "tree_entries t = tree_leaves t" if "t \<in> set ts" for t using 0(2) [OF that] by (auto elim: stored_leafE)
  then have "map tree_entries ts = map tree_leaves ts" by simp
  then show ?case using 0(1) by (simp only: read_levels.simps) blast
next
  case (Suc depth)
  define kids where "kids t = (case t of Node cs \<Rightarrow> cs | Leaf _ \<Rightarrow> [])" for t
  have t: "t = Node (kids t)" if "t \<in> set ts" for t using Suc.prems(2) [OF that] by (auto elim: stored_nodeE simp: kids_def)
  define cs where "cs = concat (map kids ts)"
  have k: "\<exists>data. content d l = Some data \<and> stored (content d) depth data t'" if "(b, l, t') \<in> set cs" for b l t'
  proof -
    from that obtain t where "t \<in> set ts" "(b, l, t') \<in> set (kids t)" by (auto simp: cs_def)
    then show ?thesis using Suc.prems(2) [of t] t [of t] by (auto elim!: stored_nodeE simp: kids_def)
  qed
  have p: "\<exists>data dp. content d l = Some data \<and> parse_extent_data data = Some (dp, tree_entries t')" if "(b, l, t') \<in> set cs" for b l t'
    using k [OF that] stored_parse by blast
  have e: "concat (map tree_entries ts) = tree_entries (Node cs)"
  proof -
    have "map tree_entries ts = map (\<lambda>t. tree_entries (Node (kids t))) ts" by (rule map_cong) (use t in auto)
    then show ?thesis by (simp only:) (simp add: cs_def map_concat comp_def)
  qed
  have l: "concat (map tree_leaves ts) = concat (map tree_leaves (map (\<lambda>(_, _, t). t) cs))"
  proof -
    have "map tree_leaves ts = map (\<lambda>t. tree_leaves (Node (kids t))) ts" by (rule map_cong) (use t in auto)
    then show ?thesis by (simp only:) (simp add: cs_def concat_map_kids comp_def case_prod_unfold)
  qed
  from read_level_forest [OF Suc.prems(1), of cs] p obtain d1 where
    d1: "read_level pread bs (tree_entries (Node cs)) d = Some (concat (map (\<lambda>(_, _, t). tree_entries t) cs), d1)" "inv d1" "content d1 = content d" by blast
  define us where "us = map (\<lambda>(_, _, t). t) cs"
  have m: "concat (map (\<lambda>(_, _, t). tree_entries t) cs) = concat (map tree_entries us)" by (simp add: us_def case_prod_unfold comp_def)
  have "\<exists>data. stored (content d1) depth data t'" if "t' \<in> set us" for t'
    using that k d1(3) by (fastforce simp: us_def)
  then obtain d2 where d2: "read_levels pread bs depth (concat (map tree_entries us)) d1 = Some (concat (map tree_leaves us), d2)"
    "inv d2" "content d2 = content d1" using Suc.IH [OF d1(2), of us] by blast
  have "read_levels pread bs (Suc depth) (concat (map tree_entries ts)) d = Some (concat (map tree_leaves ts), d2)"
    unfolding e l [folded us_def] by (simp only: read_levels.simps d1(1) m) (simp add: d2(1))
  then show ?case using d2 d1(3) by (intro exI [of _ d2]) simp
qed

text \<open>The traversal level by level returns the extents of the tree from left to right.\<close>

lemma extent_tree_in_order:
  assumes "inv d" "stored (content d) depth root t"
  shows "\<exists>d'. parse_extent_tree pread bs root d = Some (tree_leaves t, d') \<and> inv d' \<and> content d' = content d"
  using read_levels_forest [OF assms(1), of "[t]" depth] assms(2) stored_parse [OF assms(2)] by (auto simp: parse_extent_tree_def)

end

section \<open>Files\<close>

abbreviation chunks_of :: "nat \<Rightarrow> (nat \<times> nat) list \<Rightarrow> chunk list" where
  "chunks_of bs rs \<equiv> map (\<lambda>(first, count). (first * bs, count * bs)) rs"

text \<open>The number of blocks of an extent as ext4 means it: lengths above 32768 are those of extents that were allocated but never
  written, which read as zeros.\<close>

definition extent_blocks :: "extent_entry \<Rightarrow> nat" where
  "extent_blocks e = (if ee_len e \<le> 32768 then ee_len e else ee_len e - 32768)"

definition all_written :: "extent_entry list \<Rightarrow> bool" where
  "all_written es \<longleftrightarrow> (\<forall>e \<in> set es. ee_len e \<le> 32768)"

text \<open>Extents that follow each other without a hole; the pieces of the device they are.\<close>

fun contiguous :: "nat \<Rightarrow> extent_entry list \<Rightarrow> bool" where
  "contiguous block [] \<longleftrightarrow> True"
| "contiguous block (e # es) \<longleftrightarrow> ee_block e = block \<and> contiguous (block + extent_blocks e) es"

definition extent_ranges :: "extent_entry list \<Rightarrow> (nat \<times> nat) list" where
  "extent_ranges es = map (\<lambda>e. (ee_start e, extent_blocks e)) es"

lemma contiguous_sorted: "contiguous block es \<Longrightarrow> sorted (map ee_block es) \<and> (\<forall>e \<in> set es. block \<le> ee_block e)"
  by (induction block es rule: contiguous.induct) fastforce+

lemma extent_chunks_contiguous:
  "contiguous block es \<Longrightarrow> all_written es \<Longrightarrow> extent_chunks bs block es = Some (chunks_of bs (extent_ranges es))"
  by (induction block es rule: contiguous.induct) (auto simp: extent_ranges_def all_written_def extent_blocks_def)

text \<open>A file of written extents with a hole is refused.\<close>

lemma extent_chunks_hole: "all_written es \<Longrightarrow> extent_chunks bs block es \<noteq> None \<longleftrightarrow> contiguous block es"
  by (induction block es rule: contiguous.induct) (auto simp: all_written_def extent_blocks_def ASSERT_def)

lemma tree_leaves_Ext: "\<not> is_Idx e" if "e \<in> set (tree_leaves t)"
  using that by (induction t) fastforce+

text \<open>The bytes of a list of blocks.\<close>

definition blocks_bytes :: "(nat \<Rightarrow> u8 list option) \<Rightarrow> nat list \<Rightarrow> u8 list" where
  "blocks_bytes content bl = concat (map (\<lambda>b. the (content b)) bl)"

lemma blocks_bytes_simps [simp]: "blocks_bytes c [] = []" "blocks_bytes c (b # bl) = the (c b) @ blocks_bytes c bl"
  "blocks_bytes c (xs @ ys) = blocks_bytes c xs @ blocks_bytes c ys"
  by (simp_all add: blocks_bytes_def)

text \<open>Every block of the ranges, and the one behind each, can be read.\<close>

definition readable :: "(nat \<Rightarrow> u8 list option) \<Rightarrow> (nat \<times> nat) list \<Rightarrow> bool" where
  "readable content rs \<longleftrightarrow> (\<forall>(a, n) \<in> set rs. \<forall>b. a \<le> b \<and> b \<le> a + n \<longrightarrow> content b \<noteq> None)"

lemma readable_Cons: "readable c ((a, n) # rs) \<longleftrightarrow> (\<forall>b. a \<le> b \<and> b \<le> a + n \<longrightarrow> c b \<noteq> None) \<and> readable c rs"
  by (simp add: readable_def)

context block_reads
begin

lemma extent_tree_chunks:
  assumes "inv d" "stored (content d) depth root t" "contiguous 0 (tree_leaves t)" "all_written (tree_leaves t)"
  shows "\<exists>d'. parse_extent_tree_chunks pread bs root d = Some (chunks_of bs (extent_ranges (tree_leaves t)), d') \<and> inv d' \<and> content d' = content d"
proof -
  have "list_all (\<lambda>e. \<not> is_Idx e) (tree_leaves t)" using tree_leaves_Ext by (auto simp: list_all_iff)
  moreover have "sort_key ee_block (tree_leaves t) = tree_leaves t" using contiguous_sorted [OF assms(3)] by (simp add: sorted_sort_id sort_key_id_if_sorted)
  ultimately show ?thesis
    using extent_tree_in_order [OF assms(1,2)] extent_chunks_contiguous [OF assms(3,4), of bs] by (auto simp: parse_extent_tree_chunks_def)
qed

lemma blocks_length: "(\<And>b. b \<in> set bl \<Longrightarrow> content d b \<noteq> None) \<Longrightarrow> length (blocks_bytes (content d) bl) = length bl * bs"
proof (induction bl)
  case (Cons b bl)
  then obtain x where "content d b = Some x" by fastforce
  then show ?case using Cons content_length by simp
qed simp

lemma file_loop_bytes:
  assumes "inv d" "readable (content d) rs" "sofar + sum_list (map snd (butlast rs)) * bs \<le> fsize"
  shows "\<exists>d'. file_loop pread bs fsize sofar (chunks_of bs rs) d = Some (take (fsize - sofar) (blocks_bytes (content d) (expand rs)), d') \<and>
    inv d' \<and> content d' = content d"
  using assms
proof (induction rs arbitrary: sofar d)
  case (Cons r rs)
  obtain a n where r: "r = (a, n)" by (cases r)
  have c: "content d b \<noteq> None" if "a \<le> b" "b \<le> a + n" for b using Cons.prems(2) that by (simp add: r readable_Cons)
  then have c1: "content d b \<noteq> None" if "a \<le> b" "b < a + (n + 1)" for b using that by simp
  have "0 < n + 1" by simp
  from reads [OF Cons.prems(1) this c1] obtain d1 where d1: "pread ((n + 1) * bs) (a * bs) d = Some (concat (map (\<lambda>b. the (content d b)) [a..<a + (n + 1)]), d1)"
    "inv d1" "content d1 = content d" by blast
  let ?data = "blocks_bytes (content d) [a..<a + n]"
  have len: "length ?data = n * bs" using blocks_length [of "[a..<a + n]" d] c by simp
  have rb: "read_blocks pread bs (a * bs div bs) (n * bs div bs + 1) d = Some (?data @ the (content d (a + n)), d1)"
    using d1(1) block_size by (simp add: read_blocks_def blocks_bytes_def)
  have sl: "slice (a * bs mod bs) (a * bs mod bs + n * bs) (?data @ the (content d (a + n))) = ?data"
    using len by (simp add: slice_def)
  let ?now = "sofar + n * bs"
  have out: "(if fsize < ?now then slice_to (int (n * bs) - int (?now - fsize)) ?data else ?data) = take (fsize - sofar) ?data"
    if "sofar \<le> fsize"
  proof (cases "fsize < ?now")
    case True
    then have e: "int (n * bs) - int (?now - fsize) = int (fsize - sofar)" using that by linarith
    show ?thesis using True unfolding e by (simp add: slice_to_def)
  qed (use len in simp)
  have step: "file_loop pread bs fsize sofar (chunks_of bs (r # rs)) d = do {
      (rest, d) \<leftarrow> file_loop pread bs fsize ?now (chunks_of bs rs) d1;
      Some ((if fsize < ?now then slice_to (int (n * bs) - int (?now - fsize)) ?data else ?data) @ rest, d) }"
    by (simp only: r list.map prod.case file_loop.simps Let_def rb sl Option.bind.bind_lunit)
  show ?case
  proof (cases "rs = []")
    case True
    then have "sofar \<le> fsize" using Cons.prems(3) by simp
    then show ?thesis using True d1(2,3) unfolding step out by (intro exI [of _ d1]) (simp add: r out)
  next
    case False
    have p: "?now + sum_list (map snd (butlast rs)) * bs \<le> fsize" using Cons.prems(3) False by (simp add: r add_mult_distrib)
    from Cons.IH [OF d1(2) _ p] Cons.prems(2) d1(3) obtain d2 where
      d2: "file_loop pread bs fsize ?now (chunks_of bs rs) d1 = Some (take (fsize - ?now) (blocks_bytes (content d) (expand rs)), d2)"
      "inv d2" "content d2 = content d" by (auto simp: r readable_Cons)
    have "\<not> fsize < ?now" "sofar \<le> fsize" using p by auto
    then show ?thesis using d2 len unfolding step by (intro exI [of _ d2]) (simp add: r)
  qed
qed simp

lemma file_from_chunks:
  assumes "inv d" "readable (content d) rs" "sum_list (map snd (butlast rs)) * bs \<le> fsize"
  shows "\<exists>d'. get_file_from_chunks pread bs (chunks_of bs rs) fsize d = Some (take fsize (blocks_bytes (content d) (expand rs)), d') \<and>
    inv d' \<and> content d' = content d"
  using file_loop_bytes [OF assms(1,2), of 0 fsize] assms(3) by (simp add: get_file_from_chunks_def)

text \<open>With space beyond the end of the file in a chunk of its own, the start of that chunk ends up in the file.\<close>

lemma file_with_spare_chunk:
  assumes "inv d" "readable (content d) [(a, 1), (b, 1)]" "0 < fsize" "fsize < bs"
  shows "\<exists>d'. get_file_from_chunks pread bs (chunks_of bs [(a, 1), (b, 1)]) fsize d =
    Some (take fsize (the (content d a)) @ take fsize (the (content d b)), d') \<and> inv d' \<and> content d' = content d"
proof -
  have r: "content d a \<noteq> None" "content d (a + 1) \<noteq> None" "content d b \<noteq> None" "content d (b + 1) \<noteq> None"
    using assms(2) by (auto simp: readable_def)
  have one: "\<exists>d'. read_blocks pread bs (k * bs div bs) (1 * bs div bs + 1) d = Some (the (content d k) @ the (content d (k + 1)), d') \<and>
      inv d' \<and> content d' = content d" if "inv d" "content d k \<noteq> None" "content d (k + 1) \<noteq> None" for d k
  proof -
    have "content d c \<noteq> None" if "k \<le> c" "c < k + 2" for c
      using that \<open>content d k \<noteq> None\<close> \<open>content d (k + 1) \<noteq> None\<close> by (cases "c = k") (auto simp: le_less_Suc_eq)
    with reads [OF that(1), of 2 k] block_size show ?thesis by (simp add: read_blocks_def numeral_2_eq_2)
  qed
  have l: "length (the (content d k)) = bs" if "content d k \<noteq> None" for k using that content_length by auto
  from one [OF assms(1) r(1,2)] obtain d1 where d1: "read_blocks pread bs (a * bs div bs) (1 * bs div bs + 1) d =
    Some (the (content d a) @ the (content d (a + 1)), d1)" "inv d1" "content d1 = content d" by blast
  from one [of d1 b] d1(2,3) r(3,4) obtain d2 where d2: "read_blocks pread bs (b * bs div bs) (1 * bs div bs + 1) d1 =
    Some (the (content d b) @ the (content d (b + 1)), d2)" "inv d2" "content d2 = content d" by auto
  have s: "slice (k * bs mod bs) (k * bs mod bs + bs) (the (content d k) @ x) = the (content d k)" if "content d k \<noteq> None" for k x
    using l [OF that] by (simp add: slice_def)
  have n1: "slice_to (int bs - int (bs - fsize)) xs = take fsize xs" for xs :: "u8 list"
    using assms(3,4) by (simp add: slice_to_def of_nat_diff)
  have n2: "slice_to (int bs - int (bs + bs - fsize)) (the (content d b)) = take fsize (the (content d b))"
    using assms(3,4) l [OF r(3)] by (simp add: slice_to_def of_nat_diff nat_diff_distrib)
  show ?thesis
    using d1 d2 s r n1 n2 assms(3,4) by (intro exI [of _ d2]) (simp add: get_file_from_chunks_def Let_def)
qed

end

section \<open>Block pointers\<close>

text \<open>The file system's view: pointer \<open>i\<close> of a block is the number in its bytes 4i to 4i + 3, lowest first.\<close>

definition le32 :: "u8 list \<Rightarrow> nat \<Rightarrow> nat" where
  "le32 data i = unat (data ! (4 * i)) + 2 ^ 8 * unat (data ! (4 * i + 1)) + 2 ^ 16 * unat (data ! (4 * i + 2)) + 2 ^ 24 * unat (data ! (4 * i + 3))"

text \<open>What a pointer of a level stands for, \<open>k\<close> pointers to a block: the pointers to data blocks in the order of the file, 0 for a block
  that is not there; of level 0 the pointer itself.\<close>

fun pointer_tree :: "(nat \<Rightarrow> u8 list option) \<Rightarrow> nat \<Rightarrow> nat \<Rightarrow> nat \<Rightarrow> nat list" where
  "pointer_tree c k 0 p = [p]"
| "pointer_tree c k (Suc l) p =
     (if p = 0 then replicate (k ^ Suc l) 0 else concat (map (\<lambda>i. pointer_tree c k l (le32 (the (c p)) i)) [0..<k]))"

fun tree_readable :: "(nat \<Rightarrow> u8 list option) \<Rightarrow> nat \<Rightarrow> nat \<Rightarrow> nat \<Rightarrow> bool" where
  "tree_readable c k 0 p \<longleftrightarrow> True"
| "tree_readable c k (Suc l) p \<longleftrightarrow>
     p = 0 \<or> (case c p of None \<Rightarrow> False | Some x \<Rightarrow> length x = 4 * k \<and> list_all (\<lambda>i. tree_readable c k l (le32 x i)) [0..<k])"

text \<open>All the pointers of an inode: twelve direct ones and those behind the indirect, double and triple indirect pointer.\<close>

definition inode_pointers :: "(nat \<Rightarrow> u8 list option) \<Rightarrow> nat \<Rightarrow> u8 list \<Rightarrow> nat list" where
  "inode_pointers c k data = map (le32 data) [0..<12] @ pointer_tree c k 1 (le32 data 12) @ pointer_tree c k 2 (le32 data 13) @
     pointer_tree c k 3 (le32 data 14)"

definition pointers_readable :: "(nat \<Rightarrow> u8 list option) \<Rightarrow> nat \<Rightarrow> u8 list \<Rightarrow> bool" where
  "pointers_readable c k data \<longleftrightarrow> length data = 60 \<and> tree_readable c k 1 (le32 data 12) \<and> tree_readable c k 2 (le32 data 13) \<and>
     tree_readable c k 3 (le32 data 14)"

text \<open>How an inode says where its file is, in a file without holes: written extents that follow each other from block 0 on, or pointers
  of which the first ones are set and the others are not.\<close>

definition file_layout :: "(nat \<Rightarrow> u8 list option) \<Rightarrow> nat \<Rightarrow> inode \<Rightarrow> nat list \<Rightarrow> bool" where
  "file_layout c k ino bl \<longleftrightarrow> EXT4_INLINE_DATA_FL \<notin> set (i_iflags ino) \<and>
     (if EXT4_EXTENTS_FL \<in> set (i_iflags ino)
      then \<exists>depth t. stored c depth (i_data ino) t \<and> contiguous 0 (tree_leaves t) \<and> all_written (tree_leaves t) \<and>
        bl = expand (extent_ranges (tree_leaves t))
      else pointers_readable c k (i_data ino) \<and> 0 \<notin> set bl \<and> (\<exists>n. inode_pointers c k (i_data ino) = bl @ replicate n 0))"

text \<open>The tool's view: the nonzero pointers.\<close>

fun pointer_blocks :: "(nat \<Rightarrow> u8 list option) \<Rightarrow> nat \<Rightarrow> nat \<Rightarrow> nat list" where
  "pointer_blocks c 0 p = [p]"
| "pointer_blocks c (Suc l) p = concat (map (pointer_blocks c l) (unpack_pointers (the (c p))))"

fun pointers_ok :: "(nat \<Rightarrow> u8 list option) \<Rightarrow> nat \<Rightarrow> nat \<Rightarrow> bool" where
  "pointers_ok c 0 p \<longleftrightarrow> True"
| "pointers_ok c (Suc l) p \<longleftrightarrow> c p \<noteq> None \<and> list_all (pointers_ok c l) (unpack_pointers (the (c p)))"

definition level_blocks :: "(nat \<Rightarrow> u8 list option) \<Rightarrow> nat \<Rightarrow> nat \<Rightarrow> nat list" where
  "level_blocks c l p = (if p = 0 then [] else pointer_blocks c l p)"

lemma concat_map_single: "concat (map (pointer_blocks c 0) xs) = xs"
  by (induction xs) simp_all

lemma slice_four: "a + 4 \<le> length data \<Longrightarrow> slice a (a + 4) data = [data ! a, data ! (a + 1), data ! (a + 2), data ! (a + 3)]"
  by (rule nth_equalityI) (auto simp: slice_def less_Suc_eq numeral_eq_Suc)

lemma le_nat_slice: "4 * i + 4 \<le> length data \<Longrightarrow> le_nat (slice (4 * i) (4 * i + 4) data) = le32 data i"
  by (simp add: slice_four le32_def)

lemma unpack_from_le32:
  "4 * (i + n) \<le> length data \<Longrightarrow> unpack_from n (4 * i) data = filter (\<lambda>p. p \<noteq> 0) (map (le32 data) [i..<i + n])"
proof (induction n arbitrary: i)
  case (Suc n)
  have "4 * (Suc i + n) \<le> length data" using Suc.prems by simp
  note ih = Suc.IH [OF this]
  have o: "4 * i + 4 = 4 * Suc i" by simp
  have c: "[i..<i + Suc n] = i # [Suc i..<Suc i + n]" by (simp add: upt_conv_Cons del: upt_Suc)
  have p: "le_nat (slice (4 * i) (4 * i + 4) data) = le32 data i" using Suc.prems by (intro le_nat_slice) simp
  show ?case unfolding c using p ih by (simp only: unpack_from.simps p Let_def o ih filter.simps list.map)
qed simp

lemma unpack_pointers_le32: "length data = 4 * k \<Longrightarrow> unpack_pointers data = filter (\<lambda>p. p \<noteq> 0) (map (le32 data) [0..<k])"
  using unpack_from_le32 [of 0 k data] by (simp add: unpack_pointers_def)

lemma filter_concat_map: "filter P (concat (map f xs)) = concat (map (\<lambda>x. filter P (f x)) xs)"
  by (induction xs) simp_all

lemma concat_map_nonzero: "(\<And>x. g x = 0 \<Longrightarrow> f x = []) \<Longrightarrow> concat (map f xs) = concat (map f (filter (\<lambda>x. g x \<noteq> (0 :: nat)) xs))"
  by (induction xs) auto

text \<open>The two views agree up to the zeros.\<close>

lemma pointer_tree_blocks:
  "tree_readable c k l p \<Longrightarrow> filter (\<lambda>q. q \<noteq> 0) (pointer_tree c k l p) = level_blocks c l p \<and> (p \<noteq> 0 \<longrightarrow> pointers_ok c l p)"
proof (induction l arbitrary: p)
  case (Suc l)
  show ?case
  proof (cases "p = 0")
    case False
    then obtain x where x: "c p = Some x" "length x = 4 * k" "\<And>i. i < k \<Longrightarrow> tree_readable c k l (le32 x i)"
      using Suc.prems by (auto simp: list_all_iff split: option.splits)
    have u: "unpack_pointers x = map (le32 x) (filter (\<lambda>i. le32 x i \<noteq> 0) [0..<k])"
      unfolding unpack_pointers_le32 [OF x(2)] by (simp add: filter_map comp_def)
    have "filter (\<lambda>q. q \<noteq> 0) (pointer_tree c k (Suc l) p) = concat (map (\<lambda>i. level_blocks c l (le32 x i)) [0..<k])"
    proof -
      have "filter (\<lambda>q. q \<noteq> 0) (pointer_tree c k l (le32 x i)) = level_blocks c l (le32 x i)" if "i \<in> set [0..<k]" for i
        using Suc.IH [OF x(3)] that by simp
      then have "map (\<lambda>i. filter (\<lambda>q. q \<noteq> 0) (pointer_tree c k l (le32 x i))) [0..<k] = map (\<lambda>i. level_blocks c l (le32 x i)) [0..<k]"
        by (intro map_cong) simp_all
      then show ?thesis using False x(1) by (simp only: pointer_tree.simps if_False filter_concat_map option.sel)
    qed
    also have "\<dots> = concat (map (\<lambda>i. level_blocks c l (le32 x i)) (filter (\<lambda>i. le32 x i \<noteq> 0) [0..<k]))"
      by (rule concat_map_nonzero) (simp add: level_blocks_def)
    also have "\<dots> = level_blocks c (Suc l) p"
    proof -
      have "map (\<lambda>i. level_blocks c l (le32 x i)) (filter (\<lambda>i. le32 x i \<noteq> 0) [0..<k]) =
          map (\<lambda>i. pointer_blocks c l (le32 x i)) (filter (\<lambda>i. le32 x i \<noteq> 0) [0..<k])"
        by (intro map_cong) (auto simp: level_blocks_def)
      then show ?thesis using False x(1) by (simp only: level_blocks_def [of c "Suc l"] pointer_blocks.simps option.sel u map_map comp_def if_False)
    qed
    finally show ?thesis using False x Suc.IH by (auto simp: u list_all_iff)
  qed (simp add: level_blocks_def)
qed (simp add: level_blocks_def)

context block_reads
begin

lemma read_all_pointers_blocks:
  assumes one: "\<And>d p. inv d \<Longrightarrow> pointers_ok (content d) l p \<Longrightarrow>
      \<exists>d'. read_pointers pread bs l p d = Some (pointer_blocks (content d) l p, d') \<and> inv d' \<and> content d' = content d"
    and "inv d" "list_all (pointers_ok (content d) l) ps"
  shows "\<exists>d'. read_all_pointers pread bs l ps d = Some (concat (map (pointer_blocks (content d) l) ps), d') \<and> inv d' \<and> content d' = content d"
  using assms(2,3)
proof (induction ps arbitrary: d)
  case (Cons p ps)
  then obtain d1 where d1: "read_pointers pread bs l p d = Some (pointer_blocks (content d) l p, d1)" "inv d1" "content d1 = content d"
    using one [of d p] by auto
  from Cons.IH [OF d1(2)] Cons.prems(2) d1(3) obtain d2 where
    "read_all_pointers pread bs l ps d1 = Some (concat (map (pointer_blocks (content d) l) ps), d2)" "inv d2" "content d2 = content d" by auto
  with d1(1) show ?case by (simp del: read_pointers.simps)
qed simp

lemma read_pointers_blocks:
  assumes "inv d" "pointers_ok (content d) (Suc l) p"
  shows "\<exists>d'. read_pointers pread bs (Suc l) p d = Some (pointer_blocks (content d) (Suc l) p, d') \<and> inv d' \<and> content d' = content d"
  using assms
proof (induction l arbitrary: d p)
  case 0
  then obtain x where "content d p = Some x" by auto
  from read_one [OF 0(1) this] this show ?case by (auto simp: concat_map_single)
next
  case (Suc l)
  then obtain x where x: "content d p = Some x" by auto
  from read_one [OF Suc.prems(1) x] obtain d1 where d1: "read_blocks pread bs p 1 d = Some (x, d1)" "inv d1" "content d1 = content d" by blast
  have "list_all (pointers_ok (content d1) (Suc l)) (unpack_pointers x)" using Suc.prems(2) x d1(3) by simp
  from read_all_pointers_blocks [OF Suc.IH d1(2) this] d1 x show ?case by auto
qed

lemma pointer_level_blocks:
  assumes "inv d" "p \<noteq> 0 \<longrightarrow> pointers_ok (content d) (Suc l) p"
  shows "\<exists>d'. pointer_level pread bs (Suc l) p d = Some (level_blocks (content d) (Suc l) p, d') \<and> inv d' \<and> content d' = content d"
  using read_pointers_blocks [OF assms(1), of l p] assms by (auto simp: pointer_level_def level_blocks_def simp del: read_pointers.simps)

lemma indirect_chunks:
  assumes "inv d" "pointers_readable (content d) k data"
  shows "\<exists>d'. parse_indirect_blocks_chunks pread bs data d =
      Some (chunks_of bs (join_ranges (filter (\<lambda>p. p \<noteq> 0) (inode_pointers (content d) k data))), d') \<and> inv d' \<and> content d' = content d"
proof -
  let ?c = "content d"
  have len: "length data = 60" using assms(2) by (simp add: pointers_readable_def)
  have t: "filter (\<lambda>q. q \<noteq> 0) (pointer_tree ?c k l (le32 data (11 + l))) = level_blocks ?c l (le32 data (11 + l))"
    "le32 data (11 + l) \<noteq> 0 \<longrightarrow> pointers_ok ?c l (le32 data (11 + l))" if "l \<in> {1, 2, 3}" for l
    using pointer_tree_blocks [of ?c k l "le32 data (11 + l)"] assms(2) that by (auto simp: pointers_readable_def)
  have ok: "le32 data 12 \<noteq> 0 \<longrightarrow> pointers_ok ?c (Suc 0) (le32 data 12)" "le32 data 13 \<noteq> 0 \<longrightarrow> pointers_ok ?c (Suc (Suc 0)) (le32 data 13)"
    "le32 data 14 \<noteq> 0 \<longrightarrow> pointers_ok ?c (Suc (Suc (Suc 0))) (le32 data 14)"
    using t(2) [of 1] t(2) [of 2] t(2) [of 3] by (simp_all add: numeral_2_eq_2 numeral_3_eq_3 del: pointers_ok.simps)
  have direct: "unpack_pointers (slice 0 48 data) = filter (\<lambda>p. p \<noteq> 0) (map (le32 data) [0..<12])"
  proof -
    have "le32 (slice 0 48 data) i = le32 data i" if "i < 12" for i using that len by (simp add: le32_def slice_def)
    then have "map (le32 (slice 0 48 data)) [0..<12] = map (le32 data) [0..<12]" by (intro map_cong) simp_all
    then show ?thesis using unpack_pointers_le32 [of "slice 0 48 data" 12] len by (simp only:) (simp add: slice_def)
  qed
  have u: "unpack 4 (slice 48 52 data) = Some (le32 data 12)" "unpack 4 (slice 52 56 data) = Some (le32 data 13)"
    "unpack 4 (slice 56 60 data) = Some (le32 data 14)"
    using len le_nat_slice [of 12 data] le_nat_slice [of 13 data] le_nat_slice [of 14 data] by (simp_all add: unpack_def) (simp_all add: slice_def)
  from pointer_level_blocks [OF assms(1) ok(1)] obtain d1 where
    d1: "pointer_level pread bs 1 (le32 data 12) d = Some (level_blocks ?c 1 (le32 data 12), d1)" "inv d1" "content d1 = ?c"
    by auto
  from pointer_level_blocks [OF d1(2), of _ "Suc 0"] ok(2) d1(3) obtain d2 where
    d2: "pointer_level pread bs 2 (le32 data 13) d1 = Some (level_blocks ?c 2 (le32 data 13), d2)" "inv d2" "content d2 = ?c"
    unfolding numeral_2_eq_2 by metis
  from pointer_level_blocks [OF d2(2), of _ "Suc (Suc 0)"] ok(3) d2(3) obtain d3 where
    d3: "pointer_level pread bs 3 (le32 data 14) d2 = Some (level_blocks ?c 3 (le32 data 14), d3)" "inv d3" "content d3 = ?c"
    unfolding numeral_3_eq_3 by metis
  have "filter (\<lambda>p. p \<noteq> 0) (inode_pointers ?c k data) = unpack_pointers (slice 0 48 data) @ level_blocks ?c 1 (le32 data 12) @
      level_blocks ?c 2 (le32 data 13) @ level_blocks ?c 3 (le32 data 14)"
    using t(1) [of 1] t(1) [of 2] t(1) [of 3] by (simp only: inode_pointers_def filter_append direct) simp
  then show ?thesis using len u d1 d2 d3 by (simp add: parse_indirect_blocks_chunks_def)
qed

text \<open>The chunks of an inode are its blocks in order.\<close>

lemma inode_chunks:
  assumes "inv d" "file_layout (content d) k ino bl"
  shows "\<exists>rs d'. inode_to_chunks pread bs ino d = Some (i_size ino, chunks_of bs rs, d') \<and> expand rs = bl \<and> inv d' \<and> content d' = content d"
proof (cases "EXT4_EXTENTS_FL \<in> set (i_iflags ino)")
  case True
  then obtain depth t where t: "stored (content d) depth (i_data ino) t" "contiguous 0 (tree_leaves t)" "all_written (tree_leaves t)"
      "bl = expand (extent_ranges (tree_leaves t))"
    using assms(2) by (auto simp: file_layout_def)
  from extent_tree_chunks [OF assms(1) t(1-3)] t(4) True assms(2) show ?thesis
    by (force simp: inode_to_chunks_def file_layout_def)
next
  case False
  then obtain n where l: "pointers_readable (content d) k (i_data ino)" "0 \<notin> set bl" "inode_pointers (content d) k (i_data ino) = bl @ replicate n 0"
    using assms(2) by (auto simp: file_layout_def)
  have "filter (\<lambda>p. p \<noteq> 0) (inode_pointers (content d) k (i_data ino)) = bl" using l(2) by (simp add: l(3) filter_id_conv) (metis gr0I)
  with indirect_chunks [OF assms(1) l(1)] join_ranges_expand [of bl] False assms(2) show ?thesis
    by (force simp: inode_to_chunks_def file_layout_def)
qed

end

section \<open>The recovery session\<close>

text \<open>The files a snapshot leads to, in the order they are written, when \<open>content\<close> is what reads return.\<close>

definition version_bytes :: "nat \<Rightarrow> (nat \<Rightarrow> u8 list option) \<Rightarrow> nat \<times> chunk list \<Rightarrow> u8 list" where
  "version_bytes bs c = (\<lambda>(fsize, chunks). take fsize (blocks_bytes c (expand (map (\<lambda>(addr, len). (addr div bs, len div bs)) chunks))))"

definition version_ok :: "nat \<Rightarrow> (nat \<Rightarrow> u8 list option) \<Rightarrow> nat \<times> chunk list \<Rightarrow> bool" where
  "version_ok bs c = (\<lambda>(fsize, chunks). \<exists>rs. chunks = chunks_of bs rs \<and> readable c rs \<and> sum_list (map snd (butlast rs)) * bs \<le> fsize)"

definition version_outputs :: "nat \<Rightarrow> (nat \<Rightarrow> u8 list option) \<Rightarrow> pystr \<Rightarrow> nat \<Rightarrow> (nat \<times> chunk list) list \<Rightarrow> (pystr \<times> u8 list) list" where
  "version_outputs bs c path k vs = map (\<lambda>(i, v). (output_name path i, version_bytes bs c v)) (enumerate k vs)"

definition snapshot_outputs :: "nat \<Rightarrow> (nat \<Rightarrow> u8 list option) \<Rightarrow> snapshot \<Rightarrow> (pystr \<times> u8 list) list" where
  "snapshot_outputs bs c snap = concat (map (\<lambda>(path, ino). case inodes snap ino of None \<Rightarrow> [] | Some vs \<Rightarrow> version_outputs bs c path 0 vs) (dirs snap))"

definition snapshot_ok :: "nat \<Rightarrow> (nat \<Rightarrow> u8 list option) \<Rightarrow> snapshot \<Rightarrow> bool" where
  "snapshot_ok bs c snap \<longleftrightarrow> (\<forall>(path, ino) \<in> set (dirs snap). \<forall>vs. inodes snap ino = Some vs \<longrightarrow> list_all (version_ok bs c) vs)"

lemma chunks_of_ranges: "0 < bs \<Longrightarrow> map (\<lambda>(addr, len). (addr div bs, len div bs)) (chunks_of bs rs) = rs"
  by (induction rs) auto

text \<open>A device between the signals of the tool: from \<open>idle\<close> a read of the start block leads into a session, in which reads return
  \<open>content\<close>, and a read of the stop block leads back.\<close>

locale recovery_disk = block_reads pread bs inv content
  for pread :: "'d disk" and bs :: nat and inv :: "'d \<Rightarrow> bool" and content :: "'d \<Rightarrow> nat \<Rightarrow> u8 list option" +
  fixes idle :: "'d \<Rightarrow> bool"
  assumes start_session: "idle d \<Longrightarrow> \<exists>x d'. read_blocks pread bs 120002 1 d = Some (x, d') \<and> inv d' \<and> content d' = content d"
    and stop_session: "inv d \<Longrightarrow> \<exists>x d'. read_blocks pread bs 120003 1 d = Some (x, d') \<and> idle d' \<and> content d' = content d"
begin

lemma recover_versions_outputs:
  assumes "idle d" "list_all (version_ok bs (content d)) vs"
  shows "\<exists>d'. recover_versions pread bs path k vs (files, d) = Some (files ++ map_of (rev (version_outputs bs (content d) path k vs)), d') \<and>
    idle d' \<and> content d' = content d"
  using assms
proof (induction vs arbitrary: k files d)
  case (Cons v vs)
  obtain fsize chunks where v: "v = (fsize, chunks)" by (cases v)
  from Cons.prems(2) obtain rs where rs: "chunks = chunks_of bs rs" "readable (content d) rs" "sum_list (map snd (butlast rs)) * bs \<le> fsize"
    by (auto simp: v version_ok_def)
  from start_session [OF Cons.prems(1)] obtain x d1 where d1: "read_blocks pread bs 120002 1 d = Some (x, d1)" "inv d1" "content d1 = content d" by blast
  from file_from_chunks [OF d1(2), of rs fsize] rs d1(3) obtain d2 where
    d2: "get_file_from_chunks pread bs chunks fsize d1 = Some (take fsize (blocks_bytes (content d) (expand rs)), d2)" "inv d2" "content d2 = content d" by auto
  from stop_session [OF d2(2)] d2(3) obtain y d3 where d3: "read_blocks pread bs 120003 1 d2 = Some (y, d3)" "idle d3" "content d3 = content d" by auto
  have b: "version_bytes bs (content d) v = take fsize (blocks_bytes (content d) (expand rs))"
    by (simp add: version_bytes_def v rs(1) chunks_of_ranges [OF block_size] del: map_map)
  define f1 where "f1 = files(output_name path k \<mapsto> take fsize (blocks_bytes (content d) (expand rs)))"
  from Cons.IH [OF d3(2), of "k + 1" f1] Cons.prems(2) d3(3)
  obtain d4 where d4: "recover_versions pread bs path (k + 1) vs (f1, d3) = Some (f1 ++ map_of (rev (version_outputs bs (content d) path (k + 1) vs)), d4)"
      "idle d4" "content d4 = content d" by auto
  have m: "files(output_name path k \<mapsto> x) ++ map_of (rev (version_outputs bs (content d) path (k + 1) vs)) =
      files ++ map_of (rev ((output_name path k, x) # version_outputs bs (content d) path (k + 1) vs))" for x
    by (simp add: map_add_upd_left map_of_append)
  show ?case
    using d1(1) d2(1) d3(1) d4 m b
    by (intro exI [of _ d4]) (simp add: v trigger_recovertag_start_def trigger_recovertag_end_def Let_def version_outputs_def f1_def)
qed (simp add: version_outputs_def)

lemma recover_file_outputs:
  assumes "idle d" "Block_size sb = bs" "snapshot_ok bs (content d) snap"
  shows "\<exists>d'. recover_file pread sb snap (files, d) = Some (files ++ map_of (rev (snapshot_outputs bs (content d) snap)), d') \<and> idle d' \<and>
    content d' = content d"
proof -
  have "\<exists>d'. for_each ps (\<lambda>(filename_full, inode_id) st. case inodes snap inode_id of None \<Rightarrow> Some st
        | Some versions \<Rightarrow> recover_versions pread bs filename_full 0 versions st) (files, d) =
      Some (files ++ map_of (rev (concat (map (\<lambda>(path, ino). case inodes snap ino of None \<Rightarrow> [] | Some vs \<Rightarrow> version_outputs bs (content d) path 0 vs) ps))), d') \<and>
      idle d' \<and> content d' = content d"
    if "idle d" "\<forall>(path, ino) \<in> set ps. \<forall>vs. inodes snap ino = Some vs \<longrightarrow> list_all (version_ok bs (content d)) vs" for ps d files
    using that
  proof (induction ps arbitrary: d files)
    case (Cons p ps)
    obtain path ino where p: "p = (path, ino)" by (cases p)
    show ?case
    proof (cases "inodes snap ino")
      case None
      then show ?thesis using Cons by (simp add: p)
    next
      case (Some vs)
      then have "list_all (version_ok bs (content d)) vs" using Cons.prems(2) p by simp
      from recover_versions_outputs [OF Cons.prems(1) this] obtain d1 where
        d1: "recover_versions pread bs path 0 vs (files, d) = Some (files ++ map_of (rev (version_outputs bs (content d) path 0 vs)), d1)"
          "idle d1" "content d1 = content d" by blast
      have "\<forall>(path, ino) \<in> set ps. \<forall>vs. inodes snap ino = Some vs \<longrightarrow> list_all (version_ok bs (content d1)) vs"
        using Cons.prems(2) d1(3) by simp
      from Cons.IH [OF d1(2) this, unfolded d1(3), of "files ++ map_of (rev (version_outputs bs (content d) path 0 vs))"] obtain d2 where d2: "for_each ps (\<lambda>(filename_full, inode_id) st. case inodes snap inode_id of None \<Rightarrow> Some st
          | Some versions \<Rightarrow> recover_versions pread bs filename_full 0 versions st) (files ++ map_of (rev (version_outputs bs (content d) path 0 vs)), d1) =
        Some (files ++ map_of (rev (version_outputs bs (content d) path 0 vs)) ++
          map_of (rev (concat (map (\<lambda>(path, ino). case inodes snap ino of None \<Rightarrow> [] | Some vs \<Rightarrow> version_outputs bs (content d) path 0 vs) ps))), d2)"
        "idle d2" "content d2 = content d" by blast
      show ?thesis using d1(1) d2 Some by (intro exI [of _ d2]) (simp add: p map_of_append map_add_assoc)
    qed
  qed simp
  from this [OF assms(1), of "dirs snap"] assms(3) show ?thesis
    unfolding recover_file_def snapshot_outputs_def snapshot_ok_def assms(2) by blast
qed

end

section \<open>UTF-8\<close>

definition scalar :: "nat \<Rightarrow> bool" where "scalar c \<longleftrightarrow> c < 0x110000 \<and> \<not> (0xD800 \<le> c \<and> c < 0xE000)"

definition utf8_char :: "nat \<Rightarrow> nat list" where
  "utf8_char c = (if c < 0x80 then [c]
     else if c < 0x800 then [0xC0 + c div 64, 0x80 + c mod 64]
     else if c < 0x10000 then [0xE0 + c div 4096, 0x80 + c div 64 mod 64, 0x80 + c mod 64]
     else [0xF0 + c div 262144, 0x80 + c div 4096 mod 64, 0x80 + c div 64 mod 64, 0x80 + c mod 64])"

definition utf8_encode :: "pystr \<Rightarrow> nat list" where
  "utf8_encode cs = concat (map utf8_char cs)"

lemma div_64: "c div 64 div 64 = c div 4096" "c div 4096 div 64 = c div 262144" for c :: nat
  by (simp_all add: div_mult2_eq [symmetric])

lemma base64: "c div 64 * 64 + c mod 64 = c" "c div 4096 * 64 + c div 64 mod 64 = c div 64" "c div 262144 * 64 + c div 4096 mod 64 = c div 4096" for c :: nat
  using div_mult_mod_eq [of c 64] div_mult_mod_eq [of "c div 64" 64] div_mult_mod_eq [of "c div 4096" 64] by (simp_all only: div_64)

lemma base64_sum: "4096 * (c div 4096) + c div 64 mod 64 * 64 + c mod 64 = c"
    "262144 * (c div 262144) + 4096 * (c div 4096 mod 64) + c div 64 mod 64 * 64 + c mod 64 = c" for c :: nat
  using base64 [of c] by linarith+

lemma tail_byte: "(128 + n mod 64) div 64 = (2 :: nat)" "(128 + n mod 64) mod 64 = (n mod 64 :: nat)"
  by (simp_all add: div_add1_eq mod_add_eq [symmetric] mod_add_right_eq)

lemma utf8_decode_char:
  assumes "scalar c"
  shows "utf8_decode (utf8_char c @ rest) = map_option ((#) c) (utf8_decode rest)"
proof -
  consider "c < 0x80" | "0x80 \<le> c" "c < 0x800" | "0x800 \<le> c" "c < 0x10000" | "0x10000 \<le> c" "c < 0x110000"
    using assms by (force simp: scalar_def)
  then show ?thesis
  proof cases
    case 2
    then have "c div 64 < 32" "2 \<le> c div 64" by (simp_all add: less_mult_imp_div_less)
    then show ?thesis using 2 assms by (simp add: utf8_char_def utf8_tail_def tail_byte base64 base64_sum scalar_def)
  next
    case 3
    then have "c div 4096 < 16" by (simp add: less_mult_imp_div_less)
    then show ?thesis using 3 assms by (simp add: utf8_char_def utf8_tail_def tail_byte base64 base64_sum scalar_def)
  next
    case 4
    then have "c div 262144 < 8" by (simp add: less_mult_imp_div_less)
    then show ?thesis using 4 assms by (simp add: utf8_char_def utf8_tail_def tail_byte base64 base64_sum scalar_def)
  qed (simp add: utf8_char_def)
qed

lemma utf8_decode_encode: "list_all scalar cs \<Longrightarrow> utf8_decode (utf8_encode cs) = Some cs"
  by (induction cs) (simp_all add: utf8_encode_def utf8_decode_char)

lemma utf8_bytes: "scalar c \<Longrightarrow> b \<in> set (utf8_char c) \<Longrightarrow> b < 256"
proof -
  assume a: "scalar c" "b \<in> set (utf8_char c)"
  have m: "n mod 64 < 64" for n :: nat by simp
  have "c < 0x800 \<Longrightarrow> c div 64 < 32" "c < 0x10000 \<Longrightarrow> c div 4096 < 16" "c div 262144 < 8"
    using a(1) by (simp_all add: less_mult_imp_div_less scalar_def)
  then show ?thesis using a(2) m [of c] m [of "c div 64"] m [of "c div 4096"] by (auto simp: utf8_char_def split: if_splits)
qed

section \<open>Directory blocks\<close>

text \<open>The types of a directory entry and their numbers, as fs/ext4/ext4.h has them; no type is number 0, and numbers that ext4 does
  not use stand for themselves.\<close>

fun type_number :: "dir_filetype option \<Rightarrow> nat" where
  "type_number None = 0"
| "type_number (Some (Type S_IFREG)) = 1"
| "type_number (Some (Type S_IFDIR)) = 2"
| "type_number (Some (Type S_IFCHR)) = 3"
| "type_number (Some (Type S_IFBLK)) = 4"
| "type_number (Some (Type S_IFIFO)) = 5"
| "type_number (Some (Type S_IFSOCK)) = 6"
| "type_number (Some (Type S_IFLNK)) = 7"
| "type_number (Some (Raw n)) = n"

fun type_ok :: "dir_filetype option \<Rightarrow> bool" where
  "type_ok (Some (Raw n)) \<longleftrightarrow> 8 \<le> n \<and> n < 256"
| "type_ok _ \<longleftrightarrow> True"

text \<open>An entry as ext4 stores it: inode, type, name and what lies between the name and the next entry; \<open>rec_len\<close> is the length it
  claims to have.\<close>

type_synonym dirent = "nat \<times> dir_filetype option \<times> pystr \<times> u8 list"

definition name_bytes :: "pystr \<Rightarrow> u8 list" where
  "name_bytes name = map of_nat (utf8_encode name)"

definition raw_dirent :: "nat \<Rightarrow> dirent \<Rightarrow> u8 list" where
  "raw_dirent rec_len = (\<lambda>(inode, ftype, name, pad). le_list 4 inode @ le_list 2 rec_len @ le_list 1 (length (name_bytes name)) @
     le_list 1 (type_number ftype) @ name_bytes name @ pad)"

definition dirent_size :: "dirent \<Rightarrow> nat" where
  "dirent_size = (\<lambda>(inode, ftype, name, pad). 8 + length (name_bytes name) + length pad)"

definition dirent_bytes :: "dirent \<Rightarrow> u8 list" where
  "dirent_bytes e = raw_dirent (dirent_size e) e"

definition dirent_ok :: "dirent \<Rightarrow> bool" where
  "dirent_ok e = (case e of (inode, ftype, name, pad) \<Rightarrow> inode < 2 ^ 32 \<and> type_ok ftype \<and> list_all scalar name \<and>
     length (name_bytes name) \<le> 255 \<and> dirent_size e < 2 ^ 16)"

definition dirent_entries :: "nat \<Rightarrow> dirent list \<Rightarrow> dir_entry list" where
  "dirent_entries version ds = map (\<lambda>(inode, ftype, name, pad). \<lparr>de_version = version, de_inode = inode, de_filetype = ftype, de_name = name\<rparr>)
     (filter (\<lambda>(inode, _). inode \<noteq> 0) ds)"

lemma dirent_entries_simps: "dirent_entries v [] = []" "dirent_entries v (e # ds) = dirent_entries v [e] @ dirent_entries v ds"
  "dirent_entries v (ds @ es) = dirent_entries v ds @ dirent_entries v es"
  by (simp_all add: dirent_entries_def)

lemma parse_type_number: "type_ok t \<Longrightarrow> parse_file_type (type_number t) = t \<and> type_number t < 256"
  by (cases t rule: type_number.cases) (simp_all add: parse_file_type_def)

lemma raw_dirent_length: "length (raw_dirent n e) = dirent_size e"
  by (cases e) (simp add: raw_dirent_def dirent_size_def del: le_list_simps(2))

lemma decode_name: "list_all scalar name \<Longrightarrow> py_decode (name_bytes name) = Some name"
proof -
  assume a: "list_all scalar name"
  then have "map (unat \<circ> (of_nat :: nat \<Rightarrow> u8)) (utf8_encode name) = utf8_encode name"
    by (auto simp: utf8_encode_def list_all_iff unat_of_nat intro!: map_idI mod_less utf8_bytes)
  then show ?thesis using utf8_decode_encode [OF a] by (simp add: py_decode_def name_bytes_def)
qed

text \<open>One round on a well-formed entry, whatever length it claims.\<close>

lemma readdir_one_entry:
  assumes "dirent_ok e" "n < 2 ^ 16" "drop offset data = raw_dirent n e @ rest" "offset \<le> length data"
  shows "readdir_one True v data offset = Inr (n, dirent_entries v [e])"
proof -
  obtain inode ftype name pad where e: "e = (inode, ftype, name, pad)" by (cases e)
  let ?nb = "name_bytes name"
  have ok: "inode < 256 ^ 4" "type_ok ftype" "length ?nb < 256 ^ 1" "list_all scalar name" "n < 256 ^ 2" "length ?nb \<le> 255"
    using assms(1,2) by (simp_all add: e dirent_ok_def)
  have d: "drop offset data = le_list 4 inode @ le_list 2 n @ le_list 1 (length ?nb) @ le_list 1 (type_number ftype) @ ?nb @ pad @ rest"
    using assms(3) by (simp add: e raw_dirent_def)
  have s: "slice offset (offset + 4) data = le_list 4 inode" "slice (offset + 4) (offset + 6) data = le_list 2 n"
    "slice (offset + 6) (offset + 7) data = le_list 1 (length ?nb)" "slice (offset + 7) (offset + 8) data = le_list 1 (type_number ftype)"
    "slice (offset + 8) (offset + 8 + length ?nb) data = ?nb"
    using slice_drop [of 0 4 offset data] slice_drop [of 4 6 offset data] slice_drop [of 6 7 offset data] slice_drop [of 7 8 offset data]
      slice_drop [of 8 "8 + length ?nb" offset data]
    by (simp_all add: d slice_fields add.assoc del: le_list_simps(2))
  have t: "parse_file_type (type_number ftype) = ftype" "type_number ftype < 256 ^ 1" using parse_type_number [OF ok(2)] by simp_all
  show ?thesis using ok t assms(4)
    by (simp add: readdir_one_def s unpack_le decode_name dirent_entries_def e del: le_list_simps(2))
qed

lemma readdir_prefix:
  assumes "list_all dirent_ok ds" "drop offset data = concat (map dirent_bytes ds) @ rest" "offset \<le> length data" "rest \<noteq> []"
  shows "\<exists>o2. readdir_loop True v data offset entries = readdir_loop True v data o2 (entries @ dirent_entries v ds) \<and> drop o2 data = rest \<and>
    o2 \<le> length data"
  using assms
proof (induction ds arbitrary: offset entries)
  case Nil
  then show ?case by (intro exI [of _ offset]) (simp add: dirent_entries_simps)
next
  case (Cons e ds)
  have ok: "dirent_ok e" "dirent_size e < 2 ^ 16" using Cons.prems(1) by (auto simp: dirent_ok_def)
  have d: "drop offset data = raw_dirent (dirent_size e) e @ concat (map dirent_bytes ds) @ rest"
    using Cons.prems(2) by (simp add: dirent_bytes_def [of e])
  let ?o = "offset + dirent_size e"
  have o2: "drop ?o data = concat (map dirent_bytes ds) @ rest"
    using arg_cong [OF d, of "drop (dirent_size e)"] by (simp add: raw_dirent_length add.commute)
  have "length data - offset = dirent_size e + length (concat (map dirent_bytes ds) @ rest)"
    using arg_cong [OF d, of length] by (simp add: raw_dirent_length)
  then have l: "?o < length data" using Cons.prems(3,4) by (simp add: length_greater_0_conv [symmetric] del: length_greater_0_conv)
  have "readdir_loop True v data offset entries = readdir_loop True v data ?o (entries @ dirent_entries v [e])"
    by (subst readdir_loop.simps) (use l readdir_one_entry [OF ok d Cons.prems(3)] in simp)
  moreover from Cons.IH [OF _ o2 _ Cons.prems(4), of "entries @ dirent_entries v [e]"] Cons.prems(1) l obtain o3 where
    "readdir_loop True v data ?o (entries @ dirent_entries v [e]) =
      readdir_loop True v data o3 (entries @ dirent_entries v [e] @ dirent_entries v ds)" "drop o3 data = rest" "o3 \<le> length data" by auto
  ultimately show ?case by (auto simp: dirent_entries_simps(2) [of v e ds])
qed

text \<open>C25: On a file system with the filetype feature the loop over a directory block returns, without an exception, exactly the
  entries that ext4 stored in it, with their version, inode, type and name, those of removed files left out: any well-formed entries
  that fill the block, names in any script, any of ext4's types, whatever lies between a name and the next entry.\<close>

theorem readdir_block_entries:
  assumes "''filetype'' \<in> set (Filesystem_features sb)" "list_all dirent_ok ds" "ds \<noteq> []"
  shows "readdir_block sb (concat (map dirent_bytes ds)) version = Some (Inr (dirent_entries version ds))"
proof -
  obtain es e where ds: "ds = es @ [e]" using assms(3) by (cases ds rule: rev_cases) auto
  let ?data = "concat (map dirent_bytes ds)"
  have ok: "dirent_ok e" "dirent_size e < 2 ^ 16" using assms(2) by (auto simp: ds dirent_ok_def)
  have "dirent_bytes e \<noteq> []" by (cases e) (simp add: dirent_bytes_def raw_dirent_def le_list_def)
  with readdir_prefix [of es 0 ?data "dirent_bytes e" version "[]"] assms(2) obtain o2 where
    o2: "readdir_loop True version ?data 0 [] = readdir_loop True version ?data o2 (dirent_entries version es)" "drop o2 ?data = dirent_bytes e"
      "o2 \<le> length ?data" by (auto simp: ds)
  have d: "drop o2 ?data = raw_dirent (dirent_size e) e @ []" using o2(2) by (simp add: dirent_bytes_def)
  have "o2 + dirent_size e = length ?data"
    using arg_cong [OF d, of length] o2(3) by (simp add: raw_dirent_length)
  then have "readdir_loop True version ?data o2 (dirent_entries version es) = Some (Inr (dirent_entries version es @ dirent_entries version [e]))"
    by (subst readdir_loop.simps) (use readdir_one_entry [OF ok d o2(3)] in simp)
  then show ?thesis using o2(1) assms(1) by (simp add: readdir_block_def ds dirent_entries_simps(3))
qed

text \<open>Code points of one, two, three and four bytes.\<close>

theorem readdir_block_entries_witness:
  "readdir_block \<lparr>Block_size = 40, Filesystem_features = [''filetype'']\<rparr>
     (concat (map dirent_bytes [(12, Some (Type S_IFREG), [65, 228], [0]), (0, None, [120], []), (13, Some (Type S_IFIFO), [8364, 128512], [7])])) 2 =
   Some (Inr [\<lparr>de_version = 2, de_inode = 12, de_filetype = Some (Type S_IFREG), de_name = [65, 228]\<rparr>,
     \<lparr>de_version = 2, de_inode = 13, de_filetype = Some (Type S_IFIFO), de_name = [8364, 128512]\<rparr>])"
  by (subst readdir_block_entries)
    (simp_all add: dirent_ok_def dirent_size_def scalar_def name_bytes_def utf8_encode_def utf8_char_def dirent_entries_def)

lemma readdir_stuck:
  assumes "readdir_one f v data offset = Inr (0, new)" "offset < length data"
  shows "readdir_loop f v data offset entries = None"
proof (rule ccontr)
  assume "readdir_loop f v data offset entries \<noteq> None"
  then obtain r where r: "readdir_loop f v data offset entries = Some r" by auto
  have "f' = f \<longrightarrow> v' = v \<longrightarrow> data' = data \<longrightarrow> offset' = offset \<longrightarrow> False"
    if "readdir_loop f' v' data' offset' entries' = Some r'" for f' v' data' offset' entries' r'
  proof (rule readdir_loop.raw_induct
      [OF _ that, where P = "\<lambda>f' v' data' offset' entries' r'. f' = f \<longrightarrow> v' = v \<longrightarrow> data' = data \<longrightarrow> offset' = offset \<longrightarrow> False"])
  qed (use assms in \<open>fastforce split: if_splits sum.splits prod.splits\<close>)
  from this [OF r] show False by blast
qed

text \<open>C40: A directory block in which any number of valid entries is followed by an entry that is valid but for its length, which is 0,
  is read for ever: the loop neither returns nor raises an exception.\<close>

theorem readdir_zero_length:
  assumes "''filetype'' \<in> set (Filesystem_features sb)" "list_all dirent_ok ds" "dirent_ok e"
  shows "readdir_block sb (concat (map dirent_bytes ds) @ raw_dirent 0 e @ rest) version = None"
proof -
  let ?data = "concat (map dirent_bytes ds) @ raw_dirent 0 e @ rest"
  have r: "raw_dirent 0 e @ rest \<noteq> []" by (cases e) (simp add: raw_dirent_def le_list_def)
  from readdir_prefix [OF assms(2), of 0 ?data "raw_dirent 0 e @ rest" version "[]"] r obtain o2 where
    o2: "readdir_loop True version ?data 0 [] = readdir_loop True version ?data o2 (dirent_entries version ds)"
      "drop o2 ?data = raw_dirent 0 e @ rest" "o2 \<le> length ?data" by auto
  have "o2 < length ?data" using o2(2) r by (metis drop_eq_Nil not_le)
  with readdir_stuck [OF readdir_one_entry [OF assms(3) _ o2(2,3)]] show ?thesis using o2(1) assms(1) by (simp add: readdir_block_def)
qed

theorem readdir_zero_length_witness:
  "readdir_block \<lparr>Block_size = 4096, Filesystem_features = [''filetype'']\<rparr>
     (concat (map dirent_bytes [(12, Some (Type S_IFREG), [65], [])]) @ raw_dirent 0 (13, Some (Type S_IFREG), [66], []) @ replicate 4078 0) 0 = None"
  by (rule readdir_zero_length)
    (simp_all add: dirent_ok_def dirent_size_def scalar_def name_bytes_def utf8_encode_def utf8_char_def)

section \<open>Names of the recovered files\<close>

text \<open>The directory's last component runs into the file's name, so files of different directories collide.\<close>

lemma output_name_collision: "output_name (lit ''/a/b.txt'') k = output_name (lit ''/ab.txt'') k"
  by (simp add: output_name_def path_split_def path_splitext_def after_slash_def Let_def)

end
