(* ===== verification/Recover_Host.thy ===== *)
theory Recover_Host
  imports Recover_Ext4 Detect_Evasion Host_Device
begin

text \<open>
  The recovery tool on the host: a read of blocks becomes READ(10) commands, which the detection module tags
  (\<open>linux_analyse_cbw\<close>), the SSD answers page by page (\<open>ssd_read\<close>: endpoint handlers, task ring, main loop, \<open>ONFM_Read\<close>, FTL) and
  the module's data hook (\<open>linux_ransomtag_storage_handle_sectors\<close>) sees on the way back. How the guest's block layer splits a read is a parameter of
  the state; blocks are of 4096 bytes, the size of a page.
\<close>

section \<open>The host\<close>

record host =
  module :: linux_state
  ssd :: "sim_state ubi_state device_state"
  commands :: "nat \<Rightarrow> nat \<Rightarrow> (nat \<times> nat) list"

abbreviation flash :: "host \<Rightarrow> sim_state ubi_state ftl_state" where "flash h \<equiv> ftl (onfm (ssd h))"

abbreviation capacity :: "host \<Rightarrow> u32" where "capacity h \<equiv> MSC_BlockCount (msc (ssd h))"

definition with_flash :: "sim_state ubi_state ftl_state \<Rightarrow> host \<Rightarrow> host" where
  "with_flash s h = h\<lparr>ssd := (ssd h)\<lparr>onfm := (onfm (ssd h))\<lparr>ftl := s\<rparr>\<rparr>\<rparr>"

lemma with_flash_simps [simp]: "flash (with_flash s h) = s" "capacity (with_flash s h) = capacity h" "module (with_flash s h) = module h"
  by (simp_all add: with_flash_def)

text \<open>READ(10) of \<open>n\<close> blocks from block \<open>b\<close>, eight sectors each.\<close>

definition read_cbw :: "nat \<Rightarrow> nat \<Rightarrow> cbw" where
  "read_cbw b n = (let lba = of_nat (8 * b) :: u32; count = of_nat (8 * n) :: u16 in
     \<lparr>dCBWSignature = 0x43425355, dCBWTag = 1, dCBWDataTransferLength = of_nat (4096 * n), bmCBWFlags = 0x80, bCBWLUN = 0, bCBWCBLength = 10,
      CBWCB = (\<lambda>k. if k = 0 then 0x28 else if k = 2 then ucast (drop_bit 24 lba) else if k = 3 then ucast (drop_bit 16 lba)
       else if k = 4 then ucast (drop_bit 8 lba) else if k = 5 then ucast lba
       else if k = 7 then ucast (drop_bit 8 count) else if k = 8 then ucast count else 0)\<rparr>)"

definition host_command :: "nat \<times> nat \<Rightarrow> host \<Rightarrow> (u8 list \<times> host) option" where
  "host_command = (\<lambda>(b, n) h. do {
     (c, m) \<leftarrow> linux_analyse_cbw (read_cbw b n) (module h);
     (data, d) \<leftarrow> ssd_read sim_ubi (wire c) n (ssd h);
     (dst, m) \<leftarrow> linux_ransomtag_storage_handle_sectors (of_nat (8 * n)) 512 False (\<lambda>k. data ! k) (\<lambda>_. 0) m;
     Some (map dst [0..<4096 * n], h\<lparr>module := m, ssd := d\<rparr>) })"

fun host_commands :: "(nat \<times> nat) list \<Rightarrow> host \<Rightarrow> (u8 list \<times> host) option" where
  "host_commands [] h = Some ([], h)"
| "host_commands (c # cs) h = do {
     (data, h) \<leftarrow> host_command c h;
     (rest, h) \<leftarrow> host_commands cs h;
     Some (data @ rest, h) }"

text \<open>A read around the page cache needs whole blocks.\<close>

definition host_pread :: "host disk" where
  "host_pread len off h = do {
     ASSERT (len mod 4096 = 0 \<and> off mod 4096 = 0);
     host_commands (commands h (off div 4096) (len div 4096)) h }"

section \<open>What reads return\<close>

text \<open>The block layer asks for exactly the blocks, in order, in commands of at most 65535 sectors.\<close>

definition splits :: "(nat \<Rightarrow> nat \<Rightarrow> (nat \<times> nat) list) \<Rightarrow> bool" where
  "splits cmds \<longleftrightarrow> (\<forall>b k. 0 < k \<longrightarrow> concat (map (\<lambda>(a, n). [a..<a + n]) (cmds b k)) = [b..<b + k] \<and> (\<forall>(a, n) \<in> set (cmds b k). 0 < n \<and> n \<le> 8191))"

text \<open>The data hook does nothing but parse inodes, and data without what looks like an inode of a directory changes nothing.\<close>

definition quiet :: "linux_state \<Rightarrow> bool" where
  "quiet m \<longleftrightarrow> \<not> read_ext4_metadata m \<and> \<not> read_group_desc_metadata m \<and>
     (let isz = unat (s_inode_size (super_block m)) in isz dvd 4096 \<and> 64 \<le> isz)"

definition looks_like_dir :: "bytes \<Rightarrow> nat \<Rightarrow> bool" where
  "looks_like_dir p k \<longleftrightarrow> (le_at p k 2 :: u16) AND 0x4000 \<noteq> 0 \<and> (le_at p (k + 40) 2 :: u16) = 0xF30A"

definition plain :: "nat \<Rightarrow> bytes \<Rightarrow> bool" where
  "plain isz p \<longleftrightarrow> (\<forall>i < 4096 div isz. \<not> looks_like_dir p (i * isz))"

definition page_version :: "bool \<Rightarrow> host \<Rightarrow> nat \<Rightarrow> mem option" where
  "page_version recovery h b = (if 2 \<le> b \<and> 8 * (b + 1) \<le> unat (capacity h) then
     (case sim_versions (flash h) (of_nat b) of None \<Rightarrow> None
      | Some (cur, benign) \<Rightarrow> let v = (if recovery then benign else cur) in
          if plain (unat (s_inode_size (super_block (module h)))) (bytes_of v) then Some v else None)
     else None)"

definition signals :: "nat set" where "signals = {120000..120003}"

text \<open>The bytes of a block as a read returns them, in a recovery session or outside.\<close>

definition block_content :: "bool \<Rightarrow> host \<Rightarrow> nat \<Rightarrow> u8 list option" where
  "block_content recovery h b =
     (if b \<in> signals then None else map_option (\<lambda>m. map (bytes_of m) [0..<4096]) (page_version recovery h b))"

definition host_ok :: "host \<Rightarrow> bool" where
  "host_ok h \<longleftrightarrow> ext4_tables_ok (module h) \<and> quiet (module h) \<and> splits (commands h) \<and> (\<exists>r. sim_ready r (flash h)) \<and>
     msc_idle (capacity h) (msc (ssd h)) \<and> page_version False h 120002 \<noteq> None \<and> page_version False h 120003 \<noteq> None"

definition recovering :: "bool \<Rightarrow> host \<Rightarrow> bool" where
  "recovering recovery h \<longleftrightarrow> host_ok h \<and> \<not> trigger_mfttag_start (module h) \<and> trigger_recovertag_start (module h) = recovery"

section \<open>The path of a command\<close>

lemma block_bound: "8 * (b + 1) \<le> unat (cap :: u32) \<Longrightarrow> b + 1 < 2 ^ 29"
proof -
  assume a: "8 * (b + 1) \<le> unat cap"
  have "unat cap < 2 ^ 32" by (rule order_less_le_trans [OF unsigned_less]) simp
  with a show ?thesis by simp
qed

lemma read_cbw_fields [simp]: "cbw_lba (read_cbw b n) = of_nat (8 * b)" "CBWCB (read_cbw b n) 0 = 0x28" "CBWCB (read_cbw b n) 6 = 0"
proof -
  have "cbw_lba (read_cbw b n) = cbw_lba (demo_cbw 0 (of_nat (8 * b)))"
    by (simp add: cbw_lba_def read_cbw_def demo_cbw_def Let_def)
  then show "cbw_lba (read_cbw b n) = of_nat (8 * b)" by simp
qed (simp_all add: read_cbw_def Let_def)

lemma read_cbw_command:
  assumes "n \<le> 8191"
  shows "page_read_command (wire (read_cbw b n)) b n"
proof -
  have l: "be32 (CBWCB (read_cbw b n) 2) (CBWCB (read_cbw b n) 3) (CBWCB (read_cbw b n) 4) (CBWCB (read_cbw b n) 5) = of_nat (8 * b)"
    using read_cbw_fields(1) [of b n] by (simp only: be32_def cbw_lba_def)
  define k :: u16 where "k = of_nat (8 * n)"
  have k: "unat k = 8 * n" using assms by (simp add: k_def unat_of_nat del: of_nat_mult)
  have "unat (be32 0 0 (ucast (drop_bit 8 k)) (ucast k :: u8)) = unat (ucast (drop_bit 8 k) :: u8) * 2 ^ 8 + unat (ucast k :: u8)"
    by (simp add: be32_value)
  also have "\<dots> = 8 * n"
  proof -
    have e: "unat (ucast (drop_bit 8 k) :: u8) = 8 * n div 256"
      using k assms by (simp add: unsigned_ucast_eq unsigned_drop_bit_eq drop_bit_eq_div unat_div take_bit_eq_mod)
    have l: "unat (ucast k :: u8) = 8 * n mod 256"
      using k by (simp add: unsigned_ucast_eq take_bit_eq_mod)
    have p: "(2 :: nat) ^ 8 = 256" by simp
    show ?thesis unfolding e l p by (rule div_mult_mod_eq)
  qed
  finally have "be32 0 0 (ucast (drop_bit 8 k)) (ucast k) = (of_nat (8 * n) :: u32)"
    using assms by (simp add: word_unat_eq_iff unat_of_nat del: of_nat_mult)
  then have m: "be32 0 0 (CBWCB (read_cbw b n) 7) (CBWCB (read_cbw b n) 8) = of_nat (8 * n)"
    by (simp add: read_cbw_def Let_def k_def)
  show ?thesis using l m unfolding page_read_command_def wire_def MSC_CBW.simps
    by (simp add: read_cbw_def Let_def del: of_nat_mult)
qed

lemma block_lba:
  assumes "b < 2 ^ 29"
  shows "unat (of_nat (8 * b) :: u32) = 8 * b" "drop_bit 3 (of_nat (8 * b) :: u32) = of_nat b"
proof -
  show u: "unat (of_nat (8 * b) :: u32) = 8 * b" using assms by (simp add: unat_of_nat del: of_nat_mult)
  have "unat (drop_bit 3 (of_nat (8 * b) :: u32)) = unat (of_nat b :: u32)"
    unfolding unat_drop_bit_eq u using assms by (simp add: drop_bit_eq_div unat_of_nat del: of_nat_mult)
  then show "drop_bit 3 (of_nat (8 * b) :: u32) = of_nat b" by (simp add: word_unat_eq_iff)
qed

lemma signal_block_number:
  assumes "b < 2 ^ 29" "k < 4"
  shows "signal_block k (of_nat (8 * b)) \<longleftrightarrow> b = 120000 + unat k"
proof -
  have "unat k < 4" using assms(2) by (simp add: word_less_nat_alt)
  then have "unat (EXT4_BLOCK_TO_SECTOR_START (120000 + k)) = 8 * (120000 + unat k)"
    by (simp add: EXT4_BLOCK_TO_SECTOR_START_def unat_word_ariths)
  then show ?thesis using block_lba(1) [OF assms(1)] by (auto simp: signal_block_def word_unat_eq_iff)
qed

lemma signal_number: "b < 2 ^ 29 \<Longrightarrow> is_signal (of_nat (8 * b)) \<longleftrightarrow> b \<in> signals"
  using signal_block_number [of b 0] signal_block_number [of b 1] signal_block_number [of b 2] signal_block_number [of b 3]
  by (auto simp: is_signal_def signals_def)

text \<open>What a read command leaves alone.\<close>

definition same_hook :: "linux_state \<Rightarrow> linux_state \<Rightarrow> bool" where
  "same_hook m m' \<longleftrightarrow> super_block m' = super_block m \<and> read_ext4_metadata m' = read_ext4_metadata m \<and>
     read_group_desc_metadata m' = read_group_desc_metadata m"

lemma analyse_read:
  assumes "ext4_tables_ok m" "CBWCB c 0 = 0x28" "cbw_lba c \<noteq> 0" "cbw_lba c \<noteq> 8"
  shows "\<exists>m1. linux_analyse_cbw c m = Some (linux_read_tag (cbw_lba c) (c, m1)) \<and> ext4_tables_ok m1 \<and> same_hook m m1 \<and>
     trigger_mfttag_start m1 = trigger_mfttag_start m \<and> trigger_recovertag_start m1 = trigger_recovertag_start m"
proof -
  define m2 where "m2 = m\<lparr>sector_index := ucast (cbw_lba c)\<rparr>"
  have n: "linux_note_metadata_read (cbw_lba c) (dCBWDataTransferLength c) m2 = m2"
    using assms(3,4) by (simp add: linux_note_metadata_read_def EXT4_SUPERBLOCK_LBA_def SECTOR_TO_EXT4_BLOCK_def)
  have f: "ext4_tables_ok m2" using assms(1) by (simp add: m2_def ext4_tables_ok_def itable_blocks_count_def)
  from inode_table_sector_ok [OF f] obtain it where it: "linux_is_inode_table_sector m2 (cbw_lba c) = Some it" by blast
  show ?thesis
    using assms(1,2) it n
    by (intro exI [of _ "if it then linux_note_inodes c m2 else m2"])
      (auto simp: linux_analyse_cbw_def Let_def m2_def linux_note_inodes_def same_hook_def ext4_tables_ok_def itable_blocks_count_def)
qed

lemma parse_inodes_plain: "\<forall>i < n. \<not> looks_like_dir dst (p + i * isz) \<Longrightarrow> parse_inodes dst isz n p t = Some t"
proof (induction n arbitrary: p)
  case (Suc n)
  have "\<not> looks_like_dir dst p" using Suc.prems by (force dest: spec [of _ 0])
  moreover have "\<forall>i < n. \<not> looks_like_dir dst (p + isz + i * isz)"
    using Suc.prems by (auto simp: add.assoc dest: spec [of _ "Suc _"])
  ultimately show ?case using Suc.IH by (auto simp: looks_like_dir_def)
qed simp

lemma looks_like_dir_shift: "looks_like_dir p (a + b) \<longleftrightarrow> looks_like_dir (\<lambda>k. p (a + k)) b"
  by (simp add: looks_like_dir_def le_at_def add.assoc)

lemma looks_like_dir_cong: "(\<And>k. k < 42 \<Longrightarrow> p (b + k) = q (b + k)) \<Longrightarrow> looks_like_dir p b \<longleftrightarrow> looks_like_dir q b"
proof -
  assume a: "\<And>k. k < 42 \<Longrightarrow> p (b + k) = q (b + k)"
  then have "(le_at p b 2 :: u16) = le_at q b 2" unfolding le_at_def by (intro le_load_cong) simp
  moreover have "(le_at p (b + 40) 2 :: u16) = le_at q (b + 40) 2"
    unfolding le_at_def using a [of "40 + _"] by (intro le_load_cong) (simp add: add.assoc)
  ultimately show ?thesis by (simp add: looks_like_dir_def)
qed

lemma slots_plain:
  assumes "isz dvd 4096" "64 \<le> isz" "\<And>j. j < n \<Longrightarrow> plain isz (\<lambda>k. src (4096 * j + k))"
    and "\<And>k. k < 4096 * n \<Longrightarrow> dst k = src k"
  shows "\<forall>i < 4096 * n div isz. \<not> looks_like_dir dst (0 + i * isz)"
proof (intro allI impI)
  fix i assume i: "i < 4096 * n div isz"
  obtain q where q: "4096 = isz * q" using assms(1) by (rule dvdE)
  have q0: "0 < q" "4096 div isz = q"
  proof -
    show "0 < q" using q by (cases q) simp_all
    have "isz * q div isz = q" using assms(2) by (intro nonzero_mult_div_cancel_left) simp
    then show "4096 div isz = q" by (simp only: q)
  qed
  have "i < q * n" using i assms(2) by (simp add: q mult.assoc)
  then have j: "i div q < n" using q0 by (simp add: less_mult_imp_div_less mult.commute)
  have "i * isz = (i div q * q + i mod q) * isz" by simp
  then have e: "i * isz = 4096 * (i div q) + i mod q * isz" by (simp only: q add_mult_distrib) (simp add: ac_simps)
  have m: "i mod q < 4096 div isz" using q0 by simp
  then have "(i mod q + 1) * isz \<le> q * isz" using q0(2) by (intro mult_le_mono1) simp
  then have "i mod q * isz + isz \<le> 4096" by (simp add: q mult.commute)
  then have b: "i * isz + k < 4096 * n" if "k < 42" for k
    using that assms(2) j mult_le_mono2 [of "i div q + 1" n 4096] unfolding e by simp
  have "\<not> looks_like_dir src (i * isz)"
    using assms(3) [OF j] m unfolding e looks_like_dir_shift plain_def by blast
  then show "\<not> looks_like_dir dst (0 + i * isz)"
    using looks_like_dir_cong [of dst "i * isz" src] assms(4) [OF b] by simp
qed

lemma hook_plain:
  assumes "quiet m" "0 < n" "n \<le> 8191" "\<And>j. j < n \<Longrightarrow> plain (unat (s_inode_size (super_block m))) (\<lambda>k. src (4096 * j + k))"
  shows "\<exists>i. linux_ransomtag_storage_handle_sectors (of_nat (8 * n)) 512 False src dst m =
    Some (memcpy_bytes (4096 * n) src dst, m\<lparr>sector_index := i\<rparr>)"
proof -
  define count :: u32 where "count = of_nat (8 * n)"
  have u: "unat count = 8 * n" using assms(3) by (simp add: count_def unat_of_nat del: of_nat_mult)
  then have len: "unat (count * 512) = 4096 * n" using assms(3) by (simp add: unat_word_ariths)
  have pos: "0 < count" using u assms(2) by (simp add: word_gt_0_no [symmetric] word_less_nat_alt)
  define isz where "isz = unat (s_inode_size (super_block m))"
  have q: "isz dvd 4096" "64 \<le> isz" "\<not> read_ext4_metadata m" "\<not> read_group_desc_metadata m"
    using assms(1) by (simp_all add: quiet_def Let_def isz_def)
  have "parse_inodes (memcpy_bytes (4096 * n) src dst) isz (4096 * n div isz) 0 t = Some t" for t
    by (rule parse_inodes_plain, rule slots_plain [OF q(1,2)]) (use assms(4) in \<open>simp_all add: isz_def memcpy_bytes_def\<close>)
  then have "hook_inodes (memcpy_bytes (4096 * n) src dst) (count * 512) m = Some m"
    using q(2) by (simp add: hook_inodes_def len isz_def [symmetric])
  then show ?thesis
    using q(3,4) hook_split [OF pos, of 512 src dst m] unfolding count_def [symmetric]
    by (auto simp: hook_super_def hook_groups_def Let_def len)
qed

section \<open>Commands\<close>

lemma page_version_Some:
  "page_version recovery h b = Some v \<longleftrightarrow> 2 \<le> b \<and> 8 * (b + 1) \<le> unat (capacity h) \<and> plain (unat (s_inode_size (super_block (module h)))) (bytes_of v) \<and>
     (\<exists>cur benign. sim_versions (flash h) (of_nat b) = Some (cur, benign) \<and> v = (if recovery then benign else cur))"
  by (auto simp: page_version_def Let_def split: option.splits if_splits)

lemma nth_concat_equal: "(\<And>i. i < n \<Longrightarrow> length (f i) = L) \<Longrightarrow> j < n \<Longrightarrow> k < L \<Longrightarrow> concat (map f [0..<n]) ! (L * j + k) = f j ! k"
proof (induction n)
  case (Suc n)
  have len: "length (concat (map f [0..<n])) = L * n" using Suc.prems(1)
    by (induction n) (simp_all add: add.commute)
  show ?case
  proof (cases "j = n")
    case True
    then show ?thesis using len Suc.prems(3) by (simp add: nth_append)
  next
    case False
    then have j: "j < n" using Suc.prems(2) by simp
    have "L * j + k < L * n" using j Suc.prems(3) mult_le_mono2 [of "Suc j" n L] by simp
    then show ?thesis using Suc j len by (simp add: nth_append)
  qed
qed simp

text \<open>After a command the module is in the state of its tag, its hook's state and the versions of the pages as before.\<close>

definition command_done :: "host \<Rightarrow> linux_state \<Rightarrow> host \<Rightarrow> bool" where
  "command_done h m h' \<longleftrightarrow> commands h' = commands h \<and> (\<exists>i. module h' = m\<lparr>sector_index := i\<rparr>) \<and>
     sim_versions (flash h') = sim_versions (flash h) \<and> (\<exists>r. sim_ready r (flash h')) \<and> capacity h' = capacity h \<and>
     msc_idle (capacity h) (msc (ssd h'))"

lemma host_command_pages:
  assumes "linux_analyse_cbw (read_cbw b n) (module h) = Some (c, m)" "page_read_command (wire c) b n"
    and "recover_bits (CBWCB c 6) = recovery" "\<not> mft_bits (CBWCB c 6)" "quiet m" "same_hook (module h) m"
    and "sim_ready r (flash h)" "msc_idle (capacity h) (msc (ssd h))"
    and "0 < n" "n \<le> 8191" "\<And>i. i < n \<Longrightarrow> page_version recovery h (b + i) = Some (v i)"
  shows "\<exists>h'. host_command (b, n) h = Some (concat (map (\<lambda>i. map (bytes_of (v i)) [0..<4096]) [0..<n]), h') \<and> command_done h m h'"
proof -
  have last: "8 * (b + n) \<le> unat (capacity h)" using assms(11) [of "n - 1"] assms(9) by (simp add: page_version_Some)
  then have b: "b + n < 2 ^ 29" using block_bound [of "b + n - 1" "capacity h"] assms(9) by simp
  define w where "w i = the (sim_versions (flash h) (of_nat (b + i)))" for i
  have w: "sim_versions (flash h) (of_nat (b + i)) = Some (fst (w i), snd (w i))" "v i = (if recovery then snd (w i) else fst (w i))" if "i < n" for i
    using assms(11) [OF that] by (auto simp: page_version_Some w_def)
  let ?f = "\<lambda>i. map (bytes_of (if recovery then snd (w i) else fst (w i))) [0..<4096]"
  have cb: "CB (wire c) = CBWCB c" by (simp add: wire_def)
  have "\<not> mft_bits (CB (wire c) 6)" using assms(4) by (simp add: cb)
  from ssd_read_versions [OF assms(8,2,9,10) b last this assms(7) w(1)] obtain d' where
    d': "ssd_read sim_ubi (wire c) n (ssd h) = Some (concat (map ?f [0..<n]), d')" "sim_ready r (ftl (onfm d'))"
      "sim_versions (ftl (onfm d')) = sim_versions (flash h)" "msc_idle (capacity h) (msc d')" by (auto simp: cb assms(3))
  have data: "concat (map ?f [0..<n]) = concat (map (\<lambda>i. map (bytes_of (v i)) [0..<4096]) [0..<n])"
    by (intro arg_cong [where f = concat] map_cong) (simp_all add: w(2))
  define data where "data = concat (map (\<lambda>i. map (bytes_of (v i)) [0..<4096]) [0..<n])"
  have nth: "data ! (4096 * j + k) = bytes_of (v j) k" if "j < n" "k < 4096" for j k
    using nth_concat_equal [of n "\<lambda>i. map (bytes_of (v i)) [0..<4096]" 4096 j k] that by (simp add: data_def)
  have len: "length data = 4096 * n" unfolding data_def by (induction n) simp_all
  have pl: "plain (unat (s_inode_size (super_block m))) (\<lambda>k. data ! (4096 * j + k))" if "j < n" for j
  proof -
    let ?isz = "unat (s_inode_size (super_block m))"
    have q: "?isz dvd 4096" "64 \<le> ?isz" using assms(5) by (simp_all add: quiet_def Let_def)
    have p: "plain ?isz (bytes_of (v j))" using assms(6) assms(11) [OF that] by (simp add: page_version_Some same_hook_def)
    have "plain ?isz (\<lambda>k. bytes_of (v j) (4096 * j' + k))" if "j' < 1" for j' using p that by simp
    from slots_plain [OF q this, of 1 "\<lambda>k. data ! (4096 * j + k)"] nth [OF \<open>j < n\<close>] show ?thesis by (simp add: plain_def)
  qed
  from hook_plain [OF assms(5,9,10), of "\<lambda>k. data ! k" "\<lambda>_. 0"] pl obtain i where
    i: "linux_ransomtag_storage_handle_sectors (of_nat (8 * n)) 512 False (\<lambda>k. data ! k) (\<lambda>_. 0) m =
      Some (memcpy_bytes (4096 * n) (\<lambda>k. data ! k) (\<lambda>_. 0), m\<lparr>sector_index := i\<rparr>)" by blast
  have out: "map (memcpy_bytes (4096 * n) (\<lambda>k. data ! k) (\<lambda>_. 0)) [0..<4096 * n] = data"
    by (rule nth_equalityI) (simp_all add: len memcpy_bytes_def)
  have "host_command (b, n) h = Some (data, h\<lparr>module := m\<lparr>sector_index := i\<rparr>, ssd := d'\<rparr>)"
    using assms(1) d'(1) data i out by (simp add: host_command_def data_def [symmetric] del: of_nat_mult)
  then show ?thesis using d'(2-4) by (auto simp: command_done_def data_def msc_idle_def)
qed

section \<open>Reads inside and outside a session\<close>

lemma command_done_ok:
  assumes "command_done h m h'" "same_hook (module h) m" "ext4_tables_ok m" "host_ok h"
  shows "host_ok h'" "page_version r h' = page_version r h" "block_content r h' = block_content r h"
    "trigger_mfttag_start (module h') = trigger_mfttag_start m" "trigger_recovertag_start (module h') = trigger_recovertag_start m"
proof -
  obtain i where c: "commands h' = commands h" "module h' = m\<lparr>sector_index := i\<rparr>" "sim_versions (flash h') = sim_versions (flash h)"
    "\<exists>r. sim_ready r (flash h')" "capacity h' = capacity h" "msc_idle (capacity h) (msc (ssd h'))" using assms(1) by (auto simp: command_done_def)
  have sb: "super_block (module h') = super_block (module h)" using c(2) assms(2) by (simp add: same_hook_def)
  have v: "page_version q h' = page_version q h" for q unfolding fun_eq_iff page_version_def c(3,5) sb by simp
  then show "page_version r h' = page_version r h" by simp
  show "block_content r h' = block_content r h" by (simp add: fun_eq_iff block_content_def v)
  have "ext4_tables_ok (module h')" using assms(3) c(2) by (simp add: ext4_tables_ok_def itable_blocks_count_def)
  moreover have "quiet (module h')" using assms(2,4) c(2) by (simp add: host_ok_def quiet_def same_hook_def)
  ultimately show "host_ok h'" using assms(4) c v by (simp add: host_ok_def)
qed (use assms(1) in \<open>auto simp: command_done_def\<close>)

lemma block_lba_nonzero: "2 \<le> b \<Longrightarrow> b < 2 ^ 29 \<Longrightarrow> (of_nat (8 * b) :: u32) \<noteq> 0 \<and> (of_nat (8 * b) :: u32) \<noteq> 8"
proof -
  assume b: "2 \<le> b" "b < 2 ^ 29"
  then have "unat (of_nat (8 * b) :: u32) = 8 * b" using block_lba(1) by blast
  moreover have "unat (0 :: u32) \<noteq> 8 * b" "unat (8 :: u32) \<noteq> 8 * b" using b(1) by simp_all
  ultimately show ?thesis by metis
qed

lemma analyse_block:
  assumes "host_ok h" "2 \<le> b" "b < 2 ^ 29"
  shows "\<exists>m1. linux_analyse_cbw (read_cbw b n) (module h) = Some (linux_read_tag (of_nat (8 * b)) (read_cbw b n, m1)) \<and> ext4_tables_ok m1 \<and>
     same_hook (module h) m1 \<and> quiet m1 \<and> trigger_mfttag_start m1 = trigger_mfttag_start (module h) \<and>
     trigger_recovertag_start m1 = trigger_recovertag_start (module h)"
proof -
  have ok: "ext4_tables_ok (module h)" "quiet (module h)" using assms(1) by (simp_all add: host_ok_def)
  have l: "CBWCB (read_cbw b n) 0 = 0x28" "cbw_lba (read_cbw b n) \<noteq> 0" "cbw_lba (read_cbw b n) \<noteq> 8"
    using block_lba_nonzero [OF assms(2,3)] by (simp_all del: of_nat_mult)
  from analyse_read [OF ok(1) l] obtain m1 where m1: "linux_analyse_cbw (read_cbw b n) (module h) = Some (linux_read_tag (of_nat (8 * b)) (read_cbw b n, m1))"
    "ext4_tables_ok m1" "same_hook (module h) m1" "trigger_mfttag_start m1 = trigger_mfttag_start (module h)"
    "trigger_recovertag_start m1 = trigger_recovertag_start (module h)"
    unfolding read_cbw_fields(1) by blast
  moreover have "quiet m1" using ok(2) m1(3) by (simp add: quiet_def same_hook_def)
  ultimately show ?thesis by blast
qed

text \<open>A command away from the signal blocks.\<close>

lemma command_in_session:
  assumes "recovering recovery h" "0 < n" "n \<le> 8191" "\<And>i. i < n \<Longrightarrow> block_content recovery h (b + i) \<noteq> None"
  shows "\<exists>h'. host_command (b, n) h = Some (concat (map (\<lambda>b. the (block_content recovery h b)) [b..<b + n]), h') \<and> recovering recovery h' \<and>
    block_content recovery h' = block_content recovery h"
proof -
  have ok: "host_ok h" and trig: "\<not> trigger_mfttag_start (module h)" "trigger_recovertag_start (module h) = recovery"
    using assms(1) by (simp_all add: recovering_def)
  obtain r where r: "sim_ready r (flash h)" using ok by (auto simp: host_ok_def)
  define v where "v i = the (page_version recovery h (b + i))" for i
  have v: "page_version recovery h (b + i) = Some (v i)" "block_content recovery h (b + i) = Some (map (bytes_of (v i)) [0..<4096])" if "i < n" for i
    using assms(4) [OF that] by (auto simp: block_content_def v_def split: if_splits)
  have b: "2 \<le> b" "b + 1 < 2 ^ 29" "b \<notin> signals"
    using v(1) [of 0] assms(4) [of 0] assms(2) block_bound by (auto simp: page_version_Some block_content_def split: if_splits)
  then have b29: "b < 2 ^ 29" by simp
  have idle: "msc_idle (capacity h) (msc (ssd h))" using ok by (simp add: host_ok_def)
  from analyse_block [OF ok b(1) b29, of n] obtain m1 where
    m1: "linux_analyse_cbw (read_cbw b n) (module h) = Some (linux_read_tag (of_nat (8 * b)) (read_cbw b n, m1))" "ext4_tables_ok m1"
      "same_hook (module h) m1" "quiet m1" "\<not> trigger_mfttag_start m1" "trigger_recovertag_start m1 = recovery" using trig by auto
  define c where "c = (if recovery then AddTag RECOVERTAG (read_cbw b n) else read_cbw b n)"
  have ns: "\<not> is_signal (of_nat (8 * b))" using signal_number [OF b29] b(3) by (simp del: of_nat_mult)
  then have "linux_read_tag (of_nat (8 * b)) (read_cbw b n, m1) = (c, m1)"
    using m1(5,6) by (auto simp: linux_read_tag_def is_signal_def c_def simp del: of_nat_mult)
  with m1(1) have a: "linux_analyse_cbw (read_cbw b n) (module h) = Some (c, m1)" by simp
  have l: "page_read_command (wire c) b n" using read_cbw_command [OF assms(3)] by (simp add: c_def wire_AddTag)
  have f: "recover_bits (CBWCB c 6) = recovery" "\<not> mft_bits (CBWCB c 6)"
    using recovery_tag_bits [of "read_cbw b n"] by (simp_all add: c_def recover_bits_def mft_bits_def)
  from host_command_pages [OF a l f m1(4,3) r idle assms(2,3) v(1)] obtain h' where
    h': "host_command (b, n) h = Some (concat (map (\<lambda>i. map (bytes_of (v i)) [0..<4096]) [0..<n]), h')" "command_done h m1 h'" by blast
  note fin = command_done_ok [OF h'(2) m1(3,2) ok]
  have "map (\<lambda>b. the (block_content recovery h b)) [b..<b + n] = map (\<lambda>i. map (bytes_of (v i)) [0..<4096]) [0..<n]"
    by (rule nth_equalityI) (simp_all add: v(2))
  then show ?thesis using h'(1) fin m1(5,6) by (intro exI [of _ h']) (simp add: recovering_def)
qed

lemma commands_in_session:
  assumes "recovering recovery h" "\<forall>(a, n) \<in> set cs. 0 < n \<and> n \<le> 8191"
    and "\<And>b. b \<in> set (concat (map (\<lambda>(a, n). [a..<a + n]) cs)) \<Longrightarrow> block_content recovery h b \<noteq> None"
  shows "\<exists>h'. host_commands cs h = Some (concat (map (\<lambda>b. the (block_content recovery h b)) (concat (map (\<lambda>(a, n). [a..<a + n]) cs))), h') \<and>
    recovering recovery h' \<and> block_content recovery h' = block_content recovery h"
  using assms
proof (induction cs arbitrary: h)
  case (Cons c cs)
  obtain a n where c: "c = (a, n)" by (cases c)
  have n: "0 < n" "n \<le> 8191" using Cons.prems(2) by (simp_all add: c)
  have "block_content recovery h (a + i) \<noteq> None" if "i < n" for i using Cons.prems(3) [of "a + i"] that by (simp add: c)
  from command_in_session [OF Cons.prems(1) n this] obtain h1 where
    h1: "host_command (a, n) h = Some (concat (map (\<lambda>b. the (block_content recovery h b)) [a..<a + n]), h1)" "recovering recovery h1"
      "block_content recovery h1 = block_content recovery h" by blast
  have "block_content recovery h1 b \<noteq> None" if "b \<in> set (concat (map (\<lambda>(a, n). [a..<a + n]) cs))" for b
    using Cons.prems(3) [of b] that h1(3) by (auto simp: c)
  from Cons.IH [OF h1(2) _ this] Cons.prems(2) h1(3) obtain h2 where
    "host_commands cs h1 = Some (concat (map (\<lambda>b. the (block_content recovery h b)) (concat (map (\<lambda>(a, n). [a..<a + n]) cs))), h2)"
      "recovering recovery h2" "block_content recovery h2 = block_content recovery h" by auto
  then show ?case using h1(1) by (simp add: c)
qed simp

lemma pread_in_session:
  assumes "recovering recovery h" "0 < k" "\<And>b. n \<le> b \<Longrightarrow> b < n + k \<Longrightarrow> block_content recovery h b \<noteq> None"
  shows "\<exists>h'. host_pread (k * 4096) (n * 4096) h = Some (concat (map (\<lambda>b. the (block_content recovery h b)) [n..<n + k]), h') \<and>
    recovering recovery h' \<and> block_content recovery h' = block_content recovery h"
proof -
  have "splits (commands h)" using assms(1) by (simp add: recovering_def host_ok_def)
  then have s: "concat (map (\<lambda>(a, n). [a..<a + n]) (commands h n k)) = [n..<n + k]" "\<forall>(a, n) \<in> set (commands h n k). 0 < n \<and> n \<le> 8191"
    using assms(2) by (simp_all add: splits_def)
  from commands_in_session [OF assms(1) s(2)] assms(3) show ?thesis by (simp add: s(1) host_pread_def)
qed

text \<open>The read of a signal block: a command of its own, answered like any untagged read.\<close>

lemma splits_one:
  assumes "splits cmds"
  shows "cmds b 1 = [(b, 1)]"
proof -
  have s: "concat (map (\<lambda>(a, n). [a..<a + n]) (cmds b 1)) = [b]" "\<forall>(a, n) \<in> set (cmds b 1). 0 < n"
    using assms unfolding splits_def by (force dest: spec [of _ b])+
  then obtain a n cs where c: "cmds b 1 = (a, n) # cs" by (cases "cmds b 1") auto
  with s have n: "0 < n" "[a..<a + n] @ concat (map (\<lambda>(a, n). [a..<a + n]) cs) = [b]" by auto
  then have "length [a..<a + n] \<le> 1" by (metis append_eq_Cons_conv length_append length_Cons list.size(3) le_add1 One_nat_def)
  then have "n = 1" using n(1) by simp
  with n(2) have "a = b" "concat (map (\<lambda>(a, n). [a..<a + n]) cs) = []" by simp_all
  moreover have "cs = []" using calculation(2) s(2) c by (cases cs) auto
  ultimately show ?thesis using c \<open>n = 1\<close> by simp
qed

lemma signal_read:
  assumes "recovering (\<not> start) h"
  shows "\<exists>x h'. read_blocks host_pread 4096 (if start then 120002 else 120003) 1 h = Some (x, h') \<and> recovering start h' \<and>
    block_content r h' = block_content r h"
proof -
  define b :: nat where "b = (if start then 120002 else 120003)"
  have ok: "host_ok h" and trig: "\<not> trigger_mfttag_start (module h)" "trigger_recovertag_start (module h) = (\<not> start)"
    using assms by (simp_all add: recovering_def)
  obtain k where k: "sim_ready k (flash h)" using ok by (auto simp: host_ok_def)
  obtain v where v: "page_version False h b = Some v" using ok by (cases start) (auto simp: host_ok_def b_def)
  have b: "2 \<le> b" "b < 2 ^ 29" by (auto simp: b_def)
  from analyse_block [OF ok b, of 1] obtain m1 where
    m1: "linux_analyse_cbw (read_cbw b 1) (module h) = Some (linux_read_tag (of_nat (8 * b)) (read_cbw b 1, m1))" "ext4_tables_ok m1"
      "same_hook (module h) m1" "quiet m1" "\<not> trigger_mfttag_start m1" "trigger_recovertag_start m1 = (\<not> start)" using trig by auto
  define m where "m = m1\<lparr>trigger_recovertag_start := start\<rparr>"
  have sig: "signal_block 0 (of_nat (8 * b)) \<longleftrightarrow> False" "signal_block 1 (of_nat (8 * b)) \<longleftrightarrow> False"
    "signal_block 2 (of_nat (8 * b)) \<longleftrightarrow> start" "signal_block 3 (of_nat (8 * b)) \<longleftrightarrow> \<not> start"
    using signal_block_number [OF b(2), of 0] signal_block_number [OF b(2), of 1] signal_block_number [OF b(2), of 2] signal_block_number [OF b(2), of 3]
    by (auto simp: b_def)
  have "linux_read_tag (of_nat (8 * b)) (read_cbw b 1, m1) = (read_cbw b 1, m)"
    using m1(5,6) by (cases start) (simp_all add: linux_read_tag_def sig m_def is_signal_def del: of_nat_mult)
  with m1(1) have a: "linux_analyse_cbw (read_cbw b 1) (module h) = Some (read_cbw b 1, m)" by simp
  have m: "same_hook (module h) m" "quiet m" "ext4_tables_ok m" using m1(2-4)
    by (simp_all add: m_def same_hook_def quiet_def ext4_tables_ok_def itable_blocks_count_def)
  have pv: "page_version False h (b + i) = Some v" if "i < 1" for i using that v by simp
  have z: "recover_bits (CBWCB (read_cbw b 1) 6) = False" "\<not> mft_bits (CBWCB (read_cbw b 1) 6)" by (simp_all add: recover_bits_def mft_bits_def)
  have idle: "msc_idle (capacity h) (msc (ssd h))" using ok by (simp add: host_ok_def)
  from host_command_pages [OF a read_cbw_command z m(2,1) k idle _ _ pv] obtain h' where
    h': "host_command (b, 1) h = Some (map (bytes_of v) [0..<4096], h')" "command_done h m h'" by auto
  note fin = command_done_ok [OF h'(2) m(1,3) ok]
  have "splits (commands h)" using ok by (simp add: host_ok_def)
  from splits_one [OF this, of b] h'(1) have "read_blocks host_pread 4096 b 1 h = Some (map (bytes_of v) [0..<4096], h')"
    by (simp add: read_blocks_def host_pread_def)
  moreover have "recovering start h'" using fin(1,4,5) m1(5) by (simp add: recovering_def m_def)
  ultimately show ?thesis using fin(3) [of r] unfolding b_def by blast
qed

lemma block_content_length: "block_content recovery h b = Some x \<Longrightarrow> length x = 4096"
  by (auto simp: block_content_def split: if_splits)

interpretation current: block_reads host_pread 4096 "recovering False" "block_content False"
  by (rule block_reads.intro) (simp_all add: block_content_length, rule pread_in_session, simp_all)

interpretation session: recovery_disk host_pread 4096 "recovering True" "block_content True" "recovering False"
proof
  show "\<exists>x d'. read_blocks host_pread 4096 120002 1 d = Some (x, d') \<and> recovering True d' \<and> block_content True d' = block_content True d"
    if "recovering False d" for d using signal_read [of True d True] that by simp
  show "\<exists>x d'. read_blocks host_pread 4096 120003 1 d = Some (x, d') \<and> recovering False d' \<and> block_content True d' = block_content True d"
    if "recovering True d" for d using signal_read [of False d True] that by simp
  show "\<exists>d'. host_pread (k * 4096) (n * 4096) d = Some (concat (map (\<lambda>b. the (block_content True d b)) [n..<n + k]), d') \<and>
      recovering True d' \<and> block_content True d' = block_content True d"
    if "recovering True d" "0 < k" "\<And>b. n \<le> b \<Longrightarrow> b < n + k \<Longrightarrow> block_content True d b \<noteq> None" for d k n
    using pread_in_session [OF that] .
qed (simp_all add: block_content_length)

section \<open>Recovery end to end\<close>

text \<open>The blocks that the tool reads for a snapshot, each file's and the ones behind its chunks.\<close>

definition snapshot_blocks :: "snapshot \<Rightarrow> nat set" where
  "snapshot_blocks snap = {b. \<exists>path ino vs fsize chunks addr len. (path, ino) \<in> set (dirs snap) \<and> inodes snap ino = Some vs \<and> (fsize, chunks) \<in> set vs \<and>
     (addr, len) \<in> set chunks \<and> addr div 4096 \<le> b \<and> b \<le> addr div 4096 + len div 4096}"

lemma snapshot_blocksI:
  "(path, ino) \<in> set (dirs snap) \<Longrightarrow> inodes snap ino = Some vs \<Longrightarrow> (fsize, chunks) \<in> set vs \<Longrightarrow> (addr, len) \<in> set chunks \<Longrightarrow>
   addr div 4096 \<le> b \<Longrightarrow> b \<le> addr div 4096 + len div 4096 \<Longrightarrow> b \<in> snapshot_blocks snap"
  unfolding snapshot_blocks_def by blast

lemma version_agree:
  assumes "version_ok 4096 c v" "\<And>addr len b. (addr, len) \<in> set (snd v) \<Longrightarrow> addr div 4096 \<le> b \<Longrightarrow> b \<le> addr div 4096 + len div 4096 \<Longrightarrow> c' b = c b"
  shows "version_ok 4096 c' v" "version_bytes 4096 c' v = version_bytes 4096 c v"
proof -
  obtain fsize chunks where v: "v = (fsize, chunks)" by (cases v)
  from assms(1) obtain rs where rs: "chunks = chunks_of 4096 rs" "readable c rs" "sum_list (map snd (butlast rs)) * 4096 \<le> fsize"
    by (auto simp: v version_ok_def)
  have e: "c' b = c b" if "(a, n) \<in> set rs" "a \<le> b" "b \<le> a + n" for a n b
    using assms(2) [of "a * 4096" "n * 4096" b] that by (force simp: v rs(1))
  have "readable c' rs" using rs(2) e by (fastforce simp: readable_def)
  then show "version_ok 4096 c' v" using rs(1,3) by (auto simp: v version_ok_def)
  have "c' b = c b" if "b \<in> set (expand rs)" for b using that e by (fastforce simp: expand_def)
  then have "blocks_bytes c' (expand rs) = blocks_bytes c (expand rs)"
    unfolding blocks_bytes_def by (intro arg_cong [where f = concat] map_cong) simp_all
  then show "version_bytes 4096 c' v = version_bytes 4096 c v"
    by (simp add: version_bytes_def v rs(1) chunks_of_ranges [of 4096] del: map_map)
qed

lemma snapshot_agree:
  assumes "snapshot_ok 4096 c snap" "\<And>b. b \<in> snapshot_blocks snap \<Longrightarrow> c' b = c b"
  shows "snapshot_ok 4096 c' snap" "snapshot_outputs 4096 c' snap = snapshot_outputs 4096 c snap"
proof -
  have v: "version_ok 4096 c' v \<and> version_bytes 4096 c' v = version_bytes 4096 c v"
    if "(path, ino) \<in> set (dirs snap)" "inodes snap ino = Some vs" "v \<in> set vs" for path ino vs v
  proof -
    have "version_ok 4096 c v" using assms(1) that by (auto simp: snapshot_ok_def list_all_iff)
    moreover have "c' b = c b" if "(addr, len) \<in> set (snd v)" "addr div 4096 \<le> b" "b \<le> addr div 4096 + len div 4096" for addr len b
    proof (rule assms(2))
      show "b \<in> snapshot_blocks snap"
        using snapshot_blocksI [OF \<open>(path, ino) \<in> _\<close> \<open>inodes snap ino = _\<close>, of "fst v" "snd v"] \<open>v \<in> set vs\<close> that by simp
    qed
    ultimately show ?thesis using version_agree by blast
  qed
  then show "snapshot_ok 4096 c' snap" by (fastforce simp: snapshot_ok_def list_all_iff)
  have "version_outputs 4096 c' path 0 vs = version_outputs 4096 c path 0 vs"
    if "(path, ino) \<in> set (dirs snap)" "inodes snap ino = Some vs" for path ino vs
    using v [OF that] nth_mem by (fastforce simp: version_outputs_def in_set_enumerate_eq)
  then show "snapshot_outputs 4096 c' snap = snapshot_outputs 4096 c snap"
    unfolding snapshot_outputs_def by (intro arg_cong [where f = concat] map_cong) (auto split: option.splits)
qed

lemma snapshot_readable:
  assumes "snapshot_ok 4096 c snap" "b \<in> snapshot_blocks snap"
  shows "c b \<noteq> None"
proof -
  obtain path ino vs fsize chunks addr len where s: "(path, ino) \<in> set (dirs snap)" "inodes snap ino = Some vs" "(fsize, chunks) \<in> set vs"
    "(addr, len) \<in> set chunks" "addr div 4096 \<le> b" "b \<le> addr div 4096 + len div 4096" using assms(2) by (auto simp: snapshot_blocks_def)
  then have "version_ok 4096 c (fsize, chunks)" using assms(1) by (auto simp: snapshot_ok_def list_all_iff)
  then obtain rs where rs: "chunks = chunks_of 4096 rs" "readable c rs" by (auto simp: version_ok_def)
  then obtain a n where "(a, n) \<in> set rs" "addr = a * 4096" "len = n * 4096" using s(4) by auto
  then show ?thesis using rs(2) s(5,6) by (auto simp: readable_def)
qed

text \<open>A page that was not written benignly has the benign version it had.\<close>

lemma benign_content_kept:
  assumes "page_run sim_ubi ubi_held s ops (flash h)" "sim_ready (r + op_pages ops) s" "list_all (\<lambda>op. \<not> benign_write (of_nat b) op) ops"
    and "block_content True (with_flash s h) b \<noteq> None"
  shows "block_content True h b = block_content True (with_flash s h) b"
proof -
  obtain v where v: "page_version True (with_flash s h) b = Some v" "b \<notin> signals" using assms(4) by (auto simp: block_content_def split: if_splits)
  then obtain cur where c: "sim_versions s (of_nat b) = Some (cur, v)" by (auto simp: page_version_Some)
  have "\<not> (\<exists>op \<in> set ops. benign_write (of_nat b) op)" using assms(3) by (auto simp: list_all_iff)
  from apply_op_benign [of "sim_versions s", OF c this] sim_store.page_run_versions [OF assms(1,2)] obtain cur' where
    "sim_versions (flash h) (of_nat b) = Some (cur', v)" by auto
  then have "page_version True h b = Some v" using v(1) by (simp add: page_version_Some)
  then show ?thesis using v by (simp add: block_content_def)
qed


section \<open>An example\<close>

text \<open>A device with the mapping of the signal blocks cached too, after benign writes of pages 5 and 6 and of the signal blocks.\<close>

definition wide_demo :: "sim_state ubi_state ftl_state" where
  "wide_demo = set_node 117 8192 ftl_demo"

lemma wide_demo_slots: "slot_of wide_demo c = (if c = 0 then Some 0 else if c = 117 then Some 1 else None)"
proof -
  have base: "pm_cache_base ftl_demo = 4096" by (simp add: ftl_demo_def set_journal_def pmt_demo_def ftl_start_def)
  have n: "node_of ftl_demo c = (if c = 0 then 4096 else - 1)" for c by (simp add: ftl_demo_def set_journal_def node_of_def pmt_demo_def)
  have a: "PM_NODE_ADDRESS 8192 = 8192" "PM_NODE_IS_CACHED 8192" by (simp_all add: PM_NODE_ADDRESS_def PM_NODE_IS_CACHED_def)
  have "cache_slot wide_demo 4096 = Some 0" "cache_slot wide_demo 8192 = Some 1"
    by (simp_all add: cache_slot_def cache_address_def upt_rec wide_demo_def base)
  then show ?thesis by (simp add: slot_of_def wide_demo_def n a demo_address)
qed

lemma wide_demo_mapping: "pmt_cached wide_demo a \<longleftrightarrow> CLUSTER_INDEX a \<in> {0, 117}" "slots_distinct wide_demo" "pm_entry wide_demo a = - 1"
proof -
  show "pmt_cached wide_demo a \<longleftrightarrow> CLUSTER_INDEX a \<in> {0, 117}" by (simp add: pmt_cached_def wide_demo_slots)
  show "slots_distinct wide_demo" by (auto simp: slots_distinct_def wide_demo_slots split: if_splits)
  have "pm_node_caches wide_demo = (\<lambda>_ _. - 1)" by (simp add: wide_demo_def ftl_demo_def set_journal_def pmt_demo_def)
  then show "pm_entry wide_demo a = - 1" by (simp add: pm_entry_def)
qed

lemma wide_demo_ready: "sim_ready 62 wide_demo" "sim_versions wide_demo = (\<lambda>_. None)"
proof -
  have u: "ubi wide_demo = ubi ftl_demo" by (simp add: wide_demo_def)
  have j: "journal_of hot wide_demo 0 = journal_of hot ftl_demo 0" for hot by (simp add: wide_demo_def set_node_def journal_of_def)
  have "versions_ok c pg wide_demo" for c pg using wide_demo_mapping(3) by (auto simp: versions_ok_def)
  then show "sim_ready 62 wide_demo" using ftl_demo_ready by (simp add: ftl_ready_def u j wide_demo_mapping(2))
  show "sim_versions wide_demo = (\<lambda>_. None)" by (simp add: fun_eq_iff versions_def wide_demo_mapping(3))
qed

lemma wide_demo_run:
  assumes "length ws \<le> 62" "list_all (\<lambda>(a, tagged, d). CLUSTER_INDEX a \<in> {0, 117}) ws"
  shows "\<exists>s'. page_run sim_ubi ubi_held wide_demo (map op_of_write ws) s' \<and> sim_ready (62 - length ws) s' \<and>
     sim_versions s' = fold apply_op (map op_of_write ws) (\<lambda>_. None) \<and> pmt_cached s' = pmt_cached wide_demo"
proof -
  have r: "sim_ready (62 - length ws + length ws) wide_demo" using assms(1) wide_demo_ready(1) by simp
  have c: "list_all (\<lambda>(a, tagged, d). pmt_cached wide_demo a) ws" using assms(2) by (simp only: wide_demo_mapping(1))
  from sim_store.writes_run [OF r c] obtain s' where s': "page_run sim_ubi ubi_held wide_demo (map op_of_write ws) s'"
    "pmt_cached s' = pmt_cached wide_demo" by blast
  with sim_store.page_run_versions [OF s'(1), of "62 - length ws"] r wide_demo_ready(2) show ?thesis by auto
qed

text \<open>Pages filled with a small byte are plain data.\<close>

lemma fill_plain: "plain isz (bytes_of (clip MPP_WORDS (\<lambda>_. 7)))" "plain isz (bytes_of (clip MPP_WORDS (\<lambda>_. 0)))"
proof -
  have "\<not> looks_like_dir (bytes_of (clip MPP_WORDS (\<lambda>_. v))) k" if "v \<in> {0, 7}" for v k
  proof -
    have b: "bytes_of (clip MPP_WORDS (\<lambda>_. v)) j \<in> {0, 7}" for j
    proof -
      have "drop_bit (8 * (j mod 4)) (7 :: u32) \<in> {0, 7}"
      proof -
        have "j mod 4 < 4" by simp
        then consider "j mod 4 = 0" | "j mod 4 = 1" | "j mod 4 = 2" | "j mod 4 = 3" by linarith
        then show ?thesis by cases simp_all
      qed
      then show ?thesis using that by (auto simp: bytes_of_def clip_def)
    qed
    have "(le_at (bytes_of (clip MPP_WORDS (\<lambda>_. v))) k 2 :: u16) AND 0x4000 = 0"
      using b [of k] b [of "Suc k"] by (auto simp: le_at_def le_load_def upt_rec)
    then show ?thesis by (simp add: looks_like_dir_def)
  qed
  then show "plain isz (bytes_of (clip MPP_WORDS (\<lambda>_. 7)))" "plain isz (bytes_of (clip MPP_WORDS (\<lambda>_. 0)))" by (simp_all add: plain_def)
qed

definition one_by_one :: "nat \<Rightarrow> nat \<Rightarrow> (nat \<times> nat) list" where
  "one_by_one b k = map (\<lambda>i. (i, 1)) [b..<b + k]"

lemma splits_one_by_one: "splits one_by_one"
proof -
  have "concat (map (\<lambda>(a, n). [a..<a + n]) (map (\<lambda>i. (i, 1)) xs)) = xs" for xs :: "nat list" by (induction xs) simp_all
  then show ?thesis by (auto simp: splits_def one_by_one_def)
qed

definition demo_snapshot :: snapshot where
  "demo_snapshot = \<lparr>dirs = [(lit ''/note.txt'', 12)], inodes = (\<lambda>i. if i = 12 then Some [(3, [(5 * 4096, 4096)])] else None)\<rparr>"

lemma demo_blocks: "snapshot_blocks demo_snapshot = {5, 6}"
  by (auto simp: snapshot_blocks_def demo_snapshot_def split: if_splits)

definition demo_host :: "sim_state ubi_state ftl_state \<Rightarrow> host" where
  "demo_host s = \<lparr>module = ext4_demo, ssd = \<lparr>onfm = onfm_start s, msc = idle_msc\<rparr>, commands = one_by_one\<rparr>"

lemma demo_host_fields: "module (demo_host s) = ext4_demo" "flash (demo_host s) = s" "capacity (demo_host s) = 0x800000" "commands (demo_host s) = one_by_one"
    "msc (ssd (demo_host s)) = idle_msc" "MSC_BlockCount idle_msc = 0x800000" "with_flash s (demo_host s') = demo_host s"
  by (simp_all add: demo_host_def onfm_start_def idle_msc_def with_flash_def)

text \<open>After any four benign writes that make the signal blocks readable the module is idle.\<close>

lemma demo_host_idle:
  assumes "CLUSTER_INDEX p = 0" "CLUSTER_INDEX q = 0" "p \<noteq> q" "plain 256 (bytes_of (clip MPP_WORDS v))" "plain 256 (bytes_of (clip MPP_WORDS w))"
  shows "\<exists>s. sim_ready 58 s \<and> pmt_cached s = pmt_cached wide_demo \<and>
     sim_versions s p = Some (clip MPP_WORDS v, clip MPP_WORDS v) \<and> sim_versions s q = Some (clip MPP_WORDS w, clip MPP_WORDS w) \<and>
     recovering False (demo_host s)"
proof -
  let ?ws = "[(p, False, v), (q, False, w), (120002, False, \<lambda>_. 0), (120003, False, \<lambda>_. 0)] :: (u32 \<times> bool \<times> mem) list"
  have c: "list_all (\<lambda>(a, tagged, d). CLUSTER_INDEX a \<in> {0, 117}) ?ws" using assms(1,2) by (simp add: CLUSTER_INDEX_def)
  from wide_demo_run [OF _ c] obtain s where s: "sim_ready 58 s" "pmt_cached s = pmt_cached wide_demo"
    "sim_versions s = fold apply_op (map op_of_write ?ws) (\<lambda>_. None)" by auto
  have n: "p \<noteq> 120002" "p \<noteq> 120003" "q \<noteq> 120002" "q \<noteq> 120003" using assms(1,2) by (auto simp: CLUSTER_INDEX_def)
  have v: "sim_versions s p = Some (clip MPP_WORDS v, clip MPP_WORDS v)" "sim_versions s q = Some (clip MPP_WORDS w, clip MPP_WORDS w)"
    "sim_versions s 120002 = Some (clip MPP_WORDS (\<lambda>_. 0), clip MPP_WORDS (\<lambda>_. 0))" "sim_versions s 120003 = Some (clip MPP_WORDS (\<lambda>_. 0), clip MPP_WORDS (\<lambda>_. 0))"
    using n assms(3) by (simp_all add: s(3) version_write_def)
  have q: "quiet ext4_demo" by (simp add: quiet_def ext4_demo_def linux_start_def)
  have "recovering False (demo_host s)"
    using s(1) v ext4_demo_ok q splits_one_by_one
    idle_msc_ok by (auto simp: recovering_def host_ok_def page_version_def fill_plain [simplified] demo_host_fields)
  then show ?thesis using s(1,2) v by blast
qed

lemma inode_size_demo: "unat (s_inode_size (super_block ext4_demo)) = 256"
  by (simp add: ext4_demo_def)


text \<open>C9: Where the tool looks for a file without holes: for an inode with an extent tree of any depth in index blocks, whose extents follow
  each other and were all written (lengths to 32768), or with direct, indirect, double and triple indirect pointers of which the first
  ones are set, the chunks it computes are, as a list of blocks, exactly the blocks that ext4 assigns to the file, in their order in
  the file. The blocks of the tree or the pointers can be read, outside a recovery session, without looking like inodes of directories to
  the module.\<close>

theorem inode_blocks_found:
  assumes "recovering False h" "file_layout (block_content False h) 1024 ino bl"
  shows "\<exists>rs h'. inode_to_chunks host_pread 4096 ino h = Some (i_size ino, chunks_of 4096 rs, h') \<and> expand rs = bl \<and> recovering False h'"
  using current.inode_chunks [OF assms] by blast

text \<open>A tree with its one leaf node in block 5.\<close>

lemma holds_node_bytes:
  "list_all (entry_ok depth) es \<Longrightarrow> length es < 2 ^ 16 \<Longrightarrow> depth < 2 ^ 16 \<Longrightarrow> mx < 2 ^ 16 \<Longrightarrow> holds_node (node_bytes depth mx g es rest) depth es"
  by (auto simp: holds_node_def)

definition demo_leaf :: "u8 list" where
  "demo_leaf = node_bytes 0 340 0 [Ext 0 2 9] []"

lemma demo_leaf_page:
  defines "p \<equiv> \<lambda>k. if k < 24 then demo_leaf ! k else 0"
  shows "map (bytes_of (clip MPP_WORDS (words_of p))) [0..<4096] = node_bytes 0 340 0 [Ext 0 2 9] (replicate 4072 0)"
    and "plain 256 (bytes_of (clip MPP_WORDS (words_of p)))"
proof -
  have b: "bytes_of (clip MPP_WORDS (words_of p)) k = (if k < 4096 then p k else 0)" for k
  proof (cases "k < 4096")
    case True
    then have "k div 4 < 1024" by (simp add: less_mult_imp_div_less)
    then have "bytes_of (clip MPP_WORDS (words_of p)) k = bytes_of (words_of p) k" by (intro bytes_of_cong) (simp add: clip_def)
    then show ?thesis using True by simp
  next
    case False
    then have "\<not> k div 4 < 1024" by simp
    then show ?thesis using False by (simp add: bytes_of_def clip_def)
  qed
  have len: "length demo_leaf = 24" by (simp add: demo_leaf_def node_bytes_def)
  have "map (bytes_of (clip MPP_WORDS (words_of p))) [0..<4096] = demo_leaf @ replicate 4072 0"
    by (rule nth_equalityI) (simp_all add: len b [simplified] nth_append, simp_all add: p_def)
  then show "map (bytes_of (clip MPP_WORDS (words_of p))) [0..<4096] = node_bytes 0 340 0 [Ext 0 2 9] (replicate 4072 0)"
    by (simp add: demo_leaf_def node_bytes_def del: le_list_simps(2))
  have "(le_at (bytes_of (clip MPP_WORDS (words_of p))) (k + 40) 2 :: u16) = 0" for k
  proof -
    have "bytes_of (clip MPP_WORDS (words_of p)) j = 0" if "40 \<le> j" for j using that unfolding b by (simp add: p_def)
    then show ?thesis by (simp only: le_at_def le_load_def) (simp add: upt_rec)
  qed
  then show "plain 256 (bytes_of (clip MPP_WORDS (words_of p)))" by (simp add: plain_def looks_like_dir_def)
qed

theorem inode_blocks_found_witness:
  "\<exists>h rs h'. inode_to_chunks host_pread 4096 \<lparr>i_filetype = Some S_IFREG, i_iflags = [EXT4_EXTENTS_FL], i_links_count = 1,
       i_data = node_bytes 1 4 0 [Idx 0 5] [], i_size = 5000\<rparr> h = Some (5000, chunks_of 4096 rs, h') \<and> expand rs = [9, 10]"
proof -
  define p where "p = (\<lambda>k. if k < 24 then demo_leaf ! k else 0 :: u8)"
  from demo_host_idle [of 5 6 "words_of p" "\<lambda>_. 0"] fill_plain demo_leaf_page(2) [folded p_def] obtain s where
    v: "sim_versions s 5 = Some (clip MPP_WORDS (words_of p), clip MPP_WORDS (words_of p))"
    and idle: "recovering False (demo_host s)" by (auto simp: CLUSTER_INDEX_def)
  define h where "h = demo_host s"
  have c: "block_content False h 5 = Some (node_bytes 0 340 0 [Ext 0 2 9] (replicate 4072 0))"
    using v demo_leaf_page [folded p_def] by (simp add: block_content_def signals_def page_version_def h_def demo_host_fields inode_size_demo [simplified])
  have leaf: "stored (block_content False h) 0 (node_bytes 0 340 0 [Ext 0 2 9] (replicate 4072 0)) (Leaf [(0, 2, 9)])"
    by (rule stored_leaf) (simp add: holds_node_bytes)
  have "stored (block_content False h) (Suc 0) (node_bytes 1 4 0 [Idx 0 5] []) (Node [(0, 5, Leaf [(0, 2, 9)])])"
    by (rule stored_node) (use c leaf in \<open>simp_all add: holds_node_bytes\<close>)
  then have "file_layout (block_content False h) 1024 \<lparr>i_filetype = Some S_IFREG, i_iflags = [EXT4_EXTENTS_FL], i_links_count = 1,
       i_data = node_bytes 1 4 0 [Idx 0 5] [], i_size = 5000\<rparr> [9, 10]"
    unfolding file_layout_def
    by (auto simp: extent_ranges_def extent_blocks_def all_written_def upt_rec intro!: exI [of _ "Suc 0"] exI [of _ "Node [(0, 5, Leaf [(0, 2, 9)])]"])
  from inode_blocks_found [OF idle [folded h_def] this] show ?thesis by auto
qed

text \<open>Space that is allocated behind the end of a file, in a chunk of its own, ends up in the recovered file.\<close>

theorem spare_chunk_junk:
  assumes "recovering True h" "readable (block_content True h) [(a, 1), (b, 1)]" "0 < fsize" "fsize < 4096"
  shows "\<exists>h'. get_file_from_chunks host_pread 4096 (chunks_of 4096 [(a, 1), (b, 1)]) fsize h =
    Some (take fsize (the (block_content True h a)) @ take fsize (the (block_content True h b)), h')"
  using session.file_with_spare_chunk [OF assms] by blast

end
