(* ===== verification/Guest_Memory.thy ===== *)
theory Guest_Memory
  imports Detect_Linux
begin

text \<open>
  How the hypervisor reads the guest's memory, core/cpu_mmu.c of the detection modules with the page table cursor of
  core/mm.c and the accesses by guest-physical address of core/gmm_access.c and core/gmm_pass.c: the walk over the
  guest's page tables, which sets accessed and dirty bits with atomic exchanges and tries again when another processor
  was faster, and the reads by linear address that are split at page borders.  On it rests all that the detection
  module knows of the guest.  A computation that returns \<open>None\<close> is a panic of the hypervisor or has left the model.
\<close>

section \<open>Host memory\<close>

text \<open>
  \<open>others\<close> are writes of other processors, each taking place before one of the following memory accesses.
  \<open>mmio\<close> are the addresses with a registered handler: an atomic exchange there is a panic, any other access
  leaves the model.  Memory types, which the attributes of an access select, do not change what is read.
\<close>

type_synonym ram = "u64 \<Rightarrow> u8"

record host_mem =
  ram :: ram
  others :: "(ram \<Rightarrow> ram) list"
  mmio :: "u64 \<Rightarrow> bool"
  vmm_start_phys :: u32
  phys_blank :: u64

text \<open>The hypervisor's own memory, 320 MB from an address below 4 GiB; the sum has 32 bits, as in C.\<close>

definition VMMSIZE_ALL :: u32 where "VMMSIZE_ALL = 320 * 1024 * 1024"

definition ram_load :: "nat \<Rightarrow> u64 \<Rightarrow> ram \<Rightarrow> 'a::len word" where
  "ram_load n a r = le_load n (\<lambda>k. r (a + of_nat k))"

definition ram_store :: "nat \<Rightarrow> u64 \<Rightarrow> 'a::len word \<Rightarrow> ram \<Rightarrow> ram" where
  "ram_store n a w r = (\<lambda>b. if unat (b - a) < n then le_bytes w (unat (b - a)) else r b)"

definition other_step :: "host_mem \<Rightarrow> host_mem" where
  "other_step s = (case others s of [] \<Rightarrow> s | f # fs \<Rightarrow> s\<lparr>ram := f (ram s), others := fs\<rparr>)"

definition phys_in_vmm :: "host_mem \<Rightarrow> u64 \<Rightarrow> bool" where
  "phys_in_vmm s phys \<longleftrightarrow> ucast (vmm_start_phys s) \<le> phys \<and> phys < ucast (vmm_start_phys s + VMMSIZE_ALL)"

definition PAGESIZE_MASK :: u64 where "PAGESIZE_MASK = 0xFFF"

text \<open>The host-physical address, and \<open>fakerom\<close>: the page belongs to the hypervisor and is not to be written.\<close>

definition gmm_pass_gp2hp :: "host_mem \<Rightarrow> u64 \<Rightarrow> u64 \<times> bool" where
  "gmm_pass_gp2hp s gp =
     (if phys_in_vmm s (gp AND NOT PAGESIZE_MASK) then (phys_blank s AND NOT PAGESIZE_MASK OR gp AND PAGESIZE_MASK, True)
      else (gp AND NOT PAGESIZE_MASK OR gp AND PAGESIZE_MASK, False))"

definition mmio_hit :: "host_mem \<Rightarrow> u64 \<Rightarrow> nat \<Rightarrow> bool" where
  "mmio_hit s phys n \<longleftrightarrow> list_ex (\<lambda>k. mmio s (phys + of_nat k)) [0..<n]"

text \<open>A failed exchange returns what was there; a successful one leaves \<open>olddata\<close> as it is.\<close>

definition cmpxchg_hphys :: "nat \<Rightarrow> u64 \<Rightarrow> 'a::len word \<Rightarrow> 'a word \<Rightarrow> host_mem \<Rightarrow> (bool \<times> 'a word) \<times> host_mem" where
  "cmpxchg_hphys n phys olddata data s =
     (let s = other_step s; cur = ram_load n phys (ram s)
      in if cur = olddata then ((False, olddata), s\<lparr>ram := ram_store n phys data (ram s)\<rparr>) else ((True, cur), s))"

definition cmpxchg_gphys_l :: "u64 \<Rightarrow> u32 \<Rightarrow> u32 \<Rightarrow> host_mem \<Rightarrow> ((bool \<times> u32) \<times> host_mem) option" where
  "cmpxchg_gphys_l phys olddata data s = do {
     _ \<leftarrow> ASSERT (\<not> 0xFFD \<le> phys AND 0xFFF);
     _ \<leftarrow> ASSERT (\<not> mmio_hit s phys 4);
     (phys, fakerom) \<leftarrow> Some (gmm_pass_gp2hp s phys);
     _ \<leftarrow> ASSERT (\<not> fakerom);
     Some (cmpxchg_hphys 4 phys olddata data s) }"

definition cmpxchg_gphys_q :: "u64 \<Rightarrow> u64 \<Rightarrow> u64 \<Rightarrow> host_mem \<Rightarrow> ((bool \<times> u64) \<times> host_mem) option" where
  "cmpxchg_gphys_q phys olddata data s = do {
     _ \<leftarrow> ASSERT (\<not> 0xFF9 \<le> phys AND 0xFFF);
     _ \<leftarrow> ASSERT (\<not> mmio_hit s phys 8);
     (phys, fakerom) \<leftarrow> Some (gmm_pass_gp2hp s phys);
     _ \<leftarrow> ASSERT (\<not> fakerom);
     Some (cmpxchg_hphys 8 phys olddata data s) }"

text \<open>Reads put their bytes into a buffer at an offset.\<close>

definition put_bytes :: "nat \<Rightarrow> bytes \<Rightarrow> nat \<Rightarrow> bytes \<Rightarrow> bytes" where
  "put_bytes n p d dst = (\<lambda>k. if d \<le> k \<and> k < d + n then p (k - d) else dst k)"

definition read_hphys :: "nat \<Rightarrow> u64 \<Rightarrow> nat \<Rightarrow> bytes \<Rightarrow> host_mem \<Rightarrow> bytes \<times> host_mem" where
  "read_hphys n phys d dst s = (let s = other_step s in (put_bytes n (\<lambda>k. ram s (phys + of_nat k)) d dst, s))"

definition read_gphys_part :: "nat \<Rightarrow> u64 \<Rightarrow> nat \<Rightarrow> bytes \<Rightarrow> host_mem \<Rightarrow> (bytes \<times> host_mem) option" where
  "read_gphys_part n phys d dst s = do {
     _ \<leftarrow> ASSERT (\<not> mmio_hit s phys n);
     (phys, _) \<leftarrow> Some (gmm_pass_gp2hp s phys);
     Some (read_hphys n phys d dst s) }"

definition read_gphys_b :: "u64 \<Rightarrow> nat \<Rightarrow> bytes \<Rightarrow> host_mem \<Rightarrow> (bytes \<times> host_mem) option" where
  "read_gphys_b = read_gphys_part 1"

definition read_gphys_w :: "u64 \<Rightarrow> nat \<Rightarrow> bytes \<Rightarrow> host_mem \<Rightarrow> (bytes \<times> host_mem) option" where
  "read_gphys_w phys d dst s =
     (if phys AND 0xFFF = 0xFFF then do {
        (dst, s) \<leftarrow> read_gphys_b phys d dst s;
        read_gphys_b (phys + 1) (d + 1) dst s }
      else read_gphys_part 2 phys d dst s)"

definition read_gphys_l :: "u64 \<Rightarrow> nat \<Rightarrow> bytes \<Rightarrow> host_mem \<Rightarrow> (bytes \<times> host_mem) option" where
  "read_gphys_l phys d dst s =
     (if 0xFFD \<le> phys AND 0xFFF then do {
        (dst, s) \<leftarrow> read_gphys_w phys d dst s;
        read_gphys_w (phys + 2) (d + 2) dst s }
      else read_gphys_part 4 phys d dst s)"

definition read_gphys_q :: "u64 \<Rightarrow> nat \<Rightarrow> bytes \<Rightarrow> host_mem \<Rightarrow> (bytes \<times> host_mem) option" where
  "read_gphys_q phys d dst s =
     (if 0xFF9 \<le> phys AND 0xFFF then do {
        (dst, s) \<leftarrow> read_gphys_l phys d dst s;
        read_gphys_l (phys + 4) (d + 4) dst s }
      else read_gphys_part 8 phys d dst s)"

section \<open>The cursor over page tables\<close>

text \<open>
  \<open>pmap_t\<close> for the guest's tables with atomic accesses, the type that the page walk uses; arrays are functions.
  Levels count from 1 for the page table; \<open>curlevel\<close> and \<open>readlevel\<close> index the entries as in the source.
\<close>

record pmap =
  entry :: "nat \<Rightarrow> u64"
  entryaddr :: "nat \<Rightarrow> u64"
  curaddr :: u64
  curlevel :: nat
  readlevel :: nat
  levels :: nat

definition PDE_P_BIT :: u64 where "PDE_P_BIT = 0x1"
definition PDE_RW_BIT :: u64 where "PDE_RW_BIT = 0x2"
definition PDE_US_BIT :: u64 where "PDE_US_BIT = 0x4"
definition PDE_A_BIT :: u64 where "PDE_A_BIT = 0x20"
definition PDE_D_BIT :: u64 where "PDE_D_BIT = 0x40"
definition PDE_PS_BIT :: u64 where "PDE_PS_BIT = 0x80"
definition PDE_NX_BIT :: u64 where "PDE_NX_BIT = 0x8000000000000000"
definition PDE_4M_PAT_BIT :: u64 where "PDE_4M_PAT_BIT = 0x1000"
definition PTE_PAT_BIT :: u64 where "PTE_PAT_BIT = 0x80"
definition CR3_PWT_BIT :: u64 where "CR3_PWT_BIT = 0x8"
definition CR3_PCD_BIT :: u64 where "CR3_PCD_BIT = 0x10"

definition pmap_open_guest :: "u64 \<Rightarrow> nat \<Rightarrow> pmap \<Rightarrow> pmap" where
  "pmap_open_guest cr3 lv m =
     (let m = m\<lparr>levels := lv, readlevel := lv, curlevel := lv - 1\<rparr>
      in if lv = 3 then m\<lparr>entry := (entry m)(lv := cr3 AND (NOT 0x1F OR CR3_PWT_BIT OR CR3_PCD_BIT) OR PDE_P_BIT)\<rparr>
         else m\<lparr>entry := (entry m)(lv := cr3 AND (NOT PAGESIZE_MASK OR CR3_PWT_BIT OR CR3_PCD_BIT) OR PDE_P_BIT)\<rparr>)"

definition pmap_setlevel :: "nat \<Rightarrow> pmap \<Rightarrow> pmap" where
  "pmap_setlevel level m = m\<lparr>curlevel := level - 1\<rparr>"

definition seek_masks :: "u64 list list" where
  "seek_masks =
     [[0xFFFFF000, 0xFFC00000, 0x00000000, 0x00000000],
      [0xFFFFF000, 0xFFE00000, 0xC0000000, 0x00000000],
      [0x0000FFFFFFFFF000, 0x0000FFFFFFE00000, 0x0000FFFFC0000000, 0x0000FF8000000000]]"

function seek_loop :: "u64 \<Rightarrow> pmap \<Rightarrow> pmap" where
  "seek_loop virtaddr m =
     (if readlevel m < levels m then
        let mask = seek_masks ! (levels m - 2) ! readlevel m
        in if curaddr m AND mask = virtaddr AND mask then m else seek_loop virtaddr (m\<lparr>readlevel := readlevel m + 1\<rparr>)
      else m)"
  by pat_completeness auto
termination by (relation "measure (\<lambda>(_, m). levels m - readlevel m)") auto

declare seek_loop.simps [simp del]

definition pmap_seek :: "u64 \<Rightarrow> nat \<Rightarrow> pmap \<Rightarrow> pmap" where
  "pmap_seek virtaddr level m = (seek_loop virtaddr (pmap_setlevel level m))\<lparr>curaddr := virtaddr\<rparr>"

definition pmap_rd32 :: "u64 \<Rightarrow> host_mem \<Rightarrow> (u64 \<times> host_mem) option" where
  "pmap_rd32 phys s = do {
     ((fail, r), s) \<leftarrow> cmpxchg_gphys_l phys 0 0 s;
     Some (ucast r, s) }"

definition pmap_rd64 :: "u64 \<Rightarrow> host_mem \<Rightarrow> (u64 \<times> host_mem) option" where
  "pmap_rd64 phys s = do {
     ((fail, r), s) \<leftarrow> cmpxchg_gphys_q phys 0 0 s;
     Some (r, s) }"

definition pmap_wr32 :: "u64 \<Rightarrow> u64 \<Rightarrow> u64 \<Rightarrow> host_mem \<Rightarrow> ((bool \<times> u64) \<times> host_mem) option" where
  "pmap_wr32 phys oldentry e s = do {
     ((r, tmp), s) \<leftarrow> cmpxchg_gphys_l phys (ucast oldentry) (ucast e) s;
     Some ((r, if r then ucast tmp else e), s) }"

definition pmap_wr64 :: "u64 \<Rightarrow> u64 \<Rightarrow> u64 \<Rightarrow> host_mem \<Rightarrow> ((bool \<times> u64) \<times> host_mem) option" where
  "pmap_wr64 phys oldentry e s = do {
     ((r, oldentry), s) \<leftarrow> cmpxchg_gphys_q phys oldentry e s;
     Some ((r, if r then oldentry else e), s) }"

text \<open>The label \<open>handle_pde_ps_bit\<close>: the entry of the page table that a large page stands for.\<close>

definition split_large :: "pmap \<Rightarrow> u64 \<Rightarrow> u64" where
  "split_large m tmp =
     (let tmp = tmp AND NOT PDE_PS_BIT;
          tmp = (if tmp AND PDE_4M_PAT_BIT \<noteq> 0 then (tmp OR PTE_PAT_BIT) AND NOT PDE_4M_PAT_BIT else tmp)
      in if levels m = 2 then
           let tmp = tmp OR push_bit 32 (drop_bit 13 (tmp AND 0x1FE000))
           in tmp AND NOT 0x3FF000 OR curaddr m AND 0x3FF000
         else tmp AND NOT 0x1FF000 OR curaddr m AND 0x1FF000)"

text \<open>One round of the loop of \<open>pmap_read\<close> that reads a table: the next lower entry and its address.\<close>

definition read_table :: "u64 \<Rightarrow> pmap \<Rightarrow> host_mem \<Rightarrow> (pmap \<times> host_mem) option" where
  "read_table tmp m s =
     (let tmp = (if levels m = 3 \<and> readlevel m = 3 then tmp AND 0xFFFFFFE0 else tmp AND 0x0000FFFFFFFFF000);
          m = m\<lparr>readlevel := readlevel m - 1\<rparr>
      in if levels m = 2 then
           let tmp = tmp OR drop_bit (10 + 10 * readlevel m) (curaddr m) AND 0xFFC
           in do {
             (e, s) \<leftarrow> pmap_rd32 tmp s;
             Some (m\<lparr>entryaddr := (entryaddr m)(readlevel m := tmp), entry := (entry m)(readlevel m := e)\<rparr>, s) }
         else
           let tmp = tmp OR drop_bit (9 + 9 * readlevel m) (curaddr m) AND 0xFF8
           in do {
             (e, s) \<leftarrow> pmap_rd64 tmp s;
             Some (m\<lparr>entryaddr := (entryaddr m)(readlevel m := tmp), entry := (entry m)(readlevel m := e)\<rparr>, s) })"

lemma read_table_readlevel: "read_table t m s = Some (m', s') \<Longrightarrow> readlevel m' = readlevel m - 1"
  by (auto simp: read_table_def Let_def split: if_splits Option.bind_splits)

function pmap_read :: "pmap \<Rightarrow> host_mem \<Rightarrow> (u64 \<times> pmap \<times> host_mem) option" where
  "pmap_read m s =
     (if curlevel m < readlevel m then
        let tmp = entry m (readlevel m)
        in if tmp AND PDE_P_BIT = 0 then Some (0, m, s)
           else if readlevel m = 2 \<and> tmp AND PDE_PS_BIT \<noteq> 0 then
             let tmp = tmp AND NOT 0x3FE00000 OR curaddr m AND 0x3FE00000
             in Some (if curlevel m = 0 then split_large m tmp else tmp, m, s)
           else if readlevel m = 1 \<and> tmp AND PDE_PS_BIT \<noteq> 0 then Some (split_large m tmp, m, s)
           else do { (m, s) \<leftarrow> read_table tmp m s; pmap_read m s }
      else Some (entry m (curlevel m), m, s))"
  by pat_completeness auto
termination by (relation "measure (\<lambda>(m, _). readlevel m)") (auto dest: read_table_readlevel)

declare pmap_read.simps [simp del]

definition pmap_write :: "u64 \<Rightarrow> u64 \<Rightarrow> pmap \<Rightarrow> host_mem \<Rightarrow> (bool \<times> pmap \<times> host_mem) option" where
  "pmap_write e attrmask m s = do {
     _ \<leftarrow> ASSERT (readlevel m \<le> curlevel m);
     let attrdef = PDE_RW_BIT OR PDE_US_BIT OR PDE_A_BIT;
         attrdef = (if levels m = 3 \<and> curlevel m = 2 then 0 else if curlevel m = 0 then attrdef OR PDE_D_BIT else attrdef);
         e = e AND (NOT 0xFFF OR attrmask);
         e = e OR attrdef AND NOT attrmask
     in do {
       ((fail, e), s) \<leftarrow> (if levels m = 2 then pmap_wr32 (entryaddr m (curlevel m)) (entry m (curlevel m)) e s
                        else pmap_wr64 (entryaddr m (curlevel m)) (entry m (curlevel m)) e s);
       let m = m\<lparr>entry := (entry m)(curlevel m := e)\<rparr>
       in Some (fail, (if fail then m\<lparr>readlevel := curlevel m\<rparr> else m), s) } }"

section \<open>The page walk\<close>

datatype vmmerr =
    VMMERR_SUCCESS
  | VMMERR_GUESTSEG_LOAD_FAILED
  | VMMERR_GUESTSEG_NOT_PRESENT
  | VMMERR_INVALID_GUESTSEG
  | VMMERR_PAGE_NOT_PRESENT
  | VMMERR_PAGE_NOT_ACCESSIBLE
  | VMMERR_PAGE_NOT_EXECUTABLE
  | VMMERR_PAGE_BAD_RESERVED_BIT
  | VMMERR_INSTRUCTION_TOO_LONG
  | VMMERR_UNIMPLEMENTED_OPCODE
  | VMMERR_UNSUPPORTED_OPCODE
  | VMMERR_EXCEPTION_UD
  | VMMERR_AVOID_COMPILER_WARNING
  | VMMERR_SW
  | VMMERR_NOMEM
  | VMMERR_MSR_FAULT

record get_pte_data =
  d_pg :: bool
  d_wp :: bool
  d_pse :: bool
  d_pae :: bool
  d_pcide :: bool
  d_lme :: bool
  d_nxe :: bool
  d_write :: bool
  d_user :: bool
  d_exec :: bool

definition PTE_ADDR_MASK64 :: u64 where "PTE_ADDR_MASK64 = 0x0000000FFFFFF000"

definition reserved_bit_table :: "u64 list list list" where
  "reserved_bit_table =
     [[[0x0000000000200000, 0x0000000000000000, 0x0000000000000000,
        0xFFFFFFFFFFFFFFFF, 0xFFFFFFFFFFFFFFFF, 0xFFFFFFFFFFFFFFFF],
       [0xFFFFFFF0001FE000, 0xFFFFFFF000000000, 0xFFFFFFF000000000,
        0xFFFFFFF0000001E6, 0xFFFFFFFFFFFFFFFF, 0xFFFFFFFFFFFFFFFF],
       [0x800FFFF0001FE000, 0x800FFFF000000000, 0x800FFFF000000000,
        0x800FFFF000000100, 0x800FFFF000000180, 0x800FFFF03FFFE000]],
      [[0x0000000000200000, 0x0000000000000000, 0x0000000000000000,
        0xFFFFFFFFFFFFFFFF, 0xFFFFFFFFFFFFFFFF, 0xFFFFFFFFFFFFFFFF],
       [0x7FFFFFF0001FE000, 0x7FFFFFF000000000, 0x7FFFFFF000000000,
        0xFFFFFFF0000001E6, 0xFFFFFFFFFFFFFFFF, 0xFFFFFFFFFFFFFFFF],
       [0x000FFFF0001FE000, 0x000FFFF000000000, 0x000FFFF000000000,
        0x000FFFF000000100, 0x000FFFF000000180, 0x000FFFF03FFFE000]]]"

text \<open>\<open>pte_mask\<close> is \<open>current->pte_addr_mask\<close>, which \<open>get_pte_addr_mask\<close> computes from the width of physical addresses.\<close>

definition nbits_mask :: "u32 \<Rightarrow> u64" where
  "nbits_mask a =
     (let nbits = a AND 0xFF;
          nbits = (if nbits < 32 then 32 else nbits);
          nbits = (if 52 < nbits then 52 else nbits)
      in NOT (PAGESIZE_MASK OR push_bit (unat nbits) (NOT 0)))"

definition test_pmap_entry_reserved_bit :: "u64 \<Rightarrow> u64 \<Rightarrow> nat \<Rightarrow> nat \<Rightarrow> get_pte_data \<Rightarrow> bool option" where
  "test_pmap_entry_reserved_bit pte_mask e level lv d =
     (if \<not> d_pae d \<and> \<not> d_pse d then Some False
      else
        let level = (if level = 2 \<and> e AND PDE_PS_BIT \<noteq> 0 then 0 else level);
            level = (if level = 3 \<and> lv = 4 \<and> e AND PDE_PS_BIT \<noteq> 0 then 5 else level);
            mask = reserved_bit_table ! (if d_nxe d then 1 else 0) ! (lv - 2) ! level;
            mask = mask XOR (pte_mask XOR PTE_ADDR_MASK64)
        in do {
          _ \<leftarrow> ASSERT (mask \<noteq> 0xFFFFFFFFFFFFFFFF);
          Some (e AND mask \<noteq> 0) })"

definition set_ad_bit :: "bool \<Rightarrow> bool \<Rightarrow> u64 \<Rightarrow> pmap \<Rightarrow> host_mem \<Rightarrow> (bool \<times> u64 \<times> pmap \<times> host_mem) option" where
  "set_ad_bit seta setd e m s =
     (let seta = (if e AND PDE_A_BIT \<noteq> 0 then False else seta);
          setd = (if e AND PDE_D_BIT \<noteq> 0 then False else setd)
      in if seta \<or> setd then
           let e = (if seta then e OR PDE_A_BIT else e);
               e = (if setd then e OR PDE_D_BIT else e)
           in do {
             (r, m, s) \<leftarrow> pmap_write e 0xFFF m s;
             Some (r, e, m, s) }
         else Some (False, e, m, s))"

text \<open>What one pass from the label \<open>retry\<close> of \<open>get_pte_sub\<close> comes to.\<close>

datatype level_end = Stop vmmerr | Retry | Go u64

definition walk_level :: "u64 \<Rightarrow> get_pte_data \<Rightarrow> nat \<Rightarrow> nat \<Rightarrow> pmap \<Rightarrow> host_mem \<Rightarrow> (level_end \<times> pmap \<times> host_mem) option" where
  "walk_level pte_mask d lv i m s = do {
     (e, m, s) \<leftarrow> pmap_read m s;
     if e AND PDE_P_BIT = 0 then Some (Stop VMMERR_PAGE_NOT_PRESENT, m, s)
     else do {
       bad \<leftarrow> test_pmap_entry_reserved_bit pte_mask e i lv d;
       if bad then Some (Stop VMMERR_PAGE_BAD_RESERVED_BIT, m, s)
       else
         let e = (if lv = 3 \<and> i = 3 then e OR (PDE_RW_BIT OR PDE_US_BIT OR PDE_A_BIT) else e)
         in if e AND PDE_US_BIT = 0 \<and> d_user d then Some (Stop VMMERR_PAGE_NOT_ACCESSIBLE, m, s)
            else if e AND PDE_RW_BIT = 0 \<and> d_write d \<and> (d_wp d \<or> d_user d) then Some (Stop VMMERR_PAGE_NOT_ACCESSIBLE, m, s)
            else if e AND PDE_NX_BIT \<noteq> 0 \<and> d_exec d \<and> d_nxe d then Some (Stop VMMERR_PAGE_NOT_EXECUTABLE, m, s)
            else
              let e = (if i = 2 \<and> \<not> d_pse d then e AND NOT PDE_PS_BIT else e);
                  setd = ((i = 2 \<and> e AND PDE_PS_BIT \<noteq> 0 \<or> i = 1 \<or> i = 3 \<and> e AND PDE_PS_BIT \<noteq> 0) \<and> d_write d)
              in do {
                (again, e, m, s) \<leftarrow> set_ad_bit True setd e m s;
                Some (if again then Retry else Go e, m, s) } } }"

text \<open>The jumps back to \<open>retry\<close>, and the loop over the levels downwards; \<open>n\<close> bounds the passes at each level.\<close>

fun retry_level :: "nat \<Rightarrow> u64 \<Rightarrow> get_pte_data \<Rightarrow> nat \<Rightarrow> nat \<Rightarrow> pmap \<Rightarrow> host_mem \<Rightarrow> ((vmmerr + u64) \<times> pmap \<times> host_mem) option" where
  "retry_level 0 pte_mask d lv i m s = None"
| "retry_level (Suc n) pte_mask d lv i m s = do {
     (r, m, s) \<leftarrow> walk_level pte_mask d lv i m s;
     case r of
       Stop err \<Rightarrow> Some (Inl err, m, s)
     | Retry \<Rightarrow> retry_level n pte_mask d lv i m s
     | Go e \<Rightarrow> Some (Inr e, m, s) }"

fun walk_levels :: "nat \<Rightarrow> u64 \<Rightarrow> get_pte_data \<Rightarrow> nat \<Rightarrow> nat \<Rightarrow> (nat \<Rightarrow> u64) \<Rightarrow> pmap \<Rightarrow> host_mem \<Rightarrow>
    (vmmerr \<times> (nat \<Rightarrow> u64) \<times> host_mem) option" where
  "walk_levels n pte_mask d lv 0 es m s = Some (VMMERR_SUCCESS, es, s)"
| "walk_levels n pte_mask d lv (Suc i) es m s = do {
     (r, m, s) \<leftarrow> retry_level n pte_mask d lv (Suc i) (pmap_setlevel (Suc i) m) s;
     case r of
       Inl err \<Rightarrow> Some (err, es, s)
     | Inr e \<Rightarrow> walk_levels n pte_mask d lv i (es(i := e)) m s }"

text \<open>
  \<open>m\<close> and \<open>es\<close> are the uninitialised cursor and entries of the caller.  The result is the error, the entries,
  \<open>*plevels\<close>, and the memory.
\<close>

definition get_pte_sub :: "nat \<Rightarrow> u64 \<Rightarrow> u64 \<Rightarrow> u64 \<Rightarrow> get_pte_data \<Rightarrow> pmap \<Rightarrow> (nat \<Rightarrow> u64) \<Rightarrow> host_mem \<Rightarrow>
    (vmmerr \<times> (nat \<Rightarrow> u64) \<times> nat \<times> host_mem) option" where
  "get_pte_sub n pte_mask virt cr3 d m es s =
     (if \<not> d_pg d then
        Some (VMMERR_SUCCESS,
          es(0 := virt AND pte_mask OR PDE_P_BIT OR PDE_RW_BIT OR PDE_US_BIT OR PDE_A_BIT OR PDE_D_BIT,
             1 := PDE_P_BIT OR PDE_RW_BIT OR PDE_US_BIT OR PDE_A_BIT OR PDE_D_BIT OR PDE_PS_BIT), 1, s)
      else
        let (d, lv) = (if d_lme d then (d\<lparr>d_pae := True, d_pse := True\<rparr>, 4)
                       else if d_pae d then (d\<lparr>d_pse := True\<rparr>, 3) else (d, 2));
            cr3 = (if lv = 4 \<and> d_pcide d then cr3 AND NOT PAGESIZE_MASK else cr3);
            m = pmap_seek virt (lv + 1) (pmap_open_guest cr3 lv m)
        in do {
          (e, m, s) \<leftarrow> pmap_read m s;
          (r, es, s) \<leftarrow> walk_levels n pte_mask d lv lv (es(lv := e OR (PDE_RW_BIT OR PDE_US_BIT OR PDE_A_BIT))) m s;
          Some (r, es, lv, s) })"

text \<open>The control registers of the guest as \<open>current->vmctl\<close> returns them, and the address mask of the processor.\<close>

record mmu_regs =
  reg_cr0 :: u64
  reg_cr3 :: u64
  reg_cr4 :: u64
  reg_efer :: u64
  pte_addr_mask :: u64

definition walk_data :: "mmu_regs \<Rightarrow> bool \<Rightarrow> bool \<Rightarrow> bool \<Rightarrow> get_pte_data" where
  "walk_data c write user exec =
     \<lparr>d_pg = reg_cr0 c AND 0x80000000 \<noteq> 0, d_wp = reg_cr0 c AND 0x10000 \<noteq> 0, d_pse = reg_cr4 c AND 0x10 \<noteq> 0,
      d_pae = reg_cr4 c AND 0x20 \<noteq> 0, d_pcide = reg_cr4 c AND 0x20000 \<noteq> 0, d_lme = reg_efer c AND 0x100 \<noteq> 0,
      d_nxe = reg_efer c AND 0x800 \<noteq> 0, d_write = write, d_user = user, d_exec = exec\<rparr>"

definition cpu_mmu_get_pte :: "nat \<Rightarrow> mmu_regs \<Rightarrow> u64 \<Rightarrow> bool \<Rightarrow> bool \<Rightarrow> bool \<Rightarrow> pmap \<Rightarrow> (nat \<Rightarrow> u64) \<Rightarrow> host_mem \<Rightarrow>
    (vmmerr \<times> (nat \<Rightarrow> u64) \<times> nat \<times> host_mem) option" where
  "cpu_mmu_get_pte n c virt write user exec =
     get_pte_sub n (pte_addr_mask c) virt (reg_cr3 c) (walk_data c write user exec)"

definition pmap_uninit :: pmap where
  "pmap_uninit = \<lparr>entry = (\<lambda>_. 0), entryaddr = (\<lambda>_. 0), curaddr = 0, curlevel = 0, readlevel = 0, levels = 0\<rparr>"

definition get_pte :: "nat \<Rightarrow> mmu_regs \<Rightarrow> u64 \<Rightarrow> bool \<Rightarrow> bool \<Rightarrow> bool \<Rightarrow> host_mem \<Rightarrow> ((vmmerr + u64) \<times> host_mem) option" where
  "get_pte n c virt wr us ex s = do {
     (r, es, _, s) \<leftarrow> cpu_mmu_get_pte n c virt wr us ex pmap_uninit (\<lambda>_. 0) s;
     Some (if r = VMMERR_SUCCESS then Inr (es 0) else Inl r, s) }"

section \<open>Access by linear address\<close>

definition gphys_of :: "mmu_regs \<Rightarrow> u64 \<Rightarrow> u64 \<Rightarrow> u64" where
  "gphys_of c pte linear = pte AND pte_addr_mask c OR linear AND 0xFFF"

text \<open>A read puts its bytes at offset \<open>dat\<close> of the caller's buffer; on an error what was put there before it stays.\<close>

type_synonym reader = "nat \<Rightarrow> bytes \<Rightarrow> host_mem \<Rightarrow> (vmmerr \<times> bytes \<times> host_mem) option"

definition read_page :: "nat \<Rightarrow> mmu_regs \<Rightarrow> (u64 \<Rightarrow> nat \<Rightarrow> bytes \<Rightarrow> host_mem \<Rightarrow> (bytes \<times> host_mem) option) \<Rightarrow> u64 \<Rightarrow> reader" where
  "read_page n c rd linear dat dst s = do {
     (r, s) \<leftarrow> get_pte n c linear False False False s;
     case r of
       Inl err \<Rightarrow> Some (err, dst, s)
     | Inr pte \<Rightarrow> do {
         (dst, s) \<leftarrow> rd (gphys_of c pte linear) dat dst s;
         Some (VMMERR_SUCCESS, dst, s) } }"

text \<open>Two reads in a row, the second only after success of the first, as \<open>RIE\<close> does it.\<close>

definition then_read :: "reader \<Rightarrow> nat \<Rightarrow> reader \<Rightarrow> reader" where
  "then_read f k g dat dst s = do {
     (r, dst, s) \<leftarrow> f dat dst s;
     if r \<noteq> VMMERR_SUCCESS then Some (r, dst, s) else g (dat + k) dst s }"

definition read_linearaddr_b :: "nat \<Rightarrow> mmu_regs \<Rightarrow> u64 \<Rightarrow> reader" where
  "read_linearaddr_b n c = read_page n c read_gphys_b"

definition read_linearaddr_w :: "nat \<Rightarrow> mmu_regs \<Rightarrow> u64 \<Rightarrow> reader" where
  "read_linearaddr_w n c linear =
     (if linear AND 0xFFF = 0xFFF then then_read (read_linearaddr_b n c linear) 1 (read_linearaddr_b n c (linear + 1))
      else read_page n c read_gphys_w linear)"

definition read_linearaddr_l :: "nat \<Rightarrow> mmu_regs \<Rightarrow> u64 \<Rightarrow> reader" where
  "read_linearaddr_l n c linear =
     (if 0xFFD \<le> linear AND 0xFFF then then_read (read_linearaddr_w n c linear) 2 (read_linearaddr_w n c (linear + 2))
      else read_page n c read_gphys_l linear)"

definition read_linearaddr_q :: "nat \<Rightarrow> mmu_regs \<Rightarrow> u64 \<Rightarrow> reader" where
  "read_linearaddr_q n c linear =
     (if 0xFF9 \<le> linear AND 0xFFF then then_read (read_linearaddr_l n c linear) 4 (read_linearaddr_l n c (linear + 4))
      else read_page n c read_gphys_q linear)"

text \<open>The number of an error in C; \<open>guestvirt_to_guestphys\<close> returns it in the place of an address.\<close>

fun vmmerr_number :: "vmmerr \<Rightarrow> u64" where
  "vmmerr_number VMMERR_SUCCESS = 0"
| "vmmerr_number VMMERR_GUESTSEG_LOAD_FAILED = 1"
| "vmmerr_number VMMERR_GUESTSEG_NOT_PRESENT = 2"
| "vmmerr_number VMMERR_INVALID_GUESTSEG = 3"
| "vmmerr_number VMMERR_PAGE_NOT_PRESENT = 4"
| "vmmerr_number VMMERR_PAGE_NOT_ACCESSIBLE = 5"
| "vmmerr_number VMMERR_PAGE_NOT_EXECUTABLE = 6"
| "vmmerr_number VMMERR_PAGE_BAD_RESERVED_BIT = 7"
| "vmmerr_number VMMERR_INSTRUCTION_TOO_LONG = 8"
| "vmmerr_number VMMERR_UNIMPLEMENTED_OPCODE = 9"
| "vmmerr_number VMMERR_UNSUPPORTED_OPCODE = 10"
| "vmmerr_number VMMERR_EXCEPTION_UD = 11"
| "vmmerr_number VMMERR_AVOID_COMPILER_WARNING = 12"
| "vmmerr_number VMMERR_SW = 13"
| "vmmerr_number VMMERR_NOMEM = 14"
| "vmmerr_number VMMERR_MSR_FAULT = 15"

definition guestvirt_to_guestphys :: "nat \<Rightarrow> mmu_regs \<Rightarrow> u64 \<Rightarrow> host_mem \<Rightarrow> (u64 \<times> host_mem) option" where
  "guestvirt_to_guestphys n c virt s = do {
     (r, s) \<leftarrow> get_pte n c virt False False False s;
     Some (case r of Inl err \<Rightarrow> vmmerr_number err | Inr pte \<Rightarrow> gphys_of c pte virt, s) }"

definition write_linearaddr_ok_b :: "nat \<Rightarrow> mmu_regs \<Rightarrow> u64 \<Rightarrow> host_mem \<Rightarrow> (vmmerr \<times> host_mem) option" where
  "write_linearaddr_ok_b n c linear s = do {
     (r, s) \<leftarrow> get_pte n c linear True False False s;
     Some (case r of Inl err \<Rightarrow> err | Inr pte \<Rightarrow> VMMERR_SUCCESS, s) }"

definition write_linearaddr_ok_w :: "nat \<Rightarrow> mmu_regs \<Rightarrow> u64 \<Rightarrow> host_mem \<Rightarrow> (vmmerr \<times> host_mem) option" where
  "write_linearaddr_ok_w n c linear s =
     (if linear AND 0xFFE \<le> 0xFFE then write_linearaddr_ok_b n c linear s
      else do {
        (r, s) \<leftarrow> write_linearaddr_ok_b n c linear s;
        if r \<noteq> VMMERR_SUCCESS then Some (r, s) else write_linearaddr_ok_b n c (linear + 1) s })"

definition write_linearaddr_ok_l :: "nat \<Rightarrow> mmu_regs \<Rightarrow> u64 \<Rightarrow> host_mem \<Rightarrow> (vmmerr \<times> host_mem) option" where
  "write_linearaddr_ok_l n c linear s =
     (if linear AND 0xFFC \<le> 0xFFC then write_linearaddr_ok_w n c linear s
      else do {
        (r, s) \<leftarrow> write_linearaddr_ok_w n c linear s;
        if r \<noteq> VMMERR_SUCCESS then Some (r, s) else write_linearaddr_ok_w n c (linear + 2) s })"

text \<open>The loop of \<open>read_virtaddr_data\<close>, \<open>win_read_virtaddr_data\<close> and \<open>core_read_virtaddr_data\<close>: errors are ignored.\<close>

fun read_virtaddr_loop :: "nat \<Rightarrow> mmu_regs \<Rightarrow> nat \<Rightarrow> u64 \<Rightarrow> nat \<Rightarrow> bytes \<Rightarrow> host_mem \<Rightarrow> (bytes \<times> host_mem) option" where
  "read_virtaddr_loop n c 0 a dat dst s = Some (dst, s)"
| "read_virtaddr_loop n c (Suc k) a dat dst s = do {
     (_, dst, s) \<leftarrow> read_linearaddr_b n c a dat dst s;
     read_virtaddr_loop n c k (a + 1) (dat + 1) dst s }"

end
