(* ===== verification/Guest_Walk.thy ===== *)
theory Guest_Walk
  imports Guest_Memory
begin

text \<open>
  The walk over the guest's page tables against the architecture.  \<open>arch_walk\<close> is the four-level walk as the manuals of the
  processors with VMX describe it, with pages of 4 KiB, 2 MiB and 1 GiB, reserved bits, access rights and the accessed and dirty
  bits; \<open>table_walk\<close> is the same walk with the reserved bits of the program's table, which has one more.
  \<open>get_pte_architecture\<close> says that \<open>get_pte\<close>, with the cursor's splitting of large pages, computes the former unless it meets
  that bit.  Then what the walk may do to memory, alone and among writes of other processors, and a defect for guests without
  page size extensions.
\<close>

section \<open>The architecture's walk\<close>

datatype arch_end = Panics | Faults vmmerr | Maps u64

definition arch_ordinary :: "host_mem \<Rightarrow> u64 \<Rightarrow> bool" where
  "arch_ordinary s a \<longleftrightarrow> \<not> phys_in_vmm s (a AND NOT (mask 12)) \<and> list_all (\<lambda>k. \<not> mmio s (a + of_nat k)) [0..<8]"

definition arch_large :: "nat \<Rightarrow> u64 \<Rightarrow> bool" where
  "arch_large i e \<longleftrightarrow> (i = 1 \<or> i = 2) \<and> bit e 7"

text \<open>
  What the manuals of the processors with VMX reserve: the address bits above the width, the execute-disable bit where it is not
  enabled, the page size bit of an entry of the top level, and the low address bits of a large page above its PAT bit.  Bit 8
  is ignored except in the entry of a page.
\<close>

definition arch_reserved :: "nat \<Rightarrow> bool \<Rightarrow> nat \<Rightarrow> u64 \<Rightarrow> bool" where
  "arch_reserved nb nxe i e \<longleftrightarrow> list_ex (\<lambda>b. bit e b \<and>
     (nb \<le> b \<and> b < 52 \<or> b = 63 \<and> \<not> nxe \<or> i = 3 \<and> b = 7 \<or> arch_large i e \<and> 13 \<le> b \<and> b < 12 + 9 * i)) [0..<64]"

definition arch_check :: "nat \<Rightarrow> get_pte_data \<Rightarrow> nat \<Rightarrow> u64 \<Rightarrow> vmmerr option" where
  "arch_check nb d i e =
     (if \<not> bit e 0 then Some VMMERR_PAGE_NOT_PRESENT
      else if arch_reserved nb (d_nxe d) i e then Some VMMERR_PAGE_BAD_RESERVED_BIT
      else if \<not> bit e 2 \<and> d_user d \<or> \<not> bit e 1 \<and> d_write d \<and> (d_wp d \<or> d_user d) then Some VMMERR_PAGE_NOT_ACCESSIBLE
      else if bit e 63 \<and> d_exec d \<and> d_nxe d then Some VMMERR_PAGE_NOT_EXECUTABLE
      else None)"

definition arch_leaf :: "nat \<Rightarrow> u64 \<Rightarrow> bool" where
  "arch_leaf i e \<longleftrightarrow> i = 0 \<or> arch_large i e"

definition arch_touch :: "get_pte_data \<Rightarrow> nat \<Rightarrow> u64 \<Rightarrow> u64" where
  "arch_touch d i e = (let e' = set_bit 5 e in if arch_leaf i e \<and> d_write d then set_bit 6 e' else e')"

definition arch_addr :: "u64 \<Rightarrow> u64 \<Rightarrow> nat \<Rightarrow> u64" where
  "arch_addr base v i = base OR push_bit 3 (take_bit 9 (drop_bit (12 + 9 * i) v))"

definition arch_frame :: "nat \<Rightarrow> nat \<Rightarrow> u64 \<Rightarrow> u64 \<Rightarrow> u64" where
  "arch_frame nb i e v = take_bit nb e AND NOT (mask (12 + 9 * i)) OR v AND mask (12 + 9 * i) AND NOT (mask 12)"

fun arch_walk :: "host_mem \<Rightarrow> nat \<Rightarrow> get_pte_data \<Rightarrow> u64 \<Rightarrow> nat \<Rightarrow> u64 \<Rightarrow> ram \<Rightarrow> arch_end \<times> ram" where
  "arch_walk s nb d v 0 base r = (Maps base, r)"
| "arch_walk s nb d v (Suc i) base r =
     (let a = arch_addr base v i; e = ram_load 8 a r
      in if \<not> arch_ordinary s a then (Panics, r)
         else case arch_check nb d i e of
           Some err \<Rightarrow> (Faults err, r)
         | None \<Rightarrow>
             let r = ram_store 8 a (arch_touch d i e) r
             in if arch_leaf i e then (Maps (arch_frame nb i e v), r)
                else arch_walk s nb d v i (take_bit nb e AND NOT (mask 12)) r)"

text \<open>
  The program's table reserves one bit more: bit 8 of the entries of the two upper levels that point to a table.
  \<open>meets_bit8\<close>: the architecture's walk reads a present entry with that bit.
\<close>

definition ignored_bit8 :: "nat \<Rightarrow> u64 \<Rightarrow> bool" where
  "ignored_bit8 i e \<longleftrightarrow> bit e 8 \<and> (i = 3 \<or> i = 2 \<and> \<not> bit e 7)"

fun meets_bit8 :: "host_mem \<Rightarrow> nat \<Rightarrow> get_pte_data \<Rightarrow> u64 \<Rightarrow> nat \<Rightarrow> u64 \<Rightarrow> ram \<Rightarrow> bool" where
  "meets_bit8 s nb d v 0 base r \<longleftrightarrow> False"
| "meets_bit8 s nb d v (Suc i) base r \<longleftrightarrow>
     (let a = arch_addr base v i; e = ram_load 8 a r
      in arch_ordinary s a \<and> bit e 0 \<and> (ignored_bit8 i e \<or>
         arch_check nb d i e = None \<and> \<not> arch_leaf i e \<and>
         meets_bit8 s nb d v i (take_bit nb e AND NOT (mask 12)) (ram_store 8 a (arch_touch d i e) r)))"

section \<open>The walk by the program's table\<close>

text \<open>The same walk with the reserved bits of the program's table, over which the cursor is analysed first.\<close>

definition table_reserved :: "nat \<Rightarrow> bool \<Rightarrow> nat \<Rightarrow> u64 \<Rightarrow> bool" where
  "table_reserved nb nxe i e \<longleftrightarrow> list_ex (\<lambda>b. bit e b \<and>
     (nb \<le> b \<and> b < 52 \<or> b = 63 \<and> \<not> nxe \<or> i = 3 \<and> (b = 7 \<or> b = 8) \<or> i = 2 \<and> \<not> bit e 7 \<and> b = 8 \<or>
      arch_large i e \<and> 13 \<le> b \<and> b < 12 + 9 * i)) [0..<64]"

definition table_check :: "nat \<Rightarrow> get_pte_data \<Rightarrow> nat \<Rightarrow> u64 \<Rightarrow> vmmerr option" where
  "table_check nb d i e =
     (if \<not> bit e 0 then Some VMMERR_PAGE_NOT_PRESENT
      else if table_reserved nb (d_nxe d) i e then Some VMMERR_PAGE_BAD_RESERVED_BIT
      else if \<not> bit e 2 \<and> d_user d \<or> \<not> bit e 1 \<and> d_write d \<and> (d_wp d \<or> d_user d) then Some VMMERR_PAGE_NOT_ACCESSIBLE
      else if bit e 63 \<and> d_exec d \<and> d_nxe d then Some VMMERR_PAGE_NOT_EXECUTABLE
      else None)"

fun table_walk :: "host_mem \<Rightarrow> nat \<Rightarrow> get_pte_data \<Rightarrow> u64 \<Rightarrow> nat \<Rightarrow> u64 \<Rightarrow> ram \<Rightarrow> arch_end \<times> ram" where
  "table_walk s nb d v 0 base r = (Maps base, r)"
| "table_walk s nb d v (Suc i) base r =
     (let a = arch_addr base v i; e = ram_load 8 a r
      in if \<not> arch_ordinary s a then (Panics, r)
         else case table_check nb d i e of
           Some err \<Rightarrow> (Faults err, r)
         | None \<Rightarrow>
             let r = ram_store 8 a (arch_touch d i e) r
             in if arch_leaf i e then (Maps (arch_frame nb i e v), r)
                else table_walk s nb d v i (take_bit nb e AND NOT (mask 12)) r)"

lemma table_reserved_iff: "table_reserved nb nxe i e \<longleftrightarrow> arch_reserved nb nxe i e \<or> ignored_bit8 i e"
proof -
  have "bit e 8 \<longleftrightarrow> (\<exists>b \<in> {0..<64}. bit e b \<and> b = 8)" by auto
  then show ?thesis unfolding table_reserved_def arch_reserved_def ignored_bit8_def list_ex_iff set_upt by blast
qed

lemma table_check_bit8: "table_check nb d i e =
    (if bit e 0 \<and> ignored_bit8 i e then Some VMMERR_PAGE_BAD_RESERVED_BIT else arch_check nb d i e)"
  by (simp add: table_check_def arch_check_def table_reserved_iff)

lemma table_walk_bit8:
  "if meets_bit8 s nb d v i base r then fst (table_walk s nb d v i base r) = Faults VMMERR_PAGE_BAD_RESERVED_BIT
    else table_walk s nb d v i base r = arch_walk s nb d v i base r"
proof (induction i arbitrary: base r)
  case (Suc i)
  define a where "a = arch_addr base v i"
  define e where "e = (ram_load 8 a r :: u64)"
  have "bit e 0" if "arch_check nb d i e = None" using that by (auto simp: arch_check_def split: if_splits)
  then show ?case using Suc.IH [of "take_bit nb e AND NOT (mask 12)" "ram_store 8 a (arch_touch d i e) r"]
    by (auto simp: Let_def table_check_bit8 simp flip: a_def e_def split: option.split)
qed simp

lemma table_walk_end:
  assumes "table_walk s nb d v 4 base r = (q, r')" "q \<noteq> Faults VMMERR_PAGE_BAD_RESERVED_BIT"
  shows "\<not> meets_bit8 s nb d v 4 base r" "arch_walk s nb d v 4 base r = (q, r')"
  using table_walk_bit8 [of s nb d v 4 base r] assms by (auto split: if_splits)

section \<open>Bits\<close>

lemma entry_bits:
  "e AND PDE_P_BIT = 0 \<longleftrightarrow> \<not> bit e 0" "e AND PDE_RW_BIT = 0 \<longleftrightarrow> \<not> bit e 1" "e AND PDE_US_BIT = 0 \<longleftrightarrow> \<not> bit e 2"
  "e AND PDE_A_BIT = 0 \<longleftrightarrow> \<not> bit e 5" "e AND PDE_D_BIT = 0 \<longleftrightarrow> \<not> bit e 6" "e AND PDE_PS_BIT = 0 \<longleftrightarrow> \<not> bit e 7"
  "e AND PDE_NX_BIT = 0 \<longleftrightarrow> \<not> bit e 63" "e AND PDE_4M_PAT_BIT = 0 \<longleftrightarrow> \<not> bit e 12"
  using and_exp_eq_0_iff_not_bit [of e 0] and_exp_eq_0_iff_not_bit [of e 1] and_exp_eq_0_iff_not_bit [of e 2]
    and_exp_eq_0_iff_not_bit [of e 5] and_exp_eq_0_iff_not_bit [of e 6] and_exp_eq_0_iff_not_bit [of e 7]
    and_exp_eq_0_iff_not_bit [of e 63] and_exp_eq_0_iff_not_bit [of e 12]
  by (simp_all add: PDE_P_BIT_def PDE_RW_BIT_def PDE_US_BIT_def PDE_A_BIT_def PDE_D_BIT_def PDE_PS_BIT_def PDE_NX_BIT_def
      PDE_4M_PAT_BIT_def)

lemma or_exp: "e OR PDE_A_BIT = set_bit 5 e" "e OR PDE_D_BIT = set_bit 6 e"
  by (simp_all add: set_bit_eq_or PDE_A_BIT_def PDE_D_BIT_def)

lemma word_and_nonzero: "(x :: 'a::len word) AND y \<noteq> 0 \<longleftrightarrow> (\<exists>b < LENGTH('a). bit x b \<and> bit y b)"
  by (auto simp: bit_eq_iff bit_simps dest: bit_imp_le_length)

lemma nbits_mask_eq: "nbits_mask a = mask (min 52 (max 32 (unat (a AND 0xFF)))) AND NOT (mask 12)"
proof -
  define k where "k = a AND 0xFF"
  have "(if 52 < (if k < 32 then 32 else k) then 52 else if k < 32 then 32 else k) = (of_nat (min 52 (max 32 (unat k))) :: u32)"
    by (auto simp: word_unat_eq_iff word_less_nat_alt min_def max_def)
  moreover have "unat (of_nat (min 52 (max 32 (unat k))) :: u32) = min 52 (max 32 (unat k))"
    by (simp add: unat_of_nat)
  moreover have "NOT (0xFFF OR push_bit n (NOT 0) :: u64) = mask n AND NOT (mask 12)" for n
  proof -
    have "(0xFFF :: u64) = mask 12" by (simp add: mask_eq_exp_minus_1)
    then show ?thesis by (auto simp: bit_eq_iff bit_simps)
  qed
  ultimately show ?thesis by (simp add: nbits_mask_def Let_def PAGESIZE_MASK_def flip: k_def)
qed

lemma table_masks:
  "(0x800FFFF0001FE000 :: u64) = push_bit 36 (mask 16) OR push_bit 13 (mask 8) OR push_bit 63 1"
  "(0x800FFFF000000000 :: u64) = push_bit 36 (mask 16) OR push_bit 63 1"
  "(0x800FFFF000000100 :: u64) = push_bit 36 (mask 16) OR push_bit 8 1 OR push_bit 63 1"
  "(0x800FFFF000000180 :: u64) = push_bit 36 (mask 16) OR push_bit 7 (mask 2) OR push_bit 63 1"
  "(0x800FFFF03FFFE000 :: u64) = push_bit 36 (mask 16) OR push_bit 13 (mask 17) OR push_bit 63 1"
  "(0x000FFFF0001FE000 :: u64) = push_bit 36 (mask 16) OR push_bit 13 (mask 8)"
  "(0x000FFFF000000000 :: u64) = push_bit 36 (mask 16)"
  "(0x000FFFF000000100 :: u64) = push_bit 36 (mask 16) OR push_bit 8 1"
  "(0x000FFFF000000180 :: u64) = push_bit 36 (mask 16) OR push_bit 7 (mask 2)"
  "(0x000FFFF03FFFE000 :: u64) = push_bit 36 (mask 16) OR push_bit 13 (mask 17)"
  "PTE_ADDR_MASK64 = push_bit 12 (mask 24)"
  by (simp_all add: mask_eq_exp_minus_1 PTE_ADDR_MASK64_def)

lemma table_bits:
  assumes "b < 64"
  shows "bit (0x800FFFF0001FE000 :: u64) b \<longleftrightarrow> 36 \<le> b \<and> b < 52 \<or> 13 \<le> b \<and> b < 21 \<or> b = 63"
    "bit (0x800FFFF000000000 :: u64) b \<longleftrightarrow> 36 \<le> b \<and> b < 52 \<or> b = 63"
    "bit (0x800FFFF000000100 :: u64) b \<longleftrightarrow> 36 \<le> b \<and> b < 52 \<or> b = 8 \<or> b = 63"
    "bit (0x800FFFF000000180 :: u64) b \<longleftrightarrow> 36 \<le> b \<and> b < 52 \<or> b = 7 \<or> b = 8 \<or> b = 63"
    "bit (0x800FFFF03FFFE000 :: u64) b \<longleftrightarrow> 36 \<le> b \<and> b < 52 \<or> 13 \<le> b \<and> b < 30 \<or> b = 63"
    "bit (0x000FFFF0001FE000 :: u64) b \<longleftrightarrow> 36 \<le> b \<and> b < 52 \<or> 13 \<le> b \<and> b < 21"
    "bit (0x000FFFF000000000 :: u64) b \<longleftrightarrow> 36 \<le> b \<and> b < 52"
    "bit (0x000FFFF000000100 :: u64) b \<longleftrightarrow> 36 \<le> b \<and> b < 52 \<or> b = 8"
    "bit (0x000FFFF000000180 :: u64) b \<longleftrightarrow> 36 \<le> b \<and> b < 52 \<or> b = 7 \<or> b = 8"
    "bit (0x000FFFF03FFFE000 :: u64) b \<longleftrightarrow> 36 \<le> b \<and> b < 52 \<or> 13 \<le> b \<and> b < 30"
    "bit PTE_ADDR_MASK64 b \<longleftrightarrow> 12 \<le> b \<and> b < 36"
  unfolding table_masks bit_or_iff bit_push_bit_iff bit_mask_iff bit_1_iff using assms by auto

lemma reserved_test:
  assumes "i < 4" "32 \<le> nb" "nb \<le> 48" "d_pae d"
  shows "test_pmap_entry_reserved_bit (mask nb AND NOT (mask 12)) e (Suc i) 4 d = Some (table_reserved nb (d_nxe d) i e)"
proof -
  have i: "i = 0 \<or> i = 1 \<or> i = 2 \<or> i = 3" using assms(1) by linarith
  define lev where "lev = (if i = 1 \<and> bit e 7 then 0 else if i = 2 \<and> bit e 7 then 5 else Suc i)"
  define m where "m = reserved_bit_table ! (if d_nxe d then 1 else 0) ! 2 ! lev XOR (mask nb AND NOT (mask 12) XOR PTE_ADDR_MASK64)"
  have mbit: "bit m b \<longleftrightarrow> (nb \<le> b \<and> b < 52 \<or> b = 63 \<and> \<not> d_nxe d \<or> i = 3 \<and> (b = 7 \<or> b = 8) \<or> i = 2 \<and> \<not> bit e 7 \<and> b = 8 \<or>
      arch_large i e \<and> 13 \<le> b \<and> b < 12 + 9 * i)" if "b < 64" for b
  proof -
    have pm: "bit (mask nb AND NOT (mask 12) XOR PTE_ADDR_MASK64) b \<longleftrightarrow> (12 \<le> b \<and> b < nb) \<noteq> (12 \<le> b \<and> b < 36)"
      using that by (auto simp: bit_simps table_bits)
    have tbl: "bit (reserved_bit_table ! (if d_nxe d then 1 else 0) ! 2 ! lev) b \<longleftrightarrow>
        36 \<le> b \<and> b < 52 \<or> b = 63 \<and> \<not> d_nxe d \<or> i = 3 \<and> (b = 7 \<or> b = 8) \<or> i = 2 \<and> \<not> bit e 7 \<and> b = 8 \<or>
        arch_large i e \<and> 13 \<le> b \<and> b < 12 + 9 * i"
      using i by (elim disjE; cases "bit e 7"; cases "d_nxe d")
        (simp_all add: lev_def reserved_bit_table_def table_bits [OF that] arch_large_def disj_ac del: bit_numeral_word_iff)
    have small: "arch_large i e \<and> 13 \<le> b \<and> b < 12 + 9 * i \<Longrightarrow> b < 32" by (auto simp: arch_large_def)
    have m: "bit m b \<longleftrightarrow> bit (reserved_bit_table ! (if d_nxe d then 1 else 0) ! 2 ! lev) b \<noteq> ((12 \<le> b \<and> b < nb) \<noteq> (12 \<le> b \<and> b < 36))"
      unfolding m_def bit_xor_iff pm [unfolded bit_xor_iff] ..
    consider "b < 32" | "32 \<le> b" "b < 52" | "52 \<le> b" by linarith
    then show ?thesis
    proof cases
      case 1
      with assms(2) have "\<not> nb \<le> b" "(12 \<le> b \<and> b < nb) = (12 \<le> b \<and> b < 36)" "\<not> 36 \<le> b" by auto
      then show ?thesis unfolding m tbl by auto
    next
      case 2
      with small have "\<not> (arch_large i e \<and> 13 \<le> b \<and> b < 12 + 9 * i)" by linarith
      with 2 show ?thesis unfolding m tbl by (cases "b < 36"; cases "b < nb") auto
    next
      case 3
      with small have "\<not> (arch_large i e \<and> 13 \<le> b \<and> b < 12 + 9 * i)" by linarith
      with 3 assms(3) show ?thesis unfolding m tbl by auto
    qed
  qed
  have "\<not> bit m 0" by (subst mbit) (use assms(2) in \<open>auto simp: arch_large_def\<close>)
  then have m1: "m \<noteq> 0xFFFFFFFFFFFFFFFF" by (auto simp: bit_simps)
  have "e AND m \<noteq> 0 \<longleftrightarrow> table_reserved nb (d_nxe d) i e"
    unfolding word_and_nonzero table_reserved_def list_ex_iff using mbit by (auto simp: atLeast0LessThan)
  moreover have "test_pmap_entry_reserved_bit (mask nb AND NOT (mask 12)) e (Suc i) 4 d = Some (e AND m \<noteq> 0)"
    using i m1 assms(4) unfolding m_def lev_def test_pmap_entry_reserved_bit_def Let_def entry_bits
    by (elim disjE) (auto simp: numeral_eq_Suc)
  ultimately show ?thesis by simp
qed


section \<open>Memory\<close>

lemma nat_eight: "k < 8 \<Longrightarrow> unat (of_nat k :: u64) = k"
  by (simp add: unat_of_nat)

lemma le_bytes_load: "k < n \<Longrightarrow> 8 * n = LENGTH('a) \<Longrightarrow> le_bytes (le_load n p :: 'a::len word) k = p k"
  by (rule bit_word_eqI) (auto simp: le_bytes_def bit_le_load bit_simps)

lemma ram_store_same: "ram_load 8 a r = (w :: u64) \<Longrightarrow> ram_store 8 a w r = r"
  by (auto simp: ram_store_def ram_load_def le_bytes_load)

lemma ram_load_store [simp]: "ram_load 8 a (ram_store 8 a (w :: u64) r) = w"
proof -
  have "ram_load 8 a (ram_store 8 a w r) = (le_load 8 (le_bytes w) :: u64)"
    unfolding ram_load_def by (rule le_load_cong) (simp add: ram_store_def nat_eight)
  then show ?thesis by simp
qed

lemma page_mask: "PAGESIZE_MASK = mask 12" "(0xFFF :: u64) = mask 12"
  by (simp_all add: PAGESIZE_MASK_def mask_eq_exp_minus_1)

lemma gp2hp_ordinary: "\<not> phys_in_vmm s (gp AND NOT (mask 12)) \<Longrightarrow> gmm_pass_gp2hp s gp = (gp, False)"
proof -
  have "gp AND NOT (mask 12) OR gp AND mask 12 = gp" by (auto simp: bit_eq_iff bit_simps)
  then show "\<not> phys_in_vmm s (gp AND NOT (mask 12)) \<Longrightarrow> ?thesis" by (simp add: gmm_pass_gp2hp_def page_mask)
qed

lemma mmio_hit_iff: "mmio_hit s phys k \<longleftrightarrow> (\<exists>j < k. mmio s (phys + of_nat j))"
  by (auto simp: mmio_hit_def list_ex_iff)

definition fits8 :: "u64 \<Rightarrow> bool" where "fits8 a \<longleftrightarrow> a AND 0xFFF \<le> 0xFF8"

lemma cmpxchg_gphys_q_eq:
  assumes "fits8 a"
  shows "cmpxchg_gphys_q a old new s = (if arch_ordinary s a then Some (cmpxchg_hphys 8 a old new s) else None)"
proof -
  have "\<not> 0xFF9 \<le> a AND 0xFFF" using assms by (auto simp: fits8_def word_le_nat_alt)
  moreover have "mmio_hit s a 8 \<longleftrightarrow> \<not> list_all (\<lambda>k. \<not> mmio s (a + of_nat k)) [0..<8]"
    by (auto simp: mmio_hit_def list_ex_iff list_all_iff)
  ultimately show ?thesis
    using gp2hp_ordinary [of s a]
    by (cases "phys_in_vmm s (a AND NOT (mask 12))")
      (auto simp: cmpxchg_gphys_q_def arch_ordinary_def gmm_pass_gp2hp_def page_mask(1) ASSERT_def)
qed

lemma arch_addr_fits:
  assumes "base AND mask 12 = 0"
  shows "fits8 (arch_addr base v i)"
proof -
  have "arch_addr base v i AND mask 12 = arch_addr base v i AND push_bit 3 (mask 9)"
  proof (rule bit_word_eqI)
    fix n assume "n < LENGTH(64)"
    have "bit (base AND mask 12) n \<longleftrightarrow> bit base n \<and> n < 12" by (auto simp: bit_simps dest: bit_imp_le_length)
    then have "n < 12 \<Longrightarrow> \<not> bit base n" by (simp add: assms)
    then show "bit (arch_addr base v i AND mask 12) n = bit (arch_addr base v i AND push_bit 3 (mask 9)) n"
      by (auto simp: arch_addr_def bit_simps)
  qed
  also have "\<dots> \<le> push_bit 3 (mask 9)" by (rule word_and_le1)
  also have "push_bit 3 (mask 9) = (0xFF8 :: u64)" by (simp add: mask_eq_exp_minus_1)
  finally show ?thesis by (simp add: fits8_def page_mask)
qed


section \<open>The cursor at a table\<close>

lemma table_index: "drop_bit (9 + 9 * i) (v :: u64) AND 0xFF8 = push_bit 3 (take_bit 9 (drop_bit (12 + 9 * i) v))"
proof -
  have "(0xFF8 :: u64) = push_bit 3 (mask 9)" by (simp add: mask_eq_exp_minus_1)
  then show ?thesis by (auto simp: bit_eq_iff bit_simps algebra_simps)
qed

lemma frame_mask: "(0x0000FFFFFFFFF000 :: u64) = mask 48 AND NOT (mask 12)"
  by (simp add: mask_eq_exp_minus_1)

definition frame_of :: "u64 \<Rightarrow> u64" where "frame_of e = take_bit 48 e AND NOT (mask 12)"

lemma frame_of_mask: "e AND 0x0000FFFFFFFFF000 = frame_of e"
  unfolding frame_mask frame_of_def by (auto simp: bit_eq_iff bit_simps)

lemma frame_of_aligned: "frame_of e AND mask 12 = 0"
  by (auto simp: frame_of_def bit_eq_iff bit_simps)

lemma pmap_rd64_eq:
  "fits8 a \<Longrightarrow> pmap_rd64 a s = (if arch_ordinary s a then
     (let s = other_step s in Some (ram_load 8 a (ram s), s)) else None)"
proof -
  assume a: "fits8 a"
  have "s\<lparr>ram := ram_store 8 a (0 :: u64) (ram s)\<rparr> = s" if "ram_load 8 a (ram s) = (0 :: u64)" for s
    using ram_store_same [OF that] by simp
  then show ?thesis by (auto simp: pmap_rd64_def cmpxchg_gphys_q_eq [OF a] cmpxchg_hphys_def Let_def)
qed

definition at_level :: "u64 \<Rightarrow> nat \<Rightarrow> pmap \<Rightarrow> bool" where
  "at_level v i m \<longleftrightarrow> levels m = 4 \<and> readlevel m = i \<and> curaddr m = v"

definition pm_got :: "nat \<Rightarrow> u64 \<Rightarrow> u64 \<Rightarrow> pmap \<Rightarrow> pmap" where
  "pm_got i a e m = m\<lparr>curlevel := i, readlevel := i, entryaddr := (entryaddr m)(i := a), entry := (entry m)(i := e)\<rparr>"

lemma pm_got_fields [simp]:
  "entry (pm_got i a e m) i = e" "entryaddr (pm_got i a e m) i = a" "curlevel (pm_got i a e m) = i" "readlevel (pm_got i a e m) = i"
  "levels (pm_got i a e m) = levels m" "curaddr (pm_got i a e m) = curaddr m"
  by (simp_all add: pm_got_def)

lemma pmap_read_ready: "readlevel m \<le> curlevel m \<Longrightarrow> pmap_read m s = Some (entry m (curlevel m), m, s)"
  by (simp add: pmap_read.simps)

lemma pmap_read_table:
  assumes "at_level v (Suc i) m" "bit (entry m (Suc i)) 0" "\<not> arch_large (Suc i) (entry m (Suc i))"
    "a = arch_addr (frame_of (entry m (Suc i))) v i"
  shows "pmap_read (pmap_setlevel (Suc i) m) s =
    (if arch_ordinary s a then
       (let s = other_step s in Some (ram_load 8 a (ram s), pm_got i a (ram_load 8 a (ram s)) m, s)) else None)"
proof -
  have a: "frame_of (entry m (Suc i)) OR drop_bit (9 + 9 * i) v AND 0xFF8 = a" "fits8 a"
    using assms(4) arch_addr_fits [OF frame_of_aligned] by (simp_all add: arch_addr_def table_index)
  have t: "read_table (entry m (Suc i)) (pmap_setlevel (Suc i) m) s =
      do { (e, s) \<leftarrow> pmap_rd64 a s; Some (pm_got i a e m, s) }"
    using assms(1) unfolding read_table_def frame_of_mask by (simp add: at_level_def pmap_setlevel_def Let_def a pm_got_def del: bit_numeral_word_iff)
  have "pmap_read (pmap_setlevel (Suc i) m) s = do { (m, s) \<leftarrow> read_table (entry m (Suc i)) (pmap_setlevel (Suc i) m) s; pmap_read m s }"
    using assms(1-3) by (subst pmap_read.simps) (auto simp: at_level_def pmap_setlevel_def entry_bits arch_large_def Let_def)
  then show ?thesis by (simp add: t pmap_rd64_eq [OF a(2)] Let_def pmap_read_ready)
qed

lemma level_checks:
  assumes "i < 4" "32 \<le> nb" "nb \<le> 48" "d_pae d" "d_pse d" "M = mask nb AND NOT (mask 12)"
    "pmap_read m s = Some (e, m', s')"
  shows "walk_level M d 4 (Suc i) m s =
    (case table_check nb d i e of
       Some err \<Rightarrow> Some (Stop err, m', s')
     | None \<Rightarrow> do {
         (again, e, m, s) \<leftarrow> set_ad_bit True (arch_leaf i e \<and> d_write d) e m' s';
         Some (if again then Retry else Go e, m, s) })"
proof -
  have setd: "(i = Suc 0 \<and> bit e 7 \<or> i = 0 \<or> i = 2 \<and> bit e 7) \<longleftrightarrow> arch_leaf i e"
    by (auto simp: arch_leaf_def arch_large_def)
  show ?thesis
    unfolding walk_level_def assms(7) table_check_def entry_bits Let_def
    using reserved_test [OF assms(1-4), folded assms(6)] assms(5) setd
    by (auto simp del: bit_numeral_word_iff)
qed

lemma set_bit_id: "bit e n \<Longrightarrow> set_bit n (e :: 'a::len word) = e"
  by (rule bit_word_eqI) (auto simp: bit_simps)

lemma arch_touch_same: "arch_touch d i e = e \<longleftrightarrow> bit e 5 \<and> (arch_leaf i e \<and> d_write d \<longrightarrow> bit e 6)"
proof
  assume t: "arch_touch d i e = e"
  have "bit (arch_touch d i e) 5" "arch_leaf i e \<and> d_write d \<Longrightarrow> bit (arch_touch d i e) 6"
    by (auto simp: arch_touch_def bit_simps Let_def)
  then show "bit e 5 \<and> (arch_leaf i e \<and> d_write d \<longrightarrow> bit e 6)" by (auto simp: t)
next
  assume "bit e 5 \<and> (arch_leaf i e \<and> d_write d \<longrightarrow> bit e 6)"
  then show "arch_touch d i e = e" by (auto simp: arch_touch_def Let_def set_bit_id)
qed

lemma bit_arch_touch:
  "bit (arch_touch d i e) b \<longleftrightarrow> bit e b \<or> b = 5 \<or> b = 6 \<and> arch_leaf i e \<and> d_write d"
  by (auto simp: arch_touch_def Let_def bit_simps)

text \<open>Setting the bits of an entry that is not a table's own, or has them already, writes nothing.\<close>

lemma set_ad_quiet:
  assumes "arch_touch d i e = e"
  shows "set_ad_bit True (arch_leaf i e \<and> d_write d) e m s = Some (False, e, m, s)"
proof -
  have "bit e 5" "arch_leaf i e \<and> d_write d \<longrightarrow> bit e 6" using assms unfolding arch_touch_same by simp_all
  then show ?thesis unfolding set_ad_bit_def entry_bits by (cases "arch_leaf i e \<and> d_write d") (auto simp: Let_def)
qed

lemma set_ad_table:
  assumes "arch_touch d i e \<noteq> e" "levels m = 4" "fits8 a" "arch_ordinary s a"
  shows "set_ad_bit True (arch_leaf i e \<and> d_write d) e (pm_got i a e m) s =
    (let ((fail, x), s) = cmpxchg_hphys 8 a e (arch_touch d i e) s
     in Some (fail, arch_touch d i e, pm_got i a (if fail then x else arch_touch d i e) m, s))"
proof -
  have w: "pmap_write t 0xFFF (pm_got i a e m) s = (let ((fail, x), s) = cmpxchg_hphys 8 a e t s
      in Some (fail, pm_got i a (if fail then x else t) m, s))" for t
  proof -
    obtain fail x s' where c: "cmpxchg_hphys 8 a e t s = ((fail, x), s')" by (metis prod.exhaust)
    have "pm_got i a e m\<lparr>entry := (entry (pm_got i a e m))(i := y)\<rparr> = pm_got i a y m"
      "pm_got i a e m\<lparr>entry := (entry (pm_got i a e m))(i := y), readlevel := i\<rparr> = pm_got i a y m" for y
      by (simp_all add: pm_got_def)
    then show ?thesis using assms(2,4)
      by (simp add: pmap_write_def pmap_wr64_def cmpxchg_gphys_q_eq [OF assms(3)] PDE_RW_BIT_def PDE_US_BIT_def
          PDE_A_BIT_def PDE_D_BIT_def c del: fun_upd_apply)
  qed
  have s56: "set_bit 6 (set_bit 5 e) = set_bit 5 e" if "bit e 6" using that by (simp add: set_bit_id bit_simps)
  have "set_ad_bit True (arch_leaf i e \<and> d_write d) e (pm_got i a e m) s =
      do { (r, m, s) \<leftarrow> pmap_write (arch_touch d i e) 0xFFF (pm_got i a e m) s; Some (r, arch_touch d i e, m, s) }"
    using assms(1) unfolding arch_touch_same set_ad_bit_def entry_bits or_exp arch_touch_def Let_def
    by (auto simp: set_bit_id s56)
  then show ?thesis by (simp add: w Let_def split_beta)
qed

lemma other_step_none [simp]: "others s = [] \<Longrightarrow> other_step s = s"
  by (simp add: other_step_def)

definition ready :: "nat \<Rightarrow> get_pte_data \<Rightarrow> u64 \<Rightarrow> bool" where
  "ready nb d M \<longleftrightarrow> 32 \<le> nb \<and> nb \<le> 48 \<and> d_pae d \<and> d_pse d \<and> M = mask nb AND NOT (mask 12)"

definition table_next :: "u64 \<Rightarrow> nat \<Rightarrow> pmap \<Rightarrow> bool" where
  "table_next v i m \<longleftrightarrow> at_level v i m \<and> bit (entry m i) 0 \<and> \<not> arch_large i (entry m i)"

lemma walk_level_quiet:
  assumes "ready nb d M" "i < 4" "table_next v (Suc i) m" "others s = []"
    "a = arch_addr (frame_of (entry m (Suc i))) v i" "e = ram_load 8 a (ram s)" "t = arch_touch d i e"
  shows "walk_level M d 4 (Suc i) (pmap_setlevel (Suc i) m) s =
    (if \<not> arch_ordinary s a then None
     else case table_check nb d i e of
       Some err \<Rightarrow> Some (Stop err, pm_got i a e m, s)
     | None \<Rightarrow> Some (Go t, pm_got i a t m, s\<lparr>ram := ram_store 8 a t (ram s)\<rparr>))"
proof (cases "arch_ordinary s a")
  case False
  then show ?thesis using pmap_read_table [of v i m a s] assms(3,5)
    by (simp add: walk_level_def table_next_def)
next
  case True
  have f: "fits8 a" using assms(5) arch_addr_fits [OF frame_of_aligned] by simp
  have l: "levels m = 4" using assms(3) by (simp add: table_next_def at_level_def)
  have rd: "pmap_read (pmap_setlevel (Suc i) m) s = Some (e, pm_got i a e m, s)"
    using pmap_read_table [of v i m a s] assms(3-6) True by (simp add: table_next_def Let_def)
  note lc = level_checks [OF assms(2) _ _ _ _ _ rd, of nb d M]
  show ?thesis
  proof (cases "t = e")
    case same: True
    then have "s\<lparr>ram := ram_store 8 a t (ram s)\<rparr> = s" using ram_store_same [of a "ram s" e] assms(6) by simp
    then show ?thesis using lc set_ad_quiet [of d i e] same assms(1,7) True
      by (simp add: ready_def split: option.split)
  next
    case False
    have "cmpxchg_hphys 8 a e t s = ((False, e), s\<lparr>ram := ram_store 8 a t (ram s)\<rparr>)"
      using assms(4,6) by (simp add: cmpxchg_hphys_def)
    then show ?thesis using lc set_ad_table [of d i e m a s] False assms(1,7) True l f
      by (simp add: ready_def split: option.split)
  qed
qed


section \<open>Large pages\<close>

lemma split_masks:
  assumes "b < 64"
  shows "bit PDE_PS_BIT b \<longleftrightarrow> b = 7" "bit PDE_4M_PAT_BIT b \<longleftrightarrow> b = 12" "bit PTE_PAT_BIT b \<longleftrightarrow> b = 7"
    "bit (0x1FF000 :: u64) b \<longleftrightarrow> 12 \<le> b \<and> b < 21" "bit (0x3FE00000 :: u64) b \<longleftrightarrow> 21 \<le> b \<and> b < 30"
proof -
  have masks: "PDE_PS_BIT = push_bit 7 1" "PDE_4M_PAT_BIT = push_bit 12 1" "PTE_PAT_BIT = push_bit 7 1"
    "(0x1FF000 :: u64) = push_bit 12 (mask 9)" "(0x3FE00000 :: u64) = push_bit 21 (mask 9)"
    by (simp_all add: PDE_PS_BIT_def PDE_4M_PAT_BIT_def PTE_PAT_BIT_def mask_eq_exp_minus_1)
  show "bit PDE_PS_BIT b \<longleftrightarrow> b = 7" "bit PDE_4M_PAT_BIT b \<longleftrightarrow> b = 12" "bit PTE_PAT_BIT b \<longleftrightarrow> b = 7"
    "bit (0x1FF000 :: u64) b \<longleftrightarrow> 12 \<le> b \<and> b < 21" "bit (0x3FE00000 :: u64) b \<longleftrightarrow> 21 \<le> b \<and> b < 30"
    unfolding masks bit_push_bit_iff bit_mask_iff bit_1_iff using assms by auto
qed

lemma bit_split_large:
  assumes "levels m = 4" "b < 64"
  shows "bit (split_large m t) b \<longleftrightarrow>
    (if 12 \<le> b \<and> b < 21 then bit (curaddr m) b else if b = 7 then bit t 12 else bit t b)"
proof -
  note num = split_masks [OF assms(2)]
  have pat: "(t AND NOT PDE_PS_BIT) AND PDE_4M_PAT_BIT \<noteq> 0 \<longleftrightarrow> bit t 12"
    unfolding entry_bits(8) by (simp add: bit_and_iff bit_not_iff split_masks)
  define X where "X = (0x1FF000 :: u64)"
  show ?thesis
    unfolding split_large_def Let_def pat X_def [symmetric] using assms(2)
    by (cases "bit t 12") (auto simp: assms(1) bit_or_iff bit_and_iff bit_not_iff num [folded X_def])
qed

definition split_huge :: "pmap \<Rightarrow> u64 \<Rightarrow> u64" where
  "split_huge m t = (t AND NOT 0x3FE00000) OR (curaddr m AND 0x3FE00000)"

lemma bit_split_huge:
  assumes "b < 64"
  shows "bit (split_huge m t) b \<longleftrightarrow> (if 21 \<le> b \<and> b < 30 then bit (curaddr m) b else bit t b)"
proof -
  define X where "X = (0x3FE00000 :: u64)"
  show ?thesis unfolding split_huge_def X_def [symmetric] using assms
    by (auto simp: bit_or_iff bit_and_iff bit_not_iff split_masks [folded X_def])
qed

text \<open>What a large page's entry is split into passes the same checks and has its bits set.\<close>

lemma reserved_clear:
  "table_reserved nb nxe i e \<longleftrightarrow> (\<exists>b < 64. bit e b \<and>
     (nb \<le> b \<and> b < 52 \<or> b = 63 \<and> \<not> nxe \<or> i = 3 \<and> (b = 7 \<or> b = 8) \<or> i = 2 \<and> \<not> bit e 7 \<and> b = 8 \<or>
      arch_large i e \<and> 13 \<le> b \<and> b < 12 + 9 * i))"
  unfolding table_reserved_def list_ex_iff set_upt atLeast0LessThan Bex_def lessThan_iff ..

lemma check_same:
  assumes "table_check nb d i e = None" "\<And>b. b \<in> {0, 1, 2, 63} \<Longrightarrow> bit e' b = bit e b" "\<not> table_reserved nb (d_nxe d) j e'"
  shows "table_check nb d j e' = None"
  using assms(1,3) assms(2) [of 0] assms(2) [of 1] assms(2) [of 2] assms(2) [of 63]
  by (auto simp: table_check_def split: if_splits)

lemma split_large_check:
  assumes "table_check nb d 1 e = None" "levels m = 4" "32 \<le> nb"
  shows "table_check nb d 0 (split_large m e) = None"
proof (rule check_same [OF assms(1)])
  show "bit (split_large m e) b = bit e b" if "b \<in> {0, 1, 2, 63}" for b
    using that by (auto simp: bit_split_large [OF assms(2)])
  have "\<not> table_reserved nb (d_nxe d) 1 e" using assms(1) by (auto simp: table_check_def split: if_splits)
  then show "\<not> table_reserved nb (d_nxe d) 0 (split_large m e)"
    using assms(3) by (auto simp: reserved_clear arch_large_def bit_split_large [OF assms(2)] split: if_splits)
qed

lemma split_huge_check:
  assumes "table_check nb d 2 e = None" "arch_large 2 e" "32 \<le> nb"
  shows "table_check nb d 1 (split_huge m e) = None" "arch_large 1 (split_huge m e)"
proof -
  show "table_check nb d 1 (split_huge m e) = None"
  proof (rule check_same [OF assms(1)])
    show "bit (split_huge m e) b = bit e b" if "b \<in> {0, 1, 2, 63}" for b
      using that by (auto simp: bit_split_huge)
    have "\<not> table_reserved nb (d_nxe d) 2 e" using assms(1) by (auto simp: table_check_def split: if_splits)
    then show "\<not> table_reserved nb (d_nxe d) 1 (split_huge m e)"
      using assms(2,3) by (auto simp: reserved_clear arch_large_def bit_split_huge split: if_splits)
  qed
  show "arch_large 1 (split_huge m e)" using assms(2) by (simp add: arch_large_def bit_split_huge)
qed

lemma reserved_frame:
  assumes "table_check nb d i e = None" "nb \<le> 48"
  shows "frame_of (arch_touch d i e) = take_bit nb e AND NOT (mask 12)"
proof (rule bit_word_eqI)
  fix b assume b: "b < LENGTH(64)"
  have "\<not> table_reserved nb (d_nxe d) i e" using assms(1) by (auto simp: table_check_def split: if_splits)
  then have "nb \<le> b \<and> b < 48 \<longrightarrow> \<not> bit e b" by (auto simp: reserved_clear)
  then show "bit (frame_of (arch_touch d i e)) b = bit (take_bit nb e AND NOT (mask 12)) b"
    using b assms(2) by (cases "nb \<le> b") (auto simp: frame_of_def bit_simps bit_arch_touch)
qed


lemma touch_large [simp]: "arch_large i (arch_touch d j e) = arch_large i e"
  by (auto simp: arch_large_def bit_arch_touch)

lemma touch_check:
  assumes "table_check nb d i e = None" "32 \<le> nb"
  shows "table_check nb d i (arch_touch d i e) = None"
proof (rule check_same [OF assms(1)])
  show "bit (arch_touch d i e) b = bit e b" if "b \<in> {0, 1, 2, 63}" for b
    using that by (auto simp: bit_arch_touch)
  have "\<not> table_reserved nb (d_nxe d) i e" using assms(1) by (auto simp: table_check_def split: if_splits)
  then show "\<not> table_reserved nb (d_nxe d) i (arch_touch d i e)"
    using assms(2) by (auto simp: reserved_clear bit_arch_touch)
qed

definition has_ad :: "get_pte_data \<Rightarrow> u64 \<Rightarrow> bool" where
  "has_ad d e \<longleftrightarrow> bit e 5 \<and> (d_write d \<longrightarrow> bit e 6)"

lemma has_ad_touch: "has_ad d e \<Longrightarrow> arch_touch d i e = e" "arch_leaf i e \<Longrightarrow> has_ad d (arch_touch d i e)"
  by (auto simp: has_ad_def arch_touch_same bit_arch_touch)

lemma split_fields [simp]:
  "split_large (pmap_setlevel k m) t = split_large m t" "split_large (m\<lparr>curlevel := k\<rparr>) t = split_large m t" "curaddr (pmap_setlevel k m) = curaddr m"
  "entry (pmap_setlevel k m) = entry m" "readlevel (pmap_setlevel k m) = readlevel m" "levels (pmap_setlevel k m) = levels m"
  by (simp_all add: split_large_def pmap_setlevel_def Let_def)

lemma walk_given:
  assumes "ready nb d M" "i < 4" "pmap_read (pmap_setlevel (Suc i) m) s = Some (e, pmap_setlevel (Suc i) m, s)"
    "table_check nb d i e = None" "has_ad d e"
  shows "walk_levels (Suc n) M d 4 (Suc i) es m s = walk_levels (Suc n) M d 4 i (es(i := e)) (pmap_setlevel (Suc i) m) s"
  using level_checks [OF assms(2) _ _ _ _ _ assms(3), of nb d M] assms(1,4) set_ad_quiet [OF has_ad_touch(1) [OF assms(5)], of i]
  by (simp add: ready_def)

lemma walk_split_large:
  assumes "ready nb d M" "readlevel m = 1" "levels m = 4" "arch_large 1 (entry m 1)" "has_ad d (entry m 1)"
    "table_check nb d 1 (entry m 1) = None"
  shows "walk_levels (Suc n) M d 4 1 es m s = Some (VMMERR_SUCCESS, es(0 := split_large m (entry m 1)), s)"
proof -
  have "bit (entry m 1) 0" using assms(6) by (auto simp: table_check_def split: if_splits)
  then have "pmap_read (pmap_setlevel (Suc 0) m) s = Some (split_large m (entry m 1), pmap_setlevel (Suc 0) m, s)"
    using assms(2,4) by (subst pmap_read.simps) (auto simp: entry_bits arch_large_def pmap_setlevel_def)
  moreover have "table_check nb d 0 (split_large m (entry m 1)) = None"
    using split_large_check [OF assms(6,3)] assms(1) by (simp add: ready_def)
  moreover have "has_ad d (split_large m (entry m 1))" using assms(5) by (simp add: has_ad_def bit_split_large [OF assms(3)])
  ultimately show ?thesis using walk_given [OF assms(1), of 0 m s "split_large m (entry m 1)" n es] by simp
qed

lemma walk_split_huge:
  assumes "ready nb d M" "readlevel m = 2" "levels m = 4" "arch_large 2 (entry m 2)" "has_ad d (entry m 2)"
    "table_check nb d 2 (entry m 2) = None"
  shows "\<exists>es'. walk_levels (Suc n) M d 4 2 es m s = Some (VMMERR_SUCCESS, es', s) \<and>
    es' 0 = split_large m (split_huge m (entry m 2))"
proof -
  define t where "t = split_huge m (entry m 2)"
  have nb: "32 \<le> nb" using assms(1) by (simp add: ready_def)
  have p: "bit (entry m 2) 0" using assms(6) by (auto simp: table_check_def split: if_splits)
  have c: "table_check nb d 1 t = None" "arch_large 1 t" using split_huge_check [OF assms(6,4) nb] by (simp_all add: t_def)
  have a: "has_ad d t" using assms(5) by (simp add: has_ad_def t_def bit_split_huge)
  have "pmap_read (pmap_setlevel (Suc 1) m) s = Some (t, pmap_setlevel (Suc 1) m, s)"
    using assms(2,4) p by (subst pmap_read.simps) (auto simp: entry_bits arch_large_def pmap_setlevel_def t_def split_huge_def)
  then have 1: "walk_levels (Suc n) M d 4 2 es m s = walk_levels (Suc n) M d 4 1 (es(1 := t)) (pmap_setlevel 2 m) s"
    using walk_given [OF assms(1) _ _ c(1) a, of m s n es] by (simp add: numeral_2_eq_2)
  have "pmap_read (pmap_setlevel (Suc 0) (pmap_setlevel 2 m)) s =
      Some (split_large m t, pmap_setlevel (Suc 0) (pmap_setlevel 2 m), s)"
    using assms(2,4) p by (subst pmap_read.simps)
      (auto simp: entry_bits arch_large_def pmap_setlevel_def t_def split_huge_def)
  moreover have "table_check nb d 0 (split_large m t) = None" using split_large_check [OF c(1) assms(3) nb] .
  moreover have "has_ad d (split_large m t)" using a by (simp add: has_ad_def bit_split_large [OF assms(3)])
  ultimately show ?thesis
    using 1 walk_given [OF assms(1), of 0 "pmap_setlevel 2 m" s "split_large m t" n "es(1 := t)"] by (simp add: t_def)
qed


lemma arch_ordinary_ram [simp]: "arch_ordinary (s\<lparr>ram := r\<rparr>) a = arch_ordinary s a"
  by (simp add: arch_ordinary_def phys_in_vmm_def)

lemma table_walk_ram [simp]: "table_walk (s\<lparr>ram := x\<rparr>) nb d v i base r = table_walk s nb d v i base r"
  by (induction i arbitrary: base r) (simp_all add: Let_def split: option.split)

lemma table_check_no_success: "table_check nb d i e \<noteq> Some VMMERR_SUCCESS"
  by (simp add: table_check_def)

fun walk_match :: "u64 \<Rightarrow> host_mem \<Rightarrow> arch_end \<times> ram \<Rightarrow> (vmmerr \<times> (nat \<Rightarrow> u64) \<times> host_mem) option \<Rightarrow> bool" where
  "walk_match M s (Panics, r) w \<longleftrightarrow> w = None"
| "walk_match M s (Faults err, r) w \<longleftrightarrow> err \<noteq> VMMERR_SUCCESS \<and> (\<exists>es. w = Some (err, es, s\<lparr>ram := r\<rparr>))"
| "walk_match M s (Maps p, r) w \<longleftrightarrow> (\<exists>es. w = Some (VMMERR_SUCCESS, es, s\<lparr>ram := r\<rparr>) \<and> es 0 AND M = p)"

lemma walk_match_ram [simp]: "walk_match M (s\<lparr>ram := x\<rparr>) a w = walk_match M s a w"
  by (induction M s a w rule: walk_match.induct) simp_all

lemma frame_bits:
  assumes "ready nb d M"
  shows "arch_touch d 0 e AND M = arch_frame nb 0 e v"
    and "levels m = 4 \<Longrightarrow> curaddr m = v \<Longrightarrow> split_large m (arch_touch d i e) AND M = arch_frame nb 1 e v"
    and "levels m = 4 \<Longrightarrow> curaddr m = v \<Longrightarrow> split_large m (split_huge m (arch_touch d i e)) AND M = arch_frame nb 2 e v"
proof -
  have M: "M = mask nb AND NOT (mask 12)" "32 \<le> nb" using assms by (simp_all add: ready_def)
  show "arch_touch d 0 e AND M = arch_frame nb 0 e v"
    by (rule bit_word_eqI) (auto simp: M arch_frame_def bit_simps bit_arch_touch)
  show "split_large m (arch_touch d i e) AND M = arch_frame nb 1 e v" if "levels m = 4" "curaddr m = v"
    by (rule bit_word_eqI) (use M(2) in \<open>auto simp: M(1) arch_frame_def bit_simps bit_arch_touch bit_split_large that\<close>)
  show "split_large m (split_huge m (arch_touch d i e)) AND M = arch_frame nb 2 e v" if "levels m = 4" "curaddr m = v"
    by (rule bit_word_eqI)
      (use M(2) in \<open>auto simp: M(1) arch_frame_def bit_simps bit_arch_touch bit_split_large bit_split_huge that\<close>)
qed

lemma walk_levels_arch:
  assumes "ready nb d M" "i < 4" "table_next v (Suc i) m" "others s = []"
  shows "walk_match M s (table_walk s nb d v (Suc i) (frame_of (entry m (Suc i))) (ram s)) (walk_levels (Suc n) M d 4 (Suc i) es m s)"
  using assms(2-4)
proof (induction i arbitrary: m s es)
  case (0 m s es)
  define a where "a = arch_addr (frame_of (entry m (Suc 0))) v 0"
  define e where "e = (ram_load 8 a (ram s) :: u64)"
  note lev = walk_level_quiet [OF assms(1) 0 refl refl refl, folded a_def, folded e_def]
  show ?case using lev table_check_no_success [of nb d 0 e] frame_bits(1) [OF assms(1), of e v]
    by (auto simp: Let_def arch_leaf_def simp flip: a_def e_def split: option.split)
next
  case (Suc i m s es)
  define a where "a = arch_addr (frame_of (entry m (Suc (Suc i)))) v (Suc i)"
  define e where "e = (ram_load 8 a (ram s) :: u64)"
  define t where "t = arch_touch d (Suc i) e"
  define m' where "m' = pm_got (Suc i) a t m"
  define s' where "s' = s\<lparr>ram := ram_store 8 a t (ram s)\<rparr>"
  note lev = walk_level_quiet [OF assms(1) Suc.prems refl refl refl, folded a_def, folded e_def, folded t_def, folded m'_def s'_def]
  have lv: "levels m = 4" "curaddr m = v" using Suc.prems(2) by (simp_all add: table_next_def at_level_def)
  have m': "entry m' (Suc i) = t" "readlevel m' = Suc i" "levels m' = 4" "curaddr m' = v" by (simp_all add: m'_def lv)
  show ?case
  proof (cases "arch_ordinary s a \<and> table_check nb d (Suc i) e = None")
    case False
    then show ?thesis using lev table_check_no_success [of nb d "Suc i" e]
      by (auto simp: Let_def simp flip: a_def e_def split: option.split)
  next
    case True
    then have w: "walk_levels (Suc n) M d 4 (Suc (Suc i)) es m s = walk_levels (Suc n) M d 4 (Suc i) (es(Suc i := t)) m' s'"
      using lev by simp
    have ar: "table_walk s nb d v (Suc (Suc i)) (frame_of (entry m (Suc (Suc i)))) (ram s) =
        (if arch_leaf (Suc i) e then (Maps (arch_frame nb (Suc i) e v), ram s')
         else table_walk s nb d v (Suc i) (take_bit nb e AND NOT (mask 12)) (ram s'))"
      by (subst table_walk.simps) (use True in \<open>simp add: Let_def s'_def t_def flip: a_def e_def\<close>)
    have nb: "32 \<le> nb" "nb \<le> 48" using assms(1) by (simp_all add: ready_def)
    have tc: "table_check nb d (Suc i) t = None" using touch_check [of nb d "Suc i" e] True nb by (simp add: t_def)
    have s's: "s\<lparr>ram := ram s'\<rparr> = s'" by (simp add: s'_def)
    consider (go) "\<not> arch_leaf (Suc i) e" | (large) "arch_large (Suc i) e" "i = 0" | (huge) "arch_large (Suc i) e" "i = 1"
      by (auto simp: arch_leaf_def arch_large_def)
    then show ?thesis
    proof cases
      case go
      have "table_next v (Suc i) m'"
        using go tc by (auto simp: table_next_def at_level_def m' t_def arch_leaf_def table_check_def split: if_splits)
      with Suc.IH [of m' s' "es(Suc i := t)"] Suc.prems(1,3)
      have "walk_match M s' (table_walk s' nb d v (Suc i) (frame_of t) (ram s')) (walk_levels (Suc n) M d 4 (Suc i) (es(Suc i := t)) m' s')"
        by (simp add: m' s'_def del: table_walk.simps walk_levels.simps fun_upd_apply)
      moreover have "frame_of t = take_bit nb e AND NOT (mask 12)" using reserved_frame [of nb d "Suc i" e] True nb by (simp add: t_def)
      ultimately show ?thesis unfolding w ar using go by (simp add: s'_def del: table_walk.simps walk_levels.simps)
    next
      case large
      have had: "has_ad d t" using has_ad_touch(2) [of "Suc i" e d] large by (simp add: t_def arch_leaf_def)
      have fr: "split_large m' t AND M = arch_frame nb 1 e v" unfolding t_def by (rule frame_bits(2) [OF assms(1) m'(3,4)])
      have "walk_levels (Suc n) M d 4 (Suc i) (es(Suc i := t)) m' s' =
          Some (VMMERR_SUCCESS, (es(Suc i := t))(0 := split_large m' (entry m' 1)), s')"
        using walk_split_large [OF assms(1) _ m'(3), of n "es(Suc i := t)" s'] m' had tc large by (simp add: t_def)
      then show ?thesis unfolding w ar using large m' fr s's by (simp add: arch_leaf_def)
    next
      case huge
      have two: "Suc i = 2" using huge by simp
      have had: "has_ad d t" using has_ad_touch(2) [of "Suc i" e d] huge by (simp add: t_def arch_leaf_def)
      have fr: "split_large m' (split_huge m' t) AND M = arch_frame nb 2 e v" unfolding t_def by (rule frame_bits(3) [OF assms(1) m'(3,4)])
      have e2: "entry m' 2 = t" using m'(1) two by simp
      have "arch_large 2 (entry m' 2)" using huge(1) two by (simp add: e2 t_def)
      then obtain es' where "walk_levels (Suc n) M d 4 2 (es(Suc i := t)) m' s' = Some (VMMERR_SUCCESS, es', s')"
        "es' 0 = split_large m' (split_huge m' t)"
        using walk_split_huge [OF assms(1) _ m'(3), of n "es(Suc i := t)" s'] m'(2) two had tc [unfolded two] e2 by auto
      then show ?thesis unfolding w ar unfolding two using huge(1) [unfolded two] fr s's by (simp add: arch_leaf_def two)
    qed
  qed
qed


section \<open>The whole walk\<close>

lemma table_check_pse [simp]: "table_check nb (d\<lparr>d_pae := x, d_pse := y\<rparr>) i e = table_check nb d i e"
  by (cases d) (simp only: table_check_def get_pte_data.simps)

lemma arch_touch_pse [simp]: "arch_touch (d\<lparr>d_pae := x, d_pse := y\<rparr>) i e = arch_touch d i e"
  by (simp add: arch_touch_def)

lemma table_walk_pse [simp]: "table_walk s nb (d\<lparr>d_pae := x, d_pse := y\<rparr>) v i base r = table_walk s nb d v i base r"
  by (induction i arbitrary: base r) (simp_all add: Let_def split: option.split)

text \<open>The cursor as \<open>get_pte_sub\<close> starts the levels with it, in long mode.\<close>

definition walk_start :: "u64 \<Rightarrow> u64 \<Rightarrow> pmap \<Rightarrow> pmap" where
  "walk_start virt cr3 m = pmap_seek virt 5 (pmap_open_guest cr3 4 m)"

lemma cr3_bits:
  assumes "b < 64"
  shows "bit PDE_P_BIT b \<longleftrightarrow> b = 0" "bit CR3_PWT_BIT b \<longleftrightarrow> b = 3" "bit CR3_PCD_BIT b \<longleftrightarrow> b = 4"
proof -
  have masks: "CR3_PWT_BIT = push_bit 3 1" "CR3_PCD_BIT = push_bit 4 1" by (simp_all add: CR3_PWT_BIT_def CR3_PCD_BIT_def)
  show "bit PDE_P_BIT b \<longleftrightarrow> b = 0" "bit CR3_PWT_BIT b \<longleftrightarrow> b = 3" "bit CR3_PCD_BIT b \<longleftrightarrow> b = 4"
    unfolding masks PDE_P_BIT_def bit_push_bit_iff bit_1_iff using assms by auto
qed

lemma walk_start_ready:
  "table_next virt 4 (walk_start virt cr3 m)" "frame_of (entry (walk_start virt cr3 m) 4) = frame_of cr3"
  "pmap_read (walk_start virt cr3 m) s = Some (entry (walk_start virt cr3 m) 4, walk_start virt cr3 m, s)"
proof -
  have e: "entry (walk_start virt cr3 m) 4 = cr3 AND (NOT PAGESIZE_MASK OR CR3_PWT_BIT OR CR3_PCD_BIT) OR PDE_P_BIT"
    "levels (walk_start virt cr3 m) = 4" "readlevel (walk_start virt cr3 m) = 4" "curlevel (walk_start virt cr3 m) = 4"
    "curaddr (walk_start virt cr3 m) = virt"
    by (simp_all add: walk_start_def pmap_seek_def pmap_open_guest_def pmap_setlevel_def seek_loop.simps Let_def)
  show "table_next virt 4 (walk_start virt cr3 m)"
    by (simp add: table_next_def at_level_def arch_large_def e PDE_P_BIT_def bit_simps)
  note b = cr3_bits
  show "frame_of (entry (walk_start virt cr3 m) 4) = frame_of cr3"
    by (rule bit_word_eqI) (auto simp: frame_of_def e(1) bit_simps b page_mask(1))
  show "pmap_read (walk_start virt cr3 m) s = Some (entry (walk_start virt cr3 m) 4, walk_start virt cr3 m, s)"
    by (simp add: pmap_read_ready e)
qed

definition long_mode :: "mmu_regs \<Rightarrow> bool" where
  "long_mode c \<longleftrightarrow> reg_cr0 c AND 0x80000000 \<noteq> 0 \<and> reg_efer c AND 0x100 \<noteq> 0"

text \<open>The width of physical addresses that the processor reports in EAX of CPUID leaf 0x80000008.\<close>

definition phys_bits :: "u32 \<Rightarrow> nat" where "phys_bits a = max 32 (unat (a AND 0xFF))"

definition cr3_table :: "mmu_regs \<Rightarrow> u64" where "cr3_table c = frame_of (reg_cr3 c)"

lemma get_pte_start:
  assumes "long_mode c"
  shows "\<exists>m. table_next virt 4 m \<and> frame_of (entry m 4) = cr3_table c \<and>
    (\<forall>s. get_pte n c virt wr us ex s = do {
       (r, es, s) \<leftarrow> walk_levels n (pte_addr_mask c) ((walk_data c wr us ex)\<lparr>d_pae := True, d_pse := True\<rparr>) 4 4
         ((\<lambda>_. 0)(4 := entry m 4 OR (PDE_RW_BIT OR PDE_US_BIT OR PDE_A_BIT))) m s;
       Some (if r = VMMERR_SUCCESS then Inr (es 0) else Inl r, s) })"
proof -
  define cr3 where "cr3 = (if d_pcide (walk_data c wr us ex) then reg_cr3 c AND NOT PAGESIZE_MASK else reg_cr3 c)"
  define m where "m = walk_start virt cr3 pmap_uninit"
  have "frame_of (x AND NOT PAGESIZE_MASK) = frame_of x" for x
    by (rule bit_word_eqI) (auto simp: frame_of_def bit_simps page_mask(1))
  then have f: "frame_of cr3 = cr3_table c" by (simp add: cr3_def cr3_table_def)
  have "d_pg (walk_data c wr us ex)" "d_lme (walk_data c wr us ex)" using assms by (simp_all add: long_mode_def walk_data_def)
  note pg = this
  have "get_pte n c virt wr us ex s = do {
       (r, es, s) \<leftarrow> walk_levels n (pte_addr_mask c) ((walk_data c wr us ex)\<lparr>d_pae := True, d_pse := True\<rparr>) 4 4
         ((\<lambda>_. 0)(4 := entry m 4 OR (PDE_RW_BIT OR PDE_US_BIT OR PDE_A_BIT))) m s;
       Some (if r = VMMERR_SUCCESS then Inr (es 0) else Inl r, s) }" for s
  proof -
    define w where "w = walk_levels n (pte_addr_mask c) ((walk_data c wr us ex)\<lparr>d_pae := True, d_pse := True\<rparr>) 4 4
         ((\<lambda>_. 0)(4 := entry m 4 OR (PDE_RW_BIT OR PDE_US_BIT OR PDE_A_BIT))) m s"
    have "get_pte_sub n (pte_addr_mask c) virt (reg_cr3 c) (walk_data c wr us ex) pmap_uninit (\<lambda>_. 0) s =
        do { (r, es, s) \<leftarrow> w; Some (r, es, 4, s) }"
      unfolding get_pte_sub_def w_def using pg walk_start_ready(3) [of virt cr3 pmap_uninit s, folded m_def]
      by (simp add: Let_def m_def walk_start_def flip: cr3_def del: fun_upd_apply walk_levels.simps)
    then show ?thesis unfolding w_def [symmetric] get_pte_def cpu_mmu_get_pte_def by (cases w) (auto split: prod.splits)
  qed
  then show ?thesis using walk_start_ready(1,2) f by (intro exI [of _ m]) (simp add: m_def)
qed

lemma get_pte_table:
  assumes "long_mode c" "pte_addr_mask c = nbits_mask a" "unat (a AND 0xFF) \<le> 48" "others s = []" "0 < n"
  shows "case table_walk s (phys_bits a) (walk_data c wr us ex) virt 4 (cr3_table c) (ram s) of
      (Panics, r) \<Rightarrow> get_pte n c virt wr us ex s = None
    | (Faults err, r) \<Rightarrow> get_pte n c virt wr us ex s = Some (Inl err, s\<lparr>ram := r\<rparr>)
    | (Maps p, r) \<Rightarrow> \<exists>pte. get_pte n c virt wr us ex s = Some (Inr pte, s\<lparr>ram := r\<rparr>) \<and>
        gphys_of c pte virt = p OR virt AND 0xFFF"
proof -
  define d where "d = (walk_data c wr us ex)\<lparr>d_pae := True, d_pse := True\<rparr>"
  obtain k where n: "n = Suc k" using assms(5) by (cases n) auto
  obtain m where m: "table_next virt 4 m" "frame_of (entry m 4) = cr3_table c"
    and g: "\<And>s. get_pte n c virt wr us ex s = do {
       (r, es, s) \<leftarrow> walk_levels n (pte_addr_mask c) d 4 4
         ((\<lambda>_. 0)(4 := entry m 4 OR (PDE_RW_BIT OR PDE_US_BIT OR PDE_A_BIT))) m s;
       Some (if r = VMMERR_SUCCESS then Inr (es 0) else Inl r, s) }"
    using get_pte_start [OF assms(1), of virt n wr us ex, folded d_def] by blast
  have "min 52 (max 32 (unat (a AND 0xFF))) = phys_bits a" using assms(3) by (auto simp: phys_bits_def)
  then have r: "ready (phys_bits a) d (pte_addr_mask c)"
    using assms(2,3) by (auto simp: ready_def d_def nbits_mask_eq phys_bits_def)
  have four: "Suc 3 = 4" by simp
  have "walk_match (pte_addr_mask c) s (table_walk s (phys_bits a) (walk_data c wr us ex) virt 4 (cr3_table c) (ram s))
      (walk_levels n (pte_addr_mask c) d 4 4 ((\<lambda>_. 0)(4 := entry m 4 OR (PDE_RW_BIT OR PDE_US_BIT OR PDE_A_BIT))) m s)"
    using walk_levels_arch [OF r, of 3 virt m s k, unfolded four] m assms(4) unfolding n d_def by simp
  moreover obtain q r where "table_walk s (phys_bits a) (walk_data c wr us ex) virt 4 (cr3_table c) (ram s) = (q, r)" by fastforce
  ultimately show ?thesis by (cases q) (auto simp: g gphys_of_def simp del: walk_levels.simps fun_upd_apply)
qed

section \<open>Accessed and dirty bits only\<close>

definition ad_le :: "u64 \<Rightarrow> u64 \<Rightarrow> bool" where
  "ad_le e e' \<longleftrightarrow> (\<forall>b. bit e b \<longrightarrow> bit e' b) \<and> (\<forall>b. b \<noteq> 5 \<and> b \<noteq> 6 \<longrightarrow> bit e' b \<longrightarrow> bit e b)"

definition aligned8 :: "u64 \<Rightarrow> bool" where "aligned8 a \<longleftrightarrow> a AND mask 3 = 0"

definition ad_grows :: "ram \<Rightarrow> ram \<Rightarrow> bool" where
  "ad_grows r r' \<longleftrightarrow> (\<forall>a. aligned8 a \<longrightarrow> ad_le (ram_load 8 a r) (ram_load 8 a r'))"

lemma ad_le_refl [simp]: "ad_le e e" by (simp add: ad_le_def)
lemma ad_le_touch: "ad_le e (arch_touch d i e)" by (auto simp: ad_le_def bit_arch_touch)
lemma ad_le_trans: "ad_le e e' \<Longrightarrow> ad_le e' e'' \<Longrightarrow> ad_le e e''" unfolding ad_le_def by blast

lemma ad_le_frame: "ad_le e e' \<Longrightarrow> frame_of e = frame_of e'"
proof (rule bit_word_eqI)
  fix b
  assume "ad_le e e'"
  then have "bit e' b = bit e b" if "12 \<le> b" using that by (auto simp: ad_le_def)
  then show "bit (frame_of e) b = bit (frame_of e') b" by (auto simp: frame_of_def bit_simps)
qed

lemma ad_grows_refl [simp]: "ad_grows r r" by (simp add: ad_grows_def)
lemma ad_grows_trans: "ad_grows r r' \<Longrightarrow> ad_grows r' r'' \<Longrightarrow> ad_grows r r''"
  unfolding ad_grows_def by (meson ad_le_trans)

lemma ad_le_same:
  assumes "ad_le e e'" "32 \<le> nb"
  shows "bit e' 0 = bit e 0" "bit e' 7 = bit e 7" "arch_large i e' = arch_large i e" "arch_leaf i e' = arch_leaf i e"
    "table_check nb d i e' = table_check nb d i e" "arch_frame nb i e' v = arch_frame nb i e v"
    "take_bit nb e' AND NOT (mask 12) = take_bit nb e AND NOT (mask 12)"
proof -
  have b: "bit e' b = bit e b" if "b \<noteq> 5" "b \<noteq> 6" for b using assms(1) that by (auto simp: ad_le_def)
  show 1: "bit e' 0 = bit e 0" "bit e' 7 = bit e 7" "arch_large i e' = arch_large i e" "arch_leaf i e' = arch_leaf i e"
    by (simp_all add: b arch_large_def arch_leaf_def)
  have "table_reserved nb (d_nxe d) i e' = table_reserved nb (d_nxe d) i e"
    unfolding reserved_clear arch_large_def using assms(2)
    by (intro ex_cong1) (auto simp: b)
  moreover have "bit e' 0 = bit e 0" "bit e' 1 = bit e 1" "bit e' 2 = bit e 2" "bit e' 63 = bit e 63" by (simp_all add: b)
  ultimately show "table_check nb d i e' = table_check nb d i e" unfolding table_check_def by (simp only:)
  show "arch_frame nb i e' v = arch_frame nb i e v" "take_bit nb e' AND NOT (mask 12) = take_bit nb e AND NOT (mask 12)"
    by (rule bit_word_eqI; auto simp: arch_frame_def bit_simps b)+
qed

lemma small_bits: "k < 8 \<Longrightarrow> bit (of_nat k :: u64) n \<Longrightarrow> n < 3"
proof -
  assume k: "k < 8" "bit (of_nat k :: u64) n"
  then have "bit k n" by (simp add: bit_simps)
  moreover have "take_bit 3 k = k" using k(1) by (simp add: take_bit_nat_eq_self)
  ultimately show "n < 3" by (metis bit_take_bit_iff)
qed

lemma aligned_plus:
  assumes "aligned8 a" "k < 8"
  shows "a + of_nat k = a OR of_nat k" "(a + of_nat k) AND NOT (mask 3) = a"
proof -
  have a: "\<not> bit a n" if "n < 3" for n
  proof -
    have "bit (a AND mask 3) n \<longleftrightarrow> bit a n" using that by (auto simp: bit_simps dest: bit_imp_le_length)
    then show ?thesis using assms(1) by (simp add: aligned8_def)
  qed
  show 1: "a + of_nat k = a OR of_nat k" by (rule disjunctive_add) (use a small_bits [OF assms(2)] in blast)
  show "(a + of_nat k) AND NOT (mask 3) = a" unfolding 1
    by (rule bit_word_eqI) (use a small_bits [OF assms(2)] in \<open>auto simp: bit_simps\<close>)
qed

lemma load_other_cell:
  assumes "aligned8 a" "aligned8 a'" "a' \<noteq> a"
  shows "ram_load 8 a' (ram_store 8 a (w :: u64) r) = (ram_load 8 a' r :: u64)"
  unfolding ram_load_def
proof (rule le_load_cong)
  fix k :: nat assume k: "k < 8"
  have "\<not> unat (a' + of_nat k - a) < 8"
  proof
    assume j: "unat (a' + of_nat k - a) < 8"
    have "a + of_nat (unat (a' + of_nat k - a)) = a' + of_nat k" by simp
    then show False using aligned_plus(2) [OF assms(1) j] aligned_plus(2) [OF assms(2) k] assms(3) by simp
  qed
  then show "ram_store 8 a w r (a' + of_nat k) = r (a' + of_nat k)" by (simp add: ram_store_def)
qed

lemma touch_grows:
  assumes "aligned8 a"
  shows "ad_grows r (ram_store 8 a (arch_touch d i (ram_load 8 a r)) r)"
  unfolding ad_grows_def
proof (intro allI impI)
  fix a' assume "aligned8 a'"
  then show "ad_le (ram_load 8 a' r) (ram_load 8 a' (ram_store 8 a (arch_touch d i (ram_load 8 a r)) r))"
    using load_other_cell [OF assms] ad_le_touch by (cases "a' = a") simp_all
qed

lemma arch_addr_aligned: "base AND mask 12 = 0 \<Longrightarrow> aligned8 (arch_addr base v i)"
proof -
  assume b: "base AND mask 12 = 0"
  have "\<not> bit base n" if "n < 12" for n
  proof -
    have "bit (base AND mask 12) n \<longleftrightarrow> bit base n" using that by (auto simp: bit_simps dest: bit_imp_le_length)
    then show ?thesis by (simp add: b)
  qed
  then show ?thesis unfolding aligned8_def by (intro bit_word_eqI) (auto simp: arch_addr_def bit_simps)
qed

lemma table_base_aligned: "(take_bit nb e AND NOT (mask 12)) AND mask 12 = (0 :: u64)"
  by (rule bit_word_eqI) (auto simp: bit_simps)

lemma table_walk_grows: "base AND mask 12 = 0 \<Longrightarrow> ad_grows r (snd (table_walk s nb d v i base r))"
proof (induction i arbitrary: base r)
  case (Suc i)
  define a where "a = arch_addr base v i"
  define t where "t = arch_touch d i (ram_load 8 a r)"
  have "ad_grows r (ram_store 8 a t r)" unfolding t_def a_def by (rule touch_grows [OF arch_addr_aligned [OF Suc.prems]])
  moreover have "ad_grows (ram_store 8 a t r) (snd (table_walk s nb d v i (take_bit nb e AND NOT (mask 12)) (ram_store 8 a t r)))" for e
    by (rule Suc.IH [OF table_base_aligned])
  ultimately have "ad_grows r (ram_store 8 a t r)"
    "ad_grows r (snd (table_walk s nb d v i (take_bit nb e AND NOT (mask 12)) (ram_store 8 a t r)))" for e
    by (blast intro: ad_grows_trans)+
  then show ?case unfolding table_walk.simps Let_def a_def [symmetric] t_def [symmetric] by (simp split: option.split)
qed simp

text \<open>A second walk finds the bits set and comes to the same end.\<close>

lemma table_walk_again:
  assumes "32 \<le> nb"
  shows "table_walk s nb d v i base r = (q, r') \<Longrightarrow> base AND mask 12 = 0 \<Longrightarrow> table_walk s nb d v i base r' = (q, r')"
proof (induction i arbitrary: base r)
  case (Suc i)
  define a where "a = arch_addr base v i"
  define e where "e = (ram_load 8 a r :: u64)"
  define t where "t = arch_touch d i e"
  define b where "b = take_bit nb e AND NOT (mask 12)"
  have al: "aligned8 a" unfolding a_def by (rule arch_addr_aligned [OF Suc.prems(2)])
  note ar = table_walk.simps(2) [of s nb d v i base, folded a_def, unfolded Let_def]
  note ar' = ar [of r, folded e_def, folded t_def b_def]
  show ?case
  proof (cases "arch_ordinary s a \<and> table_check nb d i e = None")
    case False
    then have "r' = r" using Suc.prems(1) unfolding ar' by (auto split: if_splits option.splits)
    then show ?thesis using Suc.prems(1) by simp
  next
    case True
    then have w: "(if arch_leaf i e then (Maps (arch_frame nb i e v), ram_store 8 a t r)
        else table_walk s nb d v i b (ram_store 8 a t r)) = (q, r')"
      using Suc.prems(1) unfolding ar' by simp
    define e' where "e' = (ram_load 8 a r' :: u64)"
    have "ad_le t e'"
    proof (cases "arch_leaf i e")
      case False
      have "ad_grows (ram_store 8 a t r) (snd (table_walk s nb d v i b (ram_store 8 a t r)))"
        unfolding b_def by (rule table_walk_grows [OF table_base_aligned])
      with False w have "ad_grows (ram_store 8 a t r) r'" by simp
      then show ?thesis using al unfolding e'_def ad_grows_def by (metis ram_load_store)
    qed (use w in \<open>auto simp: e'_def\<close>)
    then have ee': "ad_le e e'" and te: "arch_touch d i e' = e'"
    proof -
      assume te: "ad_le t e'"
      show ee: "ad_le e e'" using ad_le_trans [OF ad_le_touch te [unfolded t_def]] .
      have "arch_leaf i e' = arch_leaf i e" by (rule ad_le_same(4) [OF ee assms])
      moreover have "bit t 5" "arch_leaf i e \<and> d_write d \<Longrightarrow> bit t 6" by (auto simp: t_def bit_arch_touch)
      ultimately show "arch_touch d i e' = e'" using te by (auto simp: arch_touch_same ad_le_def)
    qed
    note same = ad_le_same [OF ee' assms]
    have "ram_store 8 a e' r' = r'" by (rule ram_store_same) (simp add: e'_def)
    then have "ram_store 8 a (arch_touch d i e') r' = r'" by (simp only: te)
    then have "table_walk s nb d v (Suc i) base r' =
        (if arch_leaf i e then (Maps (arch_frame nb i e v), r') else table_walk s nb d v i b r')"
      using True unfolding ar b_def by (simp add: same flip: e'_def)
    then show ?thesis using w Suc.IH [of b "ram_store 8 a t r"] table_base_aligned [of nb e] by (auto simp: b_def split: if_splits)
  qed
qed simp

text \<open>Addresses of the same page are walked in the same way.\<close>

lemma table_walk_page:
  assumes "drop_bit 12 v = drop_bit 12 v'"
  shows "table_walk s nb d v i base r = table_walk s nb d v' i base r"
proof -
  have b: "bit v b = bit v' b" if "12 \<le> b" for b
  proof -
    have "bit (drop_bit 12 v) (b - 12) = bit (drop_bit 12 v') (b - 12)" by (simp add: assms)
    then show ?thesis using that by (simp add: bit_simps)
  qed
  have "arch_addr base v i = arch_addr base v' i" for base i
    by (rule bit_word_eqI) (auto simp: arch_addr_def bit_simps b)
  moreover have "arch_frame nb i e v = arch_frame nb i e v'" for i e
    by (rule bit_word_eqI) (auto simp: arch_frame_def bit_simps b)
  ultimately show ?thesis by (induction i arbitrary: base r) (simp_all add: Let_def split: option.split)
qed

section \<open>Other processors\<close>

text \<open>What the walk itself does to memory: it sets accessed and dirty bits of an entry as it is at that moment.\<close>

definition touches :: "host_mem \<Rightarrow> ram \<Rightarrow> ram \<Rightarrow> bool" where
  "touches s r r' \<longleftrightarrow> (\<exists>a e. aligned8 a \<and> arch_ordinary s a \<and> ad_le (ram_load 8 a r) e \<and> r' = ram_store 8 a e r)"

definition tolerates :: "(ram \<Rightarrow> ram \<Rightarrow> bool) \<Rightarrow> host_mem \<Rightarrow> bool" where
  "tolerates R s \<longleftrightarrow> reflp R \<and> transp R \<and> (\<forall>f \<in> set (others s). \<forall>r. R r (f r)) \<and> (\<forall>r r'. touches s r r' \<longrightarrow> R r r')"

definition amid :: "(ram \<Rightarrow> ram \<Rightarrow> bool) \<Rightarrow> host_mem \<Rightarrow> host_mem \<Rightarrow> bool" where
  "amid R s s' \<longleftrightarrow> R (ram s) (ram s') \<and> length (others s') \<le> length (others s) \<and> set (others s') \<subseteq> set (others s) \<and>
     arch_ordinary s' = arch_ordinary s"

lemma tolerates_refl: "tolerates R s \<Longrightarrow> R r r"
  unfolding tolerates_def by (blast dest: reflpD)

lemma tolerates_trans: "tolerates R s \<Longrightarrow> R r r' \<Longrightarrow> R r' r'' \<Longrightarrow> R r r''"
  unfolding tolerates_def by (blast dest: transpD)

lemma tolerates_amid: "tolerates R s \<Longrightarrow> amid R s s' \<Longrightarrow> tolerates R s'"
proof -
  assume t: "tolerates R s" "amid R s s'"
  then have "touches s' = touches s" by (simp add: touches_def amid_def fun_eq_iff)
  with t show "tolerates R s'" by (auto simp: tolerates_def amid_def)
qed

lemma amid_trans: "tolerates R s \<Longrightarrow> amid R s s' \<Longrightarrow> amid R s' s'' \<Longrightarrow> amid R s s''"
  unfolding amid_def by (auto intro: tolerates_trans)

lemma amid_refl: "tolerates R s \<Longrightarrow> amid R s s"
  unfolding amid_def by (simp add: tolerates_refl)

lemma other_step_amid:
  assumes "tolerates R s"
  shows "amid R s (other_step s)"
proof (cases "others s")
  case Nil
  then show ?thesis using amid_refl [OF assms] by simp
next
  case (Cons f fs)
  then have "R (ram s) (f (ram s))" using assms by (simp add: tolerates_def)
  then show ?thesis by (auto simp: Cons amid_def other_step_def arch_ordinary_def phys_in_vmm_def fun_eq_iff)
qed

lemma touch_amid:
  assumes "tolerates R s" "aligned8 a" "arch_ordinary s a"
  shows "amid R s (s\<lparr>ram := ram_store 8 a (arch_touch d i (ram_load 8 a (ram s))) (ram s)\<rparr>)"
proof -
  have "touches s (ram s) (ram_store 8 a (arch_touch d i (ram_load 8 a (ram s))) (ram s))"
    unfolding touches_def using assms(2,3) ad_le_touch by blast
  then show ?thesis using assms(1) by (auto simp: amid_def tolerates_def fun_eq_iff)
qed

text \<open>
  \<open>F i\<close> are the frames where a table that level \<open>i\<close> reads can be, at any time among the writes: each is memory that the guest may
  use, and what its entry for the address points to is such a frame of the next level.
\<close>

definition tables_ordinary :: "(nat \<Rightarrow> u64 \<Rightarrow> bool) \<Rightarrow> (ram \<Rightarrow> ram \<Rightarrow> bool) \<Rightarrow> u64 \<Rightarrow> host_mem \<Rightarrow> bool" where
  "tables_ordinary F R v s \<longleftrightarrow> (\<forall>i base. F i base \<longrightarrow> arch_ordinary s (arch_addr base v i)) \<and>
     (\<forall>i base r. F (Suc i) base \<longrightarrow> R (ram s) r \<longrightarrow>
        (let e = ram_load 8 (arch_addr base v (Suc i)) r in bit e 0 \<longrightarrow> \<not> arch_large (Suc i) e \<longrightarrow> F i (frame_of e)))"

lemma tables_ordinary_amid: "tolerates R s \<Longrightarrow> tables_ordinary F R v s \<Longrightarrow> amid R s s' \<Longrightarrow> tables_ordinary F R v s'"
  unfolding tables_ordinary_def amid_def by (metis tolerates_trans)

lemma frame_of_touch [simp]: "frame_of (arch_touch d i e) = frame_of e"
  by (rule bit_word_eqI) (auto simp: frame_of_def bit_simps bit_arch_touch)

text \<open>A failed exchange has seen a write of another processor, of which there are only so many.\<close>

lemma retry_amid:
  assumes "ready nb d M" "i < 4" "levels m = 4" "fits8 a" "aligned8 a"
  shows "tolerates R s \<Longrightarrow> arch_ordinary s a \<Longrightarrow> length (others s) < n \<Longrightarrow> (others s = [] \<Longrightarrow> ram_load 8 a (ram s) = e) \<Longrightarrow>
    P e \<Longrightarrow> (\<And>s'. amid R s s' \<Longrightarrow> P (ram_load 8 a (ram s'))) \<Longrightarrow>
    \<exists>r m' s'. retry_level n M d 4 (Suc i) (pm_got i a e m) s = Some (r, m', s') \<and> amid R s s' \<and>
      (\<forall>t. r = Inr t \<longrightarrow> m' = pm_got i a t m \<and> (\<exists>e. t = arch_touch d i e \<and> table_check nb d i e = None \<and> P e))"
proof (induction n arbitrary: s e)
  case (Suc n s e)
  have "pmap_read (pm_got i a e m) s = Some (e, pm_got i a e m, s)" by (simp add: pmap_read_ready)
  note lc = level_checks [OF assms(2) _ _ _ _ _ this, of nb d M]
  have rd: "32 \<le> nb" "nb \<le> 48" "d_pae d" "d_pse d" "M = mask nb AND NOT (mask 12)" using assms(1) by (simp_all add: ready_def)
  note lc = lc [OF rd]
  show ?case
  proof (cases "table_check nb d i e")
    case (Some err)
    then show ?thesis using lc amid_refl [OF Suc.prems(1)] by simp
  next
    case None
    show ?thesis
    proof (cases "arch_touch d i e = e")
      case True
      then have "walk_level M d 4 (Suc i) (pm_got i a e m) s = Some (Go e, pm_got i a e m, s)"
        using lc None set_ad_quiet [OF True] by simp
      then show ?thesis using amid_refl [OF Suc.prems(1)] True None Suc.prems(5) by (auto intro!: exI [of _ e])
    next
      case False
      define s1 where "s1 = other_step s"
      have a1: "amid R s s1" unfolding s1_def by (rule other_step_amid [OF Suc.prems(1)])
      note t1 = tolerates_amid [OF Suc.prems(1) a1]
      have o1: "arch_ordinary s1 a" using a1 Suc.prems(2) by (simp add: amid_def)
      define cur where "cur = (ram_load 8 a (ram s1) :: u64)"
      note ad = set_ad_table [OF False assms(3,4), of s] 
      show ?thesis
      proof (cases "cur = e")
        case True
        have "walk_level M d 4 (Suc i) (pm_got i a e m) s = Some (Go (arch_touch d i e), pm_got i a (arch_touch d i e) m,
            s1\<lparr>ram := ram_store 8 a (arch_touch d i e) (ram s1)\<rparr>)"
          using lc None ad Suc.prems(2) True by (simp add: cmpxchg_hphys_def Let_def cur_def flip: s1_def)
        moreover have "amid R s (s1\<lparr>ram := ram_store 8 a (arch_touch d i e) (ram s1)\<rparr>)"
          using amid_trans [OF Suc.prems(1) a1 touch_amid [OF t1 assms(5), of d i]] o1 True by (simp add: cur_def)
        ultimately show ?thesis using None Suc.prems(5) by (auto intro!: exI [of _ e])
      next
        case differs: False
        then have ne: "others s \<noteq> []" using Suc.prems(4) by (auto simp: cur_def s1_def)
        then have len: "length (others s1) < length (others s)" by (cases "others s") (auto simp: s1_def other_step_def)
        have "walk_level M d 4 (Suc i) (pm_got i a e m) s = Some (Retry, pm_got i a cur m, s1)"
          using lc None ad Suc.prems(2) differs by (simp add: cmpxchg_hphys_def Let_def cur_def flip: s1_def)
        moreover obtain r m' s' where "retry_level n M d 4 (Suc i) (pm_got i a cur m) s1 = Some (r, m', s')" "amid R s1 s'"
          "\<forall>t. r = Inr t \<longrightarrow> m' = pm_got i a t m \<and> (\<exists>e. t = arch_touch d i e \<and> table_check nb d i e = None \<and> P e)"
          using Suc.IH [OF t1 o1 _ _ _ Suc.prems(6) [OF amid_trans [OF Suc.prems(1) a1]], of cur] len Suc.prems(3)
            Suc.prems(6) [OF a1] by (auto simp: cur_def)
        ultimately show ?thesis using amid_trans [OF Suc.prems(1) a1] by auto
      qed
    qed
  qed
qed simp

lemma level_amid:
  assumes "ready nb d M" "i < 4" "table_next v (Suc i) m" "tolerates R s" "tables_ordinary F R v s" "F i (frame_of (entry m (Suc i)))"
    "length (others s) < n"
  shows "\<exists>r m' s'. retry_level n M d 4 (Suc i) (pmap_setlevel (Suc i) m) s = Some (r, m', s') \<and> amid R s s' \<and>
    (\<forall>t. r = Inr t \<longrightarrow> (\<exists>a e. m' = pm_got i a t m \<and> t = arch_touch d i e \<and> table_check nb d i e = None \<and>
       (\<forall>j. i = Suc j \<longrightarrow> \<not> arch_large i e \<longrightarrow> F j (frame_of e))))"
proof -
  define a where "a = arch_addr (frame_of (entry m (Suc i))) v i"
  define s1 where "s1 = other_step s"
  define e where "e = (ram_load 8 a (ram s1) :: u64)"
  define P where "P = (\<lambda>e. \<forall>j. i = Suc j \<longrightarrow> bit e 0 \<longrightarrow> \<not> arch_large i e \<longrightarrow> F j (frame_of e))"
  have l: "levels m = 4" using assms(3) by (simp add: table_next_def at_level_def)
  have a1: "amid R s s1" unfolding s1_def by (rule other_step_amid [OF assms(4)])
  have o: "arch_ordinary s a" using assms(5,6) by (simp add: tables_ordinary_def a_def)
  have o1: "arch_ordinary s1 a" using a1 o by (simp add: amid_def)
  have len: "length (others s1) < n" using a1 assms(7) by (simp add: amid_def)
  have fit: "fits8 a" "aligned8 a"
    unfolding a_def by (rule arch_addr_fits [OF frame_of_aligned] arch_addr_aligned [OF frame_of_aligned])+
  have P: "P (ram_load 8 a (ram s'))" if "amid R s s'" for s'
    using assms(5,6) that by (auto simp: P_def tables_ordinary_def amid_def a_def Let_def)
  have P1: "P (ram_load 8 a (ram s'))" if "amid R s1 s'" for s' by (rule P [OF amid_trans [OF assms(4) a1 that]])
  have p: "bit e 0" if "table_check nb d i e = None" for e using that by (auto simp: table_check_def split: if_splits)
  have "pmap_read (pmap_setlevel (Suc i) m) s = Some (e, pm_got i a e m, s1)"
    using pmap_read_table [of v i m a s] assms(3) o by (simp add: table_next_def a_def e_def s1_def Let_def)
  moreover have "pmap_read (pm_got i a e m) s1 = Some (e, pm_got i a e m, s1)" by (simp add: pmap_read_ready)
  ultimately have "walk_level M d 4 (Suc i) (pmap_setlevel (Suc i) m) s = walk_level M d 4 (Suc i) (pm_got i a e m) s1"
    by (simp add: walk_level_def)
  then have eq: "retry_level n M d 4 (Suc i) (pmap_setlevel (Suc i) m) s = retry_level n M d 4 (Suc i) (pm_got i a e m) s1"
    by (cases n) simp_all
  obtain r m' s' where r: "retry_level n M d 4 (Suc i) (pm_got i a e m) s1 = Some (r, m', s')" "amid R s1 s'"
    "\<forall>t. r = Inr t \<longrightarrow> m' = pm_got i a t m \<and> (\<exists>e. t = arch_touch d i e \<and> table_check nb d i e = None \<and> P e)"
    using retry_amid [OF assms(1,2) l fit tolerates_amid [OF assms(4) a1] o1 len, of e P] P [OF a1] P1
    unfolding e_def by blast
  then show ?thesis using amid_trans [OF assms(4) a1 r(2)] p unfolding eq P_def by blast
qed

lemma walk_levels_amid:
  assumes "ready nb d M" "i < 4" "table_next v (Suc i) m" "tolerates R s" "tables_ordinary F R v s" "F i (frame_of (entry m (Suc i)))"
    "length (others s) < n"
  shows "\<exists>r es' s'. walk_levels n M d 4 (Suc i) es m s = Some (r, es', s') \<and> amid R s s'"
  using assms(2-)
proof (induction i arbitrary: m s es)
  case (0 m s es)
  then show ?case using level_amid [OF assms(1) 0] by (fastforce split: sum.split)
next
  case (Suc i m s es)
  obtain r m' s' where l: "retry_level n M d 4 (Suc (Suc i)) (pmap_setlevel (Suc (Suc i)) m) s = Some (r, m', s')" and am: "amid R s s'"
    and t: "\<And>t. r = Inr t \<Longrightarrow> \<exists>a e. m' = pm_got (Suc i) a t m \<and> t = arch_touch d (Suc i) e \<and> table_check nb d (Suc i) e = None \<and>
      (\<not> arch_large (Suc i) e \<longrightarrow> F i (frame_of e))"
    using level_amid [OF assms(1) Suc.prems] by auto
  obtain k where n: "n = Suc k" using Suc.prems(6) by (cases n) auto
  show ?case
  proof (cases r)
    case (Inl err)
    then show ?thesis using l am by simp
  next
    case (Inr t)
    then obtain a e where m'eq: "m' = pm_got (Suc i) a t m" and te: "t = arch_touch d (Suc i) e" and c: "table_check nb d (Suc i) e = None"
      and Fe: "\<not> arch_large (Suc i) e \<longrightarrow> F i (frame_of e)"
      using t by blast
    have w: "walk_levels n M d 4 (Suc (Suc i)) es m s = walk_levels n M d 4 (Suc i) (es(Suc i := t)) m' s'"
      using l Inr by simp
    have lv: "levels m = 4" "curaddr m = v" using Suc.prems(2) by (simp_all add: table_next_def at_level_def)
    have m': "entry m' (Suc i) = t" "readlevel m' = Suc i" "levels m' = 4" "curaddr m' = v" by (simp_all add: m'eq lv)
    have tc: "table_check nb d (Suc i) t = None" using touch_check [OF c] assms(1) by (simp add: te ready_def)
    consider (go) "\<not> arch_leaf (Suc i) e" | (large) "arch_large (Suc i) e" "i = 0" | (huge) "arch_large (Suc i) e" "i = 1"
      by (auto simp: arch_leaf_def arch_large_def)
    then show ?thesis
    proof cases
      case go
      have "table_next v (Suc i) m'"
        using go tc by (auto simp: table_next_def at_level_def m' te arch_leaf_def table_check_def split: if_splits)
      moreover have "length (others s') < n" using am Suc.prems(6) by (simp add: amid_def)
      moreover have "F i (frame_of (entry m' (Suc i)))" using Fe go by (simp add: m' te arch_leaf_def)
      ultimately obtain r es' s'' where "walk_levels n M d 4 (Suc i) (es(Suc i := t)) m' s' = Some (r, es', s'')" "amid R s' s''"
        using Suc.IH [OF _ _ tolerates_amid [OF Suc.prems(3) am] tables_ordinary_amid [OF Suc.prems(3,4) am], of m' "es(Suc i := t)"] Suc.prems(1)
        by (auto simp del: walk_levels.simps fun_upd_apply)
      then show ?thesis unfolding w using amid_trans [OF Suc.prems(3) am] by blast
    next
      case large
      have "has_ad d t" using has_ad_touch(2) [of "Suc i" e d] large by (simp add: te arch_leaf_def)
      then have "walk_levels n M d 4 (Suc i) (es(Suc i := t)) m' s' =
          Some (VMMERR_SUCCESS, (es(Suc i := t))(0 := split_large m' (entry m' 1)), s')"
        using walk_split_large [OF assms(1) _ m'(3), of k "es(Suc i := t)" s'] m' tc large by (simp add: te n)
      then show ?thesis unfolding w using am by blast
    next
      case huge
      have two: "Suc i = 2" using huge by simp
      have had: "has_ad d t" using has_ad_touch(2) [of "Suc i" e d] huge by (simp add: te arch_leaf_def)
      have e2: "entry m' 2 = t" using m'(1) two by simp
      have "arch_large 2 (entry m' 2)" using huge(1) two by (simp add: e2 te)
      then obtain es' where "walk_levels n M d 4 2 (es(Suc i := t)) m' s' = Some (VMMERR_SUCCESS, es', s')"
        using walk_split_huge [OF assms(1) _ m'(3), of k "es(Suc i := t)" s'] m'(2) two had tc [unfolded two] e2 by (auto simp: n)
      then show ?thesis unfolding w unfolding two using am by blast
    qed
  qed
qed

section \<open>A bit that the architecture ignores\<close>

lemma write_ok_one_page:
  "write_linearaddr_ok_w n c v s = write_linearaddr_ok_b n c v s" "write_linearaddr_ok_l n c v s = write_linearaddr_ok_b n c v s"
proof -
  have "v AND 0xFFE \<le> 0xFFE" "v AND 0xFFC \<le> 0xFFC" by (rule word_and_le1)+
  then show "write_linearaddr_ok_w n c v s = write_linearaddr_ok_b n c v s" "write_linearaddr_ok_l n c v s = write_linearaddr_ok_b n c v s"
    by (simp_all add: write_linearaddr_ok_w_def write_linearaddr_ok_l_def)
qed

text \<open>Two-level tables of a guest without PSE: bit 7 of a directory entry means nothing to the processor.\<close>

definition two_level :: "mmu_regs \<Rightarrow> bool" where
  "two_level c \<longleftrightarrow> reg_cr0 c AND 0x80000000 \<noteq> 0 \<and> reg_efer c AND 0x100 = 0 \<and> reg_cr4 c AND 0x20 = 0 \<and> reg_cr4 c AND 0x10 = 0"

definition pde_addr :: "mmu_regs \<Rightarrow> u64 \<Rightarrow> u64" where
  "pde_addr c v = frame_of (reg_cr3 c) OR drop_bit 20 v AND 0xFFC"

definition ordinary4 :: "host_mem \<Rightarrow> u64 \<Rightarrow> bool" where
  "ordinary4 s a \<longleftrightarrow> \<not> phys_in_vmm s (a AND NOT (mask 12)) \<and> \<not> mmio_hit s a 4 \<and> \<not> 0xFFD \<le> a AND 0xFFF"

lemma ram_store_same4: "ram_load 4 a r = (w :: u32) \<Longrightarrow> ram_store 4 a w r = r"
  by (auto simp: ram_store_def ram_load_def le_bytes_load)

lemma pmap_rd32_quiet:
  assumes "ordinary4 s a" "others s = []"
  shows "pmap_rd32 a s = Some (ucast (ram_load 4 a (ram s) :: u32), s)"
proof -
  have "s\<lparr>ram := ram_store 4 a (0 :: u32) (ram s)\<rparr> = s" if "ram_load 4 a (ram s) = (0 :: u32)"
    using ram_store_same4 [OF that] by simp
  then show ?thesis using assms gp2hp_ordinary [of s a]
    by (auto simp: pmap_rd32_def cmpxchg_gphys_l_def cmpxchg_hphys_def ordinary4_def Let_def)
qed

lemma split_two_bits:
  assumes "levels m = 2"
  shows "b < 7 \<Longrightarrow> bit (split_large m (ucast (e :: u32))) b = bit e b"
    "\<not> bit (split_large m (ucast (e :: u32))) 63"
proof -
  have e: "\<not> bit (ucast e :: u64) b" if "32 \<le> b" for b
    using that by (auto simp: bit_ucast_iff dest: bit_imp_le_length)
  define X Y Z where "X = (0x1FE000 :: u64)" and "Y = (0x3FF000 :: u64)" and "Z = push_bit 32 (drop_bit 13 ((0 :: u64)))"
  have masks: "X = push_bit 13 (mask 8)" "Y = push_bit 12 (mask 10)" by (simp_all add: X_def Y_def mask_eq_exp_minus_1)
  note num = split_masks [of 7] split_masks
  show "b < 7 \<Longrightarrow> bit (split_large m (ucast e)) b = bit e b"
    unfolding split_large_def Let_def X_def [symmetric] Y_def [symmetric] masks
    by (auto simp: assms bit_or_iff bit_and_iff bit_not_iff bit_push_bit_iff bit_drop_bit_eq bit_mask_iff bit_ucast_iff split_masks)
  show "\<not> bit (split_large m (ucast e)) 63"
    unfolding split_large_def Let_def X_def [symmetric] Y_def [symmetric] masks
    by (auto simp: assms e bit_or_iff bit_and_iff bit_not_iff bit_push_bit_iff bit_drop_bit_eq bit_mask_iff split_masks)
qed


lemma split_two_frame:
  assumes "levels m = 2"
  shows "split_large m (ucast (e :: u32)) AND 0xFFC00000 = ucast e AND 0xFFC00000"
proof (rule bit_word_eqI)
  fix b assume b: "b < LENGTH(64)"
  define X Y where "X = (0x1FE000 :: u64)" and "Y = (0x3FF000 :: u64)"
  have masks: "X = push_bit 13 (mask 8)" "Y = push_bit 12 (mask 10)" by (simp_all add: X_def Y_def mask_eq_exp_minus_1)
  define F where "F = (0xFFC00000 :: u64)"
  have F: "F = push_bit 22 (mask 10)" by (simp add: F_def mask_eq_exp_minus_1)
  show "bit (split_large m (ucast e) AND 0xFFC00000) b = bit (ucast e AND 0xFFC00000 :: u64) b"
    unfolding F_def [symmetric] F split_large_def Let_def X_def [symmetric] Y_def [symmetric] masks using b
    by (auto simp: assms bit_or_iff bit_and_iff bit_not_iff bit_push_bit_iff bit_drop_bit_eq bit_mask_iff bit_ucast_iff split_masks)
qed

lemma two_level_start:
  assumes "two_level c"
  shows "\<exists>m. levels m = 2 \<and> readlevel m = 2 \<and> frame_of (entry m 2) = frame_of (reg_cr3 c) \<and> bit (entry m 2) 0 \<and> \<not> bit (entry m 2) 7 \<and> curaddr m = v \<and>
    (\<forall>s. get_pte n c v wr us ex s = do {
       (r, es, s) \<leftarrow> walk_levels n (pte_addr_mask c) (walk_data c wr us ex) 2 2
         ((\<lambda>_. 0)(2 := entry m 2 OR (PDE_RW_BIT OR PDE_US_BIT OR PDE_A_BIT))) m s;
       Some (if r = VMMERR_SUCCESS then Inr (es 0) else Inl r, s) })"
proof -
  define m where "m = pmap_seek v 3 (pmap_open_guest (reg_cr3 c) 2 pmap_uninit)"
  have e: "entry m 2 = reg_cr3 c AND (NOT PAGESIZE_MASK OR CR3_PWT_BIT OR CR3_PCD_BIT) OR PDE_P_BIT"
    "levels m = 2" "readlevel m = 2" "curlevel m = 2" "curaddr m = v"
    by (simp_all add: m_def pmap_seek_def pmap_open_guest_def pmap_setlevel_def seek_loop.simps Let_def)
  note b = cr3_bits
  have f: "frame_of (entry m 2) = frame_of (reg_cr3 c)"
    by (rule bit_word_eqI) (auto simp: frame_of_def e(1) bit_simps b page_mask(1))
  have pb: "bit (entry m 2) 0" "\<not> bit (entry m 2) 7"
    by (auto simp: e(1) bit_or_iff bit_and_iff bit_not_iff b page_mask(1) bit_mask_iff)
  define d where "d = walk_data c wr us ex"
  have d: "d_pg d" "\<not> d_lme d" "\<not> d_pae d" using assms by (simp_all add: two_level_def walk_data_def d_def)
  have "get_pte n c v wr us ex s = do {
       (r, es, s) \<leftarrow> walk_levels n (pte_addr_mask c) d 2 2
         ((\<lambda>_. 0)(2 := entry m 2 OR (PDE_RW_BIT OR PDE_US_BIT OR PDE_A_BIT))) m s;
       Some (if r = VMMERR_SUCCESS then Inr (es 0) else Inl r, s) }" for s
  proof -
    define w where "w = walk_levels n (pte_addr_mask c) d 2 2
         ((\<lambda>_. 0)(2 := entry m 2 OR (PDE_RW_BIT OR PDE_US_BIT OR PDE_A_BIT))) m s"
    have "get_pte_sub n (pte_addr_mask c) v (reg_cr3 c) d pmap_uninit (\<lambda>_. 0) s = do { (r, es, s) \<leftarrow> w; Some (r, es, 2, s) }"
      unfolding get_pte_sub_def w_def using d pmap_read_ready [of m s] e(3,4)
      by (simp add: Let_def flip: m_def del: fun_upd_apply walk_levels.simps)
    then show ?thesis unfolding w_def [symmetric] get_pte_def cpu_mmu_get_pte_def d_def [symmetric]
      by (cases w) (auto split: prod.splits)
  qed
  then show ?thesis using e f pb unfolding d_def by (intro exI [of _ m]) simp
qed

lemma two_level_walk:
  fixes pde :: u32
  assumes m: "levels m = 2" "readlevel m = 2" "frame_of (entry m 2) = frame_of (reg_cr3 c)" "bit (entry m 2) 0" "\<not> bit (entry m 2) 7" "curaddr m = v"
    and "others s = []" "ordinary4 s (pde_addr c v)" "pde = ram_load 4 (pde_addr c v) (ram s)"
    and pde: "bit pde 0" "bit pde 1" "bit pde 5" "\<not> bit pde 6" "bit pde 7"
    and d: "\<not> d_pse d" "\<not> d_pae d" "\<not> d_user d"
  shows "\<exists>m' es'. levels m' = 2 \<and> es' 0 = split_large m' (ucast pde) \<and>
    walk_levels (Suc k) M d 2 2 es m s = (if d_write d then None else Some (VMMERR_SUCCESS, es', s))"
proof -
  define e where "e = (ucast pde :: u64)"
  have e: "bit e 0" "bit e 1" "bit e 5" "\<not> bit e 6" "bit e 7" "\<not> bit e 63"
    using pde by (auto simp: e_def bit_ucast_iff dest: bit_imp_le_length)
  define m1 where "m1 = (pmap_setlevel 2 m)\<lparr>readlevel := 1, entryaddr := (entryaddr m)(1 := pde_addr c v), entry := (entry m)(1 := e)\<rparr>"
  have m1: "levels m1 = 2" "readlevel m1 = 1" "entry m1 1 = e" "curlevel m1 = 1" by (simp_all add: m1_def m pmap_setlevel_def)
  have "read_table (entry m 2) (pmap_setlevel 2 m) s = Some (m1, s)"
    unfolding read_table_def frame_of_mask m(3) using pmap_rd32_quiet [OF assms(8,7)] m assms(9)
    by (simp add: Let_def m1_def pmap_setlevel_def e_def flip: pde_addr_def del: fun_upd_apply bit_numeral_word_iff)
  then have r1: "pmap_read (pmap_setlevel 2 m) s = Some (e, m1, s)"
    using m m1 by (subst pmap_read.simps) (simp add: entry_bits pmap_read_ready, simp add: pmap_setlevel_def)
  have l2: "walk_level M d 2 2 (pmap_setlevel 2 m) s = Some (Go (e AND NOT PDE_PS_BIT), m1, s)"
    unfolding walk_level_def r1 using e d
    by (simp add: entry_bits test_pmap_entry_reserved_bit_def set_ad_bit_def bit_and_iff bit_not_iff split_masks Let_def)
  define m2 where "m2 = pmap_setlevel 1 m1"
  define t where "t = split_large m2 e"
  have r2: "pmap_read m2 s = Some (t, m2, s)"
    using m1 e by (subst pmap_read.simps) (simp add: entry_bits m2_def t_def, simp add: pmap_setlevel_def)
  have tb: "bit t 0" "bit t 1" "bit t 5" "\<not> bit t 6" "\<not> bit t 63"
    using split_two_bits(1) [of m2 _ pde] split_two_bits(2) [of m2 pde] pde m1 by (simp_all add: t_def e_def m2_def)
  have l1: "walk_level M d 2 1 m2 s = (if d_write d then None else Some (Go t, m2, s))"
    unfolding walk_level_def r2 using tb d m1
    by (auto simp: entry_bits test_pmap_entry_reserved_bit_def set_ad_bit_def pmap_write_def Let_def m2_def pmap_setlevel_def)
  have "walk_levels (Suc k) M d 2 2 es m s = (if d_write d then None else Some (VMMERR_SUCCESS, es(1 := e AND NOT PDE_PS_BIT, 0 := t), s))"
    using l2 l1 by (simp add: numeral_2_eq_2 m2_def)
  then show ?thesis using m1 by (intro exI [of _ m2] exI [of _ "es(1 := e AND NOT PDE_PS_BIT, 0 := t)"]) (simp add: t_def e_def m2_def)
qed

section \<open>Examples\<close>

text \<open>Tables in which every entry points to the frame at 0x1000, with the accessed and dirty bits set.\<close>

definition walk_regs :: mmu_regs where
  "walk_regs = \<lparr>reg_cr0 = 0x80010001, reg_cr3 = 0x1000, reg_cr4 = 0x20, reg_efer = 0x500, pte_addr_mask = nbits_mask 0x3024\<rparr>"

definition walk_mem :: host_mem where
  "walk_mem = \<lparr>ram = (\<lambda>a. le_bytes (0x1063 :: u64) (unat (a AND mask 3))), others = [], mmio = (\<lambda>_. False),
     vmm_start_phys = 0x40000000, phys_blank = 0x3FFFF000\<rparr>"

lemma walk_demo_regs:
  "long_mode walk_regs" "pte_addr_mask walk_regs = nbits_mask 0x3024" "phys_bits 0x3024 = 36" "cr3_table walk_regs = 0x1000"
  "unat ((0x3024 :: u32) AND 0xFF) \<le> 48"
  by (simp_all add: long_mode_def walk_regs_def phys_bits_def cr3_table_def frame_of_def take_bit_eq_mask mask_eq_exp_minus_1)

lemma demo_load: "aligned8 a \<Longrightarrow> ram_load 8 a (\<lambda>a. le_bytes (w :: u64) (unat (a AND mask 3))) = w"
proof -
  assume a: "aligned8 a"
  have "le_bytes w (unat ((a + of_nat k) AND mask 3)) = le_bytes w k" if "k < 8" for k
  proof -
    have "(a + of_nat k) AND mask 3 = (of_nat k :: u64)"
    proof (rule bit_word_eqI)
      fix n assume "n < LENGTH(64)"
      have "bit (a AND mask 3) n \<longleftrightarrow> bit a n \<and> n < 3" by (auto simp: bit_simps dest: bit_imp_le_length)
      then have "n < 3 \<Longrightarrow> \<not> bit a n" using a by (simp add: aligned8_def)
      then show "bit ((a + of_nat k) AND mask 3) n = bit (of_nat k :: u64) n"
        using small_bits [OF that, of n] unfolding aligned_plus(1) [OF a that] by (auto simp: bit_and_iff bit_or_iff bit_mask_iff)
    qed
    then show ?thesis using nat_eight [OF that] by simp
  qed
  then have "ram_load 8 a (\<lambda>a. le_bytes w (unat (a AND mask 3))) = (le_load 8 (le_bytes w) :: u64)"
    unfolding ram_load_def by (intro le_load_cong) simp
  then show ?thesis by simp
qed

lemma walk_demo_load: "aligned8 a \<Longrightarrow> ram_load 8 a (ram walk_mem) = (0x1063 :: u64)"
  by (simp add: walk_mem_def demo_load)

lemma walk_demo_entry:
  "table_check nb (walk_data c wr False False) i 0x1063 = None" "arch_leaf i 0x1063 \<longleftrightarrow> i = 0" "arch_touch d i 0x1063 = 0x1063"
  "take_bit 36 (0x1063 :: u64) AND NOT (mask 12) = 0x1000" "arch_frame 36 0 0x1063 v = 0x1000"
  if "36 \<le> nb"
proof -
  show "arch_leaf i 0x1063 \<longleftrightarrow> i = 0" "arch_touch d i 0x1063 = 0x1063"
    by (auto simp: arch_leaf_def arch_large_def arch_touch_same)
  have "b < 13" if "bit (0x1063 :: u64) b" for b
  proof -
    have "take_bit 13 (0x1063 :: u64) = 0x1063" by (simp add: take_bit_eq_mask mask_eq_exp_minus_1)
    with that show ?thesis by (metis bit_take_bit_iff)
  qed
  then show "table_check nb (walk_data c wr False False) i 0x1063 = None"
    using that by (auto simp: table_check_def reserved_clear walk_data_def arch_large_def simp del: bit_numeral_word_iff) fastforce+
  show f: "take_bit 36 (0x1063 :: u64) AND NOT (mask 12) = 0x1000" by (simp add: take_bit_eq_mask mask_eq_exp_minus_1)
  have "v AND mask 12 AND NOT (mask 12) = 0" by (rule bit_word_eqI) (auto simp: bit_simps)
  then show "arch_frame 36 0 0x1063 v = 0x1000" using f by (simp add: arch_frame_def)
qed

lemma demo_page: "arch_addr 0x1000 v i AND NOT (mask 12) = 0x1000"
proof (rule bit_word_eqI)
  fix n assume "n < LENGTH(64)"
  have "(0x1000 :: u64) = push_bit 12 1" by simp
  then have "bit (0x1000 :: u64) n \<longleftrightarrow> n = 12" by (simp only: bit_push_bit_iff bit_1_iff) auto
  then show "bit (arch_addr 0x1000 v i AND NOT (mask 12)) n = bit (0x1000 :: u64) n"
    by (auto simp: arch_addr_def bit_and_iff bit_or_iff bit_not_iff bit_mask_iff bit_push_bit_iff bit_take_bit_iff)
qed

lemma walk_demo_walk: "table_walk walk_mem 36 (walk_data c wr False False) v (Suc i) 0x1000 (ram walk_mem) = (Maps 0x1000, ram walk_mem)"
proof (induction i)
  have base: "(0x1000 :: u64) AND mask 12 = 0" by (simp add: mask_eq_exp_minus_1)
  have step: "table_walk walk_mem 36 (walk_data c wr False False) v (Suc i) 0x1000 (ram walk_mem) =
      (if i = 0 then (Maps 0x1000, ram walk_mem) else table_walk walk_mem 36 (walk_data c wr False False) v i 0x1000 (ram walk_mem))" for i
  proof -
    define a where "a = arch_addr 0x1000 v i"
    have load: "ram_load 8 a (ram walk_mem) = (0x1063 :: u64)" unfolding a_def by (rule walk_demo_load [OF arch_addr_aligned [OF base]])
    have "a AND NOT (mask 12) = 0x1000" unfolding a_def by (rule demo_page)
    then have "arch_ordinary walk_mem a" by (simp add: arch_ordinary_def phys_in_vmm_def walk_mem_def list_all_iff VMMSIZE_ALL_def)
    then show ?thesis
      using ram_store_same [OF load] walk_demo_entry [of 36]
      by (simp add: load Let_def flip: a_def)
  qed
  case 0
  show ?case by (subst step) simp
  case (Suc i)
  then show ?case by (subst step) simp
qed

lemma walk_demo_maps: "table_walk walk_mem (phys_bits 0x3024) (walk_data c wr False False) v 4 (cr3_table walk_regs) (ram walk_mem) = (Maps 0x1000, ram walk_mem)"
  using walk_demo_walk [of c wr v 3] unfolding walk_demo_regs by simp

text \<open>A second processor that sets the accessed bit of an entry between the read of it and the exchange.\<close>

definition busy_mem :: host_mem where
  "busy_mem = \<lparr>ram = ram_store 8 0x1888 (0x1043 :: u64) (ram walk_mem),
     others = [\<lambda>r. r, \<lambda>r. ram_store 8 0x1888 (set_bit 5 (ram_load 8 0x1888 r) :: u64) r], mmio = (\<lambda>_. False),
     vmm_start_phys = 0x40000000, phys_blank = 0x3FFFF000\<rparr>"

lemma touches_grow: "touches s r r' \<Longrightarrow> ad_grows r r'"
proof -
  assume "touches s r r'"
  then obtain a e where a: "aligned8 a" "ad_le (ram_load 8 a r) e" "r' = ram_store 8 a e r" unfolding touches_def by blast
  have "ad_le (ram_load 8 b r) (ram_load 8 b r')" if "aligned8 b" for b
    using load_other_cell [OF a(1) that] a(2) by (cases "b = a") (simp_all add: a(3))
  then show "ad_grows r r'" by (simp add: ad_grows_def)
qed

lemma busy_mem_ok: "tolerates ad_grows busy_mem" "length (others busy_mem) < 3"
proof -
  have "ad_le e (set_bit 5 e)" for e :: u64 by (auto simp: ad_le_def bit_simps)
  moreover have "arch_ordinary busy_mem 0x1888" "aligned8 0x1888"
    by (simp_all add: arch_ordinary_def phys_in_vmm_def busy_mem_def aligned8_def mask_eq_exp_minus_1 list_all_iff VMMSIZE_ALL_def)
  ultimately have "touches busy_mem r (ram_store 8 0x1888 (set_bit 5 (ram_load 8 0x1888 r) :: u64) r)" for r
    unfolding touches_def by blast
  then have "ad_grows r (ram_store 8 0x1888 (set_bit 5 (ram_load 8 0x1888 r) :: u64) r)" for r by (rule touches_grow)
  moreover have "reflp ad_grows" "transp ad_grows" by (auto intro: reflpI transpI ad_grows_trans)
  ultimately show "tolerates ad_grows busy_mem" using touches_grow by (auto simp: tolerates_def busy_mem_def)
  show "length (others busy_mem) < 3" by (simp add: busy_mem_def)
qed

lemma busy_mem_tables: "tables_ordinary (\<lambda>_ base. base = 0x1000) ad_grows v busy_mem"
proof -
  have "frame_of e = 0x1000" if "ad_grows (ram busy_mem) r" "e = ram_load 8 (arch_addr 0x1000 v i) r" for i r and e :: u64
  proof -
    define a where "a = arch_addr 0x1000 v i"
    have a: "aligned8 a" "aligned8 0x1888"
      unfolding a_def by (rule arch_addr_aligned; simp add: mask_eq_exp_minus_1) (simp add: aligned8_def mask_eq_exp_minus_1)
    have "ram_load 8 a (ram busy_mem) = (if a = 0x1888 then 0x1043 else 0x1063 :: u64)"
      using load_other_cell [OF a(2,1)] walk_demo_load [OF a(1)] by (simp add: busy_mem_def)
    then have "frame_of (ram_load 8 a (ram busy_mem)) = 0x1000"
      by (simp add: frame_of_def take_bit_eq_mask mask_eq_exp_minus_1)
    moreover have "ad_le (ram_load 8 a (ram busy_mem)) e" using that a(1) by (simp add: ad_grows_def a_def)
    then have "frame_of (ram_load 8 a (ram busy_mem)) = frame_of e" by (rule ad_le_frame)
    ultimately show ?thesis by simp
  qed
  moreover have "arch_ordinary busy_mem (arch_addr 0x1000 v i)" for i
    by (simp add: arch_ordinary_def demo_page) (simp add: phys_in_vmm_def busy_mem_def list_all_iff VMMSIZE_ALL_def)
  ultimately show ?thesis by (auto simp: tables_ordinary_def Let_def)
qed

text \<open>Tables whose entries all have bit 8 set.\<close>

definition global_mem :: host_mem where
  "global_mem = walk_mem\<lparr>ram := \<lambda>a. le_bytes (0x1163 :: u64) (unat (a AND mask 3))\<rparr>"

lemma global_demo: "meets_bit8 global_mem nb d v 4 0x1000 (ram global_mem)"
proof -
  define a where "a = arch_addr 0x1000 v 3"
  have al: "aligned8 a" unfolding a_def by (rule arch_addr_aligned) (simp add: mask_eq_exp_minus_1)
  have "ram_load 8 a (ram global_mem) = (0x1163 :: u64)"
    using demo_load [OF al, of "0x1163"] by (simp add: global_mem_def)
  moreover have "arch_ordinary global_mem a"
    unfolding a_def by (simp add: arch_ordinary_def demo_page) (simp add: phys_in_vmm_def global_mem_def walk_mem_def list_all_iff VMMSIZE_ALL_def)
  moreover have "bit (0x1163 :: u64) 0" "bit (0x1163 :: u64) 8" by simp_all
  ultimately have "meets_bit8 global_mem nb d v (Suc 3) 0x1000 (ram global_mem)"
    unfolding meets_bit8.simps(2) Let_def a_def [symmetric] by (simp add: ignored_bit8_def)
  then show ?thesis by simp
qed

text \<open>A guest without PAE and PSE.\<close>

definition old_regs :: mmu_regs where
  "old_regs = \<lparr>reg_cr0 = 0x80000001, reg_cr3 = 0x1000, reg_cr4 = 0, reg_efer = 0, pte_addr_mask = nbits_mask 0x3024\<rparr>"

definition old_mem :: host_mem where
  "old_mem = walk_mem\<lparr>ram := \<lambda>a. if a = 0x1000 then 0xA3 else 0\<rparr>"

section \<open>Properties\<close>



text \<open>
  C19: On a processor with physical addresses of at most 48 bits, with any number of writes of other processors between the accesses
  of the walk of a guest in long mode, as long as the tables that it can meet lie in memory that is the guest's own, the walk returns
  after at most one more pass per level than there are writes; and whatever relation all those writes and the setting of accessed
  and dirty bits of an entry's current value keep, the walk as a whole keeps: no write of another processor is lost.
\<close>

theorem walk_amid_writes:
  assumes "long_mode c" "pte_addr_mask c = nbits_mask a" "unat (a AND 0xFF) \<le> 48" "length (others s) < n"
    "F 3 (cr3_table c)" "tables_ordinary F R v s" "tolerates R s"
  shows "\<exists>q s'. get_pte n c v wr us ex s = Some (q, s') \<and> R (ram s) (ram s')"
proof -
  define d where "d = (walk_data c wr us ex)\<lparr>d_pae := True, d_pse := True\<rparr>"
  obtain m where m: "table_next v 4 m" "frame_of (entry m 4) = cr3_table c"
    and g: "get_pte n c v wr us ex s = do {
       (r, es, s) \<leftarrow> walk_levels n (pte_addr_mask c) d 4 4
         ((\<lambda>_. 0)(4 := entry m 4 OR (PDE_RW_BIT OR PDE_US_BIT OR PDE_A_BIT))) m s;
       Some (if r = VMMERR_SUCCESS then Inr (es 0) else Inl r, s) }"
    using get_pte_start [OF assms(1), of v n wr us ex, folded d_def] by blast
  have "min 52 (max 32 (unat (a AND 0xFF))) = phys_bits a" using assms(3) by (auto simp: phys_bits_def)
  then have r: "ready (phys_bits a) d (pte_addr_mask c)"
    using assms(2,3) by (auto simp: ready_def d_def nbits_mask_eq phys_bits_def)
  have four: "Suc 3 = 4" by simp
  obtain r es' s' where "walk_levels n (pte_addr_mask c) d 4 4 ((\<lambda>_. 0)(4 := entry m 4 OR (PDE_RW_BIT OR PDE_US_BIT OR PDE_A_BIT))) m s =
      Some (r, es', s')" "amid R s s'"
    using walk_levels_amid [OF r, of 3, unfolded four, OF _ m(1) assms(7,6) _ assms(4)] assms(5) m(2)
    by (simp del: walk_levels.simps) blast
  then show ?thesis by (simp add: g amid_def del: walk_levels.simps fun_upd_apply)
qed

theorem walk_amid_writes_witness:
  "\<exists>q s'. get_pte 3 walk_regs 0xFFFF888000001234 False False False busy_mem = Some (q, s') \<and> ad_grows (ram busy_mem) (ram s')"
  by (rule walk_amid_writes [OF walk_demo_regs(1,2,5) busy_mem_ok(2) _ busy_mem_tables busy_mem_ok(1)]) (simp add: walk_demo_regs)

text \<open>
  C38: Without page size extensions the processor ignores bit 7 of a page directory entry; once such an entry has its accessed bit,
  the walk takes it as a page of 4 MiB, whatever the page table holds, and a write through it panics the hypervisor while the dirty
  bit is clear.
\<close>

theorem ignored_bit_panics:
  fixes pde :: u32
  assumes "two_level c" "others s = []" "0 < n" "ordinary4 s (pde_addr c v)" "pde = ram_load 4 (pde_addr c v) (ram s)"
    "bit pde 0" "bit pde 1" "bit pde 5" "\<not> bit pde 6" "bit pde 7"
  shows "get_pte n c v True False ex s = None \<and>
    (\<exists>pte. get_pte n c v False False ex s = Some (Inr pte, s) \<and> pte AND 0xFFC00000 = ucast pde AND 0xFFC00000)"
proof -
  obtain k where n: "n = Suc k" using assms(3) by (cases n) auto
  have g: "\<exists>m'. levels m' = 2 \<and> get_pte n c v wr False ex s = (if wr then None else Some (Inr (split_large m' (ucast pde)), s))" for wr
  proof -
    define d where "d = walk_data c wr False ex"
    have d: "\<not> d_pse d" "\<not> d_pae d" "\<not> d_user d" "d_write d = wr"
      using assms(1) by (simp_all add: two_level_def walk_data_def d_def)
    obtain m where m: "levels m = 2" "readlevel m = 2" "frame_of (entry m 2) = frame_of (reg_cr3 c)" "bit (entry m 2) 0"
        "\<not> bit (entry m 2) 7" "curaddr m = v"
      and w: "get_pte n c v wr False ex s = do {
         (r, es, s) \<leftarrow> walk_levels n (pte_addr_mask c) d 2 2 ((\<lambda>_. 0)(2 := entry m 2 OR (PDE_RW_BIT OR PDE_US_BIT OR PDE_A_BIT))) m s;
         Some (if r = VMMERR_SUCCESS then Inr (es 0) else Inl r, s) }"
      using two_level_start [OF assms(1), of v n wr False ex] unfolding d_def by blast
    obtain m' es' where "levels m' = 2" "es' 0 = split_large m' (ucast pde)"
      "walk_levels (Suc k) (pte_addr_mask c) d 2 2 ((\<lambda>_. 0)(2 := entry m 2 OR (PDE_RW_BIT OR PDE_US_BIT OR PDE_A_BIT))) m s =
        (if d_write d then None else Some (VMMERR_SUCCESS, es', s))"
      using two_level_walk [OF m assms(2,4-10) d(1-3)] by blast
    then show ?thesis unfolding w unfolding n d(4) by (intro exI [of _ m']) (simp del: walk_levels.simps fun_upd_apply)
  qed
  have fr: "split_large m (ucast pde) AND 0xFFC00000 = ucast pde AND 0xFFC00000" if "levels m = 2" for m
    by (rule split_two_frame [OF that])
  show ?thesis using g [of True] g [of False] fr by auto
qed

theorem ignored_bit_panics_witness:
  "get_pte 1 old_regs 0x5000 True False False old_mem = None"
proof -
  have "pde_addr old_regs 0x5000 = 0x1000"
    by (simp add: pde_addr_def old_regs_def frame_of_def take_bit_eq_mask mask_eq_exp_minus_1)
  moreover have "ordinary4 old_mem 0x1000"
    by (simp add: ordinary4_def old_mem_def walk_mem_def phys_in_vmm_def mmio_hit_iff mask_eq_exp_minus_1)
  moreover have "ram_load 4 0x1000 (ram old_mem) = (0xA3 :: u32)"
    by (simp add: ram_load_def le_load_def old_mem_def upt_rec)
  ultimately show ?thesis
    using ignored_bit_panics [where c = old_regs and s = old_mem and n = 1 and v = "0x5000" and pde = "0xA3" and ex = False] by (simp add: two_level_def old_regs_def old_mem_def walk_mem_def)
qed

end
