(* ===== verification/Guest_Reads.thy ===== *)
theory Guest_Reads
  imports Guest_Walk
begin

text \<open>
  Reads of the guest's memory by linear address: what is split at page borders is what byte by byte reads return, and the loops
  of the detection module over \<open>read_linearaddr_b\<close> read the linear bytes that its model takes as a parameter.
\<close>

section \<open>Reads within a page\<close>

lemma small_offset:
  assumes "unat (o' :: u64) < 4096" "b AND mask 12 = 0"
  shows "b + o' = b OR o'" "(b + o') AND NOT (mask 12) = b" "(b + o') AND mask 12 = o'"
proof -
  have t: "take_bit 12 o' = o'" using assms(1) by (simp add: word_unat_eq_iff unsigned_take_bit_eq take_bit_nat_eq_self)
  have b: "\<not> bit b n" if "n < 12" for n
  proof -
    have "bit (b AND mask 12) n \<longleftrightarrow> bit b n" using that by (auto simp: bit_simps dest: bit_imp_le_length)
    then show ?thesis by (simp add: assms(2))
  qed
  have o': "bit o' n \<Longrightarrow> n < 12" for n using t by (metis bit_take_bit_iff)
  show 1: "b + o' = b OR o'" by (rule disjunctive_add) (use b o' in blast)
  show "(b + o') AND NOT (mask 12) = b" "(b + o') AND mask 12 = o'"
    unfolding 1 by (rule bit_word_eqI; use b o' in \<open>auto simp: bit_simps\<close>)+
qed

lemma page_split: "x = (x AND NOT (mask 12)) + (x AND mask 12)" "unat ((x :: u64) AND mask 12) < 4096"
  "(x AND NOT (mask 12)) AND mask 12 = 0"
proof -
  show 0: "(x AND NOT (mask 12)) AND mask 12 = 0" by (rule bit_word_eqI) (auto simp: bit_simps)
  have "x AND mask 12 = take_bit 12 x" by (simp add: take_bit_eq_mask)
  then show 1: "unat (x AND mask 12) < 4096" using take_bit_nat_less_exp [of 12 "unat x"] by (simp add: unsigned_take_bit_eq)
  have "x = (x AND NOT (mask 12)) OR (x AND mask 12)" by (rule bit_word_eqI) (auto simp: bit_simps)
  then show "x = (x AND NOT (mask 12)) + (x AND mask 12)" using small_offset(1) [OF 1 0] by simp
qed

lemma page_add:
  assumes "unat ((x :: u64) AND mask 12) + j < 4096"
  shows "(x + of_nat j) AND NOT (mask 12) = x AND NOT (mask 12)" "(x + of_nat j) AND mask 12 = (x AND mask 12) + of_nat j"
    "unat ((x + of_nat j) AND mask 12) = unat (x AND mask 12) + j" "drop_bit 12 (x + of_nat j) = drop_bit 12 x"
proof -
  define b where "b = x AND NOT (mask 12)"
  define o' where "o' = (x AND mask 12) + of_nat j"
  have u: "unat o' = unat (x AND mask 12) + j"
  proof -
    define m where "m = unat (x AND mask 12) + j"
    have "o' = of_nat m" unfolding o'_def m_def of_nat_add of_nat_unat ucast_id ..
    moreover have "m < 4096" unfolding m_def by (rule assms)
    moreover have "unat (of_nat k :: u64) = k" if "k < 4096" for k :: nat using that by (simp add: unat_of_nat)
    ultimately show ?thesis by (simp only: m_def [symmetric])
  qed
  have e: "x + of_nat j = b + o'" by (simp only: b_def o'_def add.assoc [symmetric] page_split(1) [symmetric])
  have "unat o' < 4096" using assms by (simp add: u)
  note so = small_offset(2,3) [OF this page_split(3) [of x, folded b_def], folded e]
  show n: "(x + of_nat j) AND NOT (mask 12) = x AND NOT (mask 12)" using so(1) by (simp add: b_def)
  show o: "(x + of_nat j) AND mask 12 = (x AND mask 12) + of_nat j" using so(2) by (simp add: o'_def)
  show "unat ((x + of_nat j) AND mask 12) = unat (x AND mask 12) + j" using u o by (simp add: o'_def)
  have "drop_bit 12 y = drop_bit 12 (y AND NOT (mask 12))" for y :: u64
    by (rule bit_word_eqI) (auto simp: bit_simps dest: bit_imp_le_length)
  then show "drop_bit 12 (x + of_nat j) = drop_bit 12 x" by (metis n)
qed

lemma gp2hp_add:
  assumes "unat (x AND mask 12) + j < 4096"
  shows "fst (gmm_pass_gp2hp s (x + of_nat j)) = fst (gmm_pass_gp2hp s x) + of_nat j"
proof -
  define b where "b = (if phys_in_vmm s (x AND NOT (mask 12)) then phys_blank s AND NOT (mask 12) else x AND NOT (mask 12))"
  have b: "b AND mask 12 = 0" by (simp add: b_def page_split(3))
  have g: "fst (gmm_pass_gp2hp s y) = b OR y AND mask 12" if "y AND NOT (mask 12) = x AND NOT (mask 12)" for y
    using that by (simp add: gmm_pass_gp2hp_def b_def page_mask(1))
  have "fst (gmm_pass_gp2hp s (x + of_nat j)) = b OR ((x AND mask 12) + of_nat j)"
    using g [OF page_add(1) [OF assms]] page_add(2) [OF assms] by simp
  also have "\<dots> = b + ((x AND mask 12) + of_nat j)"
    by (rule small_offset(1) [symmetric]) (use b page_add(2,3) [OF assms] assms in simp_all)
  also have "\<dots> = (b + (x AND mask 12)) + of_nat j" by (simp add: algebra_simps)
  also have "b + (x AND mask 12) = b OR x AND mask 12" by (rule small_offset(1)) (use b page_split(2) in simp_all)
  finally show ?thesis using g [OF refl] by simp
qed

lemma read_part_quiet:
  "others s = [] \<Longrightarrow> read_gphys_part k phys d dst s =
    (if mmio_hit s phys k then None
     else Some (put_bytes k (\<lambda>i. ram s (fst (gmm_pass_gp2hp s phys) + of_nat i)) d dst, s))"
  by (simp add: read_gphys_part_def read_hphys_def Let_def split_beta ASSERT_def)

lemma mmio_hit_Suc: "mmio_hit s phys (Suc k) \<longleftrightarrow> mmio_hit s phys 1 \<or> mmio_hit s (phys + 1) k"
  by (simp add: mmio_hit_iff Ex_less_Suc2 algebra_simps)

lemma put_bytes_0 [simp]: "put_bytes 0 p d dst = dst"
  by (rule ext) (auto simp: put_bytes_def)

lemma read_part_Suc:
  assumes "others s = []" "unat (phys AND mask 12) + Suc k \<le> 4096" "0 < k"
  shows "read_gphys_part (Suc k) phys d dst s = do {
    (dst, s) \<leftarrow> read_gphys_part 1 phys d dst s;
    read_gphys_part k (phys + 1) (d + 1) dst s }"
proof -
  have g: "fst (gmm_pass_gp2hp s (1 + phys)) = 1 + fst (gmm_pass_gp2hp s phys)"
    using gp2hp_add [of phys 1 s] assms(2,3) by (simp add: add.commute)
  have "put_bytes (Suc k) p d dst = put_bytes k (\<lambda>i. p (Suc i)) (Suc d) (put_bytes 1 p d dst)" for p
    by (rule ext) (auto simp: put_bytes_def Suc_diff_Suc intro: arg_cong [of _ _ p])
  then show ?thesis using assms(1)
    by (simp add: read_part_quiet mmio_hit_Suc [of s phys k] g algebra_simps)
qed

fun read_bytes :: "nat \<Rightarrow> mmu_regs \<Rightarrow> nat \<Rightarrow> u64 \<Rightarrow> reader" where
  "read_bytes n c 0 linear = (\<lambda>dat dst s. Some (VMMERR_SUCCESS, dst, s))"
| "read_bytes n c (Suc k) linear = then_read (read_linearaddr_b n c linear) 1 (read_bytes n c k (linear + 1))"

definition mapped :: "nat \<Rightarrow> mmu_regs \<Rightarrow> u64 \<Rightarrow> u64 \<Rightarrow> host_mem \<Rightarrow> bool" where
  "mapped n c pg p s \<longleftrightarrow> p AND mask 12 = 0 \<and> others s = [] \<and>
     (\<forall>v. drop_bit 12 v = pg \<longrightarrow> (\<exists>pte. get_pte n c v False False False s = Some (Inr pte, s) \<and> gphys_of c pte v = p OR v AND mask 12))"

lemma read_page_mapped:
  assumes "mapped n c (drop_bit 12 v) p s"
  shows "read_page n c rd v dat dst s = do { (dst, s) \<leftarrow> rd (p OR v AND mask 12) dat dst s; Some (VMMERR_SUCCESS, dst, s) }"
proof -
  obtain pte where "get_pte n c v False False False s = Some (Inr pte, s)" "gphys_of c pte v = p OR v AND mask 12"
    using assms by (auto simp: mapped_def)
  then show ?thesis by (simp add: read_page_def)
qed

lemma read_bytes_mapped:
  "mapped n c pg p s \<Longrightarrow> drop_bit 12 v = pg \<Longrightarrow> unat (v AND mask 12) + k \<le> 4096 \<Longrightarrow>
    read_bytes n c k v dat dst s = do {
      (dst, s) \<leftarrow> read_gphys_part k (p OR v AND mask 12) dat dst s;
      Some (VMMERR_SUCCESS, dst, s) }"
proof (induction k arbitrary: v dat dst)
  case 0
  then show ?case by (simp add: read_part_quiet mapped_def mmio_hit_def)
next
  case (Suc k v dat dst)
  have q: "others s = []" using Suc.prems(1) by (simp add: mapped_def)
  have p: "p AND mask 12 = 0" using Suc.prems(1) by (simp add: mapped_def)
  have m: "mapped n c (drop_bit 12 v) p s" using Suc.prems(1,2) by simp
  have one: "read_linearaddr_b n c v dat dst s = do {
      (dst, s) \<leftarrow> read_gphys_part 1 (p OR v AND mask 12) dat dst s; Some (VMMERR_SUCCESS, dst, s) }"
    by (simp add: read_linearaddr_b_def read_gphys_b_def read_page_mapped [OF m])
  show ?case
  proof (cases "k = 0")
    case True
    then show ?thesis by (simp add: then_read_def one)
  next
    case False
    then have o: "unat (v AND mask 12) + 1 < 4096" using Suc.prems(3) by simp
    note pa = page_add [OF o, simplified]
    have "p OR (v + 1) AND mask 12 = p + ((v + 1) AND mask 12)" using small_offset(1) [OF page_split(2) p, of "v + 1"] by simp
    also have "\<dots> = (p + (v AND mask 12)) + 1" unfolding pa(2) by (simp add: add.assoc)
    also have "p + (v AND mask 12) = p OR v AND mask 12" by (rule small_offset(1) [OF page_split(2) p])
    finally have ph: "p OR (v + 1) AND mask 12 = (p OR v AND mask 12) + 1" .
    have po: "(p OR v AND mask 12) AND mask 12 = v AND mask 12"
      using small_offset(1,3) [OF page_split(2) p] by simp
    have IH: "read_bytes n c k (v + 1) dat dst s = do {
        (dst, s) \<leftarrow> read_gphys_part k ((p OR v AND mask 12) + 1) dat dst s; Some (VMMERR_SUCCESS, dst, s) }" for dat dst
      using Suc.IH [OF Suc.prems(1), of "v + 1"] Suc.prems(2,3) pa(3,4) unfolding ph by (simp add: case_prod_unfold)
    have sp: "read_gphys_part (Suc k) (p OR v AND mask 12) dat dst s = do {
        (dst, s) \<leftarrow> read_gphys_part 1 (p OR v AND mask 12) dat dst s;
        read_gphys_part k ((p OR v AND mask 12) + 1) (dat + 1) dst s }"
      by (rule read_part_Suc [OF q]) (use Suc.prems(3) False in \<open>simp_all add: po\<close>)
    show ?thesis unfolding sp by (simp add: then_read_def one) (simp add: read_part_quiet [OF q] IH)
  qed
qed


text \<open>The setting of these lemmas: a guest in long mode on a processor with addresses of at most 48 bits.\<close>

definition walks :: "nat \<Rightarrow> mmu_regs \<Rightarrow> u32 \<Rightarrow> bool" where
  "walks n c a \<longleftrightarrow> long_mode c \<and> pte_addr_mask c = nbits_mask a \<and> unat (a AND 0xFF) \<le> 48 \<and> 0 < n"

lemma table_walk_no_success: "table_walk s nb d v i base r \<noteq> (Faults VMMERR_SUCCESS, r')"
  by (induction i arbitrary: base r) (auto simp: Let_def table_check_no_success split: option.split)

lemma table_walk_maps_aligned: "table_walk s nb d v (Suc i) base r = (Maps p, r') \<Longrightarrow> p AND mask 12 = 0"
proof (induction i arbitrary: base r)
  case 0
  have "arch_frame nb 0 e v AND mask 12 = 0" for e by (rule bit_word_eqI) (auto simp: arch_frame_def bit_simps)
  with 0 show ?case by (auto simp: Let_def arch_leaf_def split: option.splits if_splits)
next
  case (Suc i)
  have "arch_frame nb (Suc i) e v AND mask 12 = 0" for e by (rule bit_word_eqI) (auto simp: arch_frame_def bit_simps)
  with Suc.prems Suc.IH show ?case
    by (subst (asm) table_walk.simps(2)) (auto simp: Let_def simp del: table_walk.simps split: option.splits if_splits)
qed

lemma cr3_table_aligned: "cr3_table c AND mask 12 = 0"
  by (simp add: cr3_table_def frame_of_aligned)

lemma get_pte_cases:
  assumes "walks n c a" "others s = []"
  obtains (none) "get_pte n c v False False False s = None"
    | (err) e s' where "get_pte n c v False False False s = Some (Inl e, s')" "e \<noteq> VMMERR_SUCCESS" "others s' = []"
    | (ok) pte p s' where "get_pte n c v False False False s = Some (Inr pte, s')"
        "gphys_of c pte v = p OR v AND mask 12" "mapped n c (drop_bit 12 v) p s'"
proof -
  define d where "d = walk_data c False False False"
  note G = get_pte_table [where c = c and a = a and n = n and wr = False and us = False and ex = False, folded d_def]
  have W: "long_mode c" "pte_addr_mask c = nbits_mask a" "unat (a AND 0xFF) \<le> 48" "0 < n" using assms(1) by (simp_all add: walks_def)
  obtain q r where ar: "table_walk s (phys_bits a) d v 4 (cr3_table c) (ram s) = (q, r)" by fastforce
  note g = G [OF W(1-3) assms(2) W(4), where virt = v, unfolded ar]
  show thesis
  proof (cases q)
    case Panics
    with g none show ?thesis by simp
  next
    case (Faults e)
    with ar have "e \<noteq> VMMERR_SUCCESS" using table_walk_no_success by metis
    with g err show ?thesis by (simp add: Faults assms(2))
  next
    case (Maps p)
    then obtain pte where pte: "get_pte n c v False False False s = Some (Inr pte, s\<lparr>ram := r\<rparr>)" "gphys_of c pte v = p OR v AND mask 12"
      using g by (auto simp: page_mask(2))
    have nb: "32 \<le> phys_bits a" by (simp add: phys_bits_def)
    have "\<exists>pte. get_pte n c v' False False False (s\<lparr>ram := r\<rparr>) = Some (Inr pte, s\<lparr>ram := r\<rparr>) \<and>
        gphys_of c pte v' = p OR v' AND mask 12" if "drop_bit 12 v' = drop_bit 12 v" for v'
    proof -
      have "table_walk (s\<lparr>ram := r\<rparr>) (phys_bits a) d v' 4 (cr3_table c) r = (Maps p, r)"
        using table_walk_again [OF nb ar cr3_table_aligned] table_walk_page [OF that] Maps by simp
      then show ?thesis using G [OF W(1-3) _ W(4), where s = "s\<lparr>ram := r\<rparr>" and virt = v'] assms(2) by (simp add: page_mask(2))
    qed
    moreover have "p AND mask 12 = 0" using table_walk_maps_aligned [of s _ d v 3] ar Maps by (simp add: numeral_eq_Suc)
    ultimately have "mapped n c (drop_bit 12 v) p (s\<lparr>ram := r\<rparr>)" by (simp add: mapped_def assms(2))
    with ok pte show ?thesis by blast
  qed
qed

lemma page_reads:
  assumes "walks n c a" "others s = []" "unat (v AND mask 12) + k \<le> 4096" "0 < k"
    "\<And>phys. unat (phys AND mask 12) + k \<le> 4096 \<Longrightarrow> rd phys = read_gphys_part k phys"
  shows "read_page n c rd v dat dst s = read_bytes n c k v dat dst s"
proof -
  obtain j where k: "k = Suc j" using assms(4) by (cases k) auto
  show ?thesis
  proof (rule get_pte_cases [OF assms(1,2), of v])
    assume "get_pte n c v False False False s = None"
    then show ?thesis by (simp add: k read_page_def then_read_def read_linearaddr_b_def)
  next
    fix e s' assume "get_pte n c v False False False s = Some (Inl e, s')" "e \<noteq> VMMERR_SUCCESS"
    then show ?thesis by (simp add: k read_page_def then_read_def read_linearaddr_b_def)
  next
    fix pte p s' assume g: "get_pte n c v False False False s = Some (Inr pte, s')" "gphys_of c pte v = p OR v AND mask 12"
      and m: "mapped n c (drop_bit 12 v) p s'"
    have same: "read_page n c f v dat dst s = read_page n c f v dat dst s'" for f dat dst
      unfolding read_page_mapped [OF m] by (simp add: read_page_def g)
    have "unat ((p OR v AND mask 12) AND mask 12) + k \<le> 4096"
      using small_offset(1,3) [OF page_split(2), of p v] m assms(3) by (simp add: mapped_def)
    note rd = assms(5) [OF this]
    have "read_bytes n c k v dat dst s = read_bytes n c k v dat dst s'"
      by (simp add: k then_read_def read_linearaddr_b_def same)
    also have "\<dots> = do { (dst, s) \<leftarrow> read_gphys_part k (p OR v AND mask 12) dat dst s'; Some (VMMERR_SUCCESS, dst, s) }"
      by (rule read_bytes_mapped [OF m refl assms(3)])
    finally show ?thesis unfolding same read_page_mapped [OF m] rd by simp
  qed
qed

definition reads_as :: "nat \<Rightarrow> mmu_regs \<Rightarrow> reader \<Rightarrow> nat \<Rightarrow> u64 \<Rightarrow> bool" where
  "reads_as n c f k v \<longleftrightarrow> (\<forall>dat dst s. others s = [] \<longrightarrow> f dat dst s = read_bytes n c k v dat dst s)"

lemma read_bytes_quiet:
  assumes "walks n c a"
  shows "others s = [] \<Longrightarrow> read_bytes n c k v dat dst s = Some (r, dst', s') \<Longrightarrow> others s' = []"
proof (induction k arbitrary: v dat dst s)
  case (Suc k)
  show ?case
  proof (rule get_pte_cases [OF assms Suc.prems(1), of v])
    assume "get_pte n c v False False False s = None"
    then show ?thesis using Suc.prems by (simp add: then_read_def read_linearaddr_b_def read_page_def)
  next
    fix e s'' assume "get_pte n c v False False False s = Some (Inl e, s'')" "e \<noteq> VMMERR_SUCCESS" "others s'' = []"
    then show ?thesis using Suc.prems by (simp add: then_read_def read_linearaddr_b_def read_page_def)
  next
    fix pte p s'' assume "get_pte n c v False False False s = Some (Inr pte, s'')" "mapped n c (drop_bit 12 v) p s''"
    moreover have q: "others s'' = []" using \<open>mapped _ _ _ _ _\<close> by (simp add: mapped_def)
    ultimately show ?thesis using Suc.prems Suc.IH
      by (simp add: then_read_def read_linearaddr_b_def read_page_def read_gphys_b_def read_part_quiet [OF q] split: if_splits)
  qed
qed simp

lemma then_read_assoc: "then_read (then_read f j g) (j + k) h = then_read f j (then_read g k h)"
  by (intro ext) (auto simp: then_read_def add.assoc split: Option.bind_split)

lemma read_bytes_add: "read_bytes n c (j + k) v = then_read (read_bytes n c j v) j (read_bytes n c k (v + of_nat j))"
proof (induction j arbitrary: v)
  case 0
  show ?case by (intro ext) (simp add: then_read_def)
next
  case (Suc j)
  show ?case by (simp add: Suc.IH then_read_assoc [of _ 1 _ j, simplified] add.assoc)
qed

lemma reads_then:
  assumes "walks n c a" "reads_as n c f j v" "reads_as n c g k (v + of_nat j)"
  shows "reads_as n c (then_read f j g) (j + k) v"
  unfolding reads_as_def
proof (intro allI impI)
  fix dat dst and s :: host_mem assume q: "others s = []"
  have f: "f dat dst s = read_bytes n c j v dat dst s" using assms(2) q by (simp add: reads_as_def)
  have g: "g (dat + j) dst' s' = read_bytes n c k (v + of_nat j) (dat + j) dst' s'"
    if "read_bytes n c j v dat dst s = Some (r, dst', s')" for r dst' s'
    using assms(3) read_bytes_quiet [OF assms(1) q that] by (simp add: reads_as_def)
  show "then_read f j g dat dst s = read_bytes n c (j + k) v dat dst s"
    unfolding read_bytes_add by (cases "read_bytes n c j v dat dst s") (auto simp: then_read_def f g)
qed

lemma offset_le: "K \<le> v AND 0xFFF \<longleftrightarrow> unat K \<le> unat ((v :: u64) AND mask 12)"
  by (simp add: word_le_nat_alt page_mask(2))

lemma offset_eq: "(v :: u64) AND 0xFFF = 0xFFF \<longleftrightarrow> unat (v AND mask 12) = 4095"
  by (simp add: word_unat_eq_iff page_mask(2)) (simp add: mask_eq_exp_minus_1)

lemma read_q_reads_as:
  assumes "walks n c a"
  shows "reads_as n c (read_linearaddr_q n c v) 8 v"
proof -
  have b: "reads_as n c (read_linearaddr_b n c v) 1 v" for v
  proof -
    have "f dat dst s = then_read f 1 (\<lambda>dst dat s. Some (VMMERR_SUCCESS, dat, s)) dat dst s" for f dat dst s
      by (cases "f dat dst s") (auto simp: then_read_def)
    then show ?thesis by (simp add: reads_as_def)
  qed
  have part: "reads_as n c (read_page n c rd v) k v"
    if "unat (v AND mask 12) + k \<le> 4096" "0 < k" "\<And>phys. unat (phys AND mask 12) + k \<le> 4096 \<Longrightarrow> rd phys = read_gphys_part k phys" for rd v k
    using page_reads [OF assms _ that] by (simp add: reads_as_def)
  have rd: "unat (phys AND mask 12) + 2 \<le> 4096 \<Longrightarrow> read_gphys_w phys = read_gphys_part 2 phys"
    "unat (phys AND mask 12) + 4 \<le> 4096 \<Longrightarrow> read_gphys_l phys = read_gphys_part 4 phys"
    "unat (phys AND mask 12) + 8 \<le> 4096 \<Longrightarrow> read_gphys_q phys = read_gphys_part 8 phys" for phys
    by (intro ext; simp add: read_gphys_w_def read_gphys_l_def read_gphys_q_def offset_le offset_eq)+
  have w: "reads_as n c (read_linearaddr_w n c v) 2 v" for v
  proof (cases "v AND 0xFFF = 0xFFF")
    case True
    then show ?thesis using reads_then [OF assms b [of v] b [of "v + of_nat 1"]] by (simp add: read_linearaddr_w_def numeral_2_eq_2)
  next
    case False
    then have "unat (v AND mask 12) + 2 \<le> 4096" using page_split(2) [of v] by (simp add: offset_eq)
    with False show ?thesis using part [OF _ _ rd(1)] by (simp add: read_linearaddr_w_def)
  qed
  have l: "reads_as n c (read_linearaddr_l n c v) 4 v" for v
  proof (cases "0xFFD \<le> v AND 0xFFF")
    case True
    then show ?thesis using reads_then [OF assms w [of v] w [of "v + of_nat 2"]] by (simp add: read_linearaddr_l_def)
  next
    case False
    then have "unat (v AND mask 12) + 4 \<le> 4096" by (simp add: offset_le)
    with False show ?thesis using part [OF _ _ rd(2)] by (simp add: read_linearaddr_l_def)
  qed
  show ?thesis
  proof (cases "0xFF9 \<le> v AND 0xFFF")
    case True
    then show ?thesis using reads_then [OF assms l [of v] l [of "v + of_nat 4"]] by (simp add: read_linearaddr_q_def)
  next
    case False
    then have "unat (v AND mask 12) + 8 \<le> 4096" by (simp add: offset_le)
    with False show ?thesis using part [OF _ _ rd(3)] by (simp add: read_linearaddr_q_def)
  qed
qed

text \<open>
  C23: For a guest in long mode, with physical addresses of at most 48 bits and no other processor writing meanwhile, an eight byte
  read of the guest's memory, split at page borders into reads of four, two and one bytes, is the same as eight reads of a byte one
  after the other that stop at the first error: the same bytes in the caller's buffer, the same error, the same memory afterwards.
\<close>

theorem read_q_bytewise:
  assumes "walks n c a" "others s = []"
  shows "read_linearaddr_q n c v dat dst s = read_bytes n c 8 v dat dst s"
  using read_q_reads_as [OF assms(1)] assms(2) by (simp add: reads_as_def)

theorem read_q_bytewise_witness:
  "read_linearaddr_q 1 walk_regs 0xFFFF888000001FFD 0 (\<lambda>_. 0) walk_mem = read_bytes 1 walk_regs 8 0xFFFF888000001FFD 0 (\<lambda>_. 0) walk_mem"
  by (rule read_q_bytewise [where a = "0x3024"]) (simp_all add: walks_def walk_demo_regs walk_mem_def)

section \<open>The guest of the detection module\<close>

definition linear_walk :: "mmu_regs \<Rightarrow> u32 \<Rightarrow> host_mem \<Rightarrow> u64 \<Rightarrow> arch_end \<times> ram" where
  "linear_walk c a s v = arch_walk s (phys_bits a) (walk_data c False False False) v 4 (cr3_table c) (ram s)"

text \<open>The memory fields of \<open>guest\<close>, which the model of the detection module is written over, as the page tables give them.\<close>

definition paging_guest :: "mmu_regs \<Rightarrow> u32 \<Rightarrow> host_mem \<Rightarrow> guest \<Rightarrow> guest" where
  "paging_guest c a s g = g\<lparr>
     linear_byte := \<lambda>v. (case fst (linear_walk c a s v) of
       Maps p \<Rightarrow> Some (ram s (fst (gmm_pass_gp2hp s (p OR v AND 0xFFF)))) | _ \<Rightarrow> None),
     guest_phys := \<lambda>v. (case fst (linear_walk c a s v) of
       Maps p \<Rightarrow> p OR v AND 0xFFF | Faults e \<Rightarrow> vmmerr_number e | Panics \<Rightarrow> 0)\<rparr>"

text \<open>
  The accessed bits of the tables are set already, none of the tables belongs to the hypervisor or a device, no entry has the bit 8
  that the program takes as reserved, and the byte is ordinary memory.
\<close>

definition settled :: "mmu_regs \<Rightarrow> u32 \<Rightarrow> host_mem \<Rightarrow> u64 \<Rightarrow> bool" where
  "settled c a s v \<longleftrightarrow> \<not> meets_bit8 s (phys_bits a) (walk_data c False False False) v 4 (cr3_table c) (ram s) \<and>
     snd (linear_walk c a s v) = ram s \<and>
     (case fst (linear_walk c a s v) of Panics \<Rightarrow> False | Faults e \<Rightarrow> True | Maps p \<Rightarrow> \<not> mmio s (p OR v AND 0xFFF))"

lemma get_pte_walk:
  assumes "walks n c a" "others s = []" "\<not> meets_bit8 s (phys_bits a) (walk_data c False False False) v 4 (cr3_table c) (ram s)"
  shows "case linear_walk c a s v of
      (Panics, r) \<Rightarrow> get_pte n c v False False False s = None
    | (Faults err, r) \<Rightarrow> get_pte n c v False False False s = Some (Inl err, s\<lparr>ram := r\<rparr>)
    | (Maps p, r) \<Rightarrow> \<exists>pte. get_pte n c v False False False s = Some (Inr pte, s\<lparr>ram := r\<rparr>) \<and> gphys_of c pte v = p OR v AND 0xFFF"
proof -
  have "linear_walk c a s v = table_walk s (phys_bits a) (walk_data c False False False) v 4 (cr3_table c) (ram s)"
    using table_walk_bit8 [of s "phys_bits a" "walk_data c False False False" v 4 "cr3_table c" "ram s"] assms(3)
    by (simp add: linear_walk_def)
  then show ?thesis using get_pte_table [of c a s n v False False False] assms(1,2) by (simp add: walks_def)
qed

lemma read_b_settled:
  assumes "walks n c a" "others s = []" "settled c a s v"
  shows "\<exists>r. read_linearaddr_b n c v dat dst s = Some (r,
    (case linear_byte (paging_guest c a s g) v of Some b \<Rightarrow> dst(dat := b) | None \<Rightarrow> dst), s)"
proof -
  obtain q r where w: "linear_walk c a s v = (q, r)" by fastforce
  have r: "s\<lparr>ram := r\<rparr> = s" using assms(3) by (simp add: settled_def w)
  note bit8 = assms(3) [unfolded settled_def, THEN conjunct1]
  have pb: "put_bytes 1 p dat dst = dst(dat := p 0)" for p
    by (rule ext) (auto simp: put_bytes_def)
  show ?thesis
  proof (cases q)
    case Panics
    then show ?thesis using assms(3) by (simp add: settled_def w)
  next
    case (Faults e)
    then have "get_pte n c v False False False s = Some (Inl e, s)" using get_pte_walk [OF assms(1,2) bit8] by (simp add: w r)
    then show ?thesis by (simp add: read_linearaddr_b_def read_page_def paging_guest_def w Faults)
  next
    case (Maps p)
    then obtain pte where "get_pte n c v False False False s = Some (Inr pte, s)" "gphys_of c pte v = p OR v AND 0xFFF"
      using get_pte_walk [OF assms(1,2) bit8] by (auto simp: w r)
    moreover have "\<not> mmio_hit s (p OR v AND 0xFFF) 1" using assms(3) by (simp add: settled_def w Maps mmio_hit_iff)
    ultimately show ?thesis
      by (simp add: read_linearaddr_b_def read_page_def read_gphys_b_def read_part_quiet [OF assms(2)] paging_guest_def w Maps pb
          del: One_nat_def)
  qed
qed

lemma read_loop_settled:
  assumes "walks n c a" "others s = []"
  shows "\<forall>j < k. settled c a s (v + of_nat j) \<Longrightarrow> read_virtaddr_loop n c k v dat dst s =
    Some (\<lambda>j. if dat \<le> j \<and> j < dat + k then (case linear_byte (paging_guest c a s g) (v + of_nat (j - dat)) of Some b \<Rightarrow> b | None \<Rightarrow> dst j) else dst j, s)"
proof (induction k arbitrary: v dat dst)
  case 0
  show ?case by (auto simp: fun_eq_iff)
next
  case (Suc k)
  define lb where "lb = linear_byte (paging_guest c a s g)"
  define dst' where "dst' = (case lb v of Some b \<Rightarrow> dst(dat := b) | None \<Rightarrow> dst)"
  obtain r where r: "read_linearaddr_b n c v dat dst s = Some (r, dst', s)"
    using read_b_settled [OF assms, of v dat dst g] Suc.prems [rule_format, of 0] by (auto simp: dst'_def lb_def)
  have "\<forall>j < k. settled c a s (v + 1 + of_nat j)"
  proof (intro allI impI)
    fix j assume "j < k"
    then show "settled c a s (v + 1 + of_nat j)" using Suc.prems [rule_format, of "Suc j"] by (simp add: algebra_simps)
  qed
  note IH = Suc.IH [OF this, of "dat + 1" dst', folded lb_def]
  have "(\<lambda>j. if dat + 1 \<le> j \<and> j < dat + 1 + k then (case lb (v + 1 + of_nat (j - (dat + 1))) of Some b \<Rightarrow> b | None \<Rightarrow> dst' j) else dst' j) =
      (\<lambda>j. if dat \<le> j \<and> j < dat + Suc k then (case lb (v + of_nat (j - dat)) of Some b \<Rightarrow> b | None \<Rightarrow> dst j) else dst j)"
  proof
    fix j
    show "(if dat + 1 \<le> j \<and> j < dat + 1 + k then (case lb (v + 1 + of_nat (j - (dat + 1))) of Some b \<Rightarrow> b | None \<Rightarrow> dst' j) else dst' j) =
      (if dat \<le> j \<and> j < dat + Suc k then (case lb (v + of_nat (j - dat)) of Some b \<Rightarrow> b | None \<Rightarrow> dst j) else dst j)"
    proof (cases "j \<le> dat")
      case True
      then show ?thesis by (auto simp: dst'_def split: option.split)
    next
      case False
      then have "j - dat = Suc (j - (dat + 1))" "dst' j = dst j" by (auto simp: dst'_def split: option.split)
      then show ?thesis using False by (simp add: algebra_simps split: option.split)
    qed
  qed
  then show ?case unfolding lb_def [symmetric] using IH by (simp add: r)
qed

text \<open>
  C11: The reading loop of the detection module, over the page tables of a guest in long mode, returns the bytes that \<open>read_guest\<close>
  returns for the guest whose linear memory is what the architecture's walk gives, with the destination kept where a page is missing,
  and leaves memory as it is; provided that physical addresses have at most 48 bits, no other processor writes meanwhile, and for
  every address read the accessed bits of its tables are set already, the tables lie in the guest's own memory and have no bit 8 in
  the upper levels, and the byte itself is not a device's.
\<close>

theorem guest_memory_read:
  assumes "walks n c a" "others s = []" "\<forall>j < k. settled c a s (v + of_nat j)"
  shows "read_virtaddr_loop n c k v 0 dst s = Some (read_guest (paging_guest c a s g) v k dst, s)"
  using read_loop_settled [OF assms, of 0 dst g, unfolded diff_zero] by (simp add: read_guest_def)

theorem guest_memory_read_witness:
  "read_virtaddr_loop 1 walk_regs 8 0xFFFF888000001230 0 (\<lambda>_. 0) walk_mem =
     Some (read_guest (paging_guest walk_regs 0x3024 walk_mem ring_demo) 0xFFFF888000001230 8 (\<lambda>_. 0), walk_mem)"
proof (rule guest_memory_read)
  have "linear_walk walk_regs 0x3024 walk_mem v = (Maps 0x1000, ram walk_mem)" for v
    using table_walk_end(2) [OF walk_demo_maps] by (simp add: linear_walk_def)
  moreover have "\<not> meets_bit8 walk_mem (phys_bits 0x3024) (walk_data walk_regs False False False) v 4 (cr3_table walk_regs) (ram walk_mem)" for v
    by (rule table_walk_end(1) [OF walk_demo_maps]) simp
  ultimately show "\<forall>j < 8. settled walk_regs 0x3024 walk_mem (0xFFFF888000001230 + of_nat j)"
    by (simp add: settled_def) (simp add: walk_mem_def)
qed (simp_all add: walks_def walk_demo_regs walk_mem_def)

text \<open>After any walk to a mapped page without the bit, the tables of the page are settled.\<close>

lemma walk_settles:
  assumes "\<not> meets_bit8 s (phys_bits a) (walk_data c False False False) v 4 (cr3_table c) (ram s)"
    "linear_walk c a s v = (Maps p, r)" "drop_bit 12 v' = drop_bit 12 v"
  shows "linear_walk c a (s\<lparr>ram := r\<rparr>) v' = (Maps p, r)"
    "\<not> meets_bit8 (s\<lparr>ram := r\<rparr>) (phys_bits a) (walk_data c False False False) v' 4 (cr3_table c) r"
proof -
  have "32 \<le> phys_bits a" by (simp add: phys_bits_def)
  moreover have "table_walk s (phys_bits a) (walk_data c False False False) v 4 (cr3_table c) (ram s) = (Maps p, r)"
    using table_walk_bit8 [of s "phys_bits a" "walk_data c False False False" v 4 "cr3_table c" "ram s"] assms(1,2)
    by (simp add: linear_walk_def)
  ultimately have "table_walk (s\<lparr>ram := r\<rparr>) (phys_bits a) (walk_data c False False False) v' 4 (cr3_table c) r = (Maps p, r)"
    using table_walk_again [OF _ _ cr3_table_aligned] table_walk_page [OF assms(3)] by simp
  note w = table_walk_end [OF this]
  show "linear_walk c a (s\<lparr>ram := r\<rparr>) v' = (Maps p, r)"
    "\<not> meets_bit8 (s\<lparr>ram := r\<rparr>) (phys_bits a) (walk_data c False False False) v' 4 (cr3_table c) r"
    using w by (simp_all add: linear_walk_def)
qed

lemma guestvirt_settled:
  assumes "walks n c a" "others s = []" "settled c a s v"
  shows "guestvirt_to_guestphys n c v s = Some (guest_phys (paging_guest c a s g) v, s)"
proof -
  note bit8 = assms(3) [unfolded settled_def, THEN conjunct1]
  obtain q where w: "linear_walk c a s v = (q, ram s)" using assms(3) by (metis settled_def prod.collapse)
  moreover have "q \<noteq> Panics" using assms(3) by (auto simp: settled_def w)
  ultimately show ?thesis using get_pte_walk [OF assms(1,2) bit8]
    by (cases q) (auto simp: guestvirt_to_guestphys_def paging_guest_def)
qed

text \<open>For a missing page the address is the number of the error.\<close>

lemma guestvirt_missing:
  assumes "walks n c a" "others s = []" "\<not> meets_bit8 s (phys_bits a) (walk_data c False False False) v 4 (cr3_table c) (ram s)"
    "linear_walk c a s v = (Faults VMMERR_PAGE_NOT_PRESENT, r)"
  shows "guestvirt_to_guestphys n c v s = Some (4, s\<lparr>ram := r\<rparr>)"
  using get_pte_walk [OF assms(1-3)] assms(4) by (simp add: guestvirt_to_guestphys_def)

end
